(* ===== verification/Prelude.thy ===== *)
theory Prelude
  imports Main "HOL-Library.Word"
begin

text \<open>
  Shared vocabulary of the development: the machine types of the C++ sources, results of
  fallible code, and the list lemmas several components use.

  \<^item> A C++ \<^verbatim>\<open>char\<close> or \<^verbatim>\<open>std::uint8_t\<close> is a \<open>byte\<close>; a \<^verbatim>\<open>buffer\<close>, \<^verbatim>\<open>std::string\<close> or
    \<^verbatim>\<open>static_vector<char, N>\<close> is a list of bytes.
  \<^item> A \<^verbatim>\<open>std::size_t\<close> is a \<open>nat\<close>: the sizes of the code are bounded by the memory that holds
    the data, far below \<open>2 ^ 64\<close>.
  \<^item> A value that a function returns together with an \<^verbatim>\<open>error_code\<close>, or an exception, is a
    value of the sum type, \<open>Inl\<close> for the error.
  \<^item> \<^verbatim>\<open>BOOST_ASSERT\<close> is a debugging aid that release builds drop: in the engine and the packets the
    model does not evaluate it, and the conditions it checks appear as hypotheses or as proved facts. The
    endpoint, the client and the maps of the broker have a value of their own for a failing assertion.
\<close>

type_synonym byte = "8 word"
type_synonym bytes = "8 word list"

named_theorems codec_simps \<open>rewrite rules that evaluate encoders and decoders\<close>
named_theorems inv_intros \<open>preservation rules for component invariants\<close>

subsection \<open>Results\<close>

text \<open>Sequencing of fallible steps: the first error ends the computation.\<close>

definition bindE :: "'e + 'a \<Rightarrow> ('a \<Rightarrow> 'e + 'b) \<Rightarrow> 'e + 'b" where
  "bindE m f = (case m of Inl e \<Rightarrow> Inl e | Inr x \<Rightarrow> f x)"

lemma bindE_simps [simp]:
  "bindE (Inl e) f = Inl e"
  "bindE (Inr x) f = f x"
  by (simp_all add: bindE_def)

lemma bindE_eq_Inr:
  "bindE m f = Inr y \<longleftrightarrow> (\<exists>x. m = Inr x \<and> f x = Inr y)"
  by (cases m) simp_all

lemma bindE_assoc: "bindE (bindE m f) g = bindE m (\<lambda>x. bindE (f x) g)"
  by (cases m) simp_all

subsection \<open>Lists\<close>

lemma take_append_exact [simp]: "length xs = n \<Longrightarrow> take n (xs @ ys) = xs"
  by simp

lemma drop_append_exact [simp]: "length xs = n \<Longrightarrow> drop n (xs @ ys) = ys"
  by simp

lemma remove1_middle: "x \<notin> set xs \<Longrightarrow> remove1 x (xs @ x # ys) = xs @ ys"
  by (simp add: remove1_append)

subsection \<open>Positional numbers\<close>

lemma div_radix: "b < n \<Longrightarrow> (a * n + b) div n = (a :: nat)"
  by simp

lemma mod_radix: "b < n \<Longrightarrow> (a * n + b) mod n = (b :: nat)"
  by simp

subsection \<open>Bytes\<close>

lemma unat_byte_less [simp]: "unat (b :: byte) < 256"
  using unsigned_less [of b] by simp

lemma byte_of_nat_unat [simp]: "(of_nat (unat b) :: byte) = b"
  by simp

lemma unat_byte_of_nat: "unat (of_nat n :: byte) = n mod 256"
  by (simp add: unat_of_nat)

end
