(* ===== verification/Error_Codes.thy ===== *)
theory Error_Codes
  imports Prelude
begin

text \<open>
  Error codes (\<^verbatim>\<open>protocol/error.hpp\<close>, \<^verbatim>\<open>protocol/impl/error.hpp\<close>). A
  \<^verbatim>\<open>boost::system::error_code\<close> is a value with a category. The enumerations are tables of the
  enumerator's name, its value and whether its comment says it is not an error; a C++ scoped enum
  holds any value of its underlying type, so the conversions to strings are functions on numbers
  with the default branch of their switch.
\<close>

datatype error_category = Cat_system | Cat_mqtt_error | Cat_connect_return_code | Cat_suback_return_code
  | Cat_connect_reason_code | Cat_disconnect_reason_code | Cat_suback_reason_code
  | Cat_unsuback_reason_code | Cat_puback_reason_code | Cat_pubrec_reason_code
  | Cat_pubrel_reason_code | Cat_pubcomp_reason_code | Cat_auth_reason_code

datatype error_code = Error_Code (ec_category: error_category) (ec_value: nat)

type_synonym enum_table = "(string \<times> nat \<times> bool) list"

definition switch_string :: "(nat \<times> string) list \<Rightarrow> string \<Rightarrow> nat \<Rightarrow> string" where
  "switch_string cases dflt v = (case map_of cases v of Some s \<Rightarrow> s | None \<Rightarrow> dflt)"

subsection \<open>The enumerations and their strings\<close>

definition mqtt_error_enum :: "enum_table" where
  "mqtt_error_enum = [
     (''partial_error_detected'', 0x101, True), (''packet_enqueued'', 0x102, True),
     (''all_error_detected'', 0x180, False), (''packet_identifier_fully_used'', 0x181, False),
     (''packet_identifier_conflict'', 0x182, False), (''packet_identifier_invalid'', 0x183, False),
     (''packet_not_allowed_to_send'', 0x184, False), (''packet_not_allowed_to_store'', 0x185, False),
     (''packet_not_regulated'', 0x186, False)]"

definition connect_return_code_enum :: "enum_table" where
  "connect_return_code_enum = [
     (''accepted'', 0x0, True), (''unacceptable_protocol_version'', 0x1, False),
     (''identifier_rejected'', 0x2, False), (''server_unavailable'', 0x3, False),
     (''bad_user_name_or_password'', 0x4, False), (''not_authorized'', 0x5, False)]"

definition suback_return_code_enum :: "enum_table" where
  "suback_return_code_enum = [
     (''success_maximum_qos_0'', 0x0, True), (''success_maximum_qos_1'', 0x1, True),
     (''success_maximum_qos_2'', 0x2, True), (''failure'', 0x80, False)]"

definition connect_reason_code_enum :: "enum_table" where
  "connect_reason_code_enum = [
     (''success'', 0x0, True), (''unspecified_error'', 0x80, False), (''malformed_packet'', 0x81, False),
     (''protocol_error'', 0x82, False), (''implementation_specific_error'', 0x83, False),
     (''unsupported_protocol_version'', 0x84, False), (''client_identifier_not_valid'', 0x85, False),
     (''bad_user_name_or_password'', 0x86, False), (''not_authorized'', 0x87, False),
     (''server_unavailable'', 0x88, False), (''server_busy'', 0x89, False), (''banned'', 0x8a, False),
     (''bad_authentication_method'', 0x8c, False), (''topic_name_invalid'', 0x90, False),
     (''packet_too_large'', 0x95, False), (''quota_exceeded'', 0x97, False),
     (''payload_format_invalid'', 0x99, False), (''retain_not_supported'', 0x9a, False),
     (''qos_not_supported'', 0x9b, False), (''use_another_server'', 0x9c, False),
     (''server_moved'', 0x9d, False), (''connection_rate_exceeded'', 0x9f, False)]"

definition disconnect_reason_code_enum :: "enum_table" where
  "disconnect_reason_code_enum = [
     (''normal_disconnection'', 0x0, True), (''disconnect_with_will_message'', 0x4, True),
     (''unspecified_error'', 0x80, False), (''malformed_packet'', 0x81, False),
     (''protocol_error'', 0x82, False), (''implementation_specific_error'', 0x83, False),
     (''not_authorized'', 0x87, False), (''server_busy'', 0x89, False),
     (''server_shutting_down'', 0x8b, False), (''keep_alive_timeout'', 0x8d, False),
     (''session_taken_over'', 0x8e, False), (''topic_filter_invalid'', 0x8f, False),
     (''topic_name_invalid'', 0x90, False), (''receive_maximum_exceeded'', 0x93, False),
     (''topic_alias_invalid'', 0x94, False), (''packet_too_large'', 0x95, False),
     (''message_rate_too_high'', 0x96, False), (''quota_exceeded'', 0x97, False),
     (''administrative_action'', 0x98, False), (''payload_format_invalid'', 0x99, False),
     (''retain_not_supported'', 0x9a, False), (''qos_not_supported'', 0x9b, False),
     (''use_another_server'', 0x9c, False), (''server_moved'', 0x9d, False),
     (''shared_subscriptions_not_supported'', 0x9e, False), (''connection_rate_exceeded'', 0x9f, False),
     (''maximum_connect_time'', 0xa0, False), (''subscription_identifiers_not_supported'', 0xa1, False),
     (''wildcard_subscriptions_not_supported'', 0xa2, False)]"

definition suback_reason_code_enum :: "enum_table" where
  "suback_reason_code_enum = [
     (''granted_qos_0'', 0x0, True), (''granted_qos_1'', 0x1, True), (''granted_qos_2'', 0x2, True),
     (''unspecified_error'', 0x80, False), (''implementation_specific_error'', 0x83, False),
     (''not_authorized'', 0x87, False), (''topic_filter_invalid'', 0x8f, False),
     (''packet_identifier_in_use'', 0x91, False), (''quota_exceeded'', 0x97, False),
     (''shared_subscriptions_not_supported'', 0x9e, False),
     (''subscription_identifiers_not_supported'', 0xa1, False),
     (''wildcard_subscriptions_not_supported'', 0xa2, False)]"

definition unsuback_reason_code_enum :: "enum_table" where
  "unsuback_reason_code_enum = [
     (''success'', 0x0, True), (''no_subscription_existed'', 0x11, True),
     (''unspecified_error'', 0x80, False), (''implementation_specific_error'', 0x83, False),
     (''not_authorized'', 0x87, False), (''topic_filter_invalid'', 0x8f, False),
     (''packet_identifier_in_use'', 0x91, False)]"

definition puback_reason_code_enum :: "enum_table" where
  "puback_reason_code_enum = [
     (''success'', 0x0, True), (''no_matching_subscribers'', 0x10, True),
     (''unspecified_error'', 0x80, False), (''implementation_specific_error'', 0x83, False),
     (''not_authorized'', 0x87, False), (''topic_name_invalid'', 0x90, False),
     (''packet_identifier_in_use'', 0x91, False), (''quota_exceeded'', 0x97, False),
     (''payload_format_invalid'', 0x99, False)]"

definition pubrec_reason_code_enum :: "enum_table" where
  "pubrec_reason_code_enum = [
     (''success'', 0x0, True), (''no_matching_subscribers'', 0x10, True),
     (''unspecified_error'', 0x80, False), (''implementation_specific_error'', 0x83, False),
     (''not_authorized'', 0x87, False), (''topic_name_invalid'', 0x90, False),
     (''packet_identifier_in_use'', 0x91, False), (''quota_exceeded'', 0x97, False),
     (''payload_format_invalid'', 0x99, False)]"

definition pubrel_reason_code_enum :: "enum_table" where
  "pubrel_reason_code_enum = [
     (''success'', 0x0, True), (''packet_identifier_not_found'', 0x92, False)]"

definition pubcomp_reason_code_enum :: "enum_table" where
  "pubcomp_reason_code_enum = [
     (''success'', 0x0, True), (''packet_identifier_not_found'', 0x92, False)]"

definition auth_reason_code_enum :: "enum_table" where
  "auth_reason_code_enum = [
     (''success'', 0x0, True), (''continue_authentication'', 0x18, True), (''re_authenticate'', 0x19, True)]"

definition mqtt_error_to_string :: "nat \<Rightarrow> string" where
  "mqtt_error_to_string = switch_string [
     (0x101, ''partial_error_detected''), (0x180, ''all_error_detected''),
     (0x181, ''packet_identifier_fully_used''), (0x182, ''packet_identifier_conflict''),
     (0x183, ''packet_identifier_invalid''), (0x184, ''packet_not_allowed_to_send''),
     (0x185, ''packet_not_allowed_to_store''), (0x186, ''packet_not_regulated'')]
     ''unknown_mqtt_error''"

definition connect_return_code_to_string :: "nat \<Rightarrow> string" where
  "connect_return_code_to_string = switch_string [
     (0x0, ''accepted''), (0x1, ''unacceptable_protocol_version''), (0x2, ''identifier_rejected''),
     (0x3, ''server_unavailable''), (0x4, ''bad_user_name_or_password''), (0x5, ''not_authorized'')]
     ''unknown_connect_return_code''"

definition suback_return_code_to_string :: "nat \<Rightarrow> string" where
  "suback_return_code_to_string = switch_string [
     (0x0, ''success_maximum_qos_0''), (0x1, ''success_maximum_qos_1''), (0x2, ''success_maximum_qos_2''),
     (0x80, ''failure'')]
     ''unknown_suback_return_code''"

definition connect_reason_code_to_string :: "nat \<Rightarrow> string" where
  "connect_reason_code_to_string = switch_string [
     (0x0, ''success''), (0x80, ''unspecified_error''), (0x81, ''malformed_packet''),
     (0x82, ''protocol_error''), (0x83, ''implementation_specific_error''),
     (0x84, ''unsupported_protocol_version''), (0x85, ''client_identifier_not_valid''),
     (0x86, ''bad_user_name_or_password''), (0x87, ''not_authorized''), (0x88, ''server_unavailable''),
     (0x89, ''server_busy''), (0x8a, ''banned''), (0x8c, ''bad_authentication_method''),
     (0x90, ''topic_name_invalid''), (0x95, ''packet_too_large''), (0x97, ''quota_exceeded''),
     (0x99, ''payload_format_invalid''), (0x9a, ''retain_not_supported''), (0x9b, ''qos_not_supported''),
     (0x9c, ''use_another_server''), (0x9d, ''server_moved''), (0x9f, ''connection_rate_exceeded'')]
     ''unknown_connect_reason_code''"

definition disconnect_reason_code_to_string :: "nat \<Rightarrow> string" where
  "disconnect_reason_code_to_string = switch_string [
     (0x0, ''normal_disconnection''), (0x4, ''disconnect_with_will_message''), (0x80, ''unspecified_error''),
     (0x81, ''malformed_packet''), (0x82, ''protocol_error''), (0x83, ''implementation_specific_error''),
     (0x87, ''not_authorized''), (0x89, ''server_busy''), (0x8b, ''server_shutting_down''),
     (0x8d, ''keep_alive_timeout''), (0x8e, ''session_taken_over''), (0x8f, ''topic_filter_invalid''),
     (0x90, ''topic_name_invalid''), (0x93, ''receive_maximum_exceeded''), (0x94, ''topic_alias_invalid''),
     (0x95, ''packet_too_large''), (0x96, ''message_rate_too_high''), (0x97, ''quota_exceeded''),
     (0x98, ''administrative_action''), (0x99, ''payload_format_invalid''), (0x9a, ''retain_not_supported''),
     (0x9b, ''qos_not_supported''), (0x9c, ''use_another_server''), (0x9d, ''server_moved''),
     (0x9e, ''shared_subscriptions_not_supported''), (0x9f, ''connection_rate_exceeded''),
     (0xa0, ''maximum_connect_time''), (0xa1, ''subscription_identifiers_not_supported''),
     (0xa2, ''wildcard_subscriptions_not_supported'')]
     ''unknown_disconnect_reason_code''"

definition suback_reason_code_to_string :: "nat \<Rightarrow> string" where
  "suback_reason_code_to_string = switch_string [
     (0x0, ''granted_qos_0''), (0x1, ''granted_qos_1''), (0x2, ''granted_qos_2''),
     (0x80, ''unspecified_error''), (0x83, ''implementation_specific_error''), (0x87, ''not_authorized''),
     (0x8f, ''topic_filter_invalid''), (0x91, ''packet_identifier_in_use''), (0x97, ''quota_exceeded''),
     (0x9e, ''shared_subscriptions_not_supported''), (0xa1, ''subscription_identifiers_not_supported''),
     (0xa2, ''wildcard_subscriptions_not_supported'')]
     ''unknown_suback_reason_code''"

definition unsuback_reason_code_to_string :: "nat \<Rightarrow> string" where
  "unsuback_reason_code_to_string = switch_string [
     (0x0, ''success''), (0x11, ''no_subscription_existed''), (0x80, ''unspecified_error''),
     (0x83, ''implementation_specific_error''), (0x87, ''not_authorized''), (0x8f, ''topic_filter_invalid''),
     (0x91, ''packet_identifier_in_use'')]
     ''unknown_unsuback_reason_code''"

definition puback_reason_code_to_string :: "nat \<Rightarrow> string" where
  "puback_reason_code_to_string = switch_string [
     (0x0, ''success''), (0x10, ''no_matching_subscribers''), (0x80, ''unspecified_error''),
     (0x83, ''implementation_specific_error''), (0x87, ''not_authorized''), (0x90, ''topic_name_invalid''),
     (0x91, ''packet_identifier_in_use''), (0x97, ''quota_exceeded''), (0x99, ''payload_format_invalid'')]
     ''unknown_puback_reason_code''"

definition pubrec_reason_code_to_string :: "nat \<Rightarrow> string" where
  "pubrec_reason_code_to_string = switch_string [
     (0x0, ''success''), (0x10, ''no_matching_subscribers''), (0x80, ''unspecified_error''),
     (0x83, ''implementation_specific_error''), (0x87, ''not_authorized''), (0x90, ''topic_name_invalid''),
     (0x91, ''packet_identifier_in_use''), (0x97, ''quota_exceeded''), (0x99, ''payload_format_invalid'')]
     ''unknown_pubrec_reason_code''"

definition pubrel_reason_code_to_string :: "nat \<Rightarrow> string" where
  "pubrel_reason_code_to_string = switch_string [
     (0x0, ''success''), (0x92, ''packet_identifier_not_found'')]
     ''unknown_pubrel_reason_code''"

definition pubcomp_reason_code_to_string :: "nat \<Rightarrow> string" where
  "pubcomp_reason_code_to_string = switch_string [
     (0x0, ''success''), (0x92, ''packet_identifier_not_found'')]
     ''unknown_pubcomp_reason_code''"

definition auth_reason_code_to_string :: "nat \<Rightarrow> string" where
  "auth_reason_code_to_string = switch_string [
     (0x0, ''success''), (0x18, ''continue_authentication''), (0x19, ''re_authenticate'')]
     ''unknown_auth_reason_code''"

subsection \<open>Categories\<close>

text \<open>
  The members of the categories. \<^verbatim>\<open>failed\<close> of \<^verbatim>\<open>connect_return_code\<close> and of the
  system category is the one of \<^verbatim>\<open>boost::system::error_category\<close>: the value is not 0. Values
  are the bytes of the enumerations, or the constants of \<^verbatim>\<open>mqtt_error\<close>, so the \<^verbatim>\<open>int\<close> is not
  negative; the bit test of \<^verbatim>\<open>mqtt_error\<close> is written as the bit with weight 128.
\<close>

fun category_message :: "error_category \<Rightarrow> nat \<Rightarrow> string option" where
  "category_message Cat_system v = None"
| "category_message Cat_mqtt_error v = Some (mqtt_error_to_string v)"
| "category_message Cat_connect_return_code v = Some (connect_return_code_to_string v)"
| "category_message Cat_suback_return_code v = Some (suback_return_code_to_string v)"
| "category_message Cat_connect_reason_code v = Some (connect_reason_code_to_string v)"
| "category_message Cat_disconnect_reason_code v = Some (disconnect_reason_code_to_string v)"
| "category_message Cat_suback_reason_code v = Some (suback_reason_code_to_string v)"
| "category_message Cat_unsuback_reason_code v = Some (unsuback_reason_code_to_string v)"
| "category_message Cat_puback_reason_code v = Some (puback_reason_code_to_string v)"
| "category_message Cat_pubrec_reason_code v = Some (pubrec_reason_code_to_string v)"
| "category_message Cat_pubrel_reason_code v = Some (pubrel_reason_code_to_string v)"
| "category_message Cat_pubcomp_reason_code v = Some (pubcomp_reason_code_to_string v)"
| "category_message Cat_auth_reason_code v = Some (auth_reason_code_to_string v)"

fun category_failed :: "error_category \<Rightarrow> nat \<Rightarrow> bool" where
  "category_failed Cat_system v \<longleftrightarrow> v \<noteq> 0"
| "category_failed Cat_mqtt_error v \<longleftrightarrow> odd (v div 0x80)"
| "category_failed Cat_connect_return_code v \<longleftrightarrow> v \<noteq> 0"
| "category_failed Cat_suback_return_code v \<longleftrightarrow> 0x80 \<le> v"
| "category_failed Cat_connect_reason_code v \<longleftrightarrow> 0x80 \<le> v"
| "category_failed Cat_disconnect_reason_code v \<longleftrightarrow> 0x80 \<le> v"
| "category_failed Cat_suback_reason_code v \<longleftrightarrow> 0x80 \<le> v"
| "category_failed Cat_unsuback_reason_code v \<longleftrightarrow> 0x80 \<le> v"
| "category_failed Cat_puback_reason_code v \<longleftrightarrow> 0x80 \<le> v"
| "category_failed Cat_pubrec_reason_code v \<longleftrightarrow> 0x80 \<le> v"
| "category_failed Cat_pubrel_reason_code v \<longleftrightarrow> 0x80 \<le> v"
| "category_failed Cat_pubcomp_reason_code v \<longleftrightarrow> 0x80 \<le> v"
| "category_failed Cat_auth_reason_code v \<longleftrightarrow> 0x80 \<le> v"

text \<open>The enumeration a category belongs to.\<close>

fun category_enum :: "error_category \<Rightarrow> enum_table" where
  "category_enum Cat_system = []"
| "category_enum Cat_mqtt_error = mqtt_error_enum"
| "category_enum Cat_connect_return_code = connect_return_code_enum"
| "category_enum Cat_suback_return_code = suback_return_code_enum"
| "category_enum Cat_connect_reason_code = connect_reason_code_enum"
| "category_enum Cat_disconnect_reason_code = disconnect_reason_code_enum"
| "category_enum Cat_suback_reason_code = suback_reason_code_enum"
| "category_enum Cat_unsuback_reason_code = unsuback_reason_code_enum"
| "category_enum Cat_puback_reason_code = puback_reason_code_enum"
| "category_enum Cat_pubrec_reason_code = pubrec_reason_code_enum"
| "category_enum Cat_pubrel_reason_code = pubrel_reason_code_enum"
| "category_enum Cat_pubcomp_reason_code = pubcomp_reason_code_enum"
| "category_enum Cat_auth_reason_code = auth_reason_code_enum"

text \<open>\<^verbatim>\<open>make_error_code\<close> of an enumerator, and \<^verbatim>\<open>error_code::operator bool\<close>.\<close>

definition make_error_code :: "error_category \<Rightarrow> nat \<Rightarrow> error_code" where
  "make_error_code c v = Error_Code c v"

definition ec_failed :: "error_code \<Rightarrow> bool" where
  "ec_failed e \<longleftrightarrow> category_failed (ec_category e) (ec_value e)"

definition ec_success :: error_code where
  "ec_success = Error_Code Cat_system 0"

text \<open>The codes the protocol code creates.\<close>

abbreviation mqtt_err :: "nat \<Rightarrow> error_code" where "mqtt_err \<equiv> Error_Code Cat_mqtt_error"
abbreviation disconnect_err :: "nat \<Rightarrow> error_code" where "disconnect_err \<equiv> Error_Code Cat_disconnect_reason_code"
abbreviation connect_err :: "nat \<Rightarrow> error_code" where "connect_err \<equiv> Error_Code Cat_connect_reason_code"
abbreviation connect_return_err :: "nat \<Rightarrow> error_code" where "connect_return_err \<equiv> Error_Code Cat_connect_return_code"

subsection \<open>Properties\<close>

lemmas enum_defs =
  mqtt_error_enum_def mqtt_error_to_string_def
  connect_return_code_enum_def connect_return_code_to_string_def
  suback_return_code_enum_def suback_return_code_to_string_def
  connect_reason_code_enum_def connect_reason_code_to_string_def
  disconnect_reason_code_enum_def disconnect_reason_code_to_string_def
  suback_reason_code_enum_def suback_reason_code_to_string_def
  unsuback_reason_code_enum_def unsuback_reason_code_to_string_def
  puback_reason_code_enum_def puback_reason_code_to_string_def
  pubrec_reason_code_enum_def pubrec_reason_code_to_string_def
  pubrel_reason_code_enum_def pubrel_reason_code_to_string_def
  pubcomp_reason_code_enum_def pubcomp_reason_code_to_string_def
  auth_reason_code_enum_def auth_reason_code_to_string_def

text \<open>
  In every category the values of the enumerators are distinct, an enumerator counts as a
  failure exactly if its comment does not call it ``not an error'', and the message of an error
  code is the enumerator's name, with one exception: \<^verbatim>\<open>mqtt_error::packet_enqueued\<close> has no case
  in its switch and is reported as unknown.
\<close>

theorem error_codes_consistent:
  "distinct (map (fst \<circ> snd) (category_enum c)) \<and>
   list_all (\<lambda>(name, v, not_an_error).
     (ec_failed (make_error_code c v) \<longleftrightarrow> \<not> not_an_error) \<and>
     category_message c v = Some (if name = ''packet_enqueued'' then ''unknown_mqtt_error'' else name))
     (category_enum c)"
  by (cases c) (simp_all add: enum_defs switch_string_def ec_failed_def make_error_code_def)

end
