(* ===== verification/Variable_Bytes.thy ===== *)
theory Variable_Bytes
  imports Prelude
begin

text \<open>
  Wire integers: the variable byte integers of \<^verbatim>\<open>util/variable_bytes.hpp\<close> and the big-endian
  integers of \<^verbatim>\<open>util/endian_convert.hpp\<close>, with the buffer readers built on them
  (\<^verbatim>\<open>protocol/packet/impl/copy_to_static_vector.hpp\<close>).
\<close>

unbundle bit_operations_syntax

subsection \<open>Variable byte integers\<close>

fun val_to_variable_bytes_loop :: "nat \<Rightarrow> bytes" where
  "val_to_variable_bytes_loop val =
     (if val > 127
      then ((of_nat val AND 0x7F) OR 0x80) # val_to_variable_bytes_loop (val div 128)
      else [of_nat val AND 0x7F])"

declare val_to_variable_bytes_loop.simps [simp del]

definition val_to_variable_bytes :: "nat \<Rightarrow> bytes" where
  "val_to_variable_bytes val =
     (if val > 0xfffffff then [] else val_to_variable_bytes_loop val)"

text \<open>The iterator \<^verbatim>\<open>it\<close> is a reference: the second component is what is left to read.\<close>

fun variable_bytes_to_val_loop :: "nat \<Rightarrow> nat \<Rightarrow> bytes \<Rightarrow> nat option \<times> bytes" where
  "variable_bytes_to_val_loop val mul [] = (None, [])"
| "variable_bytes_to_val_loop val mul (b # bs) =
     (if mul = 128 * 128 * 128 * 128 then (None, bs)
      else
        (let val' = val + unat (b AND 0x7F) * mul in
         if b AND 0x80 = 0 then (Some val', bs)
         else variable_bytes_to_val_loop val' (mul * 128) bs))"

definition variable_bytes_to_val :: "bytes \<Rightarrow> nat option \<times> bytes" where
  "variable_bytes_to_val bs = variable_bytes_to_val_loop 0 1 bs"

subsection \<open>Big-endian integers\<close>

text \<open>\<open>endian_store n v\<close> writes the \<open>n\<close> bytes of an \<open>n\<close>-byte unsigned integer.\<close>

fun endian_store :: "nat \<Rightarrow> nat \<Rightarrow> bytes" where
  "endian_store 0 v = []"
| "endian_store (Suc n) v = endian_store n (v div 256) @ [of_nat v]"

definition endian_load :: "bytes \<Rightarrow> nat" where
  "endian_load bs = foldl (\<lambda>acc b. acc * 256 + unat b) 0 bs"

subsection \<open>Reading from the front of a buffer\<close>

text \<open>
  \<^verbatim>\<open>insert_advance\<close> and \<^verbatim>\<open>copy_advance\<close> read exactly the capacity of the static vector and
  remove it from the buffer; they differ only in whether the vector was sized beforehand.
\<close>

definition insert_advance :: "nat \<Rightarrow> bytes \<Rightarrow> (bytes \<times> bytes) option" where
  "insert_advance n buf = (if length buf < n then None else Some (take n buf, drop n buf))"

definition copy_advance :: "nat \<Rightarrow> bytes \<Rightarrow> (bytes \<times> bytes) option" where
  "copy_advance n buf = (if length buf < n then None else Some (take n buf, drop n buf))"

text \<open>The value read, its encoding as it stood in the buffer, and the rest of the buffer.\<close>

definition insert_advance_variable_length :: "bytes \<Rightarrow> (nat \<times> bytes \<times> bytes) option" where
  "insert_advance_variable_length buf =
     (if buf = [] then None
      else
        (case variable_bytes_to_val buf of
           (None, _) \<Rightarrow> None
         | (Some val, rest) \<Rightarrow> Some (val, take (length buf - length rest) buf, rest)))"

subsection \<open>Bytes with a continuation bit\<close>

lemma and_0x7F: "unat ((of_nat n :: byte) AND 0x7F) = n mod 128"
proof -
  have "(of_nat n :: byte) AND 0x7F = take_bit 7 (of_nat n)"
    by (simp add: take_bit_eq_mask mask_eq_exp_minus_1)
  also have "unat \<dots> = n mod 128"
    unfolding unsigned_take_bit_eq unat_byte_of_nat by (simp add: take_bit_eq_mod mod_mod_cancel)
  finally show ?thesis .
qed

lemma byte_or_0x80:
  fixes b :: byte
  shows "((b AND 0x7F) OR 0x80) AND 0x80 = 0x80" and "((b AND 0x7F) OR 0x80) AND 0x7F = b AND 0x7F"
    and "(b AND 0x7F) AND 0x80 = 0" and "(b AND 0x7F) AND 0x7F = b AND 0x7F"
proof -
  have *: "(0x7F :: byte) AND 0x80 = 0" "(0x80 :: byte) AND 0x7F = 0" by simp_all
  show "((b AND 0x7F) OR 0x80) AND 0x80 = 0x80" "(b AND 0x7F) AND 0x80 = 0"
    by (simp_all add: bit.conj_disj_distrib2 and.assoc *)
  show "((b AND 0x7F) OR 0x80) AND 0x7F = b AND 0x7F" "(b AND 0x7F) AND 0x7F = b AND 0x7F"
    by (simp_all add: bit.conj_disj_distrib2 and.assoc *)
qed

subsection \<open>Round trip\<close>

lemma loop_roundtrip:
  assumes "val < 128 ^ k" and "0 < k" and "mul * 128 ^ k \<le> 128 ^ 4" and "0 < mul"
  shows "variable_bytes_to_val_loop acc mul (val_to_variable_bytes_loop val @ rest) =
         (Some (acc + val * mul), rest)"
  using assms
proof (induction k arbitrary: val acc mul)
  case (Suc k)
  have "mul * 1 \<le> mul * 128 ^ k" by (intro mult_left_mono) simp_all
  also have "\<dots> \<le> 128 ^ 3" using Suc.prems(3) by simp
  finally have mul: "mul \<noteq> 128 * 128 * 128 * 128" by simp
  show ?case
  proof (cases "val > 127")
    case False
    then show ?thesis
      using mul by (simp add: val_to_variable_bytes_loop.simps [of val] byte_or_0x80 and_0x7F)
  next
    case True
    then have k: "0 < k" using Suc.prems(1) by (cases k) auto
    have "val div 128 < 128 ^ k" using Suc.prems(1) by (simp add: less_mult_imp_div_less mult.commute)
    moreover have "mul * 128 * 128 ^ k \<le> 128 ^ 4" using Suc.prems(3) by (simp add: mult.assoc)
    ultimately have "variable_bytes_to_val_loop (acc + val mod 128 * mul) (mul * 128)
        (val_to_variable_bytes_loop (val div 128) @ rest) =
        (Some (acc + val mod 128 * mul + val div 128 * (mul * 128)), rest)"
      using Suc.IH k Suc.prems(4) by simp
    moreover have "val mod 128 * mul + val div 128 * (mul * 128) = val * mul"
      by (metis (no_types) add.commute add_mult_distrib div_mult_mod_eq mult.commute mult.left_commute)
    ultimately show ?thesis
      using True mul
      by (simp add: val_to_variable_bytes_loop.simps [of val] byte_or_0x80 and_0x7F add.assoc)
  qed
qed simp

lemma variable_bytes_roundtrip [codec_simps]:
  "val \<le> 0xfffffff \<Longrightarrow> variable_bytes_to_val (val_to_variable_bytes val @ rest) = (Some val, rest)"
  using loop_roundtrip [of val 4 1 0 rest]
  by (simp add: val_to_variable_bytes_def variable_bytes_to_val_def)

lemma variable_bytes_not_empty: "val \<le> 0xfffffff \<Longrightarrow> val_to_variable_bytes val \<noteq> []"
  by (simp add: val_to_variable_bytes_def val_to_variable_bytes_loop.simps [of val])

lemma variable_length_roundtrip [codec_simps]:
  "val \<le> 0xfffffff \<Longrightarrow>
   insert_advance_variable_length (val_to_variable_bytes val @ rest) =
   Some (val, val_to_variable_bytes val, rest)"
  by (simp add: insert_advance_variable_length_def variable_bytes_roundtrip variable_bytes_not_empty)

text \<open>The number of bytes of an encoding, and the range of what the decoder returns.\<close>

lemma loop_length:
  assumes "val < 128 ^ k" and "0 < k"
  shows "length (val_to_variable_bytes_loop val) \<le> k"
  using assms
proof (induction k arbitrary: val)
  case (Suc k)
  show ?case
  proof (cases "val > 127")
    case True
    then have "0 < k" using Suc.prems(1) by (cases k) auto
    moreover have "val div 128 < 128 ^ k"
      using Suc.prems(1) by (simp add: less_mult_imp_div_less mult.commute)
    ultimately show ?thesis
      using Suc.IH True by (simp add: val_to_variable_bytes_loop.simps [of val])
  qed (simp add: val_to_variable_bytes_loop.simps [of val])
qed simp

lemma variable_bytes_length: "length (val_to_variable_bytes val) \<le> 4"
  using loop_length [of val 4] by (simp add: val_to_variable_bytes_def)

lemma loop_decode_bound:
  assumes "variable_bytes_to_val_loop acc (128 ^ j) bs = (Some val, rest)" and "j \<le> 4"
    and "acc < 128 ^ j"
  shows "val < 128 ^ 4"
  using assms
proof (induction bs arbitrary: acc j)
  case (Cons b bs)
  have "unat (b AND 0x7F) < 128"
    using and_0x7F [of "unat b"] by (metis byte_of_nat_unat mod_less_divisor zero_less_numeral)
  then have "unat (b AND 0x7F) * 128 ^ j \<le> 127 * 128 ^ j"
    by (intro mult_right_mono) simp_all
  with Cons.prems(3) have acc: "acc + unat (b AND 0x7F) * 128 ^ j < 128 ^ Suc j"
    unfolding power_Suc by linarith
  have j: "j \<noteq> 4" using Cons.prems(1) by (auto split: if_splits)
  then have "128 ^ Suc j \<le> (128 ^ 4 :: nat)"
    using Cons.prems(2) by (intro power_increasing) auto
  show ?case
  proof (cases "b AND 0x80 = 0")
    case True
    with Cons.prems(1) j acc \<open>128 ^ Suc j \<le> 128 ^ 4\<close> show ?thesis
      by (auto simp: Let_def split: if_splits)
  next
    case False
    with Cons.prems(1) have
      "variable_bytes_to_val_loop (acc + unat (b AND 0x7F) * 128 ^ j) (128 ^ Suc j) bs = (Some val, rest)"
      by (auto simp: Let_def mult.commute split: if_splits)
    then show ?thesis using Cons.IH [OF _ _ acc] j Cons.prems(2) by simp
  qed
qed simp

lemma variable_bytes_decode_bound:
  "variable_bytes_to_val bs = (Some val, rest) \<Longrightarrow> val \<le> 0xfffffff"
  using loop_decode_bound [of 0 0 bs val rest] by (simp add: variable_bytes_to_val_def)

lemma loop_consumes: "variable_bytes_to_val_loop acc mul bs = (r, rest) \<Longrightarrow> \<exists>p. bs = p @ rest"
  by (induction acc mul bs rule: variable_bytes_to_val_loop.induct)
     (auto simp: Let_def split: if_splits)

lemma variable_bytes_consumes: "variable_bytes_to_val bs = (r, rest) \<Longrightarrow> length rest \<le> length bs"
  using loop_consumes [of 0 1 bs r rest] by (auto simp: variable_bytes_to_val_def)

subsection \<open>Big-endian round trip\<close>

lemma length_endian_store [simp]: "length (endian_store n v) = n"
  by (induction n arbitrary: v) simp_all

lemma endian_load_snoc: "endian_load (bs @ [b]) = endian_load bs * 256 + unat b"
  by (simp add: endian_load_def)

lemma endian_load_store [codec_simps, simp]: "v < 256 ^ n \<Longrightarrow> endian_load (endian_store n v) = v"
proof (induction n arbitrary: v)
  case (Suc n)
  then have "v div 256 < 256 ^ n" by (simp add: less_mult_imp_div_less mult.commute)
  with Suc.IH show ?case by (simp add: endian_load_snoc unat_byte_of_nat)
qed (simp add: endian_load_def)

lemma endian_load_bound: "endian_load bs < 256 ^ length bs"
proof (induction bs rule: rev_induct)
  case (snoc b bs)
  have "endian_load bs * 256 + unat b \<le> endian_load bs * 256 + 255"
    using unat_byte_less [of b] by linarith
  also have "\<dots> < (endian_load bs + 1) * 256" by simp
  also have "\<dots> \<le> 256 ^ length bs * 256" using snoc by (intro mult_right_mono) simp_all
  finally show ?case by (simp add: endian_load_snoc)
qed (simp add: endian_load_def)

lemma endian_store_load: "endian_store (length bs) (endian_load bs) = bs"
proof (induction bs rule: rev_induct)
  case (snoc b bs)
  have "(endian_load bs * 256 + unat b) div 256 = endian_load bs" by simp
  moreover have "(of_nat (endian_load bs * 256 + unat b) :: byte) = b"
  proof -
    have "unat (of_nat (endian_load bs * 256 + unat b) :: byte) = unat b"
      by (simp only: unat_byte_of_nat) simp
    then show ?thesis by (simp only: word_unat_eq_iff)
  qed
  ultimately show ?case using snoc by (simp add: endian_load_snoc)
qed simp

lemma insert_advance_exact [codec_simps, simp]:
  "length bs = n \<Longrightarrow> insert_advance n (bs @ rest) = Some (bs, rest)"
  "length bs = n \<Longrightarrow> insert_advance n bs = Some (bs, [])"
  by (auto simp: insert_advance_def)

lemma copy_advance_exact [codec_simps, simp]:
  "length bs = n \<Longrightarrow> copy_advance n (bs @ rest) = Some (bs, rest)"
  "length bs = n \<Longrightarrow> copy_advance n bs = Some (bs, [])"
  by (auto simp: copy_advance_def)

subsection \<open>Properties\<close>

text \<open>
  Variable byte integers: every value the protocol allows (up to 268435455) is written in
  one to four bytes and read back unchanged, with the reader stopping exactly behind the encoding
  whatever follows it; a larger value has no encoding, and the reader never returns one.
\<close>

theorem variable_byte_integer_roundtrip:
  "(val \<le> 268435455 \<longrightarrow>
      variable_bytes_to_val (val_to_variable_bytes val @ rest) = (Some val, rest) \<and>
      1 \<le> length (val_to_variable_bytes val) \<and> length (val_to_variable_bytes val) \<le> 4) \<and>
   (val > 268435455 \<longrightarrow> val_to_variable_bytes val = []) \<and>
   (fst (variable_bytes_to_val bs) = Some v \<longrightarrow> v \<le> 268435455)"
proof (intro conjI impI)
  assume v: "val \<le> 268435455"
  then show "variable_bytes_to_val (val_to_variable_bytes val @ rest) = (Some val, rest)"
    by (simp add: variable_bytes_roundtrip)
  from v show "1 \<le> length (val_to_variable_bytes val)"
    using variable_bytes_not_empty [of val] by (cases "val_to_variable_bytes val") auto
  show "length (val_to_variable_bytes val) \<le> 4" by (rule variable_bytes_length)
next
  assume "fst (variable_bytes_to_val bs) = Some v"
  then show "v \<le> 268435455"
    using variable_bytes_decode_bound [of bs v "snd (variable_bytes_to_val bs)"] by (simp add: prod_eq_iff)
qed (simp add: val_to_variable_bytes_def)

theorem variable_byte_integer_roundtrip_witness:
  "variable_bytes_to_val (val_to_variable_bytes 321 @ [7]) = (Some 321, [7]) \<and>
   val_to_variable_bytes 321 = [0xC1, 0x02] \<and> val_to_variable_bytes 268435456 = []"
proof (intro conjI)
  show "variable_bytes_to_val (val_to_variable_bytes 321 @ [7]) = (Some 321, [7])"
    using variable_byte_integer_roundtrip [of 321 "[7]"] by simp
  show "val_to_variable_bytes 321 = [0xC1, 0x02]"
    by (simp add: val_to_variable_bytes_def val_to_variable_bytes_loop.simps)
  show "val_to_variable_bytes 268435456 = []" by (simp add: val_to_variable_bytes_def)
qed

end
