(* ===== verification/Utf8.thy ===== *)
theory Utf8
  imports Prelude
begin

text \<open>
  The validity check of UTF-8 encoded strings, \<^verbatim>\<open>util/utf8validate.hpp\<close>, and the set of strings
  MQTT allows, stated over code points: the check accepts exactly the encodings (RFC 3629) of
  sequences of Unicode scalar values without control characters and without the two last code
  points of a plane.
\<close>

unbundle bit_operations_syntax

subsection \<open>The check\<close>

fun utf8string_check :: "bytes \<Rightarrow> bool" where
  "utf8string_check [] = True"
| "utf8string_check (b0 # bs) =
     (if b0 < 0x80 then
        (if b0 = 0x00 then False
         else if 0x01 \<le> b0 \<and> b0 \<le> 0x1f \<or> b0 = 0x7f then False
         else utf8string_check bs)
      else if b0 AND 0xE0 = 0xC0 then
        (case bs of
           b1 # bs' \<Rightarrow>
             (if b1 AND 0xC0 \<noteq> 0x80 \<or> b0 AND 0xFE = 0xC0 then False
              else if b0 = 0xC2 \<and> b1 \<ge> 0x80 \<and> b1 \<le> 0x9F then False
              else utf8string_check bs')
         | _ \<Rightarrow> False)
      else if b0 AND 0xF0 = 0xE0 then
        (case bs of
           b1 # b2 # bs' \<Rightarrow>
             (if b1 AND 0xC0 \<noteq> 0x80 \<or> b2 AND 0xC0 \<noteq> 0x80 \<or>
                 b0 = 0xE0 \<and> b1 AND 0xE0 = 0x80 \<or>
                 b0 = 0xED \<and> b1 AND 0xE0 = 0xA0 then False
              else if b0 = 0xEF \<and> b1 = 0xBF \<and> b2 AND 0xFE = 0xBE then False
              else utf8string_check bs')
         | _ \<Rightarrow> False)
      else if b0 AND 0xF8 = 0xF0 then
        (case bs of
           b1 # b2 # b3 # bs' \<Rightarrow>
             (if b1 AND 0xC0 \<noteq> 0x80 \<or> b2 AND 0xC0 \<noteq> 0x80 \<or> b3 AND 0xC0 \<noteq> 0x80 \<or>
                 b0 = 0xF0 \<and> b1 AND 0xF0 = 0x80 \<or>
                 b0 = 0xF4 \<and> b1 > 0x8F \<or> b0 > 0xF4 then False
              else if b1 AND 0xCF = 0x8F \<and> b2 = 0xBF \<and> b3 AND 0xFE = 0xBE then False
              else utf8string_check bs')
         | _ \<Rightarrow> False)
      else False)"

subsection \<open>The strings MQTT allows\<close>

definition mqtt_char :: "nat \<Rightarrow> bool" where
  "mqtt_char c \<longleftrightarrow>
     c \<le> 0x10FFFF \<and> \<not> (0xD800 \<le> c \<and> c \<le> 0xDFFF) \<and>
     0x1F < c \<and> \<not> (0x7F \<le> c \<and> c \<le> 0x9F) \<and>
     c mod 0x10000 \<noteq> 0xFFFE \<and> c mod 0x10000 \<noteq> 0xFFFF"

definition utf8_encode :: "nat \<Rightarrow> bytes" where
  "utf8_encode c =
     (if c < 0x80 then [of_nat c]
      else if c < 0x800 then [of_nat (0xC0 + c div 64), of_nat (0x80 + c mod 64)]
      else if c < 0x10000 then
        [of_nat (0xE0 + c div 4096), of_nat (0x80 + c div 64 mod 64), of_nat (0x80 + c mod 64)]
      else
        [of_nat (0xF0 + c div 262144), of_nat (0x80 + c div 4096 mod 64),
         of_nat (0x80 + c div 64 mod 64), of_nat (0x80 + c mod 64)])"

definition mqtt_string :: "bytes \<Rightarrow> bool" where
  "mqtt_string bs \<longleftrightarrow> (\<exists>cs. (\<forall>c \<in> set cs. mqtt_char c) \<and> bs = concat (map utf8_encode cs))"

subsection \<open>Byte masks as ranges\<close>

lemma and_high_mask:
  fixes b :: byte
  assumes "k \<le> 8" and "c < 2 ^ (8 - k)"
  shows "b AND NOT (mask k) = of_nat (c * 2 ^ k) \<longleftrightarrow> unat b div 2 ^ k = c"
proof -
  have c: "c * 2 ^ k < 256"
  proof -
    have "c * 2 ^ k < 2 ^ (8 - k) * 2 ^ k" using assms(2) by simp
    also have "\<dots> = 2 ^ (8 - k + k)" by (simp only: power_add)
    finally show ?thesis using assms(1) by simp
  qed
  have "b AND NOT (mask k) = push_bit k (drop_bit k b)"
    by (rule bit_word_eqI) (auto simp: bit_simps)
  moreover have "unat (push_bit k (drop_bit k b)) = unat b div 2 ^ k * 2 ^ k"
  proof -
    have "unat b div 2 ^ k * 2 ^ k < 256"
      using unat_byte_less [of b] times_div_less_eq_dividend [of "2 ^ k" "unat b"]
      by (metis le_less_trans mult.commute)
    then show ?thesis
      unfolding unsigned_push_bit_eq unat_drop_bit_eq
      by (simp add: drop_bit_eq_div push_bit_eq_mult take_bit_eq_mod)
  qed
  moreover have "unat (of_nat (c * 2 ^ k) :: byte) = c * 2 ^ k"
    using c by (simp only: unat_byte_of_nat) simp
  ultimately have "b AND NOT (mask k) = of_nat (c * 2 ^ k) \<longleftrightarrow> unat b div 2 ^ k * 2 ^ k = c * 2 ^ k"
    by (simp only: word_unat_eq_iff)
  then show ?thesis by simp
qed

lemma and_mask_range:
  fixes b :: byte
  assumes "m = NOT (mask k)" and "v = of_nat (c * 2 ^ k)" and "k \<le> 8" and "c < 2 ^ (8 - k)"
  shows "b AND m = v \<longleftrightarrow> c * 2 ^ k \<le> unat b \<and> unat b < c * 2 ^ k + 2 ^ k"
proof -
  have "unat b div 2 ^ k = c \<longleftrightarrow> c * 2 ^ k \<le> unat b \<and> unat b < Suc c * 2 ^ k"
    using div_less_iff_less_mult [of "2 ^ k" "unat b" "Suc c"]
      less_eq_div_iff_mult_less_eq [of "2 ^ k" c "unat b"] by auto
  then show ?thesis using and_high_mask [OF assms(3,4), of b] assms(1,2) by (simp add: add.commute)
qed

lemma high_masks:
  fixes b :: byte
  shows "b AND 0xC0 = 0x80 \<longleftrightarrow> 0x80 \<le> unat b \<and> unat b < 0xC0"
    and "b AND 0xE0 = 0xC0 \<longleftrightarrow> 0xC0 \<le> unat b \<and> unat b < 0xE0"
    and "b AND 0xFE = 0xC0 \<longleftrightarrow> 0xC0 \<le> unat b \<and> unat b < 0xC2"
    and "b AND 0xF0 = 0xE0 \<longleftrightarrow> 0xE0 \<le> unat b \<and> unat b < 0xF0"
    and "b AND 0xE0 = 0x80 \<longleftrightarrow> 0x80 \<le> unat b \<and> unat b < 0xA0"
    and "b AND 0xE0 = 0xA0 \<longleftrightarrow> 0xA0 \<le> unat b \<and> unat b < 0xC0"
    and "b AND 0xFE = 0xBE \<longleftrightarrow> 0xBE \<le> unat b \<and> unat b < 0xC0"
    and "b AND 0xF8 = 0xF0 \<longleftrightarrow> 0xF0 \<le> unat b \<and> unat b < 0xF8"
    and "b AND 0xF0 = 0x80 \<longleftrightarrow> 0x80 \<le> unat b \<and> unat b < 0x90"
  using and_mask_range [of "0xC0" 6 "0x80" 2 b] and_mask_range [of "0xE0" 5 "0xC0" 6 b] and_mask_range [of "0xFE" 1 "0xC0" 96 b]
    and_mask_range [of "0xF0" 4 "0xE0" 14 b] and_mask_range [of "0xE0" 5 "0x80" 4 b] and_mask_range [of "0xE0" 5 "0xA0" 5 b]
    and_mask_range [of "0xFE" 1 "0xBE" 95 b] and_mask_range [of "0xF8" 3 "0xF0" 30 b] and_mask_range [of "0xF0" 4 "0x80" 8 b]
  by (simp_all add: mask_eq_exp_minus_1)

lemma mask_CF:
  fixes b :: byte
  shows "b AND 0xCF = 0x8F \<longleftrightarrow>
    unat b = 0x8F \<or> unat b = 0x9F \<or> unat b = 0xAF \<or> unat b = 0xBF"
proof -
  have split: "b AND 0xCF = (b AND 0xC0) OR (b AND 0x0F)"
    by (simp flip: bit.conj_disj_distrib)
  have "b AND 0xCF = 0x8F \<longleftrightarrow> b AND 0xC0 = 0x80 \<and> b AND 0x0F = 0x0F"
  proof
    assume "b AND 0xCF = 0x8F"
    then have "(b AND 0xCF) AND 0xC0 = 0x8F AND 0xC0" and "(b AND 0xCF) AND 0x0F = 0x8F AND 0x0F" by simp_all
    then show "b AND 0xC0 = 0x80 \<and> b AND 0x0F = 0x0F" by (simp add: and.assoc)
  qed (simp add: split)
  moreover have "b AND 0x0F = 0x0F \<longleftrightarrow> unat b mod 16 = 15"
  proof -
    have "b AND 0x0F = take_bit 4 b" by (simp add: take_bit_eq_mask mask_eq_exp_minus_1)
    moreover have "unat (take_bit 4 b) = unat b mod 16"
      unfolding unsigned_take_bit_eq by (simp add: take_bit_eq_mod)
    ultimately show ?thesis by (simp add: word_unat_eq_iff)
  qed
  ultimately show ?thesis unfolding high_masks by presburger
qed

subsection \<open>One character at a time\<close>

declare utf8string_check.simps(2) [simp del]

lemma unat_small: "n < 256 \<Longrightarrow> unat (of_nat n :: byte) = n"
  by (simp only: unat_byte_of_nat) simp

lemmas utf8_num = high_masks mask_CF word_less_nat_alt word_le_nat_alt

lemma check1:
  assumes "unat b0 = x" and "x < 0x80"
  shows "utf8string_check (b0 # rest) \<longleftrightarrow> 0x1F < x \<and> x \<noteq> 0x7F \<and> utf8string_check rest"
  using assms by (auto simp: utf8string_check.simps(2) utf8_num word_unat_eq_iff [of b0])

lemma check2:
  assumes "unat b0 = 0xC0 + x" "unat b1 = 0x80 + y" and "x < 32" "y < 64"
  shows "utf8string_check (b0 # b1 # rest) \<longleftrightarrow>
    2 \<le> x \<and> \<not> (x = 2 \<and> y < 32) \<and> utf8string_check rest"
proof -
  have "\<not> b0 < 0x80" "b0 AND 0xE0 = 0xC0" "b1 AND 0xC0 = 0x80" "b0 AND 0xFE = 0xC0 \<longleftrightarrow> \<not> 2 \<le> x"
    "b0 = 0xC2 \<longleftrightarrow> x = 2" "0x80 \<le> b1" "b1 \<le> 0x9F \<longleftrightarrow> y < 32"
    using assms by (auto simp: utf8_num word_unat_eq_iff [of b0] word_unat_eq_iff [of b1] word_unat_eq_iff [of b2])
  then show ?thesis by (simp add: utf8string_check.simps(2) [of b0])
qed

lemma check3:
  assumes "unat b0 = 0xE0 + x" "unat b1 = 0x80 + y" "unat b2 = 0x80 + z"
    and "x < 16" "y < 64" "z < 64"
  shows "utf8string_check (b0 # b1 # b2 # rest) \<longleftrightarrow>
    \<not> (x = 0 \<and> y < 32) \<and> \<not> (x = 13 \<and> 32 \<le> y) \<and> \<not> (x = 15 \<and> y = 63 \<and> 62 \<le> z) \<and>
    utf8string_check rest"
proof -
  have "\<not> b0 < 0x80" "b0 AND 0xE0 \<noteq> 0xC0" "b0 AND 0xF0 = 0xE0" "b1 AND 0xC0 = 0x80"
    "b2 AND 0xC0 = 0x80" "b0 = 0xE0 \<longleftrightarrow> x = 0" "b1 AND 0xE0 = 0x80 \<longleftrightarrow> y < 32"
    "b0 = 0xED \<longleftrightarrow> x = 13" "b1 AND 0xE0 = 0xA0 \<longleftrightarrow> 32 \<le> y" "b0 = 0xEF \<longleftrightarrow> x = 15"
    "b1 = 0xBF \<longleftrightarrow> y = 63" "b2 AND 0xFE = 0xBE \<longleftrightarrow> 62 \<le> z"
    using assms by (auto simp: utf8_num word_unat_eq_iff [of b0] word_unat_eq_iff [of b1] word_unat_eq_iff [of b2])
  then show ?thesis by (simp add: utf8string_check.simps(2) [of b0])
qed

lemma check4:
  assumes "unat b0 = 0xF0 + x" "unat b1 = 0x80 + y" "unat b2 = 0x80 + z" "unat b3 = 0x80 + t"
    and "x < 8" "y < 64" "z < 64" "t < 64"
  shows "utf8string_check (b0 # b1 # b2 # b3 # rest) \<longleftrightarrow>
    \<not> (x = 0 \<and> y < 16) \<and> \<not> (x = 4 \<and> 16 \<le> y) \<and> x \<le> 4 \<and>
    \<not> (y mod 16 = 15 \<and> z = 63 \<and> 62 \<le> t) \<and> utf8string_check rest"
proof -
  have "b1 AND 0xCF = 0x8F \<longleftrightarrow> y mod 16 = 15"
    using assms(2,6) unfolding mask_CF by presburger
  moreover have "\<not> b0 < 0x80" "b0 AND 0xE0 \<noteq> 0xC0" "b0 AND 0xF0 \<noteq> 0xE0" "b0 AND 0xF8 = 0xF0"
    "b1 AND 0xC0 = 0x80" "b2 AND 0xC0 = 0x80" "b3 AND 0xC0 = 0x80" "b0 = 0xF0 \<longleftrightarrow> x = 0"
    "b1 AND 0xF0 = 0x80 \<longleftrightarrow> y < 16" "b0 = 0xF4 \<longleftrightarrow> x = 4" "b1 > 0x8F \<longleftrightarrow> 16 \<le> y"
    "b0 > 0xF4 \<longleftrightarrow> \<not> x \<le> 4" "b2 = 0xBF \<longleftrightarrow> z = 63" "b3 AND 0xFE = 0xBE \<longleftrightarrow> 62 \<le> t"
    using assms by (auto simp: utf8_num word_unat_eq_iff [of b0] word_unat_eq_iff [of b1] word_unat_eq_iff [of b2])
  ultimately show ?thesis by (simp add: utf8string_check.simps(2) [of b0])
qed

lemma unat_snd_byte:
  "n < 64 \<Longrightarrow> unat (of_nat (0x80 + n) :: byte) = 0x80 + n"
  by (rule unat_small) simp

text \<open>The characters, by the number of bytes of their encoding.\<close>

lemma encode2:
  assumes "2 \<le> x" "x < 32" "y < 64"
  shows "utf8_encode (x * 64 + y) = [of_nat (0xC0 + x), of_nat (0x80 + y)]"
    and "mqtt_char (x * 64 + y) \<longleftrightarrow> \<not> (x = 2 \<and> y < 32)"
  using assms by (auto simp: utf8_encode_def mqtt_char_def)

lemma radix3:
  fixes x y z :: nat
  assumes "y < 64" "z < 64"
  shows "(x * 4096 + y * 64 + z) div 4096 = x" and "(x * 4096 + y * 64 + z) div 64 = x * 64 + y"
    and "(x * 4096 + y * 64 + z) mod 64 = z"
proof -
  have "x * 4096 + y * 64 + z = x * 4096 + (y * 64 + z)" "y * 64 + z < 4096" using assms by linarith+
  then show "(x * 4096 + y * 64 + z) div 4096 = x" by (simp only: div_radix)
  have "x * 4096 + y * 64 + z = (x * 64 + y) * 64 + z" by simp
  with assms(2) show "(x * 4096 + y * 64 + z) div 64 = x * 64 + y" "(x * 4096 + y * 64 + z) mod 64 = z"
    by (simp_all only: div_radix mod_radix)
qed

lemma surrogates3:
  fixes x y z :: nat
  assumes "y < 64" "z < 64"
  shows "0xD800 \<le> x * 4096 + y * 64 + z \<and> x * 4096 + y * 64 + z \<le> 0xDFFF \<longleftrightarrow> x = 13 \<and> 32 \<le> y"
    (is "?l \<longleftrightarrow> ?r")
proof
  assume ?l
  then have a: "0xD800 \<le> x * 4096 + y * 64 + z" "x * 4096 + y * 64 + z \<le> 0xDFFF" by auto
  have "12 < x" using assms a(1) by linarith
  moreover have "x < 14" using a(2) by linarith
  ultimately have "x = 13" by simp
  with a assms show ?r by simp
qed (use assms in simp)

lemma plane_split:
  fixes x y z t :: nat
  shows "x * 262144 + y * 4096 + z * 64 + t =
    (x * 4 + y div 16) * 0x10000 + (y mod 16 * 4096 + z * 64 + t)"
proof -
  have "y * 4096 = (y div 16 * 16 + y mod 16) * 4096" by simp
  then show ?thesis by (simp only: distrib_right)
qed

lemma encode3:
  assumes "x < 16" "y < 64" "z < 64" "\<not> (x = 0 \<and> y < 32)"
  shows "utf8_encode (x * 4096 + y * 64 + z) = [of_nat (0xE0 + x), of_nat (0x80 + y), of_nat (0x80 + z)]"
    and "mqtt_char (x * 4096 + y * 64 + z) \<longleftrightarrow>
      \<not> (x = 13 \<and> 32 \<le> y) \<and> \<not> (x = 15 \<and> y = 63 \<and> 62 \<le> z)"
proof -
  let ?c = "x * 4096 + y * 64 + z"
  have c: "0x800 \<le> ?c" "?c < 0x10000" using assms by linarith+
  have "?c div 4096 = x" "?c div 64 mod 64 = y" "?c mod 64 = z"
    using radix3 [OF assms(2,3), of x] assms(2) by (simp_all only: mod_radix)
  with c show "utf8_encode ?c = [of_nat (0xE0 + x), of_nat (0x80 + y), of_nat (0x80 + z)]"
    by (simp add: utf8_encode_def)
  have m: "?c mod 0x10000 = ?c" using c by simp
  have s: "0xD800 \<le> ?c \<and> ?c \<le> 0xDFFF \<longleftrightarrow> x = 13 \<and> 32 \<le> y"
    using assms(2,3) by (rule surrogates3)
  have n: "?c = 0xFFFE \<or> ?c = 0xFFFF \<longleftrightarrow> x = 15 \<and> y = 63 \<and> 62 \<le> z"
    using assms(1-3) by (safe; linarith)
  have "?c \<le> 0x10FFFF" "0x1F < ?c" "\<not> (0x7F \<le> ?c \<and> ?c \<le> 0x9F)" using c(1,2) by linarith+
  with s n show "mqtt_char ?c \<longleftrightarrow> \<not> (x = 13 \<and> 32 \<le> y) \<and> \<not> (x = 15 \<and> y = 63 \<and> 62 \<le> z)"
    unfolding mqtt_char_def m by blast
qed

lemma encode4:
  assumes "x \<le> 4" "y < 64" "z < 64" "t < 64" "\<not> (x = 0 \<and> y < 16)"
  shows "utf8_encode (x * 262144 + y * 4096 + z * 64 + t) =
      [of_nat (0xF0 + x), of_nat (0x80 + y), of_nat (0x80 + z), of_nat (0x80 + t)]"
    and "mqtt_char (x * 262144 + y * 4096 + z * 64 + t) \<longleftrightarrow>
      \<not> (x = 4 \<and> 16 \<le> y) \<and> \<not> (y mod 16 = 15 \<and> z = 63 \<and> 62 \<le> t)"
proof -
  let ?c = "x * 262144 + y * 4096 + z * 64 + t"
  have e: "?c = (x * 64 + y) * 4096 + z * 64 + t" by simp
  have c: "0x10000 \<le> ?c" using assms by linarith
  have "?c div 4096 = x * 64 + y" "?c div 64 mod 64 = z" "?c mod 64 = t"
    unfolding e using radix3 [OF assms(3,4), of "x * 64 + y"] assms(3) by (simp_all only: mod_radix)
  moreover have "?c div 262144 = (x * 64 + y) div 64"
    using calculation(1) by (simp flip: div_mult2_eq)
  ultimately have "?c div 262144 = x" "?c div 4096 mod 64 = y" "?c div 64 mod 64 = z" "?c mod 64 = t"
    using assms(2) by (simp_all only: div_radix mod_radix)
  with c show "utf8_encode ?c =
      [of_nat (0xF0 + x), of_nat (0x80 + y), of_nat (0x80 + z), of_nat (0x80 + t)]"
    by (simp add: utf8_encode_def)
  have y16: "y mod 16 < 16" by simp
  have m: "?c mod 0x10000 = y mod 16 * 4096 + z * 64 + t"
  proof -
    have "y mod 16 * 4096 + z * 64 + t < 0x10000" using assms(3,4) y16 by linarith
    then show ?thesis unfolding plane_split by (rule mod_radix)
  qed
  have n: "?c mod 0x10000 = 0xFFFE \<or> ?c mod 0x10000 = 0xFFFF \<longleftrightarrow> y mod 16 = 15 \<and> z = 63 \<and> 62 \<le> t"
    unfolding m using assms(3,4) y16 by (safe; linarith)
  have l: "?c \<le> 0x10FFFF \<longleftrightarrow> \<not> (x = 4 \<and> 16 \<le> y)" using assms(1-4) by (safe; linarith)
  have "\<not> (0xD800 \<le> ?c \<and> ?c \<le> 0xDFFF)" "0x1F < ?c" "\<not> (0x7F \<le> ?c \<and> ?c \<le> 0x9F)"
    using c(1) by linarith+
  with n l show "mqtt_char ?c \<longleftrightarrow> \<not> (x = 4 \<and> 16 \<le> y) \<and> \<not> (y mod 16 = 15 \<and> z = 63 \<and> 62 \<le> t)"
    unfolding mqtt_char_def by blast
qed

lemma split3: "c = c div 4096 * 4096 + c div 64 mod 64 * 64 + (c :: nat) mod 64"
proof -
  have "c = c div 64 * 64 + c mod 64" by simp
  also have "c div 64 = c div 64 div 64 * 64 + c div 64 mod 64" by simp
  also have "c div 64 div 64 = c div 4096" by (simp flip: div_mult2_eq)
  finally show ?thesis by simp
qed

lemma split4:
  "c = c div 262144 * 262144 + c div 4096 mod 64 * 4096 + c div 64 mod 64 * 64 + (c :: nat) mod 64"
proof -
  have "c div 4096 = c div 4096 div 64 * 64 + c div 4096 mod 64" by simp
  also have "c div 4096 div 64 = c div 262144" by (simp flip: div_mult2_eq)
  finally show ?thesis using split3 [of c] by simp
qed

lemma encode_check:
  assumes "mqtt_char c"
  shows "utf8string_check (utf8_encode c @ rest) \<longleftrightarrow> utf8string_check rest"
proof -
  have le: "c \<le> 0x10FFFF" using assms by (simp add: mqtt_char_def)
  consider "c < 0x80" | "0x80 \<le> c" "c < 0x800" | "0x800 \<le> c" "c < 0x10000" | "0x10000 \<le> c" by linarith
  then show ?thesis
  proof cases
    case 1
    with assms show ?thesis
      using check1 [of "of_nat c" c rest] by (auto simp: utf8_encode_def mqtt_char_def unat_small)
  next
    case 2
    define x y where "x = c div 64" and "y = c mod 64"
    have xy: "2 \<le> x" "x < 32" "y < 64" and c: "c = x * 64 + y" using 2 by (auto simp: x_def y_def)
    then show ?thesis
      using assms check2 [OF unat_small unat_snd_byte, of x y rest] encode2 [OF xy] by simp
  next
    case 3
    define x y z where "x = c div 4096" and "y = c div 64 mod 64" and "z = c mod 64"
    have xyz: "x < 16" "y < 64" "z < 64" using 3 by (auto simp: x_def y_def z_def)
    have c: "c = x * 4096 + y * 64 + z" unfolding x_def y_def z_def by (rule split3)
    have ov: "\<not> (x = 0 \<and> y < 32)" using 3(1) c xyz by auto
    show ?thesis
      using assms check3 [OF unat_small unat_snd_byte unat_snd_byte, of x y z rest]
        encode3 [OF xyz ov] xyz ov c by simp
  next
    case 4
    define x y z t where "x = c div 262144" and "y = c div 4096 mod 64" and "z = c div 64 mod 64"
      and "t = c mod 64"
    have xyz: "x \<le> 4" "y < 64" "z < 64" "t < 64" using le by (auto simp: x_def y_def z_def t_def)
    have c: "c = x * 262144 + y * 4096 + z * 64 + t" unfolding x_def y_def z_def t_def by (rule split4)
    have ov: "\<not> (x = 0 \<and> y < 16)" using 4 c xyz by auto
    show ?thesis
      using assms check4 [OF unat_small unat_snd_byte unat_snd_byte unat_snd_byte, of x y z t rest]
        encode4 [OF xyz ov] xyz ov c by simp
  qed
qed

text \<open>What a successful check says about the first bytes.\<close>

lemma check_continuation:
  assumes "utf8string_check (b0 # bs)"
  shows "b0 < 0x80 \<or>
    b0 AND 0xE0 = 0xC0 \<and> (\<exists>b1 r. bs = b1 # r \<and> b1 AND 0xC0 = 0x80) \<or>
    b0 AND 0xF0 = 0xE0 \<and> (\<exists>b1 b2 r. bs = b1 # b2 # r \<and> b1 AND 0xC0 = 0x80 \<and> b2 AND 0xC0 = 0x80) \<or>
    b0 AND 0xF8 = 0xF0 \<and> (\<exists>b1 b2 b3 r. bs = b1 # b2 # b3 # r \<and>
      b1 AND 0xC0 = 0x80 \<and> b2 AND 0xC0 = 0x80 \<and> b3 AND 0xC0 = 0x80)"
  using assms unfolding utf8string_check.simps(2) [of b0]
  by (auto split: if_splits list.splits)

lemma check_decode:
  assumes "utf8string_check (b0 # bs)"
  shows "\<exists>c rest. mqtt_char c \<and> b0 # bs = utf8_encode c @ rest \<and> utf8string_check rest"
  using check_continuation [OF assms]
proof (elim disjE exE conjE)
  assume "b0 < 0x80"
  then have "unat b0 < 0x80" by (simp add: word_less_nat_alt)
  with assms check1 [OF refl] show ?thesis
    by (intro exI [of _ "unat b0"] exI [of _ bs]) (auto simp: utf8_encode_def mqtt_char_def)
next
  fix b1 r assume b: "b0 AND 0xE0 = 0xC0" "b1 AND 0xC0 = 0x80" "bs = b1 # r"
  define x y where "x = unat b0 - 0xC0" and "y = unat b1 - 0x80"
  have u: "unat b0 = 0xC0 + x" "unat b1 = 0x80 + y" "x < 32" "y < 64" using b by (auto simp: high_masks x_def y_def)
  then have "b0 = of_nat (0xC0 + x)" "b1 = of_nat (0x80 + y)" by (metis byte_of_nat_unat)+
  with assms check2 [OF u] encode2 [of x y] u b(3) show ?thesis
    by (intro exI [of _ "x * 64 + y"] exI [of _ r]) simp
next
  fix b1 b2 r assume b: "b0 AND 0xF0 = 0xE0" "b1 AND 0xC0 = 0x80" "bs = b1 # b2 # r" "b2 AND 0xC0 = 0x80"
  define x y z where "x = unat b0 - 0xE0" and "y = unat b1 - 0x80" and "z = unat b2 - 0x80"
  have u: "unat b0 = 0xE0 + x" "unat b1 = 0x80 + y" "unat b2 = 0x80 + z" "x < 16" "y < 64" "z < 64"
    using b by (auto simp: high_masks x_def y_def z_def)
  then have "b0 = of_nat (0xE0 + x)" "b1 = of_nat (0x80 + y)" "b2 = of_nat (0x80 + z)"
    by (metis byte_of_nat_unat)+
  with assms check3 [OF u] encode3 [of x y z] u b(3) show ?thesis
    by (intro exI [of _ "x * 4096 + y * 64 + z"] exI [of _ r]) simp
next
  fix b1 b2 b3 r assume b: "b0 AND 0xF8 = 0xF0" "b1 AND 0xC0 = 0x80" "bs = b1 # b2 # b3 # r"
    "b2 AND 0xC0 = 0x80" "b3 AND 0xC0 = 0x80"
  define x y z t where "x = unat b0 - 0xF0" and "y = unat b1 - 0x80" and "z = unat b2 - 0x80"
    and "t = unat b3 - 0x80"
  have u: "unat b0 = 0xF0 + x" "unat b1 = 0x80 + y" "unat b2 = 0x80 + z" "unat b3 = 0x80 + t"
    "x < 8" "y < 64" "z < 64" "t < 64"
    using b by (auto simp: high_masks x_def y_def z_def t_def)
  then have "b0 = of_nat (0xF0 + x)" "b1 = of_nat (0x80 + y)" "b2 = of_nat (0x80 + z)"
    "b3 = of_nat (0x80 + t)"
    by (metis byte_of_nat_unat)+
  with assms check4 [OF u] encode4 [of x y z t] u b(3) show ?thesis
    by (intro exI [of _ "x * 262144 + y * 4096 + z * 64 + t"] exI [of _ r]) simp
qed

lemma utf8_encode_not_Nil: "utf8_encode c \<noteq> []"
  by (simp add: utf8_encode_def)

subsection \<open>Properties\<close>

text \<open>
  C34. The byte-level check accepts a string exactly when it is the UTF-8 encoding of a sequence
  of code points MQTT allows: no surrogates, nothing above U+10FFFF, no overlong encodings, no
  control characters and no U+nFFFE or U+nFFFF.
\<close>

theorem utf8string_check_iff_mqtt_string:
  "utf8string_check bs \<longleftrightarrow> mqtt_string bs"
proof
  assume "utf8string_check bs"
  then show "mqtt_string bs"
  proof (induction bs rule: length_induct)
    case (1 bs)
    show ?case
    proof (cases bs)
      case Nil
      then show ?thesis by (auto simp: mqtt_string_def intro: exI [of _ "[]"])
    next
      case (Cons b bs')
      with 1 obtain c rest where c: "mqtt_char c" "bs = utf8_encode c @ rest" "utf8string_check rest"
        using check_decode by blast
      then have "length rest < length bs" using utf8_encode_not_Nil [of c] by simp
      with 1 c obtain cs where "\<forall>c \<in> set cs. mqtt_char c" "rest = concat (map utf8_encode cs)"
        unfolding mqtt_string_def by blast
      with c show ?thesis unfolding mqtt_string_def by (intro exI [of _ "c # cs"]) simp
    qed
  qed
next
  assume "mqtt_string bs"
  then obtain cs where "\<forall>c \<in> set cs. mqtt_char c" "bs = concat (map utf8_encode cs)"
    by (auto simp: mqtt_string_def)
  then show "utf8string_check bs" by (induction cs arbitrary: bs) (auto simp: encode_check)
qed

end
