(* ===== verification/Packet_Basics.thy ===== *)
theory Packet_Basics
  imports Error_Codes Variable_Bytes Utf8
begin

unbundle bit_operations_syntax

text \<open>
  What the packet classes share: control packet types and the fixed header, the option bytes of
  PUBLISH, SUBSCRIBE and CONNECT, topic and share name, exceptions, and the fragments that every
  parsing constructor repeats.

  \<^verbatim>\<open>qos\<close>, \<^verbatim>\<open>retain\<close>, \<^verbatim>\<open>sub::nl\<close> and the reason codes are scoped enumerations
  over \<^verbatim>\<open>std::uint8_t\<close> that the code obtains by \<^verbatim>\<open>static_cast\<close>, so any byte can occur:
  they are bytes here. \<^verbatim>\<open>control_packet_type\<close> is a datatype with its value.
\<close>

subsection \<open>Control packet types\<close>

datatype control_packet_type = Cpt_connect | Cpt_connack | Cpt_publish | Cpt_puback | Cpt_pubrec
  | Cpt_pubrel | Cpt_pubcomp | Cpt_subscribe | Cpt_suback | Cpt_unsubscribe | Cpt_unsuback
  | Cpt_pingreq | Cpt_pingresp | Cpt_disconnect | Cpt_auth

fun cpt_value :: "control_packet_type \<Rightarrow> byte" where
  "cpt_value Cpt_connect = 0x10"
| "cpt_value Cpt_connack = 0x20"
| "cpt_value Cpt_publish = 0x30"
| "cpt_value Cpt_puback = 0x40"
| "cpt_value Cpt_pubrec = 0x50"
| "cpt_value Cpt_pubrel = 0x60"
| "cpt_value Cpt_pubcomp = 0x70"
| "cpt_value Cpt_subscribe = 0x80"
| "cpt_value Cpt_suback = 0x90"
| "cpt_value Cpt_unsubscribe = 0xA0"
| "cpt_value Cpt_unsuback = 0xB0"
| "cpt_value Cpt_pingreq = 0xC0"
| "cpt_value Cpt_pingresp = 0xD0"
| "cpt_value Cpt_disconnect = 0xE0"
| "cpt_value Cpt_auth = 0xF0"

definition all_cpts :: "control_packet_type list" where
  "all_cpts = [Cpt_connect, Cpt_connack, Cpt_publish, Cpt_puback, Cpt_pubrec, Cpt_pubrel, Cpt_pubcomp,
     Cpt_subscribe, Cpt_suback, Cpt_unsubscribe, Cpt_unsuback, Cpt_pingreq, Cpt_pingresp, Cpt_disconnect, Cpt_auth]"

text \<open>
  \<^verbatim>\<open>get_control_packet_type\<close> casts \<open>v AND 0xF0\<close>; the result is an enumerator unless the nibble
  is 0, which is \<open>None\<close> here.
\<close>

definition get_control_packet_type :: "byte \<Rightarrow> control_packet_type option" where
  "get_control_packet_type v = find (\<lambda>c. cpt_value c = v AND 0xF0) all_cpts"

fun control_packet_reserved_bits :: "control_packet_type \<Rightarrow> byte" where
  "control_packet_reserved_bits Cpt_pubrel = 0x02"
| "control_packet_reserved_bits Cpt_subscribe = 0x02"
| "control_packet_reserved_bits Cpt_unsubscribe = 0x02"
| "control_packet_reserved_bits _ = 0x00"

definition get_control_packet_type_with_check :: "byte \<Rightarrow> control_packet_type option" where
  "get_control_packet_type_with_check v =
     (case get_control_packet_type v of
        None \<Rightarrow> None
      | Some c \<Rightarrow>
          if c = Cpt_publish \<or> v AND 0x0F = control_packet_reserved_bits c then Some c else None)"

definition make_fixed_header :: "control_packet_type \<Rightarrow> byte \<Rightarrow> byte" where
  "make_fixed_header c flags = cpt_value c OR (flags AND 0x0F)"

subsection \<open>Quality of service and publish options\<close>

type_synonym qos = byte

definition at_most_once :: qos where "at_most_once = 0"
definition at_least_once :: qos where "at_least_once = 1"
definition exactly_once :: qos where "exactly_once = 2"

lemmas qos_defs = at_most_once_def at_least_once_def exactly_once_def

type_synonym pubopts = byte

definition pub_is_dup :: "byte \<Rightarrow> bool" where "pub_is_dup v \<longleftrightarrow> v AND 0x08 \<noteq> 0"
definition pub_get_qos :: "byte \<Rightarrow> qos" where "pub_get_qos v = drop_bit 1 (v AND 0x06)"
definition pub_is_retain :: "byte \<Rightarrow> bool" where "pub_is_retain v \<longleftrightarrow> v AND 0x01 \<noteq> 0"

definition pub_set_dup :: "bool \<Rightarrow> byte \<Rightarrow> byte" where
  "pub_set_dup dup h = (if dup then h OR 0x08 else h AND NOT 0x08)"

definition retain_yes :: byte where "retain_yes = 0x01"
definition retain_no :: byte where "retain_no = 0x00"
definition dup_yes :: byte where "dup_yes = 0x08"
definition dup_no :: byte where "dup_no = 0x00"

definition pubopts_of_qos :: "qos \<Rightarrow> pubopts" where "pubopts_of_qos q = push_bit 1 q"
definition pubopts_or :: "pubopts \<Rightarrow> pubopts \<Rightarrow> pubopts" where "pubopts_or a b = a OR b"
definition opts_get_retain :: "pubopts \<Rightarrow> byte" where "opts_get_retain v = v AND 0x01"
definition opts_get_dup :: "pubopts \<Rightarrow> byte" where "opts_get_dup v = v AND 0x08"
definition opts_get_qos :: "pubopts \<Rightarrow> qos" where "opts_get_qos v = drop_bit 1 (v AND 0x06)"

lemmas pubopts_defs = pub_is_dup_def pub_get_qos_def pub_is_retain_def pub_set_dup_def retain_yes_def
  retain_no_def dup_yes_def dup_no_def pubopts_of_qos_def pubopts_or_def opts_get_retain_def
  opts_get_dup_def opts_get_qos_def

subsection \<open>Subscribe options\<close>

type_synonym subopts = byte

definition subopts_or :: "subopts \<Rightarrow> subopts \<Rightarrow> subopts" where "subopts_or a b = a OR b"
definition sub_get_retain_handling :: "subopts \<Rightarrow> byte" where "sub_get_retain_handling v = v AND 0x30"
definition sub_get_rap :: "subopts \<Rightarrow> byte" where "sub_get_rap v = v AND 0x08"
definition sub_get_nl :: "subopts \<Rightarrow> byte" where "sub_get_nl v = v AND 0x04"
definition sub_get_qos :: "subopts \<Rightarrow> qos" where "sub_get_qos v = v AND 0x03"

text \<open>The enumerators of \<^verbatim>\<open>sub::retain_handling\<close>, \<^verbatim>\<open>sub::rap\<close> and \<^verbatim>\<open>sub::nl\<close>.\<close>

definition rh_send :: byte where "rh_send = 0x00"
definition rh_send_only_new_subscription :: byte where "rh_send_only_new_subscription = 0x10"
definition rh_not_send :: byte where "rh_not_send = 0x20"
definition rap_dont :: byte where "rap_dont = 0x00"
definition rap_retain :: byte where "rap_retain = 0x08"
definition nl_no :: byte where "nl_no = 0x00"
definition nl_yes :: byte where "nl_yes = 0x04"

lemmas subopts_defs = subopts_or_def sub_get_retain_handling_def sub_get_rap_def sub_get_nl_def sub_get_qos_def
  rh_send_def rh_send_only_new_subscription_def rh_not_send_def rap_dont_def rap_retain_def nl_no_def nl_yes_def

subsection \<open>Connect flags\<close>

definition mask_clean_session :: byte where "mask_clean_session = 0x02"
definition mask_will_flag :: byte where "mask_will_flag = 0x04"
definition mask_will_retain :: byte where "mask_will_retain = 0x20"
definition mask_password_flag :: byte where "mask_password_flag = 0x40"
definition mask_user_name_flag :: byte where "mask_user_name_flag = 0x80"

definition has_clean_session :: "byte \<Rightarrow> bool" where "has_clean_session v \<longleftrightarrow> v AND mask_clean_session \<noteq> 0"
definition has_will_flag :: "byte \<Rightarrow> bool" where "has_will_flag v \<longleftrightarrow> v AND mask_will_flag \<noteq> 0"
definition will_retain :: "byte \<Rightarrow> byte" where
  "will_retain v = (if v AND mask_will_retain \<noteq> 0 then retain_yes else retain_no)"
definition has_password_flag :: "byte \<Rightarrow> bool" where "has_password_flag v \<longleftrightarrow> v AND mask_password_flag \<noteq> 0"
definition has_user_name_flag :: "byte \<Rightarrow> bool" where "has_user_name_flag v \<longleftrightarrow> v AND mask_user_name_flag \<noteq> 0"
definition set_will_qos :: "byte \<Rightarrow> qos \<Rightarrow> byte" where "set_will_qos v q = v OR push_bit 3 q"
definition will_qos :: "byte \<Rightarrow> qos" where "will_qos v = drop_bit 3 (v AND 0x18)"

lemmas connect_flags_defs = mask_clean_session_def mask_will_flag_def mask_will_retain_def mask_password_flag_def
  mask_user_name_flag_def has_clean_session_def has_will_flag_def will_retain_def has_password_flag_def
  has_user_name_flag_def set_will_qos_def will_qos_def

definition is_session_present :: "byte \<Rightarrow> bool" where "is_session_present v \<longleftrightarrow> v AND 0x01 \<noteq> 0"

subsection \<open>Protocol version\<close>

datatype protocol_version = Undetermined | V3_1_1 | V5 | Other_version byte

definition protocol_version_of :: "byte \<Rightarrow> protocol_version" where
  "protocol_version_of b =
     (if b = 0 then Undetermined else if b = 4 then V3_1_1 else if b = 5 then V5 else Other_version b)"

text \<open>
  \<^verbatim>\<open>get_protocol_version\<close>. The outer \<open>None\<close> is the access \<^verbatim>\<open>buf[6]\<close> behind the end of the
  buffer, which the guard \<^verbatim>\<open>buf.size() >= 6\<close> admits.
\<close>

definition get_protocol_version :: "bytes \<Rightarrow> protocol_version option" where
  "get_protocol_version buf =
     (case insert_advance_variable_length (drop 1 buf) of
        None \<Rightarrow> Some Undetermined
      | Some (vl, sv, buf') \<Rightarrow>
          if 6 \<le> length buf'
          then (if 6 < length buf' then Some (protocol_version_of (buf' ! 6)) else None)
          else Some Undetermined)"

subsection \<open>Topic filters with a share name\<close>

record topic_sharename =
  ts_all_topic :: bytes
  ts_topic :: bytes
  ts_sharename :: bytes

definition share_prefix :: bytes where
  "share_prefix = [0x24, 0x73, 0x68, 0x61, 0x72, 0x65, 0x2F]"

definition topic_sharename_of :: "bytes \<Rightarrow> topic_sharename" where
  "topic_sharename_of all =
     (if take (length share_prefix) all = share_prefix
      then let s = drop (length share_prefix) all;
               name = takeWhile (\<lambda>c. c \<noteq> 0x2F) s
           in if name = [] \<and> s \<noteq> [] \<or> length name = length s
              then \<lparr>ts_all_topic = all, ts_topic = [], ts_sharename = s\<rparr>
              else let t = drop (length name + 1) s
                   in \<lparr>ts_all_topic = all, ts_topic = t, ts_sharename = take (length s - length t - 1) s\<rparr>
      else \<lparr>ts_all_topic = all, ts_topic = all, ts_sharename = []\<rparr>)"

definition topic_sharename_valid :: "topic_sharename \<Rightarrow> bool" where
  "topic_sharename_valid t \<longleftrightarrow> ts_topic t \<noteq> []"

record topic_subopts =
  tso_topic_sharename :: topic_sharename
  tso_opts :: subopts

definition topic_subopts_of :: "bytes \<Rightarrow> subopts \<Rightarrow> topic_subopts" where
  "topic_subopts_of all opts = \<lparr>tso_topic_sharename = topic_sharename_of all, tso_opts = opts\<rparr>"

definition tso_all_topic :: "topic_subopts \<Rightarrow> bytes" where
  "tso_all_topic e = ts_all_topic (tso_topic_sharename e)"

text \<open>The documented meaning: \<open>$share/NAME/FILTER\<close>.\<close>

lemma topic_sharename_share:
  assumes "name \<noteq> []" and "0x2F \<notin> set name"
  shows "topic_sharename_of (share_prefix @ name @ 0x2F # flt) =
    \<lparr>ts_all_topic = share_prefix @ name @ 0x2F # flt, ts_topic = flt, ts_sharename = name\<rparr>"
proof -
  have "takeWhile (\<lambda>c. c \<noteq> 0x2F) (name @ 0x2F # flt) = name"
    using assms(2) by (subst takeWhile_append2) auto
  with assms(1) show ?thesis by (simp add: topic_sharename_of_def Let_def)
qed

lemma topic_sharename_plain:
  "take (length share_prefix) all \<noteq> share_prefix \<Longrightarrow>
    topic_sharename_of all = \<lparr>ts_all_topic = all, ts_topic = all, ts_sharename = []\<rparr>"
  by (simp add: topic_sharename_of_def)

lemma topic_sharename_all [simp]: "ts_all_topic (topic_sharename_of all) = all"
  by (simp add: topic_sharename_of_def Let_def)

lemma tso_all_topic_of [simp]: "tso_all_topic (topic_subopts_of t o1) = t" "tso_opts (topic_subopts_of t o1) = o1"
  by (simp_all add: tso_all_topic_def topic_subopts_of_def)

subsection \<open>Exceptions of the constructors\<close>

text \<open>
  A constructor throws \<^verbatim>\<open>system_error\<close> with an error code, or \<^verbatim>\<open>boost::numeric_cast\<close> throws
  when a length does not fit its target type.
\<close>

datatype exn = System_error error_code | Bad_numeric_cast

text \<open>
  A parsing constructor reports an error code; where it reads \<^verbatim>\<open>buf.front()\<close> or \<^verbatim>\<open>buf[i]\<close>
  of a buffer that is too short the behaviour is undefined, which is a failure of its own here.
\<close>

datatype parse_failure = Ec error_code | Bad_access

definition numeric_cast :: "nat \<Rightarrow> nat \<Rightarrow> exn + nat" where
  "numeric_cast w n = (if n < 2 ^ w then Inr n else Inl Bad_numeric_cast)"

definition throw_unless :: "bool \<Rightarrow> error_code \<Rightarrow> exn + unit" where
  "throw_unless b e = (if b then Inr () else Inl (System_error e))"

definition fail_unless :: "bool \<Rightarrow> 'e \<Rightarrow> 'e + unit" where
  "fail_unless b e = (if b then Inr () else Inl e)"

definition malformed_packet :: error_code where "malformed_packet = disconnect_err 0x81"
definition protocol_error :: error_code where "protocol_error = disconnect_err 0x82"
definition connect_malformed_packet :: error_code where "connect_malformed_packet = connect_err 0x81"
definition connect_unsupported_protocol_version :: error_code where
  "connect_unsupported_protocol_version = connect_err 0x84"

lemma throw_unless_Inr [simp]: "throw_unless b e = Inr u \<longleftrightarrow> b"
  by (cases u) (simp add: throw_unless_def)

lemma fail_unless_Inr [simp]: "fail_unless b e = Inr u \<longleftrightarrow> b"
  by (cases u) (simp add: fail_unless_def)

lemma fail_unless_True [simp]: "fail_unless True e = Inr ()"
  by (simp add: fail_unless_def)

lemma throw_unless_True [simp]: "throw_unless True e = Inr ()"
  by (simp add: throw_unless_def)

lemma numeric_cast_Inr [simp]: "numeric_cast w n = Inr m \<longleftrightarrow> m = n \<and> n < 2 ^ w"
  by (auto simp: numeric_cast_def)

subsection \<open>Fragments of the parsing constructors\<close>

text \<open>
  The first statements of every parsing constructor: the fixed header with its check, and, for
  the packets with a variable length, the remaining length that has to match the buffer. The
  argument \<open>e\<close> is the error code the constructor reports.
\<close>

definition read_fixed_header :: "'e \<Rightarrow> control_packet_type \<Rightarrow> bytes \<Rightarrow> 'e + byte \<times> bytes" where
  "read_fixed_header e c buf =
     (case buf of
        [] \<Rightarrow> Inl e
      | fh # buf' \<Rightarrow> if get_control_packet_type_with_check fh = Some c then Inr (fh, buf') else Inl e)"

definition read_remaining_length :: "'e \<Rightarrow> bytes \<Rightarrow> 'e + nat \<times> bytes \<times> bytes" where
  "read_remaining_length e buf =
     (case insert_advance_variable_length buf of
        None \<Rightarrow> Inl e
      | Some (vl, sv, buf') \<Rightarrow> if vl \<noteq> length buf' then Inl e else Inr (vl, sv, buf'))"

definition read_byte :: "'e \<Rightarrow> bytes \<Rightarrow> 'e + byte \<times> bytes" where
  "read_byte e buf = (case buf of [] \<Rightarrow> Inl e | b # buf' \<Rightarrow> Inr (b, buf'))"

definition read_bytes :: "'e \<Rightarrow> nat \<Rightarrow> bytes \<Rightarrow> 'e + bytes \<times> bytes" where
  "read_bytes e n buf = (case insert_advance n buf of None \<Rightarrow> Inl e | Some r \<Rightarrow> Inr r)"

text \<open>A two-byte length followed by that many bytes, and the same with the UTF-8 check.\<close>

definition read_binary :: "'e \<Rightarrow> bytes \<Rightarrow> 'e + bytes \<times> bytes \<times> bytes" where
  "read_binary e buf =
     bindE (read_bytes e 2 buf) (\<lambda>(len, buf).
       if length buf < endian_load len then Inl e
       else Inr (len, take (endian_load len) buf, drop (endian_load len) buf))"

definition read_utf8 :: "'e \<Rightarrow> bytes \<Rightarrow> 'e + bytes \<times> bytes \<times> bytes" where
  "read_utf8 e buf =
     bindE (read_binary e buf) (\<lambda>(len, s, buf).
       if utf8string_check s then Inr (len, s, buf) else Inl e)"

subsection \<open>Reading what was written\<close>

lemma get_cpt_value: "get_control_packet_type (cpt_value c) = Some c"
  by (cases c) (simp_all add: get_control_packet_type_def all_cpts_def)

lemma make_fixed_header_check [simp]:
  "get_control_packet_type_with_check (make_fixed_header c (control_packet_reserved_bits c)) = Some c"
  by (cases c)
     (simp_all add: get_control_packet_type_with_check_def get_control_packet_type_def make_fixed_header_def all_cpts_def)

lemma read_fixed_header_simps [codec_simps]:
  "get_control_packet_type_with_check fh = Some c \<Longrightarrow> read_fixed_header e c (fh # buf) = Inr (fh, buf)"
  by (simp add: read_fixed_header_def)

lemma read_remaining_length_roundtrip [codec_simps]:
  "length buf \<le> 0xfffffff \<Longrightarrow> n = length buf \<Longrightarrow>
    read_remaining_length e (val_to_variable_bytes n @ buf) = Inr (n, val_to_variable_bytes n, buf)"
  by (simp add: read_remaining_length_def variable_length_roundtrip)

lemma read_byte_Cons [codec_simps]: "read_byte e (b # buf) = Inr (b, buf)"
  by (simp add: read_byte_def)

lemma read_bytes_exact [codec_simps]:
  "length bs = n \<Longrightarrow> read_bytes e n (bs @ buf) = Inr (bs, buf)"
  "length bs = n \<Longrightarrow> read_bytes e n bs = Inr (bs, [])"
  by (simp_all add: read_bytes_def)

lemma read_binary_roundtrip [codec_simps]:
  assumes "length s < 65536"
  shows "read_binary e (endian_store 2 (length s) @ s @ buf) = Inr (endian_store 2 (length s), s, buf)"
    and "read_binary e (endian_store 2 (length s) @ s) = Inr (endian_store 2 (length s), s, [])"
  using assms by (simp_all add: read_binary_def read_bytes_exact)

lemma read_utf8_roundtrip [codec_simps]:
  assumes "length s < 65536" and "utf8string_check s"
  shows "read_utf8 e (endian_store 2 (length s) @ s @ buf) = Inr (endian_store 2 (length s), s, buf)"
    and "read_utf8 e (endian_store 2 (length s) @ s) = Inr (endian_store 2 (length s), s, [])"
  using assms by (simp_all add: read_utf8_def read_binary_roundtrip)

subsection \<open>Writing what was read\<close>

named_theorems codec_dests

lemma read_fixed_headerD [codec_dests]:
  "read_fixed_header e c buf = Inr (fh, rest) \<Longrightarrow>
    buf = fh # rest \<and> get_control_packet_type_with_check fh = Some c"
  by (auto simp: read_fixed_header_def split: list.splits if_splits)

lemma insert_advance_variable_lengthD:
  assumes "insert_advance_variable_length buf = Some (n, sv, rest)"
  shows "buf = sv @ rest" and "n \<le> 0xfffffff"
proof -
  from assms have v: "variable_bytes_to_val buf = (Some n, rest)" and sv: "sv = take (length buf - length rest) buf"
    by (auto simp: insert_advance_variable_length_def split: if_splits prod.splits option.splits)
  from v obtain p where "buf = p @ rest"
    using loop_consumes [of 0 1 buf "Some n" rest] by (auto simp: variable_bytes_to_val_def)
  with sv show "buf = sv @ rest" by simp
  from v show "n \<le> 0xfffffff" by (rule variable_bytes_decode_bound)
qed

lemma read_remaining_lengthD [codec_dests]:
  "read_remaining_length e buf = Inr (n, sv, rest) \<Longrightarrow> buf = sv @ rest \<and> n = length rest \<and> n \<le> 0xfffffff"
  using insert_advance_variable_lengthD [of buf]
  by (auto simp: read_remaining_length_def split: option.splits if_splits)

lemma read_byteD [codec_dests]: "read_byte e buf = Inr (b, rest) \<Longrightarrow> buf = b # rest"
  by (simp add: read_byte_def split: list.splits)

lemma read_bytesD [codec_dests]: "read_bytes e n buf = Inr (bs, rest) \<Longrightarrow> buf = bs @ rest \<and> length bs = n"
  by (auto simp: read_bytes_def insert_advance_def split: if_splits)

lemma read_binaryD [codec_dests]:
  assumes "read_binary e buf = Inr (len, s, rest)"
  shows "buf = len @ s @ rest \<and> len = endian_store 2 (length s) \<and> length s < 65536"
proof -
  from assms obtain b where b: "read_bytes e 2 buf = Inr (len, b)" "endian_load len \<le> length b"
      "s = take (endian_load len) b" "rest = drop (endian_load len) b"
    by (auto simp: read_binary_def bindE_eq_Inr split: if_splits)
  with read_bytesD [OF b(1)] endian_load_bound [of len] endian_store_load [of len] show ?thesis
    by auto
qed

lemma read_utf8D [codec_dests]:
  "read_utf8 e buf = Inr (len, s, rest) \<Longrightarrow>
    buf = len @ s @ rest \<and> len = endian_store 2 (length s) \<and> length s < 65536 \<and> utf8string_check s"
  using read_binaryD [of e buf] by (auto simp: read_utf8_def bindE_eq_Inr split: if_splits)

subsection \<open>Comparison of packets\<close>

text \<open>\<^verbatim>\<open>detail::lexicographical_compare\<close>, \<^verbatim>\<open>less_than\<close> and \<^verbatim>\<open>equal\<close> on the bytes of two packets.\<close>

text \<open>The iterators deliver \<^verbatim>\<open>char\<close>, signed on the usual platforms.\<close>

definition scast_less :: "byte \<Rightarrow> byte \<Rightarrow> bool" where
  "scast_less a b \<longleftrightarrow> sint a < sint b"

fun bytes_less :: "bytes \<Rightarrow> bytes \<Rightarrow> bool" where
  "bytes_less (a # as) (b # bs) \<longleftrightarrow> scast_less a b \<or> \<not> scast_less b a \<and> bytes_less as bs"
| "bytes_less as bs \<longleftrightarrow> as = [] \<and> bs \<noteq> []"

definition packet_less_than :: "bytes list \<Rightarrow> bytes list \<Rightarrow> bool" where
  "packet_less_than lcbs rcbs = bytes_less (concat lcbs) (concat rcbs)"

definition packet_equal :: "bytes list \<Rightarrow> bytes list \<Rightarrow> bool" where
  "packet_equal lcbs rcbs \<longleftrightarrow>
     length (concat lcbs) = length (concat rcbs) \<and> list_all2 (=) (concat lcbs) (concat rcbs)"

lemma packet_equal_iff: "packet_equal l r \<longleftrightarrow> concat l = concat r"
  by (auto simp: packet_equal_def list.rel_eq)

subsection \<open>The contract of a packet class\<close>

text \<open>
  A packet class: its parsing constructor, its buffers, \<^verbatim>\<open>size()\<close>, the packets the throwing
  constructor builds, and the form a packet has after parsing (the payload of a PUBLISH is one
  buffer then). \<^verbatim>\<open>size()\<close> is the number of bytes sent and the bytes sent are parsed to the
  same packet; it follows that \<^verbatim>\<open>operator==\<close> identifies exactly the packets with the same form.
\<close>

locale packet_codec =
  fixes parse :: "bytes \<Rightarrow> 'e + 'p" and cbs :: "'p \<Rightarrow> bytes list" and psize :: "'p \<Rightarrow> nat"
    and ok :: "'p \<Rightarrow> bool" and nrm :: "'p \<Rightarrow> 'p"
  assumes size_bytes: "ok p \<Longrightarrow> psize p = length (concat (cbs p))"
    and parse_bytes: "ok p \<Longrightarrow> parse (concat (cbs p)) = Inr (nrm p)"
    and nrm_bytes: "ok p \<Longrightarrow> concat (cbs (nrm p)) = concat (cbs p)"
begin

lemma equal_iff_nrm:
  assumes "ok p" and "ok q"
  shows "packet_equal (cbs p) (cbs q) \<longleftrightarrow> nrm p = nrm q"
proof
  assume "packet_equal (cbs p) (cbs q)"
  with parse_bytes [OF assms(1)] parse_bytes [OF assms(2)] show "nrm p = nrm q"
    by (simp add: packet_equal_iff)
next
  assume "nrm p = nrm q"
  with nrm_bytes [OF assms(1)] nrm_bytes [OF assms(2)] show "packet_equal (cbs p) (cbs q)"
    by (simp add: packet_equal_iff)
qed

lemma size_nrm: "ok p \<Longrightarrow> ok (nrm p) \<Longrightarrow> psize (nrm p) = psize p"
  by (simp add: size_bytes nrm_bytes)

end

end
