(* ===== verification/Property.thy ===== *)
theory Property
  imports Packet_Basics
begin

text \<open>
  MQTT 5.0 properties: \<^verbatim>\<open>property_id.hpp\<close>, \<^verbatim>\<open>detail/base_property.hpp\<close>,
  \<^verbatim>\<open>property.hpp\<close>, \<^verbatim>\<open>impl/property.hpp\<close>, \<^verbatim>\<open>impl/validate_property.hpp\<close> and
  \<^verbatim>\<open>impl/property_variant.ipp\<close>. Every property class derives from one of the base classes and
  adds its identifier, its checks and its accessor, so a \<^verbatim>\<open>property_variant\<close> is a value of the
  base class with the identifier.

  The identifier is written as \<^verbatim>\<open>as::buffer(&id_, 1)\<close>, the first byte of an \<^verbatim>\<open>int\<close>; the
  model has the byte order of a little-endian machine.
\<close>

subsection \<open>Identifiers and locations\<close>

datatype property_id =
    Id_payload_format_indicator
  | Id_message_expiry_interval
  | Id_content_type
  | Id_response_topic
  | Id_correlation_data
  | Id_subscription_identifier
  | Id_session_expiry_interval
  | Id_assigned_client_identifier
  | Id_server_keep_alive
  | Id_authentication_method
  | Id_authentication_data
  | Id_request_problem_information
  | Id_will_delay_interval
  | Id_request_response_information
  | Id_response_information
  | Id_server_reference
  | Id_reason_string
  | Id_receive_maximum
  | Id_topic_alias_maximum
  | Id_topic_alias
  | Id_maximum_qos
  | Id_retain_available
  | Id_user_property
  | Id_maximum_packet_size
  | Id_wildcard_subscription_available
  | Id_subscription_identifier_available
  | Id_shared_subscription_available

fun property_id_value :: "property_id \<Rightarrow> byte" where
  "property_id_value Id_payload_format_indicator = 1"
| "property_id_value Id_message_expiry_interval = 2"
| "property_id_value Id_content_type = 3"
| "property_id_value Id_response_topic = 8"
| "property_id_value Id_correlation_data = 9"
| "property_id_value Id_subscription_identifier = 11"
| "property_id_value Id_session_expiry_interval = 17"
| "property_id_value Id_assigned_client_identifier = 18"
| "property_id_value Id_server_keep_alive = 19"
| "property_id_value Id_authentication_method = 21"
| "property_id_value Id_authentication_data = 22"
| "property_id_value Id_request_problem_information = 23"
| "property_id_value Id_will_delay_interval = 24"
| "property_id_value Id_request_response_information = 25"
| "property_id_value Id_response_information = 26"
| "property_id_value Id_server_reference = 28"
| "property_id_value Id_reason_string = 31"
| "property_id_value Id_receive_maximum = 33"
| "property_id_value Id_topic_alias_maximum = 34"
| "property_id_value Id_topic_alias = 35"
| "property_id_value Id_maximum_qos = 36"
| "property_id_value Id_retain_available = 37"
| "property_id_value Id_user_property = 38"
| "property_id_value Id_maximum_packet_size = 39"
| "property_id_value Id_wildcard_subscription_available = 40"
| "property_id_value Id_subscription_identifier_available = 41"
| "property_id_value Id_shared_subscription_available = 42"

definition all_property_ids :: "property_id list" where
  "all_property_ids = [
     Id_payload_format_indicator, Id_message_expiry_interval, Id_content_type, Id_response_topic,
     Id_correlation_data, Id_subscription_identifier, Id_session_expiry_interval,
     Id_assigned_client_identifier, Id_server_keep_alive, Id_authentication_method, Id_authentication_data,
     Id_request_problem_information, Id_will_delay_interval, Id_request_response_information,
     Id_response_information, Id_server_reference, Id_reason_string, Id_receive_maximum,
     Id_topic_alias_maximum, Id_topic_alias, Id_maximum_qos, Id_retain_available, Id_user_property,
     Id_maximum_packet_size, Id_wildcard_subscription_available, Id_subscription_identifier_available,
     Id_shared_subscription_available]"

definition property_id_of :: "byte \<Rightarrow> property_id option" where
  "property_id_of b = find (\<lambda>i. property_id_value i = b) all_property_ids"

fun property_id_to_str :: "property_id \<Rightarrow> string" where
  "property_id_to_str Id_payload_format_indicator = ''payload_format_indicator''"
| "property_id_to_str Id_message_expiry_interval = ''message_expiry_interval''"
| "property_id_to_str Id_content_type = ''content_type''"
| "property_id_to_str Id_response_topic = ''response_topic''"
| "property_id_to_str Id_correlation_data = ''correlation_data''"
| "property_id_to_str Id_subscription_identifier = ''subscription_identifier''"
| "property_id_to_str Id_session_expiry_interval = ''session_expiry_interval''"
| "property_id_to_str Id_assigned_client_identifier = ''assigned_client_identifier''"
| "property_id_to_str Id_server_keep_alive = ''server_keep_alive''"
| "property_id_to_str Id_authentication_method = ''authentication_method''"
| "property_id_to_str Id_authentication_data = ''authentication_data''"
| "property_id_to_str Id_request_problem_information = ''request_problem_information''"
| "property_id_to_str Id_will_delay_interval = ''will_delay_interval''"
| "property_id_to_str Id_request_response_information = ''request_response_information''"
| "property_id_to_str Id_response_information = ''response_information''"
| "property_id_to_str Id_server_reference = ''server_reference''"
| "property_id_to_str Id_reason_string = ''reason_string''"
| "property_id_to_str Id_receive_maximum = ''receive_maximum''"
| "property_id_to_str Id_topic_alias_maximum = ''topic_alias_maximum''"
| "property_id_to_str Id_topic_alias = ''topic_alias''"
| "property_id_to_str Id_maximum_qos = ''maximum_qos''"
| "property_id_to_str Id_retain_available = ''retain_available''"
| "property_id_to_str Id_user_property = ''user_property''"
| "property_id_to_str Id_maximum_packet_size = ''maximum_packet_size''"
| "property_id_to_str Id_wildcard_subscription_available = ''wildcard_subscription_available''"
| "property_id_to_str Id_subscription_identifier_available = ''subscription_identifier_available''"
| "property_id_to_str Id_shared_subscription_available = ''shared_subscription_available''"

datatype property_location = Loc_connect | Loc_will | Loc_connack | Loc_publish | Loc_puback | Loc_pubrec | Loc_pubrel | Loc_pubcomp | Loc_subscribe | Loc_suback | Loc_unsubscribe | Loc_unsuback | Loc_disconnect | Loc_auth

fun validate_property :: "property_location \<Rightarrow> property_id \<Rightarrow> bool" where
  "validate_property Loc_connect i \<longleftrightarrow> i \<in> {
     Id_session_expiry_interval, Id_authentication_method, Id_authentication_data,
     Id_request_problem_information, Id_request_response_information, Id_receive_maximum,
     Id_topic_alias_maximum, Id_user_property, Id_maximum_packet_size}"
| "validate_property Loc_will i \<longleftrightarrow> i \<in> {
     Id_payload_format_indicator, Id_message_expiry_interval, Id_content_type, Id_response_topic,
     Id_correlation_data, Id_will_delay_interval, Id_user_property}"
| "validate_property Loc_connack i \<longleftrightarrow> i \<in> {
     Id_session_expiry_interval, Id_assigned_client_identifier, Id_server_keep_alive,
     Id_authentication_method, Id_authentication_data, Id_response_information, Id_server_reference,
     Id_reason_string, Id_receive_maximum, Id_topic_alias_maximum, Id_maximum_qos, Id_retain_available,
     Id_user_property, Id_maximum_packet_size, Id_wildcard_subscription_available,
     Id_subscription_identifier_available, Id_shared_subscription_available}"
| "validate_property Loc_publish i \<longleftrightarrow> i \<in> {
     Id_payload_format_indicator, Id_message_expiry_interval, Id_content_type, Id_response_topic,
     Id_correlation_data, Id_subscription_identifier, Id_topic_alias, Id_user_property}"
| "validate_property Loc_puback i \<longleftrightarrow> i \<in> {
     Id_reason_string, Id_user_property}"
| "validate_property Loc_pubrec i \<longleftrightarrow> i \<in> {
     Id_reason_string, Id_user_property}"
| "validate_property Loc_pubrel i \<longleftrightarrow> i \<in> {
     Id_reason_string, Id_user_property}"
| "validate_property Loc_pubcomp i \<longleftrightarrow> i \<in> {
     Id_reason_string, Id_user_property}"
| "validate_property Loc_subscribe i \<longleftrightarrow> i \<in> {
     Id_subscription_identifier, Id_user_property}"
| "validate_property Loc_suback i \<longleftrightarrow> i \<in> {
     Id_reason_string, Id_user_property}"
| "validate_property Loc_unsubscribe i \<longleftrightarrow> i \<in> {
     Id_user_property}"
| "validate_property Loc_unsuback i \<longleftrightarrow> i \<in> {
     Id_reason_string, Id_user_property}"
| "validate_property Loc_disconnect i \<longleftrightarrow> i \<in> {
     Id_session_expiry_interval, Id_server_reference, Id_reason_string, Id_user_property}"
| "validate_property Loc_auth i \<longleftrightarrow> i \<in> {
     Id_authentication_method, Id_authentication_data, Id_reason_string, Id_user_property}"

subsection \<open>The variant\<close>

datatype property_variant =
    N_bytes_property property_id bytes \<comment> \<open>\<^verbatim>\<open>id_\<close>, \<^verbatim>\<open>buf_\<close>\<close>
  | Binary_property property_id bytes bytes \<comment> \<open>\<^verbatim>\<open>id_\<close>, \<^verbatim>\<open>buf_\<close>, \<^verbatim>\<open>length_\<close>\<close>
  | String_property property_id bytes bytes
  | Variable_property property_id bytes \<comment> \<open>\<^verbatim>\<open>id_\<close>, \<^verbatim>\<open>value_\<close>\<close>
  | User_property bytes bytes bytes bytes \<comment> \<open>key: \<^verbatim>\<open>len\<close>, \<^verbatim>\<open>buf\<close>; value: \<^verbatim>\<open>len\<close>, \<^verbatim>\<open>buf\<close>\<close>

type_synonym properties = "property_variant list"

fun prop_id :: "property_variant \<Rightarrow> property_id" where
  "prop_id (N_bytes_property i b) = i"
| "prop_id (Binary_property i b l) = i"
| "prop_id (String_property i b l) = i"
| "prop_id (Variable_property i v) = i"
| "prop_id (User_property kl k vl v) = Id_user_property"

fun property_const_buffer_sequence :: "property_variant \<Rightarrow> bytes list" where
  "property_const_buffer_sequence (N_bytes_property i b) = [[property_id_value i], b]"
| "property_const_buffer_sequence (Binary_property i b l) = [[property_id_value i], l, b]"
| "property_const_buffer_sequence (String_property i b l) = [[property_id_value i], l, b]"
| "property_const_buffer_sequence (Variable_property i v) = [[property_id_value i], v]"
| "property_const_buffer_sequence (User_property kl k vl v) =
     [[property_id_value Id_user_property], kl, k, vl, v]"

fun property_size :: "property_variant \<Rightarrow> nat" where
  "property_size (N_bytes_property i b) = 1 + length b"
| "property_size (Binary_property i b l) = 1 + length l + length b"
| "property_size (String_property i b l) = 1 + length l + length b"
| "property_size (Variable_property i v) = 1 + length v"
| "property_size (User_property kl k vl v) = 1 + (length kl + length k) + (length vl + length v)"

fun property_num_of_const_buffer_sequence :: "property_variant \<Rightarrow> nat" where
  "property_num_of_const_buffer_sequence (N_bytes_property i b) = 2"
| "property_num_of_const_buffer_sequence (Binary_property i b l) = 3"
| "property_num_of_const_buffer_sequence (String_property i b l) = 3"
| "property_num_of_const_buffer_sequence (Variable_property i v) = 2"
| "property_num_of_const_buffer_sequence (User_property kl k vl v) = 1 + 2 + 2"

text \<open>The accessors \<^verbatim>\<open>val()\<close>: of the integer classes, of the flags and of the strings.\<close>

fun property_val_int :: "property_variant \<Rightarrow> nat" where
  "property_val_int (N_bytes_property i b) = endian_load b"
| "property_val_int (Variable_property i v) =
     (case variable_bytes_to_val v of (Some n, _) \<Rightarrow> n | (None, _) \<Rightarrow> 0)"
| "property_val_int _ = 0"

fun property_val_bool :: "property_variant \<Rightarrow> bool" where
  "property_val_bool (N_bytes_property i (b # _)) \<longleftrightarrow> b = 1"
| "property_val_bool _ \<longleftrightarrow> False"

fun property_val_string :: "property_variant \<Rightarrow> bytes" where
  "property_val_string (Binary_property i b l) = b"
| "property_val_string (String_property i b l) = b"
| "property_val_string (User_property kl k vl v) = v"
| "property_val_string _ = []"

definition properties_const_buffer_sequence :: "properties \<Rightarrow> bytes list" where
  "properties_const_buffer_sequence ps = concat (map property_const_buffer_sequence ps)"

definition properties_size :: "properties \<Rightarrow> nat" where
  "properties_size ps = foldl (\<lambda>total p. total + property_size p) 0 ps"

definition properties_num_of_const_buffer_sequence :: "properties \<Rightarrow> nat" where
  "properties_num_of_const_buffer_sequence ps =
     foldl (\<lambda>total p. total + property_num_of_const_buffer_sequence p) 0 ps"

subsection \<open>Constructors\<close>

datatype payload_format = Format_binary | Format_string

definition make_binary_property :: "property_id \<Rightarrow> bytes \<Rightarrow> exn + property_variant" where
  "make_binary_property i b =
     (if length b > 0xffff then Inl (System_error malformed_packet)
      else Inr (Binary_property i b (endian_store 2 (length b))))"

definition make_string_property :: "property_id \<Rightarrow> bytes \<Rightarrow> exn + property_variant" where
  "make_string_property i b =
     (if length b > 0xffff then Inl (System_error malformed_packet)
      else if \<not> utf8string_check b then Inl (System_error malformed_packet)
      else Inr (String_property i b (endian_store 2 (length b))))"

definition make_len_str :: "bytes \<Rightarrow> exn + bytes \<times> bytes" where
  "make_len_str b =
     bindE (numeric_cast 16 (length b)) (\<lambda>n.
     bindE (throw_unless (utf8string_check b) malformed_packet) (\<lambda>_.
     Inr (endian_store 2 n, b)))"

definition user_property :: "bytes \<Rightarrow> bytes \<Rightarrow> exn + property_variant" where
  "user_property key val =
     bindE (make_len_str key) (\<lambda>(kl, k).
     bindE (make_len_str val) (\<lambda>(vl, v).
     Inr (User_property kl k vl v)))"

definition payload_format_indicator :: "payload_format \<Rightarrow> property_variant" where
  "payload_format_indicator fmt = N_bytes_property Id_payload_format_indicator [if fmt = Format_binary then 0 else 1]"

definition message_expiry_interval :: "nat \<Rightarrow> property_variant" where
  "message_expiry_interval v = N_bytes_property Id_message_expiry_interval (endian_store 4 v)"

definition content_type :: "bytes \<Rightarrow> exn + property_variant" where
  "content_type v = make_string_property Id_content_type v"

definition response_topic :: "bytes \<Rightarrow> exn + property_variant" where
  "response_topic v = make_string_property Id_response_topic v"

definition correlation_data :: "bytes \<Rightarrow> exn + property_variant" where
  "correlation_data v = make_binary_property Id_correlation_data v"

definition subscription_identifier :: "nat \<Rightarrow> exn + property_variant" where
  "subscription_identifier v = (if v = 0 then Inl (System_error protocol_error)
     else Inr (Variable_property Id_subscription_identifier (val_to_variable_bytes v)))"

definition session_expiry_interval :: "nat \<Rightarrow> property_variant" where
  "session_expiry_interval v = N_bytes_property Id_session_expiry_interval (endian_store 4 v)"

definition assigned_client_identifier :: "bytes \<Rightarrow> exn + property_variant" where
  "assigned_client_identifier v = make_string_property Id_assigned_client_identifier v"

definition server_keep_alive :: "nat \<Rightarrow> property_variant" where
  "server_keep_alive v = N_bytes_property Id_server_keep_alive (endian_store 2 v)"

definition authentication_method :: "bytes \<Rightarrow> exn + property_variant" where
  "authentication_method v = make_string_property Id_authentication_method v"

definition authentication_data :: "bytes \<Rightarrow> exn + property_variant" where
  "authentication_data v = make_binary_property Id_authentication_data v"

definition request_problem_information :: "bool \<Rightarrow> property_variant" where
  "request_problem_information v = N_bytes_property Id_request_problem_information [if v then 1 else 0]"

definition will_delay_interval :: "nat \<Rightarrow> property_variant" where
  "will_delay_interval v = N_bytes_property Id_will_delay_interval (endian_store 4 v)"

definition request_response_information :: "bool \<Rightarrow> property_variant" where
  "request_response_information v = N_bytes_property Id_request_response_information [if v then 1 else 0]"

definition response_information :: "bytes \<Rightarrow> exn + property_variant" where
  "response_information v = make_string_property Id_response_information v"

definition server_reference :: "bytes \<Rightarrow> exn + property_variant" where
  "server_reference v = make_string_property Id_server_reference v"

definition reason_string :: "bytes \<Rightarrow> exn + property_variant" where
  "reason_string v = make_string_property Id_reason_string v"

definition receive_maximum :: "nat \<Rightarrow> exn + property_variant" where
  "receive_maximum v = (if v = 0 then Inl (System_error protocol_error)
     else Inr (N_bytes_property Id_receive_maximum (endian_store 2 v)))"

definition topic_alias_maximum :: "nat \<Rightarrow> property_variant" where
  "topic_alias_maximum v = N_bytes_property Id_topic_alias_maximum (endian_store 2 v)"

definition topic_alias :: "nat \<Rightarrow> property_variant" where
  "topic_alias v = N_bytes_property Id_topic_alias (endian_store 2 v)"

definition maximum_qos :: "qos \<Rightarrow> exn + property_variant" where
  "maximum_qos v = (if v \<noteq> at_most_once \<and> v \<noteq> at_least_once then Inl (System_error protocol_error)
     else Inr (N_bytes_property Id_maximum_qos [v]))"

definition retain_available :: "bool \<Rightarrow> property_variant" where
  "retain_available v = N_bytes_property Id_retain_available [if v then 1 else 0]"

definition maximum_packet_size :: "nat \<Rightarrow> exn + property_variant" where
  "maximum_packet_size v = (if v = 0 then Inl (System_error protocol_error)
     else Inr (N_bytes_property Id_maximum_packet_size (endian_store 4 v)))"

definition wildcard_subscription_available :: "bool \<Rightarrow> property_variant" where
  "wildcard_subscription_available v = N_bytes_property Id_wildcard_subscription_available [if v then 1 else 0]"

definition subscription_identifier_available :: "bool \<Rightarrow> property_variant" where
  "subscription_identifier_available v = N_bytes_property Id_subscription_identifier_available [if v then 1 else 0]"

definition shared_subscription_available :: "bool \<Rightarrow> property_variant" where
  "shared_subscription_available v = N_bytes_property Id_shared_subscription_available [if v then 1 else 0]"

subsection \<open>Parsing\<close>

text \<open>The branches of \<^verbatim>\<open>make_property_variant\<close>, by base class.\<close>

definition parse_n_bytes ::
  "property_id \<Rightarrow> nat \<Rightarrow> (bytes \<Rightarrow> bool) \<Rightarrow> error_code \<Rightarrow> bytes \<Rightarrow> error_code + property_variant \<times> bytes" where
  "parse_n_bytes i n check e buf =
     (if length buf < n then Inl malformed_packet
      else if check (take n buf) then Inr (N_bytes_property i (take n buf), drop n buf)
      else Inl e)"

definition parse_string_property :: "property_id \<Rightarrow> bytes \<Rightarrow> error_code + property_variant \<times> bytes" where
  "parse_string_property i buf =
     bindE (read_utf8 malformed_packet buf) (\<lambda>(len, s, rest). Inr (String_property i s len, rest))"

definition parse_binary_property :: "property_id \<Rightarrow> bytes \<Rightarrow> error_code + property_variant \<times> bytes" where
  "parse_binary_property i buf =
     bindE (read_binary malformed_packet buf) (\<lambda>(len, s, rest). Inr (Binary_property i s len, rest))"

definition parse_subscription_identifier :: "bytes \<Rightarrow> error_code + property_variant \<times> bytes" where
  "parse_subscription_identifier buf =
     (case variable_bytes_to_val buf of
        (Some n, rest) \<Rightarrow>
          if n = 0 then Inl protocol_error
          else Inr (Variable_property Id_subscription_identifier (val_to_variable_bytes n), rest)
      | (None, rest) \<Rightarrow> Inl malformed_packet)"

text \<open>
  The parsing constructor of \<^verbatim>\<open>user_property\<close> checks both strings in its \<^verbatim>\<open>len_str\<close> members,
  compares \<^verbatim>\<open>key_.size()\<close>, which includes the two length bytes, with \<open>0xffff\<close>, and finally
  executes \<^verbatim>\<open>ec = error_code{}\<close>, which discards what the members reported.
\<close>

definition parse_user_property :: "bytes \<Rightarrow> error_code + property_variant \<times> bytes" where
  "parse_user_property buf =
     bindE (read_binary malformed_packet buf) (\<lambda>(kl, k, buf).
     bindE (read_binary malformed_packet buf) (\<lambda>(vl, v, buf).
       if length kl + length k > 0xffff then Inl malformed_packet
       else if length vl + length v > 0xffff then Inl malformed_packet
       else Inr (User_property kl k vl v, buf)))"

fun parse_property :: "property_id \<Rightarrow> bytes \<Rightarrow> error_code + property_variant \<times> bytes" where
  "parse_property Id_payload_format_indicator buf =
     parse_n_bytes Id_payload_format_indicator 1 (\<lambda>b. hd b = 0 \<or> hd b = 1) malformed_packet buf"
| "parse_property Id_message_expiry_interval buf =
     parse_n_bytes Id_message_expiry_interval 4 (\<lambda>b. True) malformed_packet buf"
| "parse_property Id_content_type buf =
     parse_string_property Id_content_type buf"
| "parse_property Id_response_topic buf =
     parse_string_property Id_response_topic buf"
| "parse_property Id_correlation_data buf =
     parse_binary_property Id_correlation_data buf"
| "parse_property Id_subscription_identifier buf =
     parse_subscription_identifier buf"
| "parse_property Id_session_expiry_interval buf =
     parse_n_bytes Id_session_expiry_interval 4 (\<lambda>b. True) malformed_packet buf"
| "parse_property Id_assigned_client_identifier buf =
     parse_string_property Id_assigned_client_identifier buf"
| "parse_property Id_server_keep_alive buf =
     parse_n_bytes Id_server_keep_alive 2 (\<lambda>b. True) malformed_packet buf"
| "parse_property Id_authentication_method buf =
     parse_string_property Id_authentication_method buf"
| "parse_property Id_authentication_data buf =
     parse_binary_property Id_authentication_data buf"
| "parse_property Id_request_problem_information buf =
     parse_n_bytes Id_request_problem_information 1 (\<lambda>b. True) malformed_packet buf"
| "parse_property Id_will_delay_interval buf =
     parse_n_bytes Id_will_delay_interval 4 (\<lambda>b. True) malformed_packet buf"
| "parse_property Id_request_response_information buf =
     parse_n_bytes Id_request_response_information 1 (\<lambda>b. True) malformed_packet buf"
| "parse_property Id_response_information buf =
     parse_string_property Id_response_information buf"
| "parse_property Id_server_reference buf =
     parse_string_property Id_server_reference buf"
| "parse_property Id_reason_string buf =
     parse_string_property Id_reason_string buf"
| "parse_property Id_receive_maximum buf =
     parse_n_bytes Id_receive_maximum 2 (\<lambda>b. endian_load b \<noteq> 0) protocol_error buf"
| "parse_property Id_topic_alias_maximum buf =
     parse_n_bytes Id_topic_alias_maximum 2 (\<lambda>b. True) malformed_packet buf"
| "parse_property Id_topic_alias buf =
     parse_n_bytes Id_topic_alias 2 (\<lambda>b. True) malformed_packet buf"
| "parse_property Id_maximum_qos buf =
     parse_n_bytes Id_maximum_qos 1 (\<lambda>b. hd b = at_most_once \<or> hd b = at_least_once) protocol_error buf"
| "parse_property Id_retain_available buf =
     parse_n_bytes Id_retain_available 1 (\<lambda>b. True) malformed_packet buf"
| "parse_property Id_user_property buf =
     parse_user_property buf"
| "parse_property Id_maximum_packet_size buf =
     parse_n_bytes Id_maximum_packet_size 4 (\<lambda>b. endian_load b \<noteq> 0) protocol_error buf"
| "parse_property Id_wildcard_subscription_available buf =
     parse_n_bytes Id_wildcard_subscription_available 1 (\<lambda>b. True) malformed_packet buf"
| "parse_property Id_subscription_identifier_available buf =
     parse_n_bytes Id_subscription_identifier_available 1 (\<lambda>b. True) malformed_packet buf"
| "parse_property Id_shared_subscription_available buf =
     parse_n_bytes Id_shared_subscription_available 1 (\<lambda>b. True) malformed_packet buf"

definition make_property_variant :: "property_location \<Rightarrow> bytes \<Rightarrow> error_code + property_variant \<times> bytes" where
  "make_property_variant loc buf =
     (case buf of
        [] \<Rightarrow> Inl malformed_packet
      | b # buf' \<Rightarrow>
          (case property_id_of b of
             None \<Rightarrow> Inl malformed_packet
           | Some i \<Rightarrow> if validate_property loc i then parse_property i buf' else Inl malformed_packet))"


lemma parse_property_consumes:
  "parse_property i buf = Inr (p, rest) \<Longrightarrow> length rest \<le> length buf"
  by (cases i)
     (auto simp: parse_n_bytes_def parse_string_property_def parse_binary_property_def
       parse_subscription_identifier_def parse_user_property_def bindE_eq_Inr
       dest!: codec_dests dest: variable_bytes_consumes split: if_splits prod.splits option.splits)

lemma make_property_variant_consumes:
  "make_property_variant loc buf = Inr (p, rest) \<Longrightarrow> length rest < length buf"
  by (auto simp: make_property_variant_def dest!: parse_property_consumes
       split: list.splits option.splits if_splits)

function make_properties :: "property_location \<Rightarrow> bytes \<Rightarrow> error_code + properties" where
  "make_properties loc buf =
     (if buf = [] then Inr []
      else
        (case make_property_variant loc buf of
           Inl e \<Rightarrow> Inl e
         | Inr (p, rest) \<Rightarrow> bindE (make_properties loc rest) (\<lambda>ps. Inr (p # ps))))"
  by pat_completeness auto
termination
  by (relation "measure (\<lambda>(loc, buf). length buf)") (auto dest: make_property_variant_consumes)

declare make_properties.simps [simp del]

subsection \<open>Well-formed properties\<close>

datatype property_kind = Kind_n_bytes nat | Kind_string | Kind_binary | Kind_variable | Kind_user

fun property_kind_of :: "property_id \<Rightarrow> property_kind" where
  "property_kind_of Id_payload_format_indicator = Kind_n_bytes 1"
| "property_kind_of Id_message_expiry_interval = Kind_n_bytes 4"
| "property_kind_of Id_content_type = Kind_string"
| "property_kind_of Id_response_topic = Kind_string"
| "property_kind_of Id_correlation_data = Kind_binary"
| "property_kind_of Id_subscription_identifier = Kind_variable"
| "property_kind_of Id_session_expiry_interval = Kind_n_bytes 4"
| "property_kind_of Id_assigned_client_identifier = Kind_string"
| "property_kind_of Id_server_keep_alive = Kind_n_bytes 2"
| "property_kind_of Id_authentication_method = Kind_string"
| "property_kind_of Id_authentication_data = Kind_binary"
| "property_kind_of Id_request_problem_information = Kind_n_bytes 1"
| "property_kind_of Id_will_delay_interval = Kind_n_bytes 4"
| "property_kind_of Id_request_response_information = Kind_n_bytes 1"
| "property_kind_of Id_response_information = Kind_string"
| "property_kind_of Id_server_reference = Kind_string"
| "property_kind_of Id_reason_string = Kind_string"
| "property_kind_of Id_receive_maximum = Kind_n_bytes 2"
| "property_kind_of Id_topic_alias_maximum = Kind_n_bytes 2"
| "property_kind_of Id_topic_alias = Kind_n_bytes 2"
| "property_kind_of Id_maximum_qos = Kind_n_bytes 1"
| "property_kind_of Id_retain_available = Kind_n_bytes 1"
| "property_kind_of Id_user_property = Kind_user"
| "property_kind_of Id_maximum_packet_size = Kind_n_bytes 4"
| "property_kind_of Id_wildcard_subscription_available = Kind_n_bytes 1"
| "property_kind_of Id_subscription_identifier_available = Kind_n_bytes 1"
| "property_kind_of Id_shared_subscription_available = Kind_n_bytes 1"

text \<open>The restriction a class puts on its value, and the code it reports.\<close>

fun property_check :: "property_id \<Rightarrow> bytes \<Rightarrow> bool" where
  "property_check Id_payload_format_indicator b \<longleftrightarrow> hd b = 0 \<or> hd b = 1"
| "property_check Id_receive_maximum b \<longleftrightarrow> endian_load b \<noteq> 0"
| "property_check Id_maximum_packet_size b \<longleftrightarrow> endian_load b \<noteq> 0"
| "property_check Id_maximum_qos b \<longleftrightarrow> hd b = at_most_once \<or> hd b = at_least_once"
| "property_check _ b \<longleftrightarrow> True"

definition property_check_error :: "property_id \<Rightarrow> error_code" where
  "property_check_error i =
     (if i \<in> {Id_receive_maximum, Id_maximum_packet_size, Id_maximum_qos} then protocol_error else malformed_packet)"

lemma parse_property_kind:
  "parse_property i buf =
     (case property_kind_of i of
        Kind_n_bytes n \<Rightarrow> parse_n_bytes i n (property_check i) (property_check_error i) buf
      | Kind_string \<Rightarrow> parse_string_property i buf
      | Kind_binary \<Rightarrow> parse_binary_property i buf
      | Kind_variable \<Rightarrow> parse_subscription_identifier buf
      | Kind_user \<Rightarrow> parse_user_property buf)"
  by (cases i) (simp_all add: property_check_error_def parse_n_bytes_def)

lemma property_kind_single:
  "property_kind_of i = Kind_variable \<longleftrightarrow> i = Id_subscription_identifier"
  "property_kind_of i = Kind_user \<longleftrightarrow> i = Id_user_property"
  by (cases i; simp)+

fun property_ok :: "property_variant \<Rightarrow> bool" where
  "property_ok (N_bytes_property i b) \<longleftrightarrow> property_kind_of i = Kind_n_bytes (length b) \<and> property_check i b"
| "property_ok (Binary_property i b l) \<longleftrightarrow>
     property_kind_of i = Kind_binary \<and> length b \<le> 0xffff \<and> l = endian_store 2 (length b)"
| "property_ok (String_property i b l) \<longleftrightarrow>
     property_kind_of i = Kind_string \<and> length b \<le> 0xffff \<and> l = endian_store 2 (length b) \<and> utf8string_check b"
| "property_ok (Variable_property i v) \<longleftrightarrow>
     i = Id_subscription_identifier \<and>
     (case variable_bytes_to_val v of (Some n, _) \<Rightarrow> 0 < n \<and> v = val_to_variable_bytes n | (None, _) \<Rightarrow> False)"
| "property_ok (User_property kl k vl v) \<longleftrightarrow>
     length k \<le> 0xfffd \<and> length v \<le> 0xfffd \<and>
     kl = endian_store 2 (length k) \<and> vl = endian_store 2 (length v)"

definition property_bytes :: "property_variant \<Rightarrow> bytes" where
  "property_bytes p = concat (property_const_buffer_sequence p)"

definition properties_bytes :: "properties \<Rightarrow> bytes" where
  "properties_bytes ps = concat (properties_const_buffer_sequence ps)"

lemma property_id_of_value [simp]: "property_id_of (property_id_value i) = Some i"
  by (cases i) (simp_all add: property_id_of_def all_property_ids_def)

declare property_id_value.simps [simp del]

lemma property_id_ofD: "property_id_of b = Some i \<Longrightarrow> property_id_value i = b"
  by (auto simp: property_id_of_def find_Some_iff)

lemma property_size_bytes: "property_size p = length (property_bytes p)"
  by (cases p) (simp_all add: property_bytes_def)

lemma foldl_plus_sum_list: "foldl (\<lambda>t x. t + f x) (n :: nat) xs = n + sum_list (map f xs)"
  by (induction xs arbitrary: n) simp_all

lemma properties_size_bytes [codec_simps]: "properties_size ps = length (properties_bytes ps)"
proof -
  have "sum_list (map property_size ps) = length (properties_bytes ps)"
    by (induction ps)
       (simp_all add: properties_bytes_def properties_const_buffer_sequence_def property_size_bytes property_bytes_def)
  then show ?thesis by (simp add: properties_size_def foldl_plus_sum_list)
qed

lemma properties_bytes_simps [simp]:
  "properties_bytes [] = []" "properties_bytes (p # ps) = property_bytes p @ properties_bytes ps"
  by (simp_all add: properties_bytes_def properties_const_buffer_sequence_def property_bytes_def)

subsection \<open>Round trip\<close>

lemma make_property_variant_roundtrip:
  assumes "property_ok p" and "validate_property loc (prop_id p)"
  shows "make_property_variant loc (property_bytes p @ rest) = Inr (p, rest)"
proof (cases p)
  case (N_bytes_property i b)
  then show ?thesis
    using assms by (auto simp: make_property_variant_def property_bytes_def parse_property_kind parse_n_bytes_def)
next
  case (Binary_property i b l)
  then show ?thesis
    using assms by (auto simp: make_property_variant_def property_bytes_def parse_property_kind
        parse_binary_property_def read_binary_roundtrip)
next
  case (String_property i b l)
  then show ?thesis
    using assms by (auto simp: make_property_variant_def property_bytes_def parse_property_kind
        parse_string_property_def read_utf8_roundtrip)
next
  case (Variable_property i v)
  with assms(1) obtain n r where "i = Id_subscription_identifier" "v = val_to_variable_bytes n" "0 < n"
      "variable_bytes_to_val v = (Some n, r)"
    by (auto split: prod.splits option.splits)
  moreover from this(4) have "n \<le> 0xfffffff" by (rule variable_bytes_decode_bound)
  ultimately show ?thesis
    using assms(2) Variable_property
    by (simp add: make_property_variant_def property_bytes_def parse_subscription_identifier_def variable_bytes_roundtrip)
next
  case (User_property kl k vl v)
  then have u: "length k \<le> 0xfffd" "length v \<le> 0xfffd" "kl = endian_store 2 (length k)" "vl = endian_store 2 (length v)"
    using assms by simp_all
  then have "read_binary malformed_packet (kl @ k @ vl @ v @ rest) = Inr (kl, k, vl @ v @ rest)"
    "read_binary malformed_packet (vl @ v @ rest) = Inr (vl, v, rest)"
    by (simp_all add: read_binary_roundtrip)
  with u User_property assms(2) show ?thesis
    by (simp add: make_property_variant_def property_bytes_def parse_user_property_def)
qed

lemma property_bytes_not_empty [simp]: "property_bytes p \<noteq> []"
  by (cases p) (simp_all add: property_bytes_def)

definition properties_ok :: "property_location \<Rightarrow> properties \<Rightarrow> bool" where
  "properties_ok loc ps \<longleftrightarrow> (\<forall>p \<in> set ps. property_ok p \<and> validate_property loc (prop_id p))"

lemma make_properties_roundtrip [codec_simps]:
  "properties_ok loc ps \<Longrightarrow> make_properties loc (properties_bytes ps) = Inr ps"
proof (induction ps)
  case (Cons p ps)
  then have "make_property_variant loc (property_bytes p @ properties_bytes ps) = Inr (p, properties_bytes ps)"
    by (intro make_property_variant_roundtrip) (simp_all add: properties_ok_def)
  with Cons show ?case by (simp add: properties_ok_def make_properties.simps [of loc "property_bytes p @ properties_bytes ps"])
qed (simp add: make_properties.simps)

subsection \<open>What parsing delivers\<close>

lemma parse_n_bytes_ok:
  "parse_n_bytes i n (property_check i) e buf = Inr (p, rest) \<Longrightarrow> property_kind_of i = Kind_n_bytes n \<Longrightarrow>
    prop_id p = i \<and> property_ok p \<and> property_id_value i # buf = property_bytes p @ rest"
  by (auto simp: parse_n_bytes_def property_bytes_def min_def split: if_splits)

lemma parse_string_property_ok:
  "parse_string_property i buf = Inr (p, rest) \<Longrightarrow> property_kind_of i = Kind_string \<Longrightarrow>
    prop_id p = i \<and> property_ok p \<and> property_id_value i # buf = property_bytes p @ rest"
  by (auto simp: parse_string_property_def property_bytes_def bindE_eq_Inr dest!: codec_dests)

lemma parse_binary_property_ok:
  "parse_binary_property i buf = Inr (p, rest) \<Longrightarrow> property_kind_of i = Kind_binary \<Longrightarrow>
    prop_id p = i \<and> property_ok p \<and> property_id_value i # buf = property_bytes p @ rest"
  by (auto simp: parse_binary_property_def property_bytes_def bindE_eq_Inr dest!: codec_dests)

lemma parse_user_property_ok:
  "parse_user_property buf = Inr (p, rest) \<Longrightarrow>
    prop_id p = Id_user_property \<and> property_ok p \<and> property_id_value Id_user_property # buf = property_bytes p @ rest"
  by (auto simp: parse_user_property_def property_bytes_def bindE_eq_Inr split: if_splits dest!: codec_dests)

lemma parse_subscription_identifier_ok:
  assumes "parse_subscription_identifier buf = Inr (p, rest)"
  shows "prop_id p = Id_subscription_identifier \<and> property_ok p"
proof -
  from assms obtain n where n: "variable_bytes_to_val buf = (Some n, rest)" "0 < n"
      "p = Variable_property Id_subscription_identifier (val_to_variable_bytes n)"
    by (auto simp: parse_subscription_identifier_def split: prod.splits option.splits if_splits)
  from variable_bytes_decode_bound [OF n(1)]
  have "variable_bytes_to_val (val_to_variable_bytes n) = (Some n, [])"
    using variable_bytes_roundtrip [of n "[]"] by simp
  with n(2,3) show ?thesis by simp
qed

lemma parse_property_ok:
  assumes "parse_property i buf = Inr (p, rest)"
  shows "prop_id p = i" and "property_ok p"
    and "i \<noteq> Id_subscription_identifier \<Longrightarrow> property_id_value i # buf = property_bytes p @ rest"
  using assms parse_n_bytes_ok [of i _ "property_check_error i" buf p rest] parse_string_property_ok [of i buf p rest]
    parse_binary_property_ok [of i buf p rest] parse_user_property_ok [of buf p rest]
    parse_subscription_identifier_ok [of buf p rest] property_kind_single [of i]
  by (simp_all add: parse_property_kind split: property_kind.splits)

lemma make_property_variant_ok:
  assumes "make_property_variant loc buf = Inr (p, rest)"
  shows "property_ok p" and "validate_property loc (prop_id p)"
    and "prop_id p \<noteq> Id_subscription_identifier \<Longrightarrow> buf = property_bytes p @ rest"
  using assms parse_property_ok
  by (auto simp: make_property_variant_def dest!: property_id_ofD split: list.splits option.splits if_splits)

lemma make_properties_ok:
  "make_properties loc buf = Inr ps \<Longrightarrow>
    properties_ok loc ps \<and> (Id_subscription_identifier \<notin> prop_id ` set ps \<longrightarrow> properties_bytes ps = buf)"
proof (induction loc buf arbitrary: ps rule: make_properties.induct)
  case (1 loc buf)
  show ?case
  proof (cases "buf = []")
    case True
    with 1(2) show ?thesis by (simp add: make_properties.simps [of loc "[]"] properties_ok_def)
  next
    case False
    with 1(2) obtain p rest qs where
      *: "make_property_variant loc buf = Inr (p, rest)" "make_properties loc rest = Inr qs" "ps = p # qs"
      by (auto simp: make_properties.simps [of loc buf] bindE_eq_Inr split: sum.splits)
    with 1(1) [OF False *(1) refl *(2)] make_property_variant_ok [OF *(1)] show ?thesis
      by (auto simp: properties_ok_def)
  qed
qed

subsection \<open>Properties\<close>

text \<open>
  A list of well-formed properties that are allowed in a packet is read back from its
  encoding, property by property and in order, and \<^verbatim>\<open>size\<close> is the length of the encoding.
\<close>

theorem properties_roundtrip:
  assumes "properties_ok loc ps"
  shows "make_properties loc (concat (properties_const_buffer_sequence ps)) = Inr ps \<and>
    properties_size ps = length (concat (properties_const_buffer_sequence ps))"
  using assms make_properties_roundtrip properties_size_bytes by (simp add: properties_bytes_def)

theorem properties_roundtrip_witness:
  "make_properties Loc_publish (concat (properties_const_buffer_sequence
     [topic_alias 7, N_bytes_property Id_payload_format_indicator [1]])) =
   Inr [topic_alias 7, N_bytes_property Id_payload_format_indicator [1]]"
  using properties_roundtrip [of Loc_publish "[topic_alias 7, N_bytes_property Id_payload_format_indicator [1]]"]
  by (simp add: properties_ok_def topic_alias_def)

text \<open>
  Whatever \<^verbatim>\<open>make_properties\<close> accepts is a list of well-formed properties allowed at
  that location, and writing it again gives the bytes that were read, unless a subscription
  identifier is among them, whose encoding is normalised.
\<close>

theorem properties_parse_faithful:
  assumes "make_properties loc buf = Inr ps"
  shows "(\<forall>p \<in> set ps. property_ok p \<and> validate_property loc (prop_id p)) \<and>
    (Id_subscription_identifier \<notin> prop_id ` set ps \<longrightarrow> concat (properties_const_buffer_sequence ps) = buf)"
  using make_properties_ok [OF assms] by (simp add: properties_ok_def properties_bytes_def)

theorem properties_parse_faithful_witness:
  "\<exists>ps. make_properties Loc_publish [35, 0, 7] = Inr ps \<and> concat (properties_const_buffer_sequence ps) = [35, 0, 7]"
proof -
  have "[35, 0, 7] = property_bytes (topic_alias 7)"
    by (simp add: property_bytes_def topic_alias_def property_id_value.simps numeral_2_eq_2)
  then have m: "make_properties Loc_publish [35, 0, 7] = Inr [topic_alias 7]"
    using make_properties_roundtrip [of Loc_publish "[topic_alias 7]"]
    by (simp add: properties_ok_def topic_alias_def)
  from properties_parse_faithful [OF m] m show ?thesis by (simp add: topic_alias_def)
qed

text \<open>
  The parsing constructor of a user property accepts strings that are not valid UTF-8, which
  the throwing constructor rejects, and rejects keys and values of 65534 and 65535 bytes, which the
  throwing constructor accepts.
\<close>

theorem user_property_constructors_disagree:
  assumes "length k \<le> 0xffff" and "length v \<le> 0xffff"
  shows "make_property_variant loc
      (38 # endian_store 2 (length k) @ k @ endian_store 2 (length v) @ v) =
        (if length k \<le> 0xfffd \<and> length v \<le> 0xfffd
         then Inr (User_property (endian_store 2 (length k)) k (endian_store 2 (length v)) v, [])
         else Inl malformed_packet) \<and>
    user_property k v =
        (if utf8string_check k \<and> utf8string_check v
         then Inr (User_property (endian_store 2 (length k)) k (endian_store 2 (length v)) v)
         else Inl (System_error malformed_packet))"
proof -
  have val: "validate_property loc Id_user_property" by (cases loc) simp_all
  have "property_id_of 38 = Some Id_user_property"
    using property_id_of_value [of Id_user_property] by (simp add: property_id_value.simps)
  with val assms show ?thesis
    by (auto simp: make_property_variant_def parse_user_property_def read_binary_roundtrip user_property_def
        make_len_str_def numeric_cast_def throw_unless_def)
qed

theorem user_property_constructors_disagree_witness:
  "make_property_variant Loc_publish (38 # endian_store 2 1 @ [0xFF] @ endian_store 2 0) =
     Inr (User_property (endian_store 2 1) [0xFF] (endian_store 2 0) [], []) \<and>
   user_property [0xFF] [] = Inl (System_error malformed_packet)"
  using user_property_constructors_disagree [of "[0xFF]" "[]" Loc_publish]
  by (simp add: utf8string_check.simps)

end
