(* ===== verification/V3_Packets.thy ===== *)
theory V3_Packets
  imports Property
begin

unbundle bit_operations_syntax

text \<open>
  The MQTT 3.1.1 packets (\<^verbatim>\<open>packet/v3_1_1_*.hpp\<close>, \<^verbatim>\<open>packet/impl/v3_1_1_*.ipp\<close>). A packet
  keeps its encoded parts, so a record has the members of the class; the packets of fixed size
  have one member \<^verbatim>\<open>all_\<close> and are byte lists. For each packet: the throwing constructor, the
  parsing constructor, the sequence of buffers it is sent from and \<^verbatim>\<open>size()\<close>. \<open>n\<close> is the
  template argument \<^verbatim>\<open>PacketIdBytes\<close>.
\<close>

subsection \<open>Will message\<close>

record will =
  will_topic :: bytes
  will_message :: bytes
  will_pubopts :: pubopts
  will_props :: properties

definition will_get_retain :: "will \<Rightarrow> byte" where "will_get_retain w = opts_get_retain (will_pubopts w)"
definition will_get_qos :: "will \<Rightarrow> qos" where "will_get_qos w = opts_get_qos (will_pubopts w)"

subsection \<open>CONNECT\<close>

record v3_connect =
  c3_fixed_header :: byte
  c3_connect_flags :: byte
  c3_remaining_length :: nat
  c3_remaining_length_buf :: bytes
  c3_protocol_name_and_level :: bytes
  c3_client_id :: bytes
  c3_client_id_length_buf :: bytes
  c3_will_topic :: bytes
  c3_will_topic_length_buf :: bytes
  c3_will_message :: bytes
  c3_will_message_length_buf :: bytes
  c3_user_name :: bytes
  c3_user_name_length_buf :: bytes
  c3_password :: bytes
  c3_password_length_buf :: bytes
  c3_keep_alive_buf :: bytes

text \<open>\<^verbatim>\<open>{0x00, 0x04, 'M', 'Q', 'T', 'T', level}\<close>\<close>

definition protocol_name_and_level :: "byte \<Rightarrow> bytes" where
  "protocol_name_and_level level = [0x00, 0x04, 0x4D, 0x51, 0x54, 0x54, level]"

text \<open>
  The optional strings of the payload: nothing, or a two-byte length and the string. \<open>chk\<close> is
  the check the code makes first.
\<close>

definition make_opt_string :: "(bytes \<Rightarrow> bool) \<Rightarrow> bytes option \<Rightarrow> exn + bytes \<times> bytes" where
  "make_opt_string chk so =
     (case so of
        None \<Rightarrow> Inr ([], [])
      | Some s \<Rightarrow>
          bindE (throw_unless (chk s) connect_malformed_packet) (\<lambda>_.
          bindE (numeric_cast 16 (length s)) (\<lambda>len.
          Inr (endian_store 2 len, s))))"

text \<open>The will of a CONNECT packet: both strings with their lengths.\<close>

definition make_will_strings :: "will option \<Rightarrow> exn + (bytes \<times> bytes) \<times> (bytes \<times> bytes)" where
  "make_will_strings wo =
     (case wo of
        None \<Rightarrow> Inr (([], []), ([], []))
      | Some w \<Rightarrow>
          bindE (throw_unless (utf8string_check (will_topic w)) connect_malformed_packet) (\<lambda>_.
          bindE (numeric_cast 16 (length (will_topic w))) (\<lambda>tl.
          bindE (throw_unless (length (will_message w) \<le> 0xffff) connect_malformed_packet) (\<lambda>_.
          bindE (numeric_cast 16 (length (will_message w))) (\<lambda>ml.
          Inr ((endian_store 2 tl, will_topic w), (endian_store 2 ml, will_message w)))))))"

definition make_connect_flags :: "bool \<Rightarrow> will option \<Rightarrow> bytes option \<Rightarrow> bytes option \<Rightarrow> byte" where
  "make_connect_flags clean wo uo po =
     (let f = (if clean then 0 OR mask_clean_session else 0);
          f = (if uo \<noteq> None then f OR mask_user_name_flag else f);
          f = (if po \<noteq> None then f OR mask_password_flag else f)
      in case wo of
           None \<Rightarrow> f
         | Some w \<Rightarrow>
             let f = f OR mask_will_flag;
                 f = (if will_get_retain w = retain_yes then f OR mask_will_retain else f)
             in set_will_qos f (will_get_qos w))"

definition make_v3_connect ::
  "bool \<Rightarrow> nat \<Rightarrow> bytes \<Rightarrow> will option \<Rightarrow> bytes option \<Rightarrow> bytes option \<Rightarrow> exn + v3_connect" where
  "make_v3_connect clean_session keep_alive_sec client_id w user_name password =
     bindE (numeric_cast 16 (length client_id)) (\<lambda>cl.
     bindE (throw_unless (utf8string_check client_id) connect_malformed_packet) (\<lambda>_.
     bindE (make_opt_string utf8string_check user_name) (\<lambda>(ul, u).
     bindE (make_opt_string (\<lambda>_. True) password) (\<lambda>(pl, p).
     bindE (make_will_strings w) (\<lambda>((wtl, wt), (wml, wm)).
     let rl = 2 + 4 + 1 + 1 + 2 + 2 + length client_id
              + (if user_name \<noteq> None then 2 + length u else 0)
              + (if password \<noteq> None then 2 + length p else 0)
              + (if w \<noteq> None then 2 + length wt + 2 + length wm else 0)
     in bindE (numeric_cast 32 rl) (\<lambda>rl32.
     Inr \<lparr>c3_fixed_header = make_fixed_header Cpt_connect 0,
          c3_connect_flags = make_connect_flags clean_session w user_name password,
          c3_remaining_length = rl,
          c3_remaining_length_buf = val_to_variable_bytes rl32,
          c3_protocol_name_and_level = protocol_name_and_level 4,
          c3_client_id = client_id, c3_client_id_length_buf = endian_store 2 cl,
          c3_will_topic = wt, c3_will_topic_length_buf = wtl,
          c3_will_message = wm, c3_will_message_length_buf = wml,
          c3_user_name = u, c3_user_name_length_buf = ul,
          c3_password = p, c3_password_length_buf = pl,
          c3_keep_alive_buf = endian_store 2 keep_alive_sec\<rparr>))))))"

definition v3_connect_const_buffer_sequence :: "v3_connect \<Rightarrow> bytes list" where
  "v3_connect_const_buffer_sequence p =
     [[c3_fixed_header p], c3_remaining_length_buf p, c3_protocol_name_and_level p, [c3_connect_flags p],
      c3_keep_alive_buf p, c3_client_id_length_buf p, c3_client_id p] @
     (if has_will_flag (c3_connect_flags p)
      then [c3_will_topic_length_buf p, c3_will_topic p, c3_will_message_length_buf p, c3_will_message p] else []) @
     (if has_user_name_flag (c3_connect_flags p) then [c3_user_name_length_buf p, c3_user_name p] else []) @
     (if has_password_flag (c3_connect_flags p) then [c3_password_length_buf p, c3_password p] else [])"

definition v3_connect_size :: "v3_connect \<Rightarrow> nat" where
  "v3_connect_size p = 1 + length (c3_remaining_length_buf p) + c3_remaining_length p"

definition v3_connect_num_of_const_buffer_sequence :: "v3_connect \<Rightarrow> nat" where
  "v3_connect_num_of_const_buffer_sequence p =
     1 + 1 + 1 + 1 + 1 + 2
     + (if has_will_flag (c3_connect_flags p) then 2 + 2 else 0)
     + (if has_user_name_flag (c3_connect_flags p) then 2 else 0)
     + (if has_password_flag (c3_connect_flags p) then 2 else 0)"

definition v3_connect_clean_session :: "v3_connect \<Rightarrow> bool" where
  "v3_connect_clean_session p = has_clean_session (c3_connect_flags p)"

definition v3_connect_keep_alive :: "v3_connect \<Rightarrow> nat" where
  "v3_connect_keep_alive p = endian_load (c3_keep_alive_buf p)"

definition v3_connect_user_name :: "v3_connect \<Rightarrow> bytes option" where
  "v3_connect_user_name p = (if has_user_name_flag (c3_connect_flags p) then Some (c3_user_name p) else None)"

definition v3_connect_password :: "v3_connect \<Rightarrow> bytes option" where
  "v3_connect_password p = (if has_password_flag (c3_connect_flags p) then Some (c3_password p) else None)"

definition v3_connect_get_will :: "v3_connect \<Rightarrow> will option" where
  "v3_connect_get_will p =
     (if has_will_flag (c3_connect_flags p)
      then Some \<lparr>will_topic = c3_will_topic p, will_message = c3_will_message p,
                 will_pubopts = pubopts_or (will_retain (c3_connect_flags p))
                                  (pubopts_of_qos (will_qos (c3_connect_flags p))),
                 will_props = []\<rparr>
      else None)"

text \<open>Parsing of the optional parts.\<close>

definition read_will_strings ::
  "'e \<Rightarrow> byte \<Rightarrow> bytes \<Rightarrow> 'e + ((bytes \<times> bytes) \<times> (bytes \<times> bytes)) \<times> bytes" where
  "read_will_strings e flags buf =
     (if has_will_flag flags then
        bindE (fail_unless (will_qos flags \<in> {at_most_once, at_least_once, exactly_once}) e) (\<lambda>_.
        bindE (read_utf8 e buf) (\<lambda>(tl, t, buf).
        bindE (read_binary e buf) (\<lambda>(ml, m, buf).
        Inr (((tl, t), (ml, m)), buf))))
      else
        bindE (fail_unless (will_retain flags \<noteq> retain_yes) e) (\<lambda>_.
        bindE (fail_unless (will_qos flags = at_most_once) e) (\<lambda>_.
        Inr ((([], []), ([], [])), buf))))"

definition read_user_name :: "'e \<Rightarrow> byte \<Rightarrow> bytes \<Rightarrow> 'e + (bytes \<times> bytes) \<times> bytes" where
  "read_user_name e flags buf =
     (if has_user_name_flag flags
      then bindE (read_utf8 e buf) (\<lambda>(ul, u, buf). Inr ((ul, u), buf))
      else Inr (([], []), buf))"

text \<open>The password has to fill the rest of the packet: \<^verbatim>\<open>buf.size() != password_length\<close>.\<close>

definition read_password :: "'e \<Rightarrow> byte \<Rightarrow> bytes \<Rightarrow> 'e + (bytes \<times> bytes) \<times> bytes" where
  "read_password e flags buf =
     (if has_password_flag flags
      then
        bindE (read_bytes e 2 buf) (\<lambda>(pl, buf).
        bindE (fail_unless (length buf = endian_load pl) e) (\<lambda>_.
        Inr ((pl, take (endian_load pl) buf), drop (endian_load pl) buf)))
      else Inr (([], []), buf))"

definition parse_v3_connect :: "bytes \<Rightarrow> error_code + v3_connect" where
  "parse_v3_connect buf =
     (let e = connect_malformed_packet in
      bindE (read_fixed_header e Cpt_connect buf) (\<lambda>(fh, buf).
      bindE (read_remaining_length e buf) (\<lambda>(rl, rlb, buf).
      bindE (read_bytes e 7 buf) (\<lambda>(pnl, buf).
      bindE (fail_unless (pnl = protocol_name_and_level 4) connect_unsupported_protocol_version) (\<lambda>_.
      bindE (read_byte e buf) (\<lambda>(flags, buf).
      bindE (fail_unless (flags AND 0x01 = 0) e) (\<lambda>_.
      bindE (read_bytes e 2 buf) (\<lambda>(ka, buf).
      bindE (read_utf8 e buf) (\<lambda>(cl, c, buf).
      bindE (read_will_strings e flags buf) (\<lambda>(((wtl, wt), (wml, wm)), buf).
      bindE (read_user_name e flags buf) (\<lambda>((ul, u), buf).
      bindE (read_password e flags buf) (\<lambda>((pl, p), buf).
      Inr \<lparr>c3_fixed_header = fh, c3_connect_flags = flags, c3_remaining_length = rl, c3_remaining_length_buf = rlb,
           c3_protocol_name_and_level = pnl, c3_client_id = c, c3_client_id_length_buf = cl,
           c3_will_topic = wt, c3_will_topic_length_buf = wtl, c3_will_message = wm, c3_will_message_length_buf = wml,
           c3_user_name = u, c3_user_name_length_buf = ul, c3_password = p, c3_password_length_buf = pl,
           c3_keep_alive_buf = ka\<rparr>))))))))))))"

subsection \<open>Packets of fixed size\<close>

text \<open>
  CONNACK, PUBACK, PUBREC, PUBREL, PUBCOMP, UNSUBACK, PINGREQ, PINGRESP and DISCONNECT keep all
  their bytes in \<^verbatim>\<open>all_\<close>; the four publish acknowledgements and UNSUBACK have the same code up
  to the packet type.
\<close>

type_synonym v3_all = bytes

definition make_v3_connack :: "bool \<Rightarrow> byte \<Rightarrow> v3_all" where
  "make_v3_connack session_present return_code =
     [make_fixed_header Cpt_connack 0, 0x02, if session_present then 1 else 0, return_code]"

definition v3_connack_session_present :: "v3_all \<Rightarrow> bool" where
  "v3_connack_session_present p = is_session_present (p ! 2)"

definition v3_connack_code :: "v3_all \<Rightarrow> byte" where
  "v3_connack_code p = p ! 3"

definition parse_v3_connack :: "bytes \<Rightarrow> error_code + v3_all" where
  "parse_v3_connack buf =
     bindE (read_fixed_header malformed_packet Cpt_connack buf) (\<lambda>(fh, buf).
     bindE (read_byte malformed_packet buf) (\<lambda>(rl, buf).
     bindE (fail_unless (rl = 0x02) malformed_packet) (\<lambda>_.
     bindE (fail_unless (length buf = 2) malformed_packet) (\<lambda>_.
     bindE (read_byte malformed_packet buf) (\<lambda>(sp, buf).
     bindE (fail_unless (sp AND 0xFE = 0) malformed_packet) (\<lambda>_.
     bindE (read_byte malformed_packet buf) (\<lambda>(rc, buf).
     bindE (fail_unless (rc \<le> 5) malformed_packet) (\<lambda>_.
     Inr [fh, rl, sp, rc]))))))))"

definition make_v3_ack :: "control_packet_type \<Rightarrow> byte \<Rightarrow> nat \<Rightarrow> nat \<Rightarrow> v3_all" where
  "make_v3_ack c flags n packet_id = make_fixed_header c flags # of_nat n # endian_store n packet_id"

definition parse_v3_ack :: "control_packet_type \<Rightarrow> nat \<Rightarrow> bytes \<Rightarrow> error_code + v3_all" where
  "parse_v3_ack c n buf =
     bindE (read_fixed_header malformed_packet c buf) (\<lambda>(fh, buf).
     bindE (read_byte malformed_packet buf) (\<lambda>(rl, buf).
     bindE (fail_unless (unat rl = n) malformed_packet) (\<lambda>_.
     bindE (fail_unless (length buf = n) malformed_packet) (\<lambda>_.
     Inr (fh # rl # buf)))))"

definition v3_ack_packet_id :: "v3_all \<Rightarrow> nat" where
  "v3_ack_packet_id p = endian_load (drop 2 p)"

definition make_v3_puback :: "nat \<Rightarrow> nat \<Rightarrow> v3_all" where "make_v3_puback = make_v3_ack Cpt_puback 0"
definition make_v3_pubrec :: "nat \<Rightarrow> nat \<Rightarrow> v3_all" where "make_v3_pubrec = make_v3_ack Cpt_pubrec 0"
definition make_v3_pubrel :: "nat \<Rightarrow> nat \<Rightarrow> v3_all" where "make_v3_pubrel = make_v3_ack Cpt_pubrel 0x02"
definition make_v3_pubcomp :: "nat \<Rightarrow> nat \<Rightarrow> v3_all" where "make_v3_pubcomp = make_v3_ack Cpt_pubcomp 0"
definition make_v3_unsuback :: "nat \<Rightarrow> nat \<Rightarrow> v3_all" where "make_v3_unsuback = make_v3_ack Cpt_unsuback 0"

definition parse_v3_puback :: "nat \<Rightarrow> bytes \<Rightarrow> error_code + v3_all" where "parse_v3_puback = parse_v3_ack Cpt_puback"
definition parse_v3_pubrec :: "nat \<Rightarrow> bytes \<Rightarrow> error_code + v3_all" where "parse_v3_pubrec = parse_v3_ack Cpt_pubrec"
definition parse_v3_pubrel :: "nat \<Rightarrow> bytes \<Rightarrow> error_code + v3_all" where "parse_v3_pubrel = parse_v3_ack Cpt_pubrel"
definition parse_v3_pubcomp :: "nat \<Rightarrow> bytes \<Rightarrow> error_code + v3_all" where "parse_v3_pubcomp = parse_v3_ack Cpt_pubcomp"
definition parse_v3_unsuback :: "nat \<Rightarrow> bytes \<Rightarrow> error_code + v3_all" where "parse_v3_unsuback = parse_v3_ack Cpt_unsuback"

text \<open>The packets without a body. Their parsing constructors do not look behind the second byte.\<close>

definition make_v3_empty :: "control_packet_type \<Rightarrow> v3_all" where
  "make_v3_empty c = [make_fixed_header c 0, 0]"

definition parse_v3_empty :: "control_packet_type \<Rightarrow> bytes \<Rightarrow> error_code + v3_all" where
  "parse_v3_empty c buf =
     bindE (read_fixed_header malformed_packet c buf) (\<lambda>(fh, buf).
     bindE (read_byte malformed_packet buf) (\<lambda>(rl, buf).
     bindE (fail_unless (rl = 0) malformed_packet) (\<lambda>_.
     Inr [fh, rl])))"

definition make_v3_pingreq :: v3_all where "make_v3_pingreq = make_v3_empty Cpt_pingreq"
definition make_v3_pingresp :: v3_all where "make_v3_pingresp = make_v3_empty Cpt_pingresp"
definition make_v3_disconnect :: v3_all where "make_v3_disconnect = make_v3_empty Cpt_disconnect"
definition parse_v3_pingreq :: "bytes \<Rightarrow> error_code + v3_all" where "parse_v3_pingreq = parse_v3_empty Cpt_pingreq"
definition parse_v3_pingresp :: "bytes \<Rightarrow> error_code + v3_all" where "parse_v3_pingresp = parse_v3_empty Cpt_pingresp"
definition parse_v3_disconnect :: "bytes \<Rightarrow> error_code + v3_all" where "parse_v3_disconnect = parse_v3_empty Cpt_disconnect"

definition v3_all_const_buffer_sequence :: "v3_all \<Rightarrow> bytes list" where "v3_all_const_buffer_sequence p = [p]"
definition v3_all_size :: "v3_all \<Rightarrow> nat" where "v3_all_size p = length p"

subsection \<open>PUBLISH\<close>

record v3_publish =
  p3_fixed_header :: byte
  p3_topic_name :: bytes
  p3_topic_name_length_buf :: bytes
  p3_packet_id :: bytes
  p3_payloads :: "bytes list"
  p3_remaining_length :: nat
  p3_remaining_length_buf :: bytes

definition qos_with_id :: "qos \<Rightarrow> bool" where
  "qos_with_id q \<longleftrightarrow> q = at_least_once \<or> q = exactly_once"

text \<open>
  The switch over the QoS at the end of the constructor. For QoS 0 the code stores an \<^verbatim>\<open>int\<close>
  zero, four bytes, into the \<open>n\<close> bytes of \<^verbatim>\<open>packet_id_\<close>; the model keeps the \<open>n\<close> bytes.
\<close>

definition publish_packet_id_buf :: "nat \<Rightarrow> nat \<Rightarrow> qos \<Rightarrow> exn + bytes" where
  "publish_packet_id_buf n packet_id q =
     (if q = at_most_once then
        bindE (throw_unless (packet_id = 0) malformed_packet) (\<lambda>_. Inr (take n (endian_store 4 0)))
      else if qos_with_id q then
        bindE (throw_unless (packet_id \<noteq> 0) malformed_packet) (\<lambda>_. Inr (endian_store n packet_id))
      else Inl (System_error malformed_packet))"

definition make_v3_publish :: "nat \<Rightarrow> nat \<Rightarrow> bytes \<Rightarrow> bytes list \<Rightarrow> pubopts \<Rightarrow> exn + v3_publish" where
  "make_v3_publish n packet_id topic payloads opts =
     bindE (throw_unless (length topic \<le> 0xffff) malformed_packet) (\<lambda>_.
     let rl = foldl (\<lambda>r payload. r + length payload)
                (2 + length topic + (if qos_with_id (opts_get_qos opts) then n else 0)) payloads in
     bindE (throw_unless (utf8string_check topic) malformed_packet) (\<lambda>_.
     bindE (numeric_cast 32 rl) (\<lambda>rl32.
     bindE (publish_packet_id_buf n packet_id (opts_get_qos opts)) (\<lambda>pid.
     Inr \<lparr>p3_fixed_header = make_fixed_header Cpt_publish 0 OR opts,
          p3_topic_name = topic, p3_topic_name_length_buf = endian_store 2 (length topic),
          p3_packet_id = pid, p3_payloads = payloads,
          p3_remaining_length = rl, p3_remaining_length_buf = val_to_variable_bytes rl32\<rparr>))))"

definition v3_publish_packet_id :: "v3_publish \<Rightarrow> nat" where
  "v3_publish_packet_id p = endian_load (p3_packet_id p)"

definition v3_publish_opts :: "v3_publish \<Rightarrow> pubopts" where
  "v3_publish_opts p = p3_fixed_header p"

definition v3_publish_set_dup :: "bool \<Rightarrow> v3_publish \<Rightarrow> v3_publish" where
  "v3_publish_set_dup dup p = p\<lparr>p3_fixed_header := pub_set_dup dup (p3_fixed_header p)\<rparr>"

definition v3_publish_const_buffer_sequence :: "v3_publish \<Rightarrow> bytes list" where
  "v3_publish_const_buffer_sequence p =
     [[p3_fixed_header p], p3_remaining_length_buf p, p3_topic_name_length_buf p, p3_topic_name p] @
     (if v3_publish_packet_id p \<noteq> 0 then [p3_packet_id p] else []) @ p3_payloads p"

definition v3_publish_size :: "v3_publish \<Rightarrow> nat" where
  "v3_publish_size p = 1 + length (p3_remaining_length_buf p) + p3_remaining_length p"

definition v3_publish_num_of_const_buffer_sequence :: "v3_publish \<Rightarrow> nat" where
  "v3_publish_num_of_const_buffer_sequence p =
     1 + 1 + 2 + (if v3_publish_packet_id p = 0 then 0 else 1) + length (p3_payloads p)"

text \<open>The packet identifier of a received PUBLISH, by its QoS.\<close>

definition read_publish_packet_id :: "nat \<Rightarrow> qos \<Rightarrow> bytes \<Rightarrow> error_code + bytes \<times> bytes" where
  "read_publish_packet_id n q buf =
     (if q = at_most_once then Inr (endian_store n 0, buf)
      else if qos_with_id q then read_bytes malformed_packet n buf
      else Inl malformed_packet)"

definition parse_v3_publish :: "nat \<Rightarrow> bytes \<Rightarrow> error_code + v3_publish" where
  "parse_v3_publish n buf =
     bindE (read_fixed_header malformed_packet Cpt_publish buf) (\<lambda>(fh, buf).
     bindE (read_remaining_length malformed_packet buf) (\<lambda>(rl, rlb, buf).
     bindE (read_utf8 malformed_packet buf) (\<lambda>(tl, t, buf).
     bindE (read_publish_packet_id n (pub_get_qos fh) buf) (\<lambda>(pid, buf).
     Inr \<lparr>p3_fixed_header = fh, p3_topic_name = t, p3_topic_name_length_buf = tl, p3_packet_id = pid,
          p3_payloads = (if buf \<noteq> [] then [buf] else []),
          p3_remaining_length = rl, p3_remaining_length_buf = rlb\<rparr>))))"

subsection \<open>SUBSCRIBE\<close>

record v3_subscribe =
  s3_fixed_header :: byte
  s3_topic_length_buf_entries :: "bytes list"
  s3_entries :: "topic_subopts list"
  s3_packet_id :: bytes
  s3_remaining_length :: nat
  s3_remaining_length_buf :: bytes

definition sub_qos_valid :: "subopts \<Rightarrow> bool" where
  "sub_qos_valid o1 \<longleftrightarrow> sub_get_qos o1 \<in> {at_most_once, at_least_once, exactly_once}"

definition v3_subopts_valid :: "subopts \<Rightarrow> bool" where
  "v3_subopts_valid o1 \<longleftrightarrow> o1 AND 0xFC = 0 \<and> sub_qos_valid o1"

definition v3_entry_check :: "topic_subopts \<Rightarrow> error_code + unit" where
  "v3_entry_check e = fail_unless (v3_subopts_valid (tso_opts e)) malformed_packet"

definition make_v3_subscribe :: "nat \<Rightarrow> nat \<Rightarrow> topic_subopts list \<Rightarrow> exn + v3_subscribe" where
  "make_v3_subscribe n packet_id params =
     bindE (throw_unless (list_all (\<lambda>e. length (tso_all_topic e) \<le> 0xffff) params) malformed_packet) (\<lambda>_.
     bindE (throw_unless (params \<noteq> []) protocol_error) (\<lambda>_.
     bindE (throw_unless
       (list_all (\<lambda>e. v3_subopts_valid (tso_opts e) \<and> utf8string_check (tso_all_topic e)) params) malformed_packet) (\<lambda>_.
     let rl = foldl (\<lambda>r e. r + (2 + length (tso_all_topic e) + 1)) n params in
     bindE (numeric_cast 32 rl) (\<lambda>rl32.
     Inr \<lparr>s3_fixed_header = make_fixed_header Cpt_subscribe 0x02,
          s3_topic_length_buf_entries = map (\<lambda>e. endian_store 2 (length (tso_all_topic e))) params,
          s3_entries = params, s3_packet_id = endian_store n packet_id,
          s3_remaining_length = rl, s3_remaining_length_buf = val_to_variable_bytes rl32\<rparr>))))"

definition v3_subscribe_const_buffer_sequence :: "v3_subscribe \<Rightarrow> bytes list" where
  "v3_subscribe_const_buffer_sequence p =
     [[s3_fixed_header p], s3_remaining_length_buf p, s3_packet_id p] @
     concat (map (\<lambda>(len, e). [len, tso_all_topic e, [tso_opts e]])
       (zip (s3_topic_length_buf_entries p) (s3_entries p)))"

definition v3_subscribe_size :: "v3_subscribe \<Rightarrow> nat" where
  "v3_subscribe_size p = 1 + length (s3_remaining_length_buf p) + s3_remaining_length p"

definition v3_subscribe_num_of_const_buffer_sequence :: "v3_subscribe \<Rightarrow> nat" where
  "v3_subscribe_num_of_const_buffer_sequence p = 1 + 1 + 1 + length (s3_entries p) * 3"

definition v3_subscribe_packet_id :: "v3_subscribe \<Rightarrow> nat" where
  "v3_subscribe_packet_id p = endian_load (s3_packet_id p)"

text \<open>
  One round of the loop over the entries: the topic filter, then its options. \<open>chk\<close> is the test
  of the entry, which differs between the protocol versions, and \<open>e\<close> the error for a truncated one.
\<close>

definition read_subscribe_entry ::
  "'e \<Rightarrow> (topic_subopts \<Rightarrow> 'e + unit) \<Rightarrow> bytes \<Rightarrow> 'e + (bytes \<times> topic_subopts) \<times> bytes" where
  "read_subscribe_entry e chk buf =
     bindE (read_utf8 e buf) (\<lambda>(len, t, buf).
     bindE (read_byte e buf) (\<lambda>(o1, buf).
     bindE (chk (topic_subopts_of t o1)) (\<lambda>_.
     Inr ((len, topic_subopts_of t o1), buf))))"

lemma read_subscribe_entry_consumes:
  "read_subscribe_entry e chk buf = Inr (x, rest) \<Longrightarrow> length rest < length buf"
  by (auto simp: read_subscribe_entry_def bindE_eq_Inr dest!: codec_dests)

function read_subscribe_entries ::
  "'e \<Rightarrow> (topic_subopts \<Rightarrow> 'e + unit) \<Rightarrow> bytes \<Rightarrow> 'e + (bytes \<times> topic_subopts) list" where
  "read_subscribe_entries e chk buf =
     (if buf = [] then Inr []
      else
        (case read_subscribe_entry e chk buf of
           Inl e' \<Rightarrow> Inl e'
         | Inr (x, rest) \<Rightarrow> bindE (read_subscribe_entries e chk rest) (\<lambda>xs. Inr (x # xs))))"
  by pat_completeness auto
termination
  by (relation "measure (\<lambda>(e, chk, buf). length buf)") (auto dest: read_subscribe_entry_consumes)

declare read_subscribe_entries.simps [simp del]

definition parse_v3_subscribe :: "nat \<Rightarrow> bytes \<Rightarrow> error_code + v3_subscribe" where
  "parse_v3_subscribe n buf =
     bindE (read_fixed_header malformed_packet Cpt_subscribe buf) (\<lambda>(fh, buf).
     bindE (read_remaining_length malformed_packet buf) (\<lambda>(rl, rlb, buf).
     bindE (read_bytes malformed_packet n buf) (\<lambda>(pid, buf).
     bindE (fail_unless (buf \<noteq> []) protocol_error) (\<lambda>_.
     bindE (read_subscribe_entries malformed_packet v3_entry_check buf) (\<lambda>xs.
     Inr \<lparr>s3_fixed_header = fh, s3_topic_length_buf_entries = map fst xs, s3_entries = map snd xs,
          s3_packet_id = pid, s3_remaining_length = rl, s3_remaining_length_buf = rlb\<rparr>)))))"

subsection \<open>SUBACK\<close>

record v3_suback =
  sa3_fixed_header :: byte
  sa3_entries :: "byte list"
  sa3_packet_id :: bytes
  sa3_remaining_length :: nat
  sa3_remaining_length_buf :: bytes

definition make_v3_suback :: "nat \<Rightarrow> nat \<Rightarrow> byte list \<Rightarrow> exn + v3_suback" where
  "make_v3_suback n packet_id params =
     bindE (numeric_cast 32 (n + length params)) (\<lambda>rl32.
     Inr \<lparr>sa3_fixed_header = make_fixed_header Cpt_suback 0, sa3_entries = params,
          sa3_packet_id = endian_store n packet_id, sa3_remaining_length = n + length params,
          sa3_remaining_length_buf = val_to_variable_bytes rl32\<rparr>)"

definition v3_suback_const_buffer_sequence :: "v3_suback \<Rightarrow> bytes list" where
  "v3_suback_const_buffer_sequence p =
     [[sa3_fixed_header p], sa3_remaining_length_buf p, sa3_packet_id p, sa3_entries p]"

definition v3_suback_size :: "v3_suback \<Rightarrow> nat" where
  "v3_suback_size p = 1 + length (sa3_remaining_length_buf p) + sa3_remaining_length p"

definition v3_suback_packet_id :: "v3_suback \<Rightarrow> nat" where
  "v3_suback_packet_id p = endian_load (sa3_packet_id p)"

definition suback_return_code_valid :: "byte \<Rightarrow> bool" where
  "suback_return_code_valid rc \<longleftrightarrow> rc \<in> {0x00, 0x01, 0x02, 0x80}"

definition parse_v3_suback :: "nat \<Rightarrow> bytes \<Rightarrow> error_code + v3_suback" where
  "parse_v3_suback n buf =
     bindE (read_fixed_header malformed_packet Cpt_suback buf) (\<lambda>(fh, buf).
     bindE (read_remaining_length malformed_packet buf) (\<lambda>(rl, rlb, buf).
     bindE (read_bytes malformed_packet n buf) (\<lambda>(pid, buf).
     bindE (fail_unless (buf \<noteq> []) protocol_error) (\<lambda>_.
     bindE (fail_unless (list_all suback_return_code_valid buf) malformed_packet) (\<lambda>_.
     Inr \<lparr>sa3_fixed_header = fh, sa3_entries = buf, sa3_packet_id = pid,
          sa3_remaining_length = rl, sa3_remaining_length_buf = rlb\<rparr>)))))"

subsection \<open>UNSUBSCRIBE\<close>

record v3_unsubscribe =
  u3_fixed_header :: byte
  u3_topic_length_buf_entries :: "bytes list"
  u3_entries :: "topic_sharename list"
  u3_packet_id :: bytes
  u3_remaining_length :: nat
  u3_remaining_length_buf :: bytes

definition make_v3_unsubscribe :: "nat \<Rightarrow> nat \<Rightarrow> topic_sharename list \<Rightarrow> exn + v3_unsubscribe" where
  "make_v3_unsubscribe n packet_id params =
     bindE (throw_unless (list_all (\<lambda>e. length (ts_all_topic e) \<le> 0xffff) params) malformed_packet) (\<lambda>_.
     bindE (throw_unless (list_all (\<lambda>e. utf8string_check (ts_all_topic e)) params) malformed_packet) (\<lambda>_.
     let rl = foldl (\<lambda>r e. r + (2 + length (ts_all_topic e))) n params in
     bindE (numeric_cast 32 rl) (\<lambda>rl32.
     Inr \<lparr>u3_fixed_header = make_fixed_header Cpt_unsubscribe 0x02,
          u3_topic_length_buf_entries = map (\<lambda>e. endian_store 2 (length (ts_all_topic e))) params,
          u3_entries = params, u3_packet_id = endian_store n packet_id,
          u3_remaining_length = rl, u3_remaining_length_buf = val_to_variable_bytes rl32\<rparr>)))"

definition v3_unsubscribe_const_buffer_sequence :: "v3_unsubscribe \<Rightarrow> bytes list" where
  "v3_unsubscribe_const_buffer_sequence p =
     [[u3_fixed_header p], u3_remaining_length_buf p, u3_packet_id p] @
     concat (map (\<lambda>(len, e). [len, ts_all_topic e]) (zip (u3_topic_length_buf_entries p) (u3_entries p)))"

definition v3_unsubscribe_size :: "v3_unsubscribe \<Rightarrow> nat" where
  "v3_unsubscribe_size p = 1 + length (u3_remaining_length_buf p) + u3_remaining_length p"

definition v3_unsubscribe_num_of_const_buffer_sequence :: "v3_unsubscribe \<Rightarrow> nat" where
  "v3_unsubscribe_num_of_const_buffer_sequence p = 1 + 1 + 1 + length (u3_entries p) * 2"

definition v3_unsubscribe_packet_id :: "v3_unsubscribe \<Rightarrow> nat" where
  "v3_unsubscribe_packet_id p = endian_load (u3_packet_id p)"

function read_unsubscribe_entries :: "'e \<Rightarrow> bytes \<Rightarrow> 'e + (bytes \<times> topic_sharename) list" where
  "read_unsubscribe_entries e buf =
     (if buf = [] then Inr []
      else
        (case read_utf8 e buf of
           Inl e' \<Rightarrow> Inl e'
         | Inr (len, t, rest) \<Rightarrow>
             bindE (read_unsubscribe_entries e rest) (\<lambda>xs. Inr ((len, topic_sharename_of t) # xs))))"
  by pat_completeness auto
termination
  by (relation "measure (\<lambda>(e, buf). length buf)") (auto dest!: codec_dests)

declare read_unsubscribe_entries.simps [simp del]

definition parse_v3_unsubscribe :: "nat \<Rightarrow> bytes \<Rightarrow> error_code + v3_unsubscribe" where
  "parse_v3_unsubscribe n buf =
     bindE (read_fixed_header malformed_packet Cpt_unsubscribe buf) (\<lambda>(fh, buf).
     bindE (read_remaining_length malformed_packet buf) (\<lambda>(rl, rlb, buf).
     bindE (read_bytes malformed_packet n buf) (\<lambda>(pid, buf).
     bindE (fail_unless (buf \<noteq> []) protocol_error) (\<lambda>_.
     bindE (read_unsubscribe_entries malformed_packet buf) (\<lambda>xs.
     Inr \<lparr>u3_fixed_header = fh, u3_topic_length_buf_entries = map fst xs, u3_entries = map snd xs,
          u3_packet_id = pid, u3_remaining_length = rl, u3_remaining_length_buf = rlb\<rparr>)))))"

section \<open>Well-formed packets and their encoding\<close>

text \<open>The part all packets of variable length share: header, remaining length, length of the body.\<close>

definition header_ok :: "control_packet_type \<Rightarrow> byte \<Rightarrow> nat \<Rightarrow> bytes \<Rightarrow> nat \<Rightarrow> bool" where
  "header_ok c fh rl rlb body \<longleftrightarrow>
     get_control_packet_type_with_check fh = Some c \<and> rl = body \<and> rl \<le> 0xfffffff \<and> rlb = val_to_variable_bytes rl"

definition str_ok :: "bytes \<Rightarrow> bytes \<Rightarrow> bool" where
  "str_ok len s \<longleftrightarrow> length s \<le> 0xffff \<and> len = endian_store 2 (length s)"

lemma read_header [codec_simps]:
  assumes "header_ok c fh rl rlb (length body)"
  shows "read_fixed_header e c (fh # rlb @ body) = Inr (fh, rlb @ body)"
    and "read_remaining_length e (rlb @ body) = Inr (rl, rlb, body)"
  using assms by (simp_all add: header_ok_def read_fixed_header_simps read_remaining_length_roundtrip)

lemma read_str_ok [codec_simps]:
  assumes "str_ok len s"
  shows "read_binary e (len @ s @ buf) = Inr (len, s, buf)" and "read_binary e (len @ s) = Inr (len, s, [])"
    and "utf8string_check s \<Longrightarrow> read_utf8 e (len @ s @ buf) = Inr (len, s, buf)"
    and "utf8string_check s \<Longrightarrow> read_utf8 e (len @ s) = Inr (len, s, [])"
  using assms by (simp_all add: str_ok_def read_binary_roundtrip read_utf8_roundtrip)

lemma str_ok_length: "str_ok len s \<Longrightarrow> length len = 2"
  by (simp add: str_ok_def)

lemma foldl_add_length: "foldl (\<lambda>r x. r + f x) (n :: nat) xs = n + sum_list (map f xs)"
  by (induction xs arbitrary: n) simp_all

subsection \<open>CONNECT\<close>

definition will_ok :: "byte \<Rightarrow> bytes \<Rightarrow> bytes \<Rightarrow> bytes \<Rightarrow> bytes \<Rightarrow> bool" where
  "will_ok flags tlen t mlen m \<longleftrightarrow>
     (if has_will_flag flags
      then will_qos flags \<in> {at_most_once, at_least_once, exactly_once} \<and> str_ok tlen t \<and> utf8string_check t \<and> str_ok mlen m
      else will_retain flags \<noteq> retain_yes \<and> will_qos flags = at_most_once \<and> tlen = [] \<and> t = [] \<and> mlen = [] \<and> m = [])"

definition user_name_ok :: "byte \<Rightarrow> bytes \<Rightarrow> bytes \<Rightarrow> bool" where
  "user_name_ok flags ul u \<longleftrightarrow>
     (if has_user_name_flag flags then str_ok ul u \<and> utf8string_check u else ul = [] \<and> u = [])"

definition password_ok :: "byte \<Rightarrow> bytes \<Rightarrow> bytes \<Rightarrow> bool" where
  "password_ok flags pl p \<longleftrightarrow> (if has_password_flag flags then str_ok pl p else pl = [] \<and> p = [])"

lemma read_will_strings_ok [codec_simps]:
  "will_ok flags tlen t mlen m \<Longrightarrow>
    read_will_strings e flags (tlen @ t @ mlen @ m @ rest) = Inr (((tlen, t), (mlen, m)), rest)"
  by (auto simp: will_ok_def read_will_strings_def read_str_ok split: if_splits)

lemma read_user_name_ok [codec_simps]:
  "user_name_ok flags ul u \<Longrightarrow> read_user_name e flags (ul @ u @ rest) = Inr ((ul, u), rest)"
  by (auto simp: user_name_ok_def read_user_name_def read_str_ok split: if_splits)

lemma read_password_ok [codec_simps]:
  "password_ok flags pl p \<Longrightarrow> read_password e flags (pl @ p) = Inr ((pl, p), [])"
proof (cases "has_password_flag flags")
  case True
  assume "password_ok flags pl p"
  with True have "pl = endian_store 2 (length p)" "length p < 65536" by (simp_all add: password_ok_def str_ok_def)
  with True show ?thesis by (simp add: read_password_def read_bytes_exact)
qed (simp add: password_ok_def read_password_def)

definition v3_connect_ok :: "v3_connect \<Rightarrow> bool" where
  "v3_connect_ok p \<longleftrightarrow>
     header_ok Cpt_connect (c3_fixed_header p) (c3_remaining_length p) (c3_remaining_length_buf p)
       (12 + length (c3_client_id p)
        + (length (c3_will_topic_length_buf p) + length (c3_will_topic p)
           + length (c3_will_message_length_buf p) + length (c3_will_message p))
        + (length (c3_user_name_length_buf p) + length (c3_user_name p))
        + (length (c3_password_length_buf p) + length (c3_password p))) \<and>
     c3_protocol_name_and_level p = protocol_name_and_level 4 \<and>
     c3_connect_flags p AND 0x01 = 0 \<and> length (c3_keep_alive_buf p) = 2 \<and>
     str_ok (c3_client_id_length_buf p) (c3_client_id p) \<and> utf8string_check (c3_client_id p) \<and>
     will_ok (c3_connect_flags p) (c3_will_topic_length_buf p) (c3_will_topic p)
       (c3_will_message_length_buf p) (c3_will_message p) \<and>
     user_name_ok (c3_connect_flags p) (c3_user_name_length_buf p) (c3_user_name p) \<and>
     password_ok (c3_connect_flags p) (c3_password_length_buf p) (c3_password p)"

text \<open>The optional parts are empty exactly if their flag is not set, so the buffers are all members.\<close>

lemma v3_connect_bytes:
  assumes "v3_connect_ok p"
  shows "concat (v3_connect_const_buffer_sequence p) =
    c3_fixed_header p # c3_remaining_length_buf p @ protocol_name_and_level 4 @ c3_connect_flags p #
    c3_keep_alive_buf p @ c3_client_id_length_buf p @ c3_client_id p @
    c3_will_topic_length_buf p @ c3_will_topic p @ c3_will_message_length_buf p @ c3_will_message p @
    c3_user_name_length_buf p @ c3_user_name p @ c3_password_length_buf p @ c3_password p"
  using assms
  by (simp add: v3_connect_const_buffer_sequence_def v3_connect_ok_def will_ok_def user_name_ok_def password_ok_def)

interpretation v3_connect: packet_codec parse_v3_connect v3_connect_const_buffer_sequence v3_connect_size v3_connect_ok "\<lambda>p. p"
proof
  fix p assume ok: "v3_connect_ok p"
  note bytes = v3_connect_bytes [OF ok]
  have l: "length (c3_client_id_length_buf p) = 2" "length (protocol_name_and_level 4) = 7"
    using ok by (auto simp: v3_connect_ok_def str_ok_def protocol_name_and_level_def)
  from ok show "v3_connect_size p = length (concat (v3_connect_const_buffer_sequence p))"
    unfolding bytes by (simp add: v3_connect_size_def v3_connect_ok_def header_ok_def l)
  let ?body = "protocol_name_and_level 4 @ c3_connect_flags p #
    c3_keep_alive_buf p @ c3_client_id_length_buf p @ c3_client_id p @
    c3_will_topic_length_buf p @ c3_will_topic p @ c3_will_message_length_buf p @ c3_will_message p @
    c3_user_name_length_buf p @ c3_user_name p @ c3_password_length_buf p @ c3_password p"
  from ok have h: "header_ok Cpt_connect (c3_fixed_header p) (c3_remaining_length p) (c3_remaining_length_buf p) (length ?body)"
    by (simp add: v3_connect_ok_def header_ok_def l)
  from ok show "parse_v3_connect (concat (v3_connect_const_buffer_sequence p)) = Inr p"
    unfolding bytes parse_v3_connect_def Let_def
    by (simp add: v3_connect_ok_def codec_simps read_header [OF h] l)
qed simp

lemma word_and_le_unat: "unat (a AND b) \<le> unat (b :: byte)"
  using word_and_le1 [of a b] by (simp add: word_le_nat_alt)

lemma and_one_cases: "(v :: byte) AND 1 = 0 \<or> v AND 1 = 1"
proof -
  have "unat (v AND 1) = 0 \<or> unat (v AND 1) = 1" using word_and_le_unat [of v 1] by auto
  then show ?thesis by (simp add: word_unat_eq_iff [of "v AND 1"])
qed

lemma opts_get_qos_cases: "opts_get_qos v \<in> {0, 1, 2, 3}"
proof -
  have "unat (v AND 6) \<le> 6" using word_and_le_unat [of v 6] by simp
  moreover have "unat (drop_bit 1 (v AND 6)) = unat (v AND 6) div 2"
    by (simp add: drop_bit_eq_div unat_div)
  ultimately have "unat (opts_get_qos v) \<le> 3" by (simp add: opts_get_qos_def)
  then have "unat (opts_get_qos v) = 0 \<or> unat (opts_get_qos v) = 1 \<or> unat (opts_get_qos v) = 2 \<or> unat (opts_get_qos v) = 3"
    by linarith
  then show ?thesis by (simp add: word_unat_eq_iff [of "opts_get_qos v"])
qed

lemma will_get_retain_cases: "will_get_retain w = retain_no \<or> will_get_retain w = retain_yes"
  using and_one_cases by (simp add: will_get_retain_def pubopts_defs)

definition flags_encode :: "byte \<Rightarrow> bool \<Rightarrow> will option \<Rightarrow> bytes option \<Rightarrow> bytes option \<Rightarrow> bool" where
  "flags_encode f c wo uo po \<longleftrightarrow>
     (has_clean_session f \<longleftrightarrow> c) \<and> (has_user_name_flag f \<longleftrightarrow> uo \<noteq> None) \<and> (has_password_flag f \<longleftrightarrow> po \<noteq> None) \<and>
     (has_will_flag f \<longleftrightarrow> wo \<noteq> None) \<and> f AND 0x01 = 0 \<and>
     will_retain f = (case wo of None \<Rightarrow> retain_no | Some w \<Rightarrow> will_get_retain w) \<and>
     will_qos f = (case wo of None \<Rightarrow> at_most_once | Some w \<Rightarrow> will_get_qos w)"

lemmas flags_eval = make_connect_flags_def Let_def connect_flags_defs retain_yes_def retain_no_def qos_defs

lemma make_connect_flags_encode: "flags_encode (make_connect_flags c wo uo po) c wo uo po"
proof (cases wo)
  case None
  then show ?thesis by (simp add: flags_encode_def flags_eval)
next
  case (Some w)
  have "will_get_qos w = 0 \<or> will_get_qos w = 1 \<or> will_get_qos w = 2 \<or> will_get_qos w = 3"
    using opts_get_qos_cases [of "will_pubopts w"] by (simp add: will_get_qos_def)
  with will_get_retain_cases [of w] show ?thesis
    by (elim disjE) (simp_all add: Some flags_encode_def flags_eval)
qed

lemma make_opt_stringE:
  assumes "make_opt_string chk so = Inr (l, s)"
  shows "(so = None \<and> l = [] \<and> s = []) \<or> (so = Some s \<and> chk s \<and> str_ok l s)"
  using assms by (auto simp: make_opt_string_def bindE_eq_Inr str_ok_def split: option.splits)

lemma make_will_stringsE:
  assumes "make_will_strings wo = Inr ((tlen, t), (mlen, m))"
  shows "(wo = None \<and> tlen = [] \<and> t = [] \<and> mlen = [] \<and> m = []) \<or>
    (\<exists>w. wo = Some w \<and> t = will_topic w \<and> m = will_message w \<and> utf8string_check t \<and> str_ok tlen t \<and> str_ok mlen m)"
  using assms by (auto simp: make_will_strings_def bindE_eq_Inr str_ok_def split: option.splits)

text \<open>What a successful constructor call leaves in the members.\<close>

lemma make_v3_connectE:
  assumes "make_v3_connect c ka ci wo uo po = Inr p"
  shows "c3_fixed_header p = make_fixed_header Cpt_connect 0"
    and "c3_connect_flags p = make_connect_flags c wo uo po"
    and "c3_protocol_name_and_level p = protocol_name_and_level 4"
    and "c3_client_id p = ci" "str_ok (c3_client_id_length_buf p) ci" "utf8string_check ci"
    and "make_opt_string utf8string_check uo = Inr (c3_user_name_length_buf p, c3_user_name p)"
    and "make_opt_string (\<lambda>_. True) po = Inr (c3_password_length_buf p, c3_password p)"
    and "make_will_strings wo =
      Inr ((c3_will_topic_length_buf p, c3_will_topic p), (c3_will_message_length_buf p, c3_will_message p))"
    and "c3_keep_alive_buf p = endian_store 2 ka"
    and "c3_remaining_length p = 12 + length ci
        + (if uo \<noteq> None then 2 + length (c3_user_name p) else 0)
        + (if po \<noteq> None then 2 + length (c3_password p) else 0)
        + (if wo \<noteq> None then 2 + length (c3_will_topic p) + 2 + length (c3_will_message p) else 0)"
    and "c3_remaining_length_buf p = val_to_variable_bytes (c3_remaining_length p)"
  using assms unfolding make_v3_connect_def Let_def
  by (auto simp: bindE_eq_Inr str_ok_def)

lemma make_v3_connect_ok:
  assumes m: "make_v3_connect c ka ci wo uo po = Inr p"
    and w: "\<And>w. wo = Some w \<Longrightarrow> will_get_qos w \<noteq> 3" and rl: "c3_remaining_length p \<le> 0xfffffff"
  shows "v3_connect_ok p"
proof -
  note e = make_v3_connectE [OF m]
  have f: "flags_encode (c3_connect_flags p) c wo uo po" unfolding e(2) by (rule make_connect_flags_encode)
  have u: "user_name_ok (c3_connect_flags p) (c3_user_name_length_buf p) (c3_user_name p)"
    using make_opt_stringE [OF e(7)] f by (auto simp: user_name_ok_def flags_encode_def)
  have pw: "password_ok (c3_connect_flags p) (c3_password_length_buf p) (c3_password p)"
    using make_opt_stringE [OF e(8)] f by (auto simp: password_ok_def flags_encode_def)
  have wl: "will_ok (c3_connect_flags p) (c3_will_topic_length_buf p) (c3_will_topic p)
      (c3_will_message_length_buf p) (c3_will_message p)"
  proof (cases wo)
    case None
    with make_will_stringsE [OF e(9)] f show ?thesis
      by (simp add: will_ok_def flags_encode_def retain_no_def retain_yes_def)
  next
    case (Some w1)
    with w opts_get_qos_cases [of "will_pubopts w1"] make_will_stringsE [OF e(9)] f show ?thesis
      by (auto simp: will_ok_def flags_encode_def will_get_qos_def qos_defs)
  qed
  have h: "get_control_packet_type_with_check (c3_fixed_header p) = Some Cpt_connect"
    using make_fixed_header_check [of Cpt_connect] e(1) by simp
  have l: "length (c3_user_name_length_buf p) = (if uo \<noteq> None then 2 else 0)"
    "length (c3_password_length_buf p) = (if po \<noteq> None then 2 else 0)"
    "length (c3_will_topic_length_buf p) = (if wo \<noteq> None then 2 else 0)"
    "length (c3_will_message_length_buf p) = (if wo \<noteq> None then 2 else 0)"
    using make_opt_stringE [OF e(7)] make_opt_stringE [OF e(8)] make_will_stringsE [OF e(9)] str_ok_length by auto
  have z: "uo = None \<Longrightarrow> c3_user_name p = []" "po = None \<Longrightarrow> c3_password p = []"
    "wo = None \<Longrightarrow> c3_will_topic p = [] \<and> c3_will_message p = []"
    using make_opt_stringE [OF e(7)] make_opt_stringE [OF e(8)] make_will_stringsE [OF e(9)] by auto
  have "c3_connect_flags p AND 0x01 = 0" using f by (simp add: flags_encode_def)
  with u pw wl h rl e(3-6,10-12) show ?thesis
    unfolding v3_connect_ok_def header_ok_def by (simp add: l z)
qed

text \<open>The accessors give back the arguments of the constructor.\<close>

lemma make_v3_connect_accessors:
  assumes m: "make_v3_connect c ka ci wo uo po = Inr p" and ka: "ka < 65536"
  shows "v3_connect_clean_session p = c" and "v3_connect_keep_alive p = ka" and "c3_client_id p = ci"
    and "v3_connect_user_name p = uo" and "v3_connect_password p = po"
    and "map_option (\<lambda>w. (will_topic w, will_message w)) (v3_connect_get_will p) =
      map_option (\<lambda>w. (will_topic w, will_message w)) wo"
proof -
  note e = make_v3_connectE [OF m]
  have f: "flags_encode (c3_connect_flags p) c wo uo po" unfolding e(2) by (rule make_connect_flags_encode)
  show "v3_connect_clean_session p = c" "c3_client_id p = ci"
    using f e(4) by (simp_all add: v3_connect_clean_session_def flags_encode_def)
  show "v3_connect_keep_alive p = ka" using ka by (simp add: v3_connect_keep_alive_def e(10))
  show "v3_connect_user_name p = uo" "v3_connect_password p = po"
    using make_opt_stringE [OF e(7)] make_opt_stringE [OF e(8)] f
    by (auto simp: v3_connect_user_name_def v3_connect_password_def flags_encode_def)
  show "map_option (\<lambda>w. (will_topic w, will_message w)) (v3_connect_get_will p) =
      map_option (\<lambda>w. (will_topic w, will_message w)) wo"
    using make_will_stringsE [OF e(9)] f by (auto simp: v3_connect_get_will_def flags_encode_def)
qed

subsection \<open>Packets of fixed size\<close>

definition v3_connack_ok :: "v3_all \<Rightarrow> bool" where
  "v3_connack_ok p \<longleftrightarrow>
     (\<exists>fh sp rc. p = [fh, 2, sp, rc] \<and> get_control_packet_type_with_check fh = Some Cpt_connack \<and>
       sp AND 0xFE = 0 \<and> rc \<le> 5)"

definition v3_ack_ok :: "control_packet_type \<Rightarrow> nat \<Rightarrow> v3_all \<Rightarrow> bool" where
  "v3_ack_ok c n p \<longleftrightarrow>
     n < 256 \<and> (\<exists>fh pid. p = fh # of_nat n # pid \<and> get_control_packet_type_with_check fh = Some c \<and> length pid = n)"

definition v3_empty_ok :: "control_packet_type \<Rightarrow> v3_all \<Rightarrow> bool" where
  "v3_empty_ok c p \<longleftrightarrow> (\<exists>fh. p = [fh, 0] \<and> get_control_packet_type_with_check fh = Some c)"

interpretation v3_connack: packet_codec parse_v3_connack v3_all_const_buffer_sequence v3_all_size v3_connack_ok "\<lambda>p. p"
  by unfold_locales
     (auto simp: v3_connack_ok_def v3_all_size_def v3_all_const_buffer_sequence_def parse_v3_connack_def codec_simps)

interpretation v3_ack: packet_codec "parse_v3_ack c n" v3_all_const_buffer_sequence v3_all_size "v3_ack_ok c n" "\<lambda>p. p" for c n
  by unfold_locales
     (auto simp: v3_ack_ok_def v3_all_size_def v3_all_const_buffer_sequence_def parse_v3_ack_def codec_simps
       unat_byte_of_nat)

interpretation v3_empty: packet_codec "parse_v3_empty c" v3_all_const_buffer_sequence v3_all_size "v3_empty_ok c" "\<lambda>p. p" for c
  by unfold_locales
     (auto simp: v3_empty_ok_def v3_all_size_def v3_all_const_buffer_sequence_def parse_v3_empty_def codec_simps)

lemma make_v3_connack_ok: "rc \<le> 5 \<Longrightarrow> v3_connack_ok (make_v3_connack sp rc)"
  using make_fixed_header_check [of Cpt_connack] by (simp add: v3_connack_ok_def make_v3_connack_def)

lemma make_v3_ack_ok:
  "n < 256 \<Longrightarrow> control_packet_reserved_bits c = flags \<Longrightarrow> v3_ack_ok c n (make_v3_ack c flags n pid)"
  using make_fixed_header_check [of c] by (auto simp: v3_ack_ok_def make_v3_ack_def)

lemma make_v3_empty_ok: "control_packet_reserved_bits c = 0 \<Longrightarrow> v3_empty_ok c (make_v3_empty c)"
  using make_fixed_header_check [of c] by (simp add: v3_empty_ok_def make_v3_empty_def)

lemma make_v3_ack_packet_id: "pid < 256 ^ n \<Longrightarrow> v3_ack_packet_id (make_v3_ack c flags n pid) = pid"
  by (simp add: v3_ack_packet_id_def make_v3_ack_def)

subsection \<open>PUBLISH\<close>

definition v3_publish_ok :: "nat \<Rightarrow> v3_publish \<Rightarrow> bool" where
  "v3_publish_ok n p \<longleftrightarrow>
     header_ok Cpt_publish (p3_fixed_header p) (p3_remaining_length p) (p3_remaining_length_buf p)
       (2 + length (p3_topic_name p) + (if v3_publish_packet_id p \<noteq> 0 then n else 0) + length (concat (p3_payloads p))) \<and>
     str_ok (p3_topic_name_length_buf p) (p3_topic_name p) \<and> utf8string_check (p3_topic_name p) \<and>
     length (p3_packet_id p) = n \<and>
     (if pub_get_qos (p3_fixed_header p) = at_most_once then v3_publish_packet_id p = 0
      else qos_with_id (pub_get_qos (p3_fixed_header p)) \<and> v3_publish_packet_id p \<noteq> 0)"

text \<open>The payload buffers are sent one after the other and received as one.\<close>

definition v3_publish_received :: "v3_publish \<Rightarrow> v3_publish" where
  "v3_publish_received p = p\<lparr>p3_payloads := (if concat (p3_payloads p) \<noteq> [] then [concat (p3_payloads p)] else [])\<rparr>"

lemma endian_load_zero: "endian_load bs = 0 \<Longrightarrow> bs = endian_store (length bs) 0"
  using endian_store_load [of bs] by simp

lemma read_publish_packet_id_ok:
  assumes "length pid = n"
    and "if q = at_most_once then endian_load pid = 0 else qos_with_id q \<and> endian_load pid \<noteq> 0"
  shows "read_publish_packet_id n q ((if endian_load pid \<noteq> 0 then pid else []) @ rest) = Inr (pid, rest)"
  using assms endian_load_zero [of pid]
  by (auto simp: read_publish_packet_id_def read_bytes_exact split: if_splits)

lemma v3_publish_bytes:
  "concat (v3_publish_const_buffer_sequence p) =
    p3_fixed_header p # p3_remaining_length_buf p @ p3_topic_name_length_buf p @ p3_topic_name p @
    (if v3_publish_packet_id p \<noteq> 0 then p3_packet_id p else []) @ concat (p3_payloads p)"
  by (simp add: v3_publish_const_buffer_sequence_def)

interpretation v3_publish: packet_codec "parse_v3_publish n" v3_publish_const_buffer_sequence v3_publish_size
  "v3_publish_ok n" v3_publish_received for n
proof
  fix p assume ok: "v3_publish_ok n p"
  have l: "length (p3_topic_name_length_buf p) = 2" using ok by (auto simp: v3_publish_ok_def str_ok_def)
  from ok show "v3_publish_size p = length (concat (v3_publish_const_buffer_sequence p))"
    unfolding v3_publish_bytes by (simp add: v3_publish_size_def v3_publish_ok_def header_ok_def l)
  define I where "I = (if v3_publish_packet_id p \<noteq> 0 then p3_packet_id p else [])"
  let ?body = "p3_topic_name_length_buf p @ p3_topic_name p @ I @ concat (p3_payloads p)"
  from ok have h: "header_ok Cpt_publish (p3_fixed_header p) (p3_remaining_length p) (p3_remaining_length_buf p) (length ?body)"
    by (simp add: I_def v3_publish_ok_def l add.assoc split: if_splits)
  have i: "read_publish_packet_id n (pub_get_qos (p3_fixed_header p)) (I @ concat (p3_payloads p)) =
      Inr (p3_packet_id p, concat (p3_payloads p))"
    using ok unfolding I_def v3_publish_packet_id_def v3_publish_ok_def by (intro read_publish_packet_id_ok) simp_all
  from ok have t: "read_utf8 malformed_packet ?body =
      Inr (p3_topic_name_length_buf p, p3_topic_name p, I @ concat (p3_payloads p))"
    by (intro read_str_ok) (simp_all add: v3_publish_ok_def)
  show "parse_v3_publish n (concat (v3_publish_const_buffer_sequence p)) = Inr (v3_publish_received p)"
    unfolding v3_publish_bytes parse_v3_publish_def I_def [symmetric]
    by (simp add: read_header [OF h] t i v3_publish_received_def)
  show "concat (v3_publish_const_buffer_sequence (v3_publish_received p)) = concat (v3_publish_const_buffer_sequence p)"
    by (simp add: v3_publish_bytes v3_publish_received_def v3_publish_packet_id_def)
qed

lemma publish_header_qos:
  assumes "opts AND 0xF0 = 0"
  shows "get_control_packet_type_with_check (make_fixed_header Cpt_publish 0 OR opts) = Some Cpt_publish"
    and "pub_get_qos (make_fixed_header Cpt_publish 0 OR opts) = opts_get_qos opts"
proof -
  have "(0x30 OR opts) AND 0xF0 = (0x30 :: byte)" "(0x30 OR opts) AND 0x06 = opts AND (0x06 :: byte)"
    using assms by (simp_all add: bit.conj_disj_distrib2)
  then show "get_control_packet_type_with_check (make_fixed_header Cpt_publish 0 OR opts) = Some Cpt_publish"
    and "pub_get_qos (make_fixed_header Cpt_publish 0 OR opts) = opts_get_qos opts"
    by (simp_all add: get_control_packet_type_with_check_def get_control_packet_type_def make_fixed_header_def
        all_cpts_def pub_get_qos_def opts_get_qos_def)
qed

lemma endian_store_0: "endian_store n 0 = replicate n 0"
  by (induction n) (simp_all add: replicate_append_same)

lemma publish_packet_id_bufE:
  assumes "publish_packet_id_buf n pid q = Inr b" and "n \<le> 4" and "pid < 256 ^ n"
  shows "length b = n" and "endian_load b = pid"
    and "if q = at_most_once then pid = 0 else qos_with_id q \<and> pid \<noteq> 0"
proof -
  have z: "take n (endian_store 4 0) = endian_store n 0"
    using assms(2) by (simp add: endian_store_0 min_def)
  show "length b = n" "endian_load b = pid" "if q = at_most_once then pid = 0 else qos_with_id q \<and> pid \<noteq> 0"
    using assms by (auto simp: publish_packet_id_buf_def bindE_eq_Inr z split: if_splits)
qed

lemma make_v3_publish_ok:
  assumes m: "make_v3_publish n pid topic payloads opts = Inr p"
    and n: "n \<le> 4" "pid < 256 ^ n" and o1: "opts AND 0xF0 = 0" and rl: "p3_remaining_length p \<le> 0xfffffff"
  shows "v3_publish_ok n p" and "v3_publish_packet_id p = pid" and "p3_topic_name p = topic" and "p3_payloads p = payloads"
proof -
  from m obtain b where b: "publish_packet_id_buf n pid (opts_get_qos opts) = Inr b"
    and p: "p = \<lparr>p3_fixed_header = make_fixed_header Cpt_publish 0 OR opts,
          p3_topic_name = topic, p3_topic_name_length_buf = endian_store 2 (length topic),
          p3_packet_id = b, p3_payloads = payloads,
          p3_remaining_length = p3_remaining_length p,
          p3_remaining_length_buf = val_to_variable_bytes (p3_remaining_length p)\<rparr>"
    and t: "length topic \<le> 0xffff" "utf8string_check topic"
    and r: "p3_remaining_length p = 2 + length topic + (if qos_with_id (opts_get_qos opts) then n else 0)
       + length (concat payloads)"
    by (auto simp: make_v3_publish_def Let_def bindE_eq_Inr foldl_add_length length_concat)
  note i = publish_packet_id_bufE [OF b n]
  have q: "qos_with_id (opts_get_qos opts) \<longleftrightarrow> pid \<noteq> 0"
    using i(3) by (auto simp: qos_with_id_def qos_defs split: if_splits)
  from p have f: "p3_fixed_header p = make_fixed_header Cpt_publish 0 OR opts" "p3_topic_name p = topic"
      "p3_topic_name_length_buf p = endian_store 2 (length topic)" "p3_packet_id p = b" "p3_payloads p = payloads"
      "p3_remaining_length_buf p = val_to_variable_bytes (p3_remaining_length p)"
    by (metis v3_publish.select_convs)+
  show id: "v3_publish_packet_id p = pid" by (simp add: v3_publish_packet_id_def f i)
  show "p3_topic_name p = topic" "p3_payloads p = payloads" by (rule f)+
  show "v3_publish_ok n p"
    using i t rl q unfolding v3_publish_ok_def id
    by (simp add: f header_ok_def publish_header_qos [OF o1] str_ok_def r split: if_splits)
qed

subsection \<open>SUBSCRIBE, SUBACK, UNSUBSCRIBE\<close>

definition entry_ok :: "(topic_subopts \<Rightarrow> 'e + unit) \<Rightarrow> topic_subopts \<Rightarrow> bool" where
  "entry_ok chk e \<longleftrightarrow>
     length (tso_all_topic e) \<le> 0xffff \<and> utf8string_check (tso_all_topic e) \<and> chk e = Inr () \<and>
     e = topic_subopts_of (tso_all_topic e) (tso_opts e)"

definition entry_bytes :: "topic_subopts \<Rightarrow> bytes" where
  "entry_bytes e = endian_store 2 (length (tso_all_topic e)) @ tso_all_topic e @ [tso_opts e]"

lemma read_subscribe_entries_ok [codec_simps]:
  "list_all (entry_ok chk) es \<Longrightarrow>
    read_subscribe_entries er chk (concat (map entry_bytes es)) =
      Inr (map (\<lambda>e. (endian_store 2 (length (tso_all_topic e)), e)) es)"
proof (induction es)
  case Nil
  show ?case by (simp add: read_subscribe_entries.simps)
next
  case (Cons e es)
  then have e: "length (tso_all_topic e) < 65536" "utf8string_check (tso_all_topic e)" "chk e = Inr ()"
      "topic_subopts_of (tso_all_topic e) (tso_opts e) = e"
    by (auto simp: entry_ok_def)
  have "read_subscribe_entry er chk (entry_bytes e @ concat (map entry_bytes es)) =
      Inr ((endian_store 2 (length (tso_all_topic e)), e), concat (map entry_bytes es))"
    using e by (simp add: entry_bytes_def read_subscribe_entry_def read_utf8_roundtrip read_byte_Cons)
  moreover have "entry_bytes e \<noteq> []" by (simp add: entry_bytes_def)
  ultimately show ?case
    using Cons by (simp add: read_subscribe_entries.simps [of er chk "entry_bytes e @ concat (map entry_bytes es)"])
qed

definition v3_subscribe_ok :: "nat \<Rightarrow> v3_subscribe \<Rightarrow> bool" where
  "v3_subscribe_ok n p \<longleftrightarrow>
     header_ok Cpt_subscribe (s3_fixed_header p) (s3_remaining_length p) (s3_remaining_length_buf p)
       (n + length (concat (map entry_bytes (s3_entries p)))) \<and>
     length (s3_packet_id p) = n \<and> s3_entries p \<noteq> [] \<and> list_all (entry_ok v3_entry_check) (s3_entries p) \<and>
     s3_topic_length_buf_entries p = map (\<lambda>e. endian_store 2 (length (tso_all_topic e))) (s3_entries p)"

lemma subscribe_entries_bytes:
  "concat (concat (map (\<lambda>(len, e). [len, tso_all_topic e, [tso_opts e]])
     (zip (map (\<lambda>e. endian_store 2 (length (tso_all_topic e))) es) es))) = concat (map entry_bytes es)"
  by (induction es) (simp_all add: entry_bytes_def)

lemma entries_bytes_not_empty: "es \<noteq> [] \<Longrightarrow> concat (map entry_bytes es) \<noteq> []"
  by (cases es) (simp_all add: entry_bytes_def)

lemma v3_subscribe_bytes:
  "v3_subscribe_ok n p \<Longrightarrow> concat (v3_subscribe_const_buffer_sequence p) =
    s3_fixed_header p # s3_remaining_length_buf p @ s3_packet_id p @ concat (map entry_bytes (s3_entries p))"
  by (simp add: v3_subscribe_const_buffer_sequence_def v3_subscribe_ok_def subscribe_entries_bytes)

interpretation v3_subscribe: packet_codec "parse_v3_subscribe n" v3_subscribe_const_buffer_sequence v3_subscribe_size
  "v3_subscribe_ok n" "\<lambda>p. p" for n
proof
  fix p assume ok: "v3_subscribe_ok n p"
  from ok show "v3_subscribe_size p = length (concat (v3_subscribe_const_buffer_sequence p))"
    unfolding v3_subscribe_bytes [OF ok] by (simp add: v3_subscribe_size_def v3_subscribe_ok_def header_ok_def)
  define E where "E = concat (map entry_bytes (s3_entries p))"
  from ok have h: "header_ok Cpt_subscribe (s3_fixed_header p) (s3_remaining_length p) (s3_remaining_length_buf p)
      (length (s3_packet_id p @ E))" and n: "length (s3_packet_id p) = n" "E \<noteq> []"
    unfolding E_def using entries_bytes_not_empty [of "s3_entries p"] by (simp_all add: v3_subscribe_ok_def)
  from ok have e: "read_subscribe_entries malformed_packet v3_entry_check E =
      Inr (map (\<lambda>e. (endian_store 2 (length (tso_all_topic e)), e)) (s3_entries p))"
    unfolding E_def by (intro read_subscribe_entries_ok) (simp add: v3_subscribe_ok_def)
  have f: "map fst (map (\<lambda>e. (endian_store 2 (length (tso_all_topic e)), e)) (s3_entries p)) = s3_topic_length_buf_entries p"
    "map snd (map (\<lambda>e. (endian_store 2 (length (tso_all_topic e)), e)) (s3_entries p)) = s3_entries p"
    using ok by (simp_all add: v3_subscribe_ok_def comp_def)
  show "parse_v3_subscribe n (concat (v3_subscribe_const_buffer_sequence p)) = Inr p"
    unfolding v3_subscribe_bytes [OF ok] E_def [symmetric] parse_v3_subscribe_def
    by (simp add: read_header [OF h] read_bytes_exact n e f del: map_map)
qed simp

lemma make_v3_subscribe_ok:
  assumes "make_v3_subscribe n pid es = Inr p" and "\<forall>e \<in> set es. \<exists>t o1. e = topic_subopts_of t o1"
    and "s3_remaining_length p \<le> 0xfffffff"
  shows "v3_subscribe_ok n p" and "s3_entries p = es" and "pid < 256 ^ n \<Longrightarrow> v3_subscribe_packet_id p = pid"
proof -
  have s: "foldl (\<lambda>r e. r + (2 + length (tso_all_topic e) + 1)) m es = m + length (concat (map entry_bytes es))" for m es
    by (induction es arbitrary: m) (simp_all add: entry_bytes_def)
  have "e = topic_subopts_of (tso_all_topic e) (tso_opts e)" if "e \<in> set es" for e
    using assms(2) that by fastforce
  with assms(1,3) s [of n es] make_fixed_header_check [of Cpt_subscribe]
  show "v3_subscribe_ok n p" "s3_entries p = es" "pid < 256 ^ n \<Longrightarrow> v3_subscribe_packet_id p = pid"
    by (auto simp: make_v3_subscribe_def Let_def bindE_eq_Inr foldl_add_length v3_subscribe_ok_def header_ok_def
        entry_ok_def list_all_iff v3_subscribe_packet_id_def v3_entry_check_def)
qed

definition v3_suback_ok :: "nat \<Rightarrow> v3_suback \<Rightarrow> bool" where
  "v3_suback_ok n p \<longleftrightarrow>
     header_ok Cpt_suback (sa3_fixed_header p) (sa3_remaining_length p) (sa3_remaining_length_buf p)
       (n + length (sa3_entries p)) \<and>
     length (sa3_packet_id p) = n \<and> sa3_entries p \<noteq> [] \<and> list_all suback_return_code_valid (sa3_entries p)"

interpretation v3_suback: packet_codec "parse_v3_suback n" v3_suback_const_buffer_sequence v3_suback_size
  "v3_suback_ok n" "\<lambda>p. p" for n
proof
  fix p assume ok: "v3_suback_ok n p"
  from ok show "v3_suback_size p = length (concat (v3_suback_const_buffer_sequence p))"
    by (simp add: v3_suback_const_buffer_sequence_def v3_suback_size_def v3_suback_ok_def header_ok_def)
  from ok have h: "header_ok Cpt_suback (sa3_fixed_header p) (sa3_remaining_length p) (sa3_remaining_length_buf p)
      (length (sa3_packet_id p @ sa3_entries p))"
    by (simp add: v3_suback_ok_def)
  from ok show "parse_v3_suback n (concat (v3_suback_const_buffer_sequence p)) = Inr p"
    by (simp add: v3_suback_const_buffer_sequence_def parse_v3_suback_def read_header [OF h] read_bytes_exact v3_suback_ok_def)
qed simp

lemma make_v3_suback_ok:
  "make_v3_suback n pid rcs = Inr p \<Longrightarrow> rcs \<noteq> [] \<Longrightarrow> list_all suback_return_code_valid rcs \<Longrightarrow>
    sa3_remaining_length p \<le> 0xfffffff \<Longrightarrow> v3_suback_ok n p"
  using make_fixed_header_check [of Cpt_suback]
  by (auto simp: make_v3_suback_def bindE_eq_Inr v3_suback_ok_def header_ok_def)

definition topic_ok :: "topic_sharename \<Rightarrow> bool" where
  "topic_ok t \<longleftrightarrow>
     length (ts_all_topic t) \<le> 0xffff \<and> utf8string_check (ts_all_topic t) \<and> t = topic_sharename_of (ts_all_topic t)"

definition topic_bytes :: "topic_sharename \<Rightarrow> bytes" where
  "topic_bytes t = endian_store 2 (length (ts_all_topic t)) @ ts_all_topic t"

lemma read_unsubscribe_entries_ok [codec_simps]:
  "list_all topic_ok ts \<Longrightarrow>
    read_unsubscribe_entries e (concat (map topic_bytes ts)) =
      Inr (map (\<lambda>t. (endian_store 2 (length (ts_all_topic t)), t)) ts)"
proof (induction ts)
  case Nil
  show ?case by (simp add: read_unsubscribe_entries.simps)
next
  case (Cons t ts)
  then have t: "length (ts_all_topic t) < 65536" "utf8string_check (ts_all_topic t)"
      "topic_sharename_of (ts_all_topic t) = t"
    by (auto simp: topic_ok_def)
  then have "read_utf8 e (topic_bytes t @ concat (map topic_bytes ts)) =
      Inr (endian_store 2 (length (ts_all_topic t)), ts_all_topic t, concat (map topic_bytes ts))"
    by (simp add: topic_bytes_def read_utf8_roundtrip)
  moreover have "length (topic_bytes t) \<noteq> 0" by (simp add: topic_bytes_def)
  ultimately show ?case
    using Cons t by (simp add: read_unsubscribe_entries.simps [of e "topic_bytes t @ concat (map topic_bytes ts)"])
qed

definition v3_unsubscribe_ok :: "nat \<Rightarrow> v3_unsubscribe \<Rightarrow> bool" where
  "v3_unsubscribe_ok n p \<longleftrightarrow>
     header_ok Cpt_unsubscribe (u3_fixed_header p) (u3_remaining_length p) (u3_remaining_length_buf p)
       (n + length (concat (map topic_bytes (u3_entries p)))) \<and>
     length (u3_packet_id p) = n \<and> u3_entries p \<noteq> [] \<and> list_all topic_ok (u3_entries p) \<and>
     u3_topic_length_buf_entries p = map (\<lambda>t. endian_store 2 (length (ts_all_topic t))) (u3_entries p)"

lemma unsubscribe_entries_bytes:
  "concat (concat (map (\<lambda>(len, e). [len, ts_all_topic e])
     (zip (map (\<lambda>t. endian_store 2 (length (ts_all_topic t))) ts) ts))) = concat (map topic_bytes ts)"
  by (induction ts) (simp_all add: topic_bytes_def)

lemma topics_bytes_not_empty: "ts \<noteq> [] \<Longrightarrow> concat (map topic_bytes ts) \<noteq> []"
proof (cases ts)
  case (Cons t ts')
  have "length (topic_bytes t) \<noteq> 0" by (simp add: topic_bytes_def)
  with Cons show ?thesis by auto
qed simp

lemma v3_unsubscribe_bytes:
  "v3_unsubscribe_ok n p \<Longrightarrow> concat (v3_unsubscribe_const_buffer_sequence p) =
    u3_fixed_header p # u3_remaining_length_buf p @ u3_packet_id p @ concat (map topic_bytes (u3_entries p))"
  by (simp add: v3_unsubscribe_const_buffer_sequence_def v3_unsubscribe_ok_def unsubscribe_entries_bytes)

interpretation v3_unsubscribe: packet_codec "parse_v3_unsubscribe n" v3_unsubscribe_const_buffer_sequence
  v3_unsubscribe_size "v3_unsubscribe_ok n" "\<lambda>p. p" for n
proof
  fix p assume ok: "v3_unsubscribe_ok n p"
  from ok show "v3_unsubscribe_size p = length (concat (v3_unsubscribe_const_buffer_sequence p))"
    unfolding v3_unsubscribe_bytes [OF ok] by (simp add: v3_unsubscribe_size_def v3_unsubscribe_ok_def header_ok_def)
  define E where "E = concat (map topic_bytes (u3_entries p))"
  from ok have h: "header_ok Cpt_unsubscribe (u3_fixed_header p) (u3_remaining_length p) (u3_remaining_length_buf p)
      (length (u3_packet_id p @ E))" and n: "length (u3_packet_id p) = n" "E \<noteq> []"
    unfolding E_def using topics_bytes_not_empty [of "u3_entries p"] by (simp_all add: v3_unsubscribe_ok_def)
  from ok have e: "read_unsubscribe_entries malformed_packet E = Inr (map (\<lambda>t. (endian_store 2 (length (ts_all_topic t)), t)) (u3_entries p))"
    unfolding E_def by (intro read_unsubscribe_entries_ok) (simp add: v3_unsubscribe_ok_def)
  have f: "map fst (map (\<lambda>t. (endian_store 2 (length (ts_all_topic t)), t)) (u3_entries p)) = u3_topic_length_buf_entries p"
    "map snd (map (\<lambda>t. (endian_store 2 (length (ts_all_topic t)), t)) (u3_entries p)) = u3_entries p"
    using ok by (simp_all add: v3_unsubscribe_ok_def comp_def)
  show "parse_v3_unsubscribe n (concat (v3_unsubscribe_const_buffer_sequence p)) = Inr p"
    unfolding v3_unsubscribe_bytes [OF ok] E_def [symmetric] parse_v3_unsubscribe_def
    by (simp add: read_header [OF h] read_bytes_exact n e f del: map_map)
qed simp

lemma make_v3_unsubscribe_ok:
  assumes "make_v3_unsubscribe n pid ts = Inr p" and "\<forall>t \<in> set ts. \<exists>a. t = topic_sharename_of a" and "ts \<noteq> []"
    and "u3_remaining_length p \<le> 0xfffffff"
  shows "v3_unsubscribe_ok n p" and "u3_entries p = ts" and "pid < 256 ^ n \<Longrightarrow> v3_unsubscribe_packet_id p = pid"
proof -
  have s: "foldl (\<lambda>r e. r + (2 + length (ts_all_topic e))) m ts = m + length (concat (map topic_bytes ts))" for m ts
    by (induction ts arbitrary: m) (simp_all add: topic_bytes_def)
  have "t = topic_sharename_of (ts_all_topic t)" if "t \<in> set ts" for t
    using assms(2) that by fastforce
  with assms(1,3,4) s [of n ts] make_fixed_header_check [of Cpt_unsubscribe]
  show "v3_unsubscribe_ok n p" "u3_entries p = ts" "pid < 256 ^ n \<Longrightarrow> v3_unsubscribe_packet_id p = pid"
    by (auto simp: make_v3_unsubscribe_def Let_def bindE_eq_Inr foldl_add_length v3_unsubscribe_ok_def header_ok_def
        topic_ok_def list_all_iff v3_unsubscribe_packet_id_def)
qed

end
