(* ===== verification/V5_Packets.thy ===== *)
theory V5_Packets
  imports V3_Packets
begin

unbundle bit_operations_syntax

text \<open>
  The MQTT 5.0 packets (\<^verbatim>\<open>packet/v5_*.hpp\<close>, \<^verbatim>\<open>packet/impl/v5_*.ipp\<close>), in the style of
  \<^verbatim>\<open>V3_Packets\<close>. PINGREQ and PINGRESP have the same code as in 3.1.1. Parsing constructors
  fail with an error code, or by an access behind the end of the buffer (\<open>Bad_access\<close>) where the
  code reads \<^verbatim>\<open>buf.front()\<close> without a test. Lengths are natural numbers: the sums the code
  computes modulo \<open>2 ^ 64\<close> are written with the additions first, which gives the same value.
\<close>

subsection \<open>Properties in a packet\<close>

text \<open>\<^verbatim>\<open>property_length_\<close> and its encoding, with the check of the locations.\<close>

definition make_props :: "error_code \<Rightarrow> property_location \<Rightarrow> properties \<Rightarrow> exn + nat \<times> bytes" where
  "make_props e loc props =
     bindE (numeric_cast 32 (properties_size props)) (\<lambda>pl.
     bindE (throw_unless (list_all (\<lambda>p. validate_property loc (prop_id p)) props) e) (\<lambda>_.
     Inr (pl, val_to_variable_bytes pl)))"

definition read_props :: "error_code \<Rightarrow> property_location \<Rightarrow> bytes \<Rightarrow> parse_failure + (nat \<times> bytes \<times> properties) \<times> bytes" where
  "read_props e loc buf =
     (case variable_bytes_to_val buf of
        (None, _) \<Rightarrow> Inl (Ec e)
      | (Some pl, rest) \<Rightarrow>
          if length rest < pl then Inl (Ec e)
          else
            (case make_properties loc (take pl rest) of
               Inl e' \<Rightarrow> Inl (Ec e')
             | Inr props \<Rightarrow> Inr ((pl, take (length buf - length rest) buf, props), drop pl rest)))"

text \<open>The code of a v5 packet in a failure.\<close>

abbreviation malformed :: parse_failure where "malformed \<equiv> Ec malformed_packet"

subsection \<open>CONNECT\<close>

record v5_connect =
  c5_fixed_header :: byte
  c5_connect_flags :: byte
  c5_remaining_length :: nat
  c5_remaining_length_buf :: bytes
  c5_protocol_name_and_level :: bytes
  c5_client_id :: bytes
  c5_client_id_length_buf :: bytes
  c5_will_topic :: bytes
  c5_will_topic_length_buf :: bytes
  c5_will_message :: bytes
  c5_will_message_length_buf :: bytes
  c5_will_property_length :: nat
  c5_will_property_length_buf :: bytes
  c5_will_props :: properties
  c5_user_name :: bytes
  c5_user_name_length_buf :: bytes
  c5_password :: bytes
  c5_password_length_buf :: bytes
  c5_keep_alive_buf :: bytes
  c5_property_length :: nat
  c5_property_length_buf :: bytes
  c5_props :: properties

text \<open>
  Without a will the constructor leaves \<^verbatim>\<open>will_property_length_\<close> uninitialised and never reads
  it; the model has 0 there.
\<close>

definition make_will_props :: "will option \<Rightarrow> exn + nat \<times> bytes \<times> properties" where
  "make_will_props wo =
     (case wo of
        None \<Rightarrow> Inr (0, [], [])
      | Some w \<Rightarrow>
          bindE (make_props connect_malformed_packet Loc_will (will_props w)) (\<lambda>(pl, plb).
          Inr (pl, plb, will_props w)))"

definition make_v5_connect ::
  "bool \<Rightarrow> nat \<Rightarrow> bytes \<Rightarrow> will option \<Rightarrow> bytes option \<Rightarrow> bytes option \<Rightarrow> properties \<Rightarrow> exn + v5_connect" where
  "make_v5_connect clean_start keep_alive_sec client_id w user_name password props =
     bindE (numeric_cast 32 (2 + 4 + 1 + 1 + 2 + 2 + length client_id)) (\<lambda>rl0.
     bindE (numeric_cast 32 (properties_size props)) (\<lambda>_.
     bindE (numeric_cast 16 (length client_id)) (\<lambda>cl.
     bindE (throw_unless (utf8string_check client_id) connect_malformed_packet) (\<lambda>_.
     bindE (make_opt_string utf8string_check user_name) (\<lambda>(ul, u).
     bindE (make_opt_string (\<lambda>_. True) password) (\<lambda>(pwl, pw).
     bindE (make_props connect_malformed_packet Loc_connect props) (\<lambda>(pl, plb).
     bindE (make_will_strings w) (\<lambda>((wtl, wt), (wml, wm)).
     bindE (make_will_props w) (\<lambda>(wpl, wplb, wps).
     let rl = rl0
              + (if user_name \<noteq> None then 2 + length u else 0)
              + (if password \<noteq> None then 2 + length pw else 0)
              + (length plb + pl)
              + (if w \<noteq> None then length wplb + wpl + 2 + length wt + 2 + length wm else 0)
     in bindE (numeric_cast 32 rl) (\<lambda>rl32.
     Inr \<lparr>c5_fixed_header = make_fixed_header Cpt_connect 0,
          c5_connect_flags = make_connect_flags clean_start w user_name password,
          c5_remaining_length = rl, c5_remaining_length_buf = val_to_variable_bytes rl32,
          c5_protocol_name_and_level = protocol_name_and_level 5,
          c5_client_id = client_id, c5_client_id_length_buf = endian_store 2 cl,
          c5_will_topic = wt, c5_will_topic_length_buf = wtl,
          c5_will_message = wm, c5_will_message_length_buf = wml,
          c5_will_property_length = wpl, c5_will_property_length_buf = wplb, c5_will_props = wps,
          c5_user_name = u, c5_user_name_length_buf = ul,
          c5_password = pw, c5_password_length_buf = pwl,
          c5_keep_alive_buf = endian_store 2 keep_alive_sec,
          c5_property_length = pl, c5_property_length_buf = plb, c5_props = props\<rparr>))))))))))"

definition v5_connect_const_buffer_sequence :: "v5_connect \<Rightarrow> bytes list" where
  "v5_connect_const_buffer_sequence p =
     [[c5_fixed_header p], c5_remaining_length_buf p, c5_protocol_name_and_level p, [c5_connect_flags p],
      c5_keep_alive_buf p, c5_property_length_buf p] @ properties_const_buffer_sequence (c5_props p) @
     [c5_client_id_length_buf p, c5_client_id p] @
     (if has_will_flag (c5_connect_flags p)
      then [c5_will_property_length_buf p] @ properties_const_buffer_sequence (c5_will_props p) @
           [c5_will_topic_length_buf p, c5_will_topic p, c5_will_message_length_buf p, c5_will_message p] else []) @
     (if has_user_name_flag (c5_connect_flags p) then [c5_user_name_length_buf p, c5_user_name p] else []) @
     (if has_password_flag (c5_connect_flags p) then [c5_password_length_buf p, c5_password p] else [])"

definition v5_connect_size :: "v5_connect \<Rightarrow> nat" where
  "v5_connect_size p = 1 + length (c5_remaining_length_buf p) + c5_remaining_length p"

definition v5_connect_num_of_const_buffer_sequence :: "v5_connect \<Rightarrow> nat" where
  "v5_connect_num_of_const_buffer_sequence p =
     1 + 1 + 1 + 1 + 1 + 1 + properties_num_of_const_buffer_sequence (c5_props p) + 2
     + (if has_will_flag (c5_connect_flags p)
        then 1 + properties_num_of_const_buffer_sequence (c5_will_props p) + 2 + 2 else 0)
     + (if has_user_name_flag (c5_connect_flags p) then 2 else 0)
     + (if has_password_flag (c5_connect_flags p) then 2 else 0)"

definition v5_connect_clean_start :: "v5_connect \<Rightarrow> bool" where
  "v5_connect_clean_start p = has_clean_session (c5_connect_flags p)"

definition v5_connect_keep_alive :: "v5_connect \<Rightarrow> nat" where
  "v5_connect_keep_alive p = endian_load (c5_keep_alive_buf p)"

definition v5_connect_user_name :: "v5_connect \<Rightarrow> bytes option" where
  "v5_connect_user_name p = (if has_user_name_flag (c5_connect_flags p) then Some (c5_user_name p) else None)"

definition v5_connect_password :: "v5_connect \<Rightarrow> bytes option" where
  "v5_connect_password p = (if has_password_flag (c5_connect_flags p) then Some (c5_password p) else None)"

definition v5_connect_get_will :: "v5_connect \<Rightarrow> will option" where
  "v5_connect_get_will p =
     (if has_will_flag (c5_connect_flags p)
      then Some \<lparr>will_topic = c5_will_topic p, will_message = c5_will_message p,
                 will_pubopts = pubopts_or (will_retain (c5_connect_flags p))
                                  (pubopts_of_qos (will_qos (c5_connect_flags p))),
                 will_props = c5_will_props p\<rparr>
      else None)"

definition read_v5_will ::
  "error_code \<Rightarrow> byte \<Rightarrow> bytes \<Rightarrow>
    parse_failure + ((nat \<times> bytes \<times> properties) \<times> (bytes \<times> bytes) \<times> (bytes \<times> bytes)) \<times> bytes" where
  "read_v5_will e flags buf =
     (if has_will_flag flags then
        bindE (fail_unless (will_qos flags \<in> {at_most_once, at_least_once, exactly_once}) (Ec e)) (\<lambda>_.
        bindE (read_props e Loc_will buf) (\<lambda>(ps, buf).
        bindE (read_utf8 (Ec e) buf) (\<lambda>(tlen, t, buf).
        bindE (read_binary (Ec e) buf) (\<lambda>(mlen, m, buf).
        Inr ((ps, (tlen, t), (mlen, m)), buf)))))
      else
        bindE (fail_unless (will_retain flags \<noteq> retain_yes) (Ec e)) (\<lambda>_.
        bindE (fail_unless (will_qos flags = at_most_once) (Ec e)) (\<lambda>_.
        Inr (((0, [], []), ([], []), ([], [])), buf))))"

definition parse_v5_connect :: "bytes \<Rightarrow> parse_failure + v5_connect" where
  "parse_v5_connect buf =
     (let ec = connect_malformed_packet; e = Ec ec in
      bindE (read_fixed_header e Cpt_connect buf) (\<lambda>(fh, buf).
      bindE (read_remaining_length e buf) (\<lambda>(rl, rlb, buf).
      bindE (read_bytes e 7 buf) (\<lambda>(pnl, buf).
      bindE (fail_unless (pnl = protocol_name_and_level 5) (Ec connect_unsupported_protocol_version)) (\<lambda>_.
      bindE (read_byte e buf) (\<lambda>(flags, buf).
      bindE (fail_unless (flags AND 0x01 = 0) e) (\<lambda>_.
      bindE (read_bytes e 2 buf) (\<lambda>(ka, buf).
      bindE (read_props ec Loc_connect buf) (\<lambda>((pl, plb, props), buf).
      bindE (read_utf8 e buf) (\<lambda>(cl, c, buf).
      bindE (read_v5_will ec flags buf) (\<lambda>(((wpl, wplb, wps), (wtl, wt), (wml, wm)), buf).
      bindE (read_user_name e flags buf) (\<lambda>((ul, u), buf).
      bindE (read_password e flags buf) (\<lambda>((pwl, pw), buf).
      Inr \<lparr>c5_fixed_header = fh, c5_connect_flags = flags, c5_remaining_length = rl, c5_remaining_length_buf = rlb,
           c5_protocol_name_and_level = pnl, c5_client_id = c, c5_client_id_length_buf = cl,
           c5_will_topic = wt, c5_will_topic_length_buf = wtl, c5_will_message = wm, c5_will_message_length_buf = wml,
           c5_will_property_length = wpl, c5_will_property_length_buf = wplb, c5_will_props = wps,
           c5_user_name = u, c5_user_name_length_buf = ul, c5_password = pw, c5_password_length_buf = pwl,
           c5_keep_alive_buf = ka, c5_property_length = pl, c5_property_length_buf = plb, c5_props = props\<rparr>)))))))))))))"

subsection \<open>CONNACK\<close>

record v5_connack =
  ca5_fixed_header :: byte
  ca5_remaining_length :: nat
  ca5_remaining_length_buf :: bytes
  ca5_connect_acknowledge_flags :: byte
  ca5_reason_code :: byte
  ca5_property_length :: nat
  ca5_property_length_buf :: bytes
  ca5_props :: properties

definition make_v5_connack :: "bool \<Rightarrow> byte \<Rightarrow> properties \<Rightarrow> exn + v5_connack" where
  "make_v5_connack session_present reason_code props =
     bindE (make_props malformed_packet Loc_connack props) (\<lambda>(pl, plb).
     let rl = 1 + 1 + (length plb + pl) in
     bindE (numeric_cast 32 rl) (\<lambda>rl32.
     Inr \<lparr>ca5_fixed_header = make_fixed_header Cpt_connack 0, ca5_remaining_length = rl,
          ca5_remaining_length_buf = val_to_variable_bytes rl32,
          ca5_connect_acknowledge_flags = (if session_present then 1 else 0), ca5_reason_code = reason_code,
          ca5_property_length = pl, ca5_property_length_buf = plb, ca5_props = props\<rparr>))"

definition v5_connack_const_buffer_sequence :: "v5_connack \<Rightarrow> bytes list" where
  "v5_connack_const_buffer_sequence p =
     [[ca5_fixed_header p], ca5_remaining_length_buf p, [ca5_connect_acknowledge_flags p], [ca5_reason_code p],
      ca5_property_length_buf p] @ properties_const_buffer_sequence (ca5_props p)"

definition v5_connack_size :: "v5_connack \<Rightarrow> nat" where
  "v5_connack_size p = 1 + length (ca5_remaining_length_buf p) + ca5_remaining_length p"

definition v5_connack_session_present :: "v5_connack \<Rightarrow> bool" where
  "v5_connack_session_present p = is_session_present (ca5_connect_acknowledge_flags p)"

text \<open>The cases of a switch over a reason code are the enumerators of its enumeration.\<close>

definition enumerated :: "enum_table \<Rightarrow> byte \<Rightarrow> bool" where
  "enumerated t rc \<longleftrightarrow> unat rc \<in> fst ` snd ` set t"

definition parse_v5_connack :: "bytes \<Rightarrow> parse_failure + v5_connack" where
  "parse_v5_connack buf =
     bindE (read_fixed_header malformed Cpt_connack buf) (\<lambda>(fh, buf).
     bindE (read_remaining_length malformed buf) (\<lambda>(rl, rlb, buf).
     bindE (read_byte malformed buf) (\<lambda>(flags, buf).
     bindE (fail_unless (flags AND 0xFE = 0) malformed) (\<lambda>_.
     bindE (read_byte Bad_access buf) (\<lambda>(rc, buf).
     bindE (fail_unless (enumerated connect_reason_code_enum rc) malformed) (\<lambda>_.
     bindE (read_props malformed_packet Loc_connack buf) (\<lambda>((pl, plb, props), buf).
     bindE (fail_unless (buf = []) malformed) (\<lambda>_.
     Inr \<lparr>ca5_fixed_header = fh, ca5_remaining_length = rl, ca5_remaining_length_buf = rlb,
          ca5_connect_acknowledge_flags = flags, ca5_reason_code = rc,
          ca5_property_length = pl, ca5_property_length_buf = plb, ca5_props = props\<rparr>))))))))"

subsection \<open>Reason code and properties\<close>

text \<open>
  PUBACK, PUBREC, PUBREL, PUBCOMP, DISCONNECT and AUTH end with an optional reason code and
  optional properties, with the same code in each class. \<open>base\<close> is the length of what comes
  before.
\<close>

definition make_reason_part ::
  "property_location \<Rightarrow> nat \<Rightarrow> byte option \<Rightarrow> properties \<Rightarrow> exn + nat \<times> nat \<times> bytes" where
  "make_reason_part loc base rco props =
     (let pl = properties_size props in
      (case rco of
         None \<Rightarrow> Inr (base, pl, [])
       | Some rc \<Rightarrow>
           if pl = 0 then Inr (base + 1, pl, [])
           else
             bindE (make_props malformed_packet loc props) (\<lambda>(pl, plb).
             Inr (base + 1 + (length plb + pl), pl, plb))))"

definition reason_part_buffers :: "byte option \<Rightarrow> bytes \<Rightarrow> properties \<Rightarrow> bytes list" where
  "reason_part_buffers rco plb props =
     (case rco of
        None \<Rightarrow> []
      | Some rc \<Rightarrow> [[rc]] @ (if length plb \<noteq> 0 then [plb] @ properties_const_buffer_sequence props else []))"

definition reason_part_num :: "byte option \<Rightarrow> bytes \<Rightarrow> properties \<Rightarrow> nat" where
  "reason_part_num rco plb props =
     (case rco of
        None \<Rightarrow> 0
      | Some rc \<Rightarrow> 1 + (if length plb = 0 then 0 else 1 + properties_num_of_const_buffer_sequence props))"

text \<open>\<open>rl1\<close> is the remaining length the code takes for a packet with a reason code only.\<close>

definition read_reason_part ::
  "property_location \<Rightarrow> enum_table \<Rightarrow> nat \<Rightarrow> nat \<Rightarrow> nat \<Rightarrow> bytes \<Rightarrow> parse_failure + byte option \<times> nat \<times> bytes \<times> properties" where
  "read_reason_part loc codes base rl1 rl buf =
     (if rl = base then
        bindE (fail_unless (buf = []) malformed) (\<lambda>_. Inr (None, 0, [], []))
      else
        bindE (read_byte Bad_access buf) (\<lambda>(rc, buf).
        bindE (fail_unless (enumerated codes rc) malformed) (\<lambda>_.
        if rl = rl1 then
          bindE (fail_unless (buf = []) malformed) (\<lambda>_. Inr (Some rc, 0, [], []))
        else
          bindE (read_props malformed_packet loc buf) (\<lambda>((pl, plb, props), buf).
          bindE (fail_unless (buf = []) malformed) (\<lambda>_.
          Inr (Some rc, pl, plb, props))))))"

text \<open>The header of these packets is read without a check of the packet type or its flags.\<close>

definition read_header_unchecked :: "bytes \<Rightarrow> parse_failure + (byte \<times> nat \<times> bytes) \<times> bytes" where
  "read_header_unchecked buf =
     bindE (read_byte malformed buf) (\<lambda>(fh, buf).
       (case insert_advance_variable_length buf of
          None \<Rightarrow> Inl malformed
        | Some (rl, rlb, buf) \<Rightarrow> Inr ((fh, rl, rlb), buf)))"

subsection \<open>PUBACK, PUBREC, PUBREL, PUBCOMP\<close>

record v5_ack =
  a5_fixed_header :: byte
  a5_remaining_length :: nat
  a5_remaining_length_buf :: bytes
  a5_packet_id :: bytes
  a5_reason_code :: "byte option"
  a5_property_length :: nat
  a5_property_length_buf :: bytes
  a5_props :: properties

definition make_v5_ack ::
  "control_packet_type \<Rightarrow> byte \<Rightarrow> property_location \<Rightarrow> nat \<Rightarrow> nat \<Rightarrow> byte option \<Rightarrow> properties \<Rightarrow> exn + v5_ack" where
  "make_v5_ack c flags loc n packet_id rco props =
     bindE (make_reason_part loc n rco props) (\<lambda>(rl, pl, plb).
     bindE (numeric_cast 32 rl) (\<lambda>rl32.
     Inr \<lparr>a5_fixed_header = make_fixed_header c flags, a5_remaining_length = rl,
          a5_remaining_length_buf = val_to_variable_bytes rl32, a5_packet_id = endian_store n packet_id,
          a5_reason_code = rco, a5_property_length = pl, a5_property_length_buf = plb, a5_props = props\<rparr>))"

definition v5_ack_const_buffer_sequence :: "v5_ack \<Rightarrow> bytes list" where
  "v5_ack_const_buffer_sequence p =
     [[a5_fixed_header p], a5_remaining_length_buf p, a5_packet_id p] @
     reason_part_buffers (a5_reason_code p) (a5_property_length_buf p) (a5_props p)"

definition v5_ack_size :: "v5_ack \<Rightarrow> nat" where
  "v5_ack_size p = 1 + length (a5_remaining_length_buf p) + a5_remaining_length p"

definition v5_ack_num_of_const_buffer_sequence :: "v5_ack \<Rightarrow> nat" where
  "v5_ack_num_of_const_buffer_sequence p =
     1 + 1 + 1 + reason_part_num (a5_reason_code p) (a5_property_length_buf p) (a5_props p)"

definition v5_ack_packet_id :: "v5_ack \<Rightarrow> nat" where
  "v5_ack_packet_id p = endian_load (a5_packet_id p)"

definition v5_ack_code :: "v5_ack \<Rightarrow> byte" where
  "v5_ack_code p = (case a5_reason_code p of Some rc \<Rightarrow> rc | None \<Rightarrow> 0x00)"

text \<open>The comparison \<^verbatim>\<open>remaining_length_ == 3\<close> stands in the code for any \<^verbatim>\<open>PacketIdBytes\<close>.\<close>

definition parse_v5_ack :: "property_location \<Rightarrow> enum_table \<Rightarrow> nat \<Rightarrow> bytes \<Rightarrow> parse_failure + v5_ack" where
  "parse_v5_ack loc codes n buf =
     bindE (read_header_unchecked buf) (\<lambda>((fh, rl, rlb), buf).
     bindE (read_bytes malformed n buf) (\<lambda>(pid, buf).
     bindE (read_reason_part loc codes n 3 rl buf) (\<lambda>(rco, pl, plb, props).
     Inr \<lparr>a5_fixed_header = fh, a5_remaining_length = rl, a5_remaining_length_buf = rlb, a5_packet_id = pid,
          a5_reason_code = rco, a5_property_length = pl, a5_property_length_buf = plb, a5_props = props\<rparr>)))"

definition make_v5_puback :: "nat \<Rightarrow> nat \<Rightarrow> byte option \<Rightarrow> properties \<Rightarrow> exn + v5_ack" where
  "make_v5_puback = make_v5_ack Cpt_puback 0 Loc_puback"
definition make_v5_pubrec :: "nat \<Rightarrow> nat \<Rightarrow> byte option \<Rightarrow> properties \<Rightarrow> exn + v5_ack" where
  "make_v5_pubrec = make_v5_ack Cpt_pubrec 0 Loc_pubrec"
definition make_v5_pubrel :: "nat \<Rightarrow> nat \<Rightarrow> byte option \<Rightarrow> properties \<Rightarrow> exn + v5_ack" where
  "make_v5_pubrel = make_v5_ack Cpt_pubrel 0x02 Loc_pubrel"
definition make_v5_pubcomp :: "nat \<Rightarrow> nat \<Rightarrow> byte option \<Rightarrow> properties \<Rightarrow> exn + v5_ack" where
  "make_v5_pubcomp = make_v5_ack Cpt_pubcomp 0 Loc_pubcomp"

definition parse_v5_puback :: "nat \<Rightarrow> bytes \<Rightarrow> parse_failure + v5_ack" where
  "parse_v5_puback = parse_v5_ack Loc_puback puback_reason_code_enum"
definition parse_v5_pubrec :: "nat \<Rightarrow> bytes \<Rightarrow> parse_failure + v5_ack" where
  "parse_v5_pubrec = parse_v5_ack Loc_pubrec pubrec_reason_code_enum"
definition parse_v5_pubrel :: "nat \<Rightarrow> bytes \<Rightarrow> parse_failure + v5_ack" where
  "parse_v5_pubrel = parse_v5_ack Loc_pubrel pubrel_reason_code_enum"
definition parse_v5_pubcomp :: "nat \<Rightarrow> bytes \<Rightarrow> parse_failure + v5_ack" where
  "parse_v5_pubcomp = parse_v5_ack Loc_pubcomp pubcomp_reason_code_enum"

subsection \<open>DISCONNECT and AUTH\<close>

record v5_reason =
  r5_fixed_header :: byte
  r5_remaining_length :: nat
  r5_remaining_length_buf :: bytes
  r5_reason_code :: "byte option"
  r5_property_length :: nat
  r5_property_length_buf :: bytes
  r5_props :: properties

definition make_v5_reason ::
  "control_packet_type \<Rightarrow> property_location \<Rightarrow> byte option \<Rightarrow> properties \<Rightarrow> exn + v5_reason" where
  "make_v5_reason c loc rco props =
     bindE (make_reason_part loc 0 rco props) (\<lambda>(rl, pl, plb).
     bindE (numeric_cast 32 rl) (\<lambda>rl32.
     Inr \<lparr>r5_fixed_header = make_fixed_header c 0, r5_remaining_length = rl,
          r5_remaining_length_buf = val_to_variable_bytes rl32,
          r5_reason_code = rco, r5_property_length = pl, r5_property_length_buf = plb, r5_props = props\<rparr>))"

definition v5_reason_const_buffer_sequence :: "v5_reason \<Rightarrow> bytes list" where
  "v5_reason_const_buffer_sequence p =
     [[r5_fixed_header p], r5_remaining_length_buf p] @
     reason_part_buffers (r5_reason_code p) (r5_property_length_buf p) (r5_props p)"

definition v5_reason_size :: "v5_reason \<Rightarrow> nat" where
  "v5_reason_size p = 1 + length (r5_remaining_length_buf p) + r5_remaining_length p"

definition v5_reason_num_of_const_buffer_sequence :: "v5_reason \<Rightarrow> nat" where
  "v5_reason_num_of_const_buffer_sequence p =
     1 + 1 + reason_part_num (r5_reason_code p) (r5_property_length_buf p) (r5_props p)"

definition v5_reason_code :: "v5_reason \<Rightarrow> byte" where
  "v5_reason_code p = (case r5_reason_code p of Some rc \<Rightarrow> rc | None \<Rightarrow> 0x00)"

definition parse_v5_reason :: "property_location \<Rightarrow> enum_table \<Rightarrow> bytes \<Rightarrow> parse_failure + v5_reason" where
  "parse_v5_reason loc codes buf =
     bindE (read_header_unchecked buf) (\<lambda>((fh, rl, rlb), buf).
     bindE (read_reason_part loc codes 0 1 rl buf) (\<lambda>(rco, pl, plb, props).
     Inr \<lparr>r5_fixed_header = fh, r5_remaining_length = rl, r5_remaining_length_buf = rlb,
          r5_reason_code = rco, r5_property_length = pl, r5_property_length_buf = plb, r5_props = props\<rparr>))"

definition make_v5_disconnect :: "byte option \<Rightarrow> properties \<Rightarrow> exn + v5_reason" where
  "make_v5_disconnect = make_v5_reason Cpt_disconnect Loc_disconnect"
definition parse_v5_disconnect :: "bytes \<Rightarrow> parse_failure + v5_reason" where
  "parse_v5_disconnect = parse_v5_reason Loc_disconnect disconnect_reason_code_enum"
definition make_v5_auth :: "byte option \<Rightarrow> properties \<Rightarrow> exn + v5_reason" where
  "make_v5_auth = make_v5_reason Cpt_auth Loc_auth"
definition parse_v5_auth :: "bytes \<Rightarrow> parse_failure + v5_reason" where
  "parse_v5_auth = parse_v5_reason Loc_auth auth_reason_code_enum"

subsection \<open>PUBLISH\<close>

record v5_publish =
  p5_fixed_header :: byte
  p5_topic_name :: bytes
  p5_topic_name_length_buf :: bytes
  p5_packet_id :: bytes
  p5_property_length :: nat
  p5_property_length_buf :: bytes
  p5_props :: properties
  p5_payloads :: "bytes list"
  p5_remaining_length :: nat
  p5_remaining_length_buf :: bytes

text \<open>Unlike the 3.1.1 constructor, any QoS that is not 1 or 2 counts as 0, and the error differs.\<close>

definition v5_publish_packet_id_buf :: "nat \<Rightarrow> nat \<Rightarrow> qos \<Rightarrow> exn + bytes" where
  "v5_publish_packet_id_buf n packet_id q =
     (if qos_with_id q then
        bindE (throw_unless (packet_id \<noteq> 0) protocol_error) (\<lambda>_. Inr (endian_store n packet_id))
      else
        bindE (throw_unless (packet_id = 0) protocol_error) (\<lambda>_. Inr (endian_store n 0)))"

definition make_v5_publish ::
  "nat \<Rightarrow> nat \<Rightarrow> bytes \<Rightarrow> bytes list \<Rightarrow> pubopts \<Rightarrow> properties \<Rightarrow> exn + v5_publish" where
  "make_v5_publish n packet_id topic payloads opts props =
     bindE (throw_unless (length topic \<le> 0xffff) malformed_packet) (\<lambda>_.
     let rl0 = foldl (\<lambda>r payload. r + length payload)
                (2 + length topic + (if qos_with_id (opts_get_qos opts) then n else 0)) payloads in
     bindE (throw_unless (utf8string_check topic) malformed_packet) (\<lambda>_.
     bindE (make_props malformed_packet Loc_publish props) (\<lambda>(pl, plb).
     let rl = rl0 + (length plb + pl) in
     bindE (numeric_cast 32 rl) (\<lambda>rl32.
     bindE (v5_publish_packet_id_buf n packet_id (opts_get_qos opts)) (\<lambda>pid.
     Inr \<lparr>p5_fixed_header = make_fixed_header Cpt_publish 0 OR opts,
          p5_topic_name = topic, p5_topic_name_length_buf = endian_store 2 (length topic),
          p5_packet_id = pid, p5_property_length = pl, p5_property_length_buf = plb, p5_props = props,
          p5_payloads = payloads,
          p5_remaining_length = rl, p5_remaining_length_buf = val_to_variable_bytes rl32\<rparr>)))))"

definition v5_publish_packet_id :: "v5_publish \<Rightarrow> nat" where
  "v5_publish_packet_id p = endian_load (p5_packet_id p)"

definition v5_publish_opts :: "v5_publish \<Rightarrow> pubopts" where
  "v5_publish_opts p = p5_fixed_header p"

definition v5_publish_set_dup :: "bool \<Rightarrow> v5_publish \<Rightarrow> v5_publish" where
  "v5_publish_set_dup dup p = p\<lparr>p5_fixed_header := pub_set_dup dup (p5_fixed_header p)\<rparr>"

definition v5_publish_const_buffer_sequence :: "v5_publish \<Rightarrow> bytes list" where
  "v5_publish_const_buffer_sequence p =
     [[p5_fixed_header p], p5_remaining_length_buf p, p5_topic_name_length_buf p, p5_topic_name p] @
     (if v5_publish_packet_id p \<noteq> 0 then [p5_packet_id p] else []) @
     [p5_property_length_buf p] @ properties_const_buffer_sequence (p5_props p) @ p5_payloads p"

definition v5_publish_size :: "v5_publish \<Rightarrow> nat" where
  "v5_publish_size p = 1 + length (p5_remaining_length_buf p) + p5_remaining_length p"

definition v5_publish_num_of_const_buffer_sequence :: "v5_publish \<Rightarrow> nat" where
  "v5_publish_num_of_const_buffer_sequence p =
     1 + 1 + 2 + (if v5_publish_packet_id p = 0 then 0 else 1) + 1
     + properties_num_of_const_buffer_sequence (p5_props p) + length (p5_payloads p)"

definition parse_v5_publish :: "nat \<Rightarrow> bytes \<Rightarrow> parse_failure + v5_publish" where
  "parse_v5_publish n buf =
     bindE (read_header_unchecked buf) (\<lambda>((fh, rl, rlb), buf).
     bindE (read_utf8 malformed buf) (\<lambda>(tlen, t, buf).
     bindE (map_sum Ec (\<lambda>r. r) (read_publish_packet_id n (pub_get_qos fh) buf)) (\<lambda>(pid, buf).
     bindE (read_props malformed_packet Loc_publish buf) (\<lambda>((pl, plb, props), buf).
     Inr \<lparr>p5_fixed_header = fh, p5_topic_name = t, p5_topic_name_length_buf = tlen, p5_packet_id = pid,
          p5_property_length = pl, p5_property_length_buf = plb, p5_props = props,
          p5_payloads = (if buf \<noteq> [] then [buf] else []),
          p5_remaining_length = rl, p5_remaining_length_buf = rlb\<rparr>))))"

subsubsection \<open>Topic and topic alias of a PUBLISH\<close>

definition update_remaining_length_buf :: "v5_publish \<Rightarrow> v5_publish" where
  "update_remaining_length_buf p = p\<lparr>p5_remaining_length_buf := val_to_variable_bytes (p5_remaining_length p)\<rparr>"

definition update_property_length_buf :: "v5_publish \<Rightarrow> (nat \<times> nat) \<times> v5_publish" where
  "update_property_length_buf p =
     (let buf = val_to_variable_bytes (p5_property_length p)
      in ((length (p5_property_length_buf p), length buf), p\<lparr>p5_property_length_buf := buf\<rparr>))"

definition remove_topic_alias_impl :: "v5_publish \<Rightarrow> nat \<times> v5_publish" where
  "remove_topic_alias_impl p =
     (sum_list (map property_size (filter (\<lambda>pr. prop_id pr = Id_topic_alias) (p5_props p))),
      p\<lparr>p5_props := filter (\<lambda>pr. prop_id pr \<noteq> Id_topic_alias) (p5_props p)\<rparr>)"

definition add_topic_impl :: "bytes \<Rightarrow> v5_publish \<Rightarrow> v5_publish" where
  "add_topic_impl t p = p\<lparr>p5_topic_name := t, p5_topic_name_length_buf := endian_store 2 (length t)\<rparr>"

definition remove_topic_add_topic_alias :: "nat \<Rightarrow> v5_publish \<Rightarrow> v5_publish" where
  "remove_topic_add_topic_alias val p =
     (let prop = topic_alias val;
          ps = property_size prop;
          p = p\<lparr>p5_property_length := p5_property_length p + ps, p5_props := p5_props p @ [prop]\<rparr>;
          ((old_size, new_size), p) = update_property_length_buf p;
          old_topic_name_size = length (p5_topic_name p);
          p = p\<lparr>p5_topic_name := [], p5_topic_name_length_buf := endian_store 2 0\<rparr>;
          p = p\<lparr>p5_remaining_length := p5_remaining_length p + ps + new_size - (old_size + old_topic_name_size)\<rparr>
      in update_remaining_length_buf p)"

definition add_topic_alias :: "nat \<Rightarrow> v5_publish \<Rightarrow> v5_publish" where
  "add_topic_alias val p =
     (let prop = topic_alias val;
          ps = property_size prop;
          p = p\<lparr>p5_property_length := p5_property_length p + ps, p5_props := p5_props p @ [prop]\<rparr>;
          ((old_size, new_size), p) = update_property_length_buf p;
          p = p\<lparr>p5_remaining_length := p5_remaining_length p + ps + new_size - old_size\<rparr>
      in update_remaining_length_buf p)"

definition add_topic :: "bytes \<Rightarrow> v5_publish \<Rightarrow> v5_publish" where
  "add_topic t p =
     (let p = add_topic_impl t p;
          p = p\<lparr>p5_remaining_length := p5_remaining_length p + length (p5_topic_name p)\<rparr>
      in update_remaining_length_buf p)"

definition remove_topic_alias :: "v5_publish \<Rightarrow> v5_publish" where
  "remove_topic_alias p =
     (let (ps, p) = remove_topic_alias_impl p;
          p = p\<lparr>p5_property_length := p5_property_length p - ps\<rparr>;
          ((old_size, new_size), p) = update_property_length_buf p;
          p = p\<lparr>p5_remaining_length := p5_remaining_length p + new_size - (ps + old_size)\<rparr>
      in update_remaining_length_buf p)"

definition remove_topic_alias_add_topic :: "bytes \<Rightarrow> v5_publish \<Rightarrow> v5_publish" where
  "remove_topic_alias_add_topic t p =
     (let (ps, p) = remove_topic_alias_impl p;
          p = p\<lparr>p5_property_length := p5_property_length p - ps\<rparr>;
          p = add_topic_impl t p;
          ((old_size, new_size), p) = update_property_length_buf p;
          p = p\<lparr>p5_remaining_length := p5_remaining_length p + length (p5_topic_name p) + new_size - (ps + old_size)\<rparr>
      in update_remaining_length_buf p)"

text \<open>Only the first message expiry interval is updated.\<close>

fun update_first_expiry :: "nat \<Rightarrow> properties \<Rightarrow> properties" where
  "update_first_expiry val [] = []"
| "update_first_expiry val (p # ps) =
     (if prop_id p = Id_message_expiry_interval then message_expiry_interval val # ps
      else p # update_first_expiry val ps)"

definition update_message_expiry_interval :: "nat \<Rightarrow> v5_publish \<Rightarrow> v5_publish" where
  "update_message_expiry_interval val p = p\<lparr>p5_props := update_first_expiry val (p5_props p)\<rparr>"

subsection \<open>SUBSCRIBE\<close>

record v5_subscribe =
  s5_fixed_header :: byte
  s5_topic_length_buf_entries :: "bytes list"
  s5_entries :: "topic_subopts list"
  s5_packet_id :: bytes
  s5_remaining_length :: nat
  s5_remaining_length_buf :: bytes
  s5_property_length :: nat
  s5_property_length_buf :: bytes
  s5_props :: properties

definition v5_subopts_valid :: "subopts \<Rightarrow> bool" where
  "v5_subopts_valid o1 \<longleftrightarrow> o1 AND 0xC0 = 0 \<and> sub_qos_valid o1 \<and>
     sub_get_retain_handling o1 \<in> {rh_send, rh_send_only_new_subscription, rh_not_send}"

definition v5_nl_shared :: "topic_subopts \<Rightarrow> bool" where
  "v5_nl_shared e \<longleftrightarrow> sub_get_nl (tso_opts e) = nl_yes \<and> ts_sharename (tso_topic_sharename e) \<noteq> []"

text \<open>The checks of one entry, in the order of the code: options, no local on a share, UTF-8.\<close>

definition v5_make_entry_check :: "topic_subopts \<Rightarrow> exn + unit" where
  "v5_make_entry_check e =
     bindE (throw_unless (v5_subopts_valid (tso_opts e)) malformed_packet) (\<lambda>_.
     bindE (throw_unless (\<not> v5_nl_shared e) protocol_error) (\<lambda>_.
     throw_unless (utf8string_check (tso_all_topic e)) malformed_packet))"

definition v5_make_entries_check :: "topic_subopts list \<Rightarrow> exn + unit" where
  "v5_make_entries_check es = foldr (\<lambda>e r. bindE (v5_make_entry_check e) (\<lambda>_. r)) es (Inr ())"

definition make_v5_subscribe :: "nat \<Rightarrow> nat \<Rightarrow> topic_subopts list \<Rightarrow> properties \<Rightarrow> exn + v5_subscribe" where
  "make_v5_subscribe n packet_id params props =
     bindE (throw_unless (list_all (\<lambda>e. length (tso_all_topic e) \<le> 0xffff) params) malformed_packet) (\<lambda>_.
     bindE (make_props malformed_packet Loc_subscribe props) (\<lambda>(pl, plb).
     bindE (v5_make_entries_check params) (\<lambda>_.
     let rl = foldl (\<lambda>r e. r + (2 + length (tso_all_topic e) + 1)) (n + (length plb + pl)) params in
     bindE (numeric_cast 32 rl) (\<lambda>rl32.
     Inr \<lparr>s5_fixed_header = make_fixed_header Cpt_subscribe 0x02,
          s5_topic_length_buf_entries = map (\<lambda>e. endian_store 2 (length (tso_all_topic e))) params,
          s5_entries = params, s5_packet_id = endian_store n packet_id,
          s5_remaining_length = rl, s5_remaining_length_buf = val_to_variable_bytes rl32,
          s5_property_length = pl, s5_property_length_buf = plb, s5_props = props\<rparr>))))"

definition v5_subscribe_const_buffer_sequence :: "v5_subscribe \<Rightarrow> bytes list" where
  "v5_subscribe_const_buffer_sequence p =
     [[s5_fixed_header p], s5_remaining_length_buf p, s5_packet_id p, s5_property_length_buf p] @
     properties_const_buffer_sequence (s5_props p) @
     concat (map (\<lambda>(len, e). [len, tso_all_topic e, [tso_opts e]])
       (zip (s5_topic_length_buf_entries p) (s5_entries p)))"

definition v5_subscribe_size :: "v5_subscribe \<Rightarrow> nat" where
  "v5_subscribe_size p = 1 + length (s5_remaining_length_buf p) + s5_remaining_length p"

definition v5_subscribe_num_of_const_buffer_sequence :: "v5_subscribe \<Rightarrow> nat" where
  "v5_subscribe_num_of_const_buffer_sequence p =
     1 + 1 + 1
     + (if length (s5_property_length_buf p) = 0 then 0 else 1 + properties_num_of_const_buffer_sequence (s5_props p))
     + length (s5_entries p) * 3"

definition v5_subscribe_packet_id :: "v5_subscribe \<Rightarrow> nat" where
  "v5_subscribe_packet_id p = endian_load (s5_packet_id p)"

definition v5_entry_check :: "topic_subopts \<Rightarrow> parse_failure + unit" where
  "v5_entry_check e =
     bindE (fail_unless (v5_subopts_valid (tso_opts e)) malformed) (\<lambda>_.
     fail_unless (\<not> v5_nl_shared e) (Ec protocol_error))"

definition parse_v5_subscribe :: "nat \<Rightarrow> bytes \<Rightarrow> parse_failure + v5_subscribe" where
  "parse_v5_subscribe n buf =
     bindE (read_fixed_header malformed Cpt_subscribe buf) (\<lambda>(fh, buf).
     bindE (read_remaining_length malformed buf) (\<lambda>(rl, rlb, buf).
     bindE (read_bytes malformed n buf) (\<lambda>(pid, buf).
     bindE (read_props malformed_packet Loc_subscribe buf) (\<lambda>((pl, plb, props), buf).
     bindE (fail_unless (buf \<noteq> []) (Ec protocol_error)) (\<lambda>_.
     bindE (read_subscribe_entries malformed v5_entry_check buf) (\<lambda>xs.
     Inr \<lparr>s5_fixed_header = fh, s5_topic_length_buf_entries = map fst xs, s5_entries = map snd xs,
          s5_packet_id = pid, s5_remaining_length = rl, s5_remaining_length_buf = rlb,
          s5_property_length = pl, s5_property_length_buf = plb, s5_props = props\<rparr>))))))"

subsection \<open>SUBACK and UNSUBACK\<close>

text \<open>The two classes differ in packet type, location and the set of reason codes.\<close>

record v5_suback =
  sa5_fixed_header :: byte
  sa5_entries :: "byte list"
  sa5_packet_id :: bytes
  sa5_remaining_length :: nat
  sa5_remaining_length_buf :: bytes
  sa5_property_length :: nat
  sa5_property_length_buf :: bytes
  sa5_props :: properties

definition make_v5_suback_gen ::
  "control_packet_type \<Rightarrow> property_location \<Rightarrow> nat \<Rightarrow> nat \<Rightarrow> byte list \<Rightarrow> properties \<Rightarrow> exn + v5_suback" where
  "make_v5_suback_gen c loc n packet_id params props =
     bindE (make_props malformed_packet loc props) (\<lambda>(pl, plb).
     let rl = n + length params + (length plb + pl) in
     bindE (numeric_cast 32 rl) (\<lambda>rl32.
     Inr \<lparr>sa5_fixed_header = make_fixed_header c 0, sa5_entries = params, sa5_packet_id = endian_store n packet_id,
          sa5_remaining_length = rl, sa5_remaining_length_buf = val_to_variable_bytes rl32,
          sa5_property_length = pl, sa5_property_length_buf = plb, sa5_props = props\<rparr>))"

definition v5_suback_const_buffer_sequence :: "v5_suback \<Rightarrow> bytes list" where
  "v5_suback_const_buffer_sequence p =
     [[sa5_fixed_header p], sa5_remaining_length_buf p, sa5_packet_id p, sa5_property_length_buf p] @
     properties_const_buffer_sequence (sa5_props p) @ [sa5_entries p]"

definition v5_suback_size :: "v5_suback \<Rightarrow> nat" where
  "v5_suback_size p = 1 + length (sa5_remaining_length_buf p) + sa5_remaining_length p"

definition v5_suback_num_of_const_buffer_sequence :: "v5_suback \<Rightarrow> nat" where
  "v5_suback_num_of_const_buffer_sequence p =
     1 + 1 + 1
     + (if length (sa5_property_length_buf p) = 0 then 0 else 1 + properties_num_of_const_buffer_sequence (sa5_props p))
     + 1"

definition v5_suback_packet_id :: "v5_suback \<Rightarrow> nat" where
  "v5_suback_packet_id p = endian_load (sa5_packet_id p)"

definition parse_v5_suback_gen ::
  "control_packet_type \<Rightarrow> property_location \<Rightarrow> enum_table \<Rightarrow> nat \<Rightarrow> bytes \<Rightarrow> parse_failure + v5_suback" where
  "parse_v5_suback_gen c loc codes n buf =
     bindE (read_fixed_header malformed c buf) (\<lambda>(fh, buf).
     bindE (read_remaining_length malformed buf) (\<lambda>(rl, rlb, buf).
     bindE (read_bytes malformed n buf) (\<lambda>(pid, buf).
     bindE (read_props malformed_packet loc buf) (\<lambda>((pl, plb, props), buf).
     bindE (fail_unless (buf \<noteq> []) (Ec protocol_error)) (\<lambda>_.
     bindE (fail_unless (list_all (enumerated codes) buf) malformed) (\<lambda>_.
     Inr \<lparr>sa5_fixed_header = fh, sa5_entries = buf, sa5_packet_id = pid,
          sa5_remaining_length = rl, sa5_remaining_length_buf = rlb,
          sa5_property_length = pl, sa5_property_length_buf = plb, sa5_props = props\<rparr>))))))"

definition make_v5_suback :: "nat \<Rightarrow> nat \<Rightarrow> byte list \<Rightarrow> properties \<Rightarrow> exn + v5_suback" where
  "make_v5_suback = make_v5_suback_gen Cpt_suback Loc_suback"
definition parse_v5_suback :: "nat \<Rightarrow> bytes \<Rightarrow> parse_failure + v5_suback" where
  "parse_v5_suback = parse_v5_suback_gen Cpt_suback Loc_suback suback_reason_code_enum"
definition make_v5_unsuback :: "nat \<Rightarrow> nat \<Rightarrow> byte list \<Rightarrow> properties \<Rightarrow> exn + v5_suback" where
  "make_v5_unsuback = make_v5_suback_gen Cpt_unsuback Loc_unsuback"
definition parse_v5_unsuback :: "nat \<Rightarrow> bytes \<Rightarrow> parse_failure + v5_suback" where
  "parse_v5_unsuback = parse_v5_suback_gen Cpt_unsuback Loc_unsuback unsuback_reason_code_enum"

subsection \<open>UNSUBSCRIBE\<close>

record v5_unsubscribe =
  u5_fixed_header :: byte
  u5_topic_length_buf_entries :: "bytes list"
  u5_entries :: "topic_sharename list"
  u5_packet_id :: bytes
  u5_remaining_length :: nat
  u5_remaining_length_buf :: bytes
  u5_property_length :: nat
  u5_property_length_buf :: bytes
  u5_props :: properties

definition make_v5_unsubscribe :: "nat \<Rightarrow> nat \<Rightarrow> topic_sharename list \<Rightarrow> properties \<Rightarrow> exn + v5_unsubscribe" where
  "make_v5_unsubscribe n packet_id params props =
     bindE (throw_unless (list_all (\<lambda>e. length (ts_all_topic e) \<le> 0xffff) params) malformed_packet) (\<lambda>_.
     bindE (make_props malformed_packet Loc_unsubscribe props) (\<lambda>(pl, plb).
     bindE (throw_unless (list_all (\<lambda>e. utf8string_check (ts_all_topic e)) params) malformed_packet) (\<lambda>_.
     let rl = foldl (\<lambda>r e. r + (2 + length (ts_all_topic e))) (n + (length plb + pl)) params in
     bindE (numeric_cast 32 rl) (\<lambda>rl32.
     Inr \<lparr>u5_fixed_header = make_fixed_header Cpt_unsubscribe 0x02,
          u5_topic_length_buf_entries = map (\<lambda>e. endian_store 2 (length (ts_all_topic e))) params,
          u5_entries = params, u5_packet_id = endian_store n packet_id,
          u5_remaining_length = rl, u5_remaining_length_buf = val_to_variable_bytes rl32,
          u5_property_length = pl, u5_property_length_buf = plb, u5_props = props\<rparr>))))"

definition v5_unsubscribe_const_buffer_sequence :: "v5_unsubscribe \<Rightarrow> bytes list" where
  "v5_unsubscribe_const_buffer_sequence p =
     [[u5_fixed_header p], u5_remaining_length_buf p, u5_packet_id p, u5_property_length_buf p] @
     properties_const_buffer_sequence (u5_props p) @
     concat (map (\<lambda>(len, e). [len, ts_all_topic e]) (zip (u5_topic_length_buf_entries p) (u5_entries p)))"

definition v5_unsubscribe_size :: "v5_unsubscribe \<Rightarrow> nat" where
  "v5_unsubscribe_size p = 1 + length (u5_remaining_length_buf p) + u5_remaining_length p"

definition v5_unsubscribe_num_of_const_buffer_sequence :: "v5_unsubscribe \<Rightarrow> nat" where
  "v5_unsubscribe_num_of_const_buffer_sequence p =
     1 + 1 + 1
     + (if length (u5_property_length_buf p) = 0 then 0 else 1 + properties_num_of_const_buffer_sequence (u5_props p))
     + length (u5_entries p) * 2"

definition v5_unsubscribe_packet_id :: "v5_unsubscribe \<Rightarrow> nat" where
  "v5_unsubscribe_packet_id p = endian_load (u5_packet_id p)"

definition parse_v5_unsubscribe :: "nat \<Rightarrow> bytes \<Rightarrow> parse_failure + v5_unsubscribe" where
  "parse_v5_unsubscribe n buf =
     bindE (read_fixed_header malformed Cpt_unsubscribe buf) (\<lambda>(fh, buf).
     bindE (read_remaining_length malformed buf) (\<lambda>(rl, rlb, buf).
     bindE (read_bytes malformed n buf) (\<lambda>(pid, buf).
     bindE (read_props malformed_packet Loc_unsubscribe buf) (\<lambda>((pl, plb, props), buf).
     bindE (fail_unless (buf \<noteq> []) (Ec protocol_error)) (\<lambda>_.
     bindE (read_unsubscribe_entries malformed buf) (\<lambda>xs.
     Inr \<lparr>u5_fixed_header = fh, u5_topic_length_buf_entries = map fst xs, u5_entries = map snd xs,
          u5_packet_id = pid, u5_remaining_length = rl, u5_remaining_length_buf = rlb,
          u5_property_length = pl, u5_property_length_buf = plb, u5_props = props\<rparr>))))))"

subsection \<open>PINGREQ and PINGRESP\<close>

text \<open>The classes of 5.0 repeat the code of the packets without a body.\<close>

definition make_v5_pingreq :: v3_all where "make_v5_pingreq = make_v3_empty Cpt_pingreq"
definition make_v5_pingresp :: v3_all where "make_v5_pingresp = make_v3_empty Cpt_pingresp"
definition parse_v5_pingreq :: "bytes \<Rightarrow> error_code + v3_all" where "parse_v5_pingreq = parse_v3_empty Cpt_pingreq"
definition parse_v5_pingresp :: "bytes \<Rightarrow> error_code + v3_all" where "parse_v5_pingresp = parse_v3_empty Cpt_pingresp"

end
