(* ===== verification/V5_Codec.thy ===== *)
theory V5_Codec
  imports V5_Packets
begin

unbundle bit_operations_syntax

text \<open>
  Well-formed MQTT 5.0 packets: each class meets the contract of \<^verbatim>\<open>packet_codec\<close>, the throwing
  constructors build well-formed packets, and the operations on topic and topic alias of a PUBLISH
  keep a packet well-formed.
\<close>

subsection \<open>Properties\<close>

definition props_ok :: "property_location \<Rightarrow> nat \<Rightarrow> bytes \<Rightarrow> properties \<Rightarrow> bool" where
  "props_ok loc pl plb props \<longleftrightarrow>
     properties_ok loc props \<and> pl = properties_size props \<and> pl \<le> 0xfffffff \<and> plb = val_to_variable_bytes pl"

lemma props_ok_length: "props_ok loc pl plb props \<Longrightarrow> pl = length (properties_bytes props)"
  by (simp add: props_ok_def properties_size_bytes)

lemma read_props_ok:
  assumes "props_ok loc pl plb props"
  shows "read_props e loc (plb @ properties_bytes props @ rest) = Inr ((pl, plb, props), rest)"
    and "read_props e loc (plb @ properties_bytes props) = Inr ((pl, plb, props), [])"
proof -
  have *: "read_props e loc (plb @ properties_bytes props @ r) = Inr ((pl, plb, props), r)" for r
    using assms props_ok_length [OF assms]
    by (simp add: props_ok_def read_props_def variable_bytes_roundtrip make_properties_roundtrip)
  show "read_props e loc (plb @ properties_bytes props @ rest) = Inr ((pl, plb, props), rest)" by (rule *)
  show "read_props e loc (plb @ properties_bytes props) = Inr ((pl, plb, props), [])" using * [of "[]"] by simp
qed

lemma make_props_ok:
  assumes "make_props e loc props = Inr (pl, plb)" and "list_all property_ok props" and "pl \<le> 0xfffffff"
  shows "props_ok loc pl plb props"
  using assms by (auto simp: make_props_def bindE_eq_Inr props_ok_def properties_ok_def list_all_iff)

lemma properties_bytes_concat: "concat (properties_const_buffer_sequence ps) = properties_bytes ps"
  by (simp add: properties_bytes_def)

lemma property_num_length: "property_num_of_const_buffer_sequence p = length (property_const_buffer_sequence p)"
  by (cases p) simp_all

lemma properties_num_length:
  "properties_num_of_const_buffer_sequence ps = length (properties_const_buffer_sequence ps)"
proof -
  have "sum_list (map property_num_of_const_buffer_sequence ps) = length (properties_const_buffer_sequence ps)"
    by (induction ps) (simp_all add: properties_const_buffer_sequence_def property_num_length)
  then show ?thesis by (simp add: properties_num_of_const_buffer_sequence_def foldl_plus_sum_list)
qed

subsection \<open>CONNECT\<close>

definition v5_will_ok :: "byte \<Rightarrow> nat \<Rightarrow> bytes \<Rightarrow> properties \<Rightarrow> bytes \<Rightarrow> bytes \<Rightarrow> bytes \<Rightarrow> bytes \<Rightarrow> bool" where
  "v5_will_ok flags pl plb ps tlen t mlen m \<longleftrightarrow>
     will_ok flags tlen t mlen m \<and>
     (if has_will_flag flags then props_ok Loc_will pl plb ps else pl = 0 \<and> plb = [] \<and> ps = [])"

lemma read_v5_will_ok:
  assumes "v5_will_ok flags pl plb ps tlen t mlen m"
  shows "read_v5_will e flags (plb @ properties_bytes ps @ tlen @ t @ mlen @ m @ rest) =
    Inr (((pl, plb, ps), (tlen, t), (mlen, m)), rest)"
proof (cases "has_will_flag flags")
  case True
  with assms have "props_ok Loc_will pl plb ps" by (simp add: v5_will_ok_def)
  with True assms show ?thesis
    by (auto simp: v5_will_ok_def will_ok_def read_v5_will_def read_props_ok read_str_ok)
next
  case False
  with assms show ?thesis by (auto simp: v5_will_ok_def will_ok_def read_v5_will_def)
qed

definition v5_connect_ok :: "v5_connect \<Rightarrow> bool" where
  "v5_connect_ok p \<longleftrightarrow>
     header_ok Cpt_connect (c5_fixed_header p) (c5_remaining_length p) (c5_remaining_length_buf p)
       (12 + length (c5_client_id p) + (length (c5_property_length_buf p) + c5_property_length p)
        + (length (c5_will_property_length_buf p) + c5_will_property_length p
           + length (c5_will_topic_length_buf p) + length (c5_will_topic p)
           + length (c5_will_message_length_buf p) + length (c5_will_message p))
        + (length (c5_user_name_length_buf p) + length (c5_user_name p))
        + (length (c5_password_length_buf p) + length (c5_password p))) \<and>
     c5_protocol_name_and_level p = protocol_name_and_level 5 \<and>
     c5_connect_flags p AND 0x01 = 0 \<and> length (c5_keep_alive_buf p) = 2 \<and>
     props_ok Loc_connect (c5_property_length p) (c5_property_length_buf p) (c5_props p) \<and>
     str_ok (c5_client_id_length_buf p) (c5_client_id p) \<and> utf8string_check (c5_client_id p) \<and>
     v5_will_ok (c5_connect_flags p) (c5_will_property_length p) (c5_will_property_length_buf p) (c5_will_props p)
       (c5_will_topic_length_buf p) (c5_will_topic p) (c5_will_message_length_buf p) (c5_will_message p) \<and>
     user_name_ok (c5_connect_flags p) (c5_user_name_length_buf p) (c5_user_name p) \<and>
     password_ok (c5_connect_flags p) (c5_password_length_buf p) (c5_password p)"

lemma v5_connect_bytes:
  assumes "v5_connect_ok p"
  shows "concat (v5_connect_const_buffer_sequence p) =
    c5_fixed_header p # c5_remaining_length_buf p @ protocol_name_and_level 5 @ c5_connect_flags p #
    c5_keep_alive_buf p @ c5_property_length_buf p @ properties_bytes (c5_props p) @
    c5_client_id_length_buf p @ c5_client_id p @
    c5_will_property_length_buf p @ properties_bytes (c5_will_props p) @
    c5_will_topic_length_buf p @ c5_will_topic p @ c5_will_message_length_buf p @ c5_will_message p @
    c5_user_name_length_buf p @ c5_user_name p @ c5_password_length_buf p @ c5_password p"
  using assms
  by (simp add: v5_connect_const_buffer_sequence_def v5_connect_ok_def v5_will_ok_def will_ok_def user_name_ok_def
      password_ok_def properties_bytes_concat)

interpretation v5_connect: packet_codec parse_v5_connect v5_connect_const_buffer_sequence v5_connect_size v5_connect_ok "\<lambda>p. p"
proof
  fix p assume ok: "v5_connect_ok p"
  note bytes = v5_connect_bytes [OF ok]
  have l: "length (c5_client_id_length_buf p) = 2" "length (protocol_name_and_level 5) = 7"
    "length (properties_bytes (c5_props p)) = c5_property_length p"
    "length (properties_bytes (c5_will_props p)) = c5_will_property_length p"
    using ok props_ok_length [of Loc_connect "c5_property_length p"] props_ok_length [of Loc_will "c5_will_property_length p"]
    by (auto simp: v5_connect_ok_def str_ok_def protocol_name_and_level_def v5_will_ok_def split: if_splits)
  from ok show "v5_connect_size p = length (concat (v5_connect_const_buffer_sequence p))"
    unfolding bytes by (simp add: v5_connect_size_def v5_connect_ok_def header_ok_def l)
  let ?body = "protocol_name_and_level 5 @ c5_connect_flags p #
    c5_keep_alive_buf p @ c5_property_length_buf p @ properties_bytes (c5_props p) @
    c5_client_id_length_buf p @ c5_client_id p @
    c5_will_property_length_buf p @ properties_bytes (c5_will_props p) @
    c5_will_topic_length_buf p @ c5_will_topic p @ c5_will_message_length_buf p @ c5_will_message p @
    c5_user_name_length_buf p @ c5_user_name p @ c5_password_length_buf p @ c5_password p"
  from ok have h: "header_ok Cpt_connect (c5_fixed_header p) (c5_remaining_length p) (c5_remaining_length_buf p) (length ?body)"
    by (simp add: v5_connect_ok_def header_ok_def l)
  from ok have pr: "props_ok Loc_connect (c5_property_length p) (c5_property_length_buf p) (c5_props p)"
    and wl: "v5_will_ok (c5_connect_flags p) (c5_will_property_length p) (c5_will_property_length_buf p) (c5_will_props p)
       (c5_will_topic_length_buf p) (c5_will_topic p) (c5_will_message_length_buf p) (c5_will_message p)"
    by (simp_all add: v5_connect_ok_def)
  from ok show "parse_v5_connect (concat (v5_connect_const_buffer_sequence p)) = Inr p"
    unfolding bytes parse_v5_connect_def Let_def
    by (simp add: v5_connect_ok_def codec_simps read_header [OF h] l read_props_ok [OF pr] read_v5_will_ok [OF wl])
qed simp

text \<open>What a successful constructor call leaves in the members.\<close>

lemma make_v5_connectE:
  assumes "make_v5_connect c ka ci wo uo po props = Inr p"
  shows "c5_fixed_header p = make_fixed_header Cpt_connect 0"
    and "c5_connect_flags p = make_connect_flags c wo uo po"
    and "c5_protocol_name_and_level p = protocol_name_and_level 5"
    and "c5_client_id p = ci" "str_ok (c5_client_id_length_buf p) ci" "utf8string_check ci"
    and "make_opt_string utf8string_check uo = Inr (c5_user_name_length_buf p, c5_user_name p)"
    and "make_opt_string (\<lambda>_. True) po = Inr (c5_password_length_buf p, c5_password p)"
    and "make_will_strings wo =
      Inr ((c5_will_topic_length_buf p, c5_will_topic p), (c5_will_message_length_buf p, c5_will_message p))"
    and "c5_keep_alive_buf p = endian_store 2 ka"
    and "make_props connect_malformed_packet Loc_connect props = Inr (c5_property_length p, c5_property_length_buf p)"
    and "c5_props p = props"
    and "make_will_props wo = Inr (c5_will_property_length p, c5_will_property_length_buf p, c5_will_props p)"
    and "c5_remaining_length p = 12 + length ci
        + (if uo \<noteq> None then 2 + length (c5_user_name p) else 0)
        + (if po \<noteq> None then 2 + length (c5_password p) else 0)
        + (length (c5_property_length_buf p) + c5_property_length p)
        + (if wo \<noteq> None then length (c5_will_property_length_buf p) + c5_will_property_length p
             + 2 + length (c5_will_topic p) + 2 + length (c5_will_message p) else 0)"
    and "c5_remaining_length_buf p = val_to_variable_bytes (c5_remaining_length p)"
  using assms unfolding make_v5_connect_def Let_def
  by (auto simp: bindE_eq_Inr str_ok_def)

lemma make_will_propsE:
  assumes "make_will_props wo = Inr (pl, plb, ps)"
  shows "(wo = None \<and> pl = 0 \<and> plb = [] \<and> ps = []) \<or>
    (\<exists>w. wo = Some w \<and> ps = will_props w \<and> make_props connect_malformed_packet Loc_will ps = Inr (pl, plb))"
  using assms by (auto simp: make_will_props_def bindE_eq_Inr split: option.splits)

lemma make_v5_connect_ok:
  assumes m: "make_v5_connect c ka ci wo uo po props = Inr p"
    and w: "\<And>w. wo = Some w \<Longrightarrow> will_get_qos w \<noteq> 3 \<and> list_all property_ok (will_props w)"
    and pr: "list_all property_ok props" and rl: "c5_remaining_length p \<le> 0xfffffff"
  shows "v5_connect_ok p"
proof -
  note e = make_v5_connectE [OF m]
  have f: "flags_encode (c5_connect_flags p) c wo uo po" unfolding e(2) by (rule make_connect_flags_encode)
  have u: "user_name_ok (c5_connect_flags p) (c5_user_name_length_buf p) (c5_user_name p)"
    using make_opt_stringE [OF e(7)] f by (auto simp: user_name_ok_def flags_encode_def)
  have pw: "password_ok (c5_connect_flags p) (c5_password_length_buf p) (c5_password p)"
    using make_opt_stringE [OF e(8)] f by (auto simp: password_ok_def flags_encode_def)
  have ps: "props_ok Loc_connect (c5_property_length p) (c5_property_length_buf p) (c5_props p)"
    using make_props_ok [OF e(11) pr] rl unfolding e(12) e(14) by linarith
  have wl: "v5_will_ok (c5_connect_flags p) (c5_will_property_length p) (c5_will_property_length_buf p) (c5_will_props p)
      (c5_will_topic_length_buf p) (c5_will_topic p) (c5_will_message_length_buf p) (c5_will_message p)"
  proof (cases wo)
    case None
    with make_will_stringsE [OF e(9)] make_will_propsE [OF e(13)] f show ?thesis
      by (simp add: v5_will_ok_def will_ok_def flags_encode_def retain_no_def retain_yes_def)
  next
    case (Some w1)
    with make_will_propsE [OF e(13)] have "make_props connect_malformed_packet Loc_will (c5_will_props p) =
        Inr (c5_will_property_length p, c5_will_property_length_buf p)" "c5_will_props p = will_props w1" by auto
    then have "props_ok Loc_will (c5_will_property_length p) (c5_will_property_length_buf p) (c5_will_props p)"
      using Some w rl unfolding e(14) by (intro make_props_ok) auto
    with Some w opts_get_qos_cases [of "will_pubopts w1"] make_will_stringsE [OF e(9)] f show ?thesis
      by (auto simp: v5_will_ok_def will_ok_def flags_encode_def will_get_qos_def qos_defs)
  qed
  have h: "get_control_packet_type_with_check (c5_fixed_header p) = Some Cpt_connect"
    using make_fixed_header_check [of Cpt_connect] e(1) by simp
  have l: "length (c5_user_name_length_buf p) = (if uo \<noteq> None then 2 else 0)"
    "length (c5_password_length_buf p) = (if po \<noteq> None then 2 else 0)"
    "length (c5_will_topic_length_buf p) = (if wo \<noteq> None then 2 else 0)"
    "length (c5_will_message_length_buf p) = (if wo \<noteq> None then 2 else 0)"
    using make_opt_stringE [OF e(7)] make_opt_stringE [OF e(8)] make_will_stringsE [OF e(9)] str_ok_length by auto
  have z: "uo = None \<Longrightarrow> c5_user_name p = []" "po = None \<Longrightarrow> c5_password p = []"
    "wo = None \<Longrightarrow> c5_will_topic p = [] \<and> c5_will_message p = [] \<and> c5_will_property_length p = 0 \<and>
       c5_will_property_length_buf p = []"
    using make_opt_stringE [OF e(7)] make_opt_stringE [OF e(8)] make_will_stringsE [OF e(9)] make_will_propsE [OF e(13)]
    by auto
  have "c5_connect_flags p AND 0x01 = 0" using f by (simp add: flags_encode_def)
  with u pw ps wl h rl e(3-6,10,14,15) show ?thesis
    unfolding v5_connect_ok_def header_ok_def by (simp add: l z)
qed

subsection \<open>CONNACK\<close>

definition v5_connack_ok :: "v5_connack \<Rightarrow> bool" where
  "v5_connack_ok p \<longleftrightarrow>
     header_ok Cpt_connack (ca5_fixed_header p) (ca5_remaining_length p) (ca5_remaining_length_buf p)
       (2 + (length (ca5_property_length_buf p) + ca5_property_length p)) \<and>
     ca5_connect_acknowledge_flags p AND 0xFE = 0 \<and> enumerated connect_reason_code_enum (ca5_reason_code p) \<and>
     props_ok Loc_connack (ca5_property_length p) (ca5_property_length_buf p) (ca5_props p)"

lemma v5_connack_bytes:
  "concat (v5_connack_const_buffer_sequence p) =
    ca5_fixed_header p # ca5_remaining_length_buf p @ ca5_connect_acknowledge_flags p # ca5_reason_code p #
    ca5_property_length_buf p @ properties_bytes (ca5_props p)"
  by (simp add: v5_connack_const_buffer_sequence_def properties_bytes_concat)

interpretation v5_connack: packet_codec parse_v5_connack v5_connack_const_buffer_sequence v5_connack_size v5_connack_ok "\<lambda>p. p"
proof
  fix p assume ok: "v5_connack_ok p"
  then have pr: "props_ok Loc_connack (ca5_property_length p) (ca5_property_length_buf p) (ca5_props p)"
    by (simp add: v5_connack_ok_def)
  note l = props_ok_length [OF pr, symmetric]
  from ok show "v5_connack_size p = length (concat (v5_connack_const_buffer_sequence p))"
    unfolding v5_connack_bytes by (simp add: v5_connack_size_def v5_connack_ok_def header_ok_def l)
  from ok have h: "header_ok Cpt_connack (ca5_fixed_header p) (ca5_remaining_length p) (ca5_remaining_length_buf p)
      (length (ca5_connect_acknowledge_flags p # ca5_reason_code p # ca5_property_length_buf p @ properties_bytes (ca5_props p)))"
    by (simp add: v5_connack_ok_def l)
  from ok show "parse_v5_connack (concat (v5_connack_const_buffer_sequence p)) = Inr p"
    unfolding v5_connack_bytes parse_v5_connack_def
    by (simp add: read_header [OF h] read_props_ok [OF pr] read_byte_Cons v5_connack_ok_def)
qed simp

lemma make_v5_connack_ok:
  assumes "make_v5_connack sp rc props = Inr p" and "enumerated connect_reason_code_enum rc"
    and "list_all property_ok props" and "ca5_remaining_length p \<le> 0xfffffff"
  shows "v5_connack_ok p"
  using assms make_fixed_header_check [of Cpt_connack]
  by (auto simp: make_v5_connack_def bindE_eq_Inr v5_connack_ok_def header_ok_def intro: make_props_ok)

subsection \<open>Reason code and properties\<close>

lemma read_header_unchecked_ok:
  "header_ok c fh rl rlb (length body) \<Longrightarrow> read_header_unchecked (fh # rlb @ body) = Inr ((fh, rl, rlb), body)"
  by (simp add: header_ok_def read_header_unchecked_def read_byte_Cons variable_length_roundtrip)

definition reason_part_ok ::
  "property_location \<Rightarrow> enum_table \<Rightarrow> byte option \<Rightarrow> nat \<Rightarrow> bytes \<Rightarrow> properties \<Rightarrow> bool" where
  "reason_part_ok loc codes rco pl plb props \<longleftrightarrow>
     (case rco of
        None \<Rightarrow> pl = 0 \<and> plb = [] \<and> props = []
      | Some rc \<Rightarrow> enumerated codes rc \<and> (if plb = [] then pl = 0 \<and> props = [] else props_ok loc pl plb props))"

definition reason_part_bytes :: "byte option \<Rightarrow> bytes \<Rightarrow> properties \<Rightarrow> bytes" where
  "reason_part_bytes rco plb props =
     (case rco of None \<Rightarrow> [] | Some rc \<Rightarrow> rc # (if plb \<noteq> [] then plb @ properties_bytes props else []))"

lemma reason_part_buffers_bytes: "concat (reason_part_buffers rco plb props) = reason_part_bytes rco plb props"
  by (simp add: reason_part_buffers_def reason_part_bytes_def properties_bytes_concat split: option.splits)

lemma reason_part_num_length: "reason_part_num rco plb props = length (reason_part_buffers rco plb props)"
  by (simp add: reason_part_buffers_def reason_part_num_def properties_num_length split: option.splits)

lemma read_reason_part_ok:
  assumes ok: "reason_part_ok loc codes rco pl plb props" and rl: "rl = base + length (reason_part_bytes rco plb props)"
  shows "read_reason_part loc codes base (base + 1) rl (reason_part_bytes rco plb props) = Inr (rco, pl, plb, props)"
proof (cases rco)
  case None
  with ok rl show ?thesis by (simp add: reason_part_ok_def reason_part_bytes_def read_reason_part_def)
next
  case (Some rc)
  show ?thesis
  proof (cases "plb = []")
    case True
    with Some ok rl show ?thesis
      by (simp add: reason_part_ok_def reason_part_bytes_def read_reason_part_def read_byte_Cons)
  next
    case False
    with Some ok have pr: "props_ok loc pl plb props" "enumerated codes rc" by (simp_all add: reason_part_ok_def)
    from Some False have b: "reason_part_bytes rco plb props = rc # plb @ properties_bytes props"
      by (simp add: reason_part_bytes_def)
    from False have "length plb \<noteq> 0" by simp
    then have "rl \<noteq> base" "rl \<noteq> base + 1" using rl unfolding b by simp_all
    with Some pr show ?thesis
      unfolding b by (simp add: read_reason_part_def read_byte_Cons read_props_ok [OF pr(1)])
  qed
qed

lemma make_reason_part_ok:
  assumes m: "make_reason_part loc base rco props = Inr (rl, pl, plb)"
    and "rco = None \<Longrightarrow> props = []" and "\<And>rc. rco = Some rc \<Longrightarrow> enumerated codes rc"
    and "list_all property_ok props" and rl: "rl \<le> 0xfffffff"
  shows "reason_part_ok loc codes rco pl plb props" and "rl = base + length (reason_part_bytes rco plb props)"
proof -
  have z: "properties_size [] = 0" by (simp add: properties_size_def)
  have nz: "props = []" if "properties_size props = 0" using that
    by (cases props) (auto simp: properties_size_bytes)
  show "reason_part_ok loc codes rco pl plb props"
  proof (cases "rco = None \<or> properties_size props = 0")
    case True
    with m assms(2,3) z nz show ?thesis by (auto simp: make_reason_part_def Let_def reason_part_ok_def split: option.splits)
  next
    case False
    then obtain rc where rc: "rco = Some rc" "properties_size props \<noteq> 0" by auto
    with m have mp: "make_props malformed_packet loc props = Inr (pl, plb)" "rl = base + 1 + (length plb + pl)"
      by (auto simp: make_reason_part_def Let_def bindE_eq_Inr)
    with rl have "props_ok loc pl plb props" by (intro make_props_ok assms) simp_all
    with rc assms(3) variable_bytes_not_empty [of pl] show ?thesis by (simp add: reason_part_ok_def props_ok_def)
  qed
  then have pl: "plb \<noteq> [] \<Longrightarrow> pl = length (properties_bytes props)"
    using props_ok_length by (auto simp: reason_part_ok_def split: option.splits if_splits)
  from m show "rl = base + length (reason_part_bytes rco plb props)"
    using pl rl variable_bytes_not_empty [of "length (properties_bytes props)"]
    by (cases rco)
       (auto simp: make_reason_part_def Let_def bindE_eq_Inr reason_part_bytes_def make_props_def properties_size_bytes
          split: if_splits)
qed

subsection \<open>PUBACK, PUBREC, PUBREL, PUBCOMP\<close>

definition v5_ack_ok :: "control_packet_type \<Rightarrow> property_location \<Rightarrow> enum_table \<Rightarrow> nat \<Rightarrow> v5_ack \<Rightarrow> bool" where
  "v5_ack_ok c loc codes n p \<longleftrightarrow>
     header_ok c (a5_fixed_header p) (a5_remaining_length p) (a5_remaining_length_buf p)
       (n + length (reason_part_bytes (a5_reason_code p) (a5_property_length_buf p) (a5_props p))) \<and>
     length (a5_packet_id p) = n \<and>
     reason_part_ok loc codes (a5_reason_code p) (a5_property_length p) (a5_property_length_buf p) (a5_props p)"

lemma v5_ack_bytes:
  "concat (v5_ack_const_buffer_sequence p) =
    a5_fixed_header p # a5_remaining_length_buf p @ a5_packet_id p @
    reason_part_bytes (a5_reason_code p) (a5_property_length_buf p) (a5_props p)"
  by (simp add: v5_ack_const_buffer_sequence_def reason_part_buffers_bytes)

text \<open>With the two-byte packet identifier of MQTT.\<close>

interpretation v5_ack: packet_codec "parse_v5_ack loc codes 2" v5_ack_const_buffer_sequence v5_ack_size
  "v5_ack_ok c loc codes 2" "\<lambda>p. p" for c loc codes
proof
  fix p assume ok: "v5_ack_ok c loc codes 2 p"
  define R where "R = reason_part_bytes (a5_reason_code p) (a5_property_length_buf p) (a5_props p)"
  from ok show "v5_ack_size p = length (concat (v5_ack_const_buffer_sequence p))"
    unfolding v5_ack_bytes by (simp add: v5_ack_size_def v5_ack_ok_def header_ok_def)
  from ok have h: "header_ok c (a5_fixed_header p) (a5_remaining_length p) (a5_remaining_length_buf p)
      (length (a5_packet_id p @ R))"
    by (simp add: v5_ack_ok_def R_def)
  from ok have "read_reason_part loc codes 2 (2 + 1) (a5_remaining_length p) R =
      Inr (a5_reason_code p, a5_property_length p, a5_property_length_buf p, a5_props p)"
    unfolding R_def by (intro read_reason_part_ok) (simp_all add: v5_ack_ok_def header_ok_def)
  with ok show "parse_v5_ack loc codes 2 (concat (v5_ack_const_buffer_sequence p)) = Inr p"
    unfolding v5_ack_bytes parse_v5_ack_def R_def [symmetric]
    by (simp add: read_header_unchecked_ok [OF h] read_bytes_exact v5_ack_ok_def)
qed simp

lemma make_v5_ackE:
  assumes "make_v5_ack c flags loc n pid rco props = Inr p"
  shows "a5_fixed_header p = make_fixed_header c flags" and "a5_packet_id p = endian_store n pid"
    and "a5_reason_code p = rco" and "a5_props p = props"
    and "a5_remaining_length_buf p = val_to_variable_bytes (a5_remaining_length p)"
    and "make_reason_part loc n rco props = Inr (a5_remaining_length p, a5_property_length p, a5_property_length_buf p)"
  using assms by (auto simp: make_v5_ack_def bindE_eq_Inr)

lemma make_v5_ack_ok:
  assumes m: "make_v5_ack c flags loc n pid rco props = Inr p" and "flags = control_packet_reserved_bits c"
    and r: "rco = None \<Longrightarrow> props = []" "\<And>rc. rco = Some rc \<Longrightarrow> enumerated codes rc" "list_all property_ok props"
    and rl: "a5_remaining_length p \<le> 0xfffffff"
  shows "v5_ack_ok c loc codes n p" and "pid < 256 ^ n \<Longrightarrow> v5_ack_packet_id p = pid"
proof -
  note e = make_v5_ackE [OF m]
  note k = make_reason_part_ok [OF e(6) r rl]
  show "v5_ack_ok c loc codes n p"
    using k rl make_fixed_header_check [of c] assms(2) by (simp add: v5_ack_ok_def header_ok_def e)
  show "pid < 256 ^ n \<Longrightarrow> v5_ack_packet_id p = pid" by (simp add: v5_ack_packet_id_def e)
qed

subsection \<open>DISCONNECT and AUTH\<close>

definition v5_reason_ok :: "control_packet_type \<Rightarrow> property_location \<Rightarrow> enum_table \<Rightarrow> v5_reason \<Rightarrow> bool" where
  "v5_reason_ok c loc codes p \<longleftrightarrow>
     header_ok c (r5_fixed_header p) (r5_remaining_length p) (r5_remaining_length_buf p)
       (length (reason_part_bytes (r5_reason_code p) (r5_property_length_buf p) (r5_props p))) \<and>
     reason_part_ok loc codes (r5_reason_code p) (r5_property_length p) (r5_property_length_buf p) (r5_props p)"

lemma v5_reason_bytes:
  "concat (v5_reason_const_buffer_sequence p) =
    r5_fixed_header p # r5_remaining_length_buf p @
    reason_part_bytes (r5_reason_code p) (r5_property_length_buf p) (r5_props p)"
  by (simp add: v5_reason_const_buffer_sequence_def reason_part_buffers_bytes)

interpretation v5_reason: packet_codec "parse_v5_reason loc codes" v5_reason_const_buffer_sequence v5_reason_size
  "v5_reason_ok c loc codes" "\<lambda>p. p" for c loc codes
proof
  fix p assume ok: "v5_reason_ok c loc codes p"
  define R where "R = reason_part_bytes (r5_reason_code p) (r5_property_length_buf p) (r5_props p)"
  from ok show "v5_reason_size p = length (concat (v5_reason_const_buffer_sequence p))"
    unfolding v5_reason_bytes by (simp add: v5_reason_size_def v5_reason_ok_def header_ok_def)
  from ok have h: "header_ok c (r5_fixed_header p) (r5_remaining_length p) (r5_remaining_length_buf p) (length R)"
    by (simp add: v5_reason_ok_def R_def)
  from ok have "read_reason_part loc codes 0 (0 + 1) (r5_remaining_length p) R =
      Inr (r5_reason_code p, r5_property_length p, r5_property_length_buf p, r5_props p)"
    unfolding R_def by (intro read_reason_part_ok) (simp_all add: v5_reason_ok_def header_ok_def)
  then show "parse_v5_reason loc codes (concat (v5_reason_const_buffer_sequence p)) = Inr p"
    unfolding v5_reason_bytes parse_v5_reason_def R_def [symmetric]
    by (simp add: read_header_unchecked_ok [OF h])
qed simp

lemma make_v5_reason_ok:
  assumes m: "make_v5_reason c loc rco props = Inr p" and "control_packet_reserved_bits c = 0"
    and r: "rco = None \<Longrightarrow> props = []" "\<And>rc. rco = Some rc \<Longrightarrow> enumerated codes rc" "list_all property_ok props"
    and rl: "r5_remaining_length p \<le> 0xfffffff"
  shows "v5_reason_ok c loc codes p"
proof -
  have e: "r5_fixed_header p = make_fixed_header c 0" "r5_reason_code p = rco" "r5_props p = props"
    "r5_remaining_length_buf p = val_to_variable_bytes (r5_remaining_length p)"
    "make_reason_part loc 0 rco props = Inr (r5_remaining_length p, r5_property_length p, r5_property_length_buf p)"
    using m by (auto simp: make_v5_reason_def bindE_eq_Inr)
  note k = make_reason_part_ok [OF e(5) r rl]
  show ?thesis
    using k rl make_fixed_header_check [of c] assms(2) by (simp add: v5_reason_ok_def header_ok_def e)
qed

subsection \<open>PUBLISH\<close>

definition v5_publish_ok :: "nat \<Rightarrow> v5_publish \<Rightarrow> bool" where
  "v5_publish_ok n p \<longleftrightarrow>
     header_ok Cpt_publish (p5_fixed_header p) (p5_remaining_length p) (p5_remaining_length_buf p)
       (2 + length (p5_topic_name p) + (if v5_publish_packet_id p \<noteq> 0 then n else 0)
        + (length (p5_property_length_buf p) + p5_property_length p) + length (concat (p5_payloads p))) \<and>
     str_ok (p5_topic_name_length_buf p) (p5_topic_name p) \<and> utf8string_check (p5_topic_name p) \<and>
     length (p5_packet_id p) = n \<and>
     (if pub_get_qos (p5_fixed_header p) = at_most_once then v5_publish_packet_id p = 0
      else qos_with_id (pub_get_qos (p5_fixed_header p)) \<and> v5_publish_packet_id p \<noteq> 0) \<and>
     props_ok Loc_publish (p5_property_length p) (p5_property_length_buf p) (p5_props p)"

definition v5_publish_received :: "v5_publish \<Rightarrow> v5_publish" where
  "v5_publish_received p = p\<lparr>p5_payloads := (if concat (p5_payloads p) \<noteq> [] then [concat (p5_payloads p)] else [])\<rparr>"

lemma v5_publish_bytes:
  "concat (v5_publish_const_buffer_sequence p) =
    p5_fixed_header p # p5_remaining_length_buf p @ p5_topic_name_length_buf p @ p5_topic_name p @
    (if v5_publish_packet_id p \<noteq> 0 then p5_packet_id p else []) @
    p5_property_length_buf p @ properties_bytes (p5_props p) @ concat (p5_payloads p)"
  by (simp add: v5_publish_const_buffer_sequence_def properties_bytes_concat)

interpretation v5_publish: packet_codec "parse_v5_publish n" v5_publish_const_buffer_sequence v5_publish_size
  "v5_publish_ok n" v5_publish_received for n
proof
  fix p assume ok: "v5_publish_ok n p"
  have l: "length (p5_topic_name_length_buf p) = 2" using ok by (auto simp: v5_publish_ok_def str_ok_def)
  from ok have pr: "props_ok Loc_publish (p5_property_length p) (p5_property_length_buf p) (p5_props p)"
    by (simp add: v5_publish_ok_def)
  note pl = props_ok_length [OF pr, symmetric]
  from ok show "v5_publish_size p = length (concat (v5_publish_const_buffer_sequence p))"
    unfolding v5_publish_bytes by (simp add: v5_publish_size_def v5_publish_ok_def header_ok_def l pl)
  define I where "I = (if v5_publish_packet_id p \<noteq> 0 then p5_packet_id p else [])"
  let ?rest = "p5_property_length_buf p @ properties_bytes (p5_props p) @ concat (p5_payloads p)"
  let ?body = "p5_topic_name_length_buf p @ p5_topic_name p @ I @ ?rest"
  from ok have h: "header_ok Cpt_publish (p5_fixed_header p) (p5_remaining_length p) (p5_remaining_length_buf p) (length ?body)"
    by (simp add: I_def v5_publish_ok_def l pl add.assoc split: if_splits)
  have i: "read_publish_packet_id n (pub_get_qos (p5_fixed_header p)) (I @ ?rest) = Inr (p5_packet_id p, ?rest)"
    using ok unfolding I_def v5_publish_packet_id_def v5_publish_ok_def by (intro read_publish_packet_id_ok) simp_all
  from ok have t: "read_utf8 malformed ?body = Inr (p5_topic_name_length_buf p, p5_topic_name p, I @ ?rest)"
    by (intro read_str_ok) (simp_all add: v5_publish_ok_def)
  show "parse_v5_publish n (concat (v5_publish_const_buffer_sequence p)) = Inr (v5_publish_received p)"
    unfolding v5_publish_bytes parse_v5_publish_def I_def [symmetric]
    by (simp add: read_header_unchecked_ok [OF h] t i read_props_ok [OF pr] v5_publish_received_def)
  show "concat (v5_publish_const_buffer_sequence (v5_publish_received p)) = concat (v5_publish_const_buffer_sequence p)"
    by (simp add: v5_publish_bytes v5_publish_received_def v5_publish_packet_id_def)
qed

lemma make_v5_publishE:
  assumes "make_v5_publish n pid topic payloads opts props = Inr p"
  shows "p5_fixed_header p = make_fixed_header Cpt_publish 0 OR opts" and "p5_topic_name p = topic"
    and "p5_topic_name_length_buf p = endian_store 2 (length topic)" and "p5_payloads p = payloads" and "p5_props p = props"
    and "length topic \<le> 0xffff" "utf8string_check topic"
    and "v5_publish_packet_id_buf n pid (opts_get_qos opts) = Inr (p5_packet_id p)"
    and "make_props malformed_packet Loc_publish props = Inr (p5_property_length p, p5_property_length_buf p)"
    and "p5_remaining_length p = 2 + length topic + (if qos_with_id (opts_get_qos opts) then n else 0)
       + length (concat payloads) + (length (p5_property_length_buf p) + p5_property_length p)"
    and "p5_remaining_length_buf p = val_to_variable_bytes (p5_remaining_length p)"
  using assms by (auto simp: make_v5_publish_def Let_def bindE_eq_Inr foldl_add_length length_concat)

lemma v5_publish_packet_id_bufE:
  assumes "v5_publish_packet_id_buf n pid q = Inr b" and "pid < 256 ^ n"
  shows "length b = n" and "endian_load b = pid" and "qos_with_id q \<longleftrightarrow> pid \<noteq> 0"
  using assms by (auto simp: v5_publish_packet_id_buf_def bindE_eq_Inr split: if_splits)

lemma make_v5_publish_ok:
  assumes m: "make_v5_publish n pid topic payloads opts props = Inr p" and n: "pid < 256 ^ n"
    and o1: "opts AND 0xF0 = 0" "opts_get_qos opts \<noteq> 3" and pr: "list_all property_ok props"
    and rl: "p5_remaining_length p \<le> 0xfffffff"
  shows "v5_publish_ok n p" and "v5_publish_packet_id p = pid"
proof -
  note e = make_v5_publishE [OF m]
  note i = v5_publish_packet_id_bufE [OF e(8) n]
  have q: "if opts_get_qos opts = at_most_once then pid = 0 else qos_with_id (opts_get_qos opts) \<and> pid \<noteq> 0"
    using i(3) o1(2) opts_get_qos_cases [of opts] by (auto simp: qos_with_id_def qos_defs)
  show id: "v5_publish_packet_id p = pid" by (simp add: v5_publish_packet_id_def i)
  have "props_ok Loc_publish (p5_property_length p) (p5_property_length_buf p) (p5_props p)"
    using make_props_ok [OF e(9) pr] rl unfolding e(5) e(10) by linarith
  with rl q i(1,3) e(6,7) show "v5_publish_ok n p"
    unfolding v5_publish_ok_def id
    by (simp add: e header_ok_def publish_header_qos [OF o1(1)] str_ok_def split: if_splits)
qed

subsubsection \<open>Topic and topic alias\<close>

text \<open>Well-formedness without the bounds of the encoded lengths.\<close>

lemma topic_alias_property [simp]:
  "property_ok (topic_alias a)" "prop_id (topic_alias a) = Id_topic_alias" "property_size (topic_alias a) = 3"
  by (simp_all add: topic_alias_def)

lemma properties_size_simps [simp]:
  "properties_size (ps @ qs) = properties_size ps + properties_size qs"
  "properties_size [p] = property_size p" "properties_size [] = 0"
  by (simp_all add: properties_size_def foldl_plus_sum_list)

lemma properties_size_filter:
  "properties_size ps = properties_size (filter P ps) + sum_list (map property_size (filter (\<lambda>p. \<not> P p) ps))"
  by (induction ps) (simp_all add: properties_size_def foldl_plus_sum_list)

lemma properties_ok_simps [simp]:
  "properties_ok loc (ps @ qs) \<longleftrightarrow> properties_ok loc ps \<and> properties_ok loc qs"
  "properties_ok loc [p] \<longleftrightarrow> property_ok p \<and> validate_property loc (prop_id p)"
  "properties_ok loc ps \<Longrightarrow> properties_ok loc (filter P ps)"
  by (auto simp: properties_ok_def)

lemmas alias_op_defs = remove_topic_add_topic_alias_def add_topic_alias_def add_topic_def remove_topic_alias_def
  remove_topic_alias_add_topic_def update_remaining_length_buf_def update_property_length_buf_def
  remove_topic_alias_impl_def add_topic_impl_def Let_def

definition v5_publish_ok_unbounded :: "nat \<Rightarrow> v5_publish \<Rightarrow> bool" where
  "v5_publish_ok_unbounded n p \<longleftrightarrow>
     get_control_packet_type_with_check (p5_fixed_header p) = Some Cpt_publish \<and>
     p5_remaining_length p = 2 + length (p5_topic_name p) + (if v5_publish_packet_id p \<noteq> 0 then n else 0)
        + (length (p5_property_length_buf p) + p5_property_length p) + length (concat (p5_payloads p)) \<and>
     p5_remaining_length_buf p = val_to_variable_bytes (p5_remaining_length p) \<and>
     str_ok (p5_topic_name_length_buf p) (p5_topic_name p) \<and> utf8string_check (p5_topic_name p) \<and>
     length (p5_packet_id p) = n \<and>
     (if pub_get_qos (p5_fixed_header p) = at_most_once then v5_publish_packet_id p = 0
      else qos_with_id (pub_get_qos (p5_fixed_header p)) \<and> v5_publish_packet_id p \<noteq> 0) \<and>
     properties_ok Loc_publish (p5_props p) \<and> p5_property_length p = properties_size (p5_props p) \<and>
     p5_property_length_buf p = val_to_variable_bytes (p5_property_length p)"

lemma v5_publish_ok_bounded:
  "v5_publish_ok n p \<longleftrightarrow> v5_publish_ok_unbounded n p \<and> p5_remaining_length p \<le> 0xfffffff"
  unfolding v5_publish_ok_def v5_publish_ok_unbounded_def header_ok_def props_ok_def by auto

lemma topic_ops_ok:
  assumes ok: "v5_publish_ok_unbounded n p"
  shows "v5_publish_ok_unbounded n (remove_topic_add_topic_alias a p)"
    and "v5_publish_ok_unbounded n (add_topic_alias a p)"
    and "v5_publish_ok_unbounded n (remove_topic_alias p)"
    and "p5_topic_name p = [] \<Longrightarrow> length t \<le> 0xffff \<Longrightarrow> utf8string_check t \<Longrightarrow> v5_publish_ok_unbounded n (add_topic t p)"
    and "p5_topic_name p = [] \<Longrightarrow> length t \<le> 0xffff \<Longrightarrow> utf8string_check t \<Longrightarrow>
      v5_publish_ok_unbounded n (remove_topic_alias_add_topic t p)"
  using ok properties_size_filter [of "p5_props p" "\<lambda>pr. prop_id pr \<noteq> Id_topic_alias"]
  by (simp_all add: alias_op_defs v5_publish_ok_unbounded_def v5_publish_packet_id_def str_ok_def split: if_splits)

subsection \<open>SUBSCRIBE, SUBACK, UNSUBSCRIBE, UNSUBACK\<close>

definition v5_subscribe_ok :: "nat \<Rightarrow> v5_subscribe \<Rightarrow> bool" where
  "v5_subscribe_ok n p \<longleftrightarrow>
     header_ok Cpt_subscribe (s5_fixed_header p) (s5_remaining_length p) (s5_remaining_length_buf p)
       (n + (length (s5_property_length_buf p) + s5_property_length p) + length (concat (map entry_bytes (s5_entries p)))) \<and>
     length (s5_packet_id p) = n \<and> s5_entries p \<noteq> [] \<and> list_all (entry_ok v5_entry_check) (s5_entries p) \<and>
     s5_topic_length_buf_entries p = map (\<lambda>e. endian_store 2 (length (tso_all_topic e))) (s5_entries p) \<and>
     props_ok Loc_subscribe (s5_property_length p) (s5_property_length_buf p) (s5_props p)"

lemma v5_subscribe_bytes:
  "v5_subscribe_ok n p \<Longrightarrow> concat (v5_subscribe_const_buffer_sequence p) =
    s5_fixed_header p # s5_remaining_length_buf p @ s5_packet_id p @ s5_property_length_buf p @
    properties_bytes (s5_props p) @ concat (map entry_bytes (s5_entries p))"
  by (simp add: v5_subscribe_const_buffer_sequence_def v5_subscribe_ok_def subscribe_entries_bytes properties_bytes_concat)

interpretation v5_subscribe: packet_codec "parse_v5_subscribe n" v5_subscribe_const_buffer_sequence v5_subscribe_size
  "v5_subscribe_ok n" "\<lambda>p. p" for n
proof
  fix p assume ok: "v5_subscribe_ok n p"
  then have pr: "props_ok Loc_subscribe (s5_property_length p) (s5_property_length_buf p) (s5_props p)"
    by (simp add: v5_subscribe_ok_def)
  note l = props_ok_length [OF pr, symmetric]
  from ok show "v5_subscribe_size p = length (concat (v5_subscribe_const_buffer_sequence p))"
    unfolding v5_subscribe_bytes [OF ok] by (simp add: v5_subscribe_size_def v5_subscribe_ok_def header_ok_def l)
  define E where "E = concat (map entry_bytes (s5_entries p))"
  from ok have h: "header_ok Cpt_subscribe (s5_fixed_header p) (s5_remaining_length p) (s5_remaining_length_buf p)
      (length (s5_packet_id p @ s5_property_length_buf p @ properties_bytes (s5_props p) @ E))"
    and n: "length (s5_packet_id p) = n" "E \<noteq> []"
    unfolding E_def using entries_bytes_not_empty [of "s5_entries p"] by (simp_all add: v5_subscribe_ok_def l add.assoc)
  from ok have e: "read_subscribe_entries malformed v5_entry_check E =
      Inr (map (\<lambda>e. (endian_store 2 (length (tso_all_topic e)), e)) (s5_entries p))"
    unfolding E_def by (intro read_subscribe_entries_ok) (simp add: v5_subscribe_ok_def)
  have f: "map fst (map (\<lambda>e. (endian_store 2 (length (tso_all_topic e)), e)) (s5_entries p)) = s5_topic_length_buf_entries p"
    "map snd (map (\<lambda>e. (endian_store 2 (length (tso_all_topic e)), e)) (s5_entries p)) = s5_entries p"
    using ok by (simp_all add: v5_subscribe_ok_def comp_def)
  show "parse_v5_subscribe n (concat (v5_subscribe_const_buffer_sequence p)) = Inr p"
    unfolding v5_subscribe_bytes [OF ok] E_def [symmetric] parse_v5_subscribe_def
    by (simp add: read_header [OF h] read_bytes_exact n e f read_props_ok [OF pr] del: map_map)
qed simp

lemma v5_make_entries_check_Inr:
  "v5_make_entries_check es = Inr () \<longleftrightarrow> list_all (\<lambda>e. v5_make_entry_check e = Inr ()) es"
  by (induction es) (auto simp: v5_make_entries_check_def bindE_eq_Inr)

lemma foldl_entries:
  "foldl (\<lambda>r e. r + (2 + length (tso_all_topic e) + 1)) m es = m + length (concat (map entry_bytes es))"
  by (induction es arbitrary: m) (simp_all add: entry_bytes_def)

lemma foldl_topics:
  "foldl (\<lambda>r e. r + (2 + length (ts_all_topic e))) m ts = m + length (concat (map topic_bytes ts))"
  by (induction ts arbitrary: m) (simp_all add: topic_bytes_def)

lemma make_v5_subscribe_ok:
  assumes m: "make_v5_subscribe n pid es props = Inr p" and "\<forall>e \<in> set es. \<exists>t o1. e = topic_subopts_of t o1"
    and "es \<noteq> []" and pr: "list_all property_ok props" and rl: "s5_remaining_length p \<le> 0xfffffff"
  shows "v5_subscribe_ok n p" and "s5_entries p = es" and "pid < 256 ^ n \<Longrightarrow> v5_subscribe_packet_id p = pid"
proof -
  have e: "s5_fixed_header p = make_fixed_header Cpt_subscribe 0x02" "s5_entries p = es" "s5_props p = props"
    "s5_topic_length_buf_entries p = map (\<lambda>e. endian_store 2 (length (tso_all_topic e))) es"
    "s5_packet_id p = endian_store n pid"
    "s5_remaining_length_buf p = val_to_variable_bytes (s5_remaining_length p)"
    "make_props malformed_packet Loc_subscribe props = Inr (s5_property_length p, s5_property_length_buf p)"
    "s5_remaining_length p = foldl (\<lambda>r e. r + (2 + length (tso_all_topic e) + 1))
       (n + (length (s5_property_length_buf p) + s5_property_length p)) es"
    "list_all (\<lambda>e. length (tso_all_topic e) \<le> 0xffff) es" "v5_make_entries_check es = Inr ()"
    using m by (auto simp: make_v5_subscribe_def Let_def bindE_eq_Inr)
  note len = e(8) [unfolded foldl_entries]
  have c: "e = topic_subopts_of (tso_all_topic e) (tso_opts e)" if "e \<in> set es" for e
    using assms(2) that by fastforce
  have "list_all (entry_ok v5_entry_check) es"
    using e(9,10) c unfolding v5_make_entries_check_Inr
    by (auto simp: list_all_iff entry_ok_def v5_entry_check_def v5_make_entry_check_def bindE_eq_Inr)
  moreover have "props_ok Loc_subscribe (s5_property_length p) (s5_property_length_buf p) (s5_props p)"
    using make_props_ok [OF e(7) pr] rl unfolding e(3) len by linarith
  ultimately show "v5_subscribe_ok n p"
    using rl assms(3) make_fixed_header_check [of Cpt_subscribe] unfolding v5_subscribe_ok_def header_ok_def
    by (simp add: e(1-6) len)
  show "s5_entries p = es" "pid < 256 ^ n \<Longrightarrow> v5_subscribe_packet_id p = pid"
    by (simp_all add: e v5_subscribe_packet_id_def)
qed

definition v5_suback_ok :: "control_packet_type \<Rightarrow> property_location \<Rightarrow> enum_table \<Rightarrow> nat \<Rightarrow> v5_suback \<Rightarrow> bool" where
  "v5_suback_ok c loc codes n p \<longleftrightarrow>
     header_ok c (sa5_fixed_header p) (sa5_remaining_length p) (sa5_remaining_length_buf p)
       (n + length (sa5_entries p) + (length (sa5_property_length_buf p) + sa5_property_length p)) \<and>
     length (sa5_packet_id p) = n \<and> sa5_entries p \<noteq> [] \<and> list_all (enumerated codes) (sa5_entries p) \<and>
     props_ok loc (sa5_property_length p) (sa5_property_length_buf p) (sa5_props p)"

lemma v5_suback_bytes:
  "concat (v5_suback_const_buffer_sequence p) =
    sa5_fixed_header p # sa5_remaining_length_buf p @ sa5_packet_id p @ sa5_property_length_buf p @
    properties_bytes (sa5_props p) @ sa5_entries p"
  by (simp add: v5_suback_const_buffer_sequence_def properties_bytes_concat)

interpretation v5_suback: packet_codec "parse_v5_suback_gen c loc codes n" v5_suback_const_buffer_sequence v5_suback_size
  "v5_suback_ok c loc codes n" "\<lambda>p. p" for c loc codes n
proof
  fix p assume ok: "v5_suback_ok c loc codes n p"
  then have pr: "props_ok loc (sa5_property_length p) (sa5_property_length_buf p) (sa5_props p)"
    by (simp add: v5_suback_ok_def)
  note l = props_ok_length [OF pr, symmetric]
  from ok show "v5_suback_size p = length (concat (v5_suback_const_buffer_sequence p))"
    unfolding v5_suback_bytes by (simp add: v5_suback_size_def v5_suback_ok_def header_ok_def l)
  from ok have h: "header_ok c (sa5_fixed_header p) (sa5_remaining_length p) (sa5_remaining_length_buf p)
      (length (sa5_packet_id p @ sa5_property_length_buf p @ properties_bytes (sa5_props p) @ sa5_entries p))"
    by (simp add: v5_suback_ok_def l add.assoc add.left_commute add.commute)
  from ok show "parse_v5_suback_gen c loc codes n (concat (v5_suback_const_buffer_sequence p)) = Inr p"
    unfolding v5_suback_bytes parse_v5_suback_gen_def
    by (simp add: read_header [OF h] read_bytes_exact read_props_ok [OF pr] v5_suback_ok_def)
qed simp

lemma make_v5_suback_ok:
  assumes m: "make_v5_suback_gen c loc n pid rcs props = Inr p" and "control_packet_reserved_bits c = 0"
    and "rcs \<noteq> []" and "list_all (enumerated codes) rcs" and "list_all property_ok props"
    and rl: "sa5_remaining_length p \<le> 0xfffffff"
  shows "v5_suback_ok c loc codes n p"
  using assms make_fixed_header_check [of c]
  by (auto simp: make_v5_suback_gen_def Let_def bindE_eq_Inr v5_suback_ok_def header_ok_def intro: make_props_ok)

definition v5_unsubscribe_ok :: "nat \<Rightarrow> v5_unsubscribe \<Rightarrow> bool" where
  "v5_unsubscribe_ok n p \<longleftrightarrow>
     header_ok Cpt_unsubscribe (u5_fixed_header p) (u5_remaining_length p) (u5_remaining_length_buf p)
       (n + (length (u5_property_length_buf p) + u5_property_length p) + length (concat (map topic_bytes (u5_entries p)))) \<and>
     length (u5_packet_id p) = n \<and> u5_entries p \<noteq> [] \<and> list_all topic_ok (u5_entries p) \<and>
     u5_topic_length_buf_entries p = map (\<lambda>e. endian_store 2 (length (ts_all_topic e))) (u5_entries p) \<and>
     props_ok Loc_unsubscribe (u5_property_length p) (u5_property_length_buf p) (u5_props p)"

lemma v5_unsubscribe_bytes:
  "v5_unsubscribe_ok n p \<Longrightarrow> concat (v5_unsubscribe_const_buffer_sequence p) =
    u5_fixed_header p # u5_remaining_length_buf p @ u5_packet_id p @ u5_property_length_buf p @
    properties_bytes (u5_props p) @ concat (map topic_bytes (u5_entries p))"
  by (simp add: v5_unsubscribe_const_buffer_sequence_def v5_unsubscribe_ok_def unsubscribe_entries_bytes properties_bytes_concat)

interpretation v5_unsubscribe: packet_codec "parse_v5_unsubscribe n" v5_unsubscribe_const_buffer_sequence
  v5_unsubscribe_size "v5_unsubscribe_ok n" "\<lambda>p. p" for n
proof
  fix p assume ok: "v5_unsubscribe_ok n p"
  then have pr: "props_ok Loc_unsubscribe (u5_property_length p) (u5_property_length_buf p) (u5_props p)"
    by (simp add: v5_unsubscribe_ok_def)
  note l = props_ok_length [OF pr, symmetric]
  from ok show "v5_unsubscribe_size p = length (concat (v5_unsubscribe_const_buffer_sequence p))"
    unfolding v5_unsubscribe_bytes [OF ok] by (simp add: v5_unsubscribe_size_def v5_unsubscribe_ok_def header_ok_def l)
  define E where "E = concat (map topic_bytes (u5_entries p))"
  from ok have h: "header_ok Cpt_unsubscribe (u5_fixed_header p) (u5_remaining_length p) (u5_remaining_length_buf p)
      (length (u5_packet_id p @ u5_property_length_buf p @ properties_bytes (u5_props p) @ E))"
    and n: "length (u5_packet_id p) = n" "E \<noteq> []"
    unfolding E_def using topics_bytes_not_empty [of "u5_entries p"] by (simp_all add: v5_unsubscribe_ok_def l add.assoc)
  from ok have e: "read_unsubscribe_entries malformed E = Inr (map (\<lambda>t. (endian_store 2 (length (ts_all_topic t)), t)) (u5_entries p))"
    unfolding E_def by (intro read_unsubscribe_entries_ok) (simp add: v5_unsubscribe_ok_def)
  have f: "map fst (map (\<lambda>t. (endian_store 2 (length (ts_all_topic t)), t)) (u5_entries p)) = u5_topic_length_buf_entries p"
    "map snd (map (\<lambda>t. (endian_store 2 (length (ts_all_topic t)), t)) (u5_entries p)) = u5_entries p"
    using ok by (simp_all add: v5_unsubscribe_ok_def comp_def)
  show "parse_v5_unsubscribe n (concat (v5_unsubscribe_const_buffer_sequence p)) = Inr p"
    unfolding v5_unsubscribe_bytes [OF ok] E_def [symmetric] parse_v5_unsubscribe_def
    by (simp add: read_header [OF h] read_bytes_exact n e f read_props_ok [OF pr] del: map_map)
qed simp

lemma make_v5_unsubscribe_ok:
  assumes m: "make_v5_unsubscribe n pid ts props = Inr p" and "\<forall>t \<in> set ts. \<exists>a. t = topic_sharename_of a"
    and "ts \<noteq> []" and pr: "list_all property_ok props" and rl: "u5_remaining_length p \<le> 0xfffffff"
  shows "v5_unsubscribe_ok n p" and "u5_entries p = ts" and "pid < 256 ^ n \<Longrightarrow> v5_unsubscribe_packet_id p = pid"
proof -
  have e: "u5_fixed_header p = make_fixed_header Cpt_unsubscribe 0x02" "u5_entries p = ts" "u5_props p = props"
    "u5_topic_length_buf_entries p = map (\<lambda>e. endian_store 2 (length (ts_all_topic e))) ts"
    "u5_packet_id p = endian_store n pid"
    "u5_remaining_length_buf p = val_to_variable_bytes (u5_remaining_length p)"
    "make_props malformed_packet Loc_unsubscribe props = Inr (u5_property_length p, u5_property_length_buf p)"
    "u5_remaining_length p = foldl (\<lambda>r e. r + (2 + length (ts_all_topic e)))
       (n + (length (u5_property_length_buf p) + u5_property_length p)) ts"
    "list_all (\<lambda>e. length (ts_all_topic e) \<le> 0xffff) ts" "list_all (\<lambda>e. utf8string_check (ts_all_topic e)) ts"
    using m by (auto simp: make_v5_unsubscribe_def Let_def bindE_eq_Inr)
  note len = e(8) [unfolded foldl_topics]
  have "t = topic_sharename_of (ts_all_topic t)" if "t \<in> set ts" for t
    using assms(2) that by fastforce
  then have "list_all topic_ok ts" using e(9,10) by (auto simp: list_all_iff topic_ok_def)
  moreover have "props_ok Loc_unsubscribe (u5_property_length p) (u5_property_length_buf p) (u5_props p)"
    using make_props_ok [OF e(7) pr] rl unfolding e(3) len by linarith
  ultimately show "v5_unsubscribe_ok n p"
    using rl assms(3) make_fixed_header_check [of Cpt_unsubscribe] unfolding v5_unsubscribe_ok_def header_ok_def
    by (simp add: e(1-6) len)
  show "u5_entries p = ts" "pid < 256 ^ n \<Longrightarrow> v5_unsubscribe_packet_id p = pid"
    by (simp_all add: e v5_unsubscribe_packet_id_def)
qed

end
