(* ===== verification/Packet_Variant.thy ===== *)
theory Packet_Variant
  imports V5_Codec
begin

unbundle bit_operations_syntax

text \<open>
  The sum of all packet classes (\<^verbatim>\<open>packet/packet_variant.hpp\<close>), the classification of packets
  (\<^verbatim>\<open>packet/packet_traits.hpp\<close>), and the parser of a received packet
  (\<^verbatim>\<open>impl/buffer_to_packet_variant.ipp\<close>). The variant meets the contract of a packet class
  because every alternative does.
\<close>

subsection \<open>The variant\<close>

datatype packet_variant =
  is_V3_connect: V3_connect v3_connect
  | is_V3_connack: V3_connack v3_all
  | is_V3_publish: V3_publish v3_publish
  | is_V3_puback: V3_puback v3_all
  | is_V3_pubrec: V3_pubrec v3_all
  | is_V3_pubrel: V3_pubrel v3_all
  | is_V3_pubcomp: V3_pubcomp v3_all
  | is_V3_subscribe: V3_subscribe v3_subscribe
  | is_V3_suback: V3_suback v3_suback
  | is_V3_unsubscribe: V3_unsubscribe v3_unsubscribe
  | is_V3_unsuback: V3_unsuback v3_all
  | is_V3_pingreq: V3_pingreq v3_all
  | is_V3_pingresp: V3_pingresp v3_all
  | is_V3_disconnect: V3_disconnect v3_all
  | is_V5_connect: V5_connect v5_connect
  | is_V5_connack: V5_connack v5_connack
  | is_V5_publish: V5_publish v5_publish
  | is_V5_puback: V5_puback v5_ack
  | is_V5_pubrec: V5_pubrec v5_ack
  | is_V5_pubrel: V5_pubrel v5_ack
  | is_V5_pubcomp: V5_pubcomp v5_ack
  | is_V5_subscribe: V5_subscribe v5_subscribe
  | is_V5_suback: V5_suback v5_suback
  | is_V5_unsubscribe: V5_unsubscribe v5_unsubscribe
  | is_V5_unsuback: V5_unsuback v5_suback
  | is_V5_pingreq: V5_pingreq v3_all
  | is_V5_pingresp: V5_pingresp v3_all
  | is_V5_disconnect: V5_disconnect v5_reason
  | is_V5_auth: V5_auth v5_reason

fun packet_type :: "packet_variant \<Rightarrow> control_packet_type" where
  "packet_type (V3_connect p) = Cpt_connect"
| "packet_type (V3_connack p) = Cpt_connack"
| "packet_type (V3_publish p) = Cpt_publish"
| "packet_type (V3_puback p) = Cpt_puback"
| "packet_type (V3_pubrec p) = Cpt_pubrec"
| "packet_type (V3_pubrel p) = Cpt_pubrel"
| "packet_type (V3_pubcomp p) = Cpt_pubcomp"
| "packet_type (V3_subscribe p) = Cpt_subscribe"
| "packet_type (V3_suback p) = Cpt_suback"
| "packet_type (V3_unsubscribe p) = Cpt_unsubscribe"
| "packet_type (V3_unsuback p) = Cpt_unsuback"
| "packet_type (V3_pingreq p) = Cpt_pingreq"
| "packet_type (V3_pingresp p) = Cpt_pingresp"
| "packet_type (V3_disconnect p) = Cpt_disconnect"
| "packet_type (V5_connect p) = Cpt_connect"
| "packet_type (V5_connack p) = Cpt_connack"
| "packet_type (V5_publish p) = Cpt_publish"
| "packet_type (V5_puback p) = Cpt_puback"
| "packet_type (V5_pubrec p) = Cpt_pubrec"
| "packet_type (V5_pubrel p) = Cpt_pubrel"
| "packet_type (V5_pubcomp p) = Cpt_pubcomp"
| "packet_type (V5_subscribe p) = Cpt_subscribe"
| "packet_type (V5_suback p) = Cpt_suback"
| "packet_type (V5_unsubscribe p) = Cpt_unsubscribe"
| "packet_type (V5_unsuback p) = Cpt_unsuback"
| "packet_type (V5_pingreq p) = Cpt_pingreq"
| "packet_type (V5_pingresp p) = Cpt_pingresp"
| "packet_type (V5_disconnect p) = Cpt_disconnect"
| "packet_type (V5_auth p) = Cpt_auth"

fun packet_variant_size :: "packet_variant \<Rightarrow> nat" where
  "packet_variant_size (V3_connect p) = v3_connect_size p"
| "packet_variant_size (V3_connack p) = v3_all_size p"
| "packet_variant_size (V3_publish p) = v3_publish_size p"
| "packet_variant_size (V3_puback p) = v3_all_size p"
| "packet_variant_size (V3_pubrec p) = v3_all_size p"
| "packet_variant_size (V3_pubrel p) = v3_all_size p"
| "packet_variant_size (V3_pubcomp p) = v3_all_size p"
| "packet_variant_size (V3_subscribe p) = v3_subscribe_size p"
| "packet_variant_size (V3_suback p) = v3_suback_size p"
| "packet_variant_size (V3_unsubscribe p) = v3_unsubscribe_size p"
| "packet_variant_size (V3_unsuback p) = v3_all_size p"
| "packet_variant_size (V3_pingreq p) = v3_all_size p"
| "packet_variant_size (V3_pingresp p) = v3_all_size p"
| "packet_variant_size (V3_disconnect p) = v3_all_size p"
| "packet_variant_size (V5_connect p) = v5_connect_size p"
| "packet_variant_size (V5_connack p) = v5_connack_size p"
| "packet_variant_size (V5_publish p) = v5_publish_size p"
| "packet_variant_size (V5_puback p) = v5_ack_size p"
| "packet_variant_size (V5_pubrec p) = v5_ack_size p"
| "packet_variant_size (V5_pubrel p) = v5_ack_size p"
| "packet_variant_size (V5_pubcomp p) = v5_ack_size p"
| "packet_variant_size (V5_subscribe p) = v5_subscribe_size p"
| "packet_variant_size (V5_suback p) = v5_suback_size p"
| "packet_variant_size (V5_unsubscribe p) = v5_unsubscribe_size p"
| "packet_variant_size (V5_unsuback p) = v5_suback_size p"
| "packet_variant_size (V5_pingreq p) = v3_all_size p"
| "packet_variant_size (V5_pingresp p) = v3_all_size p"
| "packet_variant_size (V5_disconnect p) = v5_reason_size p"
| "packet_variant_size (V5_auth p) = v5_reason_size p"

fun packet_variant_const_buffer_sequence :: "packet_variant \<Rightarrow> bytes list" where
  "packet_variant_const_buffer_sequence (V3_connect p) = v3_connect_const_buffer_sequence p"
| "packet_variant_const_buffer_sequence (V3_connack p) = v3_all_const_buffer_sequence p"
| "packet_variant_const_buffer_sequence (V3_publish p) = v3_publish_const_buffer_sequence p"
| "packet_variant_const_buffer_sequence (V3_puback p) = v3_all_const_buffer_sequence p"
| "packet_variant_const_buffer_sequence (V3_pubrec p) = v3_all_const_buffer_sequence p"
| "packet_variant_const_buffer_sequence (V3_pubrel p) = v3_all_const_buffer_sequence p"
| "packet_variant_const_buffer_sequence (V3_pubcomp p) = v3_all_const_buffer_sequence p"
| "packet_variant_const_buffer_sequence (V3_subscribe p) = v3_subscribe_const_buffer_sequence p"
| "packet_variant_const_buffer_sequence (V3_suback p) = v3_suback_const_buffer_sequence p"
| "packet_variant_const_buffer_sequence (V3_unsubscribe p) = v3_unsubscribe_const_buffer_sequence p"
| "packet_variant_const_buffer_sequence (V3_unsuback p) = v3_all_const_buffer_sequence p"
| "packet_variant_const_buffer_sequence (V3_pingreq p) = v3_all_const_buffer_sequence p"
| "packet_variant_const_buffer_sequence (V3_pingresp p) = v3_all_const_buffer_sequence p"
| "packet_variant_const_buffer_sequence (V3_disconnect p) = v3_all_const_buffer_sequence p"
| "packet_variant_const_buffer_sequence (V5_connect p) = v5_connect_const_buffer_sequence p"
| "packet_variant_const_buffer_sequence (V5_connack p) = v5_connack_const_buffer_sequence p"
| "packet_variant_const_buffer_sequence (V5_publish p) = v5_publish_const_buffer_sequence p"
| "packet_variant_const_buffer_sequence (V5_puback p) = v5_ack_const_buffer_sequence p"
| "packet_variant_const_buffer_sequence (V5_pubrec p) = v5_ack_const_buffer_sequence p"
| "packet_variant_const_buffer_sequence (V5_pubrel p) = v5_ack_const_buffer_sequence p"
| "packet_variant_const_buffer_sequence (V5_pubcomp p) = v5_ack_const_buffer_sequence p"
| "packet_variant_const_buffer_sequence (V5_subscribe p) = v5_subscribe_const_buffer_sequence p"
| "packet_variant_const_buffer_sequence (V5_suback p) = v5_suback_const_buffer_sequence p"
| "packet_variant_const_buffer_sequence (V5_unsubscribe p) = v5_unsubscribe_const_buffer_sequence p"
| "packet_variant_const_buffer_sequence (V5_unsuback p) = v5_suback_const_buffer_sequence p"
| "packet_variant_const_buffer_sequence (V5_pingreq p) = v3_all_const_buffer_sequence p"
| "packet_variant_const_buffer_sequence (V5_pingresp p) = v3_all_const_buffer_sequence p"
| "packet_variant_const_buffer_sequence (V5_disconnect p) = v5_reason_const_buffer_sequence p"
| "packet_variant_const_buffer_sequence (V5_auth p) = v5_reason_const_buffer_sequence p"

text \<open>The index of the alternative, which the comparison of two variants looks at first.\<close>

fun variant_index :: "packet_variant \<Rightarrow> nat" where
  "variant_index (V3_connect p) = 0"
| "variant_index (V3_connack p) = 1"
| "variant_index (V3_publish p) = 2"
| "variant_index (V3_puback p) = 3"
| "variant_index (V3_pubrec p) = 4"
| "variant_index (V3_pubrel p) = 5"
| "variant_index (V3_pubcomp p) = 6"
| "variant_index (V3_subscribe p) = 7"
| "variant_index (V3_suback p) = 8"
| "variant_index (V3_unsubscribe p) = 9"
| "variant_index (V3_unsuback p) = 10"
| "variant_index (V3_pingreq p) = 11"
| "variant_index (V3_pingresp p) = 12"
| "variant_index (V3_disconnect p) = 13"
| "variant_index (V5_connect p) = 14"
| "variant_index (V5_connack p) = 15"
| "variant_index (V5_publish p) = 16"
| "variant_index (V5_puback p) = 17"
| "variant_index (V5_pubrec p) = 18"
| "variant_index (V5_pubrel p) = 19"
| "variant_index (V5_pubcomp p) = 20"
| "variant_index (V5_subscribe p) = 21"
| "variant_index (V5_suback p) = 22"
| "variant_index (V5_unsubscribe p) = 23"
| "variant_index (V5_unsuback p) = 24"
| "variant_index (V5_pingreq p) = 25"
| "variant_index (V5_pingresp p) = 26"
| "variant_index (V5_disconnect p) = 27"
| "variant_index (V5_auth p) = 28"

definition packet_variant_equal :: "packet_variant \<Rightarrow> packet_variant \<Rightarrow> bool" where
  "packet_variant_equal p q \<longleftrightarrow>
     variant_index p = variant_index q \<and>
     packet_equal (packet_variant_const_buffer_sequence p) (packet_variant_const_buffer_sequence q)"

definition packet_variant_less :: "packet_variant \<Rightarrow> packet_variant \<Rightarrow> bool" where
  "packet_variant_less p q \<longleftrightarrow>
     variant_index p < variant_index q \<or>
     variant_index p = variant_index q \<and>
     packet_less_than (packet_variant_const_buffer_sequence p) (packet_variant_const_buffer_sequence q)"

subsection \<open>Classification\<close>

text \<open>
  The traits are predicates on the type of a packet, so on the alternative of the variant. A
  \<^verbatim>\<open>basic_store_packet_variant\<close>, which the first two also admit, holds a PUBLISH or a PUBREL.
\<close>

definition is_client_sendable :: "packet_variant \<Rightarrow> bool" where
  "is_client_sendable p \<longleftrightarrow>
     is_V3_connect p \<or> is_V3_pingreq p \<or> is_V3_disconnect p \<or> is_V3_publish p \<or>
     is_V3_puback p \<or> is_V3_pubrec p \<or> is_V3_pubrel p \<or> is_V3_pubcomp p \<or>
     is_V3_subscribe p \<or> is_V3_unsubscribe p \<or> is_V5_connect p \<or> is_V5_pingreq p \<or>
     is_V5_disconnect p \<or> is_V5_publish p \<or> is_V5_puback p \<or> is_V5_pubrec p \<or>
     is_V5_pubrel p \<or> is_V5_pubcomp p \<or> is_V5_subscribe p \<or> is_V5_unsubscribe p \<or>
     is_V5_auth p"

definition is_server_sendable :: "packet_variant \<Rightarrow> bool" where
  "is_server_sendable p \<longleftrightarrow>
     is_V3_connack p \<or> is_V3_pingresp p \<or> is_V3_publish p \<or> is_V3_puback p \<or>
     is_V3_pubrec p \<or> is_V3_pubrel p \<or> is_V3_pubcomp p \<or> is_V3_suback p \<or>
     is_V3_unsuback p \<or> is_V5_connack p \<or> is_V5_pingresp p \<or> is_V5_disconnect p \<or>
     is_V5_publish p \<or> is_V5_puback p \<or> is_V5_pubrec p \<or> is_V5_pubrel p \<or>
     is_V5_pubcomp p \<or> is_V5_suback p \<or> is_V5_unsuback p \<or> is_V5_auth p"

definition is_v5 :: "packet_variant \<Rightarrow> bool" where
  "is_v5 p \<longleftrightarrow>
     is_V5_connect p \<or> is_V5_connack p \<or> is_V5_pingreq p \<or> is_V5_pingresp p \<or>
     is_V5_disconnect p \<or> is_V5_publish p \<or> is_V5_puback p \<or> is_V5_pubrec p \<or>
     is_V5_pubrel p \<or> is_V5_pubcomp p \<or> is_V5_subscribe p \<or> is_V5_suback p \<or>
     is_V5_unsubscribe p \<or> is_V5_unsuback p \<or> is_V5_auth p"

definition is_v3_1_1 :: "packet_variant \<Rightarrow> bool" where
  "is_v3_1_1 p \<longleftrightarrow>
     is_V3_connect p \<or> is_V3_connack p \<or> is_V3_pingreq p \<or> is_V3_pingresp p \<or>
     is_V3_disconnect p \<or> is_V3_publish p \<or> is_V3_puback p \<or> is_V3_pubrec p \<or>
     is_V3_pubrel p \<or> is_V3_pubcomp p \<or> is_V3_subscribe p \<or> is_V3_suback p \<or>
     is_V3_unsubscribe p \<or> is_V3_unsuback p"

definition is_auth :: "packet_variant \<Rightarrow> bool" where
  "is_auth p \<longleftrightarrow>
     is_V5_auth p"

definition is_connect :: "packet_variant \<Rightarrow> bool" where
  "is_connect p \<longleftrightarrow>
     is_V3_connect p \<or> is_V5_connect p"

definition is_connack :: "packet_variant \<Rightarrow> bool" where
  "is_connack p \<longleftrightarrow>
     is_V3_connack p \<or> is_V5_connack p"

definition is_publish :: "packet_variant \<Rightarrow> bool" where
  "is_publish p \<longleftrightarrow>
     is_V3_publish p \<or> is_V5_publish p"

definition is_puback :: "packet_variant \<Rightarrow> bool" where
  "is_puback p \<longleftrightarrow>
     is_V3_puback p \<or> is_V5_puback p"

definition is_pubrec :: "packet_variant \<Rightarrow> bool" where
  "is_pubrec p \<longleftrightarrow>
     is_V3_pubrec p \<or> is_V5_pubrec p"

definition is_pubrel :: "packet_variant \<Rightarrow> bool" where
  "is_pubrel p \<longleftrightarrow>
     is_V3_pubrel p \<or> is_V5_pubrel p"

definition is_pubcomp :: "packet_variant \<Rightarrow> bool" where
  "is_pubcomp p \<longleftrightarrow>
     is_V3_pubcomp p \<or> is_V5_pubcomp p"

definition is_subscribe :: "packet_variant \<Rightarrow> bool" where
  "is_subscribe p \<longleftrightarrow>
     is_V3_subscribe p \<or> is_V5_subscribe p"

definition is_suback :: "packet_variant \<Rightarrow> bool" where
  "is_suback p \<longleftrightarrow>
     is_V3_suback p \<or> is_V5_suback p"

definition is_unsubscribe :: "packet_variant \<Rightarrow> bool" where
  "is_unsubscribe p \<longleftrightarrow>
     is_V3_unsubscribe p \<or> is_V5_unsubscribe p"

definition is_unsuback :: "packet_variant \<Rightarrow> bool" where
  "is_unsuback p \<longleftrightarrow>
     is_V3_unsuback p \<or> is_V5_unsuback p"

definition is_pingreq :: "packet_variant \<Rightarrow> bool" where
  "is_pingreq p \<longleftrightarrow>
     is_V3_pingreq p \<or> is_V5_pingreq p"

definition is_pingresp :: "packet_variant \<Rightarrow> bool" where
  "is_pingresp p \<longleftrightarrow>
     is_V3_pingresp p \<or> is_V5_pingresp p"

definition is_disconnect :: "packet_variant \<Rightarrow> bool" where
  "is_disconnect p \<longleftrightarrow>
     is_V3_disconnect p \<or> is_V5_disconnect p"

definition own_packet_id :: "packet_variant \<Rightarrow> bool" where
  "own_packet_id p \<longleftrightarrow> is_publish p \<or> is_pubrel p \<or> is_subscribe p \<or> is_unsubscribe p"

lemmas traits_defs = is_client_sendable_def is_server_sendable_def is_v5_def is_v3_1_1_def is_auth_def
  is_connect_def is_connack_def is_publish_def is_puback_def is_pubrec_def is_pubrel_def is_pubcomp_def
  is_subscribe_def is_suback_def is_unsubscribe_def is_unsuback_def is_pingreq_def is_pingresp_def
  is_disconnect_def own_packet_id_def

subsection \<open>Parsing a received packet\<close>

text \<open>The switch over the version that every type but CONNECT and AUTH has.\<close>

definition by_version :: "protocol_version \<Rightarrow> parse_failure + 'a \<Rightarrow> parse_failure + 'a \<Rightarrow> parse_failure + 'a" where
  "by_version ver v3_1_1 v5 =
     (case ver of V3_1_1 \<Rightarrow> v3_1_1 | V5 \<Rightarrow> v5 | _ \<Rightarrow> Inl (Ec protocol_error))"

fun packet_of_type :: "nat \<Rightarrow> control_packet_type \<Rightarrow> protocol_version \<Rightarrow> bytes \<Rightarrow> parse_failure + packet_variant" where
  "packet_of_type n Cpt_connect ver buf =
     (case ver of
        V3_1_1 \<Rightarrow> map_sum Ec V3_connect (parse_v3_connect buf)
      | V5 \<Rightarrow> map_sum (\<lambda>e. e) V5_connect (parse_v5_connect buf)
      | Undetermined \<Rightarrow>
          (case get_protocol_version buf of
             None \<Rightarrow> Inl Bad_access
           | Some V3_1_1 \<Rightarrow> map_sum Ec V3_connect (parse_v3_connect buf)
           | Some V5 \<Rightarrow> map_sum (\<lambda>e. e) V5_connect (parse_v5_connect buf)
           | Some _ \<Rightarrow> Inl (Ec connect_unsupported_protocol_version))
      | Other_version _ \<Rightarrow> Inl malformed)"
| "packet_of_type n Cpt_connack ver buf =
     by_version ver (map_sum Ec V3_connack (parse_v3_connack buf))
       (map_sum (\<lambda>e. e) V5_connack (parse_v5_connack buf))"
| "packet_of_type n Cpt_publish ver buf =
     by_version ver (map_sum Ec V3_publish (parse_v3_publish n buf))
       (map_sum (\<lambda>e. e) V5_publish (parse_v5_publish n buf))"
| "packet_of_type n Cpt_puback ver buf =
     by_version ver (map_sum Ec V3_puback (parse_v3_puback n buf))
       (map_sum (\<lambda>e. e) V5_puback (parse_v5_puback n buf))"
| "packet_of_type n Cpt_pubrec ver buf =
     by_version ver (map_sum Ec V3_pubrec (parse_v3_pubrec n buf))
       (map_sum (\<lambda>e. e) V5_pubrec (parse_v5_pubrec n buf))"
| "packet_of_type n Cpt_pubrel ver buf =
     by_version ver (map_sum Ec V3_pubrel (parse_v3_pubrel n buf))
       (map_sum (\<lambda>e. e) V5_pubrel (parse_v5_pubrel n buf))"
| "packet_of_type n Cpt_pubcomp ver buf =
     by_version ver (map_sum Ec V3_pubcomp (parse_v3_pubcomp n buf))
       (map_sum (\<lambda>e. e) V5_pubcomp (parse_v5_pubcomp n buf))"
| "packet_of_type n Cpt_subscribe ver buf =
     by_version ver (map_sum Ec V3_subscribe (parse_v3_subscribe n buf))
       (map_sum (\<lambda>e. e) V5_subscribe (parse_v5_subscribe n buf))"
| "packet_of_type n Cpt_suback ver buf =
     by_version ver (map_sum Ec V3_suback (parse_v3_suback n buf))
       (map_sum (\<lambda>e. e) V5_suback (parse_v5_suback n buf))"
| "packet_of_type n Cpt_unsubscribe ver buf =
     by_version ver (map_sum Ec V3_unsubscribe (parse_v3_unsubscribe n buf))
       (map_sum (\<lambda>e. e) V5_unsubscribe (parse_v5_unsubscribe n buf))"
| "packet_of_type n Cpt_unsuback ver buf =
     by_version ver (map_sum Ec V3_unsuback (parse_v3_unsuback n buf))
       (map_sum (\<lambda>e. e) V5_unsuback (parse_v5_unsuback n buf))"
| "packet_of_type n Cpt_pingreq ver buf =
     by_version ver (map_sum Ec V3_pingreq (parse_v3_pingreq buf))
       (map_sum Ec V5_pingreq (parse_v5_pingreq buf))"
| "packet_of_type n Cpt_pingresp ver buf =
     by_version ver (map_sum Ec V3_pingresp (parse_v3_pingresp buf))
       (map_sum Ec V5_pingresp (parse_v5_pingresp buf))"
| "packet_of_type n Cpt_disconnect ver buf =
     by_version ver (map_sum Ec V3_disconnect (parse_v3_disconnect buf))
       (map_sum (\<lambda>e. e) V5_disconnect (parse_v5_disconnect buf))"
| "packet_of_type n Cpt_auth ver buf =
     (case ver of V5 \<Rightarrow> map_sum (\<lambda>e. e) V5_auth (parse_v5_auth buf) | _ \<Rightarrow> Inl (Ec protocol_error))"

definition buffer_to_basic_packet_variant ::
  "nat \<Rightarrow> bytes \<Rightarrow> protocol_version \<Rightarrow> parse_failure + packet_variant" where
  "buffer_to_basic_packet_variant n buf ver =
     (if length buf < 2 then Inl malformed
      else case get_control_packet_type (buf ! 0) of
             Some c \<Rightarrow> packet_of_type n c ver buf
           | None \<Rightarrow> Inl malformed)"

definition buffer_to_packet_variant :: "bytes \<Rightarrow> protocol_version \<Rightarrow> parse_failure + packet_variant" where
  "buffer_to_packet_variant = buffer_to_basic_packet_variant 2"

subsection \<open>Well-formed packets\<close>

text \<open>What the throwing constructors build, with the two-byte packet identifier.\<close>

fun packet_variant_ok :: "packet_variant \<Rightarrow> bool" where
  "packet_variant_ok (V3_connect p) \<longleftrightarrow> v3_connect_ok p"
| "packet_variant_ok (V3_connack p) \<longleftrightarrow> v3_connack_ok p"
| "packet_variant_ok (V3_publish p) \<longleftrightarrow> v3_publish_ok 2 p"
| "packet_variant_ok (V3_puback p) \<longleftrightarrow> v3_ack_ok Cpt_puback 2 p"
| "packet_variant_ok (V3_pubrec p) \<longleftrightarrow> v3_ack_ok Cpt_pubrec 2 p"
| "packet_variant_ok (V3_pubrel p) \<longleftrightarrow> v3_ack_ok Cpt_pubrel 2 p"
| "packet_variant_ok (V3_pubcomp p) \<longleftrightarrow> v3_ack_ok Cpt_pubcomp 2 p"
| "packet_variant_ok (V3_subscribe p) \<longleftrightarrow> v3_subscribe_ok 2 p"
| "packet_variant_ok (V3_suback p) \<longleftrightarrow> v3_suback_ok 2 p"
| "packet_variant_ok (V3_unsubscribe p) \<longleftrightarrow> v3_unsubscribe_ok 2 p"
| "packet_variant_ok (V3_unsuback p) \<longleftrightarrow> v3_ack_ok Cpt_unsuback 2 p"
| "packet_variant_ok (V3_pingreq p) \<longleftrightarrow> v3_empty_ok Cpt_pingreq p"
| "packet_variant_ok (V3_pingresp p) \<longleftrightarrow> v3_empty_ok Cpt_pingresp p"
| "packet_variant_ok (V3_disconnect p) \<longleftrightarrow> v3_empty_ok Cpt_disconnect p"
| "packet_variant_ok (V5_connect p) \<longleftrightarrow> v5_connect_ok p"
| "packet_variant_ok (V5_connack p) \<longleftrightarrow> v5_connack_ok p"
| "packet_variant_ok (V5_publish p) \<longleftrightarrow> v5_publish_ok 2 p"
| "packet_variant_ok (V5_puback p) \<longleftrightarrow> v5_ack_ok Cpt_puback Loc_puback puback_reason_code_enum 2 p"
| "packet_variant_ok (V5_pubrec p) \<longleftrightarrow> v5_ack_ok Cpt_pubrec Loc_pubrec pubrec_reason_code_enum 2 p"
| "packet_variant_ok (V5_pubrel p) \<longleftrightarrow> v5_ack_ok Cpt_pubrel Loc_pubrel pubrel_reason_code_enum 2 p"
| "packet_variant_ok (V5_pubcomp p) \<longleftrightarrow> v5_ack_ok Cpt_pubcomp Loc_pubcomp pubcomp_reason_code_enum 2 p"
| "packet_variant_ok (V5_subscribe p) \<longleftrightarrow> v5_subscribe_ok 2 p"
| "packet_variant_ok (V5_suback p) \<longleftrightarrow> v5_suback_ok Cpt_suback Loc_suback suback_reason_code_enum 2 p"
| "packet_variant_ok (V5_unsubscribe p) \<longleftrightarrow> v5_unsubscribe_ok 2 p"
| "packet_variant_ok (V5_unsuback p) \<longleftrightarrow> v5_suback_ok Cpt_unsuback Loc_unsuback unsuback_reason_code_enum 2 p"
| "packet_variant_ok (V5_pingreq p) \<longleftrightarrow> v3_empty_ok Cpt_pingreq p"
| "packet_variant_ok (V5_pingresp p) \<longleftrightarrow> v3_empty_ok Cpt_pingresp p"
| "packet_variant_ok (V5_disconnect p) \<longleftrightarrow> v5_reason_ok Cpt_disconnect Loc_disconnect disconnect_reason_code_enum p"
| "packet_variant_ok (V5_auth p) \<longleftrightarrow> v5_reason_ok Cpt_auth Loc_auth auth_reason_code_enum p"

fun packet_received :: "packet_variant \<Rightarrow> packet_variant" where
  "packet_received (V3_publish p) = V3_publish (v3_publish_received p)"
| "packet_received (V5_publish p) = V5_publish (v5_publish_received p)"
| "packet_received p = p"

definition packet_version :: "packet_variant \<Rightarrow> protocol_version" where
  "packet_version p = (if is_v5 p then V5 else V3_1_1)"

lemma get_control_packet_type_of_check:
  "get_control_packet_type_with_check fh = Some c \<Longrightarrow> get_control_packet_type fh = Some c"
  by (simp add: get_control_packet_type_with_check_def split: option.splits if_splits)

lemma dispatch:
  assumes "get_control_packet_type_with_check fh = Some c" and "rest \<noteq> []"
  shows "buffer_to_basic_packet_variant n (fh # rest) ver = packet_of_type n c ver (fh # rest)"
  using assms get_control_packet_type_of_check [of fh c]
  by (cases rest) (simp_all add: buffer_to_basic_packet_variant_def)

lemma packet_header:
  assumes "packet_variant_ok p"
  shows "\<exists>fh rest. concat (packet_variant_const_buffer_sequence p) = fh # rest \<and> rest \<noteq> [] \<and>
     get_control_packet_type_with_check fh = Some (packet_type p)"
  using assms
  by (cases p)
     (auto simp: header_ok_def variable_bytes_not_empty
        v3_connect_ok_def v3_connect_bytes v3_connack_ok_def v3_ack_ok_def v3_empty_ok_def v3_all_const_buffer_sequence_def
        v3_publish_ok_def v3_publish_bytes v3_subscribe_ok_def v3_subscribe_bytes v3_suback_ok_def v3_suback_const_buffer_sequence_def
        v3_unsubscribe_ok_def v3_unsubscribe_bytes
        v5_connect_ok_def v5_connect_bytes v5_connack_ok_def v5_connack_bytes v5_ack_ok_def v5_ack_bytes
        v5_reason_ok_def v5_reason_bytes v5_publish_ok_def v5_publish_bytes v5_subscribe_ok_def v5_subscribe_bytes
        v5_suback_ok_def v5_suback_bytes v5_unsubscribe_ok_def v5_unsubscribe_bytes)

lemma packet_of_type_bytes:
  assumes "packet_variant_ok p"
  shows "packet_of_type 2 (packet_type p) (packet_version p) (concat (packet_variant_const_buffer_sequence p)) =
     Inr (packet_received p)"
  using assms
  by (cases p)
     (simp_all add: packet_version_def is_v5_def by_version_def
        v3_connect.parse_bytes v3_connack.parse_bytes v3_publish.parse_bytes v3_subscribe.parse_bytes
        v3_suback.parse_bytes v3_unsubscribe.parse_bytes v3_ack.parse_bytes v3_empty.parse_bytes
        parse_v3_puback_def parse_v3_pubrec_def parse_v3_pubrel_def parse_v3_pubcomp_def parse_v3_unsuback_def
        parse_v3_pingreq_def parse_v3_pingresp_def parse_v3_disconnect_def parse_v5_pingreq_def parse_v5_pingresp_def
        v5_connect.parse_bytes v5_connack.parse_bytes v5_publish.parse_bytes v5_subscribe.parse_bytes
        v5_suback.parse_bytes v5_unsubscribe.parse_bytes v5_ack.parse_bytes v5_reason.parse_bytes
        parse_v5_puback_def parse_v5_pubrec_def parse_v5_pubrel_def parse_v5_pubcomp_def
        parse_v5_suback_def parse_v5_unsuback_def parse_v5_disconnect_def parse_v5_auth_def)

interpretation packet_variant: packet_codec "\<lambda>b. buffer_to_packet_variant b ver"
  packet_variant_const_buffer_sequence packet_variant_size "\<lambda>p. packet_variant_ok p \<and> packet_version p = ver"
  packet_received for ver
proof
  fix p assume "packet_variant_ok p \<and> packet_version p = ver"
  then have ok: "packet_variant_ok p" and ver: "packet_version p = ver" by simp_all
  from ok show "packet_variant_size p = length (concat (packet_variant_const_buffer_sequence p))"
    by (cases p)
       (simp_all only: packet_variant_size.simps packet_variant_const_buffer_sequence.simps packet_variant_ok.simps
          v3_connect.size_bytes v3_connack.size_bytes v3_publish.size_bytes v3_subscribe.size_bytes
          v3_suback.size_bytes v3_unsubscribe.size_bytes v3_ack.size_bytes v3_empty.size_bytes
          v5_connect.size_bytes v5_connack.size_bytes v5_publish.size_bytes v5_subscribe.size_bytes
          v5_suback.size_bytes v5_unsubscribe.size_bytes v5_ack.size_bytes v5_reason.size_bytes)
  from packet_header [OF ok] packet_of_type_bytes [OF ok] ver
  show "buffer_to_packet_variant (concat (packet_variant_const_buffer_sequence p)) ver = Inr (packet_received p)"
    by (auto simp: buffer_to_packet_variant_def dispatch)
  from ok show "concat (packet_variant_const_buffer_sequence (packet_received p)) = concat (packet_variant_const_buffer_sequence p)"
    by (cases p) (simp_all add: v3_publish.nrm_bytes v5_publish.nrm_bytes)
qed

subsection \<open>Properties\<close>

lemma connect_protocol_version:
  assumes "packet_variant_ok p" and "is_connect p"
  shows "get_protocol_version (concat (packet_variant_const_buffer_sequence p)) = Some (packet_version p)"
  using assms
  by (cases p)
     (auto simp: is_connect_def packet_version_def is_v5_def get_protocol_version_def header_ok_def
        v3_connect_ok_def v3_connect_bytes v5_connect_ok_def v5_connect_bytes protocol_name_and_level_def
        protocol_version_of_def codec_simps)

lemma packet_wire:
  assumes "packet_variant_ok p"
  shows "buffer_to_packet_variant (concat (packet_variant_const_buffer_sequence p)) (packet_version p) =
       Inr (packet_received p)"
    and "packet_variant_size p = length (concat (packet_variant_const_buffer_sequence p))"
  using packet_variant.parse_bytes [of p "packet_version p"] packet_variant.size_bytes [of p "packet_version p"] assms
  by simp_all

lemma packet_wire_undetermined:
  assumes "packet_variant_ok p" and c: "is_connect p"
  shows "buffer_to_packet_variant (concat (packet_variant_const_buffer_sequence p)) Undetermined = Inr p"
proof -
  obtain fh rest where h: "concat (packet_variant_const_buffer_sequence p) = fh # rest" "rest \<noteq> []"
    "get_control_packet_type_with_check fh = Some (packet_type p)" using packet_header [OF assms(1)] by blast
  from c have t: "packet_type p = Cpt_connect" "packet_received p = p" by (cases p; simp add: is_connect_def)+
  have "packet_version p = V3_1_1 \<or> packet_version p = V5" by (simp add: packet_version_def)
  with packet_wire(1) [OF assms(1)] connect_protocol_version [OF assms] h t show ?thesis
    by (auto simp: buffer_to_packet_variant_def dispatch)
qed

text \<open>
  C5. Every well-formed packet of either protocol version survives the wire: the bytes of its
  buffers, handed to the parser with the version of the packet, give back the packet (the
  payload of a PUBLISH as one buffer), \<^verbatim>\<open>size()\<close> is their number, and a CONNECT is also
  recognised while the version is still undetermined.
\<close>

theorem packet_variant_roundtrip:
  assumes "packet_variant_ok p"
  shows "buffer_to_packet_variant (concat (packet_variant_const_buffer_sequence p)) (packet_version p) =
       Inr (packet_received p) \<and>
     packet_variant_size p = length (concat (packet_variant_const_buffer_sequence p)) \<and>
     (is_connect p \<longrightarrow>
       buffer_to_packet_variant (concat (packet_variant_const_buffer_sequence p)) Undetermined = Inr p)"
  using packet_wire [OF assms] packet_wire_undetermined [OF assms] by simp

definition sample_publish :: v5_publish where
  "sample_publish = \<lparr>p5_fixed_header = 0x32, p5_topic_name = [0x74, 0x31], p5_topic_name_length_buf = [0, 2],
     p5_packet_id = [0x12, 0x34], p5_property_length = 3, p5_property_length_buf = [3],
     p5_props = [topic_alias 5], p5_payloads = [[0x68], [0x69]],
     p5_remaining_length = 12, p5_remaining_length_buf = [12]\<rparr>"

theorem packet_variant_roundtrip_witness:
  "packet_variant_ok (V5_publish sample_publish) \<and>
   buffer_to_packet_variant [0x32, 12, 0, 2, 0x74, 0x31, 0x12, 0x34, 3, 0x23, 0, 5, 0x68, 0x69] V5 =
     Inr (V5_publish (sample_publish\<lparr>p5_payloads := [[0x68, 0x69]]\<rparr>))"
proof -
  have "utf8string_check [0x74, 0x31]" "get_control_packet_type_with_check 0x32 = Some Cpt_publish"
    "pub_get_qos 0x32 = at_least_once" by code_simp+
  moreover have "val_to_variable_bytes 12 = [12]" "val_to_variable_bytes 3 = [3]"
    by (simp_all add: val_to_variable_bytes_def val_to_variable_bytes_loop.simps)
  moreover have "endian_store 2 (Suc (Suc 0)) = [0, 2]" by code_simp
  moreover have "endian_load [0x12, 0x34] = 0x1234" by (simp add: endian_load_def)
  moreover have "properties_ok Loc_publish [topic_alias 5]" "properties_size [topic_alias 5] = 3"
    by simp_all
  ultimately have "v5_publish_ok 2 sample_publish"
    by (simp add: v5_publish_ok_def sample_publish_def header_ok_def str_ok_def props_ok_def v5_publish_packet_id_def
        qos_with_id_def qos_defs)
  then have ok: "packet_variant_ok (V5_publish sample_publish)" by simp
  have b: "concat (packet_variant_const_buffer_sequence (V5_publish sample_publish)) =
      [0x32, 12, 0, 2, 0x74, 0x31, 0x12, 0x34, 3, 0x23, 0, 5, 0x68, 0x69]" by code_simp
  have "packet_version (V5_publish sample_publish) = V5"
    "packet_received (V5_publish sample_publish) = V5_publish (sample_publish\<lparr>p5_payloads := [[0x68, 0x69]]\<rparr>)"
    by code_simp+
  with packet_variant_roundtrip [OF ok] ok show ?thesis unfolding b by simp
qed

subsubsection \<open>Comparison\<close>

lemma bytes_less_irrefl: "\<not> bytes_less a a"
  by (induction a) (simp_all add: scast_less_def)

lemma bytes_less_trans: "bytes_less a b \<Longrightarrow> bytes_less b c \<Longrightarrow> bytes_less a c"
proof (induction a b arbitrary: c rule: bytes_less.induct)
  case (1 x xs y ys)
  then show ?case by (cases c) (auto simp: scast_less_def)
qed (auto elim: bytes_less.elims)

lemma bytes_less_total: "a \<noteq> b \<Longrightarrow> bytes_less a b \<or> bytes_less b a"
proof (induction a b rule: bytes_less.induct)
  case (1 x xs y ys)
  have "sint x = sint y \<Longrightarrow> x = y" by (rule signed_word_eqI)
  with 1 show ?case by (auto simp: scast_less_def)
qed (auto simp: neq_Nil_conv)

lemma index_version: "packet_version p = (if variant_index p < 14 then V3_1_1 else V5)"
  by (cases p) (simp_all add: packet_version_def is_v5_def)

lemma index_received: "variant_index (packet_received p) = variant_index p"
  by (cases p) simp_all

lemma packet_variant_equal_received:
  assumes "packet_variant_ok p" and "packet_variant_ok q"
  shows "packet_variant_equal p q \<longleftrightarrow> packet_received p = packet_received q"
proof (cases "variant_index p = variant_index q")
  case True
  then have "packet_version q = packet_version p" by (simp add: index_version)
  with packet_variant.equal_iff_nrm [of p "packet_version p" q] assms True show ?thesis
    by (simp add: packet_variant_equal_def)
next
  case False
  then show ?thesis using index_received [of p] index_received [of q] by (auto simp: packet_variant_equal_def)
qed

lemma packet_variant_less_trans: "packet_variant_less p q \<Longrightarrow> packet_variant_less q r \<Longrightarrow> packet_variant_less p r"
  by (auto simp: packet_variant_less_def packet_less_than_def intro: bytes_less_trans)

lemma packet_variant_less_total:
  "packet_variant_equal p q \<longleftrightarrow> \<not> packet_variant_less p q \<and> \<not> packet_variant_less q p"
  using bytes_less_total [of "concat (packet_variant_const_buffer_sequence p)" "concat (packet_variant_const_buffer_sequence q)"]
  by (auto simp: packet_variant_less_def packet_less_than_def packet_variant_equal_def packet_equal_iff bytes_less_irrefl)

text \<open>
  The comparison operators of the variant are consistent, so packets can key ordered
  containers: \<^verbatim>\<open>operator==\<close> holds exactly for packets that a receiver cannot tell apart,
  \<^verbatim>\<open>operator<\<close> is irreflexive and transitive, and two packets neither of which is less than the
  other are equal.
\<close>

theorem packet_variant_order:
  assumes "packet_variant_ok p" and "packet_variant_ok q"
  shows "(packet_variant_equal p q \<longleftrightarrow> packet_received p = packet_received q) \<and>
     (packet_variant_equal p q \<longleftrightarrow> \<not> packet_variant_less p q \<and> \<not> packet_variant_less q p) \<and>
     (packet_variant_less p q \<and> packet_variant_less q r \<longrightarrow> packet_variant_less p r)"
  using packet_variant_equal_received [OF assms] packet_variant_less_total packet_variant_less_trans by blast

theorem packet_variant_order_witness:
  "packet_variant_less (V3_puback (make_v3_puback 2 1)) (V3_puback (make_v3_puback 2 2)) \<and>
   \<not> packet_variant_equal (V3_puback (make_v3_puback 2 1)) (V3_puback (make_v3_puback 2 2))"
proof -
  have ok: "packet_variant_ok (V3_puback (make_v3_puback 2 1))" "packet_variant_ok (V3_puback (make_v3_puback 2 2))"
    by (simp_all add: make_v3_puback_def make_v3_ack_ok)
  have "packet_variant_less (V3_puback (make_v3_puback 2 1)) (V3_puback (make_v3_puback 2 2))" by code_simp
  with packet_variant_order [OF ok] show ?thesis by blast
qed

end
