(* ===== verification/Store.thy ===== *)
theory Store
  imports Packet_Variant
begin

text \<open>
  The packets kept for retransmission: \<^verbatim>\<open>packet/store_packet_variant.hpp\<close> and
  \<^verbatim>\<open>impl/store.hpp\<close>. The container of the store has a sequence and a unique index on the pair
  of the expected response and the packet identifier; it is the list of its elements in sequence
  order.
\<close>

subsection \<open>Packets that can be stored\<close>

datatype response_packet = R_v3_1_1_puback | R_v3_1_1_pubrec | R_v3_1_1_pubcomp
  | R_v5_puback | R_v5_pubrec | R_v5_pubcomp

datatype store_var =
    S3_publish v3_publish
  | S3_pubrel v3_all
  | S5_publish v5_publish
  | S5_pubrel v5_ack

record store_packet_variant =
  sp_res :: response_packet
  sp_var :: store_var

definition packet_not_allowed_to_store :: error_code where
  "packet_not_allowed_to_store = mqtt_err 0x185"

text \<open>The constructors: a PUBLISH that is not of QoS 1 or 2 is refused by an exception.\<close>

fun make_store_packet_variant :: "store_var \<Rightarrow> exn + store_packet_variant" where
  "make_store_packet_variant (S3_publish p) =
     (let q = opts_get_qos (v3_publish_opts p) in
      if q = at_least_once then Inr \<lparr>sp_res = R_v3_1_1_puback, sp_var = S3_publish p\<rparr>
      else if q = exactly_once then Inr \<lparr>sp_res = R_v3_1_1_pubrec, sp_var = S3_publish p\<rparr>
      else Inl (System_error packet_not_allowed_to_store))"
| "make_store_packet_variant (S3_pubrel p) = Inr \<lparr>sp_res = R_v3_1_1_pubcomp, sp_var = S3_pubrel p\<rparr>"
| "make_store_packet_variant (S5_publish p) =
     (let q = opts_get_qos (v5_publish_opts p) in
      if q = at_least_once then Inr \<lparr>sp_res = R_v5_puback, sp_var = S5_publish p\<rparr>
      else if q = exactly_once then Inr \<lparr>sp_res = R_v5_pubrec, sp_var = S5_publish p\<rparr>
      else Inl (System_error packet_not_allowed_to_store))"
| "make_store_packet_variant (S5_pubrel p) = Inr \<lparr>sp_res = R_v5_pubcomp, sp_var = S5_pubrel p\<rparr>"

text \<open>\<^verbatim>\<open>operator basic_packet_variant\<close>.\<close>

fun packet_of_store_var :: "store_var \<Rightarrow> packet_variant" where
  "packet_of_store_var (S3_publish p) = V3_publish p"
| "packet_of_store_var (S3_pubrel p) = V3_pubrel p"
| "packet_of_store_var (S5_publish p) = V5_publish p"
| "packet_of_store_var (S5_pubrel p) = V5_pubrel p"

fun store_var_packet_id :: "store_var \<Rightarrow> nat" where
  "store_var_packet_id (S3_publish p) = v3_publish_packet_id p"
| "store_var_packet_id (S3_pubrel p) = v3_ack_packet_id p"
| "store_var_packet_id (S5_publish p) = v5_publish_packet_id p"
| "store_var_packet_id (S5_pubrel p) = v5_ack_packet_id p"

definition sp_packet_id :: "store_packet_variant \<Rightarrow> nat" where
  "sp_packet_id pv = store_var_packet_id (sp_var pv)"

definition sp_packet :: "store_packet_variant \<Rightarrow> packet_variant" where
  "sp_packet pv = packet_of_store_var (sp_var pv)"

definition sp_size :: "store_packet_variant \<Rightarrow> nat" where
  "sp_size pv = packet_variant_size (sp_packet pv)"

definition sp_const_buffer_sequence :: "store_packet_variant \<Rightarrow> bytes list" where
  "sp_const_buffer_sequence pv = packet_variant_const_buffer_sequence (sp_packet pv)"

fun first_message_expiry :: "properties \<Rightarrow> nat" where
  "first_message_expiry [] = 0"
| "first_message_expiry (p # ps) =
     (if prop_id p = Id_message_expiry_interval then property_val_int p else first_message_expiry ps)"

definition get_message_expiry_interval :: "store_packet_variant \<Rightarrow> nat" where
  "get_message_expiry_interval pv =
     (case sp_var pv of S5_publish p \<Rightarrow> first_message_expiry (p5_props p) | _ \<Rightarrow> 0)"

text \<open>
  The member function \<^verbatim>\<open>update_message_expiry_interval\<close> is \<^verbatim>\<open>const\<close>: it visits a constant variant, for
  which the overload taking \<^verbatim>\<open>basic_publish_packet&\<close> is not viable and the one taking
  \<^verbatim>\<open>auto&\<close>, which does nothing, is chosen.
\<close>

definition sp_update_message_expiry_interval :: "nat \<Rightarrow> store_packet_variant \<Rightarrow> store_packet_variant" where
  "sp_update_message_expiry_interval val pv = pv"

subsection \<open>The store\<close>

type_synonym store = "store_packet_variant list"

definition sp_key :: "store_packet_variant \<Rightarrow> response_packet \<times> nat" where
  "sp_key pv = (sp_res pv, sp_packet_id pv)"

definition store_emplace_back :: "store_packet_variant \<Rightarrow> store \<Rightarrow> bool \<times> store" where
  "store_emplace_back pv elems =
     (if sp_key pv \<in> sp_key ` set elems then (False, elems) else (True, elems @ [pv]))"

text \<open>\<open>store_add\<close> of a packet the store keeps; any other packet is not added.\<close>

definition store_add_var :: "store_var \<Rightarrow> store \<Rightarrow> bool \<times> store" where
  "store_add_var v elems =
     (case make_store_packet_variant v of Inr pv \<Rightarrow> store_emplace_back pv elems | Inl _ \<Rightarrow> (False, elems))"

fun store_add :: "packet_variant \<Rightarrow> store \<Rightarrow> bool \<times> store" where
  "store_add (V3_publish p) elems =
     (if opts_get_qos (v3_publish_opts p) = at_least_once \<or> opts_get_qos (v3_publish_opts p) = exactly_once
      then store_add_var (S3_publish p) elems else (False, elems))"
| "store_add (V5_publish p) elems =
     (if opts_get_qos (v5_publish_opts p) = at_least_once \<or> opts_get_qos (v5_publish_opts p) = exactly_once
      then store_add_var (S5_publish p) elems else (False, elems))"
| "store_add (V3_pubrel p) elems = store_add_var (S3_pubrel p) elems"
| "store_add (V5_pubrel p) elems = store_add_var (S5_pubrel p) elems"
| "store_add _ elems = (False, elems)"

definition store_erase :: "response_packet \<Rightarrow> nat \<Rightarrow> store \<Rightarrow> bool \<times> store" where
  "store_erase r packet_id elems =
     (if (r, packet_id) \<in> sp_key ` set elems
      then (True, filter (\<lambda>pv. sp_key pv \<noteq> (r, packet_id)) elems) else (False, elems))"

definition store_clear :: "store \<Rightarrow> store" where
  "store_clear elems = []"

text \<open>\<^verbatim>\<open>for_each\<close>: the elements for which the function returns false are erased.\<close>

fun store_for_each :: "(store_packet_variant \<Rightarrow> 's \<Rightarrow> bool \<times> 's) \<Rightarrow> store \<Rightarrow> 's \<Rightarrow> store \<times> 's" where
  "store_for_each f [] s = ([], s)"
| "store_for_each f (pv # elems) s =
     (let (keep, s) = f pv s; (elems, s) = store_for_each f elems s
      in (if keep then pv # elems else elems, s))"

definition get_stored :: "store \<Rightarrow> store_packet_variant list" where
  "get_stored elems = elems"

subsection \<open>Invariant and contract\<close>

definition sp_ok :: "store_packet_variant \<Rightarrow> bool" where
  "sp_ok pv \<longleftrightarrow> make_store_packet_variant (sp_var pv) = Inr pv"

definition store_ok :: "store \<Rightarrow> bool" where
  "store_ok elems \<longleftrightarrow> distinct (map sp_key elems) \<and> list_all sp_ok elems"

definition store_lookup :: "store \<Rightarrow> response_packet \<times> nat \<Rightarrow> store_packet_variant option" where
  "store_lookup elems k = find (\<lambda>pv. sp_key pv = k) elems"

text \<open>
  The contract the connection relies on: a message stays in the store, unchanged and in the
  order of arrival, until its response is processed.
\<close>

locale message_store =
  fixes ok :: "'s \<Rightarrow> bool" and lookup :: "'s \<Rightarrow> 'k \<Rightarrow> 'm option"
    and add :: "'m \<Rightarrow> 's \<Rightarrow> bool \<times> 's" and erase :: "'k \<Rightarrow> 's \<Rightarrow> bool \<times> 's"
    and key :: "'m \<Rightarrow> 'k" and valid :: "'m \<Rightarrow> bool"
  assumes add_ok: "ok s \<Longrightarrow> valid m \<Longrightarrow> ok (snd (add m s))"
    and add_lookup: "ok s \<Longrightarrow> lookup (snd (add m s)) k =
      (if k = key m \<and> lookup s (key m) = None then Some m else lookup s k)"
    and add_result: "fst (add m s) \<longleftrightarrow> lookup s (key m) = None"
    and erase_ok: "ok s \<Longrightarrow> ok (snd (erase k s))"
    and erase_lookup: "ok s \<Longrightarrow> lookup (snd (erase k s)) j = (if j = k then None else lookup s j)"
    and erase_result: "fst (erase k s) \<longleftrightarrow> lookup s k \<noteq> None"
begin

lemma add_then_erase:
  assumes "ok s" and "valid m" and "lookup s (key m) = None"
  shows "lookup (snd (erase (key m) (snd (add m s)))) = lookup s"
  using assms add_ok by (auto simp: add_lookup erase_lookup fun_eq_iff)

lemma kept_until_erased:
  assumes "ok s" and "lookup s k = Some m" and "j \<noteq> k"
  shows "lookup (snd (erase j s)) k = Some m" and "lookup (snd (add m' s)) k = Some m"
  using assms by (auto simp: erase_lookup add_lookup)

end

lemma find_append: "find P (xs @ ys) = (case find P xs of None \<Rightarrow> find P ys | Some x \<Rightarrow> Some x)"
  by (induction xs) simp_all

lemma find_filter_key: "find (\<lambda>x. f x = j) (filter (\<lambda>x. f x \<noteq> k) xs) = (if j = k then None else find (\<lambda>x. f x = j) xs)"
  by (induction xs) auto

lemma store_lookup_Some:
  "distinct (map sp_key elems) \<Longrightarrow> store_lookup elems k = Some pv \<longleftrightarrow> pv \<in> set elems \<and> sp_key pv = k"
  unfolding store_lookup_def
  by (induction elems) (auto dest: inj_onD simp: image_iff)

lemma store_lookup_None: "store_lookup elems k = None \<longleftrightarrow> k \<notin> sp_key ` set elems"
  by (auto simp: store_lookup_def find_None_iff)

interpretation store: message_store store_ok store_lookup store_emplace_back "\<lambda>(r, i). store_erase r i" sp_key sp_ok
proof
  fix s :: store and m k j
  show "fst (store_emplace_back m s) \<longleftrightarrow> store_lookup s (sp_key m) = None"
    by (simp add: store_emplace_back_def store_lookup_None)
  show "fst ((case k of (r, i) \<Rightarrow> store_erase r i) s) \<longleftrightarrow> store_lookup s k \<noteq> None"
    by (cases k) (simp add: store_erase_def store_lookup_None)
  assume s: "store_ok s"
  show "store_lookup (snd (store_emplace_back m s)) k =
      (if k = sp_key m \<and> store_lookup s (sp_key m) = None then Some m else store_lookup s k)"
    using store_lookup_None [of s "sp_key m"]
    by (auto simp: store_emplace_back_def store_lookup_def find_append split: option.splits)
  from s show "store_ok (snd ((case k of (r, i) \<Rightarrow> store_erase r i) s))"
    by (cases k) (auto simp: store_erase_def store_ok_def distinct_map_filter list_all_iff)
  show "store_lookup (snd ((case k of (r, i) \<Rightarrow> store_erase r i) s)) j = (if j = k then None else store_lookup s j)"
    by (cases k) (force simp: store_erase_def store_lookup_def find_None_iff find_filter_key)
  assume "sp_ok m"
  with s show "store_ok (snd (store_emplace_back m s))"
    by (auto simp: store_emplace_back_def store_ok_def)
qed

end
