(* ===== verification/Packet_Builder.thy ===== *)
theory Packet_Builder
  imports Packet_Variant
begin

unbundle bit_operations_syntax

text \<open>
  The reassembly of packets from a byte stream: \<^verbatim>\<open>recv_packet_builder\<close> of
  \<^verbatim>\<open>impl/connection_impl.hpp\<close> and \<^verbatim>\<open>impl/connection_impl.ipp\<close>. The stream is the list of the
  bytes that are available; what a call leaves in it is returned. The array \<^verbatim>\<open>raw_buf_\<close> is
  modelled by the bytes that were copied to it, up to \<^verbatim>\<open>raw_buf_ptr_\<close>.
\<close>

datatype read_state = Fixed_header | Remaining_length | Payload

datatype error_packet = Ep_error error_code | Ep_packet bytes

record recv_packet_builder =
  rpb_read_state :: read_state
  rpb_remaining_length :: nat
  rpb_multiplier :: nat
  rpb_header :: bytes
  rpb_raw_buf :: bytes
  rpb_raw_buf_size :: nat
  rpb_read_packet :: "error_packet option"

definition rpb_initialize :: "recv_packet_builder \<Rightarrow> recv_packet_builder" where
  "rpb_initialize b = b\<lparr>rpb_read_state := Fixed_header, rpb_header := [], rpb_remaining_length := 0,
     rpb_multiplier := 1, rpb_raw_buf := [], rpb_raw_buf_size := 0\<rparr>"

definition rpb_init :: recv_packet_builder where
  "rpb_init = \<lparr>rpb_read_state = Fixed_header, rpb_remaining_length = 0, rpb_multiplier = 1, rpb_header = [],
     rpb_raw_buf = [], rpb_raw_buf_size = 0, rpb_read_packet = None\<rparr>"

definition rpb_has_value :: "recv_packet_builder \<Rightarrow> bool" where
  "rpb_has_value b \<longleftrightarrow> rpb_read_packet b \<noteq> None"

definition rpb_clear :: "recv_packet_builder \<Rightarrow> recv_packet_builder" where
  "rpb_clear b = b\<lparr>rpb_read_packet := None\<rparr>"

definition packet_too_large :: error_code where
  "packet_too_large = disconnect_err 0x95"

text \<open>\<^verbatim>\<open>read_packet_.emplace(...)\<close> followed by \<^verbatim>\<open>initialize()\<close>.\<close>

definition rpb_emit :: "error_packet \<Rightarrow> recv_packet_builder \<Rightarrow> recv_packet_builder" where
  "rpb_emit ep b = rpb_initialize (b\<lparr>rpb_read_packet := Some ep\<rparr>)"

text \<open>
  One byte of the remaining length. The result says whether the call returns (a packet without
  a body, or an error).
\<close>

definition rpb_length_byte :: "byte \<Rightarrow> recv_packet_builder \<Rightarrow> bool \<times> recv_packet_builder" where
  "rpb_length_byte x b =
     (let b = b\<lparr>rpb_header := rpb_header b @ [x],
                rpb_remaining_length := rpb_remaining_length b + unat (x AND 0x7F) * rpb_multiplier b,
                rpb_multiplier := rpb_multiplier b * 128\<rparr> in
      if x AND 0x80 = 0 then
        (let b = b\<lparr>rpb_raw_buf_size := length (rpb_header b) + rpb_remaining_length b, rpb_raw_buf := rpb_header b\<rparr> in
         if rpb_remaining_length b = 0 then (True, rpb_emit (Ep_packet (rpb_raw_buf b)) b)
         else (False, b\<lparr>rpb_read_state := Payload\<rparr>))
      else if rpb_multiplier b = 128 * 128 * 128 * 128 then (True, rpb_emit (Ep_error packet_too_large) b)
      else (False, b))"

fun rpb_recv :: "recv_packet_builder \<Rightarrow> bytes \<Rightarrow> recv_packet_builder \<times> bytes" where
  "rpb_recv b [] = (b, [])"
| "rpb_recv b (x # xs) =
     (case rpb_read_state b of
        Fixed_header \<Rightarrow> rpb_recv (b\<lparr>rpb_header := rpb_header b @ [x], rpb_read_state := Remaining_length\<rparr>) xs
      | Remaining_length \<Rightarrow>
          (let (finished, b) = rpb_length_byte x b in if finished then (b, xs) else rpb_recv b xs)
      | Payload \<Rightarrow>
          (let copied = take (rpb_remaining_length b) (x # xs); rest = drop (rpb_remaining_length b) (x # xs);
               b = b\<lparr>rpb_raw_buf := rpb_raw_buf b @ copied\<rparr> in
           if length copied = rpb_remaining_length b then (rpb_emit (Ep_packet (rpb_raw_buf b)) b, rest)
           else (b\<lparr>rpb_remaining_length := rpb_remaining_length b - length copied\<rparr>, rest)))"

subsection \<open>The stream byte by byte\<close>

text \<open>The reference for any way of cutting the stream: a call of \<^verbatim>\<open>recv\<close> for every single byte.\<close>

definition taken :: "recv_packet_builder \<Rightarrow> error_packet list" where
  "taken b = (case rpb_read_packet b of None \<Rightarrow> [] | Some ep \<Rightarrow> [ep])"

fun rpb_bytes :: "recv_packet_builder \<Rightarrow> bytes \<Rightarrow> error_packet list \<times> recv_packet_builder" where
  "rpb_bytes b [] = ([], b)"
| "rpb_bytes b (x # xs) =
     (let b1 = fst (rpb_recv b [x]); (out, b2) = rpb_bytes (rpb_clear b1) xs in (taken b1 @ out, b2))"

definition rpb_ok :: "recv_packet_builder \<Rightarrow> bool" where
  "rpb_ok b \<longleftrightarrow> rpb_read_packet b = None \<and> (rpb_read_state b = Payload \<longrightarrow> 0 < rpb_remaining_length b)"

lemma rpb_init_ok [simp]: "rpb_ok rpb_init"
  by (simp add: rpb_ok_def rpb_init_def)

lemma rpb_emit_clear [simp]: "rpb_clear (rpb_emit ep b) = rpb_init" "taken (rpb_emit ep b) = [ep]"
    "rpb_read_packet (rpb_emit ep b) = Some ep"
  by (simp_all add: rpb_clear_def rpb_emit_def rpb_initialize_def rpb_init_def taken_def)

lemma rpb_ok_clear [simp]: "rpb_ok b \<Longrightarrow> rpb_clear b = b" "rpb_ok b \<Longrightarrow> taken b = []"
  by (simp_all add: rpb_ok_def rpb_clear_def taken_def)

lemma rpb_length_byte_cases:
  assumes "rpb_ok b" and "rpb_read_state b = Remaining_length" and "rpb_length_byte x b = (finished, b1)"
  obtains "finished" and "rpb_clear b1 = rpb_init" and "rpb_read_packet b1 \<noteq> None"
  | "\<not> finished" and "rpb_ok b1"
  using assms
  by (auto simp: rpb_length_byte_def Let_def rpb_ok_def split: if_splits)

lemma rpb_bytes_append:
  "rpb_bytes b (xs @ ys) =
    (let (out1, b1) = rpb_bytes b xs; (out2, b2) = rpb_bytes b1 ys in (out1 @ out2, b2))"
  by (induction xs arbitrary: b) (auto simp: Let_def split: prod.splits)

lemma payload_bytes:
  assumes "rpb_ok b" and "rpb_read_state b = Payload" and "ys \<noteq> []" and "length ys \<le> rpb_remaining_length b"
  shows "rpb_bytes b ys =
    (if length ys = rpb_remaining_length b then ([Ep_packet (rpb_raw_buf b @ ys)], rpb_init)
     else ([], b\<lparr>rpb_raw_buf := rpb_raw_buf b @ ys, rpb_remaining_length := rpb_remaining_length b - length ys\<rparr>))"
  using assms
proof (induction ys arbitrary: b)
  case (Cons y ys)
  let ?b1 = "b\<lparr>rpb_raw_buf := rpb_raw_buf b @ [y], rpb_remaining_length := rpb_remaining_length b - 1\<rparr>"
  show ?case
  proof (cases "rpb_remaining_length b = 1")
    case True
    with Cons.prems show ?thesis by (simp add: Let_def)
  next
    case False
    with Cons.prems have r: "fst (rpb_recv b [y]) = ?b1" and ok: "rpb_ok ?b1"
      by (auto simp: rpb_ok_def Let_def)
    then have e: "rpb_bytes b (y # ys) = rpb_bytes ?b1 ys" by (simp del: rpb_recv.simps)
    show ?thesis
    proof (cases "ys = []")
      case True
      with e False show ?thesis by (simp del: rpb_bytes.simps(2))
    next
      case ys: False
      from Cons.prems False have "length ys = rpb_remaining_length b - 1 \<longleftrightarrow> Suc (length ys) = rpb_remaining_length b"
        by auto
      with Cons.IH [OF ok _ ys] Cons.prems show ?thesis unfolding e by simp
    qed
  qed
qed simp

lemma recv_bytes:
  assumes "rpb_ok b" and "rpb_recv b xs = (b1, rest)"
  shows "\<exists>ys. xs = ys @ rest \<and> rpb_bytes b ys = (taken b1, rpb_clear b1) \<and> rpb_ok (rpb_clear b1) \<and>
    (rpb_read_packet b1 = None \<longrightarrow> rest = []) \<and> (xs \<noteq> [] \<longrightarrow> ys \<noteq> [])"
  using assms
proof (induction b xs rule: rpb_recv.induct)
  case (2 b x xs)
  show ?case
  proof (cases "rpb_read_state b")
    case Fixed_header
    let ?b2 = "b\<lparr>rpb_header := rpb_header b @ [x], rpb_read_state := Remaining_length\<rparr>"
    from 2(3) have ok: "rpb_ok ?b2" by (simp add: rpb_ok_def)
    with 2(1) [OF Fixed_header] 2(4) Fixed_header obtain ys where
      "xs = ys @ rest" "rpb_bytes ?b2 ys = (taken b1, rpb_clear b1)" "rpb_ok (rpb_clear b1)"
      "rpb_read_packet b1 = None \<longrightarrow> rest = []" by auto
    with Fixed_header ok show ?thesis by (intro exI [of _ "x # ys"]) simp
  next
    case Remaining_length
    obtain f b2 where l: "rpb_length_byte x b = (f, b2)" by fastforce
    with 2(3) Remaining_length show ?thesis
    proof (cases rule: rpb_length_byte_cases [case_names emit more])
      case emit
      with l Remaining_length 2(4) have "b1 = b2" "rest = xs" by simp_all
      with emit l Remaining_length show ?thesis by (intro exI [of _ "[x]"]) auto
    next
      case more
      with 2(2) [OF Remaining_length l [symmetric] refl] 2(4) Remaining_length l obtain ys where
        "xs = ys @ rest" "rpb_bytes b2 ys = (taken b1, rpb_clear b1)" "rpb_ok (rpb_clear b1)"
        "rpb_read_packet b1 = None \<longrightarrow> rest = []" by auto
      with Remaining_length l more show ?thesis by (intro exI [of _ "x # ys"]) simp
    qed
  next
    case Payload
    define n where "n = rpb_remaining_length b"
    define c where "c = take n (x # xs)"
    have n: "0 < n" using 2(3) Payload by (simp add: n_def rpb_ok_def)
    then have c: "c \<noteq> []" "length c \<le> n" "x # xs = c @ drop n (x # xs)" by (simp_all add: c_def)
    have rec: "rpb_recv b (x # xs) =
       (if length c = n then (rpb_emit (Ep_packet (rpb_raw_buf b @ c)) (b\<lparr>rpb_raw_buf := rpb_raw_buf b @ c\<rparr>), drop n (x # xs))
        else (b\<lparr>rpb_raw_buf := rpb_raw_buf b @ c, rpb_remaining_length := n - length c\<rparr>, drop n (x # xs)))"
      using Payload unfolding c_def n_def rpb_recv.simps(2) Let_def by simp
    have rest: "rest = drop n (x # xs)" using 2(4) Payload by (auto simp: Let_def n_def split: if_splits)
    have "rpb_bytes b c = (taken b1, rpb_clear b1) \<and> rpb_ok (rpb_clear b1) \<and> (rpb_read_packet b1 = None \<longrightarrow> rest = [])"
    proof (cases "length c = n")
      case True
      with 2(4) rec have "b1 = rpb_emit (Ep_packet (rpb_raw_buf b @ c)) (b\<lparr>rpb_raw_buf := rpb_raw_buf b @ c\<rparr>)"
        by (simp del: rpb_recv.simps)
      with True payload_bytes [OF 2(3) Payload c(1)] c(2) show ?thesis by (simp add: n_def)
    next
      case False
      with 2(4) rec have b1: "b1 = b\<lparr>rpb_raw_buf := rpb_raw_buf b @ c, rpb_remaining_length := n - length c\<rparr>"
        by (simp del: rpb_recv.simps)
      with 2(3) False c(2) have "rpb_ok b1" by (simp add: rpb_ok_def)
      moreover from False have "drop n (x # xs) = []" by (simp add: c_def min_def split: if_splits)
      ultimately show ?thesis
        using False payload_bytes [OF 2(3) Payload c(1)] c(2) b1 by (simp add: n_def rest)
    qed
    with c(1) show ?thesis by (intro exI [of _ c]) (simp add: rest c(3) [symmetric])
  qed
qed simp

subsection \<open>Arrivals and calls in any order\<close>

text \<open>
  A connection with its stream: bytes arrive, and \<^verbatim>\<open>recv\<close> is called, which takes at most one
  packet. A state has the builder, the stream and the packets taken so far.
\<close>

inductive rpb_run :: "bytes \<Rightarrow> recv_packet_builder \<times> bytes \<times> error_packet list \<Rightarrow> bool" where
  start: "rpb_run [] (rpb_init, [], [])"
| arrive: "rpb_run (arrived @ chunk) (b, stream @ chunk, out)" if "rpb_run arrived (b, stream, out)"
| call: "rpb_run arrived (rpb_clear b1, rest, out @ taken b1)"
    if "rpb_run arrived (b, stream, out)" and "rpb_recv b stream = (b1, rest)"

lemma rpb_run_prefix:
  assumes "rpb_run arrived (b, stream, out)"
  shows "\<exists>done. arrived = done @ stream \<and> rpb_bytes rpb_init done = (out, b) \<and> rpb_ok b"
  using assms
proof (induction arrived "(b, stream, out)" arbitrary: b stream out)
  case (call arrived b stream out b1 rest)
  then obtain d ys where "arrived = d @ stream" "rpb_bytes rpb_init d = (out, b)"
    "stream = ys @ rest" "rpb_bytes b ys = (taken b1, rpb_clear b1)" "rpb_ok (rpb_clear b1)"
    using recv_bytes [of b stream b1 rest] by blast
  then show ?case by (intro exI [of _ "d @ ys"]) (simp add: rpb_bytes_append)
qed auto

text \<open>A packet as it stands on the wire.\<close>

definition framed :: "bytes \<Rightarrow> bool" where
  "framed p \<longleftrightarrow> (\<exists>fh body. p = fh # val_to_variable_bytes (length body) @ body \<and> length body \<le> 0xfffffff)"

text \<open>The builder between two bytes of the remaining length.\<close>

definition in_length :: "bytes \<Rightarrow> nat \<Rightarrow> nat \<Rightarrow> recv_packet_builder" where
  "in_length h val mul =
     rpb_init\<lparr>rpb_read_state := Remaining_length, rpb_header := h, rpb_remaining_length := val, rpb_multiplier := mul\<rparr>"

lemma in_length_ok [simp]: "rpb_ok (in_length h val mul)" "rpb_read_state (in_length h val mul) = Remaining_length"
  by (simp_all add: rpb_ok_def in_length_def rpb_init_def)

lemma in_length_bytes:
  "rpb_bytes (in_length h val mul) (x # xs) =
    (let b1 = snd (rpb_length_byte x (in_length h val mul)); (out, b2) = rpb_bytes (rpb_clear b1) xs in (taken b1 @ out, b2))"
  by (simp add: Let_def case_prod_beta)

definition length_read :: "bytes \<Rightarrow> nat \<Rightarrow> nat \<Rightarrow> recv_packet_builder" where
  "length_read h v mul = (in_length h v mul)\<lparr>rpb_raw_buf := h, rpb_raw_buf_size := length h + v, rpb_read_state := Payload\<rparr>"

lemma length_read_simps [simp]:
  "0 < v \<Longrightarrow> rpb_ok (length_read h v mul)" "rpb_read_state (length_read h v mul) = Payload"
  "rpb_raw_buf (length_read h v mul) = h" "rpb_remaining_length (length_read h v mul) = v"
  by (simp_all add: length_read_def in_length_def rpb_init_def rpb_ok_def)

lemma last_length_byte:
  assumes "x AND 0x80 = 0"
  shows "rpb_bytes (in_length h val mul) [x] =
    (let v = val + unat (x AND 0x7F) * mul in
     if v = 0 then ([Ep_packet (h @ [x])], rpb_init) else ([], length_read (h @ [x]) v (mul * 128)))"
proof -
  define v where "v = val + unat (x AND 0x7F) * mul"
  define b where "b = in_length (h @ [x]) v (mul * 128)"
  have "rpb_length_byte x (in_length h val mul) =
     (if v = 0 then (True, rpb_emit (Ep_packet (h @ [x])) (b\<lparr>rpb_raw_buf_size := length h + 1 + v, rpb_raw_buf := h @ [x]\<rparr>))
      else (False, length_read (h @ [x]) v (mul * 128)))"
    using assms by (simp add: rpb_length_byte_def Let_def v_def b_def length_read_def in_length_def rpb_init_def)
  then show ?thesis
    by (simp add: in_length_bytes v_def [symmetric] Let_def del: rpb_bytes.simps(2))
qed

lemma length_bytes_loop:
  assumes "variable_bytes_to_val_loop val mul bs = (Some v, rest)"
  shows "\<exists>ps. bs = ps @ rest \<and>
    (if v = 0 then rpb_bytes (in_length h val mul) ps = ([Ep_packet (h @ ps)], rpb_init)
     else \<exists>b. rpb_bytes (in_length h val mul) ps = ([], b) \<and> rpb_ok b \<and> rpb_read_state b = Payload \<and>
       rpb_raw_buf b = h @ ps \<and> rpb_remaining_length b = v)"
  using assms
proof (induction val mul bs arbitrary: h rule: variable_bytes_to_val_loop.induct)
  case (2 val mul x xs)
  define val' where "val' = val + unat (x AND 0x7F) * mul"
  from 2(2) have mul: "mul \<noteq> 128 * 128 * 128 * 128" by auto
  show ?case
  proof (cases "x AND 0x80 = 0")
    case True
    with 2(2) mul have "v = val'" "rest = xs" by (simp_all add: val'_def Let_def)
    with last_length_byte [OF True, of h val mul] show ?thesis
      by (intro exI [of _ "[x]"]) (auto simp: val'_def Let_def simp del: rpb_bytes.simps(2))
  next
    case False
    with 2(2) mul have l: "variable_bytes_to_val_loop val' (mul * 128) xs = (Some v, rest)"
      by (simp add: val'_def Let_def)
    then have m: "mul * 128 \<noteq> 128 * 128 * 128 * 128" by (cases xs) auto
    from 2(1) [OF mul val'_def False l, of "h @ [x]"] obtain ps where ps: "xs = ps @ rest"
      "if v = 0 then rpb_bytes (in_length (h @ [x]) val' (mul * 128)) ps = ([Ep_packet ((h @ [x]) @ ps)], rpb_init)
       else \<exists>b. rpb_bytes (in_length (h @ [x]) val' (mul * 128)) ps = ([], b) \<and> rpb_ok b \<and> rpb_read_state b = Payload \<and>
         rpb_raw_buf b = (h @ [x]) @ ps \<and> rpb_remaining_length b = v" by blast
    have "rpb_length_byte x (in_length h val mul) = (False, in_length (h @ [x]) val' (mul * 128))"
      using False m by (simp add: rpb_length_byte_def in_length_def rpb_init_def Let_def val'_def)
    then have "rpb_bytes (in_length h val mul) (x # ps) = rpb_bytes (in_length (h @ [x]) val' (mul * 128)) ps"
      by (simp add: in_length_bytes del: rpb_bytes.simps(2))
    with ps show ?thesis by (intro exI [of _ "x # ps"]) (auto simp del: rpb_bytes.simps(2) split: if_splits)
  qed
qed simp

lemma framed_bytes:
  assumes "framed p"
  shows "rpb_bytes rpb_init p = ([Ep_packet p], rpb_init)"
proof -
  obtain fh body where p: "p = fh # val_to_variable_bytes (length body) @ body" "length body \<le> 0xfffffff"
    using assms by (auto simp: framed_def)
  let ?v = "val_to_variable_bytes (length body)"
  have "variable_bytes_to_val_loop 0 1 (?v @ body) = (Some (length body), body)"
    using variable_bytes_roundtrip [OF p(2)] by (simp add: variable_bytes_to_val_def)
  from length_bytes_loop [OF this, of "[fh]"] have l: "if body = [] then rpb_bytes (in_length [fh] 0 1) ?v = ([Ep_packet (fh # ?v)], rpb_init)
     else \<exists>b. rpb_bytes (in_length [fh] 0 1) ?v = ([], b) \<and> rpb_ok b \<and> rpb_read_state b = Payload \<and>
       rpb_raw_buf b = fh # ?v \<and> rpb_remaining_length b = length body" by (simp only: append_same_eq length_0_conv append_Cons append_Nil ex_simps simp_thms)
  have "rpb_bytes rpb_init p = rpb_bytes (in_length [fh] 0 1) (?v @ body)"
    by (simp add: p(1) in_length_def rpb_init_def rpb_clear_def taken_def)
  also have "\<dots> = ([Ep_packet p], rpb_init)"
  proof (cases "body = []")
    case True
    with l show ?thesis by (simp add: rpb_bytes_append p(1))
  next
    case False
    with l obtain b where b: "rpb_bytes (in_length [fh] 0 1) ?v = ([], b)" "rpb_ok b" "rpb_read_state b = Payload"
      "rpb_raw_buf b = fh # ?v" "rpb_remaining_length b = length body" by auto
    with payload_bytes [OF b(2,3) False] show ?thesis by (simp add: rpb_bytes_append p(1))
  qed
  finally show ?thesis .
qed

lemma framed_stream: "list_all framed ps \<Longrightarrow> rpb_bytes rpb_init (concat ps) = (map Ep_packet ps, rpb_init)"
  by (induction ps) (simp_all add: rpb_bytes_append framed_bytes)

lemma framedI:
  assumes "packet_variant_ok p" and "\<exists>body. concat (packet_variant_const_buffer_sequence p) = fh # rlb @ body"
    and "packet_variant_size p = 1 + length rlb + rl" and "\<exists>c n. header_ok c fh rl rlb n"
  shows "framed (concat (packet_variant_const_buffer_sequence p))"
proof -
  obtain body where body: "concat (packet_variant_const_buffer_sequence p) = fh # rlb @ body" using assms(2) by blast
  with packet_wire(2) [OF assms(1)] assms(3) have "length body = rl" by simp
  with body assms(4) show ?thesis unfolding framed_def header_ok_def by blast
qed

lemma framed_small:
  assumes "length body < 128"
  shows "framed (fh # of_nat (length body) # body)"
proof -
  have "(of_nat (length body) :: byte) AND 0x7F = of_nat (length body)"
    using assms by (simp add: word_unat_eq_iff and_0x7F unat_byte_of_nat)
  with assms show ?thesis
    unfolding framed_def
    by (intro exI [of _ fh] exI [of _ body]) (simp add: val_to_variable_bytes_def val_to_variable_bytes_loop.simps)
qed

lemma framed_all [intro]:
  "v3_connack_ok p \<Longrightarrow> framed p" "v3_ack_ok c 2 p \<Longrightarrow> framed p" "v3_empty_ok c p \<Longrightarrow> framed p"
  using framed_small [of "[a, b]" for a b] framed_small [of "[]"]
  by (auto simp: v3_connack_ok_def v3_ack_ok_def v3_empty_ok_def numeral_2_eq_2 length_Suc_conv)

lemmas packet_buffers = v3_connect_const_buffer_sequence_def v3_publish_const_buffer_sequence_def
  v3_subscribe_const_buffer_sequence_def v3_suback_const_buffer_sequence_def v3_unsubscribe_const_buffer_sequence_def
  v5_connect_const_buffer_sequence_def v5_connack_const_buffer_sequence_def v5_publish_const_buffer_sequence_def
  v5_ack_const_buffer_sequence_def v5_reason_const_buffer_sequence_def v5_subscribe_const_buffer_sequence_def
  v5_suback_const_buffer_sequence_def v5_unsubscribe_const_buffer_sequence_def

lemmas packet_sizes = v3_connect_size_def v3_publish_size_def v3_subscribe_size_def v3_suback_size_def
  v3_unsubscribe_size_def v5_connect_size_def v5_connack_size_def v5_publish_size_def v5_ack_size_def v5_reason_size_def
  v5_subscribe_size_def v5_suback_size_def v5_unsubscribe_size_def

lemmas packet_oks = v3_connect_ok_def v3_publish_ok_def v3_subscribe_ok_def v3_suback_ok_def v3_unsubscribe_ok_def
  v5_connect_ok_def v5_connack_ok_def v5_publish_ok_def v5_ack_ok_def v5_reason_ok_def v5_subscribe_ok_def
  v5_suback_ok_def v5_unsubscribe_ok_def

lemma packet_framed:
  assumes ok: "packet_variant_ok p"
  shows "framed (concat (packet_variant_const_buffer_sequence p))"
proof (cases p)
  case (V3_connect q)
  show ?thesis
    by (rule framedI [OF ok, of "c3_fixed_header q" "c3_remaining_length_buf q" "c3_remaining_length q"])
       (use ok V3_connect in \<open>auto simp: packet_buffers packet_sizes packet_oks\<close>)
next
  case (V3_publish q)
  show ?thesis
    by (rule framedI [OF ok, of "p3_fixed_header q" "p3_remaining_length_buf q" "p3_remaining_length q"])
       (use ok V3_publish in \<open>auto simp: packet_buffers packet_sizes packet_oks\<close>)
next
  case (V3_subscribe q)
  show ?thesis
    by (rule framedI [OF ok, of "s3_fixed_header q" "s3_remaining_length_buf q" "s3_remaining_length q"])
       (use ok V3_subscribe in \<open>auto simp: packet_buffers packet_sizes packet_oks\<close>)
next
  case (V3_suback q)
  show ?thesis
    by (rule framedI [OF ok, of "sa3_fixed_header q" "sa3_remaining_length_buf q" "sa3_remaining_length q"])
       (use ok V3_suback in \<open>auto simp: packet_buffers packet_sizes packet_oks\<close>)
next
  case (V3_unsubscribe q)
  show ?thesis
    by (rule framedI [OF ok, of "u3_fixed_header q" "u3_remaining_length_buf q" "u3_remaining_length q"])
       (use ok V3_unsubscribe in \<open>auto simp: packet_buffers packet_sizes packet_oks\<close>)
next
  case (V5_connect q)
  show ?thesis
    by (rule framedI [OF ok, of "c5_fixed_header q" "c5_remaining_length_buf q" "c5_remaining_length q"])
       (use ok V5_connect in \<open>auto simp: packet_buffers packet_sizes packet_oks\<close>)
next
  case (V5_connack q)
  show ?thesis
    by (rule framedI [OF ok, of "ca5_fixed_header q" "ca5_remaining_length_buf q" "ca5_remaining_length q"])
       (use ok V5_connack in \<open>auto simp: packet_buffers packet_sizes packet_oks\<close>)
next
  case (V5_publish q)
  show ?thesis
    by (rule framedI [OF ok, of "p5_fixed_header q" "p5_remaining_length_buf q" "p5_remaining_length q"])
       (use ok V5_publish in \<open>auto simp: packet_buffers packet_sizes packet_oks\<close>)
next
  case (V5_subscribe q)
  show ?thesis
    by (rule framedI [OF ok, of "s5_fixed_header q" "s5_remaining_length_buf q" "s5_remaining_length q"])
       (use ok V5_subscribe in \<open>auto simp: packet_buffers packet_sizes packet_oks\<close>)
next
  case (V5_unsubscribe q)
  show ?thesis
    by (rule framedI [OF ok, of "u5_fixed_header q" "u5_remaining_length_buf q" "u5_remaining_length q"])
       (use ok V5_unsubscribe in \<open>auto simp: packet_buffers packet_sizes packet_oks\<close>)
next
  case (V5_puback q)
  show ?thesis
    by (rule framedI [OF ok, of "a5_fixed_header q" "a5_remaining_length_buf q" "a5_remaining_length q"])
       (use ok V5_puback in \<open>auto simp: packet_buffers packet_sizes packet_oks\<close>)
next
  case (V5_pubrec q)
  show ?thesis
    by (rule framedI [OF ok, of "a5_fixed_header q" "a5_remaining_length_buf q" "a5_remaining_length q"])
       (use ok V5_pubrec in \<open>auto simp: packet_buffers packet_sizes packet_oks\<close>)
next
  case (V5_pubrel q)
  show ?thesis
    by (rule framedI [OF ok, of "a5_fixed_header q" "a5_remaining_length_buf q" "a5_remaining_length q"])
       (use ok V5_pubrel in \<open>auto simp: packet_buffers packet_sizes packet_oks\<close>)
next
  case (V5_pubcomp q)
  show ?thesis
    by (rule framedI [OF ok, of "a5_fixed_header q" "a5_remaining_length_buf q" "a5_remaining_length q"])
       (use ok V5_pubcomp in \<open>auto simp: packet_buffers packet_sizes packet_oks\<close>)
next
  case (V5_suback q)
  show ?thesis
    by (rule framedI [OF ok, of "sa5_fixed_header q" "sa5_remaining_length_buf q" "sa5_remaining_length q"])
       (use ok V5_suback in \<open>auto simp: packet_buffers packet_sizes packet_oks\<close>)
next
  case (V5_unsuback q)
  show ?thesis
    by (rule framedI [OF ok, of "sa5_fixed_header q" "sa5_remaining_length_buf q" "sa5_remaining_length q"])
       (use ok V5_unsuback in \<open>auto simp: packet_buffers packet_sizes packet_oks\<close>)
next
  case (V5_disconnect q)
  show ?thesis
    by (rule framedI [OF ok, of "r5_fixed_header q" "r5_remaining_length_buf q" "r5_remaining_length q"])
       (use ok V5_disconnect in \<open>auto simp: packet_buffers packet_sizes packet_oks\<close>)
next
  case (V5_auth q)
  show ?thesis
    by (rule framedI [OF ok, of "r5_fixed_header q" "r5_remaining_length_buf q" "r5_remaining_length q"])
       (use ok V5_auth in \<open>auto simp: packet_buffers packet_sizes packet_oks\<close>)
qed (use ok in \<open>auto simp: v3_all_const_buffer_sequence_def\<close>)

text \<open>
  C6. Reassembly does not depend on how the stream is cut. Let the bytes that arrived be those
  of well-formed packets one after the other. Whatever chunks they arrived in and whenever
  \<^verbatim>\<open>recv\<close> was called in between, the packets taken are a prefix of the packets sent, in order and
  byte for byte, without an error; once the stream is used up they are all of them and the
  builder is back in its initial state. A call on a stream with bytes in it makes progress.
\<close>

theorem packets_reassembled:
  assumes "rpb_run (concat (map (concat \<circ> packet_variant_const_buffer_sequence) ps)) (b, stream, out)"
    and "list_all packet_variant_ok ps"
  shows "(\<exists>k. out = map (Ep_packet \<circ> concat \<circ> packet_variant_const_buffer_sequence) (take k ps)) \<and>
     (stream = [] \<longrightarrow> out = map (Ep_packet \<circ> concat \<circ> packet_variant_const_buffer_sequence) ps \<and> b = rpb_init) \<and>
     (stream \<noteq> [] \<longrightarrow> length (snd (rpb_recv b stream)) < length stream)"
proof -
  let ?ws = "map (concat \<circ> packet_variant_const_buffer_sequence) ps"
  obtain d where d: "concat ?ws = d @ stream" "rpb_bytes rpb_init d = (out, b)" "rpb_ok b"
    using rpb_run_prefix [OF assms(1)] by blast
  have all: "rpb_bytes rpb_init (concat ?ws) = (map Ep_packet ?ws, rpb_init)"
    using assms(2) by (intro framed_stream) (auto simp: list_all_iff packet_framed)
  obtain out2 b2 where "rpb_bytes b stream = (out2, b2)" by fastforce
  with all d(1,2) have "map Ep_packet ?ws = out @ out2" by (simp add: rpb_bytes_append)
  then have "out = map Ep_packet (take (length out) ?ws)" by (metis append_eq_conv_conj take_map)
  moreover have "stream \<noteq> [] \<Longrightarrow> length (snd (rpb_recv b stream)) < length stream"
    using recv_bytes [OF d(3), of stream] by (cases "rpb_recv b stream") fastforce
  ultimately show ?thesis using all d by (auto simp: take_map comp_assoc)
qed

theorem packets_reassembled_witness:
  "\<exists>b. rpb_run [0xC0, 0, 0xD0, 0] (b, [], [Ep_packet [0xC0, 0], Ep_packet [0xD0, 0]]) \<and> b = rpb_init"
proof -
  let ?p = "V3_pingreq make_v3_pingreq" and ?q = "V3_pingresp make_v3_pingresp"
  have w: "map (concat \<circ> packet_variant_const_buffer_sequence) [?p, ?q] = [[0xC0, 0], [0xD0, 0]]" by code_simp
  have r1: "rpb_recv rpb_init [0xC0] = (in_length [0xC0] 0 1, [])"
    by (simp add: rpb_init_def in_length_def)
  have r2: "rpb_recv (in_length [0xC0] 0 1) [0, 0xD0] = (rpb_emit (Ep_packet [0xC0, 0]) rpb_init, [0xD0])"
    and r3: "rpb_recv rpb_init [0xD0, 0] = (rpb_emit (Ep_packet [0xD0, 0]) rpb_init, [])"
    by (simp_all add: in_length_def rpb_init_def rpb_length_byte_def rpb_emit_def rpb_initialize_def Let_def)
  have "rpb_run [0xC0] (rpb_init, [0xC0], [])" using rpb_run.arrive [OF rpb_run.start, of "[0xC0]"] by simp
  from rpb_run.call [OF this r1] have "rpb_run [0xC0] (in_length [0xC0] 0 1, [], [])" by simp
  from rpb_run.arrive [OF this, of "[0, 0xD0]"] have "rpb_run [0xC0, 0, 0xD0] (in_length [0xC0] 0 1, [0, 0xD0], [])" by simp
  from rpb_run.call [OF this r2] have "rpb_run [0xC0, 0, 0xD0] (rpb_init, [0xD0], [Ep_packet [0xC0, 0]])" by simp
  from rpb_run.arrive [OF this, of "[0]"]
  have "rpb_run [0xC0, 0, 0xD0, 0] (rpb_init, [0xD0, 0], [Ep_packet [0xC0, 0]])" by simp
  from rpb_run.call [OF this r3]
  have r: "rpb_run [0xC0, 0, 0xD0, 0] (rpb_init, [], [Ep_packet [0xC0, 0], Ep_packet [0xD0, 0]])" by simp
  have "list_all packet_variant_ok [?p, ?q]" by (simp add: make_v3_pingreq_def make_v3_pingresp_def make_v3_empty_ok)
  with packets_reassembled [of "[?p, ?q]" rpb_init "[]" "[Ep_packet [0xC0, 0], Ep_packet [0xD0, 0]]"] r
  show ?thesis unfolding w by auto
qed

end
