(* ===== verification/Value_Allocator.thy ===== *)
theory Value_Allocator
  imports Prelude
begin

text \<open>
  The allocator of packet identifiers and topic aliases: \<^verbatim>\<open>util/value_allocator.hpp\<close> and its
  client \<^verbatim>\<open>protocol/impl/packet_id_manager.hpp\<close>.

  The allocator keeps the \<^emph>\<open>free\<close> values as a set of closed intervals, in a
  \<^verbatim>\<open>boost::multi_index\<close> container ordered by an \<^verbatim>\<open>operator<\<close> under which overlapping intervals are
  equivalent. The container is modelled by the list of its elements in container order, with
  the documented behaviour of the container's operations written out (\<open>pool_emplace\<close>,
  \<open>pool_modify\<close>, \<open>pool_find\<close>, \<open>pool_upper_bound\<close>).

  The value type \<^verbatim>\<open>T\<close> is \<^verbatim>\<open>std::uint16_t\<close> or \<^verbatim>\<open>std::uint32_t\<close>; the model carries its width in
  bits. A 16-bit operand of \<open>+\<close> is promoted to a 32-bit \<^verbatim>\<open>int\<close> and does not wrap, a 32-bit one
  wraps (\<open>plus1\<close>).
\<close>

subsection \<open>Intervals\<close>

record value_interval =
  low :: nat
  high :: nat

definition iv_less :: "value_interval \<Rightarrow> value_interval \<Rightarrow> bool" where
  "iv_less lhs rhs \<longleftrightarrow> low lhs < low rhs \<and> high lhs < low rhs"

definition iv :: "nat \<Rightarrow> nat \<Rightarrow> value_interval" where
  "iv l h = \<lparr>low = l, high = h\<rparr>"

text \<open>\<^verbatim>\<open>v + 1\<close> for a \<^verbatim>\<open>v\<close> of an unsigned type of \<open>w\<close> bits, after integer promotion.\<close>

definition plus1 :: "nat \<Rightarrow> nat \<Rightarrow> nat" where
  "plus1 w v = (if w < 32 then v + 1 else (v + 1) mod 2 ^ w)"

subsection \<open>The ordered container of intervals\<close>

type_synonym pool = "value_interval list"

fun pool_emplace :: "value_interval \<Rightarrow> pool \<Rightarrow> pool" where
  "pool_emplace x [] = [x]"
| "pool_emplace x (y # ys) =
     (if iv_less y x then y # pool_emplace x ys
      else if iv_less x y then x # y # ys
      else y # ys)"

definition pool_modify :: "value_interval \<Rightarrow> value_interval \<Rightarrow> pool \<Rightarrow> pool" where
  "pool_modify old new p = pool_emplace new (remove1 old p)"

fun pool_find :: "value_interval \<Rightarrow> pool \<Rightarrow> value_interval option" where
  "pool_find x [] = None"
| "pool_find x (y # ys) =
     (if iv_less y x then pool_find x ys
      else if iv_less x y then None
      else Some y)"

text \<open>\<^verbatim>\<open>upper_bound\<close>: the elements before the returned iterator, and those from it on.\<close>

definition pool_upper_bound :: "value_interval \<Rightarrow> pool \<Rightarrow> pool \<times> pool" where
  "pool_upper_bound x p =
     (takeWhile (\<lambda>y. \<not> iv_less x y) p, dropWhile (\<lambda>y. \<not> iv_less x y) p)"

subsection \<open>The allocator\<close>

record value_allocator =
  va_pool :: pool
  va_lowest :: nat
  va_highest :: nat

definition value_allocator_init :: "nat \<Rightarrow> nat \<Rightarrow> value_allocator" where
  "value_allocator_init lowest highest =
     \<lparr>va_pool = pool_emplace (iv lowest highest) [], va_lowest = lowest, va_highest = highest\<rparr>"

definition allocate :: "nat \<Rightarrow> value_allocator \<Rightarrow> nat option \<times> value_allocator" where
  "allocate w a =
     (case va_pool a of
        [] \<Rightarrow> (None, a)
      | it # _ \<Rightarrow>
          (let value = low it in
           if plus1 w (low it) \<le> high it
           then (Some value,
                 a\<lparr>va_pool := pool_modify it (iv ((low it + 1) mod 2 ^ w) (high it)) (va_pool a)\<rparr>)
           else (Some value, a\<lparr>va_pool := remove1 it (va_pool a)\<rparr>)))"

definition first_vacant :: "value_allocator \<Rightarrow> nat option" where
  "first_vacant a = (case va_pool a of [] \<Rightarrow> None | it # _ \<Rightarrow> Some (low it))"

definition deallocate_pool :: "nat \<Rightarrow> nat \<Rightarrow> pool \<Rightarrow> pool" where
  "deallocate_pool w v p =
     (case pool_upper_bound (iv v v) p of
        (before, []) \<Rightarrow>
          (if before = [] then pool_emplace (iv v v) p
           else
             (let itl = last before in
              if plus1 w (high itl) = v then pool_modify itl (iv (low itl) v) p
              else pool_emplace (iv v v) p))
      | (before, itr # _) \<Rightarrow>
          (if before = []
           then
             (if plus1 w v = low itr then pool_modify itr (iv v (high itr)) p
              else pool_emplace (iv v v) p)
           else
             (let itl = last before in
              if plus1 w (high itl) = v
              then
                (if plus1 w v = low itr
                 then pool_modify itl (iv (low itl) (high itr)) (remove1 itr p)
                 else pool_modify itl (iv (low itl) v) p)
              else
                (if plus1 w v = low itr
                 then pool_modify itr (iv v (high itr)) p
                 else pool_emplace (iv v v) p))))"

definition deallocate :: "nat \<Rightarrow> nat \<Rightarrow> value_allocator \<Rightarrow> value_allocator" where
  "deallocate w v a = a\<lparr>va_pool := deallocate_pool w v (va_pool a)\<rparr>"

definition use_value :: "nat \<Rightarrow> nat \<Rightarrow> value_allocator \<Rightarrow> bool \<times> value_allocator" where
  "use_value w v a =
     (case pool_find (iv v v) (va_pool a) of
        None \<Rightarrow> (False, a)
      | Some it \<Rightarrow>
          (let p1 = remove1 it (va_pool a);
               p2 = (if low it < v then pool_emplace (iv (low it) (v - 1)) p1 else p1);
               p3 = (if plus1 w v \<le> high it
                     then pool_emplace (iv (plus1 w v) (high it)) p2 else p2)
           in (True, a\<lparr>va_pool := p3\<rparr>)))"

definition is_used :: "nat \<Rightarrow> value_allocator \<Rightarrow> bool" where
  "is_used v a \<longleftrightarrow> pool_find (iv v v) (va_pool a) = None"

definition clear_allocator :: "value_allocator \<Rightarrow> value_allocator" where
  "clear_allocator a = a\<lparr>va_pool := pool_emplace (iv (va_lowest a) (va_highest a)) []\<rparr>"

definition interval_count :: "value_allocator \<Rightarrow> nat" where
  "interval_count a = length (va_pool a)"

subsection \<open>The packet identifier manager\<close>

text \<open>
  \<^verbatim>\<open>packet_id_manager<PacketId>\<close> forwards to one allocator over
  \<open>1 .. std::numeric_limits<PacketId>::max()\<close>; \<open>n\<close> is \<^verbatim>\<open>PacketIdBytes\<close> (2 or 4).
\<close>

type_synonym packet_id_manager = value_allocator

definition packet_id_manager_init :: "nat \<Rightarrow> packet_id_manager" where
  "packet_id_manager_init n = value_allocator_init 1 (256 ^ n - 1)"

definition acquire_unique_id :: "nat \<Rightarrow> packet_id_manager \<Rightarrow> nat option \<times> packet_id_manager" where
  "acquire_unique_id n m = allocate (8 * n) m"

definition register_id :: "nat \<Rightarrow> nat \<Rightarrow> packet_id_manager \<Rightarrow> bool \<times> packet_id_manager" where
  "register_id n v m = use_value (8 * n) v m"

definition is_used_id :: "nat \<Rightarrow> packet_id_manager \<Rightarrow> bool" where
  "is_used_id v m = is_used v m"

definition release_id :: "nat \<Rightarrow> nat \<Rightarrow> packet_id_manager \<Rightarrow> packet_id_manager" where
  "release_id n v m = deallocate (8 * n) v m"

definition clear_ids :: "packet_id_manager \<Rightarrow> packet_id_manager" where
  "clear_ids m = clear_allocator m"

subsection \<open>Canonical pools\<close>

text \<open>
  The invariant of the container: non-empty intervals inside \<open>{lo..hi}\<close>, in order, with a
  gap of at least one used value between neighbours.
\<close>

fun pool_ok :: "nat \<Rightarrow> nat \<Rightarrow> pool \<Rightarrow> bool" where
  "pool_ok lo hi [] = True"
| "pool_ok lo hi (x # xs) =
     (lo \<le> low x \<and> low x \<le> high x \<and> high x \<le> hi \<and> pool_ok (high x + 2) hi xs)"

definition pool_free :: "pool \<Rightarrow> nat set" where
  "pool_free p = (\<Union>x \<in> set p. {low x..high x})"

definition next_lo :: "nat \<Rightarrow> pool \<Rightarrow> nat" where
  "next_lo lo p = (if p = [] then lo else high (last p) + 2)"

lemma iv_sel [simp]: "low (iv l h) = l" "high (iv l h) = h"
  by (simp_all add: iv_def)

lemma iv_eta [simp]: "iv (low x) (high x) = x"
  by (simp add: iv_def)

lemma pool_free_simps [simp]:
  "pool_free [] = {}"
  "pool_free (x # p) = {low x..high x} \<union> pool_free p"
  "pool_free (p @ q) = pool_free p \<union> pool_free q"
  by (auto simp: pool_free_def)

lemma pool_ok_mono: "pool_ok lo hi p \<Longrightarrow> lo' \<le> lo \<Longrightarrow> pool_ok lo' hi p"
  by (cases p) auto

lemma pool_ok_append:
  "pool_ok lo hi (p @ q) \<longleftrightarrow> pool_ok lo hi p \<and> pool_ok (next_lo lo p) hi q"
  by (induction p arbitrary: lo) (auto simp: next_lo_def)

lemma pool_ok_bounds:
  "pool_ok lo hi p \<Longrightarrow> x \<in> set p \<Longrightarrow> lo \<le> low x \<and> low x \<le> high x \<and> high x \<le> hi"
  by (induction p arbitrary: lo) (auto, (fastforce dest: pool_ok_mono)+)

lemma pool_free_bounds: "pool_ok lo hi p \<Longrightarrow> pool_free p \<subseteq> {lo..hi}"
  using pool_ok_bounds by (fastforce simp: pool_free_def)

lemma pool_ok_butlast_less:
  assumes "pool_ok lo hi (p @ [y])" and "x \<in> set p"
  shows "high x + 2 \<le> low y"
  using assms
proof (induction p arbitrary: lo)
  case (Cons z zs)
  show ?case
  proof (cases "x \<in> set zs")
    case False
    with Cons.prems have "x = z" and "pool_ok (high z + 2) hi (zs @ [y])" by auto
    then show ?thesis using pool_ok_bounds by fastforce
  qed (use Cons in auto)
qed simp

lemma pool_ok_left_less:
  assumes ok: "pool_ok lo hi (p @ y # q)" and v: "low y \<le> v"
  shows "\<forall>x \<in> set p. iv_less x (iv v h)"
proof
  fix x assume x: "x \<in> set p"
  have "pool_ok lo hi (p @ [y])" using ok by (simp add: pool_ok_append)
  with x have "high x + 2 \<le> low y" by (rule pool_ok_butlast_less [rotated])
  moreover have "low x \<le> high x" using ok x by (auto simp: pool_ok_append dest: pool_ok_bounds)
  ultimately show "iv_less x (iv v h)" using v by (simp add: iv_less_def)
qed

subsection \<open>Container operations on canonical pools\<close>

lemma pool_emplace_middle:
  assumes "\<forall>y \<in> set p. iv_less y x" and "q \<noteq> [] \<Longrightarrow> iv_less x (hd q)"
  shows "pool_emplace x (p @ q) = p @ x # q"
  using assms by (induction p) (cases q; auto simp: iv_less_def)+

lemma pool_emplace_collision:
  assumes "\<forall>y \<in> set p. iv_less y x" and "\<not> iv_less y x" and "\<not> iv_less x y"
  shows "pool_emplace x (p @ y # q) = p @ y # q"
  using assms by (induction p) auto

lemma pool_modify_middle:
  assumes "old \<notin> set p" and "\<forall>y \<in> set p. iv_less y new" and "q \<noteq> [] \<Longrightarrow> iv_less new (hd q)"
  shows "pool_modify old new (p @ old # q) = p @ new # q"
  using assms by (simp add: pool_modify_def remove1_middle pool_emplace_middle)

lemma pool_find_free:
  "pool_ok lo hi p \<Longrightarrow>
   pool_find (iv v v) p = None \<longleftrightarrow> v \<notin> pool_free p"
proof (induction p arbitrary: lo)
  case (Cons x p)
  then have IH: "pool_find (iv v v) p = None \<longleftrightarrow> v \<notin> pool_free p"
    and sub: "pool_free p \<subseteq> {high x + 2..hi}" and "low x \<le> high x"
    by (auto dest: pool_free_bounds)
  then show ?case by (auto simp: iv_less_def)
qed simp

lemma pool_find_SomeD:
  assumes "pool_find (iv v v) p = Some x" and "\<forall>y \<in> set p. low y \<le> high y"
  obtains l r where "p = l @ x # r" and "\<forall>y \<in> set l. high y < v" and "low x \<le> v" and "v \<le> high x"
  using assms
proof (induction p arbitrary: thesis)
  case (Cons y ys)
  show ?case
  proof (cases "iv_less y (iv v v)")
    case True
    with Cons.prems(2,3) have "pool_find (iv v v) ys = Some x" "\<forall>y \<in> set ys. low y \<le> high y"
      by simp_all
    then obtain l r where "ys = l @ x # r" "\<forall>z \<in> set l. high z < v" "low x \<le> v" "v \<le> high x"
      using Cons.IH by metis
    with True show ?thesis
      by (intro Cons.prems(1) [of "y # l" r]) (auto simp: iv_less_def)
  next
    case False
    with Cons.prems(2) have "x = y" and "\<not> iv_less (iv v v) y"
      by (auto split: if_splits)
    with False Cons.prems(3) show ?thesis
      by (intro Cons.prems(1) [of "[]" ys]) (auto simp: iv_less_def)
  qed
qed simp

text \<open>What \<^verbatim>\<open>upper_bound\<close> returns for a single value on a canonical pool.\<close>

lemma pool_upper_bound_split:
  assumes "pool_ok lo hi p" and "pool_upper_bound (iv v v) p = (l, r)"
  shows "p = l @ r" and "\<forall>y \<in> set l. low y \<le> v" and "r \<noteq> [] \<Longrightarrow> v < low (hd r)"
proof -
  have ok: "\<forall>y \<in> set p. low y \<le> high y"
    using assms(1) pool_ok_bounds by blast
  have l: "l = takeWhile (\<lambda>y. \<not> iv_less (iv v v) y) p"
    and r: "r = dropWhile (\<lambda>y. \<not> iv_less (iv v v) y) p"
    using assms(2) by (simp_all add: pool_upper_bound_def)
  show "p = l @ r" by (simp add: l r)
  show "\<forall>y \<in> set l. low y \<le> v"
    using l by (auto dest: set_takeWhileD simp: iv_less_def)
  show "v < low (hd r)" if "r \<noteq> []"
    using hd_dropWhile [of "\<lambda>y. \<not> iv_less (iv v v) y" p] that r by (auto simp: iv_less_def)
qed

definition no_wrap :: "nat \<Rightarrow> nat \<Rightarrow> bool" where
  "no_wrap w hi \<longleftrightarrow> hi < 2 ^ w \<and> (w < 32 \<or> hi + 1 < 2 ^ w)"

lemma plus1_no_wrap [simp]: "no_wrap w hi \<Longrightarrow> v \<le> hi \<Longrightarrow> plus1 w v = v + 1"
  by (auto simp: plus1_def no_wrap_def)

text \<open>
  Returning a value to the pool, one lemma per shape of the neighbourhood: the value lies in
  the interval to the left (a second release), or in the gap between two intervals.
\<close>

lemma deallocate_pool_in_left:
  assumes ok: "pool_ok lo hi (l @ x # r)" and v: "low x \<le> v" "v \<le> high x" and nw: "no_wrap w hi"
    and r: "r \<noteq> [] \<Longrightarrow> v < low (hd r)"
  shows "deallocate_pool w v (l @ x # r) = l @ x # r"
proof -
  have lx: "\<forall>y \<in> set l. iv_less y (iv v v)"
    using ok v(1) by (rule pool_ok_left_less)
  have hix: "high x \<le> hi" using ok by (simp add: pool_ok_append)
  have le: "\<forall>y \<in> set (l @ [x]). \<not> iv_less (iv v v) y"
    using lx v by (auto simp: iv_less_def)
  have tw: "takeWhile (\<lambda>y. \<not> iv_less (iv v v) y) (l @ x # r) = l @ [x]"
    using le r by (cases r) (auto simp: takeWhile_append iv_less_def)
  have dw: "dropWhile (\<lambda>y. \<not> iv_less (iv v v) y) (l @ x # r) = r"
    using le r by (cases r) (auto simp: dropWhile_append iv_less_def)
  have col: "pool_emplace (iv v v) (l @ x # r) = l @ x # r"
    using lx v by (intro pool_emplace_collision) (auto simp: iv_less_def)
  show ?thesis
  proof (cases r)
    case Nil
    with nw v hix col show ?thesis
      using tw dw by (simp add: deallocate_pool_def pool_upper_bound_def)
  next
    case (Cons y ys)
    then have "high x + 2 \<le> low y" using ok by (simp add: pool_ok_append)
    with Cons nw v hix col show ?thesis
      using tw dw by (simp add: deallocate_pool_def pool_upper_bound_def)
  qed
qed

text \<open>
  The gap case. A value \<open>v\<close> with every interval of \<open>l\<close> below it and every interval of
  \<open>r\<close> above it: what the container operations of \<^verbatim>\<open>deallocate\<close> do there.
\<close>

definition in_gap :: "nat \<Rightarrow> nat \<Rightarrow> pool \<Rightarrow> nat \<Rightarrow> pool \<Rightarrow> bool" where
  "in_gap lo hi l v r \<longleftrightarrow> pool_ok lo hi (l @ r) \<and> lo \<le> v \<and> v \<le> hi \<and>
     (\<forall>y \<in> set l. high y < v) \<and> (r \<noteq> [] \<longrightarrow> v < low (hd r))"

lemma in_gap_okD:
  assumes "in_gap lo hi l v r"
  shows "\<forall>y \<in> set (l @ r). low y \<le> high y \<and> high y \<le> hi"
  using assms by (auto simp: in_gap_def pool_ok_append dest: pool_ok_bounds)

lemma in_gap_less:
  assumes "in_gap lo hi l v r"
  shows "\<forall>y \<in> set l. iv_less y (iv v h)" and "r \<noteq> [] \<Longrightarrow> k \<le> v \<Longrightarrow> iv_less (iv k v) (hd r)"
proof -
  have "low y < v \<and> high y < v" if "y \<in> set l" for y
    using that assms in_gap_okD [OF assms] by (force simp: in_gap_def)
  then show "\<forall>y \<in> set l. iv_less y (iv v h)" by (simp add: iv_less_def)
  show "r \<noteq> [] \<Longrightarrow> k \<le> v \<Longrightarrow> iv_less (iv k v) (hd r)"
    using assms by (simp add: iv_less_def in_gap_def)
qed

lemma in_gap_upper_bound:
  assumes g: "in_gap lo hi l v r"
  shows "pool_upper_bound (iv v v) (l @ r) = (l, r)"
proof -
  have "\<forall>y \<in> set l. \<not> iv_less (iv v v) y"
    using in_gap_less(1) [OF g] by (auto simp: iv_less_def)
  moreover have "r \<noteq> [] \<Longrightarrow> iv_less (iv v v) (hd r)"
    using g by (simp add: iv_less_def in_gap_def)
  ultimately show ?thesis
    by (cases r) (auto simp: pool_upper_bound_def takeWhile_append dropWhile_append)
qed

lemma in_gap_emplace:
  assumes "in_gap lo hi l v r"
  shows "pool_emplace (iv v v) (l @ r) = l @ iv v v # r"
  using in_gap_less [OF assms] by (intro pool_emplace_middle) auto

lemma in_gap_modify_left:
  assumes g: "in_gap lo hi (l @ [x]) v r" and h: "q \<noteq> [] \<Longrightarrow> h < low (hd q)" "low x \<le> h"
  shows "pool_modify x (iv (low x) h) (l @ x # q) = l @ iv (low x) h # q"
proof -
  have ok: "pool_ok lo hi (l @ [x])" using g by (simp add: in_gap_def pool_ok_append)
  then have "x \<notin> set l" using pool_ok_butlast_less [of lo hi l x x] in_gap_okD [OF g] by auto
  moreover have "\<forall>y \<in> set l. iv_less y (iv (low x) h)"
    using ok by (intro pool_ok_left_less [of lo hi l x "[]"]) simp_all
  ultimately show ?thesis
    using h by (intro pool_modify_middle) (auto simp: iv_less_def)
qed

lemma in_gap_notin_left: "in_gap lo hi l v (y # r) \<Longrightarrow> y \<notin> set l"
  using in_gap_okD by (fastforce simp: in_gap_def)

lemma in_gap_modify_right:
  assumes g: "in_gap lo hi l v (y # r)"
  shows "pool_modify y (iv v (high y)) (l @ y # r) = l @ iv v (high y) # r"
proof -
  have "r \<noteq> [] \<Longrightarrow> iv_less (iv v (high y)) (hd r)"
    using g in_gap_okD [OF g] by (cases r) (auto simp: in_gap_def iv_less_def pool_ok_append)
  then show ?thesis
    using in_gap_notin_left [OF g] in_gap_less(1) [OF g] by (intro pool_modify_middle) auto
qed

lemma in_gap_modify_both:
  assumes g: "in_gap lo hi (l @ [x]) v (y # r)"
  shows "pool_modify x (iv (low x) (high y)) (remove1 y (l @ x # y # r)) =
         l @ iv (low x) (high y) # r"
proof -
  have "remove1 y (l @ x # y # r) = l @ x # r"
    using in_gap_notin_left [OF g] by (auto simp: remove1_append)
  moreover have "r \<noteq> [] \<Longrightarrow> high y < low (hd r)" "low x \<le> high y"
    using g in_gap_okD [OF g] by (cases r; auto simp: in_gap_def pool_ok_append)+
  ultimately show ?thesis using in_gap_modify_left [OF g] by simp
qed

lemma deallocate_pool_gap:
  assumes g: "in_gap lo hi l v r" and nw: "no_wrap w hi"
  shows "pool_ok lo hi (deallocate_pool w v (l @ r)) \<and>
         pool_free (deallocate_pool w v (l @ r)) = insert v (pool_free (l @ r))"
proof -
  note ub = in_gap_upper_bound [OF g] and emp = in_gap_emplace [OF g]
  note ok = g [unfolded in_gap_def] and le = in_gap_okD [OF g]
  show ?thesis
  proof (cases l rule: rev_cases)
    case l: Nil
    show ?thesis
      using g l ub emp ok nw in_gap_modify_right [of lo hi "[]" v]
      by (cases r) (auto simp: deallocate_pool_def)
  next
    case (snoc l' x)
    show ?thesis
    proof (cases r)
      case Nil
      have x: "low x \<le> high x" "high x < v" "high x \<le> hi" "v \<le> hi" using ok le snoc by auto
      have ok': "pool_ok lo hi (l' @ [x])" using ok Nil snoc by simp
      have "deallocate_pool w v (l @ r) =
          (if high x + 1 = v then l' @ [iv (low x) v] else l' @ [x, iv v v])"
        using snoc Nil ub emp nw x in_gap_modify_left [OF g [unfolded snoc], of "[]" v]
        by (simp add: deallocate_pool_def)
      then show ?thesis
        using ok' x unfolding snoc Nil
        by (cases "high x + 1 = v") (auto simp: pool_ok_append next_lo_def)
    next
      case (Cons y ys)
      have y: "v < low y" "low y \<le> high y" "low x \<le> high x" "high x < v" "high x \<le> hi" "v \<le> hi"
        using ok le Cons snoc by auto
      have ok': "pool_ok lo hi (l' @ x # y # ys)" using ok Cons snoc by simp
      have "deallocate_pool w v (l @ r) =
          (if high x + 1 = v
           then if v + 1 = low y then l' @ iv (low x) (high y) # ys else l' @ iv (low x) v # y # ys
           else if v + 1 = low y then l' @ x # iv v (high y) # ys else l' @ x # iv v v # y # ys)"
        using snoc Cons ub emp nw y in_gap_modify_left [OF g [unfolded snoc], of r v]
          in_gap_modify_right [OF g [unfolded Cons]] in_gap_modify_both [OF g [unfolded snoc Cons]]
        by (simp add: deallocate_pool_def)
      then show ?thesis
        using ok' y unfolding snoc Cons
        by (cases "high x + 1 = v"; cases "v + 1 = low y") (auto simp: pool_ok_append next_lo_def)
    qed
  qed
qed

lemma deallocate_pool_correct:
  assumes ok: "pool_ok lo hi p" and v: "lo \<le> v" "v \<le> hi" and nw: "no_wrap w hi"
  shows "pool_ok lo hi (deallocate_pool w v p) \<and>
         pool_free (deallocate_pool w v p) = insert v (pool_free p)"
proof -
  obtain l r where lr: "pool_upper_bound (iv v v) p = (l, r)" by (meson surj_pair)
  note sp = pool_upper_bound_split [OF ok lr]
  show ?thesis
  proof (cases "\<forall>y \<in> set l. high y < v")
    case True
    with ok v sp show ?thesis
      using deallocate_pool_gap [of lo hi l v r w] nw by (auto simp: in_gap_def)
  next
    case False
    then obtain y where y: "y \<in> set l" "v \<le> high y" by force
    then obtain l' x where l: "l = l' @ [x]" by (cases l rule: rev_cases) auto
    have "y = x"
    proof (rule ccontr)
      assume "y \<noteq> x"
      with y l have "y \<in> set l'" by simp
      moreover have "pool_ok lo hi (l' @ [x])" using ok sp(1) l by (simp add: pool_ok_append)
      ultimately have "high y + 2 \<le> low x" by (rule pool_ok_butlast_less [rotated])
      with sp(2) l y show False by simp
    qed
    then have "deallocate_pool w v p = p" and "v \<in> pool_free p"
      using deallocate_pool_in_left [of lo hi l' x r v w] ok sp l y nw by auto
    with ok show ?thesis by (simp add: insert_absorb)
  qed
qed

lemma use_pool_shape:
  assumes ok: "pool_ok lo hi (l @ x # r)" and v: "low x \<le> v" "v \<le> high x"
  shows "l @ (if low x < v then [iv (low x) (v - 1)] else []) @
             (if v + 1 \<le> high x then [iv (v + 1) (high x)] else []) @ r =
         (let p2 = (if low x < v then pool_emplace (iv (low x) (v - 1)) (l @ r) else l @ r)
          in if v + 1 \<le> high x then pool_emplace (iv (v + 1) (high x)) p2 else p2)"
proof -
  have l: "\<forall>y \<in> set l. iv_less y (iv k h)" if "low x \<le> k" for k h
    using ok that by (rule pool_ok_left_less)
  have r: "r \<noteq> [] \<Longrightarrow> high x + 2 \<le> low (hd r)"
    using ok by (cases r) (auto simp: pool_ok_append)
  have e1: "pool_emplace (iv (low x) (v - 1)) (l @ r) = l @ iv (low x) (v - 1) # r"
    using l r v by (intro pool_emplace_middle) (auto simp: iv_less_def)
  have e2: "pool_emplace (iv (v + 1) (high x)) (l @ m @ r) = l @ m @ iv (v + 1) (high x) # r"
    if "\<forall>y \<in> set m. iv_less y (iv (v + 1) (high x))" for m
  proof -
    have "\<forall>y \<in> set (l @ m). iv_less y (iv (v + 1) (high x))"
      using l [of "v + 1" "high x"] v that by auto
    moreover have "iv_less (iv (v + 1) (high x)) (hd r)" if "r \<noteq> []"
      using r [OF that] v by (simp add: iv_less_def)
    ultimately show ?thesis using pool_emplace_middle [of "l @ m"] by simp
  qed
  show ?thesis
    using e1 e2 [of "[]"] e2 [of "[iv (low x) (v - 1)]"] v by (auto simp: Let_def iv_less_def)
qed

lemma use_pool_correct:
  assumes ok: "pool_ok lo hi (l @ x # r)" and v: "low x \<le> v" "v \<le> high x"
  defines "p \<equiv> l @ (if low x < v then [iv (low x) (v - 1)] else []) @
             (if v + 1 \<le> high x then [iv (v + 1) (high x)] else []) @ r"
  shows "pool_ok lo hi p" and "pool_free p = pool_free (l @ x # r) - {v}"
proof -
  have r: "pool_ok (high x + 2) hi r" and l: "pool_ok lo hi l" "next_lo lo l \<le> low x" "high x \<le> hi"
    using ok by (auto simp: pool_ok_append)
  have rv: "pool_ok (v + 2) hi r" "pool_ok (v + 1) hi r" "pool_ok (next_lo lo l) hi r"
    using pool_ok_mono [OF r] v l by auto
  then show "pool_ok lo hi p" using l r v by (auto simp: p_def pool_ok_append next_lo_def)
  have "v \<notin> pool_free r" using pool_free_bounds [OF r] v by auto
  moreover have "v \<notin> pool_free l"
    using pool_ok_left_less [OF ok order_refl] v by (fastforce simp: pool_free_def iv_less_def)
  moreover have "{low x..high x} - {v} =
      (if low x < v then {low x..v - 1} else {}) \<union> (if v + 1 \<le> high x then {v + 1..high x} else {})"
    using v by auto
  ultimately show "pool_free p = pool_free (l @ x # r) - {v}"
    by (simp add: p_def Un_Diff Un_assoc)
qed

subsection \<open>The allocator against sets of free values\<close>

definition va_ok :: "nat \<Rightarrow> value_allocator \<Rightarrow> bool" where
  "va_ok w a \<longleftrightarrow> va_lowest a \<le> va_highest a \<and> no_wrap w (va_highest a) \<and>
     pool_ok (va_lowest a) (va_highest a) (va_pool a)"

definition va_range :: "value_allocator \<Rightarrow> nat set" where
  "va_range a = {va_lowest a..va_highest a}"

definition va_free :: "value_allocator \<Rightarrow> nat set" where
  "va_free a = pool_free (va_pool a)"

lemma va_free_range: "va_ok w a \<Longrightarrow> va_free a \<subseteq> va_range a"
  by (simp add: va_ok_def va_free_def va_range_def pool_free_bounds)

lemma is_used_free: "va_ok w a \<Longrightarrow> is_used v a \<longleftrightarrow> v \<notin> va_free a"
  using pool_find_free by (auto simp: va_ok_def va_free_def is_used_def)

lemma init_correct [inv_intros]:
  assumes "lo \<le> hi" and "no_wrap w hi"
  shows "va_ok w (value_allocator_init lo hi)" and "va_free (value_allocator_init lo hi) = {lo..hi}"
    and "va_range (value_allocator_init lo hi) = {lo..hi}"
  using assms by (auto simp: value_allocator_init_def va_ok_def va_free_def va_range_def)

lemma clear_correct [inv_intros]:
  assumes "va_ok w a"
  shows "va_ok w (clear_allocator a)" and "va_free (clear_allocator a) = va_range a"
    and "va_range (clear_allocator a) = va_range a"
  using assms by (auto simp: clear_allocator_def va_ok_def va_free_def va_range_def)

lemma pool_head_least:
  assumes "pool_ok lo hi (x # p)"
  shows "(LEAST v. v \<in> pool_free (x # p)) = low x" and "low x \<in> pool_free (x # p)"
proof -
  show mem: "low x \<in> pool_free (x # p)" using assms by simp
  have "low x \<le> v" if "v \<in> pool_free (x # p)" for v
    using that assms pool_free_bounds [of "high x + 2" hi p] by auto
  with mem show "(LEAST v. v \<in> pool_free (x # p)) = low x" by (rule Least_equality)
qed

lemma allocate_None [simp]: "va_free a = {} \<Longrightarrow> va_ok w a \<Longrightarrow> allocate w a = (None, a)"
  by (cases "va_pool a") (auto simp: allocate_def va_free_def va_ok_def)

lemma allocate_Some:
  assumes ok: "va_ok w a" and ne: "va_free a \<noteq> {}"
  shows "\<exists>a'. allocate w a = (Some (LEAST v. v \<in> va_free a), a') \<and> va_ok w a' \<and>
    va_free a' = va_free a - {LEAST v. v \<in> va_free a} \<and> va_range a' = va_range a"
proof -
  from ne obtain x p where p: "va_pool a = x # p" by (cases "va_pool a") (auto simp: va_free_def)
  let ?lo = "va_lowest a" and ?hi = "va_highest a"
  have ok': "pool_ok ?lo ?hi ([] @ x # p)" and nw: "no_wrap w ?hi"
    using ok p by (auto simp: va_ok_def)
  have x: "low x \<le> high x" "high x \<le> ?hi" "low x + 1 < 2 ^ w \<or> low x = high x"
    using ok' nw by (auto simp: no_wrap_def)
  have least: "(LEAST v. v \<in> va_free a) = low x"
    using pool_head_least [of ?lo ?hi x p] ok' p by (simp add: va_free_def)
  have mo: "pool_modify x (iv (low x + 1) (high x)) (x # p) = iv (low x + 1) (high x) # p"
    if "low x < high x"
    using pool_modify_middle [of x "[]" "iv (low x + 1) (high x)" p] ok' that
    by (cases p) (auto simp: iv_less_def)
  have "allocate w a = (Some (low x),
      a\<lparr>va_pool := (if low x + 1 \<le> high x then [iv (low x + 1) (high x)] else []) @ p\<rparr>)"
    using mo x nw by (auto simp: allocate_def p Let_def)
  moreover note use_pool_correct [OF ok', of "low x"]
  ultimately show ?thesis
    using least ok ok' x by (simp add: va_ok_def va_free_def va_range_def p)
qed

lemma use_value_correct:
  assumes ok: "va_ok w a" and v: "v \<in> va_free a"
  shows "\<exists>a'. use_value w v a = (True, a') \<and> va_ok w a' \<and>
    va_free a' = va_free a - {v} \<and> va_range a' = va_range a"
proof -
  let ?lo = "va_lowest a" and ?hi = "va_highest a"
  have ok': "pool_ok ?lo ?hi (va_pool a)" using ok by (simp add: va_ok_def)
  then obtain x where x: "pool_find (iv v v) (va_pool a) = Some x"
    using v pool_find_free [OF ok', of v] by (auto simp: va_free_def)
  then obtain l r where p: "va_pool a = l @ x # r" "\<forall>y \<in> set l. high y < v" "low x \<le> v" "v \<le> high x"
    using pool_find_SomeD pool_ok_bounds [OF ok'] by metis
  have nl: "x \<notin> set l" using p by auto
  have "high x \<le> ?hi" using ok' p pool_ok_bounds by auto
  then have w: "plus1 w v = v + 1"
    using ok p(4) plus1_no_wrap [of w ?hi v] by (auto simp: va_ok_def)
  have "use_value w v a = (True, a\<lparr>va_pool := l @ (if low x < v then [iv (low x) (v - 1)] else []) @
      (if v + 1 \<le> high x then [iv (v + 1) (high x)] else []) @ r\<rparr>)"
    using use_pool_shape [of ?lo ?hi l x r v] ok' p nl w x
    by (simp add: use_value_def remove1_middle Let_def)
  then show ?thesis
    using use_pool_correct [of ?lo ?hi l x r v] ok ok' p by (simp add: va_ok_def va_free_def va_range_def)
qed

lemma use_value_used:
  "va_ok w a \<Longrightarrow> v \<notin> va_free a \<Longrightarrow> use_value w v a = (False, a)"
  using is_used_free [of w a v] by (auto simp: use_value_def is_used_def)

lemma deallocate_correct:
  assumes "va_ok w a" and "v \<in> va_range a"
  shows "va_ok w (deallocate w v a)" and "va_free (deallocate w v a) = insert v (va_free a)"
    and "va_range (deallocate w v a) = va_range a"
  using assms deallocate_pool_correct [of "va_lowest a" "va_highest a" "va_pool a" v w]
  by (auto simp: va_ok_def va_free_def va_range_def deallocate_def)

lemma first_vacant_free:
  "va_ok w a \<Longrightarrow> first_vacant a = (if va_free a = {} then None else Some (LEAST v. v \<in> va_free a))"
proof (cases "va_pool a")
  case (Cons x p)
  assume "va_ok w a"
  with Cons have "pool_ok (va_lowest a) (va_highest a) (x # p)" by (simp add: va_ok_def)
  from pool_head_least [OF this] show ?thesis
    unfolding first_vacant_def va_free_def Cons by auto
qed (simp add: first_vacant_def va_free_def)

subsection \<open>The interface of an identifier pool\<close>

text \<open>
  What clients of the allocator rely on, stated over a set of free identifiers only. The
  allocator implements it at every width that cannot wrap, and so does the packet identifier
  manager built on it.
\<close>

locale id_pool =
  fixes pool_inv :: "'s \<Rightarrow> bool"
    and ids :: "'s \<Rightarrow> nat set"
    and free :: "'s \<Rightarrow> nat set"
    and acquire :: "'s \<Rightarrow> nat option \<times> 's"
    and register :: "nat \<Rightarrow> 's \<Rightarrow> bool \<times> 's"
    and used :: "nat \<Rightarrow> 's \<Rightarrow> bool"
    and release :: "nat \<Rightarrow> 's \<Rightarrow> 's"
    and clear :: "'s \<Rightarrow> 's"
  assumes free_ids: "pool_inv s \<Longrightarrow> free s \<subseteq> ids s"
    and acquire_none: "pool_inv s \<Longrightarrow> free s = {} \<Longrightarrow> acquire s = (None, s)"
    and acquire_some: "pool_inv s \<Longrightarrow> free s \<noteq> {} \<Longrightarrow>
      \<exists>s'. acquire s = (Some (LEAST v. v \<in> free s), s') \<and> pool_inv s' \<and>
        free s' = free s - {LEAST v. v \<in> free s} \<and> ids s' = ids s"
    and register_free: "pool_inv s \<Longrightarrow> v \<in> free s \<Longrightarrow>
      \<exists>s'. register v s = (True, s') \<and> pool_inv s' \<and> free s' = free s - {v} \<and> ids s' = ids s"
    and register_used: "pool_inv s \<Longrightarrow> v \<notin> free s \<Longrightarrow> register v s = (False, s)"
    and used_free: "pool_inv s \<Longrightarrow> used v s \<longleftrightarrow> v \<notin> free s"
    and release_inv: "pool_inv s \<Longrightarrow> v \<in> ids s \<Longrightarrow> pool_inv (release v s)"
    and release_free: "pool_inv s \<Longrightarrow> v \<in> ids s \<Longrightarrow> free (release v s) = insert v (free s)"
    and release_ids: "pool_inv s \<Longrightarrow> v \<in> ids s \<Longrightarrow> ids (release v s) = ids s"
    and clear_inv: "pool_inv s \<Longrightarrow> pool_inv (clear s)"
    and clear_free: "pool_inv s \<Longrightarrow> free (clear s) = ids s"
    and clear_ids: "pool_inv s \<Longrightarrow> ids (clear s) = ids s"
begin

lemma acquire_fresh:
  assumes "pool_inv s" and "acquire s = (Some v, s')"
  shows "v \<in> ids s" and "\<not> used v s" and "used v s'" and "pool_inv s'"
    and "u \<noteq> v \<Longrightarrow> used u s' = used u s"
proof -
  from assms have "free s \<noteq> {}" using acquire_none by force
  with assms acquire_some have v: "v = (LEAST v. v \<in> free s)" "pool_inv s'" "free s' = free s - {v}"
    by fastforce+
  moreover have "v \<in> free s" using \<open>free s \<noteq> {}\<close> v(1) by (auto intro: LeastI)
  ultimately show "v \<in> ids s" "\<not> used v s" "used v s'" "pool_inv s'" "u \<noteq> v \<Longrightarrow> used u s' = used u s"
    using assms(1) free_ids used_free by auto
qed

lemma acquire_exhausted:
  "pool_inv s \<Longrightarrow> fst (acquire s) = None \<longleftrightarrow> (\<forall>v \<in> ids s. used v s)"
  using acquire_none acquire_some used_free free_ids by fastforce

lemma release_acquire:
  assumes "pool_inv s" and "v \<in> ids s" and "free s = {}"
  shows "fst (acquire (release v s)) = Some v"
proof -
  have "free (release v s) = {v}" using assms by (simp add: release_free)
  moreover have "(LEAST u. u \<in> {v}) = v" by (rule Least_equality) simp_all
  ultimately show ?thesis using acquire_some [OF release_inv [OF assms(1,2)]] by auto
qed

end

interpretation va: id_pool "va_ok w" va_range va_free "allocate w" "use_value w" is_used
  "deallocate w" clear_allocator for w
  by unfold_locales
     (simp_all add: va_free_range allocate_Some use_value_correct use_value_used is_used_free
       deallocate_correct clear_correct)

text \<open>The packet identifier manager over \<open>n\<close>-byte identifiers.\<close>

definition pid_ok :: "nat \<Rightarrow> packet_id_manager \<Rightarrow> bool" where
  "pid_ok n m \<longleftrightarrow> va_ok (8 * n) m \<and> va_range m = {1..256 ^ n - 1}"

interpretation pim: id_pool "pid_ok n" va_range va_free "acquire_unique_id n" "register_id n"
  is_used_id "release_id n" clear_ids for n
proof unfold_locales
  fix s assume s: "pid_ok n s"
  then show "va_free s \<subseteq> va_range s" using va.free_ids [of "8 * n" s] by (simp add: pid_ok_def)
next
  fix s assume s: "pid_ok n s" "va_free s \<noteq> {}"
  then show "\<exists>s'. acquire_unique_id n s = (Some (LEAST v. v \<in> va_free s), s') \<and> pid_ok n s' \<and>
      va_free s' = va_free s - {LEAST v. v \<in> va_free s} \<and> va_range s' = va_range s"
    using va.acquire_some [of "8 * n" s] by (auto simp: pid_ok_def acquire_unique_id_def)
next
  fix s v assume s: "pid_ok n s" "v \<in> va_free s"
  then show "\<exists>s'. register_id n v s = (True, s') \<and> pid_ok n s' \<and> va_free s' = va_free s - {v} \<and>
      va_range s' = va_range s"
    using va.register_free [of "8 * n" s v] by (auto simp: pid_ok_def register_id_def)
qed (simp_all add: pid_ok_def acquire_unique_id_def register_id_def is_used_id_def release_id_def
    clear_ids_def va.register_used va.used_free [of "8 * n"]
    va.release_inv va.release_free va.release_ids va.clear_inv va.clear_free [of "8 * n"]
    va.clear_ids [of "8 * n"])

lemma pid_init_ok:
  assumes "0 < n" and "n < 4"
  shows "pid_ok n (packet_id_manager_init n)" and "va_free (packet_id_manager_init n) = {1..256 ^ n - 1}"
proof -
  have "(256::nat) ^ n = 2 ^ (8 * n)" by (simp add: power_mult)
  then have "no_wrap (8 * n) (256 ^ n - 1)" using assms by (simp add: no_wrap_def)
  moreover have "1 \<le> (256::nat) ^ n - 1" using assms power_increasing [of 1 n "256::nat"] by simp
  ultimately show "pid_ok n (packet_id_manager_init n)"
      "va_free (packet_id_manager_init n) = {1..256 ^ n - 1}"
    using init_correct [of 1 "256 ^ n - 1" "8 * n"]
    by (simp_all add: pid_ok_def packet_id_manager_init_def)
qed

subsection \<open>Refinement of a set of identifiers in use\<close>

datatype pid_op = Acquire | Register nat | Release nat | Clear_All

datatype pid_res = Acquired "nat option" | Registered bool | Done

fun pid_step :: "nat \<Rightarrow> pid_op \<Rightarrow> packet_id_manager \<Rightarrow> pid_res \<times> packet_id_manager" where
  "pid_step n Acquire m = (let (r, m') = acquire_unique_id n m in (Acquired r, m'))"
| "pid_step n (Register v) m = (let (r, m') = register_id n v m in (Registered r, m'))"
| "pid_step n (Release v) m = (Done, release_id n v m)"
| "pid_step n Clear_All m = (Done, clear_ids m)"

fun pid_run :: "nat \<Rightarrow> pid_op list \<Rightarrow> packet_id_manager \<Rightarrow> pid_res list" where
  "pid_run n [] m = []"
| "pid_run n (x # xs) m = (let (r, m') = pid_step n x m in r # pid_run n xs m')"

text \<open>The abstract machine: the set \<open>u\<close> of identifiers in use, among \<open>1 .. hi\<close>.\<close>

fun spec_step :: "nat \<Rightarrow> pid_op \<Rightarrow> nat set \<Rightarrow> pid_res \<times> nat set" where
  "spec_step hi Acquire u =
     (if {1..hi} \<subseteq> u then (Acquired None, u)
      else (let v = (LEAST v. v \<in> {1..hi} - u) in (Acquired (Some v), insert v u)))"
| "spec_step hi (Register v) u =
     (if v \<in> {1..hi} - u then (Registered True, insert v u) else (Registered False, u))"
| "spec_step hi (Release v) u = (Done, u - {v})"
| "spec_step hi Clear_All u = (Done, {})"

fun spec_run :: "nat \<Rightarrow> pid_op list \<Rightarrow> nat set \<Rightarrow> pid_res list" where
  "spec_run hi [] u = []"
| "spec_run hi (x # xs) u = (let (r, u') = spec_step hi x u in r # spec_run hi xs u')"

fun pid_op_ok :: "nat \<Rightarrow> pid_op \<Rightarrow> bool" where
  "pid_op_ok hi (Release v) \<longleftrightarrow> 1 \<le> v \<and> v \<le> hi"
| "pid_op_ok hi _ \<longleftrightarrow> True"

definition pid_rel :: "nat \<Rightarrow> packet_id_manager \<Rightarrow> nat set \<Rightarrow> bool" where
  "pid_rel n m u \<longleftrightarrow> pid_ok n m \<and> u \<subseteq> {1..256 ^ n - 1} \<and> va_free m = {1..256 ^ n - 1} - u"

lemma pid_step_refines:
  assumes "pid_rel n m u" and "pid_op_ok (256 ^ n - 1) x"
  shows "fst (pid_step n x m) = fst (spec_step (256 ^ n - 1) x u) \<and>
         pid_rel n (snd (pid_step n x m)) (snd (spec_step (256 ^ n - 1) x u))"
proof -
  let ?hi = "256 ^ n - 1 :: nat"
  have inv: "pid_ok n m" and fr: "va_free m = {1..?hi} - u" and u: "u \<subseteq> {1..?hi}"
    and rg: "va_range m = {1..?hi}"
    using assms(1) by (auto simp: pid_rel_def pid_ok_def)
  show ?thesis
  proof (cases x)
    case Acquire
    show ?thesis
    proof (cases "va_free m = {}")
      case True
      with inv u fr show ?thesis
        using pim.acquire_none [OF inv] by (auto simp: Acquire pid_rel_def)
    next
      case False
      let ?v = "LEAST v. v \<in> {1..?hi} - u"
      from False obtain m' where m': "acquire_unique_id n m = (Some ?v, m')" "pid_ok n m'"
          "va_free m' = {1..?hi} - u - {?v}"
        using pim.acquire_some [OF inv] fr by auto
      moreover have "?v \<in> {1..?hi} - u"
        using False fr by (metis (no_types, lifting) LeastI_ex ex_in_conv)
      ultimately show ?thesis using u by (auto simp: Acquire pid_rel_def Let_def)
    qed
  next
    case (Register v)
    show ?thesis
    proof (cases "v \<in> va_free m")
      case True
      with pim.register_free [OF inv True] show ?thesis using u fr
        by (auto simp: Register pid_rel_def)
    next
      case False
      with pim.register_used [OF inv False] show ?thesis using assms(1) fr
        by (auto simp: Register)
    qed
  next
    case (Release v)
    then have "v \<in> va_range m" using assms(2) rg by simp
    with pim.release_inv [OF inv this] pim.release_free [OF inv this] show ?thesis
      using fr u rg by (auto simp: Release pid_rel_def)
  next
    case Clear_All
    with pim.clear_inv [OF inv] pim.clear_free [OF inv] show ?thesis
      using rg by (auto simp: pid_rel_def)
  qed
qed

lemma pid_run_refines_from:
  assumes "pid_rel n m u" and "\<forall>x \<in> set xs. pid_op_ok (256 ^ n - 1) x"
  shows "pid_run n xs m = spec_run (256 ^ n - 1) xs u"
  using assms
proof (induction xs arbitrary: m u)
  case (Cons x xs)
  with pid_step_refines [of n m u x] show ?case
    by (auto simp: Let_def split: prod.splits)
qed simp

lemmas allocator_eval = packet_id_manager_init_def value_allocator_init_def acquire_unique_id_def
  register_id_def release_id_def clear_ids_def is_used_id_def allocate_def use_value_def deallocate_def
  deallocate_pool_def pool_upper_bound_def pool_modify_def is_used_def first_vacant_def
  clear_allocator_def plus1_def iv_less_def Let_def

subsection \<open>Properties\<close>

text \<open>
  C7. Every history of acquire, register, release and clear calls on the identifier manager of
  the MQTT specification (16-bit identifiers) returns exactly what the set of identifiers in use
  dictates: acquire gives the lowest unused identifier of 1..65535 and fails only when all are in
  use, register succeeds exactly on unused identifiers. The interval pool is a faithful
  representation of that set through every split and merge.
\<close>

theorem packet_id_manager_refines_set:
  assumes "\<forall>x \<in> set xs. pid_op_ok 65535 x"
  shows "pid_run 2 xs (packet_id_manager_init 2) = spec_run 65535 xs {}"
proof -
  have "pid_rel 2 (packet_id_manager_init 2) {}" using pid_init_ok [of 2] by (simp add: pid_rel_def)
  from pid_run_refines_from [OF this] assms show ?thesis by simp
qed

theorem packet_id_manager_refines_set_witness:
  "pid_run 2 [Acquire, Acquire, Register 2, Register 9, Release 1, Acquire] (packet_id_manager_init 2)
   = spec_run 65535 [Acquire, Acquire, Register 2, Register 9, Release 1, Acquire] {} \<and>
   pid_run 2 [Acquire, Acquire, Register 2, Register 9, Release 1, Acquire] (packet_id_manager_init 2)
   = [Acquired (Some 1), Acquired (Some 2), Registered False, Registered True, Done, Acquired (Some 1)]"
proof
  show "pid_run 2 [Acquire, Acquire, Register 2, Register 9, Release 1, Acquire] (packet_id_manager_init 2)
   = spec_run 65535 [Acquire, Acquire, Register 2, Register 9, Release 1, Acquire] {}"
    by (rule packet_id_manager_refines_set) simp
qed (simp add: allocator_eval)

text \<open>
  Releasing an identifier keeps the pool canonical (ordered, disjoint, non-adjacent
  intervals inside the range) and frees exactly that identifier, whatever the shape of the
  neighbourhood, also when the identifier was already free.
\<close>

theorem deallocate_keeps_pool_canonical:
  assumes "va_ok w a" and "va_lowest a \<le> v" and "v \<le> va_highest a"
  shows "va_ok w (deallocate w v a) \<and> va_free (deallocate w v a) = insert v (va_free a) \<and>
    (\<forall>u. is_used u (deallocate w v a) \<longleftrightarrow> is_used u a \<and> u \<noteq> v)"
proof -
  have v: "v \<in> va_range a" using assms by (simp add: va_range_def)
  then show ?thesis
    using va.release_inv [OF assms(1) v] va.release_free [OF assms(1) v] va.used_free assms(1) by auto
qed

theorem deallocate_keeps_pool_canonical_witness:
  "va_pool (deallocate 16 4 \<lparr>va_pool = [iv 1 3, iv 5 9], va_lowest = 1, va_highest = 20\<rparr>) = [iv 1 9] \<and>
   va_ok 16 (deallocate 16 4 \<lparr>va_pool = [iv 1 3, iv 5 9], va_lowest = 1, va_highest = 20\<rparr>)"
proof
  show "va_ok 16 (deallocate 16 4 \<lparr>va_pool = [iv 1 3, iv 5 9], va_lowest = 1, va_highest = 20\<rparr>)"
    by (rule deallocate_keeps_pool_canonical [THEN conjunct1]) (simp_all add: va_ok_def no_wrap_def)
qed (simp add: allocator_eval)

text \<open>
  With 32-bit identifiers (\<^verbatim>\<open>PacketIdBytes\<close> 4) the test \<^verbatim>\<open>it->low() + 1 <= it->high()\<close> wraps at
  the last identifier: after all \<open>2 ^ 32 - 1\<close> identifiers have been acquired, the pool holds the
  interval from 0 to the maximum instead of being empty, and acquire returns 0, which is not a
  packet identifier, instead of failing.
\<close>

lemma acquire_32_iterate:
  "k \<le> 2 ^ 32 - 2 \<Longrightarrow>
   ((\<lambda>m. snd (acquire_unique_id 4 m)) ^^ k) (packet_id_manager_init 4) =
   \<lparr>va_pool = [iv (k + 1) (2 ^ 32 - 1)], va_lowest = 1, va_highest = 2 ^ 32 - 1\<rparr>"
proof (induction k)
  case 0
  then show ?case by (simp add: packet_id_manager_init_def value_allocator_init_def)
next
  case (Suc k)
  then show ?case
    by (simp add: acquire_unique_id_def allocate_def plus1_def pool_modify_def Let_def)
qed

theorem acquire_exhausted_32_wraps:
  "fst (acquire_unique_id 4
      (((\<lambda>m. snd (acquire_unique_id 4 m)) ^^ (2 ^ 32 - 1)) (packet_id_manager_init 4))) = Some 0"
proof -
  have "(2 ^ 32 - 1 :: nat) = Suc (2 ^ 32 - 2)" by simp
  then show ?thesis
    by (simp only: funpow.simps o_apply acquire_32_iterate order_refl)
       (simp add: acquire_unique_id_def allocate_def plus1_def pool_modify_def Let_def)
qed

end
