(* ===== verification/Topic_Alias.thy ===== *)
theory Topic_Alias
  imports Value_Allocator "HOL-Library.Multiset"
begin

text \<open>
  The topic alias tables of a v5.0 connection: \<^verbatim>\<open>util/topic_alias_send.hpp\<close> for the aliases this
  side assigns, \<^verbatim>\<open>util/topic_alias_recv.hpp\<close> for those the peer assigns.

  The sending table is a \<^verbatim>\<open>boost::multi_index\<close> container with three indices: unique aliases, unique
  topics, and a non-unique index on the time of the last use. It is modelled by the list of its
  entries in the order of the time index. The clock (\<^verbatim>\<open>std::chrono::steady_clock::now()\<close>) is the
  argument \<open>now\<close>. Two things the container refuses are explicit:
  \<^item> \<^verbatim>\<open>emplace_hint\<close> of an entry whose topic is already present changes nothing;
  \<^item> \<^verbatim>\<open>modify\<close> to a topic that another entry has is a collision, which calls the rollback functor
    of the code, \<^verbatim>\<open>BOOST_ASSERT(false)\<close>: the result \<open>None\<close>.
\<close>

record ta_entry =
  te_topic :: bytes
  te_alias :: nat
  te_tp :: nat

record topic_alias_send =
  tas_max :: nat
  tas_aliases :: "ta_entry list"
  tas_va :: value_allocator

record topic_alias_recv =
  tar_max :: nat
  tar_aliases :: "nat \<rightharpoonup> bytes"

subsection \<open>The container\<close>

fun tp_insert :: "ta_entry \<Rightarrow> ta_entry list \<Rightarrow> ta_entry list" where
  "tp_insert e [] = [e]"
| "tp_insert e (x # xs) = (if te_tp x \<le> te_tp e then x # tp_insert e xs else e # x # xs)"

definition find_entry :: "(ta_entry \<Rightarrow> bool) \<Rightarrow> ta_entry list \<Rightarrow> ta_entry option" where
  "find_entry P xs = List.find P xs"

definition emplace_entry :: "ta_entry \<Rightarrow> ta_entry list \<Rightarrow> ta_entry list" where
  "emplace_entry e xs =
     (if \<exists>x \<in> set xs. te_alias x = te_alias e \<or> te_topic x = te_topic e then xs
      else tp_insert e xs)"

text \<open>
  An entry whose time is changed stays where it is when it is still in order there, and is
  moved behind the entries with the same time otherwise. \<open>old\<close> is the entry at the iterator.
\<close>

fun tp_replace :: "ta_entry \<Rightarrow> ta_entry \<Rightarrow> nat option \<Rightarrow> ta_entry list \<Rightarrow> ta_entry list option" where
  "tp_replace old e prev [] = None"
| "tp_replace old e prev (x # xs) =
     (if x = old then
        (if (case prev of None \<Rightarrow> True | Some t \<Rightarrow> t \<le> te_tp e) \<and>
            (case xs of [] \<Rightarrow> True | y # _ \<Rightarrow> te_tp e \<le> te_tp y)
         then Some (e # xs) else None)
      else map_option (\<lambda>ys. x # ys) (tp_replace old e (Some (te_tp x)) xs))"

definition modify_entry :: "ta_entry \<Rightarrow> ta_entry \<Rightarrow> ta_entry list \<Rightarrow> ta_entry list option" where
  "modify_entry old e xs =
     (if \<exists>x \<in> set xs. x \<noteq> old \<and> (te_alias x = te_alias e \<or> te_topic x = te_topic e) then None
      else
        (case tp_replace old e None xs of
           Some ys \<Rightarrow> Some ys
         | None \<Rightarrow> Some (tp_insert e (remove1 old xs))))"

subsection \<open>topic\_alias\_send\<close>

definition min_alias :: nat where
  "min_alias = 1"

definition topic_alias_send_init :: "nat \<Rightarrow> topic_alias_send" where
  "topic_alias_send_init mx =
     \<lparr>tas_max = mx, tas_aliases = [], tas_va = value_allocator_init min_alias mx\<rparr>"

definition tas_insert_or_update ::
  "nat \<Rightarrow> bytes \<Rightarrow> nat \<Rightarrow> topic_alias_send \<Rightarrow> topic_alias_send option" where
  "tas_insert_or_update now topic a s =
     (let va' = snd (use_value 16 a (tas_va s)) in
      case find_entry (\<lambda>x. te_alias x = a) (tas_aliases s) of
        None \<Rightarrow>
          Some (s\<lparr>tas_va := va',
                  tas_aliases := emplace_entry \<lparr>te_topic = topic, te_alias = a, te_tp = now\<rparr>
                                   (tas_aliases s)\<rparr>)
      | Some e \<Rightarrow>
          (case modify_entry e (e\<lparr>te_topic := topic, te_tp := now\<rparr>) (tas_aliases s) of
             None \<Rightarrow> None
           | Some xs \<Rightarrow> Some (s\<lparr>tas_va := va', tas_aliases := xs\<rparr>)))"

definition tas_find_touch :: "nat \<Rightarrow> nat \<Rightarrow> topic_alias_send \<Rightarrow> bytes \<times> topic_alias_send" where
  "tas_find_touch now a s =
     (if min_alias \<le> a \<and> a \<le> tas_max s then
        (case find_entry (\<lambda>x. te_alias x = a) (tas_aliases s) of
           None \<Rightarrow> ([], s)
         | Some e \<Rightarrow>
             (case modify_entry e (e\<lparr>te_tp := now\<rparr>) (tas_aliases s) of
                None \<Rightarrow> (te_topic e, s)
              | Some xs \<Rightarrow> (te_topic e, s\<lparr>tas_aliases := xs\<rparr>)))
      else ([], s))"

definition find_without_touch :: "nat \<Rightarrow> topic_alias_send \<Rightarrow> bytes" where
  "find_without_touch a s =
     (if min_alias \<le> a \<and> a \<le> tas_max s then
        (case find_entry (\<lambda>x. te_alias x = a) (tas_aliases s) of
           None \<Rightarrow> []
         | Some e \<Rightarrow> te_topic e)
      else [])"

definition tas_find_alias :: "bytes \<Rightarrow> topic_alias_send \<Rightarrow> nat option" where
  "tas_find_alias topic s =
     map_option te_alias (find_entry (\<lambda>x. te_topic x = topic) (tas_aliases s))"

definition tas_clear :: "topic_alias_send \<Rightarrow> topic_alias_send" where
  "tas_clear s = s\<lparr>tas_aliases := [], tas_va := clear_allocator (tas_va s)\<rparr>"

text \<open>\<open>None\<close> stands for the dereference of the end iterator of an empty index.\<close>

definition get_lru_alias :: "topic_alias_send \<Rightarrow> nat option" where
  "get_lru_alias s =
     (case first_vacant (tas_va s) of
        Some a \<Rightarrow> Some a
      | None \<Rightarrow> (case tas_aliases s of [] \<Rightarrow> None | e # _ \<Rightarrow> Some (te_alias e)))"

subsection \<open>topic\_alias\_recv\<close>

definition topic_alias_recv_init :: "nat \<Rightarrow> topic_alias_recv" where
  "topic_alias_recv_init mx = \<lparr>tar_max = mx, tar_aliases = Map.empty\<rparr>"

definition tar_insert_or_update :: "bytes \<Rightarrow> nat \<Rightarrow> topic_alias_recv \<Rightarrow> topic_alias_recv" where
  "tar_insert_or_update topic a r = r\<lparr>tar_aliases := (tar_aliases r)(a \<mapsto> topic)\<rparr>"

definition tar_find :: "nat \<Rightarrow> topic_alias_recv \<Rightarrow> bytes" where
  "tar_find a r =
     (if min_alias \<le> a \<and> a \<le> tar_max r
      then (case tar_aliases r a of None \<Rightarrow> [] | Some topic \<Rightarrow> topic) else [])"

definition tar_clear :: "topic_alias_recv \<Rightarrow> topic_alias_recv" where
  "tar_clear r = r\<lparr>tar_aliases := Map.empty\<rparr>"

subsection \<open>The container keeps its order and its keys unique\<close>

definition entries_ok :: "ta_entry list \<Rightarrow> bool" where
  "entries_ok xs \<longleftrightarrow> sorted (map te_tp xs) \<and> distinct (map te_alias xs) \<and> distinct (map te_topic xs)"

lemma mset_tp_insert [simp]: "mset (tp_insert e xs) = add_mset e (mset xs)"
  by (induction xs) auto

lemma set_tp_insert [simp]: "set (tp_insert e xs) = insert e (set xs)"
  by (induction xs) auto

lemma sorted_tp_insert: "sorted (map te_tp xs) \<Longrightarrow> sorted (map te_tp (tp_insert e xs))"
  by (induction xs) (auto simp: order.trans)

lemma distinct_map_mset:
  "mset ys = add_mset e (mset xs) \<Longrightarrow> distinct (map f ys) \<longleftrightarrow> distinct (map f (e # xs))"
  by (metis mset.simps(2) mset_eq_imp_distinct_iff mset_map)

lemma find_entry_unique:
  assumes "distinct (map f xs)"
  shows "find_entry (\<lambda>x. f x = k) xs = Some e \<longleftrightarrow> e \<in> set xs \<and> f e = k"
    and "find_entry (\<lambda>x. f x = k) xs = None \<longleftrightarrow> (\<forall>e \<in> set xs. f e \<noteq> k)"
  using assms unfolding find_entry_def by (induction xs) auto

lemma tp_replace_mset:
  "tp_replace old e prev xs = Some ys \<Longrightarrow> mset ys = add_mset e (mset xs - {#old#}) \<and> old \<in> set xs"
  by (induction xs arbitrary: prev ys) (auto split: if_splits)

lemma tp_replace_sorted:
  assumes "tp_replace old e prev xs = Some ys" and "sorted (map te_tp xs)"
    and "\<forall>t. prev = Some t \<longrightarrow> (\<forall>x \<in> set xs. t \<le> te_tp x)"
  shows "sorted (map te_tp ys) \<and> (\<forall>t. prev = Some t \<longrightarrow> (\<forall>y \<in> set ys. t \<le> te_tp y))"
  using assms
proof (induction xs arbitrary: prev ys)
  case (Cons x xs)
  show ?case
  proof (cases "x = old")
    case True
    with Cons.prems have "ys = e # xs" "\<forall>y \<in> set xs. te_tp e \<le> te_tp y" "sorted (map te_tp xs)"
      by (auto split: if_splits list.splits)
    with True Cons.prems show ?thesis by (auto split: if_splits option.splits)
  next
    case False
    with Cons.prems(1) obtain zs where zs: "tp_replace old e (Some (te_tp x)) xs = Some zs" "ys = x # zs"
      by auto
    have "sorted (map te_tp zs) \<and> (\<forall>t. Some (te_tp x) = Some t \<longrightarrow> (\<forall>y \<in> set zs. t \<le> te_tp y))"
      using Cons.prems(2) by (intro Cons.IH zs(1)) auto
    with zs(2) Cons.prems(3) show ?thesis by (auto intro: order.trans)
  qed
qed simp

lemma modify_entry_ok:
  assumes "entries_ok xs" and "old \<in> set xs" and "modify_entry old e xs = Some ys"
  shows "entries_ok ys" and "set ys = insert e (set xs - {old})"
proof -
  have d: "distinct (map te_alias xs)" "distinct (map te_topic xs)" "sorted (map te_tp xs)"
    and dx: "distinct xs"
    using assms(1) by (auto simp: entries_ok_def distinct_map)
  have nc: "\<forall>x \<in> set xs. x \<noteq> old \<longrightarrow> te_alias x \<noteq> te_alias e \<and> te_topic x \<noteq> te_topic e"
    using assms(3) by (auto simp: modify_entry_def split: if_splits)
  have ms: "mset ys = add_mset e (mset (remove1 old xs))" and so: "sorted (map te_tp ys)"
  proof -
    have "sorted (map te_tp (remove1 old xs))"
      using d(3) by (induction xs) (auto dest: notin_set_remove1)
    then show "mset ys = add_mset e (mset (remove1 old xs))" "sorted (map te_tp ys)"
      using assms(3) tp_replace_mset [of old e None xs ys] tp_replace_sorted [of old e None xs ys] d(3)
      by (auto simp: modify_entry_def sorted_tp_insert split: if_splits option.splits)
  qed
  have rem: "set (remove1 old xs) = set xs - {old}" using dx by simp
  have "set ys = set (e # remove1 old xs)" by (metis ms mset.simps(2) set_mset_mset)
  with rem show "set ys = insert e (set xs - {old})" by simp
  have "distinct (map f (remove1 old xs))" if "distinct (map f xs)" for f :: "ta_entry \<Rightarrow> 'k"
    using that dx by (simp add: distinct_map inj_on_diff rem)
  with d nc rem have "distinct (map te_alias (e # remove1 old xs))" "distinct (map te_topic (e # remove1 old xs))"
    by auto
  then show "entries_ok ys" using so by (simp add: entries_ok_def distinct_map_mset [OF ms])
qed

lemma emplace_entry_ok:
  assumes "entries_ok xs"
  shows "entries_ok (emplace_entry e xs)"
    and "set (emplace_entry e xs) =
      (if \<exists>x \<in> set xs. te_alias x = te_alias e \<or> te_topic x = te_topic e then set xs else insert e (set xs))"
proof -
  have "distinct (map te_alias (tp_insert e xs)) \<longleftrightarrow> distinct (map te_alias (e # xs))"
    "distinct (map te_topic (tp_insert e xs)) \<longleftrightarrow> distinct (map te_topic (e # xs))"
    by (intro distinct_map_mset; simp)+
  then show "entries_ok (emplace_entry e xs)"
    using assms by (auto simp: emplace_entry_def entries_ok_def sorted_tp_insert)
qed (simp add: emplace_entry_def)

subsection \<open>The sending table\<close>

definition tas_ok :: "topic_alias_send \<Rightarrow> bool" where
  "tas_ok s \<longleftrightarrow> entries_ok (tas_aliases s) \<and> va_ok 16 (tas_va s) \<and>
     va_range (tas_va s) = {1..tas_max s} \<and> 1 \<le> tas_max s \<and>
     (\<forall>e \<in> set (tas_aliases s). te_alias e \<in> {1..tas_max s} \<and> te_topic e \<noteq> [] \<and>
        is_used (te_alias e) (tas_va s))"

text \<open>The topic may be mapped to the alias: no other alias has it.\<close>

definition tas_admits :: "bytes \<Rightarrow> nat \<Rightarrow> topic_alias_send \<Rightarrow> bool" where
  "tas_admits topic a s \<longleftrightarrow> (\<forall>e \<in> set (tas_aliases s). te_topic e = topic \<longrightarrow> te_alias e = a)"

lemma tas_init_ok:
  assumes "1 \<le> mx" and "mx \<le> 65535"
  shows "tas_ok (topic_alias_send_init mx)"
  using assms init_correct [of 1 mx 16]
  by (simp add: tas_ok_def topic_alias_send_init_def min_alias_def entries_ok_def no_wrap_def)

lemma use_value_tas:
  assumes "va_ok 16 va" and "a \<in> va_range va"
  shows "va_ok 16 (snd (use_value 16 a va))" and "va_range (snd (use_value 16 a va)) = va_range va"
    and "is_used b (snd (use_value 16 a va)) \<longleftrightarrow> is_used b va \<or> b = a"
proof -
  consider "a \<in> va_free va" | "a \<notin> va_free va" by blast
  then have "va_ok 16 (snd (use_value 16 a va)) \<and> va_range (snd (use_value 16 a va)) = va_range va \<and>
      (is_used b (snd (use_value 16 a va)) \<longleftrightarrow> is_used b va \<or> b = a)"
  proof cases
    case 1
    from use_value_correct [OF assms(1) 1] show ?thesis
      using is_used_free [OF assms(1)] is_used_free by fastforce
  next
    case 2
    then show ?thesis using use_value_used [OF assms(1) 2] is_used_free [OF assms(1)] assms(1) by auto
  qed
  then show "va_ok 16 (snd (use_value 16 a va))" "va_range (snd (use_value 16 a va)) = va_range va"
    "is_used b (snd (use_value 16 a va)) \<longleftrightarrow> is_used b va \<or> b = a" by blast+
qed

lemma tas_insert_entries:
  assumes ok: "tas_ok s" and a: "1 \<le> a" "a \<le> tas_max s" and t: "topic \<noteq> []" and ad: "tas_admits topic a s"
  shows "\<exists>s'. tas_insert_or_update now topic a s = Some s' \<and> tas_ok s' \<and> tas_max s' = tas_max s \<and>
    set (tas_aliases s') = insert \<lparr>te_topic = topic, te_alias = a, te_tp = now\<rparr>
      {e \<in> set (tas_aliases s). te_alias e \<noteq> a}"
proof -
  let ?xs = "tas_aliases s" and ?e = "\<lparr>te_topic = topic, te_alias = a, te_tp = now\<rparr>"
  have eo: "entries_ok ?xs" and va: "va_ok 16 (tas_va s)" "a \<in> va_range (tas_va s)"
    using ok a by (auto simp: tas_ok_def)
  note u = use_value_tas [OF va]
  have da: "distinct (map te_alias ?xs)" using eo by (simp add: entries_ok_def)
  have step: ?thesis if "tas_insert_or_update now topic a s = Some (s\<lparr>tas_va := snd (use_value 16 a (tas_va s)), tas_aliases := ys\<rparr>)"
    "entries_ok ys" "set ys = insert ?e {e \<in> set ?xs. te_alias e \<noteq> a}" for ys
    using that ok u t a by (auto simp: tas_ok_def)
  show ?thesis
  proof (cases "find_entry (\<lambda>x. te_alias x = a) ?xs")
    case None
    then have na: "\<forall>e \<in> set ?xs. te_alias e \<noteq> a" using find_entry_unique(2) [OF da] by blast
    then have "\<forall>e \<in> set ?xs. te_topic e \<noteq> topic" using ad by (auto simp: tas_admits_def)
    with na have "set (emplace_entry ?e ?xs) = insert ?e {e \<in> set ?xs. te_alias e \<noteq> a}"
      using emplace_entry_ok(2) [OF eo, of ?e] by auto
    then show ?thesis
      using step [of "emplace_entry ?e ?xs"] emplace_entry_ok(1) [OF eo, of ?e] None
      by (simp add: tas_insert_or_update_def Let_def)
  next
    case (Some e)
    then have e: "e \<in> set ?xs" "te_alias e = a" using find_entry_unique(1) [OF da] by blast+
    have up: "e\<lparr>te_topic := topic, te_tp := now\<rparr> = ?e" using e(2) by simp
    have "\<forall>x \<in> set ?xs. x \<noteq> e \<longrightarrow> te_alias x \<noteq> a" using e da by (auto simp: distinct_map inj_on_def)
    with ad have "\<forall>x \<in> set ?xs. x \<noteq> e \<longrightarrow> te_alias x \<noteq> a \<and> te_topic x \<noteq> topic"
      by (auto simp: tas_admits_def)
    then have "modify_entry e ?e ?xs \<noteq> None"
      by (auto simp: modify_entry_def split: option.splits)
    then obtain ys where ys: "modify_entry e ?e ?xs = Some ys" by blast
    have "set ?xs - {e} = {x \<in> set ?xs. te_alias x \<noteq> a}"
      using e da by (auto simp: distinct_map inj_on_def)
    then show ?thesis
      using step [of ys] modify_entry_ok [OF eo e(1) ys] Some up ys
      by (simp add: tas_insert_or_update_def Let_def)
  qed
qed

lemma find_without_touch_eq:
  assumes "tas_ok s"
  shows "e \<in> set (tas_aliases s) \<Longrightarrow> find_without_touch (te_alias e) s = te_topic e"
    and "\<forall>e \<in> set (tas_aliases s). te_alias e \<noteq> a \<Longrightarrow> find_without_touch a s = []"
proof -
  have d: "distinct (map te_alias (tas_aliases s))" using assms by (simp add: tas_ok_def entries_ok_def)
  show "find_without_touch (te_alias e) s = te_topic e" if "e \<in> set (tas_aliases s)"
    using find_entry_unique(1) [OF d, of "te_alias e" e] that assms
    by (auto simp: find_without_touch_def tas_ok_def min_alias_def)
  show "find_without_touch a s = []" if "\<forall>e \<in> set (tas_aliases s). te_alias e \<noteq> a"
    using find_entry_unique(2) [OF d, of a] that by (auto simp: find_without_touch_def)
qed

lemma tas_find_alias_eq:
  assumes "tas_ok s"
  shows "tas_find_alias topic s = Some a \<longleftrightarrow>
    (\<exists>e \<in> set (tas_aliases s). te_topic e = topic \<and> te_alias e = a)"
proof -
  have d: "distinct (map te_topic (tas_aliases s))" using assms by (simp add: tas_ok_def entries_ok_def)
  show ?thesis
    unfolding tas_find_alias_def using find_entry_unique(1) [OF d, of topic] by auto
qed

lemma tas_insert_lookup:
  assumes ok: "tas_ok s" and a: "1 \<le> a" "a \<le> tas_max s" and t: "topic \<noteq> []" and ad: "tas_admits topic a s"
  shows "\<exists>s'. tas_insert_or_update now topic a s = Some s' \<and> tas_ok s' \<and> tas_max s' = tas_max s \<and>
    (\<forall>b. find_without_touch b s' = (if b = a then topic else find_without_touch b s))"
proof -
  from tas_insert_entries [OF assms, of now] obtain s' where s':
    "tas_insert_or_update now topic a s = Some s'" "tas_ok s'" "tas_max s' = tas_max s"
    "set (tas_aliases s') = insert \<lparr>te_topic = topic, te_alias = a, te_tp = now\<rparr>
      {e \<in> set (tas_aliases s). te_alias e \<noteq> a}" by blast
  have "find_without_touch b s' = (if b = a then topic else find_without_touch b s)" for b
  proof (cases "b = a")
    case True
    then show ?thesis
      using find_without_touch_eq(1) [OF s'(2), of "\<lparr>te_topic = topic, te_alias = a, te_tp = now\<rparr>"] s'(4)
      by simp
  next
    case False
    show ?thesis
    proof (cases "\<exists>e \<in> set (tas_aliases s). te_alias e = b")
      case True
      then obtain e where "e \<in> set (tas_aliases s)" "te_alias e = b" by blast
      with False s'(4) show ?thesis
        using find_without_touch_eq(1) [OF s'(2), of e] find_without_touch_eq(1) [OF ok, of e] by auto
    next
      case none: False
      with False s'(4) show ?thesis
        using find_without_touch_eq(2) [OF s'(2), of b] find_without_touch_eq(2) [OF ok, of b] by auto
    qed
  qed
  with s' show ?thesis by blast
qed

lemma tas_find_touch_eq:
  assumes ok: "tas_ok s"
  shows "fst (tas_find_touch now a s) = find_without_touch a s" and "tas_ok (snd (tas_find_touch now a s))"
    and "tas_max (snd (tas_find_touch now a s)) = tas_max s"
    and "find_without_touch b (snd (tas_find_touch now a s)) = find_without_touch b s"
proof -
  let ?xs = "tas_aliases s"
  have eo: "entries_ok ?xs" and d: "distinct (map te_alias ?xs)"
    using ok by (auto simp: tas_ok_def entries_ok_def)
  show "fst (tas_find_touch now a s) = find_without_touch a s"
    by (auto simp: tas_find_touch_def find_without_touch_def split: option.splits)
  have "tas_ok (snd (tas_find_touch now a s)) \<and> tas_max (snd (tas_find_touch now a s)) = tas_max s \<and>
    (\<forall>b. find_without_touch b (snd (tas_find_touch now a s)) = find_without_touch b s)"
  proof (cases "snd (tas_find_touch now a s) = s")
    case False
    then obtain e ys where e: "find_entry (\<lambda>x. te_alias x = a) ?xs = Some e"
      and ys: "modify_entry e (e\<lparr>te_tp := now\<rparr>) ?xs = Some ys"
      and s': "snd (tas_find_touch now a s) = s\<lparr>tas_aliases := ys\<rparr>"
      by (auto simp: tas_find_touch_def split: if_splits option.splits)
    have mem: "e \<in> set ?xs" "te_alias e = a" using e find_entry_unique(1) [OF d] by blast+
    note m = modify_entry_ok [OF eo mem(1) ys]
    have ok': "tas_ok (s\<lparr>tas_aliases := ys\<rparr>)" using ok m mem by (auto simp: tas_ok_def)
    have "find_without_touch b (s\<lparr>tas_aliases := ys\<rparr>) = find_without_touch b s" for b
    proof (cases "\<exists>x \<in> set ?xs. te_alias x = b")
      case True
      then obtain x where x: "x \<in> set ?xs" "te_alias x = b" by blast
      show ?thesis
      proof (cases "x = e")
        case True
        with x m(2) show ?thesis
          using find_without_touch_eq(1) [OF ok', of "e\<lparr>te_tp := now\<rparr>"] find_without_touch_eq(1) [OF ok x(1)]
          by simp
      next
        case False
        with x m(2) show ?thesis
          using find_without_touch_eq(1) [OF ok', of x] find_without_touch_eq(1) [OF ok x(1)] by simp
      qed
    next
      case False
      with m(2) mem show ?thesis
        using find_without_touch_eq(2) [OF ok, of b] find_without_touch_eq(2) [OF ok', of b] by auto
    qed
    with ok' s' show ?thesis by simp
  qed (use ok in simp)
  then show "tas_ok (snd (tas_find_touch now a s))" "tas_max (snd (tas_find_touch now a s)) = tas_max s"
    "find_without_touch b (snd (tas_find_touch now a s)) = find_without_touch b s" by blast+
qed

subsection \<open>The interface of an alias table\<close>

text \<open>
  What a connection relies on, for both directions: assigning an admitted topic to an alias of
  the negotiated range makes the alias resolve to it and leaves every other alias alone. The
  receiving table admits every assignment, which gives the law for whole histories.
\<close>

locale alias_table =
  fixes table_inv :: "'s \<Rightarrow> bool"
    and alias_max :: "'s \<Rightarrow> nat"
    and resolve :: "nat \<Rightarrow> 's \<Rightarrow> bytes"
    and assign :: "bytes \<Rightarrow> nat \<Rightarrow> 's \<Rightarrow> 's option"
    and admits :: "bytes \<Rightarrow> nat \<Rightarrow> 's \<Rightarrow> bool"
  assumes assign_resolve: "table_inv s \<Longrightarrow> admits t a s \<Longrightarrow> t \<noteq> [] \<Longrightarrow> 1 \<le> a \<Longrightarrow> a \<le> alias_max s \<Longrightarrow>
      \<exists>s'. assign t a s = Some s' \<and> table_inv s' \<and> alias_max s' = alias_max s \<and>
        (\<forall>b. resolve b s' = (if b = a then t else resolve b s))"
begin

lemma assign_twice:
  assumes "table_inv s" "admits t a s" "t \<noteq> []" "1 \<le> a" "a \<le> alias_max s" "assign t a s = Some s'"
    and "admits t' a s'" "t' \<noteq> []"
  obtains s'' where "assign t' a s' = Some s''" and "\<forall>b. resolve b s'' = (if b = a then t' else resolve b s)"
proof -
  have s': "table_inv s'" "alias_max s' = alias_max s" "\<forall>b. resolve b s' = (if b = a then t else resolve b s)"
    using assign_resolve [OF assms(1-5)] assms(6) by auto
  then obtain s'' where "assign t' a s' = Some s''" "\<forall>b. resolve b s'' = (if b = a then t' else resolve b s')"
    using assign_resolve [OF s'(1) assms(7,8,4)] assms(5) by auto
  with s'(3) that show thesis by auto
qed

end

locale open_alias_table = alias_table +
  assumes admits_all: "table_inv s \<Longrightarrow> admits t a s"
begin

fun assign_all :: "(bytes \<times> nat) list \<Rightarrow> 'a \<Rightarrow> 'a option" where
  "assign_all [] s = Some s"
| "assign_all ((t, a) # xs) s = (case assign t a s of None \<Rightarrow> None | Some s' \<Rightarrow> assign_all xs s')"

lemma assign_all_resolve:
  assumes "table_inv s" and "\<forall>(t, a) \<in> set xs. t \<noteq> [] \<and> 1 \<le> a \<and> a \<le> alias_max s"
  shows "\<exists>s'. assign_all xs s = Some s' \<and> table_inv s' \<and>
    (\<forall>b. resolve b s' = (case map_of (map (\<lambda>(t, a). (a, t)) (rev xs)) b of
       None \<Rightarrow> resolve b s | Some t \<Rightarrow> t))"
  using assms
proof (induction xs arbitrary: s)
  case (Cons x xs)
  obtain t a where x: "x = (t, a)" by (cases x)
  with Cons.prems obtain s1 where s1: "assign t a s = Some s1" "table_inv s1" "alias_max s1 = alias_max s"
      "\<forall>b. resolve b s1 = (if b = a then t else resolve b s)"
    using assign_resolve [of s t a] admits_all by auto
  with Cons.prems(2) obtain s' where "assign_all xs s1 = Some s'" "table_inv s'"
      "\<forall>b. resolve b s' = (case map_of (map (\<lambda>(t, a). (a, t)) (rev xs)) b of
         None \<Rightarrow> resolve b s1 | Some t \<Rightarrow> t)"
    using Cons.IH [OF s1(2)] by auto
  with x s1 show ?case by (auto simp: map_add_def split: option.splits)
qed auto

end

definition tar_ok :: "topic_alias_recv \<Rightarrow> bool" where
  "tar_ok r \<longleftrightarrow> (\<forall>a t. tar_aliases r a = Some t \<longrightarrow> 1 \<le> a \<and> a \<le> tar_max r \<and> t \<noteq> [])"

interpretation tas: alias_table tas_ok tas_max find_without_touch "tas_insert_or_update now" tas_admits for now
  by unfold_locales (rule tas_insert_lookup)

interpretation tar: open_alias_table tar_ok tar_max tar_find "\<lambda>t a r. Some (tar_insert_or_update t a r)"
  "\<lambda>t a r. True"
  by unfold_locales (auto simp: tar_ok_def tar_insert_or_update_def tar_find_def min_alias_def)

subsection \<open>Properties\<close>

text \<open>Every alias taken from the allocator has its entry.\<close>

definition tas_tight :: "topic_alias_send \<Rightarrow> bool" where
  "tas_tight s \<longleftrightarrow> (\<forall>a. 1 \<le> a \<and> a \<le> tas_max s \<and> is_used a (tas_va s) \<longrightarrow>
     (\<exists>e \<in> set (tas_aliases s). te_alias e = a))"

lemma tas_insert_va:
  "tas_insert_or_update now topic a s = Some s' \<Longrightarrow> tas_va s' = snd (use_value 16 a (tas_va s))"
  by (auto simp: tas_insert_or_update_def Let_def split: option.splits)

lemma tas_insert_tight:
  assumes "tas_ok s" "tas_tight s" "1 \<le> a" "a \<le> tas_max s" "topic \<noteq> []" "tas_admits topic a s"
    and "tas_insert_or_update now topic a s = Some s'"
  shows "tas_tight s'"
proof -
  note e = tas_insert_entries [OF assms(1,3-6), of now]
  have "is_used b (tas_va s') \<longleftrightarrow> is_used b (tas_va s) \<or> b = a" for b
    using assms(1,3,4) use_value_tas(3) [of "tas_va s" a b] tas_insert_va [OF assms(7)]
    by (simp add: tas_ok_def)
  with e assms(2,7) show ?thesis by (fastforce simp: tas_tight_def)
qed

lemma get_lru_alias_cases:
  assumes ok: "tas_ok s" and ti: "tas_tight s"
  obtains (vacant) a where "get_lru_alias s = Some a" "1 \<le> a" "a \<le> tas_max s" "\<not> is_used a (tas_va s)"
      "\<forall>b. 1 \<le> b \<and> b < a \<longrightarrow> is_used b (tas_va s)"
    | (lru) e where "get_lru_alias s = Some (te_alias e)" "e \<in> set (tas_aliases s)"
      "\<forall>x \<in> set (tas_aliases s). te_tp e \<le> te_tp x" "\<forall>b. 1 \<le> b \<and> b \<le> tas_max s \<longrightarrow> is_used b (tas_va s)"
proof -
  have va: "va_ok 16 (tas_va s)" and rg: "va_range (tas_va s) = {1..tas_max s}" "1 \<le> tas_max s"
    and so: "sorted (map te_tp (tas_aliases s))"
    using ok by (auto simp: tas_ok_def entries_ok_def)
  show thesis
  proof (cases "va_free (tas_va s) = {}")
    case False
    define a where "a = (LEAST v. v \<in> va_free (tas_va s))"
    have "a \<in> va_free (tas_va s)" using False unfolding a_def by (auto intro: LeastI)
    moreover have "b \<notin> va_free (tas_va s)" if "b < a" for b
      using that not_less_Least unfolding a_def by blast
    moreover have "get_lru_alias s = Some a"
      using False first_vacant_free [OF va] by (simp add: get_lru_alias_def a_def)
    moreover from \<open>a \<in> va_free (tas_va s)\<close> have "1 \<le> a" "a \<le> tas_max s"
      using va.free_ids [OF va] rg(1) by auto
    ultimately show thesis
      using va.used_free [OF va] by (intro vacant [of a]) blast+
  next
    case True
    then have all: "\<forall>b. 1 \<le> b \<and> b \<le> tas_max s \<longrightarrow> is_used b (tas_va s)" using va.used_free [OF va] by auto
    with ti rg(2) have "tas_aliases s \<noteq> []" by (force simp: tas_tight_def)
    then obtain e xs where "tas_aliases s = e # xs" by (cases "tas_aliases s") auto
    with True all so first_vacant_free [OF va] show thesis
      by (intro lru [of e]) (auto simp: get_lru_alias_def)
  qed
qed

text \<open>
  Automatic alias mapping (the branch of \<^verbatim>\<open>send\<close> for a topic without an alias): the alias
  chosen is the lowest one never used, or the least recently used one when all are taken; the
  assignment succeeds, afterwards topic and alias resolve to each other, no other alias changes
  its topic, and the table is again in a state where this works.
\<close>

theorem auto_map_topic_alias:
  assumes ok: "tas_ok s" and ti: "tas_tight s" and t: "topic \<noteq> []" and new: "tas_find_alias topic s = None"
  shows "\<exists>a s'. get_lru_alias s = Some a \<and> 1 \<le> a \<and> a \<le> tas_max s \<and>
    tas_insert_or_update now topic a s = Some s' \<and> tas_ok s' \<and> tas_tight s' \<and>
    tas_find_alias topic s' = Some a \<and> find_without_touch a s' = topic \<and>
    (\<forall>b. b \<noteq> a \<longrightarrow> find_without_touch b s' = find_without_touch b s) \<and>
    (if \<forall>b. 1 \<le> b \<and> b \<le> tas_max s \<longrightarrow> is_used b (tas_va s)
     then \<exists>e \<in> set (tas_aliases s). te_alias e = a \<and> (\<forall>x \<in> set (tas_aliases s). te_tp e \<le> te_tp x)
     else \<not> is_used a (tas_va s) \<and> (\<forall>b. 1 \<le> b \<and> b < a \<longrightarrow> is_used b (tas_va s)))"
proof -
  have ad: "tas_admits topic a s" for a
    using new tas_find_alias_eq [OF ok, of topic] by (auto simp: tas_admits_def)
  have main: ?thesis if a: "get_lru_alias s = Some a" "1 \<le> a" "a \<le> tas_max s" and
    c: "if \<forall>b. 1 \<le> b \<and> b \<le> tas_max s \<longrightarrow> is_used b (tas_va s)
     then \<exists>e \<in> set (tas_aliases s). te_alias e = a \<and> (\<forall>x \<in> set (tas_aliases s). te_tp e \<le> te_tp x)
     else \<not> is_used a (tas_va s) \<and> (\<forall>b. 1 \<le> b \<and> b < a \<longrightarrow> is_used b (tas_va s))" for a
  proof -
    obtain s' where s': "tas_insert_or_update now topic a s = Some s'" "tas_ok s'"
        "\<forall>b. find_without_touch b s' = (if b = a then topic else find_without_touch b s)"
      using tas.assign_resolve [OF ok ad t a(2,3)] by blast
    have "tas_find_alias topic s' = Some a"
      using tas_insert_entries [OF ok a(2,3) t ad, of now] s'(1) tas_find_alias_eq [OF s'(2)] by auto
    moreover have "find_without_touch a s' = topic"
      "\<forall>b. b \<noteq> a \<longrightarrow> find_without_touch b s' = find_without_touch b s" using s'(3) by simp_all
    ultimately show ?thesis
      using a c s'(1,2) tas_insert_tight [OF ok ti a(2,3) t ad s'(1)]
      by (intro exI [of _ a] exI [of _ s'] conjI)
  qed
  from ok ti show ?thesis
  proof (cases rule: get_lru_alias_cases)
    case (vacant a)
    then show ?thesis by (intro main [of a]) auto
  next
    case (lru e)
    then show ?thesis using ok by (intro main [of "te_alias e"]) (auto simp: tas_ok_def)
  qed
qed

theorem auto_map_topic_alias_witness:
  "\<exists>a s'. get_lru_alias (topic_alias_send_init 2) = Some a \<and>
    tas_insert_or_update 7 [97] a (topic_alias_send_init 2) = Some s' \<and> tas_find_alias [97] s' = Some a"
proof -
  have "tas_tight (topic_alias_send_init 2)"
    by (auto simp: tas_tight_def topic_alias_send_init_def min_alias_def allocator_eval)
  from auto_map_topic_alias [OF tas_init_ok this, of "[97]" 7] show ?thesis
    by (auto simp: topic_alias_send_init_def tas_find_alias_def find_entry_def)
qed

text \<open>
  The receiving table: after any sequence of assignments of topics to aliases of the
  negotiated range, an alias resolves to the topic assigned to it last, and an alias never
  assigned resolves to nothing.
\<close>

theorem topic_alias_recv_last_assignment:
  assumes "\<forall>(t, a) \<in> set xs. t \<noteq> [] \<and> 1 \<le> a \<and> a \<le> mx"
  shows "tar_find b (foldl (\<lambda>r (t, a). tar_insert_or_update t a r) (topic_alias_recv_init mx) xs) =
    (case map_of (map (\<lambda>(t, a). (a, t)) (rev xs)) b of None \<Rightarrow> [] | Some t \<Rightarrow> t)"
proof -
  have all: "tar.assign_all xs r = Some (foldl (\<lambda>r (t, a). tar_insert_or_update t a r) r xs)" for r
    by (induction xs arbitrary: r) auto
  have "tar_ok (topic_alias_recv_init mx)" "tar_find b (topic_alias_recv_init mx) = []"
    "tar_max (topic_alias_recv_init mx) = mx"
    by (simp_all add: tar_ok_def topic_alias_recv_init_def tar_find_def)
  with tar.assign_all_resolve [of "topic_alias_recv_init mx" xs] assms show ?thesis
    by (auto simp: all split: option.splits)
qed

theorem topic_alias_recv_last_assignment_witness:
  "tar_find 2 (foldl (\<lambda>r (t, a). tar_insert_or_update t a r) (topic_alias_recv_init 3)
     [([97], 2), ([98], 1), ([99], 2)]) = [99]"
  using topic_alias_recv_last_assignment [of "[([97], 2), ([98], 1), ([99], 2)]" 3 2] by simp

text \<open>
  Mapping a topic that already has an alias to a second one, which MQTT allows, is not
  recorded: for an unused alias the entry is dropped although the alias is marked as used, so a
  later message that uses it cannot be resolved; for an alias in use the container reports a
  collision and the code runs into \<^verbatim>\<open>BOOST_ASSERT(false)\<close>.
\<close>

theorem second_alias_for_topic_lost:
  assumes ok: "tas_ok s" and e: "e \<in> set (tas_aliases s)" and b: "b \<noteq> te_alias e"
  shows "if \<exists>x \<in> set (tas_aliases s). te_alias x = b
    then tas_insert_or_update now (te_topic e) b s = None
    else \<exists>s'. tas_insert_or_update now (te_topic e) b s = Some s' \<and> tas_aliases s' = tas_aliases s \<and>
      find_without_touch b s' = []"
proof -
  have d: "distinct (map te_alias (tas_aliases s))" using ok by (simp add: tas_ok_def entries_ok_def)
  show ?thesis
  proof (cases "find_entry (\<lambda>x. te_alias x = b) (tas_aliases s)")
    case None
    then show ?thesis
      using find_entry_unique(2) [OF d, of b] e
      by (auto simp: tas_insert_or_update_def Let_def emplace_entry_def find_without_touch_def)
  next
    case (Some x)
    then have x: "x \<in> set (tas_aliases s)" "te_alias x = b" using find_entry_unique(1) [OF d] by blast+
    with e b have "modify_entry x (x\<lparr>te_topic := te_topic e, te_tp := now\<rparr>) (tas_aliases s) = None"
      by (auto simp: modify_entry_def)
    with Some x show ?thesis by (auto simp: tas_insert_or_update_def Let_def)
  qed
qed

theorem second_alias_for_topic_lost_witness:
  "\<exists>s s'. tas_insert_or_update 1 [97] 1 (topic_alias_send_init 2) = Some s \<and>
     tas_insert_or_update 2 [97] 2 s = Some s' \<and> find_without_touch 2 s' = []"
proof -
  let ?s0 = "topic_alias_send_init 2"
  obtain s where s: "tas_insert_or_update 1 [97] 1 ?s0 = Some s" "tas_ok s" "set (tas_aliases s) =
      {\<lparr>te_topic = [97], te_alias = 1, te_tp = 1\<rparr>}"
    using tas_insert_entries [OF tas_init_ok [of 2], of 1 "[97]" 1]
    by (auto simp: tas_admits_def topic_alias_send_init_def)
  from second_alias_for_topic_lost [OF s(2), of "\<lparr>te_topic = [97], te_alias = 1, te_tp = 1\<rparr>" 2 2] s
  show ?thesis by auto
qed

end
