(* ===== verification/Connection.thy ===== *)
theory Connection
  imports Store Packet_Builder Topic_Alias
begin

unbundle bit_operations_syntax

text \<open>
  The sans-I/O protocol engine: \<^verbatim>\<open>basic_connection_impl\<close> of \<^verbatim>\<open>protocol/impl/connection_impl.hpp\<close>,
  \<^verbatim>\<open>connection_impl.ipp\<close> and \<^verbatim>\<open>connection_send.ipp\<close>.

  \<^item> The template arguments \<^verbatim>\<open>Role\<close> and \<^verbatim>\<open>PacketIdBytes\<close> are the constant fields \<open>cn_role\<close> and
    \<open>cn_pid_bytes\<close> of the state; \<open>cn_now\<close> is what \<^verbatim>\<open>steady_clock::now()\<close> returns during a call.
  \<^item> The virtual member functions by which the engine talks to its owner (\<^verbatim>\<open>on_error\<close>, \<^verbatim>\<open>on_send\<close>,
    \<^verbatim>\<open>on_packet_id_release\<close>, \<^verbatim>\<open>on_receive\<close>, \<^verbatim>\<open>on_timer_op\<close>, \<^verbatim>\<open>on_close\<close>) append an \<open>event\<close> to
    \<open>cn_events\<close>, as the overriders of \<^verbatim>\<open>rv_connection\<close> do. The owner handles the events after the
    call.
  \<^item> \<^verbatim>\<open>std::set\<close> is a set of naturals, iterated in ascending order; \<^verbatim>\<open>receive_maximum_type\<close> is
    16 bits wide, and its increments and decrements wrap.
  \<^item> A call that throws or runs into undefined behaviour (a disengaged optional, the collision in a
    topic alias table, an access behind a buffer) is \<open>Inl\<close>.
\<close>

subsection \<open>Roles, status, timers, events\<close>

datatype role = Client | Server | Any

datatype connection_status = Connecting | Connected | Disconnected

datatype timer_kind = Pingreq_send | Pingreq_recv | Pingresp_recv

datatype timer_op = Timer_reset | Timer_cancel

datatype event =
    On_error error_code
  | On_send packet_variant "nat option"
  | On_packet_id_release nat
  | On_receive packet_variant
  | On_timer_op timer_op timer_kind "nat option"
  | On_close

datatype failure = Throws exn | Undefined

definition can_send_as_client :: "role \<Rightarrow> bool" where
  "can_send_as_client r \<longleftrightarrow> r = Client \<or> r = Any"

definition can_send_as_server :: "role \<Rightarrow> bool" where
  "can_send_as_server r \<longleftrightarrow> r = Server \<or> r = Any"

definition packet_size_no_limit :: nat where
  "packet_size_no_limit = 1 + 4 + 128 * 128 * 128 * 128"

subsection \<open>State\<close>

record connection =
  cn_role :: role
  cn_pid_bytes :: nat
  cn_now :: nat
  cn_events :: "event list"
  cn_protocol_version :: protocol_version
  cn_pid_man :: packet_id_manager
  cn_pid_suback :: "nat set"
  cn_pid_unsuback :: "nat set"
  cn_pid_puback :: "nat set"
  cn_pid_pubrec :: "nat set"
  cn_pid_pubcomp :: "nat set"
  cn_need_store :: bool
  cn_store :: store
  cn_offline_publish :: bool
  cn_auto_pub_response :: bool
  cn_auto_ping_response :: bool
  cn_auto_map_topic_alias_send :: bool
  cn_auto_replace_topic_alias_send :: bool
  cn_topic_alias_send :: "topic_alias_send option"
  cn_topic_alias_recv :: "topic_alias_recv option"
  cn_publish_send_max :: "nat option"
  cn_publish_recv_max :: "nat option"
  cn_publish_send_count :: nat
  cn_publish_recv :: "nat set"
  cn_maximum_packet_size_send :: nat
  cn_maximum_packet_size_recv :: nat
  cn_status :: connection_status
  cn_pingreq_send_interval_ms :: "nat option"
  cn_pingreq_recv_timeout_ms :: "nat option"
  cn_pingresp_recv_timeout_ms :: "nat option"
  cn_qos2_publish_handled :: "nat set"
  cn_qos2_publish_processing :: "nat set"
  cn_pingreq_send_set :: bool
  cn_pingreq_recv_set :: bool
  cn_pingresp_recv_set :: bool
  cn_rpb :: recv_packet_builder
  cn_is_client :: bool

definition connection_init :: "role \<Rightarrow> nat \<Rightarrow> protocol_version \<Rightarrow> connection" where
  "connection_init r n ver =
     \<lparr>cn_role = r, cn_pid_bytes = n, cn_now = 0, cn_events = [], cn_protocol_version = ver,
      cn_pid_man = packet_id_manager_init n, cn_pid_suback = {}, cn_pid_unsuback = {}, cn_pid_puback = {},
      cn_pid_pubrec = {}, cn_pid_pubcomp = {}, cn_need_store = False, cn_store = [], cn_offline_publish = False,
      cn_auto_pub_response = False, cn_auto_ping_response = False, cn_auto_map_topic_alias_send = False,
      cn_auto_replace_topic_alias_send = False, cn_topic_alias_send = None, cn_topic_alias_recv = None,
      cn_publish_send_max = None, cn_publish_recv_max = None, cn_publish_send_count = 0, cn_publish_recv = {},
      cn_maximum_packet_size_send = packet_size_no_limit, cn_maximum_packet_size_recv = packet_size_no_limit,
      cn_status = Disconnected, cn_pingreq_send_interval_ms = None, cn_pingreq_recv_timeout_ms = None,
      cn_pingresp_recv_timeout_ms = None, cn_qos2_publish_handled = {}, cn_qos2_publish_processing = {},
      cn_pingreq_send_set = False, cn_pingreq_recv_set = False, cn_pingresp_recv_set = False,
      cn_rpb = rpb_init, cn_is_client = True\<rparr>"

definition emit :: "event \<Rightarrow> connection \<Rightarrow> connection" where
  "emit e c = c\<lparr>cn_events := cn_events c @ [e]\<rparr>"

text \<open>The codes of the errors the engine reports itself.\<close>

definition packet_identifier_invalid :: error_code where "packet_identifier_invalid = mqtt_err 0x183"
definition packet_not_allowed_to_send :: error_code where "packet_not_allowed_to_send = mqtt_err 0x184"
definition packet_not_regulated :: error_code where "packet_not_regulated = mqtt_err 0x186"
definition receive_maximum_exceeded :: byte where "receive_maximum_exceeded = 0x93"
definition topic_alias_invalid :: byte where "topic_alias_invalid = 0x94"
definition keep_alive_timeout :: byte where "keep_alive_timeout = 0x8d"

definition disconnect_code :: "byte \<Rightarrow> error_code" where
  "disconnect_code rc = disconnect_err (unat rc)"

subsection \<open>Timers\<close>

definition cancel_timers :: "connection \<Rightarrow> connection" where
  "cancel_timers c =
     (let c = (if cn_pingreq_send_set c
               then emit (On_timer_op Timer_cancel Pingreq_send None) (c\<lparr>cn_pingreq_send_set := False\<rparr>) else c);
          c = (if cn_pingreq_recv_set c
               then emit (On_timer_op Timer_cancel Pingreq_recv None) (c\<lparr>cn_pingreq_recv_set := False\<rparr>) else c)
      in (if cn_pingresp_recv_set c
          then emit (On_timer_op Timer_cancel Pingresp_recv None) (c\<lparr>cn_pingresp_recv_set := False\<rparr>) else c))"

definition set_pingreq_send_interval :: "nat \<Rightarrow> connection \<Rightarrow> connection" where
  "set_pingreq_send_interval duration c =
     (if duration = 0
      then emit (On_timer_op Timer_cancel Pingreq_send None)
             (c\<lparr>cn_pingreq_send_interval_ms := None, cn_pingreq_send_set := False\<rparr>)
      else emit (On_timer_op Timer_reset Pingreq_send (Some duration))
             (c\<lparr>cn_pingreq_send_interval_ms := Some duration, cn_pingreq_send_set := True\<rparr>))"

definition set_pingresp_recv_timeout :: "nat \<Rightarrow> connection \<Rightarrow> connection" where
  "set_pingresp_recv_timeout duration c =
     c\<lparr>cn_pingresp_recv_timeout_ms := (if duration = 0 then None else Some duration)\<rparr>"

text \<open>The lambda \<^verbatim>\<open>pingreq_recv_op\<close> of \<^verbatim>\<open>process_recv_packet\<close>.\<close>

definition pingreq_recv_op :: "connection \<Rightarrow> connection" where
  "pingreq_recv_op c =
     (case cn_pingreq_recv_timeout_ms c of
        None \<Rightarrow> c
      | Some ms \<Rightarrow>
          if cn_status c = Connecting \<or> cn_status c = Connected
          then emit (On_timer_op Timer_reset Pingreq_recv (Some ms)) (c\<lparr>cn_pingreq_recv_set := True\<rparr>)
          else emit (On_timer_op Timer_cancel Pingreq_recv None) (c\<lparr>cn_pingreq_recv_set := False\<rparr>))"

subsection \<open>Packet identifiers\<close>

definition acquire_unique_packet_id :: "connection \<Rightarrow> nat option \<times> connection" where
  "acquire_unique_packet_id c =
     (let (r, m) = acquire_unique_id (cn_pid_bytes c) (cn_pid_man c) in (r, c\<lparr>cn_pid_man := m\<rparr>))"

definition register_packet_id :: "nat \<Rightarrow> connection \<Rightarrow> bool \<times> connection" where
  "register_packet_id packet_id c =
     (let (r, m) = register_id (cn_pid_bytes c) packet_id (cn_pid_man c) in (r, c\<lparr>cn_pid_man := m\<rparr>))"

text \<open>\<^verbatim>\<open>pid_man_.release_id(packet_id); con_.on_packet_id_release(packet_id);\<close>\<close>

definition release_and_notify :: "nat \<Rightarrow> connection \<Rightarrow> connection" where
  "release_and_notify packet_id c =
     emit (On_packet_id_release packet_id) (c\<lparr>cn_pid_man := release_id (cn_pid_bytes c) packet_id (cn_pid_man c)\<rparr>)"

definition release_packet_id :: "nat \<Rightarrow> connection \<Rightarrow> connection" where
  "release_packet_id packet_id c =
     (if is_used_id packet_id (cn_pid_man c) then release_and_notify packet_id c else c)"

definition release_packet_ids :: "nat set \<Rightarrow> connection \<Rightarrow> connection" where
  "release_packet_ids ids c = fold release_packet_id (sorted_list_of_set ids) c"

definition notify_closed :: "connection \<Rightarrow> connection" where
  "notify_closed c =
     (let c = c\<lparr>cn_maximum_packet_size_send := packet_size_no_limit, cn_maximum_packet_size_recv := packet_size_no_limit,
                cn_status := Disconnected, cn_topic_alias_send := None, cn_topic_alias_recv := None\<rparr>;
          c = (release_packet_ids (cn_pid_suback c) c)\<lparr>cn_pid_suback := {}\<rparr>;
          c = (release_packet_ids (cn_pid_unsuback c) c)\<lparr>cn_pid_unsuback := {}\<rparr>;
          c = (if cn_need_store c then c
               else
                 (let c = c\<lparr>cn_qos2_publish_processing := {}, cn_qos2_publish_handled := {}\<rparr>;
                      c = (release_packet_ids (cn_pid_puback c) c)\<lparr>cn_pid_puback := {}\<rparr>;
                      c = (release_packet_ids (cn_pid_pubrec c) c)\<lparr>cn_pid_pubrec := {}\<rparr>
                  in (release_packet_ids (cn_pid_pubcomp c) c)\<lparr>cn_pid_pubcomp := {}\<rparr>))
      in cancel_timers c)"

subsection \<open>Settings and queries\<close>

text \<open>The difference of two 16-bit values, converted to \<^verbatim>\<open>std::size_t\<close>.\<close>

definition get_receive_maximum_vacancy_for_send :: "connection \<Rightarrow> nat option" where
  "get_receive_maximum_vacancy_for_send c =
     map_option (\<lambda>mx. (mx + 2 ^ 64 - cn_publish_send_count c) mod 2 ^ 64) (cn_publish_send_max c)"

definition set_offline_publish :: "bool \<Rightarrow> connection \<Rightarrow> connection" where
  "set_offline_publish val c = c\<lparr>cn_offline_publish := val\<rparr>"

definition set_auto_pub_response :: "bool \<Rightarrow> connection \<Rightarrow> connection" where
  "set_auto_pub_response val c = c\<lparr>cn_auto_pub_response := val\<rparr>"

definition set_auto_ping_response :: "bool \<Rightarrow> connection \<Rightarrow> connection" where
  "set_auto_ping_response val c = c\<lparr>cn_auto_ping_response := val\<rparr>"

definition set_auto_map_topic_alias_send :: "bool \<Rightarrow> connection \<Rightarrow> connection" where
  "set_auto_map_topic_alias_send val c = c\<lparr>cn_auto_map_topic_alias_send := val\<rparr>"

definition set_auto_replace_topic_alias_send :: "bool \<Rightarrow> connection \<Rightarrow> connection" where
  "set_auto_replace_topic_alias_send val c = c\<lparr>cn_auto_replace_topic_alias_send := val\<rparr>"

definition get_qos2_publish_handled_pids :: "connection \<Rightarrow> nat set" where
  "get_qos2_publish_handled_pids c = cn_qos2_publish_handled c"

definition restore_qos2_publish_handled_pids :: "nat set \<Rightarrow> connection \<Rightarrow> connection" where
  "restore_qos2_publish_handled_pids pids c = c\<lparr>cn_qos2_publish_handled := pids\<rparr>"

definition get_stored_packets :: "connection \<Rightarrow> store_packet_variant list" where
  "get_stored_packets c = get_stored (cn_store c)"

definition is_publish_processing :: "nat \<Rightarrow> connection \<Rightarrow> bool" where
  "is_publish_processing pid c \<longleftrightarrow> pid \<in> cn_qos2_publish_processing c"

subsection \<open>Restoring a session\<close>

definition restore_add_publish :: "qos \<Rightarrow> nat \<Rightarrow> connection \<Rightarrow> connection" where
  "restore_add_publish q pid c =
     (if q = at_least_once then c\<lparr>cn_pid_puback := insert pid (cn_pid_puback c)\<rparr>
      else if q = exactly_once then c\<lparr>cn_pid_pubrec := insert pid (cn_pid_pubrec c)\<rparr>
      else c)"

definition restore_add_store :: "packet_variant \<Rightarrow> nat \<Rightarrow> connection \<Rightarrow> connection" where
  "restore_add_store p pid c =
     (let (ok, c) = register_packet_id pid c in
      if ok then c\<lparr>cn_store := snd (store_add p (cn_store c))\<rparr> else c)"

definition restore_packet :: "store_packet_variant \<Rightarrow> connection \<Rightarrow> connection" where
  "restore_packet pv c =
     (let pid = sp_packet_id pv; p = sp_packet pv in
      case sp_var pv of
        S3_publish q \<Rightarrow> restore_add_store p pid (restore_add_publish (opts_get_qos (v3_publish_opts q)) pid c)
      | S5_publish q \<Rightarrow> restore_add_store p pid (restore_add_publish (opts_get_qos (v5_publish_opts q)) pid c)
      | _ \<Rightarrow> restore_add_store p pid (c\<lparr>cn_pid_pubcomp := insert pid (cn_pid_pubcomp c)\<rparr>))"

definition restore_packets :: "store_packet_variant list \<Rightarrow> connection \<Rightarrow> connection" where
  "restore_packets pvs c = fold restore_packet pvs c"

subsection \<open>Topic aliases and sizes\<close>

definition get_topic_alias :: "properties \<Rightarrow> nat option" where
  "get_topic_alias props = map_option property_val_int (find (\<lambda>p. prop_id p = Id_topic_alias) props)"

fun erase_topic_alias :: "properties \<Rightarrow> properties" where
  "erase_topic_alias [] = []"
| "erase_topic_alias (p # ps) = (if prop_id p = Id_topic_alias then ps else p # erase_topic_alias ps)"

definition validate_topic_alias_range :: "nat \<Rightarrow> connection \<Rightarrow> bool" where
  "validate_topic_alias_range ta c =
     (case cn_topic_alias_send c of
        None \<Rightarrow> False
      | Some tas \<Rightarrow> \<not> (ta = 0 \<or> ta > tas_max tas))"

text \<open>The lookup marks the alias as used.\<close>

definition validate_topic_alias :: "nat option \<Rightarrow> connection \<Rightarrow> bytes option \<times> connection" where
  "validate_topic_alias ta_opt c =
     (case ta_opt of
        None \<Rightarrow> (None, c)
      | Some ta \<Rightarrow>
          if \<not> validate_topic_alias_range ta c then (None, c)
          else
            (case cn_topic_alias_send c of
               None \<Rightarrow> (None, c)
             | Some tas \<Rightarrow>
                 (let (topic, tas) = tas_find_touch (cn_now c) ta tas; c = c\<lparr>cn_topic_alias_send := Some tas\<rparr> in
                  if topic = [] then (None, c) else (Some topic, c))))"

definition validate_maximum_packet_size :: "nat \<Rightarrow> connection \<Rightarrow> bool" where
  "validate_maximum_packet_size sz c \<longleftrightarrow> \<not> sz > cn_maximum_packet_size_send c"

definition regulate_for_store :: "v5_publish \<Rightarrow> connection \<Rightarrow> failure + error_code \<times> v5_publish" where
  "regulate_for_store packet c =
     (if p5_topic_name packet = [] then
        (case get_topic_alias (p5_props packet) of
           Some ta \<Rightarrow>
             (case cn_topic_alias_send c of
                None \<Rightarrow> Inl Undefined
              | Some tas \<Rightarrow>
                  (let topic = find_without_touch ta tas in
                   if topic = [] then Inr (packet_not_regulated, packet)
                   else Inr (ec_success, remove_topic_alias_add_topic topic packet)))
         | None \<Rightarrow> Inr (packet_not_regulated, packet))
      else Inr (ec_success, remove_topic_alias packet))"

subsection \<open>Sending\<close>

text \<open>
  \<^verbatim>\<open>process_send_packet\<close> is a sequence of stages. A stage continues with a value (\<open>Inr\<close>), or the
  function returns there with its Boolean result and the state, or fails.
\<close>

datatype send_exit = Returned bool connection | Failed failure

fun packet_id :: "packet_variant \<Rightarrow> nat" where
  "packet_id (V3_publish p) = v3_publish_packet_id p"
| "packet_id (V3_puback p) = v3_ack_packet_id p"
| "packet_id (V3_pubrec p) = v3_ack_packet_id p"
| "packet_id (V3_pubrel p) = v3_ack_packet_id p"
| "packet_id (V3_pubcomp p) = v3_ack_packet_id p"
| "packet_id (V3_subscribe p) = v3_subscribe_packet_id p"
| "packet_id (V3_suback p) = v3_suback_packet_id p"
| "packet_id (V3_unsubscribe p) = v3_unsubscribe_packet_id p"
| "packet_id (V3_unsuback p) = v3_ack_packet_id p"
| "packet_id (V5_publish p) = v5_publish_packet_id p"
| "packet_id (V5_puback p) = v5_ack_packet_id p"
| "packet_id (V5_pubrec p) = v5_ack_packet_id p"
| "packet_id (V5_pubrel p) = v5_ack_packet_id p"
| "packet_id (V5_pubcomp p) = v5_ack_packet_id p"
| "packet_id (V5_subscribe p) = v5_subscribe_packet_id p"
| "packet_id (V5_suback p) = v5_suback_packet_id p"
| "packet_id (V5_unsubscribe p) = v5_unsubscribe_packet_id p"
| "packet_id (V5_unsuback p) = v5_suback_packet_id p"
| "packet_id _ = 0"

definition return_error :: "error_code \<Rightarrow> connection \<Rightarrow> send_exit" where
  "return_error ec c = Returned False (emit (On_error ec) c)"

text \<open>The exits that also give the packet identifier back.\<close>

definition return_error_release :: "error_code \<Rightarrow> nat \<Rightarrow> connection \<Rightarrow> send_exit" where
  "return_error_release ec pid c =
     Returned False (let c = emit (On_error ec) c in if pid \<noteq> 0 then release_and_notify pid c else c)"

definition version_check :: "packet_variant \<Rightarrow> connection \<Rightarrow> bool" where
  "version_check p c \<longleftrightarrow>
     cn_protocol_version c = V3_1_1 \<and> is_v3_1_1 p \<or> cn_protocol_version c = V5 \<and> is_v5 p"

definition role_check :: "packet_variant \<Rightarrow> connection \<Rightarrow> bool" where
  "role_check p c \<longleftrightarrow>
     can_send_as_client (cn_role c) \<and> is_client_sendable p \<or> can_send_as_server (cn_role c) \<and> is_server_sendable p"

definition status_check :: "packet_variant \<Rightarrow> connection \<Rightarrow> bool" where
  "status_check p c \<longleftrightarrow>
     (if is_connect p then cn_status c = Disconnected
      else if is_connack p then cn_status c = Connecting
      else if is_auth p then cn_status c \<noteq> Disconnected
      else cn_status c = Connected \<or> is_publish p)"

definition send_checks :: "packet_variant \<Rightarrow> connection \<Rightarrow> send_exit + unit" where
  "send_checks p c =
     (if \<not> role_check p c then Inl (return_error packet_not_allowed_to_send c)
      else if \<not> status_check p c then Inl (return_error packet_not_allowed_to_send c)
      else if \<not> version_check p c then Inl (return_error packet_not_allowed_to_send c)
      else if \<not> validate_maximum_packet_size (packet_variant_size p) c then
        Inl (if own_packet_id p then return_error_release packet_not_allowed_to_send (packet_id p) c
             else return_error packet_not_allowed_to_send c)
      else Inr ())"

subsubsection \<open>CONNECT and CONNACK\<close>

definition connection_initialize :: "bool \<Rightarrow> connection \<Rightarrow> connection" where
  "connection_initialize is_client c =
     c\<lparr>cn_publish_send_max := None, cn_publish_recv_max := None, cn_publish_send_count := 0,
       cn_topic_alias_send := None, cn_topic_alias_recv := None, cn_publish_recv := {},
       cn_qos2_publish_processing := {}, cn_need_store := False, cn_pid_suback := {}, cn_pid_unsuback := {},
       cn_is_client := is_client\<rparr>"

definition clear_publish_pids :: "connection \<Rightarrow> connection" where
  "clear_publish_pids c = c\<lparr>cn_pid_puback := {}, cn_pid_pubrec := {}, cn_pid_pubcomp := {}\<rparr>"

text \<open>\<^verbatim>\<open>pid_man_.clear(); store_.clear();\<close> and the three sets of identifiers in flight.\<close>

definition clear_session :: "connection \<Rightarrow> connection" where
  "clear_session c =
     clear_publish_pids (c\<lparr>cn_pid_man := clear_ids (cn_pid_man c), cn_store := store_clear (cn_store c)\<rparr>)"

definition set_send_interval_if_unset :: "nat \<Rightarrow> connection \<Rightarrow> connection" where
  "set_send_interval_if_unset keep_alive c =
     (if keep_alive \<noteq> 0 \<and> cn_pingreq_send_interval_ms c = None
      then c\<lparr>cn_pingreq_send_interval_ms := Some (keep_alive * 1000)\<rparr> else c)"

definition send_v3_connect :: "v3_connect \<Rightarrow> connection \<Rightarrow> connection" where
  "send_v3_connect p c =
     (let c = (connection_initialize True c)\<lparr>cn_status := Connecting\<rparr>;
          c = set_send_interval_if_unset (v3_connect_keep_alive p) c;
          c = (if v3_connect_clean_session p then (clear_session c)\<lparr>cn_need_store := False\<rparr>
               else c\<lparr>cn_need_store := True\<rparr>)
      in c\<lparr>cn_topic_alias_send := None\<rparr>)"

definition recv_limit_property :: "property_variant \<Rightarrow> connection \<Rightarrow> connection" where
  "recv_limit_property p c =
     (if prop_id p = Id_topic_alias_maximum then
        (if property_val_int p \<noteq> 0 then c\<lparr>cn_topic_alias_recv := Some (topic_alias_recv_init (property_val_int p))\<rparr> else c)
      else if prop_id p = Id_receive_maximum then c\<lparr>cn_publish_recv_max := Some (property_val_int p)\<rparr>
      else if prop_id p = Id_maximum_packet_size then c\<lparr>cn_maximum_packet_size_recv := property_val_int p\<rparr>
      else c)"

definition session_expiry_property :: "property_variant \<Rightarrow> connection \<Rightarrow> connection" where
  "session_expiry_property p c =
     (if prop_id p = Id_session_expiry_interval \<and> property_val_int p \<noteq> 0 then c\<lparr>cn_need_store := True\<rparr> else c)"

definition send_v5_connect :: "v5_connect \<Rightarrow> connection \<Rightarrow> connection" where
  "send_v5_connect p c =
     (let c = (connection_initialize True c)\<lparr>cn_status := Connecting\<rparr>;
          c = set_send_interval_if_unset (v5_connect_keep_alive p) c;
          c = (if v5_connect_clean_start p then clear_session c else c)
      in fold (\<lambda>prop c. session_expiry_property prop (recv_limit_property prop c)) (c5_props p) c)"

definition send_v3_connack :: "v3_all \<Rightarrow> connection \<Rightarrow> connection" where
  "send_v3_connack p c =
     (if v3_connack_code p = 0 then c\<lparr>cn_status := Connected\<rparr> else cancel_timers (c\<lparr>cn_status := Disconnected\<rparr>))"

definition send_v5_connack :: "v5_connack \<Rightarrow> connection \<Rightarrow> connection" where
  "send_v5_connack p c =
     (if ca5_reason_code p = 0 then fold recv_limit_property (ca5_props p) (c\<lparr>cn_status := Connected\<rparr>)
      else cancel_timers (c\<lparr>cn_status := Disconnected\<rparr>))"

fun send_connect_stage :: "packet_variant \<Rightarrow> connection \<Rightarrow> connection" where
  "send_connect_stage (V3_connect p) c = send_v3_connect p c"
| "send_connect_stage (V5_connect p) c = send_v5_connect p c"
| "send_connect_stage (V3_connack p) c = send_v3_connack p c"
| "send_connect_stage (V5_connack p) c = send_v5_connack p c"
| "send_connect_stage _ c = c"

subsubsection \<open>PUBLISH\<close>

definition qos_1_or_2 :: "qos \<Rightarrow> bool" where
  "qos_1_or_2 q \<longleftrightarrow> q = at_least_once \<or> q = exactly_once"

fun publish_qos :: "packet_variant \<Rightarrow> qos" where
  "publish_qos (V3_publish p) = opts_get_qos (v3_publish_opts p)"
| "publish_qos (V5_publish p) = opts_get_qos (v5_publish_opts p)"
| "publish_qos _ = at_most_once"

text \<open>A topic alias is refused while there is no connection.\<close>

fun offline_alias_stage :: "packet_variant \<Rightarrow> connection \<Rightarrow> send_exit + unit" where
  "offline_alias_stage (V5_publish p) c =
     (if cn_status c \<noteq> Connected \<and> get_topic_alias (p5_props p) \<noteq> None
      then Inl (return_error_release packet_not_allowed_to_send (v5_publish_packet_id p) c) else Inr ())"
| "offline_alias_stage _ c = Inr ()"

definition add_to_store :: "packet_variant \<Rightarrow> connection \<Rightarrow> connection" where
  "add_to_store p c = c\<lparr>cn_store := snd (store_add p (cn_store c))\<rparr>"

text \<open>
  The PUBLISH that goes to the store: with the topic instead of a topic alias and the DUP flag
  set. The Boolean result says that the topic alias was validated.
\<close>

definition make_store_publish :: "nat \<Rightarrow> bytes \<Rightarrow> v5_publish \<Rightarrow> send_exit + v5_publish" where
  "make_store_publish n topic p =
     (case make_v5_publish n (v5_publish_packet_id p) topic (p5_payloads p) (v5_publish_opts p)
             (erase_topic_alias (p5_props p)) of
        Inl e \<Rightarrow> Inl (Failed (Throws e))
      | Inr q \<Rightarrow> Inr q)"

definition store_v5_publish :: "v5_publish \<Rightarrow> connection \<Rightarrow> send_exit + bool \<times> connection" where
  "store_v5_publish p c =
     (if p5_topic_name p = [] then
        (case validate_topic_alias (get_topic_alias (p5_props p)) c of
           (None, c) \<Rightarrow> Inl (return_error_release packet_not_allowed_to_send (v5_publish_packet_id p) c)
         | (Some topic, c) \<Rightarrow>
             bindE (make_store_publish (cn_pid_bytes c) topic p) (\<lambda>q.
             if \<not> validate_maximum_packet_size (v5_publish_size q) c
             then Inl (return_error_release packet_not_allowed_to_send (v5_publish_packet_id p) c)
             else Inr (True, add_to_store (V5_publish (v5_publish_set_dup True q)) c)))
      else
        bindE (make_store_publish (cn_pid_bytes c) (p5_topic_name p) p) (\<lambda>q.
        Inr (False, add_to_store (V5_publish (v5_publish_set_dup True q)) c)))"

fun store_publish :: "packet_variant \<Rightarrow> connection \<Rightarrow> send_exit + bool \<times> connection" where
  "store_publish (V5_publish p) c = store_v5_publish p c"
| "store_publish (V3_publish p) c = Inr (False, add_to_store (V3_publish (v3_publish_set_dup True p)) c)"
| "store_publish _ c = Inr (False, c)"

text \<open>
  The results: whether the topic alias was validated, the identifier to release if the packet
  cannot be sent, and the state.
\<close>

definition store_stage :: "packet_variant \<Rightarrow> connection \<Rightarrow> send_exit + bool \<times> nat option \<times> connection" where
  "store_stage p c =
     (if is_publish p \<and> qos_1_or_2 (publish_qos p) then
        (let pid = packet_id p in
         if \<not> is_used_id pid (cn_pid_man c) then Inl (return_error packet_identifier_invalid c)
         else
           bindE (if cn_need_store c \<and> (cn_status c \<noteq> Disconnected \<or> cn_offline_publish c)
                  then bindE (store_publish p c) (\<lambda>(validated, c). Inr (validated, None, c))
                  else Inr (False, Some pid, c)) (\<lambda>(validated, rel, c).
           Inr (validated, rel,
             if publish_qos p = exactly_once
             then c\<lparr>cn_qos2_publish_processing := insert pid (cn_qos2_publish_processing c),
                    cn_pid_pubrec := insert pid (cn_pid_pubrec c)\<rparr>
             else c\<lparr>cn_pid_puback := insert pid (cn_pid_puback c)\<rparr>)))
      else Inr (False, None, c))"

text \<open>The alias an unaliased PUBLISH gets on a connection that maps or replaces automatically.\<close>

definition auto_alias :: "v5_publish \<Rightarrow> connection \<Rightarrow> send_exit + v5_publish \<times> connection" where
  "auto_alias p c =
     (if cn_status c \<noteq> Connected then Inr (p, c)
      else if cn_auto_map_topic_alias_send c then
        (case cn_topic_alias_send c of
           None \<Rightarrow> Inr (p, c)
         | Some tas \<Rightarrow>
             (case tas_find_alias (p5_topic_name p) tas of
                Some ta \<Rightarrow> Inr (remove_topic_add_topic_alias ta p, c)
              | None \<Rightarrow>
                  (case get_lru_alias tas of
                     None \<Rightarrow> Inl (Failed Undefined)
                   | Some lru_ta \<Rightarrow>
                       (case tas_insert_or_update (cn_now c) (p5_topic_name p) lru_ta tas of
                          None \<Rightarrow> Inl (Failed Undefined)
                        | Some tas \<Rightarrow> Inr (add_topic_alias lru_ta p, c\<lparr>cn_topic_alias_send := Some tas\<rparr>)))))
      else if cn_auto_replace_topic_alias_send c then
        (case cn_topic_alias_send c of
           None \<Rightarrow> Inr (p, c)
         | Some tas \<Rightarrow>
             (case tas_find_alias (p5_topic_name p) tas of
                Some ta \<Rightarrow> Inr (remove_topic_add_topic_alias ta p, c)
              | None \<Rightarrow> Inr (p, c)))
      else Inr (p, c))"

definition apply_alias :: "bool \<Rightarrow> v5_publish \<Rightarrow> connection \<Rightarrow> send_exit + v5_publish \<times> connection" where
  "apply_alias validated p c =
     (let ta_opt = get_topic_alias (p5_props p); pid = v5_publish_packet_id p in
      if p5_topic_name p = [] then
        (if validated then Inr (p, c)
         else
           (case validate_topic_alias ta_opt c of
              (None, c) \<Rightarrow> Inl (return_error_release packet_not_allowed_to_send pid c)
            | (Some _, c) \<Rightarrow> Inr (p, c)))
      else
        (case ta_opt of
           Some ta \<Rightarrow>
             if validate_topic_alias_range ta c then
               (case cn_topic_alias_send c of
                  None \<Rightarrow> Inl (Failed Undefined)
                | Some tas \<Rightarrow>
                    (case tas_insert_or_update (cn_now c) (p5_topic_name p) ta tas of
                       None \<Rightarrow> Inl (Failed Undefined)
                     | Some tas \<Rightarrow> Inr (p, c\<lparr>cn_topic_alias_send := Some tas\<rparr>)))
             else Inl (return_error_release packet_not_allowed_to_send pid c)
         | None \<Rightarrow> auto_alias p c))"

definition receive_maximum_stage :: "v5_publish \<Rightarrow> connection \<Rightarrow> send_exit + connection" where
  "receive_maximum_stage p c =
     (if qos_1_or_2 (opts_get_qos (v5_publish_opts p)) then
        (case cn_publish_send_max c of
           None \<Rightarrow> Inr c
         | Some mx \<Rightarrow>
             if cn_publish_send_count c = mx
             then Inl (return_error_release (disconnect_code receive_maximum_exceeded) (v5_publish_packet_id p) c)
             else Inr (c\<lparr>cn_publish_send_count := (cn_publish_send_count c + 1) mod 65536\<rparr>))
      else Inr c)"

fun v5_publish_stage :: "bool \<Rightarrow> packet_variant \<Rightarrow> connection \<Rightarrow> send_exit + packet_variant \<times> connection" where
  "v5_publish_stage validated (V5_publish p) c =
     bindE (apply_alias validated p c) (\<lambda>(p, c).
     bindE (receive_maximum_stage p c) (\<lambda>c. Inr (V5_publish p, c)))"
| "v5_publish_stage validated p c = Inr (p, c)"

subsubsection \<open>Responses, SUBSCRIBE, UNSUBSCRIBE\<close>

definition pubrec_failed :: "v5_ack \<Rightarrow> bool" where
  "pubrec_failed p \<longleftrightarrow> ec_failed (make_error_code Cat_pubrec_reason_code (unat (v5_ack_code p)))"

text \<open>The bookkeeping of the other packets, with the identifier to release if sending fails.\<close>

definition ack_stage :: "packet_variant \<Rightarrow> nat option \<Rightarrow> connection \<Rightarrow> nat option \<times> connection" where
  "ack_stage p rel c =
     (let pid = packet_id p in
      if is_V5_puback p then (rel, c\<lparr>cn_publish_recv := cn_publish_recv c - {pid}\<rparr>)
      else if is_V5_pubrec p then
        (rel, if (case p of V5_pubrec q \<Rightarrow> pubrec_failed q | _ \<Rightarrow> False)
              then c\<lparr>cn_publish_recv := cn_publish_recv c - {pid},
                     cn_qos2_publish_handled := cn_qos2_publish_handled c - {pid}\<rparr>
              else c)
      else if is_pubrel p then
        (rel, (if cn_need_store c then add_to_store p c else c)\<lparr>cn_pid_pubcomp := insert pid (cn_pid_pubcomp c)\<rparr>)
      else if is_V5_pubcomp p then (rel, c\<lparr>cn_publish_recv := cn_publish_recv c - {pid}\<rparr>)
      else if is_subscribe p then (Some pid, c\<lparr>cn_pid_suback := insert pid (cn_pid_suback c)\<rparr>)
      else if is_unsubscribe p then (Some pid, c\<lparr>cn_pid_unsuback := insert pid (cn_pid_unsuback c)\<rparr>)
      else (rel, c))"

text \<open>The end of the function.\<close>

definition final_stage :: "packet_variant \<Rightarrow> nat option \<Rightarrow> connection \<Rightarrow> send_exit" where
  "final_stage p rel c =
     (if is_pingreq p then
        Returned True
          (let c = emit (On_send p rel) c in
           case cn_pingresp_recv_timeout_ms c of
             None \<Rightarrow> c
           | Some ms \<Rightarrow> emit (On_timer_op Timer_reset Pingresp_recv (Some ms)) (c\<lparr>cn_pingresp_recv_set := True\<rparr>))
      else if is_disconnect p then
        Returned True (emit On_close (emit (On_send p rel) (cancel_timers (c\<lparr>cn_status := Disconnected\<rparr>))))
      else if is_publish p \<and> cn_status c \<noteq> Connected then
        (if cn_offline_publish c then Returned True c
         else return_error_release packet_not_allowed_to_send (packet_id p) c)
      else Returned True (emit (On_send p rel) c))"

definition process_send_packet :: "packet_variant \<Rightarrow> connection \<Rightarrow> failure + bool \<times> connection" where
  "process_send_packet p c =
     (case bindE (send_checks p c) (\<lambda>_.
           let c = send_connect_stage p c in
           bindE (offline_alias_stage p c) (\<lambda>_.
           bindE (store_stage p c) (\<lambda>(validated, rel, c).
           bindE (v5_publish_stage validated p c) (\<lambda>(p, c).
           let (rel, c) = ack_stage p rel c in
           Inl (final_stage p rel c))))) of
        Inl (Returned b c) \<Rightarrow> Inr (b, c)
      | Inl (Failed f) \<Rightarrow> Inl f
      | Inr () \<Rightarrow> Inl Undefined)"

subsubsection \<open>Stored packets and the post-processing\<close>

definition send_stored :: "connection \<Rightarrow> connection" where
  "send_stored c =
     (let (elems, c) = store_for_each (\<lambda>pv c.
            if sp_size pv > cn_maximum_packet_size_send c
            then (False, release_and_notify (sp_packet_id pv) c)
            else (True, emit (On_send (sp_packet pv) None) c)) (cn_store c) c
      in c\<lparr>cn_store := elems\<rparr>)"

definition send :: "packet_variant \<Rightarrow> connection \<Rightarrow> failure + connection" where
  "send p c =
     bindE (process_send_packet p c) (\<lambda>(sent, c).
     Inr (if sent then
            (let c = (if is_connack p then send_stored c else c) in
             if can_send_as_client (cn_role c) \<and> cn_is_client c \<and> cn_status c \<noteq> Disconnected then
               (case cn_pingreq_send_interval_ms c of
                  None \<Rightarrow> c
                | Some ms \<Rightarrow> emit (On_timer_op Timer_reset Pingreq_send (Some ms)) (c\<lparr>cn_pingreq_send_set := True\<rparr>))
             else c)
          else c))"

subsection \<open>Receiving\<close>

text \<open>Packets the engine sends itself. Their constructors do not throw with these arguments.\<close>

definition throws :: "exn + 'a \<Rightarrow> failure + 'a" where
  "throws m = map_sum Throws (\<lambda>x. x) m"

definition send_v5_disconnect :: "byte \<Rightarrow> connection \<Rightarrow> failure + connection" where
  "send_v5_disconnect rc c =
     bindE (throws (make_v5_disconnect (Some rc) [])) (\<lambda>d. send (V5_disconnect d) c)"

definition send_v5_ack ::
  "(v5_ack \<Rightarrow> packet_variant) \<Rightarrow> (nat \<Rightarrow> nat \<Rightarrow> byte option \<Rightarrow> properties \<Rightarrow> exn + v5_ack) \<Rightarrow> nat \<Rightarrow> connection \<Rightarrow> failure + connection" where
  "send_v5_ack con mk pid c =
     bindE (throws (mk (cn_pid_bytes c) pid None [])) (\<lambda>a. send (con a) c)"

definition send_v5_connack_error :: "byte \<Rightarrow> connection \<Rightarrow> failure + connection" where
  "send_v5_connack_error rc c =
     bindE (throws (make_v5_connack False rc [])) (\<lambda>a. send (V5_connack a) c)"

text \<open>A violation of the protocol: DISCONNECT is sent and the error reported.\<close>

definition disconnect_and_report :: "byte \<Rightarrow> connection \<Rightarrow> failure + connection" where
  "disconnect_and_report rc c =
     bindE (send_v5_disconnect rc c) (\<lambda>c. Inr (emit (On_error (disconnect_code rc)) c))"

text \<open>The same in 3.1.1, which has no DISCONNECT with a reason.\<close>

definition close_and_report :: "connection \<Rightarrow> connection" where
  "close_and_report c = emit (On_error protocol_error) (emit On_close c)"

definition received :: "packet_variant \<Rightarrow> connection \<Rightarrow> connection" where
  "received p c = emit (On_receive p) (pingreq_recv_op c)"

definition auto_response :: "connection \<Rightarrow> bool" where
  "auto_response c \<longleftrightarrow> cn_auto_pub_response c \<and> cn_status c = Connected"

definition set_recv_timeout :: "nat \<Rightarrow> connection \<Rightarrow> connection" where
  "set_recv_timeout keep_alive c =
     (if keep_alive \<noteq> 0 then c\<lparr>cn_pingreq_recv_timeout_ms := Some (keep_alive * 1000 * 3 div 2)\<rparr> else c)"

subsubsection \<open>CONNECT and CONNACK\<close>

definition recv_v3_connect :: "v3_connect \<Rightarrow> connection \<Rightarrow> connection" where
  "recv_v3_connect p c =
     (let c = (connection_initialize False c)\<lparr>cn_protocol_version := V3_1_1, cn_status := Connecting\<rparr>;
          c = set_recv_timeout (v3_connect_keep_alive p) c;
          c = (if v3_connect_clean_session p then clear_publish_pids (c\<lparr>cn_need_store := False\<rparr>)
               else c\<lparr>cn_need_store := True\<rparr>)
      in received (V3_connect p) c)"

definition send_limit_property :: "property_variant \<Rightarrow> connection \<Rightarrow> connection" where
  "send_limit_property p c =
     (if prop_id p = Id_topic_alias_maximum then
        (if property_val_int p > 0 then c\<lparr>cn_topic_alias_send := Some (topic_alias_send_init (property_val_int p))\<rparr> else c)
      else if prop_id p = Id_receive_maximum then c\<lparr>cn_publish_send_max := Some (property_val_int p)\<rparr>
      else if prop_id p = Id_maximum_packet_size then c\<lparr>cn_maximum_packet_size_send := property_val_int p\<rparr>
      else c)"

definition recv_v5_connect :: "v5_connect \<Rightarrow> connection \<Rightarrow> connection" where
  "recv_v5_connect p c =
     (let c = (connection_initialize False c)\<lparr>cn_protocol_version := V5, cn_status := Connecting\<rparr>;
          c = set_recv_timeout (v5_connect_keep_alive p) c;
          c = (if v5_connect_clean_start p then clear_publish_pids c else c);
          c = fold (\<lambda>prop c. session_expiry_property prop (send_limit_property prop c)) (c5_props p) c
      in received (V5_connect p) c)"

definition resume_or_clear :: "bool \<Rightarrow> connection \<Rightarrow> connection" where
  "resume_or_clear session_present c = (if session_present then send_stored c else clear_session c)"

definition recv_v3_connack :: "v3_all \<Rightarrow> connection \<Rightarrow> connection" where
  "recv_v3_connack p c =
     emit (On_receive (V3_connack p))
       (if v3_connack_code p = 0 then resume_or_clear (v3_connack_session_present p) (c\<lparr>cn_status := Connected\<rparr>) else c)"

definition server_keep_alive_property :: "property_variant \<Rightarrow> connection \<Rightarrow> connection" where
  "server_keep_alive_property p c =
     (if prop_id p = Id_server_keep_alive \<and> can_send_as_client (cn_role c)
      then set_pingreq_send_interval (property_val_int p * 1000) c else c)"

definition recv_v5_connack :: "v5_connack \<Rightarrow> connection \<Rightarrow> connection" where
  "recv_v5_connack p c =
     emit (On_receive (V5_connack p))
       (if ca5_reason_code p = 0 then
          resume_or_clear (v5_connack_session_present p)
            (fold (\<lambda>prop c. server_keep_alive_property prop (send_limit_property prop c)) (ca5_props p)
              (c\<lparr>cn_status := Connected\<rparr>))
        else c)"

subsubsection \<open>PUBLISH\<close>

definition recv_v3_publish :: "v3_publish \<Rightarrow> connection \<Rightarrow> failure + connection" where
  "recv_v3_publish p c =
     (let q = opts_get_qos (v3_publish_opts p); pid = v3_publish_packet_id p in
      if q = at_most_once then Inr (received (V3_publish p) c)
      else if q = at_least_once then
        bindE (if auto_response c then send (V3_puback (make_v3_puback (cn_pid_bytes c) pid)) c else Inr c) (\<lambda>c.
        Inr (received (V3_publish p) c))
      else if q = exactly_once then
        (let already_handled = pid \<in> cn_qos2_publish_handled c;
             c = c\<lparr>cn_qos2_publish_handled := insert pid (cn_qos2_publish_handled c)\<rparr> in
         bindE (if cn_status c = Connected \<and> (cn_auto_pub_response c \<or> already_handled)
                then send (V3_pubrec (make_v3_pubrec (cn_pid_bytes c) pid)) c else Inr c) (\<lambda>c.
         Inr (if already_handled then pingreq_recv_op c else received (V3_publish p) c)))
      else Inr c)"

text \<open>The topic of a PUBLISH: \<open>None\<close> is an invalid topic alias.\<close>

definition resolve_topic :: "v5_publish \<Rightarrow> connection \<Rightarrow> (v5_publish \<times> connection) option" where
  "resolve_topic p c =
     (case get_topic_alias (p5_props p) of
        None \<Rightarrow> (if p5_topic_name p = [] then None else Some (p, c))
      | Some ta \<Rightarrow>
          (case cn_topic_alias_recv c of
             None \<Rightarrow> None
           | Some tar \<Rightarrow>
               if ta = 0 \<or> ta > tar_max tar then None
               else if p5_topic_name p = [] then
                 (let topic = tar_find ta tar in
                  if topic = [] then None else Some (add_topic topic p, c))
               else Some (p, c\<lparr>cn_topic_alias_recv := Some (tar_insert_or_update (p5_topic_name p) ta tar)\<rparr>)))"

text \<open>After the quota: \<open>respond\<close> sends the response, \<open>deliver\<close> hands the packet to the owner.\<close>

definition finish_v5_publish ::
  "(connection \<Rightarrow> failure + connection) \<Rightarrow> bool \<Rightarrow> v5_publish \<Rightarrow> connection \<Rightarrow> failure + connection" where
  "finish_v5_publish respond deliver p c =
     (case resolve_topic p c of
        None \<Rightarrow> disconnect_and_report topic_alias_invalid c
      | Some (p, c) \<Rightarrow>
          bindE (respond c) (\<lambda>c. Inr (if deliver then received (V5_publish p) c else pingreq_recv_op c)))"

definition recv_v5_publish :: "v5_publish \<Rightarrow> connection \<Rightarrow> failure + connection" where
  "recv_v5_publish p c =
     (let q = opts_get_qos (v5_publish_opts p); pid = v5_publish_packet_id p in
      if qos_1_or_2 q \<and> cn_publish_recv_max c = Some (card (cn_publish_recv c))
      then disconnect_and_report receive_maximum_exceeded c
      else if q = at_least_once then
        finish_v5_publish (if auto_response c then send_v5_ack V5_puback make_v5_puback pid else Inr) True p
          (c\<lparr>cn_publish_recv := insert pid (cn_publish_recv c)\<rparr>)
      else if q = exactly_once then
        (let already_handled = pid \<in> cn_qos2_publish_handled c in
         finish_v5_publish
           (if cn_status c = Connected \<and> (cn_auto_pub_response c \<or> already_handled)
            then send_v5_ack V5_pubrec make_v5_pubrec pid else Inr)
           (\<not> already_handled) p
           (c\<lparr>cn_publish_recv := insert pid (cn_publish_recv c),
              cn_qos2_publish_handled := insert pid (cn_qos2_publish_handled c)\<rparr>))
      else finish_v5_publish Inr True p c)"

subsubsection \<open>Responses\<close>

definition erase_stored :: "response_packet \<Rightarrow> nat \<Rightarrow> connection \<Rightarrow> connection" where
  "erase_stored r pid c = c\<lparr>cn_store := snd (store_erase r pid (cn_store c))\<rparr>"

definition count_down :: "connection \<Rightarrow> connection" where
  "count_down c =
     (if cn_publish_send_max c \<noteq> None
      then c\<lparr>cn_publish_send_count := (cn_publish_send_count c + 65535) mod 65536\<rparr> else c)"

definition recv_v3_puback :: "v3_all \<Rightarrow> connection \<Rightarrow> connection" where
  "recv_v3_puback p c =
     (let pid = v3_ack_packet_id p in
      if pid \<in> cn_pid_puback c then
        received (V3_puback p) (release_and_notify pid
          (erase_stored R_v3_1_1_puback pid (c\<lparr>cn_pid_puback := cn_pid_puback c - {pid}\<rparr>)))
      else close_and_report c)"

definition recv_v5_puback :: "v5_ack \<Rightarrow> connection \<Rightarrow> failure + connection" where
  "recv_v5_puback p c =
     (let pid = v5_ack_packet_id p in
      if pid \<in> cn_pid_puback c then
        Inr (received (V5_puback p) (count_down (release_and_notify pid
          (erase_stored R_v5_puback pid (c\<lparr>cn_pid_puback := cn_pid_puback c - {pid}\<rparr>)))))
      else disconnect_and_report 0x82 c)"

definition recv_v3_pubrec :: "v3_all \<Rightarrow> connection \<Rightarrow> failure + connection" where
  "recv_v3_pubrec p c =
     (let pid = v3_ack_packet_id p in
      if pid \<in> cn_pid_pubrec c then
        (let c = erase_stored R_v3_1_1_pubrec pid (c\<lparr>cn_pid_pubrec := cn_pid_pubrec c - {pid}\<rparr>) in
         bindE (if auto_response c then send (V3_pubrel (make_v3_pubrel (cn_pid_bytes c) pid)) c else Inr c) (\<lambda>c.
         Inr (received (V3_pubrec p) c)))
      else Inr (close_and_report c))"

definition recv_v5_pubrec :: "v5_ack \<Rightarrow> connection \<Rightarrow> failure + connection" where
  "recv_v5_pubrec p c =
     (let pid = v5_ack_packet_id p in
      if pid \<in> cn_pid_pubrec c then
        (let c = erase_stored R_v5_pubrec pid (c\<lparr>cn_pid_pubrec := cn_pid_pubrec c - {pid}\<rparr>) in
         bindE (if pubrec_failed p then
                  (let c = release_and_notify pid c in
                   Inr (count_down (c\<lparr>cn_qos2_publish_processing := cn_qos2_publish_processing c - {pid}\<rparr>)))
                else if auto_response c then send_v5_ack V5_pubrel make_v5_pubrel pid c
                else Inr c) (\<lambda>c.
         Inr (received (V5_pubrec p) c)))
      else disconnect_and_report 0x82 c)"

definition recv_v3_pubrel :: "v3_all \<Rightarrow> connection \<Rightarrow> failure + connection" where
  "recv_v3_pubrel p c =
     (let pid = v3_ack_packet_id p; c = c\<lparr>cn_qos2_publish_handled := cn_qos2_publish_handled c - {pid}\<rparr> in
      bindE (if auto_response c then send (V3_pubcomp (make_v3_pubcomp (cn_pid_bytes c) pid)) c else Inr c) (\<lambda>c.
      Inr (received (V3_pubrel p) c)))"

definition recv_v5_pubrel :: "v5_ack \<Rightarrow> connection \<Rightarrow> failure + connection" where
  "recv_v5_pubrel p c =
     (let pid = v5_ack_packet_id p; c = c\<lparr>cn_qos2_publish_handled := cn_qos2_publish_handled c - {pid}\<rparr> in
      bindE (if auto_response c then send_v5_ack V5_pubcomp make_v5_pubcomp pid c else Inr c) (\<lambda>c.
      Inr (received (V5_pubrel p) c)))"

definition recv_v3_pubcomp :: "v3_all \<Rightarrow> connection \<Rightarrow> connection" where
  "recv_v3_pubcomp p c =
     (let pid = v3_ack_packet_id p in
      if pid \<in> cn_pid_pubcomp c then
        (let c = release_and_notify pid (erase_stored R_v3_1_1_pubcomp pid (c\<lparr>cn_pid_pubcomp := cn_pid_pubcomp c - {pid}\<rparr>))
         in received (V3_pubcomp p) (c\<lparr>cn_qos2_publish_processing := cn_qos2_publish_processing c - {pid}\<rparr>))
      else close_and_report c)"

definition recv_v5_pubcomp :: "v5_ack \<Rightarrow> connection \<Rightarrow> failure + connection" where
  "recv_v5_pubcomp p c =
     (let pid = v5_ack_packet_id p in
      if pid \<in> cn_pid_pubcomp c then
        (let c = release_and_notify pid (erase_stored R_v5_pubcomp pid (c\<lparr>cn_pid_pubcomp := cn_pid_pubcomp c - {pid}\<rparr>))
         in Inr (received (V5_pubcomp p) (count_down (c\<lparr>cn_qos2_publish_processing := cn_qos2_publish_processing c - {pid}\<rparr>))))
      else disconnect_and_report 0x82 c)"

definition recv_v3_suback :: "v3_suback \<Rightarrow> connection \<Rightarrow> connection" where
  "recv_v3_suback p c =
     (let pid = v3_suback_packet_id p in
      if pid \<in> cn_pid_suback c
      then received (V3_suback p) (release_and_notify pid (c\<lparr>cn_pid_suback := cn_pid_suback c - {pid}\<rparr>))
      else close_and_report c)"

definition recv_v5_suback :: "v5_suback \<Rightarrow> connection \<Rightarrow> failure + connection" where
  "recv_v5_suback p c =
     (let pid = v5_suback_packet_id p in
      if pid \<in> cn_pid_suback c
      then Inr (received (V5_suback p) (release_and_notify pid (c\<lparr>cn_pid_suback := cn_pid_suback c - {pid}\<rparr>)))
      else disconnect_and_report 0x82 c)"

definition recv_v3_unsuback :: "v3_all \<Rightarrow> connection \<Rightarrow> connection" where
  "recv_v3_unsuback p c =
     (let pid = v3_ack_packet_id p in
      if pid \<in> cn_pid_unsuback c
      then received (V3_unsuback p) (release_and_notify pid (c\<lparr>cn_pid_unsuback := cn_pid_unsuback c - {pid}\<rparr>))
      else close_and_report c)"

definition recv_v5_unsuback :: "v5_suback \<Rightarrow> connection \<Rightarrow> failure + connection" where
  "recv_v5_unsuback p c =
     (let pid = v5_suback_packet_id p in
      if pid \<in> cn_pid_unsuback c
      then Inr (received (V5_unsuback p) (release_and_notify pid (c\<lparr>cn_pid_unsuback := cn_pid_unsuback c - {pid}\<rparr>)))
      else disconnect_and_report 0x82 c)"

subsubsection \<open>Pings and the rest\<close>

definition recv_pingreq :: "packet_variant \<Rightarrow> packet_variant \<Rightarrow> connection \<Rightarrow> failure + connection" where
  "recv_pingreq p resp c =
     bindE (if can_send_as_server (cn_role c) \<and> cn_auto_ping_response c \<and> cn_status c = Connected
            then send resp c else Inr c) (\<lambda>c.
     Inr (received p c))"

definition recv_pingresp :: "packet_variant \<Rightarrow> connection \<Rightarrow> connection" where
  "recv_pingresp p c =
     emit (On_receive p) (emit (On_timer_op Timer_cancel Pingresp_recv None) (c\<lparr>cn_pingresp_recv_set := False\<rparr>))"

definition recv_disconnect :: "packet_variant \<Rightarrow> connection \<Rightarrow> connection" where
  "recv_disconnect p c = emit (On_receive p) (cancel_timers (c\<lparr>cn_status := Disconnected\<rparr>))"

text \<open>The visitor of \<^verbatim>\<open>process_recv_packet\<close>.\<close>

fun recv_packet :: "packet_variant \<Rightarrow> connection \<Rightarrow> failure + connection" where
  "recv_packet (V3_connect p) c = Inr (recv_v3_connect p c)"
| "recv_packet (V5_connect p) c = Inr (recv_v5_connect p c)"
| "recv_packet (V3_connack p) c = Inr (recv_v3_connack p c)"
| "recv_packet (V5_connack p) c = Inr (recv_v5_connack p c)"
| "recv_packet (V3_publish p) c = recv_v3_publish p c"
| "recv_packet (V5_publish p) c = recv_v5_publish p c"
| "recv_packet (V3_puback p) c = Inr (recv_v3_puback p c)"
| "recv_packet (V5_puback p) c = recv_v5_puback p c"
| "recv_packet (V3_pubrec p) c = recv_v3_pubrec p c"
| "recv_packet (V5_pubrec p) c = recv_v5_pubrec p c"
| "recv_packet (V3_pubrel p) c = recv_v3_pubrel p c"
| "recv_packet (V5_pubrel p) c = recv_v5_pubrel p c"
| "recv_packet (V3_pubcomp p) c = Inr (recv_v3_pubcomp p c)"
| "recv_packet (V5_pubcomp p) c = recv_v5_pubcomp p c"
| "recv_packet (V3_subscribe p) c = Inr (received (V3_subscribe p) c)"
| "recv_packet (V5_subscribe p) c = Inr (received (V5_subscribe p) c)"
| "recv_packet (V3_suback p) c = Inr (recv_v3_suback p c)"
| "recv_packet (V5_suback p) c = recv_v5_suback p c"
| "recv_packet (V3_unsubscribe p) c = Inr (received (V3_unsubscribe p) c)"
| "recv_packet (V5_unsubscribe p) c = Inr (received (V5_unsubscribe p) c)"
| "recv_packet (V3_unsuback p) c = Inr (recv_v3_unsuback p c)"
| "recv_packet (V5_unsuback p) c = recv_v5_unsuback p c"
| "recv_packet (V3_pingreq p) c = recv_pingreq (V3_pingreq p) (V3_pingresp make_v3_pingresp) c"
| "recv_packet (V5_pingreq p) c = recv_pingreq (V5_pingreq p) (V5_pingresp make_v5_pingresp) c"
| "recv_packet (V3_pingresp p) c = Inr (recv_pingresp (V3_pingresp p) c)"
| "recv_packet (V5_pingresp p) c = Inr (recv_pingresp (V5_pingresp p) c)"
| "recv_packet (V3_disconnect p) c = Inr (recv_disconnect (V3_disconnect p) c)"
| "recv_packet (V5_disconnect p) c = Inr (recv_disconnect (V5_disconnect p) c)"
| "recv_packet (V5_auth p) c = Inr (received (V5_auth p) c)"

definition protocol_satisfied :: "packet_variant \<Rightarrow> connection \<Rightarrow> bool" where
  "protocol_satisfied p c \<longleftrightarrow>
     (if is_connect p then cn_status c = Disconnected
      else if is_connack p then cn_status c = Connecting
      else if is_auth p then cn_status c \<noteq> Disconnected
      else cn_status c = Connected)"

text \<open>A packet that could not be parsed.\<close>

definition recv_error :: "error_code \<Rightarrow> connection \<Rightarrow> failure + connection" where
  "recv_error ec c =
     (let rc = of_nat (ec_value ec) :: byte in
      if cn_status c = Disconnected \<and> ec_category ec = Cat_connect_reason_code then
        (let c = c\<lparr>cn_status := Connecting\<rparr> in
         bindE (if cn_protocol_version c = V5 then send_v5_connack_error rc c
                else send (V3_connack (make_v3_connack False rc)) c) (\<lambda>c.
         Inr (emit (On_error (connect_err (ec_value ec))) c)))
      else
        bindE (if cn_status c = Connected \<and> cn_protocol_version c = V5 then send_v5_disconnect rc c
               else Inr (emit On_close c)) (\<lambda>c.
        Inr (emit (On_error (disconnect_err (ec_value ec))) c)))"

definition process_recv_buffer :: "bytes \<Rightarrow> connection \<Rightarrow> failure + connection" where
  "process_recv_buffer buf c =
     (if length buf > cn_maximum_packet_size_recv c then disconnect_and_report 0x95 c
      else
        (case buffer_to_basic_packet_variant (cn_pid_bytes c) buf (cn_protocol_version c) of
           Inl Bad_access \<Rightarrow> Inl Undefined
         | Inl (Ec ec) \<Rightarrow> recv_error ec c
         | Inr p \<Rightarrow>
             if protocol_satisfied p c then recv_packet p c
             else Inr (emit (On_error protocol_error) c)))"

definition process_recv_packet :: "connection \<Rightarrow> failure + connection" where
  "process_recv_packet c =
     (let ep = rpb_read_packet (cn_rpb c); c = c\<lparr>cn_rpb := rpb_clear (cn_rpb c)\<rparr> in
      case ep of
        None \<Rightarrow> Inr c
      | Some (Ep_error ec) \<Rightarrow>
          Inr (emit (On_error ec) (emit On_close (cancel_timers (c\<lparr>cn_status := Disconnected\<rparr>))))
      | Some (Ep_packet buf) \<Rightarrow> process_recv_buffer buf c)"

text \<open>\<^verbatim>\<open>recv\<close>, with what is left of the stream.\<close>

definition recv :: "bytes \<Rightarrow> connection \<Rightarrow> failure + connection \<times> bytes" where
  "recv is c =
     (let (rpb, rest) = rpb_recv (cn_rpb c) is in
      bindE (process_recv_packet (c\<lparr>cn_rpb := rpb\<rparr>)) (\<lambda>c. Inr (c, rest)))"

subsection \<open>Timers that fired\<close>

definition timeout_close :: "connection \<Rightarrow> failure + connection" where
  "timeout_close c =
     (case cn_protocol_version c of
        V3_1_1 \<Rightarrow> Inr (emit On_close c)
      | V5 \<Rightarrow> if cn_status c = Connected then send_v5_disconnect keep_alive_timeout c else Inr c
      | _ \<Rightarrow> Inr c)"

fun notify_timer_fired :: "timer_kind \<Rightarrow> connection \<Rightarrow> failure + connection" where
  "notify_timer_fired Pingreq_send c =
     (let c = c\<lparr>cn_pingreq_send_set := False\<rparr> in
      if cn_status c = Connected then
        (case cn_protocol_version c of
           V3_1_1 \<Rightarrow> send (V3_pingreq make_v3_pingreq) c
         | V5 \<Rightarrow> send (V5_pingreq make_v5_pingreq) c
         | _ \<Rightarrow> Inr c)
      else Inr c)"
| "notify_timer_fired Pingreq_recv c = timeout_close (c\<lparr>cn_pingreq_recv_set := False\<rparr>)"
| "notify_timer_fired Pingresp_recv c = timeout_close (c\<lparr>cn_pingresp_recv_set := False\<rparr>)"

end
