(* ===== verification/Connection_Rel.thy ===== *)
theory Connection_Rel
  imports Connection
begin

text \<open>
  What every operation of the engine has in common, as an interface. A reflexive and transitive
  relation between the states before and after that admits each elementary action of the engine
  (an event, a timer operation with its flag, an update of the store or of the handled
  identifiers, any change of the remaining fields) holds between the states before and after
  every operation. The locale \<open>send_relation\<close> proves this for everything \<^verbatim>\<open>send\<close> does,
  \<open>handler_relation\<close> for all operations but \<^verbatim>\<open>recv\<close>, \<open>engine_relation\<close> for all. Each
  interpretation yields an invariant of the engine.
\<close>

subsection \<open>Elementary actions\<close>

fun timer_set :: "timer_kind \<Rightarrow> connection \<Rightarrow> bool" where
  "timer_set Pingreq_send c = cn_pingreq_send_set c"
| "timer_set Pingreq_recv c = cn_pingreq_recv_set c"
| "timer_set Pingresp_recv c = cn_pingresp_recv_set c"

fun set_timer :: "timer_kind \<Rightarrow> bool \<Rightarrow> connection \<Rightarrow> connection" where
  "set_timer Pingreq_send b c = c\<lparr>cn_pingreq_send_set := b\<rparr>"
| "set_timer Pingreq_recv b c = c\<lparr>cn_pingreq_recv_set := b\<rparr>"
| "set_timer Pingresp_recv b c = c\<lparr>cn_pingresp_recv_set := b\<rparr>"

definition do_timer :: "timer_op \<Rightarrow> timer_kind \<Rightarrow> nat option \<Rightarrow> connection \<Rightarrow> connection" where
  "do_timer op k ms c = emit (On_timer_op op k ms) (set_timer k (op = Timer_reset) c)"

text \<open>The store after the operations the engine performs on it.\<close>

inductive store_change :: "store \<Rightarrow> store \<Rightarrow> bool" where
  "store_change s (snd (store_add p s))"
| "store_change s (snd (store_erase r pid s))"
| "store_change s (store_clear s)"
| "store_change s (filter P s)"

definition same_core :: "connection \<Rightarrow> connection \<Rightarrow> bool" where
  "same_core c d \<longleftrightarrow> cn_events d = cn_events c \<and> (\<forall>k. timer_set k d = timer_set k c) \<and> cn_store d = cn_store c \<and>
     cn_qos2_publish_handled d = cn_qos2_publish_handled c \<and> cn_role d = cn_role c \<and> cn_pid_bytes d = cn_pid_bytes c \<and>
     cn_rpb d = cn_rpb c"

lemma same_coreI:
  "cn_events d = cn_events c \<Longrightarrow> cn_pingreq_send_set d = cn_pingreq_send_set c \<Longrightarrow>
   cn_pingreq_recv_set d = cn_pingreq_recv_set c \<Longrightarrow> cn_pingresp_recv_set d = cn_pingresp_recv_set c \<Longrightarrow>
   cn_store d = cn_store c \<Longrightarrow> cn_qos2_publish_handled d = cn_qos2_publish_handled c \<Longrightarrow> cn_role d = cn_role c \<Longrightarrow>
   cn_pid_bytes d = cn_pid_bytes c \<Longrightarrow> cn_rpb d = cn_rpb c \<Longrightarrow> same_core c d"
  unfolding same_core_def by (metis timer_set.elims timer_set.simps)

subsection \<open>What sending does\<close>

fun is_timer_event :: "event \<Rightarrow> bool" where
  "is_timer_event (On_timer_op _ _ _) = True"
| "is_timer_event _ = False"

fun is_receive_event :: "event \<Rightarrow> bool" where
  "is_receive_event (On_receive _) = True"
| "is_receive_event _ = False"

text \<open>The identifiers whose QoS 2 reception a packet ends: a PUBREC with an error.\<close>

fun unhandled_by :: "packet_variant \<Rightarrow> nat set" where
  "unhandled_by (V5_pubrec p) = (if pubrec_failed p then {v5_ack_packet_id p} else {})"
| "unhandled_by _ = {}"

subsection \<open>Retransmission\<close>

text \<open>What \<^verbatim>\<open>send_stored\<close> does, in closed form.\<close>

definition fits :: "nat \<Rightarrow> store_packet_variant \<Rightarrow> bool" where
  "fits mx pv \<longleftrightarrow> sp_size pv \<le> mx"

definition stored_event :: "nat \<Rightarrow> store_packet_variant \<Rightarrow> event" where
  "stored_event mx pv =
     (if fits mx pv then On_send (sp_packet pv) None else On_packet_id_release (sp_packet_id pv))"

lemma send_stored_loop:
  assumes "cn_maximum_packet_size_send c = mx"
  shows "store_for_each (\<lambda>pv c.
            if sp_size pv > cn_maximum_packet_size_send c
            then (False, release_and_notify (sp_packet_id pv) c)
            else (True, emit (On_send (sp_packet pv) None) c)) elems c =
    (filter (fits mx) elems,
     c\<lparr>cn_events := cn_events c @ map (stored_event mx) elems,
       cn_pid_man := fold (release_id (cn_pid_bytes c)) (map sp_packet_id (filter (\<lambda>pv. \<not> fits mx pv) elems)) (cn_pid_man c)\<rparr>)"
  using assms
  by (induction elems arbitrary: c)
     (auto simp: Let_def release_and_notify_def emit_def fits_def stored_event_def)

lemma send_stored_eq:
  "send_stored c =
    (let mx = cn_maximum_packet_size_send c in
     c\<lparr>cn_store := filter (fits mx) (cn_store c), cn_events := cn_events c @ map (stored_event mx) (cn_store c),
       cn_pid_man := fold (release_id (cn_pid_bytes c)) (map sp_packet_id (filter (\<lambda>pv. \<not> fits mx pv) (cn_store c)))
         (cn_pid_man c)\<rparr>)"
  by (simp add: send_stored_def send_stored_loop [OF refl] Let_def)

locale send_relation =
  fixes R :: "connection \<Rightarrow> connection \<Rightarrow> bool" and U :: "nat set"
  assumes R_refl: "R c c"
    and R_trans: "R a b \<Longrightarrow> R b c \<Longrightarrow> R a c"
    and R_core: "same_core c d \<Longrightarrow> R c d"
    and R_event: "\<not> is_timer_event e \<Longrightarrow> \<not> is_receive_event e \<Longrightarrow> R c (emit e c)"
    and R_timer: "R c (do_timer op k ms c)"
    and R_store: "store_change (cn_store c) s \<Longrightarrow> R c (c\<lparr>cn_store := s\<rparr>)"
    and R_unhandle: "pid \<in> U \<Longrightarrow> R c (c\<lparr>cn_qos2_publish_handled := cn_qos2_publish_handled c - {pid}\<rparr>)"
begin

lemma R_frame: "R a c \<Longrightarrow> same_core c d \<Longrightarrow> R a d"
  by (blast intro: R_trans R_core)

lemma R_upd:
    "R a c \<Longrightarrow> R a (c\<lparr>cn_now := x0\<rparr>)"
    "R a c \<Longrightarrow> R a (c\<lparr>cn_protocol_version := x1\<rparr>)"
    "R a c \<Longrightarrow> R a (c\<lparr>cn_pid_man := x2\<rparr>)"
    "R a c \<Longrightarrow> R a (c\<lparr>cn_pid_suback := x3\<rparr>)"
    "R a c \<Longrightarrow> R a (c\<lparr>cn_pid_unsuback := x4\<rparr>)"
    "R a c \<Longrightarrow> R a (c\<lparr>cn_pid_puback := x5\<rparr>)"
    "R a c \<Longrightarrow> R a (c\<lparr>cn_pid_pubrec := x6\<rparr>)"
    "R a c \<Longrightarrow> R a (c\<lparr>cn_pid_pubcomp := x7\<rparr>)"
    "R a c \<Longrightarrow> R a (c\<lparr>cn_need_store := x8\<rparr>)"
    "R a c \<Longrightarrow> R a (c\<lparr>cn_offline_publish := x9\<rparr>)"
    "R a c \<Longrightarrow> R a (c\<lparr>cn_auto_pub_response := x10\<rparr>)"
    "R a c \<Longrightarrow> R a (c\<lparr>cn_auto_ping_response := x11\<rparr>)"
    "R a c \<Longrightarrow> R a (c\<lparr>cn_auto_map_topic_alias_send := x12\<rparr>)"
    "R a c \<Longrightarrow> R a (c\<lparr>cn_auto_replace_topic_alias_send := x13\<rparr>)"
    "R a c \<Longrightarrow> R a (c\<lparr>cn_topic_alias_send := x14\<rparr>)"
    "R a c \<Longrightarrow> R a (c\<lparr>cn_topic_alias_recv := x15\<rparr>)"
    "R a c \<Longrightarrow> R a (c\<lparr>cn_publish_send_max := x16\<rparr>)"
    "R a c \<Longrightarrow> R a (c\<lparr>cn_publish_recv_max := x17\<rparr>)"
    "R a c \<Longrightarrow> R a (c\<lparr>cn_publish_send_count := x18\<rparr>)"
    "R a c \<Longrightarrow> R a (c\<lparr>cn_publish_recv := x19\<rparr>)"
    "R a c \<Longrightarrow> R a (c\<lparr>cn_maximum_packet_size_send := x20\<rparr>)"
    "R a c \<Longrightarrow> R a (c\<lparr>cn_maximum_packet_size_recv := x21\<rparr>)"
    "R a c \<Longrightarrow> R a (c\<lparr>cn_status := x22\<rparr>)"
    "R a c \<Longrightarrow> R a (c\<lparr>cn_pingreq_send_interval_ms := x23\<rparr>)"
    "R a c \<Longrightarrow> R a (c\<lparr>cn_pingreq_recv_timeout_ms := x24\<rparr>)"
    "R a c \<Longrightarrow> R a (c\<lparr>cn_pingresp_recv_timeout_ms := x25\<rparr>)"
    "R a c \<Longrightarrow> R a (c\<lparr>cn_qos2_publish_processing := x26\<rparr>)"
    "R a c \<Longrightarrow> R a (c\<lparr>cn_is_client := x27\<rparr>)"
  by (erule R_frame, rule same_coreI; simp)+

lemma R_emit:
  "R a c \<Longrightarrow> R a (emit (On_error e) c)" "R a c \<Longrightarrow> R a (emit (On_send p rel) c)"
  "R a c \<Longrightarrow> R a (emit (On_packet_id_release i) c)" "R a c \<Longrightarrow> R a (emit On_close c)"
  by (erule R_trans, rule R_event; simp)+

lemma R_do_timer:
  "R a c \<Longrightarrow> R a (emit (On_timer_op Timer_cancel Pingreq_send ms) (c\<lparr>cn_pingreq_send_set := False\<rparr>))"
  "R a c \<Longrightarrow> R a (emit (On_timer_op Timer_reset Pingreq_send ms) (c\<lparr>cn_pingreq_send_set := True\<rparr>))"
  "R a c \<Longrightarrow> R a (emit (On_timer_op Timer_cancel Pingreq_recv ms) (c\<lparr>cn_pingreq_recv_set := False\<rparr>))"
  "R a c \<Longrightarrow> R a (emit (On_timer_op Timer_reset Pingreq_recv ms) (c\<lparr>cn_pingreq_recv_set := True\<rparr>))"
  "R a c \<Longrightarrow> R a (emit (On_timer_op Timer_cancel Pingresp_recv ms) (c\<lparr>cn_pingresp_recv_set := False\<rparr>))"
  "R a c \<Longrightarrow> R a (emit (On_timer_op Timer_reset Pingresp_recv ms) (c\<lparr>cn_pingresp_recv_set := True\<rparr>))"
  using R_trans [OF _ R_timer [of c Timer_cancel Pingreq_send ms], of a]
    R_trans [OF _ R_timer [of c Timer_reset Pingreq_send ms], of a]
    R_trans [OF _ R_timer [of c Timer_cancel Pingreq_recv ms], of a]
    R_trans [OF _ R_timer [of c Timer_reset Pingreq_recv ms], of a]
    R_trans [OF _ R_timer [of c Timer_cancel Pingresp_recv ms], of a]
    R_trans [OF _ R_timer [of c Timer_reset Pingresp_recv ms], of a]
  by (simp_all add: do_timer_def)

lemma R_store_change:
  "R a c \<Longrightarrow> R a (add_to_store p c)" "R a c \<Longrightarrow> R a (erase_stored r pid c)"
  "R a c \<Longrightarrow> R a (c\<lparr>cn_store := store_clear s\<rparr>)" "R a c \<Longrightarrow> R a (c\<lparr>cn_store := filter P (cn_store c)\<rparr>)"
  unfolding add_to_store_def erase_stored_def store_clear_def
  by (erule R_trans, rule R_store, use store_change.intros in \<open>force simp: store_clear_def\<close>)+

lemmas R_intros = R_upd R_emit R_do_timer R_store_change

lemma R_cancel_timers: "R a c \<Longrightarrow> R a (cancel_timers c)"
  by (auto simp: cancel_timers_def Let_def intro!: R_intros)

lemma R_release_and_notify: "R a c \<Longrightarrow> R a (release_and_notify pid c)"
  by (auto simp: release_and_notify_def intro!: R_intros)

lemma R_fold: "(\<And>x c. R a c \<Longrightarrow> R a (f x c)) \<Longrightarrow> R a c \<Longrightarrow> R a (fold f xs c)"
  by (induction xs arbitrary: c) auto

lemma R_clear_session: "R a c \<Longrightarrow> R a (clear_session c)" "R a c \<Longrightarrow> R a (clear_publish_pids c)"
  by (auto simp: clear_session_def clear_publish_pids_def intro!: R_intros)

lemma R_limits:
  "R a c \<Longrightarrow> R a (recv_limit_property p c)" "R a c \<Longrightarrow> R a (session_expiry_property p c)"
  "R a c \<Longrightarrow> R a (send_limit_property p c)"
  by (auto simp: recv_limit_property_def session_expiry_property_def send_limit_property_def intro!: R_intros)

lemma R_initialize: "R a c \<Longrightarrow> R a (connection_initialize b c)"
  by (auto simp: connection_initialize_def intro!: R_intros)

lemma R_send_connect_stage: "R a c \<Longrightarrow> R a (send_connect_stage p c)"
  by (cases p)
     (auto simp: send_v3_connect_def send_v5_connect_def send_v3_connack_def send_v5_connack_def
        set_send_interval_if_unset_def Let_def
        intro!: R_intros R_initialize R_clear_session R_cancel_timers R_fold R_limits)


text \<open>The stages of \<^verbatim>\<open>process_send_packet\<close>, at each of their exits.\<close>

lemma R_return:
  "return_error ec c = Returned b d \<Longrightarrow> R a c \<Longrightarrow> R a d"
  "return_error_release ec pid c = Returned b d \<Longrightarrow> R a c \<Longrightarrow> R a d"
  by (auto simp: return_error_def return_error_release_def Let_def intro!: R_intros R_release_and_notify)

lemma R_send_checks: "send_checks p c = Inl (Returned b d) \<Longrightarrow> R a c \<Longrightarrow> R a d"
  by (auto simp: send_checks_def split: if_splits dest: R_return)

lemma R_offline_alias_stage: "offline_alias_stage p c = Inl (Returned b d) \<Longrightarrow> R a c \<Longrightarrow> R a d"
  by (cases p) (auto split: if_splits dest: R_return)

lemma R_validate_topic_alias: "validate_topic_alias ta c = (t, d) \<Longrightarrow> R a c \<Longrightarrow> R a d"
  by (auto simp: validate_topic_alias_def Let_def split: option.splits if_splits prod.splits intro!: R_intros)

lemma R_store_v5_publish:
  "store_v5_publish p c = Inr (v, d) \<Longrightarrow> R a c \<Longrightarrow> R a d"
  "store_v5_publish p c = Inl (Returned b d) \<Longrightarrow> R a c \<Longrightarrow> R a d"
  by (auto simp: store_v5_publish_def make_store_publish_def bindE_def
      split: if_splits sum.splits option.splits prod.splits
      dest: R_return R_validate_topic_alias intro!: R_store_change)

lemma R_store_publish:
  "store_publish p c = Inr (v, d) \<Longrightarrow> R a c \<Longrightarrow> R a d"
  "store_publish p c = Inl (Returned b d) \<Longrightarrow> R a c \<Longrightarrow> R a d"
  by (cases p; auto dest: R_store_v5_publish intro: R_store_change)+

lemma R_store_stage:
  "store_stage p c = Inr (v, rel, d) \<Longrightarrow> R a c \<Longrightarrow> R a d"
  "store_stage p c = Inl (Returned b d) \<Longrightarrow> R a c \<Longrightarrow> R a d"
  by (auto simp: store_stage_def Let_def bindE_def dest: R_store_publish R_return
      split: if_splits sum.splits prod.splits intro!: R_upd)

lemma R_auto_alias:
  "auto_alias p c = Inr (q, d) \<Longrightarrow> R a c \<Longrightarrow> R a d"
  "auto_alias p c = Inl (Returned b d) \<Longrightarrow> R a c \<Longrightarrow> R a d"
  by (auto simp: auto_alias_def split: if_splits option.splits intro!: R_upd)

lemma R_apply_alias:
  "apply_alias v p c = Inr (q, d) \<Longrightarrow> R a c \<Longrightarrow> R a d"
  "apply_alias v p c = Inl (Returned b d) \<Longrightarrow> R a c \<Longrightarrow> R a d"
  by (auto simp: apply_alias_def Let_def dest: R_auto_alias R_return R_validate_topic_alias
      split: if_splits option.splits prod.splits intro!: R_upd)

lemma R_receive_maximum_stage:
  "receive_maximum_stage p c = Inr d \<Longrightarrow> R a c \<Longrightarrow> R a d"
  "receive_maximum_stage p c = Inl (Returned b d) \<Longrightarrow> R a c \<Longrightarrow> R a d"
  by (auto simp: receive_maximum_stage_def dest: R_return split: if_splits option.splits intro!: R_upd)

lemma R_v5_publish_stage:
  "v5_publish_stage v p c = Inr (q, d) \<Longrightarrow> R a c \<Longrightarrow> R a d"
  "v5_publish_stage v p c = Inl (Returned b d) \<Longrightarrow> R a c \<Longrightarrow> R a d"
  by (cases p; auto simp: bindE_def dest: R_apply_alias R_receive_maximum_stage split: sum.splits prod.splits)+


lemma R_unhandled:
  "R a c \<Longrightarrow> pid \<in> U \<Longrightarrow> h = cn_qos2_publish_handled c - {pid} \<Longrightarrow> R a (c\<lparr>cn_qos2_publish_handled := h\<rparr>)"
  by (auto intro: R_trans R_unhandle)

lemma R_ack_stage: "ack_stage p rel c = (rel', d) \<Longrightarrow> unhandled_by p \<subseteq> U \<Longrightarrow> R a c \<Longrightarrow> R a d"
  by (cases p) (auto simp: ack_stage_def traits_defs Let_def intro!: R_upd R_store_change R_unhandled split: if_splits)

lemma R_final_stage: "final_stage p rel c = Returned b d \<Longrightarrow> R a c \<Longrightarrow> R a d"
  by (auto simp: final_stage_def Let_def dest: R_return split: if_splits option.splits
      intro!: R_intros R_cancel_timers)

lemma v5_publish_stage_unhandled: "v5_publish_stage v p c = Inr (q, d) \<Longrightarrow> unhandled_by q = unhandled_by p"
  by (cases p) (auto simp: bindE_def split: sum.splits prod.splits)

lemma R_v5_publish_stage_continue:
  "v5_publish_stage v p c = Inr (q, d) \<Longrightarrow> R a c \<Longrightarrow> R a d \<and> unhandled_by q = unhandled_by p"
  by (simp add: R_v5_publish_stage(1) v5_publish_stage_unhandled)

lemma R_process_send_packet:
  assumes "process_send_packet p c = Inr (b, d)" and "unhandled_by p \<subseteq> U" and "R a c"
  shows "R a d"
  using assms R_send_connect_stage [OF assms(3), of p]
  by (auto simp: process_send_packet_def bindE_def Let_def
      dest: R_send_checks R_offline_alias_stage R_store_stage(2) R_v5_publish_stage(2)
      dest!: R_final_stage R_ack_stage R_store_stage(1) R_v5_publish_stage_continue
      split: sum.splits send_exit.splits prod.splits)

lemma R_append_events:
  assumes "\<forall>e \<in> set es. \<not> is_timer_event e \<and> \<not> is_receive_event e" and "R a c"
  shows "R a (c\<lparr>cn_events := cn_events c @ es\<rparr>)"
  using assms
proof (induction es arbitrary: c)
  case (Cons e es)
  then have "R a (emit e c)" by (auto intro: R_trans R_event)
  with Cons have "R a ((emit e c)\<lparr>cn_events := cn_events (emit e c) @ es\<rparr>)" by simp
  then show ?case by (simp add: emit_def)
qed simp

lemma R_send_stored: "R a c \<Longrightarrow> R a (send_stored c)"
  unfolding send_stored_eq Let_def
  by (intro R_upd) (rule R_append_events [of _ a "c\<lparr>cn_store := filter P (cn_store c)\<rparr>" for P, simplified],
      auto simp: stored_event_def intro!: R_store_change)

lemma R_send:
  assumes "send p c = Inr d" and "unhandled_by p \<subseteq> U" and "R a c"
  shows "R a d"
  using assms
  by (auto simp: send_def bindE_def Let_def dest: R_process_send_packet
      split: sum.splits prod.splits if_splits option.splits intro!: R_intros R_send_stored)

end

subsection \<open>The public interface\<close>

text \<open>The member functions of \<^verbatim>\<open>basic_connection\<close> that change the state, and the passing of time.\<close>

datatype api_op =
    Api_send packet_variant
  | Api_recv bytes
  | Api_timer_fired timer_kind
  | Api_notify_closed
  | Api_set_pingreq_send_interval nat
  | Api_set_pingresp_recv_timeout nat
  | Api_set_offline_publish bool
  | Api_set_auto_pub_response bool
  | Api_set_auto_ping_response bool
  | Api_set_auto_map_topic_alias_send bool
  | Api_set_auto_replace_topic_alias_send bool
  | Api_acquire_packet_id
  | Api_register_packet_id nat
  | Api_release_packet_id nat
  | Api_restore_qos2_publish_handled_pids "nat set"
  | Api_restore_packets "store_packet_variant list"
  | Api_clock nat

fun api :: "api_op \<Rightarrow> connection \<Rightarrow> failure + connection" where
  "api (Api_send p) c = send p c"
| "api (Api_recv is) c = map_sum (\<lambda>f. f) fst (recv is c)"
| "api (Api_timer_fired k) c = notify_timer_fired k c"
| "api Api_notify_closed c = Inr (notify_closed c)"
| "api (Api_set_pingreq_send_interval ms) c = Inr (set_pingreq_send_interval ms c)"
| "api (Api_set_pingresp_recv_timeout ms) c = Inr (set_pingresp_recv_timeout ms c)"
| "api (Api_set_offline_publish b) c = Inr (set_offline_publish b c)"
| "api (Api_set_auto_pub_response b) c = Inr (set_auto_pub_response b c)"
| "api (Api_set_auto_ping_response b) c = Inr (set_auto_ping_response b c)"
| "api (Api_set_auto_map_topic_alias_send b) c = Inr (set_auto_map_topic_alias_send b c)"
| "api (Api_set_auto_replace_topic_alias_send b) c = Inr (set_auto_replace_topic_alias_send b c)"
| "api Api_acquire_packet_id c = Inr (snd (acquire_unique_packet_id c))"
| "api (Api_register_packet_id pid) c = Inr (snd (register_packet_id pid c))"
| "api (Api_release_packet_id pid) c = Inr (release_packet_id pid c)"
| "api (Api_restore_qos2_publish_handled_pids pids) c = Inr (restore_qos2_publish_handled_pids pids c)"
| "api (Api_restore_packets pvs) c = Inr (restore_packets pvs c)"
| "api (Api_clock t) c = Inr (c\<lparr>cn_now := t\<rparr>)"

text \<open>A timer that fires is no longer set, before the engine is told.\<close>

fun api_start :: "api_op \<Rightarrow> connection \<Rightarrow> connection" where
  "api_start (Api_timer_fired k) c = set_timer k False c"
| "api_start _ c = c"

text \<open>A connection after a sequence of calls.\<close>

inductive reachable :: "role \<Rightarrow> nat \<Rightarrow> protocol_version \<Rightarrow> connection \<Rightarrow> bool" for r n ver where
  init: "reachable r n ver (connection_init r n ver)"
| step: "reachable r n ver c \<Longrightarrow> api op c = Inr d \<Longrightarrow> reachable r n ver d"

subsection \<open>What every operation does\<close>

lemma qos_values_distinct [simp]:
  "at_most_once \<noteq> at_least_once" "at_least_once \<noteq> at_most_once" "at_most_once \<noteq> exactly_once"
  "exactly_once \<noteq> at_most_once" "at_least_once \<noteq> exactly_once" "exactly_once \<noteq> at_least_once"
  by (simp_all add: at_most_once_def at_least_once_def exactly_once_def)

text \<open>The responses the engine sends itself report success.\<close>

lemma throws_Inr: "throws m = Inr x \<longleftrightarrow> m = Inr x"
  by (cases m) (simp_all add: throws_def)

lemma make_v5_pubrec_succeeds: "make_v5_pubrec n pid None [] = Inr a \<Longrightarrow> \<not> pubrec_failed a"
  by (auto simp: make_v5_pubrec_def make_v5_ack_def bindE_eq_Inr pubrec_failed_def v5_ack_code_def
      ec_failed_def make_error_code_def split: prod.splits)

text \<open>The identifier of a PUBLISH of QoS 2.\<close>

fun qos2_id :: "packet_variant \<Rightarrow> nat option" where
  "qos2_id (V3_publish p) = (if opts_get_qos (v3_publish_opts p) = exactly_once then Some (v3_publish_packet_id p) else None)"
| "qos2_id (V5_publish p) = (if opts_get_qos (v5_publish_opts p) = exactly_once then Some (v5_publish_packet_id p) else None)"
| "qos2_id _ = None"

locale receive_relation = send_relation R U for R U +
  fixes Q :: "packet_variant \<Rightarrow> bool"
  assumes R_receive: "Q p \<Longrightarrow> R c (emit (On_receive p) c)"
    and R_handle: "Q p \<Longrightarrow> qos2_id p = Some i \<Longrightarrow>
      R c (c\<lparr>cn_qos2_publish_handled := insert i (cn_qos2_publish_handled c)\<rparr>)"
begin

lemma R_insert_handled:
  assumes "R a c" and "Q p" and "qos2_id p = Some i" and "h = insert i (cn_qos2_publish_handled c)"
  shows "R a (c\<lparr>cn_qos2_publish_handled := h\<rparr>)"
  using R_trans [OF assms(1) R_handle [OF assms(2,3)]] assms(4) by simp

lemma R_emit_receive: "Q p \<Longrightarrow> R a c \<Longrightarrow> R a (emit (On_receive p) c)"
  by (erule R_trans, erule R_receive)

lemma R_send_plain: "send p c = Inr d \<Longrightarrow> unhandled_by p = {} \<Longrightarrow> R a c \<Longrightarrow> R a d"
  by (erule R_send) simp_all

lemma R_pingreq_recv_op: "R a c \<Longrightarrow> R a (pingreq_recv_op c)"
  by (auto simp: pingreq_recv_op_def intro!: R_intros split: option.splits)

lemma R_received: "Q p \<Longrightarrow> R a c \<Longrightarrow> R a (received p c)"
  by (simp add: received_def R_emit_receive R_pingreq_recv_op)

lemma R_close_and_report: "R a c \<Longrightarrow> R a (close_and_report c)"
  by (auto simp: close_and_report_def intro!: R_intros)

lemma R_send_special:
  "send_v5_disconnect rc c = Inr d \<Longrightarrow> R a c \<Longrightarrow> R a d"
  "send_v5_ack V5_puback make_v5_puback pid c = Inr d \<Longrightarrow> R a c \<Longrightarrow> R a d"
  "send_v5_ack V5_pubrec make_v5_pubrec pid c = Inr d \<Longrightarrow> R a c \<Longrightarrow> R a d"
  "send_v5_ack V5_pubrel make_v5_pubrel pid c = Inr d \<Longrightarrow> R a c \<Longrightarrow> R a d"
  "send_v5_ack V5_pubcomp make_v5_pubcomp pid c = Inr d \<Longrightarrow> R a c \<Longrightarrow> R a d"
  "send_v5_connack_error rc c = Inr d \<Longrightarrow> R a c \<Longrightarrow> R a d"
  by (auto simp: send_v5_disconnect_def send_v5_ack_def send_v5_connack_error_def bindE_eq_Inr throws_Inr
      elim!: R_send_plain dest: make_v5_pubrec_succeeds)

lemma R_disconnect_and_report: "disconnect_and_report rc c = Inr d \<Longrightarrow> R a c \<Longrightarrow> R a d"
  by (auto simp: disconnect_and_report_def bindE_eq_Inr dest: R_send_special(1) intro!: R_intros)

lemma R_count_down: "R a c \<Longrightarrow> R a (count_down c)"
  by (simp add: count_down_def R_upd)

lemma R_set_pingreq_send_interval: "R a c \<Longrightarrow> R a (set_pingreq_send_interval ms c)"
  by (auto simp: set_pingreq_send_interval_def intro!: R_intros)

lemmas R_recv_intros = R_intros R_received R_close_and_report R_count_down R_release_and_notify
  R_initialize R_clear_session R_fold R_limits R_send_stored R_emit_receive R_cancel_timers R_pingreq_recv_op
  R_set_pingreq_send_interval

text \<open>Every handler but those of PUBLISH and PUBREL leaves the handled identifiers alone.\<close>

lemma R_recv_connect:
  "Q (V3_connect p3) \<Longrightarrow> R a c \<Longrightarrow> R a (recv_v3_connect p3 c)"
  "Q (V5_connect p5) \<Longrightarrow> R a c \<Longrightarrow> R a (recv_v5_connect p5 c)"
  "Q (V3_connack q3) \<Longrightarrow> R a c \<Longrightarrow> R a (recv_v3_connack q3 c)"
  "Q (V5_connack q5) \<Longrightarrow> R a c \<Longrightarrow> R a (recv_v5_connack q5 c)"
  by (auto simp: recv_v3_connect_def recv_v5_connect_def recv_v3_connack_def recv_v5_connack_def
      set_recv_timeout_def resume_or_clear_def server_keep_alive_property_def Let_def intro!: R_recv_intros)

lemma R_recv_response:
  "Q (V3_puback p) \<Longrightarrow> R a c \<Longrightarrow> R a (recv_v3_puback p c)"
  "Q (V3_pubcomp p) \<Longrightarrow> R a c \<Longrightarrow> R a (recv_v3_pubcomp p c)"
  "Q (V3_suback s) \<Longrightarrow> R a c \<Longrightarrow> R a (recv_v3_suback s c)"
  "Q (V3_unsuback p) \<Longrightarrow> R a c \<Longrightarrow> R a (recv_v3_unsuback p c)"
  by (auto simp: recv_v3_puback_def recv_v3_pubcomp_def recv_v3_suback_def recv_v3_unsuback_def Let_def
      intro!: R_recv_intros)

lemma R_recv_v5_response:
  "recv_v5_puback q c = Inr d \<Longrightarrow> Q (V5_puback q) \<Longrightarrow> R a c \<Longrightarrow> R a d"
  "recv_v5_pubcomp q c = Inr d \<Longrightarrow> Q (V5_pubcomp q) \<Longrightarrow> R a c \<Longrightarrow> R a d"
  "recv_v5_suback t c = Inr d \<Longrightarrow> Q (V5_suback t) \<Longrightarrow> R a c \<Longrightarrow> R a d"
  "recv_v5_unsuback t c = Inr d \<Longrightarrow> Q (V5_unsuback t) \<Longrightarrow> R a c \<Longrightarrow> R a d"
  by (auto simp: recv_v5_puback_def recv_v5_pubcomp_def recv_v5_suback_def recv_v5_unsuback_def Let_def
      split: if_splits dest: R_disconnect_and_report intro!: R_recv_intros)

lemma R_recv_flow:
  "recv_v3_pubrec p c = Inr d \<Longrightarrow> Q (V3_pubrec p) \<Longrightarrow> R a c \<Longrightarrow> R a d"
  "recv_v5_pubrec q c = Inr d \<Longrightarrow> Q (V5_pubrec q) \<Longrightarrow> R a c \<Longrightarrow> R a d"
  "recv_pingreq r s c = Inr d \<Longrightarrow> Q r \<Longrightarrow> unhandled_by s = {} \<Longrightarrow> R a c \<Longrightarrow> R a d"
  by (auto simp: recv_v3_pubrec_def recv_v5_pubrec_def recv_pingreq_def Let_def bindE_eq_Inr
      split: if_splits intro!: R_recv_intros elim: R_send_plain R_send_special R_disconnect_and_report)

lemma R_recv_rest:
  "Q p \<Longrightarrow> R a c \<Longrightarrow> R a (recv_pingresp p c)" "Q p \<Longrightarrow> R a c \<Longrightarrow> R a (recv_disconnect p c)"
  by (auto simp: recv_pingresp_def recv_disconnect_def intro!: R_recv_intros)

text \<open>PUBLISH: one that is not delivered is one whose identifier is handled already.\<close>

lemma R_recv_v3_publish:
  assumes "recv_v3_publish p c = Inr d" and "R a c"
    and "Q (V3_publish p) \<or> (\<exists>i. qos2_id (V3_publish p) = Some i \<and> i \<in> cn_qos2_publish_handled c)"
  shows "R a d"
  using assms
  by (auto simp: recv_v3_publish_def Let_def bindE_eq_Inr insert_absorb split: if_splits
      elim!: R_send_plain intro!: R_recv_intros intro: R_insert_handled)

lemma R_resolve_topic: "resolve_topic p c = Some (q, d) \<Longrightarrow> R a c \<Longrightarrow> R a d"
  by (auto simp: resolve_topic_def Let_def split: option.splits if_splits intro!: R_upd)

lemma R_finish_v5_publish:
  assumes "finish_v5_publish respond deliver p c = Inr d" and "R a c"
    and respond: "\<And>c d. respond c = Inr d \<Longrightarrow> R a c \<Longrightarrow> R a d"
    and deliver: "\<And>t. deliver \<Longrightarrow> Q (V5_publish p) \<and> Q (V5_publish (add_topic t p))"
  shows "R a d"
proof (cases "resolve_topic p c")
  case None
  with assms(1,2) show ?thesis by (simp add: finish_v5_publish_def R_disconnect_and_report)
next
  case (Some r)
  obtain q e where r: "r = (q, e)" by fastforce
  with Some assms(1) obtain e' where e': "respond e = Inr e'"
      "d = (if deliver then received (V5_publish q) e' else pingreq_recv_op e')"
    by (auto simp: finish_v5_publish_def bindE_eq_Inr)
  have "deliver \<Longrightarrow> Q (V5_publish q)"
    using Some [unfolded r] deliver by (auto simp: resolve_topic_def Let_def split: option.splits if_splits)
  with respond e' R_resolve_topic [OF Some [unfolded r] assms(2)] show ?thesis
    by (simp add: R_received R_pingreq_recv_op)
qed

lemma R_recv_v5_publish:
  assumes "recv_v5_publish p c = Inr d" and "R a c"
    and "(\<forall>t. Q (V5_publish p) \<and> Q (V5_publish (add_topic t p))) \<or>
      (\<exists>i. qos2_id (V5_publish p) = Some i \<and> i \<in> cn_qos2_publish_handled c)"
  shows "R a d"
  using assms
  by (auto simp: recv_v5_publish_def Let_def insert_absorb split: if_splits dest: R_disconnect_and_report
      elim!: R_finish_v5_publish dest: R_send_special intro!: R_upd intro: R_insert_handled)

text \<open>PUBREL, of an identifier that may be released.\<close>

lemma R_recv_pubrel:
  "recv_v3_pubrel p c = Inr d \<Longrightarrow> Q (V3_pubrel p) \<Longrightarrow> v3_ack_packet_id p \<in> U \<Longrightarrow> R a c \<Longrightarrow> R a d"
  "recv_v5_pubrel q c = Inr d \<Longrightarrow> Q (V5_pubrel q) \<Longrightarrow> v5_ack_packet_id q \<in> U \<Longrightarrow> R a c \<Longrightarrow> R a d"
  by (auto simp: recv_v3_pubrel_def recv_v5_pubrel_def Let_def bindE_eq_Inr split: if_splits
      intro!: R_recv_intros R_unhandled elim!: R_send_plain R_send_special)

lemma R_timeout_close: "timeout_close c = Inr d \<Longrightarrow> R a c \<Longrightarrow> R a d"
  by (auto simp: timeout_close_def split: protocol_version.splits if_splits intro!: R_intros elim: R_send_special)

lemma R_notify_timer_fired: "notify_timer_fired k c = Inr d \<Longrightarrow> R a (set_timer k False c) \<Longrightarrow> R a d"
  by (cases k)
     (auto simp: Let_def split: protocol_version.splits if_splits elim: R_timeout_close R_send_plain)

lemma R_release_packet_ids: "R a c \<Longrightarrow> R a (release_packet_ids ids c)"
  unfolding release_packet_ids_def
  by (rule R_fold) (auto simp: release_packet_id_def intro!: R_release_and_notify)

lemma R_restore_packets: "R a c \<Longrightarrow> R a (restore_packets pvs c)"
  unfolding restore_packets_def
  by (rule R_fold)
     (auto simp: restore_packet_def restore_add_store_def restore_add_publish_def register_packet_id_def Let_def
        add_to_store_def [symmetric] split: store_var.splits prod.splits intro!: R_upd R_store_change)

lemma R_recv_error: "recv_error ec c = Inr d \<Longrightarrow> R a c \<Longrightarrow> R a d"
  by (auto simp: recv_error_def Let_def bindE_eq_Inr split: if_splits intro!: R_recv_intros
      elim: R_send_plain R_send_special)

end

locale handler_relation = receive_relation R UNIV "\<lambda>_. True" for R +
  assumes R_handled: "R c (c\<lparr>cn_qos2_publish_handled := h\<rparr>)"
begin

lemma R_set_handled: "R a c \<Longrightarrow> R a (c\<lparr>cn_qos2_publish_handled := h\<rparr>)"
  by (erule R_trans, rule R_handled)

lemma R_recv_packet: "recv_packet p c = Inr d \<Longrightarrow> R a c \<Longrightarrow> R a d"
  by (cases p)
     (auto intro: R_recv_connect R_recv_response R_recv_rest R_received
        R_recv_v3_publish R_recv_v5_publish R_recv_pubrel R_recv_v5_response R_recv_flow)

lemma R_notify_closed: "R a c \<Longrightarrow> R a (notify_closed c)"
  by (auto simp: notify_closed_def Let_def intro!: R_upd R_set_handled R_release_packet_ids R_cancel_timers)

text \<open>Receiving, once the builder has given up its packet.\<close>

lemma R_process_recv_packet:
  assumes "process_recv_packet c = Inr d" and "R a (c\<lparr>cn_rpb := rpb_clear (cn_rpb c)\<rparr>)"
  shows "R a d"
  using assms
  by (auto simp: process_recv_packet_def process_recv_buffer_def Let_def
      split: option.splits error_packet.splits sum.splits parse_failure.splits if_splits
      intro!: R_recv_intros elim: R_recv_error R_disconnect_and_report R_recv_packet)

theorem R_api_other: "api op c = Inr d \<Longrightarrow> \<forall>is. op \<noteq> Api_recv is \<Longrightarrow> R (api_start op c) d"
  using R_refl [of c] R_refl [of "api_start op c"]
  by (cases op)
     (auto simp: set_pingresp_recv_timeout_def set_offline_publish_def set_auto_pub_response_def
        set_auto_ping_response_def set_auto_map_topic_alias_send_def set_auto_replace_topic_alias_send_def
        acquire_unique_packet_id_def register_packet_id_def release_packet_id_def restore_qos2_publish_handled_pids_def
        split: prod.splits
        intro: R_send R_notify_timer_fired R_notify_closed R_set_pingreq_send_interval R_upd R_set_handled
          R_restore_packets R_release_and_notify)

end

locale engine_relation = handler_relation R for R +
  assumes R_rpb: "R c (c\<lparr>cn_rpb := b\<rparr>)"
begin

theorem R_api:
  assumes "api op c = Inr d"
  shows "R (api_start op c) d"
proof (cases "\<exists>is. op = Api_recv is")
  case False
  with R_api_other [OF assms] show ?thesis by simp
next
  case True
  with assms show ?thesis
    by (auto simp: recv_def bindE_def split: sum.splits prod.splits elim!: R_process_recv_packet) (rule R_rpb)
qed

end

end
