(* ===== verification/Connection_Inv.thy ===== *)
theory Connection_Inv
  imports Connection_Rel
begin

text \<open>
  Invariants of the engine that hold whatever its owner calls: the interface \<open>engine_relation\<close>
  of \<^verbatim>\<open>Connection_Rel\<close> interpreted on the timers and on the store.
\<close>

definition new_events :: "connection \<Rightarrow> connection \<Rightarrow> event list" where
  "new_events c d = drop (length (cn_events c)) (cn_events d)"

subsection \<open>Timers\<close>

text \<open>The owner of a connection keeps the timers: the effect of an event on those that are running.\<close>

fun run_timer :: "event \<Rightarrow> timer_kind set \<Rightarrow> timer_kind set" where
  "run_timer (On_timer_op Timer_reset k _) T = insert k T"
| "run_timer (On_timer_op Timer_cancel k _) T = T - {k}"
| "run_timer _ T = T"

definition timers_set :: "connection \<Rightarrow> timer_kind set" where
  "timers_set c = {k. timer_set k c}"

definition timers_tracked :: "connection \<Rightarrow> connection \<Rightarrow> bool" where
  "timers_tracked c d \<longleftrightarrow> (\<exists>es. cn_events d = cn_events c @ es \<and> timers_set d = fold run_timer es (timers_set c))"

lemma timers_set_set_timer:
  "timers_set (set_timer k b c) = (if b then insert k (timers_set c) else timers_set c - {k})"
proof -
  have "timer_set j (set_timer k b c) \<longleftrightarrow> (if j = k then b else timer_set j c)" for j
    by (cases j; cases k) simp_all
  then show ?thesis by (auto simp: timers_set_def)
qed

lemma set_timer_events [simp]: "cn_events (set_timer k b c) = cn_events c"
  by (cases k) simp_all

lemma emit_events: "cn_events (emit e c) = cn_events c @ [e]"
  by (simp add: emit_def)

lemma set_timer_other [simp]:
  "cn_store (set_timer k b c) = cn_store c" "cn_role (set_timer k b c) = cn_role c"
  "cn_pid_bytes (set_timer k b c) = cn_pid_bytes c" "cn_qos2_publish_handled (set_timer k b c) = cn_qos2_publish_handled c"
  "cn_rpb (set_timer k b c) = cn_rpb c"
  by (cases k; simp)+

lemma timers_set_emit [simp]: "timers_set (emit e c) = timers_set c"
proof -
  have "timer_set k (emit e c) = timer_set k c" for k by (cases k) (simp_all add: emit_def)
  then show ?thesis by (simp add: timers_set_def)
qed

lemma timer_set_updates [simp]:
  "timer_set k (c\<lparr>cn_store := s\<rparr>) = timer_set k c" "timer_set k (c\<lparr>cn_qos2_publish_handled := h\<rparr>) = timer_set k c"
  "timer_set k (c\<lparr>cn_rpb := b\<rparr>) = timer_set k c"
  by (cases k; simp)+

lemma timers_set_updates [simp]:
  "timers_set (c\<lparr>cn_store := s\<rparr>) = timers_set c" "timers_set (c\<lparr>cn_qos2_publish_handled := h\<rparr>) = timers_set c"
  "timers_set (c\<lparr>cn_rpb := b\<rparr>) = timers_set c"
  by (simp_all add: timers_set_def)

lemma run_timer_other: "\<not> is_timer_event e \<Longrightarrow> run_timer e T = T"
  by (cases e) simp_all

interpretation timers: engine_relation timers_tracked
proof
  show "timers_tracked c c" for c by (simp add: timers_tracked_def)
  show "timers_tracked a c" if "timers_tracked a b" and "timers_tracked b c" for a b c
    using that by (auto simp: timers_tracked_def)
  show "timers_tracked c d" if "same_core c d" for c d
    using that by (auto simp: timers_tracked_def same_core_def timers_set_def)
  show "timers_tracked c (emit e c)" if "\<not> is_timer_event e" for e c
    unfolding timers_tracked_def by (rule exI [of _ "[e]"]) (simp add: run_timer_other [OF that] emit_events)
  show "timers_tracked c (do_timer op k ms c)" for c op k ms
    unfolding timers_tracked_def
    by (rule exI [of _ "[On_timer_op op k ms]"], cases op) (simp_all add: do_timer_def timers_set_set_timer emit_events)
  show "timers_tracked c (c\<lparr>cn_store := s\<rparr>)" for c s by (simp add: timers_tracked_def)
  show "timers_tracked c (c\<lparr>cn_qos2_publish_handled := cn_qos2_publish_handled c - {pid}\<rparr>)" for c pid
    by (simp add: timers_tracked_def)
  show "timers_tracked c (c\<lparr>cn_qos2_publish_handled := insert i (cn_qos2_publish_handled c)\<rparr>)" for c i
    by (simp add: timers_tracked_def)
  show "timers_tracked c (c\<lparr>cn_qos2_publish_handled := h\<rparr>)" for c h by (simp add: timers_tracked_def)
  show "timers_tracked c (c\<lparr>cn_rpb := b\<rparr>)" for c b by (simp add: timers_tracked_def)
  show "timers_tracked c (emit (On_receive p) c)" for c p
    unfolding timers_tracked_def by (rule exI [of _ "[On_receive p]"]) (simp add: emit_events)
qed

text \<open>A connection together with the timers its owner runs: a timer fires only while it runs.\<close>

inductive owned :: "role \<Rightarrow> nat \<Rightarrow> protocol_version \<Rightarrow> connection \<Rightarrow> timer_kind set \<Rightarrow> bool" for r n ver where
  start: "owned r n ver (connection_init r n ver) {}"
| call: "owned r n ver c T \<Longrightarrow> \<forall>k. op \<noteq> Api_timer_fired k \<Longrightarrow> api op c = Inr d \<Longrightarrow>
    owned r n ver d (fold run_timer (new_events c d) T)"
| fire: "owned r n ver c T \<Longrightarrow> k \<in> T \<Longrightarrow> api (Api_timer_fired k) c = Inr d \<Longrightarrow>
    owned r n ver d (fold run_timer (new_events c d) (T - {k}))"

lemma api_start_other: "\<forall>k. op \<noteq> Api_timer_fired k \<Longrightarrow> api_start op c = c"
  by (cases op) simp_all

lemma tracked_new_events:
  "timers_tracked c d \<Longrightarrow> timers_set d = fold run_timer (new_events c d) (timers_set c)"
  unfolding timers_tracked_def new_events_def by (elim exE conjE) simp

lemma new_events_set_timer: "new_events (set_timer k b c) d = new_events c d"
  by (simp add: new_events_def)

text \<open>
  C9. The flags \<^verbatim>\<open>pingreq_send_set_\<close>, \<^verbatim>\<open>pingreq_recv_set_\<close> and \<^verbatim>\<open>pingresp_recv_set_\<close> are exact.
  Let the owner of a connection keep three timers and do only what the events tell it: start a
  timer on \<^verbatim>\<open>reset\<close>, stop it on \<^verbatim>\<open>cancel\<close>, and report it when it fires. Then after any
  sequence of calls the timers that run are the ones the engine takes to be set.
\<close>

theorem timer_flags_exact:
  assumes "owned r n ver c T"
  shows "T = timers_set c"
  using assms
proof induction
  case start
  have "timer_set k (connection_init r n ver) = False" for k by (cases k) (simp_all add: connection_init_def)
  then show ?case by (simp add: timers_set_def)
next
  case (call c T op d)
  with timers.R_api [of op c d] show ?case by (simp add: api_start_other tracked_new_events)
next
  case (fire c T k d)
  with timers.R_api [of "Api_timer_fired k" c d] show ?case
    by (simp add: tracked_new_events timers_set_set_timer new_events_set_timer)
qed

theorem timer_flags_exact_witness:
  "\<exists>c. owned Client 2 V5 c {Pingreq_send} \<and> timers_set c = {Pingreq_send}"
proof -
  let ?c = "connection_init Client 2 V5"
  have "owned Client 2 V5 (set_pingreq_send_interval 5 ?c)
      (fold run_timer (new_events ?c (set_pingreq_send_interval 5 ?c)) {})"
    by (rule owned.call [OF owned.start, of "Api_set_pingreq_send_interval 5"]) simp_all
  moreover have "fold run_timer (new_events ?c (set_pingreq_send_interval 5 ?c)) {} = {Pingreq_send}"
    by (simp add: new_events_def set_pingreq_send_interval_def emit_def)
  ultimately have "owned Client 2 V5 (set_pingreq_send_interval 5 ?c) {Pingreq_send}" by simp
  with timer_flags_exact [of Client 2 V5 "set_pingreq_send_interval 5 ?c" "{Pingreq_send}"] show ?thesis by auto
qed

subsection \<open>Store\<close>

definition store_kept_ok :: "connection \<Rightarrow> connection \<Rightarrow> bool" where
  "store_kept_ok c d \<longleftrightarrow> (store_ok (cn_store c) \<longrightarrow> store_ok (cn_store d)) \<and> cn_role d = cn_role c \<and> cn_pid_bytes d = cn_pid_bytes c"

lemma make_store_packet_variant_sp_ok: "make_store_packet_variant v = Inr pv \<Longrightarrow> sp_ok pv"
  by (cases v) (auto simp: sp_ok_def Let_def split: if_splits)

lemma store_change_ok: "store_change s t \<Longrightarrow> store_ok s \<Longrightarrow> store_ok t"
proof (induction rule: store_change.induct)
  case (1 s p)
  then show ?case
    by (cases p) (auto simp: store_add_var_def simp del: make_store_packet_variant.simps
        split: sum.splits intro!: store.add_ok make_store_packet_variant_sp_ok)
next
  case (2 s r pid)
  then show ?case using store.erase_ok [of s "(r, pid)"] by simp
qed (auto simp: store_ok_def store_clear_def distinct_map_filter list_all_iff)

interpretation kept: engine_relation store_kept_ok
  by unfold_locales
     (auto simp: store_kept_ok_def same_core_def emit_def do_timer_def store_change_ok)

lemma store_api:
  assumes "api op c = Inr d"
  shows "(store_ok (cn_store c) \<longrightarrow> store_ok (cn_store d)) \<and> cn_role d = cn_role c \<and> cn_pid_bytes d = cn_pid_bytes c"
proof -
  from assms have "store_kept_ok (api_start op c) d" by (rule kept.R_api)
  then show ?thesis by (cases op) (auto simp: store_kept_ok_def)
qed



end
