(* ===== verification/Connection_Send.thy ===== *)
theory Connection_Send
  imports Connection_Inv "HOL-Library.Sublist"
begin

text \<open>
  What a call of \<^verbatim>\<open>send\<close> reports to the owner of the connection: the exits of
  \<^verbatim>\<open>process_send_packet\<close>, stage by stage.
\<close>

subsection \<open>Stages that report nothing\<close>

definition silent :: "connection \<Rightarrow> connection \<Rightarrow> bool" where
  "silent c d \<longleftrightarrow> cn_events d = cn_events c \<and> cn_status d = cn_status c \<and> cn_role d = cn_role c \<and>
     cn_offline_publish d = cn_offline_publish c \<and> cn_is_client d = cn_is_client c"

lemma silent_refl [simp]: "silent c c"
  by (simp add: silent_def)

lemma silent_trans: "silent a b \<Longrightarrow> silent b c \<Longrightarrow> silent a c"
  by (simp add: silent_def)

lemma silent_updates [simp]:
  "silent a (c\<lparr>cn_store := s\<rparr>) \<longleftrightarrow> silent a c" "silent a (c\<lparr>cn_topic_alias_send := t\<rparr>) \<longleftrightarrow> silent a c"
  "silent a (c\<lparr>cn_pid_puback := x\<rparr>) \<longleftrightarrow> silent a c" "silent a (c\<lparr>cn_pid_pubrec := x\<rparr>) \<longleftrightarrow> silent a c"
  "silent a (c\<lparr>cn_qos2_publish_processing := x\<rparr>) \<longleftrightarrow> silent a c"
  "silent a (c\<lparr>cn_publish_recv := x\<rparr>) \<longleftrightarrow> silent a c" "silent a (c\<lparr>cn_qos2_publish_handled := x\<rparr>) \<longleftrightarrow> silent a c"
  "silent a (c\<lparr>cn_pid_pubcomp := x\<rparr>) \<longleftrightarrow> silent a c" "silent a (c\<lparr>cn_pid_suback := x\<rparr>) \<longleftrightarrow> silent a c"
  "silent a (c\<lparr>cn_pid_unsuback := x\<rparr>) \<longleftrightarrow> silent a c"
  "silent a (c\<lparr>cn_publish_send_count := m\<rparr>) \<longleftrightarrow> silent a c" "silent a (add_to_store p c) \<longleftrightarrow> silent a c"
  by (simp_all add: silent_def add_to_store_def)

lemma validate_topic_alias_silent: "validate_topic_alias ta c = (t, d) \<Longrightarrow> silent c d"
  by (auto simp: validate_topic_alias_def Let_def split: option.splits if_splits prod.splits)

text \<open>A rejection: one error, followed at most by the release of the identifier of the packet.\<close>

definition rejected :: "nat \<Rightarrow> connection \<Rightarrow> connection \<Rightarrow> bool" where
  "rejected pid c d \<longleftrightarrow> (\<exists>ec. ec_failed ec \<and>
     (cn_events d = cn_events c @ [On_error ec] \<or>
      pid \<noteq> 0 \<and> cn_events d = cn_events c @ [On_error ec, On_packet_id_release pid])) \<and> cn_status d = cn_status c"

lemma failed_codes [simp]:
  "ec_failed packet_not_allowed_to_send" "ec_failed packet_identifier_invalid"
  "ec_failed (disconnect_code receive_maximum_exceeded)"
  by (simp_all add: ec_failed_def packet_not_allowed_to_send_def packet_identifier_invalid_def disconnect_code_def
      receive_maximum_exceeded_def)

lemma rejected_return:
  "return_error ec c = Returned b d \<Longrightarrow> ec_failed ec \<Longrightarrow> silent a c \<Longrightarrow> \<not> b \<and> rejected pid a d"
  "return_error_release ec pid c = Returned b d \<Longrightarrow> ec_failed ec \<Longrightarrow> silent a c \<Longrightarrow> \<not> b \<and> rejected pid a d"
  by (auto simp: return_error_def return_error_release_def rejected_def silent_def emit_def release_and_notify_def Let_def)

lemma send_checks_exit: "send_checks p c = Inl (Returned b d) \<Longrightarrow> \<not> b \<and> rejected (packet_id p) c d"
  by (auto simp: send_checks_def split: if_splits dest!: rejected_return [OF _ _ silent_refl])

lemma offline_alias_stage_exit: "offline_alias_stage p c = Inl (Returned b d) \<Longrightarrow> \<not> b \<and> rejected (packet_id p) c d"
  by (cases p) (auto split: if_splits dest!: rejected_return(2) [OF _ _ silent_refl])

lemma store_v5_publish_silent: "store_v5_publish p c = Inr (v, d) \<Longrightarrow> silent c d"
  by (auto simp: store_v5_publish_def bindE_eq_Inr
      split: if_splits option.splits prod.splits dest: validate_topic_alias_silent)

lemma store_v5_publish_exit:
  "store_v5_publish p c = Inl (Returned b d) \<Longrightarrow> \<not> b \<and> rejected (v5_publish_packet_id p) c d"
  by (auto simp: store_v5_publish_def make_store_publish_def bindE_def
      split: if_splits sum.splits option.splits prod.splits
      dest: rejected_return(2) validate_topic_alias_silent)

lemma store_stage_silent: "store_stage p c = Inr (v, rel, d) \<Longrightarrow> silent c d"
  by (cases p) (auto simp: store_stage_def Let_def bindE_eq_Inr split: if_splits dest: store_v5_publish_silent)

lemma store_stage_exit: "store_stage p c = Inl (Returned b d) \<Longrightarrow> \<not> b \<and> rejected (packet_id p) c d"
  by (cases p) (auto simp: store_stage_def Let_def bindE_def split: if_splits sum.splits prod.splits
      dest!: rejected_return(1) [OF _ _ silent_refl] store_v5_publish_exit)

lemma alias_stage_silent:
  "auto_alias p c = Inr (q, d) \<Longrightarrow> silent c d" "apply_alias v p c = Inr (q, d) \<Longrightarrow> silent c d"
  "receive_maximum_stage p c = Inr d \<Longrightarrow> silent c d"
proof -
  show auto: "auto_alias p c = Inr (q, d) \<Longrightarrow> silent c d" for c d
    by (auto simp: auto_alias_def split: if_splits option.splits)
  show "apply_alias v p c = Inr (q, d) \<Longrightarrow> silent c d"
    by (auto simp: apply_alias_def Let_def dest: auto validate_topic_alias_silent split: if_splits option.splits prod.splits)
  show "receive_maximum_stage p c = Inr d \<Longrightarrow> silent c d"
    by (auto simp: receive_maximum_stage_def split: if_splits option.splits)
qed

lemma apply_alias_exit:
  "auto_alias p c \<noteq> Inl (Returned b d)"
  "apply_alias v p c = Inl (Returned b d) \<Longrightarrow> \<not> b \<and> rejected (v5_publish_packet_id p) c d"
proof -
  show auto: "auto_alias p c \<noteq> Inl (Returned b d)" for b d
    by (auto simp: auto_alias_def split: option.splits)
  show "apply_alias v p c = Inl (Returned b d) \<Longrightarrow> \<not> b \<and> rejected (v5_publish_packet_id p) c d"
    by (auto simp: apply_alias_def Let_def auto split: if_splits option.splits prod.splits
        dest: rejected_return(2) [OF _ _ silent_refl] rejected_return(2) [OF _ _ validate_topic_alias_silent])
qed

text \<open>The packet handed over: a PUBLISH may carry its topic as an alias.\<close>

definition aliased :: "v5_publish \<Rightarrow> v5_publish \<Rightarrow> bool" where
  "aliased p q \<longleftrightarrow> p5_fixed_header q = p5_fixed_header p \<and> p5_packet_id q = p5_packet_id p \<and>
     p5_payloads q = p5_payloads p \<and>
     (p5_topic_name q = p5_topic_name p \<and> p5_props q = p5_props p \<or>
      (\<exists>ta. p5_topic_name q \<in> {[], p5_topic_name p} \<and> p5_props q = p5_props p @ [topic_alias ta]))"

fun same_message :: "packet_variant \<Rightarrow> packet_variant \<Rightarrow> bool" where
  "same_message (V5_publish p) q \<longleftrightarrow> (\<exists>p'. q = V5_publish p' \<and> aliased p p')"
| "same_message p q \<longleftrightarrow> q = p"

lemma same_message_refl: "same_message p p"
  by (cases p) (simp_all add: aliased_def)

lemma alias_ops_aliased:
  "aliased p (remove_topic_add_topic_alias ta p)" "aliased p (add_topic_alias ta p)"
  by (auto simp: aliased_def alias_op_defs Let_def)

lemma apply_alias_aliased: "apply_alias v p c = Inr (q, d) \<Longrightarrow> aliased p q"
proof -
  have auto: "auto_alias p c = Inr (q, d) \<Longrightarrow> aliased p q" for c d
    by (auto simp: auto_alias_def alias_ops_aliased split: if_splits option.splits) (simp_all add: aliased_def)
  show "apply_alias v p c = Inr (q, d) \<Longrightarrow> aliased p q"
    by (auto simp: apply_alias_def Let_def split: if_splits option.splits prod.splits dest: auto)
       (simp_all add: aliased_def)
qed

lemma aliased_packet_id: "aliased p q \<Longrightarrow> v5_publish_packet_id q = v5_publish_packet_id p"
  by (simp add: aliased_def v5_publish_packet_id_def)

lemma v5_publish_stage_silent:
  "v5_publish_stage v p c = Inr (q, d) \<Longrightarrow> silent c d \<and> same_message p q"
  by (cases p) (auto simp: bindE_eq_Inr dest: alias_stage_silent apply_alias_aliased intro: silent_trans)

lemma v5_publish_stage_exit:
  assumes "v5_publish_stage v p c = Inl (Returned b d)"
  shows "\<not> b \<and> rejected (packet_id p) c d"
proof (cases p)
  case (V5_publish x)
  show ?thesis
  proof (cases "apply_alias v x c")
    case (Inl e)
    with assms V5_publish apply_alias_exit(2) [of v x c] show ?thesis by (simp add: bindE_def)
  next
    case (Inr r)
    then obtain y e where r: "apply_alias v x c = Inr (y, e)" by (cases r) simp
    with assms V5_publish have "receive_maximum_stage y e = Inl (Returned b d)"
      by (auto simp: bindE_def split: sum.splits)
    then show ?thesis
      using V5_publish aliased_packet_id [OF apply_alias_aliased [OF r]]
      by (auto simp: receive_maximum_stage_def split: if_splits option.splits
          dest: rejected_return(2) [OF _ _ alias_stage_silent(2) [OF r]])
  qed
qed (use assms in simp_all)

subsection \<open>The end of the function\<close>

definition reports :: "connection \<Rightarrow> connection \<Rightarrow> event list" where
  "reports c d = filter (\<lambda>e. \<not> is_timer_event e) (new_events c d)"

text \<open>
  What an accepted packet leads to: nothing for a PUBLISH that waits for the connection, the
  packet and the request to close for a DISCONNECT, the packet otherwise.
\<close>

definition handed_over :: "packet_variant \<Rightarrow> connection \<Rightarrow> connection \<Rightarrow> bool" where
  "handed_over p c d \<longleftrightarrow> (\<exists>q rel. same_message p q \<and> prefix (cn_events c) (cn_events d) \<and>
     reports c d = (if is_publish p \<and> cn_status c \<noteq> Connected then []
                    else if is_disconnect p then [On_send q rel, On_close]
                    else [On_send q rel]))"

definition only_timers :: "connection \<Rightarrow> connection \<Rightarrow> bool" where
  "only_timers c d \<longleftrightarrow> (\<exists>es. cn_events d = cn_events c @ es \<and> list_all is_timer_event es)"

lemma only_timersI: "cn_events d = cn_events c @ es \<Longrightarrow> list_all is_timer_event es \<Longrightarrow> only_timers c d"
  by (auto simp: only_timers_def)

lemma only_timers_refl: "cn_events d = cn_events c \<Longrightarrow> only_timers c d"
  by (rule only_timersI [of _ _ "[]"]) simp_all

lemma only_timers_trans: "only_timers a b \<Longrightarrow> only_timers b c \<Longrightarrow> only_timers a c"
  by (auto simp: only_timers_def)

lemma fold_events: "(\<And>x c. cn_events (f x c) = cn_events c) \<Longrightarrow> cn_events (fold f xs c) = cn_events c"
  by (induction xs arbitrary: c) simp_all

lemma only_timers_emit: "is_timer_event e \<Longrightarrow> cn_events d = cn_events c \<Longrightarrow> only_timers a c \<Longrightarrow> only_timers a (emit e d)"
  by (auto simp: only_timers_def emit_events)

lemma cancel_timers_only: "only_timers c (cancel_timers c)" "cn_status (cancel_timers c) = cn_status c"
proof -
  show "only_timers c (cancel_timers c)"
    unfolding cancel_timers_def Let_def
    by (simp add: only_timers_def emit_events)
  show "cn_status (cancel_timers c) = cn_status c" by (simp add: cancel_timers_def Let_def emit_def)
qed

lemma limit_property_events [simp]:
  "cn_events (recv_limit_property p c) = cn_events c" "cn_events (session_expiry_property p c) = cn_events c"
  "cn_events (send_limit_property p c) = cn_events c"
  by (simp_all add: recv_limit_property_def session_expiry_property_def send_limit_property_def)

lemma send_connect_stage_only: "only_timers c (send_connect_stage p c)"
proof (cases p)
  case (V3_connack q)
  have "only_timers c (cancel_timers (c\<lparr>cn_status := Disconnected\<rparr>))"
    by (rule only_timers_trans [OF only_timers_refl cancel_timers_only(1)]) simp
  with V3_connack show ?thesis by (auto simp: send_v3_connack_def intro: only_timers_refl)
next
  case (V5_connack q)
  have "only_timers c (cancel_timers (c\<lparr>cn_status := Disconnected\<rparr>))"
    by (rule only_timers_trans [OF only_timers_refl cancel_timers_only(1)]) simp
  with V5_connack show ?thesis by (auto simp: send_v5_connack_def fold_events intro!: only_timers_refl)
qed (auto simp: send_v3_connect_def send_v5_connect_def Let_def fold_events connection_initialize_def
    set_send_interval_if_unset_def clear_session_def clear_publish_pids_def intro!: only_timers_refl)

lemma send_connect_stage_publish: "is_publish p \<Longrightarrow> send_connect_stage p c = c"
  by (cases p) (simp_all add: is_publish_def)

lemma ack_stage_silent: "ack_stage p rel c = (rel', d) \<Longrightarrow> silent c d"
  by (cases p) (auto simp: ack_stage_def traits_defs Let_def split: if_splits)

lemma same_messageE:
  assumes "same_message p q"
  obtains "q = p" | a b where "p = V5_publish a" and "q = V5_publish b" and "aliased a b"
  using assms by (cases p) auto

lemma same_message_kind:
  "same_message p q \<Longrightarrow> is_publish q = is_publish p \<and> is_disconnect q = is_disconnect p \<and> packet_id q = packet_id p"
  by (erule same_messageE) (simp_all add: is_publish_def is_disconnect_def aliased_packet_id)

lemma reports_append:
  "cn_events d = cn_events c @ es \<Longrightarrow> reports c d = filter (\<lambda>e. \<not> is_timer_event e) es"
  by (simp add: reports_def new_events_def)

lemma only_timers_reports:
  assumes "only_timers a b" and "cn_events d = cn_events b @ es"
  shows "prefix (cn_events a) (cn_events d) \<and> reports a d = filter (\<lambda>e. \<not> is_timer_event e) es"
  using assms
  by (auto simp: only_timers_def reports_def new_events_def list_all_iff filter_empty_conv)

lemma final_stage_outcome:
  assumes "final_stage q rel d = Returned b e" and "same_message p q" and "only_timers c d"
    and "is_publish p \<Longrightarrow> cn_events d = cn_events c \<and> cn_status d = cn_status c"
  shows "if b then handed_over p c e else rejected (packet_id p) c e"
proof (cases "is_publish p \<and> cn_status d \<noteq> Connected")
  case True
  with same_message_kind [OF assms(2)]
  have q: "is_publish q" "\<not> is_pingreq q" "\<not> is_disconnect q" "packet_id q = packet_id p" by (cases q; simp add: traits_defs)+
  from True assms(4) have d: "cn_events d = cn_events c" "cn_status d = cn_status c" by simp_all
  show ?thesis
  proof (cases "cn_offline_publish d")
    case True
    with assms(1) q \<open>is_publish p \<and> cn_status d \<noteq> Connected\<close> have "b" "e = d" by (simp_all add: final_stage_def)
    with d \<open>is_publish p \<and> cn_status d \<noteq> Connected\<close> assms(2) show ?thesis
      by (auto simp: handed_over_def reports_def new_events_def)
  next
    case False
    with assms(1) q \<open>is_publish p \<and> cn_status d \<noteq> Connected\<close>
    have "return_error_release packet_not_allowed_to_send (packet_id p) d = Returned b e" by (simp add: final_stage_def)
    from rejected_return(2) [OF this failed_codes(1) silent_refl] d show ?thesis by (auto simp: rejected_def)
  qed
next
  case False
  then have n: "\<not> (is_publish p \<and> cn_status c \<noteq> Connected)" "\<not> (is_publish q \<and> cn_status d \<noteq> Connected)"
    using assms(4) same_message_kind [OF assms(2)] by auto
  consider (ping) "is_pingreq q" | (disc) "\<not> is_pingreq q" "is_disconnect q" | (other) "\<not> is_pingreq q" "\<not> is_disconnect q"
    by blast
  then show ?thesis
  proof cases
    case ping
    then have b: b and nd: "\<not> is_disconnect q" using assms(1)
      by (auto simp: final_stage_def is_pingreq_def is_disconnect_def)
    from ping assms(1) have "\<exists>ts. cn_events e = cn_events d @ On_send q rel # ts \<and> list_all is_timer_event ts"
      by (auto simp: final_stage_def Let_def emit_def split: option.splits)
    then obtain ts where "cn_events e = cn_events d @ On_send q rel # ts" and "list_all is_timer_event ts" by blast
    with only_timers_reports [OF assms(3)] b nd n same_message_kind [OF assms(2)] assms(2) show ?thesis
      by (auto simp: handed_over_def list_all_iff filter_empty_conv)
  next
    case disc
    let ?f = "cancel_timers (d\<lparr>cn_status := Disconnected\<rparr>)"
    from disc assms(1) have b: b and e: "cn_events e = cn_events ?f @ [On_send q rel, On_close]"
      by (auto simp: final_stage_def emit_def)
    have "only_timers d ?f" by (rule only_timers_trans [OF only_timers_refl cancel_timers_only(1)]) simp
    with only_timers_reports [OF only_timers_trans [OF assms(3)] e] b disc n same_message_kind [OF assms(2)] assms(2)
    show ?thesis by (auto simp: handed_over_def)
  next
    case other
    with assms(1) n have b: b and e: "cn_events e = cn_events d @ [On_send q rel]"
      by (auto simp: final_stage_def emit_def)
    with only_timers_reports [OF assms(3) e] other n same_message_kind [OF assms(2)] assms(2) show ?thesis
      by (auto simp: handed_over_def)
  qed
qed

lemma send_exit_result:
  "(case x of Inl (Returned b c) \<Rightarrow> Inr (b, c) | Inl (Failed f) \<Rightarrow> Inl f | Inr () \<Rightarrow> Inl Undefined) = Inr (b, d) \<longleftrightarrow>
   x = Inl (Returned b d)"
proof (cases x)
  case (Inl y)
  then show ?thesis by (cases y) simp_all
next
  case (Inr u)
  then show ?thesis by (simp split: unit.split)
qed

text \<open>A PUBLISH that passed the checks.\<close>

lemma publish_stages_outcome:
  assumes "bindE (offline_alias_stage p c) (\<lambda>_.
           bindE (store_stage p c) (\<lambda>(validated, rel, c).
           bindE (v5_publish_stage validated p c) (\<lambda>(p, c).
           let (rel, c) = ack_stage p rel c in
           Inl (final_stage p rel c)))) = (Inl (Returned b d) :: send_exit + unit)"
  shows "if b then handed_over p c d else rejected (packet_id p) c d"
proof (cases "offline_alias_stage p c")
  case (Inl x)
  with assms offline_alias_stage_exit [of p c b d] show ?thesis by (auto simp: bindE_def)
next
  case offline: (Inr u)
  show ?thesis
  proof (cases "store_stage p c")
    case (Inl x)
    with assms offline store_stage_exit [of p c b d] show ?thesis by (auto simp: bindE_def)
  next
    case (Inr r)
    then obtain v rel e where st: "store_stage p c = Inr (v, rel, e)" by (cases r) auto
    note se = store_stage_silent [OF st]
    show ?thesis
    proof (cases "v5_publish_stage v p e")
      case (Inl x)
      with assms offline st v5_publish_stage_exit [of v p e b d] se show ?thesis
        by (auto simp: bindE_def rejected_def silent_def)
    next
      case (Inr r)
      then obtain q f where pb: "v5_publish_stage v p e = Inr (q, f)" by (cases r) auto
      obtain rel' g where ak: "ack_stage q rel f = (rel', g)" by fastforce
      from v5_publish_stage_silent [OF pb] ack_stage_silent [OF ak] se
      have "silent c g" and m: "same_message p q" by (auto intro: silent_trans)
      moreover from assms offline st pb ak have "final_stage q rel' g = Returned b d" by (simp add: bindE_def)
      ultimately show ?thesis
        using final_stage_outcome [OF _ m only_timers_refl] by (simp add: silent_def)
    qed
  qed
qed

lemma process_send_outcome:
  assumes "process_send_packet p c = Inr (b, d)"
  shows "if b then handed_over p c d else rejected (packet_id p) c d"
proof -
  let ?c = "send_connect_stage p c"
  have pub: "is_publish p \<Longrightarrow> ?c = c" by (rule send_connect_stage_publish)
  have other: "offline_alias_stage p ?c = Inr ()" "store_stage p ?c = Inr (False, None, ?c)"
    "v5_publish_stage False p ?c = Inr (p, ?c)" if "\<not> is_publish p"
    using that by (cases p; simp add: is_publish_def store_stage_def)+
  show ?thesis
  proof (cases "send_checks p c")
    case (Inl x)
    with assms send_checks_exit [of p c] show ?thesis
      by (auto simp: process_send_packet_def bindE_def split: send_exit.splits)
  next
    case checks: (Inr u)
    show ?thesis
    proof (cases "is_publish p")
      case False
      obtain rel e where a: "ack_stage p None ?c = (rel, e)" by fastforce
      with assms checks other [OF False] have "final_stage p rel e = Returned b d"
        by (auto simp: process_send_packet_def bindE_def Let_def split: send_exit.splits)
      moreover have "only_timers c e"
        using ack_stage_silent [OF a] send_connect_stage_only [of c p] only_timers_trans [OF _ only_timers_refl]
        by (auto simp: silent_def)
      ultimately show ?thesis using final_stage_outcome [OF _ same_message_refl] False by blast
    next
      case True
      from assms checks pub [OF True] show ?thesis
        by (intro publish_stages_outcome) (simp add: process_send_packet_def send_exit_result)
    qed
  qed
qed

text \<open>A connection to evaluate the properties on.\<close>

definition sample_connected :: connection where
  "sample_connected = (connection_init Client 2 V3_1_1)\<lparr>cn_status := Connected\<rparr>"

lemma sample_connected_sel [simp]:
  "cn_role sample_connected = Client" "cn_pid_bytes sample_connected = 2"
  "cn_events sample_connected = []" "cn_protocol_version sample_connected = V3_1_1"
  "cn_pid_man sample_connected = packet_id_manager_init 2" "cn_need_store sample_connected = False"
  "cn_store sample_connected = []" "cn_auto_pub_response sample_connected = False"
  "cn_auto_ping_response sample_connected = False" "cn_offline_publish sample_connected = False"
  "cn_maximum_packet_size_send sample_connected = packet_size_no_limit" "cn_maximum_packet_size_recv sample_connected = packet_size_no_limit"
  "cn_status sample_connected = Connected" "cn_pingreq_send_interval_ms sample_connected = None"
  "cn_pingreq_recv_timeout_ms sample_connected = None" "cn_pingresp_recv_timeout_ms sample_connected = None"
  "cn_qos2_publish_handled sample_connected = {}" "cn_rpb sample_connected = rpb_init"
  "cn_is_client sample_connected = True" "cn_pid_puback sample_connected = {}"
  "cn_pid_pubrec sample_connected = {}" "cn_pid_pubcomp sample_connected = {}"
  by (simp_all add: sample_connected_def connection_init_def)

lemmas send_eval = send_def process_send_packet_def send_checks_def role_check_def status_check_def version_check_def
  validate_maximum_packet_size_def can_send_as_client_def can_send_as_server_def traits_defs store_stage_def ack_stage_def
  final_stage_def Let_def

lemma sample_pingreq_sent:
  "send (V3_pingreq make_v3_pingreq) sample_connected =
     Inr (emit (On_send (V3_pingreq make_v3_pingreq) None) sample_connected)"
  by (simp add: send_eval packet_size_no_limit_def v3_all_size_def make_v3_pingreq_def make_v3_empty_def emit_def)

subsection \<open>Properties\<close>

lemma send_post_processing:
  assumes "send p c = Inr d" and "\<not> is_connack p"
  shows "\<exists>b e. process_send_packet p c = Inr (b, e) \<and> only_timers e d \<and> cn_status d = cn_status e \<and> (\<not> b \<longrightarrow> d = e)"
proof -
  from assms(1) obtain b e where e: "process_send_packet p c = Inr (b, e)" by (auto simp: send_def bindE_eq_Inr)
  with assms have "only_timers e d \<and> cn_status d = cn_status e \<and> (\<not> b \<longrightarrow> d = e)"
    by (auto simp: send_def Let_def only_timers_def emit_def split: if_splits option.splits)
  with e show ?thesis by blast
qed

lemma handed_over_later:
  assumes "handed_over p c d" and "only_timers d e"
  shows "handed_over p c e"
proof -
  from assms obtain q rel es ts where e: "same_message p q" "cn_events d = cn_events c @ es" "cn_events e = cn_events d @ ts"
      "list_all is_timer_event ts"
      "filter (\<lambda>e. \<not> is_timer_event e) es = (if is_publish p \<and> cn_status c \<noteq> Connected then []
         else if is_disconnect p then [On_send q rel, On_close] else [On_send q rel])"
    by (auto simp: handed_over_def only_timers_def prefix_def reports_append)
  then have "reports c e = filter (\<lambda>e. \<not> is_timer_event e) es"
    by (auto simp: reports_def new_events_def list_all_iff filter_empty_conv)
  with e show ?thesis by (auto simp: handed_over_def prefix_def)
qed



text \<open>What the checks at the beginning of \<^verbatim>\<open>process_send_packet\<close> guarantee of an accepted packet.\<close>

definition sendable :: "packet_variant \<Rightarrow> connection \<Rightarrow> bool" where
  "sendable q c \<longleftrightarrow> role_check q c \<and> version_check q c \<and>
     (if is_connect q then cn_status c = Disconnected
      else if is_connack q then cn_status c = Connecting
      else if is_auth q then cn_status c \<noteq> Disconnected
      else cn_status c = Connected)"

lemma same_message_checks:
  "same_message p q \<Longrightarrow> role_check q c = role_check p c \<and> version_check q c = version_check p c \<and>
     is_connect q = is_connect p \<and> is_connack q = is_connack p \<and> is_auth q = is_auth p \<and> is_publish q = is_publish p"
  by (erule same_messageE) (simp_all add: role_check_def version_check_def traits_defs)

lemma accepted_checks:
  "process_send_packet p c = Inr (True, d) \<Longrightarrow>
     role_check p c \<and> status_check p c \<and> version_check p c \<and> packet_variant_size p \<le> cn_maximum_packet_size_send c"
  using send_checks_exit [of p c True d]
  by (auto simp: process_send_packet_def send_exit_result send_checks_def validate_maximum_packet_size_def split: if_splits)

lemma only_timers_new: "only_timers c d \<Longrightarrow> e \<in> set (new_events c d) \<Longrightarrow> is_timer_event e"
  by (auto simp: only_timers_def new_events_def list_all_iff)

lemma rejected_new: "rejected pid c d \<Longrightarrow> On_send q rel \<notin> set (new_events c d) \<and> On_close \<notin> set (new_events c d)"
  by (auto simp: rejected_def new_events_def)

lemma handed_over_new:
  assumes "handed_over p c d" and "On_send q rel \<in> set (new_events c d)"
  shows "same_message p q \<and> \<not> (is_publish p \<and> cn_status c \<noteq> Connected)"
proof -
  from assms(2) have "On_send q rel \<in> set (reports c d)" by (simp add: reports_def)
  with assms(1) show ?thesis by (auto simp: handed_over_def split: if_splits)
qed

lemma send_in_turn:
  assumes "send p c = Inr d" and "\<not> is_connack p" and "On_send q rel \<in> set (new_events c d)"
  shows "sendable q c \<and> same_message p q \<and> packet_variant_size p \<le> cn_maximum_packet_size_send c"
proof -
  from send_post_processing [OF assms(1,2)] obtain b e where
    e: "process_send_packet p c = Inr (b, e)" "only_timers e d" "\<not> b \<longrightarrow> d = e" by blast
  with process_send_outcome [OF e(1)] assms(3) rejected_new [of "packet_id p" c e q rel] have b
    by (cases b) simp_all
  with e process_send_outcome [OF e(1)] handed_over_later [of p c e d] handed_over_new [OF _ assms(3), of p]
  have m: "same_message p q" and n: "\<not> (is_publish p \<and> cn_status c \<noteq> Connected)" by auto
  from accepted_checks [of p c e] e(1) \<open>b\<close> m n same_message_checks [OF m, of c] assms(2) show ?thesis
    by (auto simp: sendable_def status_check_def split: if_splits)
qed



subsection \<open>The end of a connection\<close>

lemma cancel_timers_set [simp]: "timers_set (cancel_timers c) = {}"
proof -
  have "\<not> timer_set k (cancel_timers c)" for k by (cases k) (simp_all add: cancel_timers_def Let_def emit_def)
  then show ?thesis by (simp add: timers_set_def)
qed

lemma cancel_timers_status [simp]: "cn_status (cancel_timers c) = cn_status c"
  by (rule cancel_timers_only)

lemma disconnect_stages:
  assumes "is_disconnect p" and "process_send_packet p c = Inr (b, d)"
  shows "rejected 0 c d \<and> \<not> b \<or> cn_status d = Disconnected \<and> timers_set d = {}"
proof -
  have st: "send_connect_stage p c = c" "offline_alias_stage p c = Inr ()" "store_stage p c = Inr (False, None, c)"
    "v5_publish_stage False p c = Inr (p, c)" "ack_stage p None c = (None, c)" "packet_id p = 0" "\<not> is_pingreq p"
    using assms(1) by (cases p; simp add: traits_defs store_stage_def ack_stage_def)+
  have "timers_set (emit On_close (emit (On_send p None) (cancel_timers (c\<lparr>cn_status := Disconnected\<rparr>)))) = {}"
    by simp
  with assms send_checks_exit [of p c b d] st show ?thesis
    by (cases "send_checks p c")
       (auto simp: process_send_packet_def final_stage_def emit_def split: send_exit.splits)
qed

lemma status_rejected:
  "\<not> status_check p c \<Longrightarrow> send p c = Inr (emit (On_error packet_not_allowed_to_send) c)"
  by (simp add: send_def process_send_packet_def send_checks_def return_error_def)



end
