(* ===== verification/Exactly_Once.thy ===== *)
theory Exactly_Once
  imports Connection_Inv
begin

text \<open>
  QoS 2 reception. The set \<^verbatim>\<open>qos2_publish_handled_\<close> holds the identifiers of the PUBLISH packets
  that were delivered and whose PUBREL has not arrived; the interface \<open>receive_relation\<close> is
  interpreted on the deliveries of one identifier.
\<close>

fun delivers :: "nat \<Rightarrow> event \<Rightarrow> bool" where
  "delivers pid (On_receive p) \<longleftrightarrow> qos2_id p = Some pid"
| "delivers pid _ \<longleftrightarrow> False"

definition undelivered :: "nat \<Rightarrow> connection \<Rightarrow> connection \<Rightarrow> bool" where
  "undelivered pid c d \<longleftrightarrow> (\<exists>es. cn_events d = cn_events c @ es \<and> (\<forall>e \<in> set es. \<not> delivers pid e)) \<and>
     (pid \<in> cn_qos2_publish_handled c \<longrightarrow> pid \<in> cn_qos2_publish_handled d)"

lemma undelivered_refl: "undelivered pid c c"
  by (simp add: undelivered_def)

lemma undelivered_trans: "undelivered pid a b \<Longrightarrow> undelivered pid b c \<Longrightarrow> undelivered pid a c"
  unfolding undelivered_def by (elim conjE exE) (simp add: ball_Un)

lemma not_receive_delivers: "\<not> is_receive_event e \<Longrightarrow> \<not> delivers pid e"
  by (cases e) simp_all

lemma undelivered_emit: "\<not> delivers pid e \<Longrightarrow> undelivered pid c (emit e c)"
  by (simp add: undelivered_def emit_def)

interpretation once: receive_relation "undelivered pid" "- {pid}" "\<lambda>p. qos2_id p \<noteq> Some pid" for pid
proof
  fix a b c d :: connection
  show "undelivered pid c c" by (rule undelivered_refl)
  show "undelivered pid a b \<Longrightarrow> undelivered pid b c \<Longrightarrow> undelivered pid a c" by (rule undelivered_trans)
  show "same_core c d \<Longrightarrow> undelivered pid c d" by (simp add: undelivered_def same_core_def)
  show "\<not> is_timer_event e \<Longrightarrow> \<not> is_receive_event e \<Longrightarrow> undelivered pid c (emit e c)" for e
    by (intro undelivered_emit not_receive_delivers)
  show "undelivered pid c (do_timer op k ms c)" for op k ms
    by (simp add: undelivered_def do_timer_def emit_events, simp add: emit_def)
  show "undelivered pid c (c\<lparr>cn_store := s\<rparr>)" for s by (simp add: undelivered_def)
  show "i \<in> - {pid} \<Longrightarrow> undelivered pid c (c\<lparr>cn_qos2_publish_handled := cn_qos2_publish_handled c - {i}\<rparr>)" for i
    by (simp add: undelivered_def)
  show "qos2_id p \<noteq> Some pid \<Longrightarrow> undelivered pid c (emit (On_receive p) c)" for p
    by (simp add: undelivered_emit)
  show "undelivered pid c (c\<lparr>cn_qos2_publish_handled := insert i (cn_qos2_publish_handled c)\<rparr>)" for i
    by (simp add: undelivered_def)
qed

lemma add_topic_same [simp]:
  "v5_publish_packet_id (add_topic t p) = v5_publish_packet_id p" "v5_publish_opts (add_topic t p) = v5_publish_opts p"
  by (simp_all add: alias_op_defs v5_publish_opts_def v5_publish_packet_id_def)

subsection \<open>The steps that end an exchange\<close>

text \<open>
  An exchange ends with its PUBREL, with a PUBREC that refuses the message, with the loss of a
  session that is not kept, or when the owner restores another set of identifiers.
\<close>

fun is_pubrel_of :: "nat \<Rightarrow> event \<Rightarrow> bool" where
  "is_pubrel_of pid (On_receive (V3_pubrel p)) \<longleftrightarrow> v3_ack_packet_id p = pid"
| "is_pubrel_of pid (On_receive (V5_pubrel p)) \<longleftrightarrow> v5_ack_packet_id p = pid"
| "is_pubrel_of pid _ \<longleftrightarrow> False"

fun exchange_ended :: "nat \<Rightarrow> api_op \<Rightarrow> connection \<Rightarrow> connection \<Rightarrow> bool" where
  "exchange_ended pid (Api_send p) c d \<longleftrightarrow> pid \<in> unhandled_by p"
| "exchange_ended pid (Api_recv _) c d \<longleftrightarrow> list_ex (is_pubrel_of pid) (new_events c d)"
| "exchange_ended pid Api_notify_closed c d \<longleftrightarrow> \<not> cn_need_store c"
| "exchange_ended pid (Api_restore_qos2_publish_handled_pids pids) c d \<longleftrightarrow> pid \<notin> pids"
| "exchange_ended pid _ c d \<longleftrightarrow> False"

lemma recv_packet_undelivered:
  assumes "recv_packet p c = Inr d" and "qos2_id p = Some pid \<Longrightarrow> pid \<in> cn_qos2_publish_handled c"
    and "\<not> is_pubrel_of pid (On_receive p)" and "undelivered pid a c"
  shows "undelivered pid a d"
proof (cases p)
  case (V3_publish x)
  with assms(1) have r: "recv_v3_publish x c = Inr d" by simp
  show ?thesis by (rule once.R_recv_v3_publish [OF r assms(4)]) (use assms(2) V3_publish in auto)
next
  case (V5_publish x)
  with assms(1) have r: "recv_v5_publish x c = Inr d" by simp
  show ?thesis by (rule once.R_recv_v5_publish [OF r assms(4)]) (use assms(2) V5_publish in auto)
qed (use assms in \<open>auto intro: once.R_recv_connect once.R_recv_response once.R_recv_rest once.R_received
        once.R_recv_pubrel once.R_recv_v5_response once.R_recv_flow\<close>)

text \<open>A PUBREL removes the identifier, but delivers no PUBLISH.\<close>

definition no_delivery :: "nat \<Rightarrow> connection \<Rightarrow> connection \<Rightarrow> bool" where
  "no_delivery pid c d \<longleftrightarrow> (\<exists>es. cn_events d = cn_events c @ es \<and> (\<forall>e \<in> set es. \<not> delivers pid e))"

lemma undelivered_no_delivery: "undelivered pid c d \<Longrightarrow> no_delivery pid c d"
  by (simp add: undelivered_def no_delivery_def)

lemma no_delivery_trans: "no_delivery pid a b \<Longrightarrow> no_delivery pid b c \<Longrightarrow> no_delivery pid a c"
  unfolding no_delivery_def by (elim conjE exE) (simp add: ball_Un)

interpretation quiet: receive_relation "no_delivery pid" UNIV "\<lambda>p. qos2_id p \<noteq> Some pid" for pid
  by unfold_locales
     (simp_all add: no_delivery_def ball_Un same_core_def emit_events do_timer_def not_receive_delivers,
      auto simp: ball_Un)

lemma received_new:
  assumes "no_delivery pid c x"
  shows "On_receive p \<in> set (new_events c (received p x))"
proof -
  have "no_delivery pid c (pingreq_recv_op x)" using assms by (rule quiet.R_pingreq_recv_op)
  then show ?thesis by (auto simp: no_delivery_def received_def new_events_def emit_events)
qed

lemma recv_pubrel_received:
  "recv_v3_pubrel p c = Inr d \<Longrightarrow> \<exists>x. no_delivery pid c x \<and> d = received (V3_pubrel p) x"
  "recv_v5_pubrel q c = Inr d \<Longrightarrow> \<exists>x. no_delivery pid c x \<and> d = received (V5_pubrel q) x"
proof -
  have r: "no_delivery pid c (c\<lparr>cn_qos2_publish_handled := h\<rparr>)" for h by (simp add: no_delivery_def)
  show "recv_v3_pubrel p c = Inr d \<Longrightarrow> \<exists>x. no_delivery pid c x \<and> d = received (V3_pubrel p) x"
    by (auto simp: recv_v3_pubrel_def Let_def bindE_eq_Inr split: if_splits dest!: quiet.R_send_plain [OF _ _ r]
        intro: r)
  show "recv_v5_pubrel q c = Inr d \<Longrightarrow> \<exists>x. no_delivery pid c x \<and> d = received (V5_pubrel q) x"
    by (auto simp: recv_v5_pubrel_def Let_def bindE_eq_Inr split: if_splits dest!: quiet.R_send_special(5) [OF _ r]
        intro: r)
qed

lemma recv_pubrel_quiet:
  assumes "recv_packet p c = Inr d" and "is_pubrel_of pid (On_receive p)"
  shows "no_delivery pid c d \<and> list_ex (is_pubrel_of pid) (new_events c d)"
proof -
  have "(\<exists>q. p = V3_pubrel q \<and> recv_v3_pubrel q c = Inr d) \<or> (\<exists>q. p = V5_pubrel q \<and> recv_v5_pubrel q c = Inr d)"
    using assms by (cases p) simp_all
  then obtain x where x: "no_delivery pid c x" "d = received p x"
    by (auto dest: recv_pubrel_received [of _ _ _ pid])
  from assms(2) have "qos2_id p \<noteq> Some pid" by (cases p) simp_all
  with assms(2) received_new [OF x(1), of p] quiet.R_received [OF _ x(1), of p] x(2) show ?thesis
    by (auto simp: list_ex_iff)
qed

subsection \<open>Counting deliveries\<close>

text \<open>
  The identifier pays for the delivery: the number of deliveries in a step, plus one if the
  identifier was marked before, is at most one if it is marked afterwards and zero otherwise.
\<close>

definition marked :: "nat \<Rightarrow> connection \<Rightarrow> nat" where
  "marked pid c = (if pid \<in> cn_qos2_publish_handled c then 1 else 0)"

definition deliveries :: "nat \<Rightarrow> event list \<Rightarrow> nat" where
  "deliveries pid es = length (filter (delivers pid) es)"

definition paid :: "nat \<Rightarrow> connection \<Rightarrow> connection \<Rightarrow> bool" where
  "paid pid c d \<longleftrightarrow> (\<exists>es. cn_events d = cn_events c @ es \<and> deliveries pid es + marked pid c \<le> marked pid d)"

lemma paid_refl: "paid pid c c"
  by (simp add: paid_def deliveries_def)

lemma paid_trans: "paid pid a b \<Longrightarrow> paid pid b c \<Longrightarrow> paid pid a c"
  unfolding paid_def deliveries_def by (elim exE conjE) simp

lemma undelivered_paid: "undelivered pid c d \<Longrightarrow> paid pid c d"
  unfolding undelivered_def paid_def by (elim exE conjE) (auto simp: deliveries_def marked_def filter_empty_conv)

lemma received_paid:
  assumes "undelivered pid c x" and "pid \<in> cn_qos2_publish_handled c"
    and "cn_events c = cn_events a" and "pid \<notin> cn_qos2_publish_handled a"
  shows "paid pid a (received p x)"
proof -
  have "undelivered pid c (pingreq_recv_op x)" using assms(1) by (rule once.R_pingreq_recv_op)
  then obtain es where "cn_events (pingreq_recv_op x) = cn_events a @ es" "deliveries pid es = 0"
      "pid \<in> cn_qos2_publish_handled (pingreq_recv_op x)"
    using assms(2,3) by (auto simp: undelivered_def deliveries_def filter_empty_conv)
  then have "cn_events (received p x) = cn_events a @ es @ [On_receive p]" "pid \<in> cn_qos2_publish_handled (received p x)"
    by (simp_all add: received_def emit_def)
  with \<open>deliveries pid es = 0\<close> assms(4) show ?thesis
    by (auto simp: paid_def marked_def deliveries_def)
qed

lemma undelivered_marked_paid:
  "undelivered pid c d \<Longrightarrow> cn_events c = cn_events a \<Longrightarrow> pid \<notin> cn_qos2_publish_handled a \<Longrightarrow> paid pid a d"
  by (auto simp: undelivered_def paid_def marked_def deliveries_def filter_empty_conv)

lemma finish_v5_publish_paid:
  assumes "finish_v5_publish respond deliver p c = Inr d"
    and "\<And>c d. respond c = Inr d \<Longrightarrow> undelivered pid c d"
    and "pid \<in> cn_qos2_publish_handled c" and "cn_events c = cn_events a" and "pid \<notin> cn_qos2_publish_handled a"
  shows "paid pid a d"
proof (cases "resolve_topic p c")
  case None
  with assms(1) have "disconnect_and_report topic_alias_invalid c = Inr d" by (simp add: finish_v5_publish_def)
  from undelivered_marked_paid [OF once.R_disconnect_and_report [OF this once.R_refl] assms(4,5)] show ?thesis .
next
  case (Some r)
  then obtain q e where r: "resolve_topic p c = Some (q, e)" by (cases r) auto
  from once.R_resolve_topic [OF r once.R_refl] have e: "undelivered pid c e" .
  from assms(1) r obtain f where f: "respond e = Inr f"
      "d = (if deliver then received (V5_publish q) f else pingreq_recv_op f)"
    by (auto simp: finish_v5_publish_def bindE_eq_Inr)
  with assms(2) e have u: "undelivered pid c f" by (blast intro: undelivered_trans)
  with f(2) received_paid [OF u assms(3-5)] undelivered_marked_paid [OF once.R_pingreq_recv_op [OF u] assms(4,5)]
  show ?thesis by simp
qed

lemma recv_publish_paid:
  assumes "recv_packet p c = Inr d" and "qos2_id p = Some pid" and "pid \<notin> cn_qos2_publish_handled c"
  shows "paid pid c d"
proof (cases p)
  case (V3_publish x)
  let ?c = "c\<lparr>cn_qos2_publish_handled := insert pid (cn_qos2_publish_handled c)\<rparr>"
  from assms V3_publish obtain e where "undelivered pid ?c e" "d = received (V3_publish x) e"
    by (auto simp: recv_v3_publish_def Let_def bindE_eq_Inr split: if_splits
        dest!: once.R_send_plain [OF _ _ undelivered_refl] intro: undelivered_refl)
  with received_paid [of pid ?c e c] assms(3) show ?thesis by simp
next
  case (V5_publish x)
  have special: "undelivered pid c d" if "send_v5_ack V5_pubrec make_v5_pubrec i c = Inr d" for pid i c d
    using once.R_send_special(3) [OF that undelivered_refl] .
  from assms V5_publish show ?thesis
    by (auto simp: recv_v5_publish_def Let_def split: if_splits
        dest: undelivered_paid [OF once.R_disconnect_and_report [OF _ undelivered_refl]]
        elim!: finish_v5_publish_paid intro: undelivered_refl special)
qed (use assms in auto)

lemma recv_packet_paid:
  assumes "recv_packet p c = Inr d"
  shows "paid pid c d \<or> list_ex (is_pubrel_of pid) (new_events c d)"
proof (cases "is_pubrel_of pid (On_receive p)")
  case True
  with recv_pubrel_quiet [OF assms] show ?thesis by simp
next
  case False
  with assms show ?thesis
    using recv_packet_undelivered [OF assms _ _ undelivered_refl] recv_publish_paid [OF assms] undelivered_paid by blast
qed

lemma process_recv_packet_paid:
  assumes "process_recv_packet c = Inr d"
  shows "paid pid c d \<or> list_ex (is_pubrel_of pid) (new_events c d)"
proof -
  let ?c = "c\<lparr>cn_rpb := rpb_clear (cn_rpb c)\<rparr>"
  have same: "undelivered pid c ?c" by (simp add: undelivered_def)
  have new: "new_events ?c d = new_events c d" by (simp add: new_events_def)
  consider (quiet) "undelivered pid c d" | (packet) p where "recv_packet p ?c = Inr d"
    using assms once.R_recv_error [OF _ same] once.R_disconnect_and_report [OF _ same]
    by (auto simp: process_recv_packet_def process_recv_buffer_def Let_def
        split: option.splits error_packet.splits sum.splits parse_failure.splits if_splits
        intro!: once.R_intros once.R_cancel_timers same)
  then show ?thesis
  proof cases
    case packet
    from recv_packet_paid [OF this, of pid] paid_trans [OF undelivered_paid [OF same]] new show ?thesis by auto
  qed (simp add: undelivered_paid)
qed

lemma release_packet_ids_need_store [simp]: "cn_need_store (release_packet_ids ids c) = cn_need_store c"
proof -
  have "cn_need_store (fold release_packet_id xs c) = cn_need_store c" for xs
    by (induction xs arbitrary: c) (simp_all add: release_packet_id_def release_and_notify_def emit_def)
  then show ?thesis by (simp add: release_packet_ids_def)
qed

lemma api_paid:
  assumes "api op c = Inr d" and "\<not> exchange_ended pid op c d"
  shows "paid pid c d"
proof (cases op)
  case (Api_recv stream)
  then obtain b rest where r: "rpb_recv (cn_rpb c) stream = (b, rest)" "process_recv_packet (c\<lparr>cn_rpb := b\<rparr>) = Inr d"
    using assms(1) by (auto simp: recv_def bindE_def split: prod.splits sum.splits)
  have "undelivered pid c (c\<lparr>cn_rpb := b\<rparr>)" by (simp add: undelivered_def)
  with process_recv_packet_paid [OF r(2), of pid] assms(2) Api_recv show ?thesis
    by (auto simp: new_events_def intro: paid_trans [OF undelivered_paid])
next
  case Api_notify_closed
  with assms have "undelivered pid c d"
    by (auto simp: notify_closed_def Let_def intro!: once.R_upd once.R_release_packet_ids once.R_cancel_timers undelivered_refl)
  then show ?thesis by (rule undelivered_paid)
next
  case (Api_restore_qos2_publish_handled_pids pids)
  with assms show ?thesis by (auto simp: restore_qos2_publish_handled_pids_def paid_def marked_def deliveries_def)
next
  case (Api_timer_fired k)
  have "undelivered pid c (set_timer k False c)" by (simp add: undelivered_def)
  with assms Api_timer_fired once.R_notify_timer_fired [of k c d pid c] show ?thesis by (auto intro: undelivered_paid)
qed (use assms in \<open>auto simp: set_pingresp_recv_timeout_def set_offline_publish_def set_auto_pub_response_def
        set_auto_ping_response_def set_auto_map_topic_alias_send_def set_auto_replace_topic_alias_send_def
        acquire_unique_packet_id_def register_packet_id_def release_packet_id_def split: prod.splits
        intro!: undelivered_paid undelivered_refl
        intro: once.R_send once.R_set_pingreq_send_interval once.R_upd once.R_restore_packets once.R_release_and_notify
          undelivered_refl\<close>)

text \<open>A sequence of calls none of which ends the exchange of an identifier.\<close>

inductive exchange_open :: "nat \<Rightarrow> connection \<Rightarrow> connection \<Rightarrow> bool" for pid where
  none: "exchange_open pid c c"
| call: "exchange_open pid c d \<Longrightarrow> api op d = Inr e \<Longrightarrow> \<not> exchange_ended pid op d e \<Longrightarrow> exchange_open pid c e"

lemma exchange_open_paid: "exchange_open pid c d \<Longrightarrow> paid pid c d"
  by (induction rule: exchange_open.induct) (auto intro: paid_refl paid_trans api_paid)

end
