(* ===== verification/Connection_Wire.thy ===== *)
theory Connection_Wire
  imports Connection_Send Exactly_Once
begin

text \<open>
  The engine and the wire: what \<^verbatim>\<open>recv\<close> does with the bytes of a packet, how much it takes from
  the stream, and what two engines do that are connected to each other.
\<close>

subsection \<open>One packet from the stream\<close>

lemma rpb_step_header:
  assumes "rpb_read_state b \<noteq> Payload \<or> rpb_header b \<noteq> []" and "taken (fst (rpb_recv b [x])) = []"
  shows "rpb_header (rpb_clear (fst (rpb_recv b [x]))) \<noteq> []"
  using assms
  by (cases "rpb_read_state b")
     (auto simp: rpb_length_byte_def Let_def rpb_clear_def taken_def split: if_splits option.splits)

lemma rpb_bytes_header:
  assumes "rpb_bytes b (x # xs) = ([], b')" and "rpb_read_state b \<noteq> Payload \<or> rpb_header b \<noteq> []"
  shows "rpb_header b' \<noteq> []"
  using assms
proof (induction xs arbitrary: b x)
  case Nil
  with rpb_step_header [of b x] show ?case by (auto simp: Let_def simp del: rpb_recv.simps)
next
  case (Cons y ys)
  let ?b = "rpb_clear (fst (rpb_recv b [x]))"
  from Cons.prems(1) have "taken (fst (rpb_recv b [x])) = []" and r: "rpb_bytes ?b (y # ys) = ([], b')"
    by (auto simp: Let_def simp del: rpb_recv.simps split: prod.splits)
  with rpb_step_header [OF Cons.prems(2)] show ?case using Cons.IH [OF r] by simp
qed

lemma rpb_bytes_silent:
  assumes "rpb_bytes rpb_init xs = ([], rpb_init)"
  shows "xs = []"
proof (cases xs)
  case (Cons y ys)
  have "rpb_read_state rpb_init \<noteq> Payload" "rpb_header rpb_init = []" by (simp_all add: rpb_init_def)
  with rpb_bytes_header [OF assms [unfolded Cons]] show ?thesis by simp
qed

lemma rpb_recv_emit:
  "rpb_recv b xs = (b1, rest) \<Longrightarrow> rpb_read_packet b = None \<Longrightarrow> rpb_read_packet b1 \<noteq> None \<Longrightarrow> rpb_clear b1 = rpb_init"
proof (induction b xs rule: rpb_recv.induct)
  case (2 b x xs)
  show ?case
  proof (cases "rpb_read_state b")
    case Remaining_length
    obtain f b2 where l: "rpb_length_byte x b = (f, b2)" by fastforce
    then have "(f \<longrightarrow> rpb_clear b2 = rpb_init) \<and> (\<not> f \<longrightarrow> rpb_read_packet b2 = None)"
      using 2(4) by (auto simp: rpb_length_byte_def Let_def split: if_splits)
    moreover from 2(3) l Remaining_length have "(if f then (b2, xs) else rpb_recv b2 xs) = (b1, rest)" by simp
    ultimately show ?thesis using 2(2) [OF Remaining_length l [symmetric] refl] 2(5) by (cases f) simp_all
  next
    case Fixed_header
    with 2(1) [OF Fixed_header] 2(3-5) show ?thesis by simp
  next
    case Payload
    have step: "rpb_recv b (x # xs) =
      (let copied = take (rpb_remaining_length b) (x # xs); rest = drop (rpb_remaining_length b) (x # xs);
           b = b\<lparr>rpb_raw_buf := rpb_raw_buf b @ copied\<rparr> in
       if length copied = rpb_remaining_length b then (rpb_emit (Ep_packet (rpb_raw_buf b)) b, rest)
       else (b\<lparr>rpb_remaining_length := rpb_remaining_length b - length copied\<rparr>, rest))"
      by (simp only: rpb_recv.simps(2) Payload read_state.case)
    have "(\<exists>ep b2. b1 = rpb_emit ep b2) \<or> (\<exists>r m. b1 = b\<lparr>rpb_raw_buf := r, rpb_remaining_length := m\<rparr>)"
      using 2(3) unfolding step Let_def by (simp only: prod.inject split: if_splits) blast+
    with 2(4,5) show ?thesis by (elim disjE exE) simp_all
  qed
qed auto

lemma recv_one_packet:
  assumes "framed w"
  shows "\<exists>b. rpb_recv rpb_init (w @ rest) = (b, rest) \<and> rpb_read_packet b = Some (Ep_packet w) \<and> rpb_clear b = rpb_init"
proof -
  obtain b rest' where r: "rpb_recv rpb_init (w @ rest) = (b, rest')" by fastforce
  from recv_bytes [OF rpb_init_ok r] obtain ys where ys: "w @ rest = ys @ rest'"
    "rpb_bytes rpb_init ys = (taken b, rpb_clear b)" "rpb_read_packet b = None \<longrightarrow> rest' = []"
    by (elim exE conjE) (rule that)
  have init: "rpb_read_packet b \<noteq> None \<Longrightarrow> rpb_clear b = rpb_init"
    using rpb_recv_emit [OF r] by (simp add: rpb_init_def)
  note w = framed_bytes [OF assms]
  from ys(1) consider (shorter) zs where "w = ys @ zs" "rest' = zs @ rest" | (longer) zs where "ys = w @ zs" "rest = zs @ rest'"
    by (auto simp: append_eq_append_conv2)
  then have "ys = w \<and> rest' = rest"
  proof cases
    case shorter
    show ?thesis
    proof (cases "rpb_read_packet b")
      case None
      with ys(3) shorter show ?thesis by simp
    next
      case (Some ep)
      obtain out b2 where z: "rpb_bytes rpb_init zs = (out, b2)" by fastforce
      with w ys(2) init Some shorter(1) have "out = []" "b2 = rpb_init"
        by (auto simp: rpb_bytes_append taken_def)
      with rpb_bytes_silent z shorter show ?thesis by simp
    qed
  next
    case longer
    obtain out b2 where z: "rpb_bytes rpb_init zs = (out, b2)" by fastforce
    with ys(2) w longer(1) have t: "taken b = Ep_packet w # out" and c: "rpb_clear b = b2"
      by (auto simp: rpb_bytes_append)
    from t have "out = []" "rpb_read_packet b \<noteq> None" by (auto simp: taken_def split: option.splits)
    with init c rpb_bytes_silent z longer show ?thesis by simp
  qed
  with r ys(2) w show ?thesis by (auto simp: taken_def split: option.splits)
qed

text \<open>The bytes of a packet.\<close>

definition wire :: "packet_variant \<Rightarrow> bytes" where
  "wire p = concat (packet_variant_const_buffer_sequence p)"

text \<open>A connection that can take a packet: between two packets, of its version, large enough.\<close>

definition ready_for :: "packet_variant \<Rightarrow> connection \<Rightarrow> bool" where
  "ready_for p c \<longleftrightarrow> cn_rpb c = rpb_init \<and> cn_pid_bytes c = 2 \<and>
     (cn_protocol_version c = packet_version p \<or> is_connect p \<and> cn_protocol_version c = Undetermined) \<and>
     packet_variant_size p \<le> cn_maximum_packet_size_recv c"

lemma recv_wire:
  assumes "packet_variant_ok p" and "ready_for p c"
  shows "recv (wire p @ rest) c =
    bindE (if protocol_satisfied (packet_received p) c then recv_packet (packet_received p) c
           else Inr (emit (On_error protocol_error) c)) (\<lambda>d. Inr (d, rest))"
proof -
  from recv_one_packet [OF packet_framed [OF assms(1)], of rest] obtain b where
    b: "rpb_recv rpb_init (wire p @ rest) = (b, rest)" "rpb_read_packet b = Some (Ep_packet (wire p))" "rpb_clear b = rpb_init"
    unfolding wire_def by blast
  from assms packet_wire [OF assms(1)] packet_wire_undetermined [OF assms(1)]
  have "buffer_to_basic_packet_variant 2 (wire p) (cn_protocol_version c) = Inr (packet_received p)"
    by (cases p) (auto simp: ready_for_def buffer_to_packet_variant_def wire_def is_connect_def)
  moreover have u: "c\<lparr>cn_rpb := rpb_init\<rparr> = c" using assms(2) by (simp add: ready_for_def)
  moreover have "length (wire p) \<le> cn_maximum_packet_size_recv c"
    using assms packet_wire(2) [OF assms(1)] by (simp add: ready_for_def wire_def)
  ultimately show ?thesis
    using assms(2) b by (simp add: recv_def process_recv_packet_def process_recv_buffer_def ready_for_def Let_def u)
qed

text \<open>
  C33. Packets that arrive are processed as such: when the bytes of a well-formed packet stand at
  the front of the stream, one call of \<^verbatim>\<open>recv\<close> takes exactly these bytes and does what the
  visitor does for that packet, or reports a protocol error if the packet is out of turn. The bytes
  behind the packet stay in the stream.
\<close>

theorem recv_processes_packet:
  assumes "packet_variant_ok p" and "ready_for p c"
  shows "recv (wire p @ rest) c =
    bindE (if protocol_satisfied (packet_received p) c then recv_packet (packet_received p) c
           else Inr (emit (On_error protocol_error) c)) (\<lambda>d. Inr (d, rest))"
  using assms by (rule recv_wire)

lemma sample_pingreq_ok: "packet_variant_ok (V3_pingreq make_v3_pingreq)"
  by (simp add: make_v3_pingreq_def make_v3_empty_ok)

lemma sample_pingreq_received:
  "recv_packet (V3_pingreq make_v3_pingreq) sample_connected =
     Inr (emit (On_receive (V3_pingreq make_v3_pingreq)) sample_connected)"
  by (simp add: recv_pingreq_def can_send_as_server_def received_def pingreq_recv_op_def)

theorem recv_processes_packet_witness:
  "packet_variant_ok (V3_pingreq make_v3_pingreq) \<and> ready_for (V3_pingreq make_v3_pingreq) sample_connected \<and>
   recv (wire (V3_pingreq make_v3_pingreq) @ [0x20]) sample_connected =
     Inr (emit (On_receive (V3_pingreq make_v3_pingreq)) sample_connected, [0x20])"
proof -
  let ?p = "V3_pingreq make_v3_pingreq"
  have r: "ready_for ?p sample_connected"
    by (simp add: ready_for_def packet_version_def is_v5_def packet_size_no_limit_def v3_all_size_def make_v3_pingreq_def make_v3_empty_def)
  have "protocol_satisfied ?p sample_connected"
    by (simp add: protocol_satisfied_def traits_defs)
  with recv_processes_packet [OF sample_pingreq_ok r, of "[0x20]"] sample_pingreq_ok r sample_pingreq_received
  show ?thesis by simp
qed

subsection \<open>Progress\<close>

text \<open>Only \<^verbatim>\<open>recv\<close> touches the packet builder, and \<^verbatim>\<open>process_recv_packet\<close> only empties it.\<close>

definition same_builder :: "connection \<Rightarrow> connection \<Rightarrow> bool" where
  "same_builder c d \<longleftrightarrow> cn_rpb d = cn_rpb c"

interpretation builder: handler_relation same_builder
proof
  show "same_builder c (do_timer op k ms c)" for c op k ms
    by (cases k) (simp_all add: same_builder_def do_timer_def emit_def)
qed (simp_all add: same_builder_def same_core_def emit_def)

lemma recv_builder:
  assumes "recv stream c = Inr (d, rest)"
  shows "rpb_recv (cn_rpb c) stream = (fst (rpb_recv (cn_rpb c) stream), rest) \<and>
    cn_rpb d = rpb_clear (fst (rpb_recv (cn_rpb c) stream))"
proof -
  obtain b r where b: "rpb_recv (cn_rpb c) stream = (b, r)" by fastforce
  with assms have r: "r = rest" and p: "process_recv_packet (c\<lparr>cn_rpb := b\<rparr>) = Inr d"
    by (auto simp: recv_def bindE_eq_Inr)
  from builder.R_process_recv_packet [OF p builder.R_refl] b r show ?thesis by (simp add: same_builder_def)
qed

lemma builder_api:
  assumes "rpb_ok (cn_rpb c)" and "api op c = Inr d"
  shows "rpb_ok (cn_rpb d)"
proof (cases "\<exists>stream. op = Api_recv stream")
  case True
  with assms(2) obtain stream rest where "recv stream c = Inr (d, rest)"
    by (auto simp: map_sum_def split: sum.splits prod.splits)
  with recv_builder [of stream c d rest] recv_bytes [OF assms(1)] show ?thesis by metis
next
  case False
  then have "same_builder (api_start op c) d" using builder.R_api_other [OF assms(2)] by blast
  moreover have "cn_rpb (api_start op c) = cn_rpb c"
    by (cases op) simp_all
  ultimately show ?thesis using assms(1) by (simp add: same_builder_def)
qed

lemma reachable_builder: "reachable r n ver c \<Longrightarrow> rpb_ok (cn_rpb c)"
  by (induction rule: reachable.induct) (auto simp: connection_init_def intro: builder_api)

lemma recv_progress:
  assumes "rpb_ok (cn_rpb c)" and "recv stream c = Inr (d, rest)" and "stream \<noteq> []"
  shows "length rest < length stream \<and> rpb_ok (cn_rpb d)"
proof -
  from recv_builder [OF assms(2)] recv_bytes [OF assms(1), of stream "fst (rpb_recv (cn_rpb c) stream)" rest]
  obtain ys where "stream = ys @ rest" "ys \<noteq> []" "rpb_ok (cn_rpb d)" using assms(3) by auto
  then show ?thesis by (cases ys) simp_all
qed

subsection \<open>QoS 2\<close>

text \<open>
  C1. Exactly once. Take any sequence of calls (packets arriving in any pieces, responses sent
  automatically or by the owner, reconnections, timers) during which the exchange of an
  identifier is not ended by its PUBREL, by a refusing PUBREC, by the loss of a session that is
  not kept or by restoring other identifiers. However often a QoS 2 PUBLISH with that identifier
  arrives, it is delivered to the owner at most once, and not at all if the identifier was
  already handled at the beginning; after a delivery the identifier is handled.
\<close>

theorem qos2_delivered_at_most_once:
  assumes "exchange_open pid c d"
  shows "deliveries pid (new_events c d) + marked pid c \<le> marked pid d \<and> marked pid d \<le> 1"
proof -
  from exchange_open_paid [OF assms] show ?thesis by (auto simp: paid_def new_events_def marked_def split: if_splits)
qed

text \<open>A QoS 2 PUBLISH, and a client that receives it twice.\<close>

definition sample_qos2 :: v3_publish where
  "sample_qos2 = \<lparr>p3_fixed_header = 0x34, p3_topic_name = [0x61], p3_topic_name_length_buf = [0, 1],
     p3_packet_id = [0, 1], p3_payloads = [], p3_remaining_length = 5, p3_remaining_length_buf = [5]\<rparr>"

lemma sample_qos2_values:
  "opts_get_qos (v3_publish_opts sample_qos2) = exactly_once" "v3_publish_packet_id sample_qos2 = 1"
  "v3_publish_received sample_qos2 = sample_qos2"
  by code_simp+

lemma sample_qos2_ok: "packet_variant_ok (V3_publish sample_qos2)"
proof -
  have "utf8string_check [0x61]" "get_control_packet_type_with_check 0x34 = Some Cpt_publish"
    "pub_get_qos 0x34 = exactly_once" by code_simp+
  moreover have "val_to_variable_bytes 5 = [5]"
    by (simp add: val_to_variable_bytes_def val_to_variable_bytes_loop.simps)
  moreover have "endian_store 2 (Suc 0) = [0, 1]" by code_simp
  moreover have "endian_load [0, 1] = 1" by (simp add: endian_load_def)
  ultimately show ?thesis
    by (simp add: v3_publish_ok_def sample_qos2_def header_ok_def str_ok_def v3_publish_packet_id_def qos_with_id_def qos_defs)
qed

theorem qos2_delivered_at_most_once_witness:
  "\<exists>c d. cn_status c = Connected \<and> exchange_open 1 c d \<and>
     deliveries 1 (new_events c d) + marked 1 c \<le> marked 1 d \<and> deliveries 1 (new_events c d) = 1"
proof -
  let ?p = "V3_publish sample_qos2" and ?c = sample_connected
  let ?d = "emit (On_receive ?p) (?c\<lparr>cn_qos2_publish_handled := {1}\<rparr>)"
  let ?e = "emit (On_send (V3_pubrec (make_v3_pubrec 2 1)) None) ?d"
  have ready: "ready_for ?p c" if "cn_rpb c = rpb_init" "cn_pid_bytes c = 2" "cn_protocol_version c = V3_1_1"
      "cn_maximum_packet_size_recv c = packet_size_no_limit" for c
    using that by (simp add: ready_for_def packet_version_def is_v5_def v3_publish_size_def sample_qos2_def packet_size_no_limit_def)
  have sat: "protocol_satisfied ?p c = (cn_status c = Connected)" for c
    by (simp add: protocol_satisfied_def traits_defs)
  have "recv (wire ?p @ []) ?c = Inr (?d, [])"
    by (subst recv_wire [OF sample_qos2_ok ready])
       (simp_all add: sat sample_qos2_values recv_v3_publish_def received_def pingreq_recv_op_def Let_def)
  then have 1: "api (Api_recv (wire ?p)) ?c = Inr ?d" by simp
  have "recv (wire ?p @ []) ?d = Inr (?e, [])"
    by (subst recv_wire [OF sample_qos2_ok ready])
       (simp_all add: sat sample_qos2_values recv_v3_publish_def pingreq_recv_op_def send_eval emit_def packet_size_no_limit_def
         v3_all_size_def make_v3_pubrec_def make_v3_ack_def)
  then have 2: "api (Api_recv (wire ?p)) ?d = Inr ?e" by simp
  have "exchange_open 1 ?c ?e"
    by (rule exchange_open.call [OF exchange_open.call [OF exchange_open.none 1] 2]) (simp_all add: new_events_def emit_events)
  with qos2_delivered_at_most_once [OF this] show ?thesis
    by (intro exI [of _ ?c] exI [of _ ?e]) (simp add: deliveries_def sample_qos2_values new_events_def emit_events)
qed

end
