(* ===== verification/Connection_Session.thy ===== *)
theory Connection_Session
  imports Connection_Wire
begin

text \<open>
  Sessions across connections: what CONNECT and CONNACK do with the stored packets, the packet
  identifiers and the identifiers of QoS 2 messages that were received.
\<close>

subsection \<open>Resuming\<close>

fun sent_packet :: "event \<Rightarrow> packet_variant list" where
  "sent_packet (On_send p _) = [p]"
| "sent_packet _ = []"

fun released_id :: "event \<Rightarrow> nat list" where
  "released_id (On_packet_id_release i) = [i]"
| "released_id _ = []"

definition sent_packets :: "event list \<Rightarrow> packet_variant list" where
  "sent_packets es = concat (map sent_packet es)"

definition released_ids :: "event list \<Rightarrow> nat list" where
  "released_ids es = concat (map released_id es)"

lemma sent_packets_simps [simp]:
  "sent_packets [] = []" "sent_packets (e # es) = sent_packet e @ sent_packets es"
  "sent_packets (xs @ ys) = sent_packets xs @ sent_packets ys"
  by (simp_all add: sent_packets_def)

lemma released_ids_simps [simp]:
  "released_ids [] = []" "released_ids (e # es) = released_id e @ released_ids es"
  "released_ids (xs @ ys) = released_ids xs @ released_ids ys"
  by (simp_all add: released_ids_def)

lemma timer_events_silent:
  "list_all is_timer_event es \<Longrightarrow> sent_packets es = [] \<and> released_ids es = []"
  by (induction es) (auto elim: is_timer_event.elims)

lemma stored_events:
  "sent_packets (map (stored_event mx) s) = map sp_packet (filter (fits mx) s)"
  "released_ids (map (stored_event mx) s) = map sp_packet_id (filter (\<lambda>pv. \<not> fits mx pv) s)"
  by (induction s) (simp_all add: stored_event_def)

lemma new_events_append: "cn_events d = cn_events c @ es \<Longrightarrow> new_events c d = es"
  by (simp add: new_events_def)

lemma send_stored_simps [simp]:
  "cn_events (send_stored c) = cn_events c @ map (stored_event (cn_maximum_packet_size_send c)) (cn_store c)"
  "cn_store (send_stored c) = filter (fits (cn_maximum_packet_size_send c)) (cn_store c)"
  "cn_maximum_packet_size_send (send_stored c) = cn_maximum_packet_size_send c"
  "cn_status (send_stored c) = cn_status c" "cn_role (send_stored c) = cn_role c" "cn_is_client (send_stored c) = cn_is_client c"
  "cn_publish_send_count (send_stored c) = cn_publish_send_count c" "cn_publish_send_max (send_stored c) = cn_publish_send_max c"
  "cn_pid_puback (send_stored c) = cn_pid_puback c" "cn_pid_pubrec (send_stored c) = cn_pid_pubrec c"
  "cn_qos2_publish_handled (send_stored c) = cn_qos2_publish_handled c"
  "cn_pingreq_send_interval_ms (send_stored c) = cn_pingreq_send_interval_ms c"
  by (simp_all add: send_stored_eq Let_def)

lemma clear_session_simps [simp]:
  "cn_events (clear_session c) = cn_events c" "cn_store (clear_session c) = []"
  "cn_pid_man (clear_session c) = clear_ids (cn_pid_man c)" "cn_pid_puback (clear_session c) = {}"
  "cn_pid_pubrec (clear_session c) = {}" "cn_pid_pubcomp (clear_session c) = {}"
  "cn_maximum_packet_size_send (clear_session c) = cn_maximum_packet_size_send c"
  "cn_qos2_publish_handled (clear_session c) = cn_qos2_publish_handled c" "cn_status (clear_session c) = cn_status c"
  by (simp_all add: clear_session_def clear_publish_pids_def store_clear_def)

text \<open>The properties of a CONNACK change limits and the keep alive timer only.\<close>

definition only_limits :: "connection \<Rightarrow> connection \<Rightarrow> bool" where
  "only_limits c d \<longleftrightarrow> only_timers c d \<and> cn_store d = cn_store c \<and> cn_status d = cn_status c \<and>
     cn_pid_puback d = cn_pid_puback c \<and> cn_pid_pubrec d = cn_pid_pubrec c \<and> cn_pid_man d = cn_pid_man c \<and>
     cn_publish_send_count d = cn_publish_send_count c \<and> cn_qos2_publish_handled d = cn_qos2_publish_handled c"

lemma only_limits_fold:
  assumes "\<And>x c. only_limits c (f x c)"
  shows "only_limits c (fold f xs c)"
proof (induction xs arbitrary: c)
  case (Cons x xs)
  from Cons [of "f x c"] assms [of c x] show ?case
    by (auto simp: only_limits_def intro: only_timers_trans)
qed (simp add: only_limits_def only_timers_refl)

lemma connack_properties_only:
  "only_limits c (server_keep_alive_property prop (send_limit_property prop c))"
  by (auto simp: only_limits_def server_keep_alive_property_def send_limit_property_def set_pingreq_send_interval_def
      emit_def intro!: only_timersI)

text \<open>An accepting CONNACK, with its session present flag.\<close>

fun accepting_connack :: "packet_variant \<Rightarrow> bool option" where
  "accepting_connack (V3_connack p) = (if v3_connack_code p = 0 then Some (v3_connack_session_present p) else None)"
| "accepting_connack (V5_connack p) = (if ca5_reason_code p = 0 then Some (v5_connack_session_present p) else None)"
| "accepting_connack _ = None"

lemma recv_accepting_connack:
  assumes "recv_packet p c = Inr d" and "accepting_connack p = Some present"
  obtains e where "only_limits (c\<lparr>cn_status := Connected\<rparr>) e" and "d = emit (On_receive p) (resume_or_clear present e)"
proof (cases p)
  case (V3_connack q)
  with assms that [of "c\<lparr>cn_status := Connected\<rparr>"] show ?thesis
    by (auto simp: recv_v3_connack_def only_limits_def only_timers_refl split: if_splits)
next
  case (V5_connack q)
  let ?e = "fold (\<lambda>prop c. server_keep_alive_property prop (send_limit_property prop c)) (ca5_props q) (c\<lparr>cn_status := Connected\<rparr>)"
  have "only_limits (c\<lparr>cn_status := Connected\<rparr>) ?e" by (rule only_limits_fold, rule connack_properties_only)
  with assms V5_connack that [of ?e] show ?thesis by (simp add: recv_v5_connack_def split: if_splits)
qed (use assms in auto)

lemma only_limits_events:
  "only_limits c d \<Longrightarrow> \<exists>es. cn_events d = cn_events c @ es \<and> list_all is_timer_event es"
  by (auto simp: only_limits_def only_timers_def)

text \<open>
  C19. A session is resumed as a whole. When a client receives an accepting CONNACK and the server
  still has the session, every stored packet that the server accepts by its size is handed over
  again, each once and in the order in which they were stored, before the CONNACK is delivered,
  and stays stored; the others are dropped and their identifiers given back. When the server has
  no session, nothing is sent, the store is emptied and every identifier is free again.
\<close>

theorem session_resumed:
  assumes "recv_packet p c = Inr d" and "accepting_connack p = Some present"
  shows "cn_status d = Connected \<and>
    (let es = new_events c d; ok = fits (cn_maximum_packet_size_send d) in
     last es = On_receive p \<and>
     (if present
      then sent_packets es = map sp_packet (filter ok (cn_store c)) \<and>
           released_ids es = map sp_packet_id (filter (\<lambda>pv. \<not> ok pv) (cn_store c)) \<and>
           cn_store d = filter ok (cn_store c)
      else sent_packets es = [] \<and> released_ids es = [] \<and> cn_store d = [] \<and> cn_pid_man d = clear_ids (cn_pid_man c) \<and>
           cn_pid_puback d = {} \<and> cn_pid_pubrec d = {} \<and> cn_pid_pubcomp d = {}))"
proof -
  from recv_accepting_connack [OF assms] obtain e where
    e: "only_limits (c\<lparr>cn_status := Connected\<rparr>) e" and d: "d = emit (On_receive p) (resume_or_clear present e)" .
  from only_limits_events [OF e] obtain es where es: "cn_events e = cn_events c @ es" "list_all is_timer_event es" by auto
  have same: "cn_status e = Connected" "cn_store e = cn_store c" "cn_pid_man e = cn_pid_man c"
    using e by (simp_all add: only_limits_def)
  have "new_events c d = es @ (if present then map (stored_event (cn_maximum_packet_size_send e)) (cn_store c) else []) @ [On_receive p]"
    by (rule new_events_append) (simp add: d resume_or_clear_def emit_events es same)
  with same timer_events_silent [OF es(2)] show ?thesis
    by (simp add: d resume_or_clear_def Let_def stored_events emit_def)
qed

text \<open>A client with one stored packet, that waits for the CONNACK.\<close>

definition sample_pubrel :: store_packet_variant where
  "sample_pubrel = \<lparr>sp_res = R_v3_1_1_pubcomp, sp_var = S3_pubrel (make_v3_pubrel 2 7)\<rparr>"

theorem session_resumed_witness:
  "let c = sample_connected\<lparr>cn_status := Connecting, cn_store := [sample_pubrel]\<rparr>; p = V3_connack (make_v3_connack True 0) in
   \<exists>d. recv_packet p c = Inr d \<and> accepting_connack p = Some True \<and>
     sent_packets (new_events c d) = [V3_pubrel (make_v3_pubrel 2 7)] \<and> cn_store d = [sample_pubrel]"
proof -
  let ?c = "sample_connected\<lparr>cn_status := Connecting, cn_store := [sample_pubrel]\<rparr>" and ?p = "V3_connack (make_v3_connack True 0)"
  have a: "accepting_connack ?p = Some True" by code_simp
  obtain d where d: "recv_packet ?p ?c = Inr d" by simp
  then have mx: "cn_maximum_packet_size_send d = packet_size_no_limit"
    using a by (auto simp: recv_v3_connack_def resume_or_clear_def emit_def split: if_splits)
  have "fits packet_size_no_limit sample_pubrel"
    by (simp add: fits_def sp_size_def sp_packet_def sample_pubrel_def packet_size_no_limit_def v3_all_size_def
        make_v3_pubrel_def make_v3_ack_def)
  with session_resumed [OF d a] d a mx show ?thesis
    by (auto simp: Let_def sp_packet_def sample_pubrel_def)
qed

subsection \<open>CONNACK of a server\<close>

lemma connack_stages:
  assumes "is_connack p"
  shows "offline_alias_stage p e = Inr ()" "store_stage p e = Inr (False, None, e)" "v5_publish_stage False p e = Inr (p, e)"
    "ack_stage p None e = (None, e)" "packet_id p = 0"
    "final_stage p None e = Returned True (emit (On_send p None) e)"
  using assms by (cases p; simp add: traits_defs store_stage_def ack_stage_def final_stage_def)+

lemma cancel_timers_simps [simp]:
  "cn_store (cancel_timers c) = cn_store c" "cn_maximum_packet_size_send (cancel_timers c) = cn_maximum_packet_size_send c"
  by (simp_all add: cancel_timers_def Let_def emit_def)

lemma fold_recv_limit_simps [simp]:
  "cn_store (fold recv_limit_property ps c) = cn_store c"
  "cn_maximum_packet_size_send (fold recv_limit_property ps c) = cn_maximum_packet_size_send c"
  "cn_status (fold recv_limit_property ps c) = cn_status c"
  by (induction ps arbitrary: c) (simp_all add: recv_limit_property_def)

lemma send_connack_stage:
  assumes "is_connack p"
  shows "cn_store (send_connect_stage p c) = cn_store c"
    "cn_maximum_packet_size_send (send_connect_stage p c) = cn_maximum_packet_size_send c"
    "cn_status (send_connect_stage p c) = (if accepting_connack p = None then Disconnected else Connected)"
  using assms by (cases p; simp add: traits_defs send_v3_connack_def send_v5_connack_def)+

lemma send_connack_cases:
  assumes "send p c = Inr d" and "is_connack p"
  obtains (checked) "rejected 0 c d"
  | (sent) e es where "e = emit (On_send p None) (send_connect_stage p c)" "list_all is_timer_event es"
      "cn_events d = cn_events (send_stored e) @ es" "cn_store d = cn_store (send_stored e)" "cn_status d = cn_status e"
proof (cases "send_checks p c")
  case (Inl x)
  with assms send_checks_exit [of p c] connack_stages(5) [OF assms(2)] show ?thesis
    by (intro checked) (auto simp: send_def process_send_packet_def split: send_exit.splits)
next
  case (Inr u)
  let ?e = "emit (On_send p None) (send_connect_stage p c)"
  from Inr assms have "d = send_stored ?e \<or>
      (\<exists>ms. d = emit (On_timer_op Timer_reset Pingreq_send (Some ms)) ((send_stored ?e)\<lparr>cn_pingreq_send_set := True\<rparr>))"
    by (auto simp: send_def process_send_packet_def connack_stages Let_def split: if_splits option.splits)
  then show ?thesis
    by (elim disjE exE) (rule sent [OF refl, of "[]"], simp_all, rule sent [OF refl], simp_all add: emit_def)
qed

text \<open>
  What follows a CONNACK. A CONNACK that \<^verbatim>\<open>send\<close> does not reject is handed over first, then every
  stored packet that the client accepts by its size, in order; the status is connected after an
  accepting CONNACK and disconnected after a refusing one. The stored packets follow whatever
  the CONNACK says: also when it denies that there is a session, and even when it refuses the
  connection, although nothing may be sent then.
\<close>

theorem connack_sends_stored:
  assumes "send p c = Inr d" and "is_connack p" and "\<not> rejected 0 c d"
  shows "sent_packets (new_events c d) = p # map sp_packet (filter (fits (cn_maximum_packet_size_send c)) (cn_store c)) \<and>
    cn_store d = filter (fits (cn_maximum_packet_size_send c)) (cn_store c) \<and>
    cn_status d = (if accepting_connack p = None then Disconnected else Connected)"
  using assms(1,2)
proof (cases rule: send_connack_cases)
  case (sent e es)
  from send_connect_stage_only [of c p] obtain fs where
    fs: "cn_events (send_connect_stage p c) = cn_events c @ fs" "list_all is_timer_event fs" by (auto simp: only_timers_def)
  have "new_events c d = fs @ On_send p None # map (stored_event (cn_maximum_packet_size_send c)) (cn_store c) @ es"
    by (rule new_events_append) (simp add: sent fs emit_events, simp add: emit_def send_connack_stage [OF assms(2)])
  with sent timer_events_silent [OF sent(2)] timer_events_silent [OF fs(2)] show ?thesis
    by (simp add: stored_events emit_def send_connack_stage [OF assms(2)])
qed (use assms(3) in simp)

theorem connack_sends_stored_witness:
  "let c = sample_connected\<lparr>cn_role := Server, cn_status := Connecting, cn_store := [sample_pubrel]\<rparr>;
       p = V3_connack (make_v3_connack False 5) in
   \<exists>d. send p c = Inr d \<and> \<not> rejected 0 c d \<and> accepting_connack p = None \<and>
     sent_packets (new_events c d) = [p, V3_pubrel (make_v3_pubrel 2 7)] \<and> cn_status d = Disconnected"
proof -
  let ?c = "sample_connected\<lparr>cn_role := Server, cn_status := Connecting, cn_store := [sample_pubrel]\<rparr>"
    and ?p = "V3_connack (make_v3_connack False 5)"
  have ca: "accepting_connack ?p = None" by code_simp
  have f: "fits packet_size_no_limit sample_pubrel"
    by (simp add: fits_def sp_size_def sp_packet_def sample_pubrel_def packet_size_no_limit_def v3_all_size_def
        make_v3_pubrel_def make_v3_ack_def)
  have chk: "send_checks ?p ?c = Inr ()"
    by (simp add: send_eval packet_size_no_limit_def v3_all_size_def make_v3_connack_def)
  have k: "is_connack ?p" by (simp add: traits_defs)
  obtain d where d: "send ?p ?c = Inr d"
    by (simp add: send_def process_send_packet_def chk connack_stages [OF k] k Let_def del: send_connect_stage.simps)
  have "\<not> rejected 0 ?c d"
  proof
    assume "rejected 0 ?c d"
    then have "cn_status d = Connecting" by (simp add: rejected_def)
    moreover have "cn_status d = Disconnected"
      using d k ca by (auto simp: send_def process_send_packet_def chk connack_stages [OF k] Let_def send_connack_stage [OF k] emit_def
          simp del: send_connect_stage.simps split: if_splits option.splits)
    ultimately show False by simp
  qed
  with connack_sends_stored [OF d k] d f ca show ?thesis
    by (auto simp: Let_def sp_packet_def sample_pubrel_def)
qed

subsection \<open>Starting afresh\<close>

fun clean_connect :: "packet_variant \<Rightarrow> bool" where
  "clean_connect (V3_connect p) \<longleftrightarrow> v3_connect_clean_session p"
| "clean_connect (V5_connect p) \<longleftrightarrow> v5_connect_clean_start p"
| "clean_connect _ \<longleftrightarrow> False"

lemma undelivered_deliveries:
  "undelivered pid c d \<Longrightarrow> deliveries pid (new_events c d) = 0"
  by (auto simp: undelivered_def deliveries_def new_events_def)

text \<open>
  A clean session is not quite clean. A client that asks for a clean session, and whose server
  confirms that it has none, empties its store and frees its identifiers, but keeps the set of
  QoS 2 identifiers it has received before. The first QoS 2 PUBLISH of the new session whose
  identifier is in that set is taken for a retransmission: it is not delivered.
\<close>

theorem clean_session_keeps_qos2_ids:
  assumes "send p c = Inr c1" and "clean_connect p"
    and "recv_packet k c1 = Inr c2" and "accepting_connack k = Some False"
    and "recv_packet q c2 = Inr d" and "qos2_id q = Some pid" and "pid \<in> cn_qos2_publish_handled c"
  shows "cn_store c2 = [] \<and> cn_pid_puback c2 = {} \<and> cn_pid_pubrec c2 = {} \<and>
    pid \<in> cn_qos2_publish_handled c2 \<and> deliveries pid (new_events c2 d) = 0"
proof -
  have "unhandled_by p = {}" using assms(2) by (cases p) simp_all
  then have 1: "undelivered pid c c1" using once.R_send [OF assms(1), of pid c] undelivered_refl by simp
  have "qos2_id k = None" "\<not> is_pubrel_of pid (On_receive k)" using assms(4) by (cases k; simp)+
  then have 2: "undelivered pid c1 c2"
    using recv_packet_undelivered [OF assms(3), of pid c1] undelivered_refl by simp
  from 1 2 assms(7) have h: "pid \<in> cn_qos2_publish_handled c2" by (simp add: undelivered_def)
  moreover have "\<not> is_pubrel_of pid (On_receive q)" using assms(6) by (cases q) simp_all
  ultimately have "undelivered pid c2 d"
    using recv_packet_undelivered [OF assms(5), of pid c2] undelivered_refl by simp
  moreover obtain e where "c2 = emit (On_receive k) (resume_or_clear False e)"
    using recv_accepting_connack [OF assms(3,4)] by metis
  then have "cn_store c2 = []" "cn_pid_puback c2 = {}" "cn_pid_pubrec c2 = {}"
    by (simp_all add: resume_or_clear_def, simp_all add: emit_def)
  ultimately show ?thesis using h by (simp add: undelivered_deliveries)
qed

definition sample_connect :: v3_connect where
  "sample_connect = \<lparr>c3_fixed_header = 0x10, c3_connect_flags = 2, c3_remaining_length = 12, c3_remaining_length_buf = [12],
     c3_protocol_name_and_level = protocol_name_and_level 4, c3_client_id = [], c3_client_id_length_buf = [0, 0],
     c3_will_topic = [], c3_will_topic_length_buf = [], c3_will_message = [], c3_will_message_length_buf = [],
     c3_user_name = [], c3_user_name_length_buf = [], c3_password = [], c3_password_length_buf = [],
     c3_keep_alive_buf = [0, 0]\<rparr>"

lemma sample_connect_clean: "v3_connect_clean_session sample_connect" "v3_connect_keep_alive sample_connect = 0"
  by code_simp (simp add: v3_connect_keep_alive_def sample_connect_def endian_load_def)

theorem clean_session_keeps_qos2_ids_witness:
  "\<exists>c1 c2 d. send (V3_connect sample_connect) (sample_connected\<lparr>cn_status := Disconnected, cn_qos2_publish_handled := {1}\<rparr>) = Inr c1 \<and>
     recv_packet (V3_connack (make_v3_connack False 0)) c1 = Inr c2 \<and> cn_status c2 = Connected \<and>
     recv_packet (V3_publish sample_qos2) c2 = Inr d \<and> 1 \<in> cn_qos2_publish_handled c2 \<and> deliveries 1 (new_events c2 d) = 0"
proof -
  let ?k = "V3_connack (make_v3_connack False 0)" and ?q = "V3_publish sample_qos2"
  define c where "c = sample_connected\<lparr>cn_status := Disconnected, cn_qos2_publish_handled := {1}\<rparr>"
  define e where "e = send_v3_connect sample_connect c"
  have c: "send_checks (V3_connect sample_connect) c = Inr ()" "cn_qos2_publish_handled c = {1}"
    by (simp_all add: c_def send_eval packet_size_no_limit_def v3_connect_size_def sample_connect_def)
  have e: "cn_role e = Client" "cn_pid_bytes e = 2" "cn_protocol_version e = V3_1_1" "cn_qos2_publish_handled e = {1}"
      "cn_maximum_packet_size_send e = packet_size_no_limit" "cn_pingreq_send_interval_ms e = None" "cn_is_client e"
      "cn_pingreq_recv_timeout_ms e = None" "cn_auto_pub_response e = False" "cn_store e = []" "cn_status e = Connecting"
    by (simp_all add: e_def c_def send_v3_connect_def connection_initialize_def sample_connect_clean set_send_interval_if_unset_def
        clear_session_def clear_publish_pids_def store_clear_def Let_def)
  let ?c1 = "emit (On_send (V3_connect sample_connect) None) e"
  have 1: "send (V3_connect sample_connect) c = Inr ?c1"
    by (simp add: send_def process_send_packet_def c(1) e_def [symmetric] store_stage_def ack_stage_def final_stage_def traits_defs Let_def)
       (simp add: e emit_def)
  have ac: "accepting_connack ?k = Some False" by code_simp
  let ?c2 = "emit (On_receive ?k) (clear_session (?c1\<lparr>cn_status := Connected\<rparr>))"
  have "v3_connack_code (make_v3_connack False 0) = 0" "\<not> v3_connack_session_present (make_v3_connack False 0)" by code_simp+
  then have 2: "recv_packet ?k ?c1 = Inr ?c2" by (simp add: recv_v3_connack_def resume_or_clear_def)
  have "\<exists>d. recv_packet ?q ?c2 = Inr d"
    by (simp add: recv_v3_publish_def sample_qos2_values send_eval emit_def clear_session_def clear_publish_pids_def e
        packet_size_no_limit_def v3_all_size_def make_v3_pubrec_def make_v3_ack_def)
  then obtain d where 3: "recv_packet ?q ?c2 = Inr d" by blast
  from clean_session_keeps_qos2_ids [OF 1 _ 2 ac 3, of 1] sample_connect_clean sample_qos2_values c(2)
  have "1 \<in> cn_qos2_publish_handled ?c2 \<and> deliveries 1 (new_events ?c2 d) = 0" by simp
  moreover have "cn_status ?c2 = Connected" by (simp add: emit_def)
  ultimately show ?thesis using 1 2 3 unfolding c_def by blast
qed

subsection \<open>A CONNECT that cannot be read\<close>

lemma undetermined_not_sent:
  "cn_protocol_version c = Undetermined \<Longrightarrow> is_connack p \<Longrightarrow> send p c = Inr (emit (On_error packet_not_allowed_to_send) c)"
  by (auto simp: send_def process_send_packet_def send_checks_def return_error_def version_check_def)

text \<open>
  A server that leaves the protocol version open never answers a CONNECT it cannot read. The
  CONNACK with the reason is refused by the engine's own check of the version, which is not
  determined yet: the owner sees two errors, nothing is sent and the connection is not closed.
  It is left in the state connecting, in which even a proper CONNECT is out of turn.
\<close>

theorem malformed_connect_unanswered:
  assumes "buffer_to_basic_packet_variant (cn_pid_bytes c) buf (cn_protocol_version c) = Inl (Ec ec)"
    and "ec_category ec = Cat_connect_reason_code" and "length buf \<le> cn_maximum_packet_size_recv c"
    and "cn_protocol_version c = Undetermined" and "cn_status c = Disconnected"
  shows "\<exists>d. process_recv_buffer buf c = Inr d \<and>
    new_events c d = [On_error packet_not_allowed_to_send, On_error (connect_err (ec_value ec))] \<and>
    cn_status d = Connecting \<and> (\<forall>p. is_connect p \<longrightarrow> \<not> protocol_satisfied p d)"
proof -
  let ?d = "emit (On_error (connect_err (ec_value ec))) (emit (On_error packet_not_allowed_to_send) (c\<lparr>cn_status := Connecting\<rparr>))"
  have "send (V3_connack x) (c\<lparr>cn_status := Connecting\<rparr>) = Inr (emit (On_error packet_not_allowed_to_send) (c\<lparr>cn_status := Connecting\<rparr>))" for x
    by (rule undetermined_not_sent) (simp_all add: assms(4) traits_defs)
  with assms have "process_recv_buffer buf c = Inr ?d"
    by (simp add: process_recv_buffer_def recv_error_def Let_def)
  moreover have "new_events c ?d = [On_error packet_not_allowed_to_send, On_error (connect_err (ec_value ec))]"
    by (rule new_events_append) (simp add: emit_def)
  ultimately show ?thesis by (auto simp: emit_def protocol_satisfied_def)
qed

theorem malformed_connect_unanswered_witness:
  "let c = (connection_init Server 2 Undetermined); buf = [0x10, 12, 0, 4, 0x4D, 0x51, 0x54, 0x54, 6, 2, 0, 0, 0, 0] in
   buffer_to_basic_packet_variant 2 buf Undetermined = Inl (Ec (connect_err 0x84)) \<and>
   (\<exists>d. process_recv_buffer buf c = Inr d \<and> cn_status d = Connecting \<and>
     new_events c d = [On_error packet_not_allowed_to_send, On_error (connect_err 0x84)])"
proof -
  let ?c = "connection_init Server 2 Undetermined" and ?buf = "[0x10, 12, 0, 4, 0x4D, 0x51, 0x54, 0x54, 6, 2, 0, 0, 0, 0] :: bytes"
  have "get_protocol_version ?buf = Some (Other_version 6)"
    by (simp add: get_protocol_version_def insert_advance_variable_length_def variable_bytes_to_val_def protocol_version_of_def Let_def)
  moreover have "get_control_packet_type (0x10 :: byte) = Some Cpt_connect" by code_simp
  ultimately have b: "buffer_to_basic_packet_variant 2 ?buf Undetermined = Inl (Ec (connect_err 0x84))"
    by (simp add: buffer_to_basic_packet_variant_def connect_unsupported_protocol_version_def)
  with malformed_connect_unanswered [of ?c ?buf "connect_err 0x84"] show ?thesis
    by (auto simp: Let_def connection_init_def packet_size_no_limit_def)
qed

end
