(* ===== verification/End_To_End.thy ===== *)
theory End_To_End
  imports Connection_Session
begin

text \<open>
  Two engines and the bytes under way between them: whatever one hands over is appended to the
  stream of the other. The exchanges of QoS 1 and QoS 2 in MQTT 3.1.1, from \<^verbatim>\<open>send\<close> to the last
  response.
\<close>

subsection \<open>The network\<close>

record network =
  net_a :: connection
  net_b :: connection
  to_a :: bytes
  to_b :: bytes

definition outgoing :: "connection \<Rightarrow> connection \<Rightarrow> bytes" where
  "outgoing c d = concat (map wire (sent_packets (new_events c d)))"

text \<open>One call of \<^verbatim>\<open>recv\<close>, at a side with bytes to read.\<close>

definition deliver :: "network \<Rightarrow> failure + network" where
  "deliver s =
     (if to_b s \<noteq> [] then
        bindE (recv (to_b s) (net_b s)) (\<lambda>(b, rest).
        Inr (s\<lparr>net_b := b, to_b := rest, to_a := to_a s @ outgoing (net_b s) b\<rparr>))
      else if to_a s \<noteq> [] then
        bindE (recv (to_a s) (net_a s)) (\<lambda>(a, rest).
        Inr (s\<lparr>net_a := a, to_a := rest, to_b := to_b s @ outgoing (net_a s) a\<rparr>))
      else Inr s)"

primrec settle :: "nat \<Rightarrow> network \<Rightarrow> failure + network" where
  "settle 0 s = Inr s"
| "settle (Suc k) s = bindE (deliver s) (settle k)"

lemma bindE_Inr_right: "bindE m Inr = m"
  by (cases m) simp_all

lemma settle_2: "settle 2 s = bindE (deliver s) deliver"
  by (simp add: numeral_2_eq_2 bindE_Inr_right bindE_def split: sum.splits)

lemma settle_4: "settle 4 s = bindE (settle 2 s) (settle 2)"
  by (simp add: settle_2 numeral_Bit0 bindE_def split: sum.splits)

subsection \<open>What a step leaves unchanged\<close>

text \<open>
  The state after a call up to its events and the flags of the keep alive timers, with the
  events that are no timer operations.
\<close>

definition moves :: "event list \<Rightarrow> connection \<Rightarrow> connection \<Rightarrow> bool" where
  "moves es c d \<longleftrightarrow> (\<exists>fs b1 b2. d = c\<lparr>cn_events := cn_events c @ fs, cn_pingreq_send_set := b1, cn_pingreq_recv_set := b2\<rparr> \<and>
     filter (\<lambda>e. \<not> is_timer_event e) fs = es)"

lemma movesI:
  "d = c\<lparr>cn_events := cn_events c @ fs, cn_pingreq_send_set := b1, cn_pingreq_recv_set := b2\<rparr> \<Longrightarrow>
   filter (\<lambda>e. \<not> is_timer_event e) fs = es \<Longrightarrow> moves es c d"
  unfolding moves_def by blast

lemma movesE:
  assumes "moves es c d"
  obtains fs b1 b2 where "d = c\<lparr>cn_events := cn_events c @ fs, cn_pingreq_send_set := b1, cn_pingreq_recv_set := b2\<rparr>"
    and "filter (\<lambda>e. \<not> is_timer_event e) fs = es"
  using assms unfolding moves_def by blast

lemma moves_refl: "moves [] c c"
  by (rule movesI [where fs = "[]" and ?b1.0 = "cn_pingreq_send_set c" and ?b2.0 = "cn_pingreq_recv_set c"]) simp_all

lemma moves_emit:
  assumes "moves es c d" and "\<not> is_timer_event e"
  shows "moves (es @ [e]) c (emit e d)"
proof -
  from assms(1) obtain fs b1 b2 where d: "d = c\<lparr>cn_events := cn_events c @ fs, cn_pingreq_send_set := b1, cn_pingreq_recv_set := b2\<rparr>"
    "filter (\<lambda>e. \<not> is_timer_event e) fs = es" by (rule movesE)
  show ?thesis by (rule movesI [where fs = "fs @ [e]" and ?b1.0 = b1 and ?b2.0 = b2]) (simp_all add: d(1) d(2) [symmetric] emit_def assms(2))
qed

lemma moves_timer:
  assumes "moves es c d"
  shows "moves es c (emit (On_timer_op op Pingreq_recv ms) (d\<lparr>cn_pingreq_recv_set := b\<rparr>))"
    and "moves es c (emit (On_timer_op op Pingreq_send ms) (d\<lparr>cn_pingreq_send_set := b\<rparr>))"
proof -
  from assms obtain fs b1 b2 where d: "d = c\<lparr>cn_events := cn_events c @ fs, cn_pingreq_send_set := b1, cn_pingreq_recv_set := b2\<rparr>"
    "filter (\<lambda>e. \<not> is_timer_event e) fs = es" by (rule movesE)
  show "moves es c (emit (On_timer_op op Pingreq_recv ms) (d\<lparr>cn_pingreq_recv_set := b\<rparr>))"
    by (rule movesI [where fs = "fs @ [On_timer_op op Pingreq_recv ms]" and ?b1.0 = b1 and ?b2.0 = b])
       (simp_all add: d(1) d(2) [symmetric] emit_def)
  show "moves es c (emit (On_timer_op op Pingreq_send ms) (d\<lparr>cn_pingreq_send_set := b\<rparr>))"
    by (rule movesI [where fs = "fs @ [On_timer_op op Pingreq_send ms]" and ?b1.0 = b and ?b2.0 = b2])
       (simp_all add: d(1) d(2) [symmetric] emit_def)
qed

lemma moves_received: "moves es c d \<Longrightarrow> moves (es @ [On_receive p]) c (received p d)"
  unfolding received_def
  by (rule moves_emit) (auto simp: pingreq_recv_op_def intro: moves_timer split: option.splits)

lemma moves_sel:
  assumes "moves es c d"
  shows "cn_role d = cn_role c" "cn_pid_bytes d = cn_pid_bytes c" "cn_protocol_version d = cn_protocol_version c"
    "cn_pid_man d = cn_pid_man c" "cn_pid_puback d = cn_pid_puback c" "cn_pid_pubrec d = cn_pid_pubrec c"
    "cn_pid_pubcomp d = cn_pid_pubcomp c" "cn_need_store d = cn_need_store c" "cn_store d = cn_store c"
    "cn_auto_pub_response d = cn_auto_pub_response c" "cn_status d = cn_status c"
    "cn_maximum_packet_size_send d = cn_maximum_packet_size_send c" "cn_maximum_packet_size_recv d = cn_maximum_packet_size_recv c"
    "cn_qos2_publish_handled d = cn_qos2_publish_handled c" "cn_qos2_publish_processing d = cn_qos2_publish_processing c"
    "cn_rpb d = cn_rpb c" "cn_is_client d = cn_is_client c" "cn_offline_publish d = cn_offline_publish c"
  using assms by (elim movesE, simp)+

lemma sent_packets_filter: "sent_packets (filter (\<lambda>e. \<not> is_timer_event e) fs) = sent_packets fs"
  by (induction fs) (auto elim: is_timer_event.elims)

lemma moves_outgoing:
  assumes "moves es c d"
  shows "outgoing c d = concat (map wire (sent_packets es))"
proof -
  from assms obtain fs b1 b2 where d: "d = c\<lparr>cn_events := cn_events c @ fs, cn_pingreq_send_set := b1, cn_pingreq_recv_set := b2\<rparr>"
    "filter (\<lambda>e. \<not> is_timer_event e) fs = es" by (rule movesE)
  show ?thesis by (simp add: d(1) d(2) [symmetric] outgoing_def new_events_def sent_packets_filter)
qed

lemma moves_reports: "moves es c d \<Longrightarrow> reports c d = es"
  by (elim movesE) (simp add: reports_def new_events_def)

subsection \<open>A live connection\<close>

text \<open>Connected, between two packets, with room for the packets of an exchange of \<open>n\<close> bytes at most.\<close>

definition live :: "nat \<Rightarrow> connection \<Rightarrow> bool" where
  "live n c \<longleftrightarrow> cn_status c = Connected \<and> cn_protocol_version c = V3_1_1 \<and> cn_rpb c = rpb_init \<and> cn_pid_bytes c = 2 \<and>
     cn_auto_pub_response c \<and> n \<le> cn_maximum_packet_size_send c \<and> n \<le> cn_maximum_packet_size_recv c"

lemma moves_live: "moves es c d \<Longrightarrow> live n d = live n c"
  by (simp add: live_def moves_sel)

fun v3_response :: "packet_variant \<Rightarrow> bool" where
  "v3_response (V3_puback a) \<longleftrightarrow> length a = 4"
| "v3_response (V3_pubrec a) \<longleftrightarrow> length a = 4"
| "v3_response (V3_pubrel a) \<longleftrightarrow> length a = 4"
| "v3_response (V3_pubcomp a) \<longleftrightarrow> length a = 4"
| "v3_response _ \<longleftrightarrow> False"

lemma send_moves:
  assumes "process_send_packet p c = Inr (True, emit (On_send p rel) e)" and "\<not> is_connack p"
  shows "\<exists>d. send p c = Inr d \<and> moves [On_send p rel] e d"
proof -
  have m: "moves [On_send p rel] e (emit (On_send p rel) e)" using moves_emit [OF moves_refl, of "On_send p rel"] by simp
  with assms show ?thesis by (auto simp: send_def Let_def split: option.splits intro: moves_timer)
qed

lemma role_any: "can_send_as_client r \<or> can_send_as_server r"
  by (cases r) (simp_all add: can_send_as_client_def can_send_as_server_def)

lemma send_response:
  assumes "live n c" and "4 \<le> n" and "v3_response p"
  shows "\<exists>d. send p c = Inr d \<and> moves [On_send p None] (snd (ack_stage p None c)) d"
proof (rule send_moves)
  have "send_checks p c = Inr ()" "send_connect_stage p c = c" "offline_alias_stage p c = Inr ()"
    "store_stage p c = Inr (False, None, c)" "v5_publish_stage False p c = Inr (p, c)"
    "fst (ack_stage p None c) = None" "final_stage p None x = Returned True (emit (On_send p None) x)" "\<not> is_connack p" for x
    using assms role_any [of "cn_role c"]
    by (cases p; simp add: live_def send_checks_def role_check_def status_check_def version_check_def traits_defs
        validate_maximum_packet_size_def v3_all_size_def store_stage_def ack_stage_def final_stage_def)+
  then show "process_send_packet p c = Inr (True, emit (On_send p None) (snd (ack_stage p None c)))" "\<not> is_connack p"
    by (simp_all add: process_send_packet_def Let_def case_prod_beta)
qed

subsection \<open>The steps of an exchange\<close>

lemma recv_live:
  assumes "live n c" and "packet_variant_ok p" and "packet_variant_size p \<le> n" and "packet_version p = V3_1_1"
    and "\<not> is_connect p" and "\<not> is_connack p" and "\<not> is_auth p" and "recv_packet (packet_received p) c = Inr d"
  shows "recv (wire p @ rest) c = Inr (d, rest)"
proof -
  have "ready_for p c" using assms(1,3,4) by (simp add: live_def ready_for_def)
  moreover have "protocol_satisfied (packet_received p) c"
    using assms(1,5-7) by (cases p) (simp_all add: protocol_satisfied_def live_def traits_defs)
  ultimately show ?thesis using recv_wire [OF assms(2), of c rest] assms(8) by simp
qed

lemma wire_not_empty: "packet_variant_ok p \<Longrightarrow> wire p \<noteq> []"
  unfolding wire_def using packet_header [of p] by (metis list.distinct(1))

definition stored_publish :: "v3_publish \<Rightarrow> connection \<Rightarrow> connection" where
  "stored_publish p c = (if cn_need_store c then add_to_store (V3_publish (v3_publish_set_dup True p)) c else c)"

lemma send_qos12:
  assumes "live n c" and "v3_publish_size p \<le> n" and "qos_1_or_2 (opts_get_qos (v3_publish_opts p))"
    and "is_used_id (v3_publish_packet_id p) (cn_pid_man c)"
  shows "\<exists>d rel. send (V3_publish p) c = Inr d \<and> moves [On_send (V3_publish p) rel]
    (let i = v3_publish_packet_id p; e = stored_publish p c in
     if opts_get_qos (v3_publish_opts p) = exactly_once
     then e\<lparr>cn_qos2_publish_processing := insert i (cn_qos2_publish_processing c), cn_pid_pubrec := insert i (cn_pid_pubrec c)\<rparr>
     else e\<lparr>cn_pid_puback := insert i (cn_pid_puback c)\<rparr>) d"
proof -
  have chk: "send_checks (V3_publish p) c = Inr ()" "status_check (V3_publish p) c"
    using assms(1,2) role_any [of "cn_role c"]
    by (simp_all add: live_def send_checks_def role_check_def status_check_def version_check_def traits_defs
        validate_maximum_packet_size_def)
  let ?e = "let i = v3_publish_packet_id p; e = stored_publish p c in
     if opts_get_qos (v3_publish_opts p) = exactly_once
     then e\<lparr>cn_qos2_publish_processing := insert i (cn_qos2_publish_processing c), cn_pid_pubrec := insert i (cn_pid_pubrec c)\<rparr>
     else e\<lparr>cn_pid_puback := insert i (cn_pid_puback c)\<rparr>"
  let ?rel = "if cn_need_store c then None else Some (v3_publish_packet_id p)"
  have "process_send_packet (V3_publish p) c = Inr (True, emit (On_send (V3_publish p) ?rel) ?e)"
    using assms chk
    by (auto simp: process_send_packet_def store_stage_def traits_defs live_def ack_stage_def final_stage_def stored_publish_def
        add_to_store_def Let_def)
  from send_moves [OF this] show ?thesis by (auto simp: traits_defs)
qed

lemma v3_ack_made:
  "length (make_v3_puback 2 i) = 4" "length (make_v3_pubrec 2 i) = 4" "length (make_v3_pubrel 2 i) = 4" "length (make_v3_pubcomp 2 i) = 4"
  "i < 65536 \<Longrightarrow> v3_ack_packet_id (make_v3_puback 2 i) = i" "i < 65536 \<Longrightarrow> v3_ack_packet_id (make_v3_pubrec 2 i) = i"
  "i < 65536 \<Longrightarrow> v3_ack_packet_id (make_v3_pubrel 2 i) = i" "i < 65536 \<Longrightarrow> v3_ack_packet_id (make_v3_pubcomp 2 i) = i"
  "packet_variant_ok (V3_puback (make_v3_puback 2 i))" "packet_variant_ok (V3_pubrec (make_v3_pubrec 2 i))"
  "packet_variant_ok (V3_pubrel (make_v3_pubrel 2 i))" "packet_variant_ok (V3_pubcomp (make_v3_pubcomp 2 i))"
  by (simp_all add: make_v3_puback_def make_v3_pubrec_def make_v3_pubrel_def make_v3_pubcomp_def make_v3_ack_packet_id make_v3_ack_ok)
     (simp_all add: make_v3_ack_def)

lemma publish_received_same:
  "opts_get_qos (v3_publish_opts (v3_publish_received p)) = opts_get_qos (v3_publish_opts p)"
  "v3_publish_packet_id (v3_publish_received p) = v3_publish_packet_id p"
  by (simp_all add: v3_publish_received_def v3_publish_opts_def v3_publish_packet_id_def)

lemma moves_then:
  assumes "moves es c d" and "moves fs d e" shows "moves (es @ fs) c e"
proof -
  from assms(1) obtain gs b1 b2 where d: "d = c\<lparr>cn_events := cn_events c @ gs, cn_pingreq_send_set := b1, cn_pingreq_recv_set := b2\<rparr>"
    "filter (\<lambda>e. \<not> is_timer_event e) gs = es" by (rule movesE)
  from assms(2) obtain hs b3 b4 where e: "e = d\<lparr>cn_events := cn_events d @ hs, cn_pingreq_send_set := b3, cn_pingreq_recv_set := b4\<rparr>"
    "filter (\<lambda>e. \<not> is_timer_event e) hs = fs" by (rule movesE)
  show ?thesis
    by (rule movesI [where fs = "gs @ hs" and ?b1.0 = b3 and ?b2.0 = b4]) (simp_all add: d(1) d(2) [symmetric] e(1) e(2) [symmetric])
qed

text \<open>Receiving a PUBLISH with an automatic response.\<close>

lemma recv_qos1:
  assumes "live n c" and "4 \<le> n" and "opts_get_qos (v3_publish_opts p) = at_least_once"
  shows "\<exists>d. recv_packet (V3_publish p) c = Inr d \<and>
    moves [On_send (V3_puback (make_v3_puback 2 (v3_publish_packet_id p))) None, On_receive (V3_publish p)] c d"
proof -
  let ?a = "V3_puback (make_v3_puback 2 (v3_publish_packet_id p))"
  from send_response [OF assms(1,2), of ?a] obtain d where d: "send ?a c = Inr d" "moves [On_send ?a None] c d"
    by (auto simp: v3_ack_made ack_stage_def traits_defs)
  from d(1) assms have "recv_packet (V3_publish p) c = Inr (received (V3_publish p) d)"
    by (simp add: recv_v3_publish_def auto_response_def live_def)
  with moves_received [OF d(2), of "V3_publish p"] show ?thesis by simp
qed

lemma recv_qos2:
  assumes "live n c" and "4 \<le> n" and "opts_get_qos (v3_publish_opts p) = exactly_once"
    and "v3_publish_packet_id p \<notin> cn_qos2_publish_handled c"
  shows "\<exists>d. recv_packet (V3_publish p) c = Inr d \<and>
    moves [On_send (V3_pubrec (make_v3_pubrec 2 (v3_publish_packet_id p))) None, On_receive (V3_publish p)]
      (c\<lparr>cn_qos2_publish_handled := insert (v3_publish_packet_id p) (cn_qos2_publish_handled c)\<rparr>) d"
proof -
  let ?a = "V3_pubrec (make_v3_pubrec 2 (v3_publish_packet_id p))"
  let ?c = "c\<lparr>cn_qos2_publish_handled := insert (v3_publish_packet_id p) (cn_qos2_publish_handled c)\<rparr>"
  from assms(1) have "live n ?c" by (simp add: live_def)
  from send_response [OF this assms(2), of ?a] obtain d where d: "send ?a ?c = Inr d" "moves [On_send ?a None] ?c d"
    by (auto simp: v3_ack_made ack_stage_def traits_defs)
  from d(1) assms have "recv_packet (V3_publish p) c = Inr (received (V3_publish p) d)"
    by (simp add: recv_v3_publish_def live_def)
  with moves_received [OF d(2), of "V3_publish p"] show ?thesis by auto
qed

text \<open>Receiving the responses.\<close>

lemma recv_puback:
  assumes "live n c" and "v3_ack_packet_id p \<in> cn_pid_puback c"
  shows "\<exists>d. recv_packet (V3_puback p) c = Inr d \<and> moves [On_packet_id_release (v3_ack_packet_id p), On_receive (V3_puback p)]
    ((erase_stored R_v3_1_1_puback (v3_ack_packet_id p) c)\<lparr>cn_pid_puback := cn_pid_puback c - {v3_ack_packet_id p},
       cn_pid_man := release_id 2 (v3_ack_packet_id p) (cn_pid_man c)\<rparr>) d"
proof -
  let ?i = "v3_ack_packet_id p"
  let ?e = "(erase_stored R_v3_1_1_puback ?i c)\<lparr>cn_pid_puback := cn_pid_puback c - {?i}, cn_pid_man := release_id 2 ?i (cn_pid_man c)\<rparr>"
  have "release_and_notify ?i (erase_stored R_v3_1_1_puback ?i (c\<lparr>cn_pid_puback := cn_pid_puback c - {?i}\<rparr>)) =
      emit (On_packet_id_release ?i) ?e"
    using assms(1) by (simp add: release_and_notify_def erase_stored_def live_def emit_def)
  with assms(2) have "recv_packet (V3_puback p) c = Inr (received (V3_puback p) (emit (On_packet_id_release ?i) ?e))"
    by (simp add: recv_v3_puback_def Let_def)
  with moves_received [OF moves_emit [OF moves_refl, of "On_packet_id_release ?i" ?e]] show ?thesis by auto
qed

lemma recv_pubrec:
  assumes "live n c" and "4 \<le> n" and "v3_ack_packet_id p \<in> cn_pid_pubrec c" and "v3_ack_packet_id p < 65536"
  shows "let i = v3_ack_packet_id p; r = V3_pubrel (make_v3_pubrel 2 i) in
    \<exists>d. recv_packet (V3_pubrec p) c = Inr d \<and> moves [On_send r None, On_receive (V3_pubrec p)]
      ((if cn_need_store c then add_to_store r (erase_stored R_v3_1_1_pubrec i c) else erase_stored R_v3_1_1_pubrec i c)
        \<lparr>cn_pid_pubrec := cn_pid_pubrec c - {i}, cn_pid_pubcomp := insert i (cn_pid_pubcomp c)\<rparr>) d"
proof -
  let ?i = "v3_ack_packet_id p" and ?r = "V3_pubrel (make_v3_pubrel 2 (v3_ack_packet_id p))"
  let ?c = "erase_stored R_v3_1_1_pubrec ?i (c\<lparr>cn_pid_pubrec := cn_pid_pubrec c - {?i}\<rparr>)"
  from assms(1) have "live n ?c" by (simp add: live_def erase_stored_def)
  from send_response [OF this assms(2), of ?r] obtain d where
    d: "send ?r ?c = Inr d" "moves [On_send ?r None] (snd (ack_stage ?r None ?c)) d" by (auto simp: v3_ack_made)
  from assms(1,3) d(1) have "recv_packet (V3_pubrec p) c = Inr (received (V3_pubrec p) d)"
    by (simp add: recv_v3_pubrec_def auto_response_def erase_stored_def live_def Let_def)
  moreover have "snd (ack_stage ?r None ?c) =
      (if cn_need_store c then add_to_store ?r (erase_stored R_v3_1_1_pubrec ?i c) else erase_stored R_v3_1_1_pubrec ?i c)
        \<lparr>cn_pid_pubrec := cn_pid_pubrec c - {?i}, cn_pid_pubcomp := insert ?i (cn_pid_pubcomp c)\<rparr>"
    using assms(4) by (simp add: ack_stage_def traits_defs v3_ack_made add_to_store_def erase_stored_def Let_def)
  ultimately show ?thesis using moves_received [OF d(2), of "V3_pubrec p"] by (simp add: Let_def)
qed

lemma recv_pubrel:
  assumes "live n c" and "4 \<le> n"
  shows "\<exists>d. recv_packet (V3_pubrel p) c = Inr d \<and>
    moves [On_send (V3_pubcomp (make_v3_pubcomp 2 (v3_ack_packet_id p))) None, On_receive (V3_pubrel p)]
      (c\<lparr>cn_qos2_publish_handled := cn_qos2_publish_handled c - {v3_ack_packet_id p}\<rparr>) d"
proof -
  let ?a = "V3_pubcomp (make_v3_pubcomp 2 (v3_ack_packet_id p))"
  let ?c = "c\<lparr>cn_qos2_publish_handled := cn_qos2_publish_handled c - {v3_ack_packet_id p}\<rparr>"
  from assms(1) have "live n ?c" by (simp add: live_def)
  from send_response [OF this assms(2), of ?a] obtain d where d: "send ?a ?c = Inr d" "moves [On_send ?a None] ?c d"
    by (auto simp: v3_ack_made ack_stage_def traits_defs)
  from d(1) assms have "recv_packet (V3_pubrel p) c = Inr (received (V3_pubrel p) d)"
    by (simp add: recv_v3_pubrel_def auto_response_def live_def Let_def)
  with moves_received [OF d(2), of "V3_pubrel p"] show ?thesis by auto
qed

lemma recv_pubcomp:
  assumes "live n c" and "v3_ack_packet_id p \<in> cn_pid_pubcomp c"
  shows "\<exists>d. recv_packet (V3_pubcomp p) c = Inr d \<and> moves [On_packet_id_release (v3_ack_packet_id p), On_receive (V3_pubcomp p)]
    ((erase_stored R_v3_1_1_pubcomp (v3_ack_packet_id p) c)\<lparr>cn_pid_pubcomp := cn_pid_pubcomp c - {v3_ack_packet_id p},
       cn_pid_man := release_id 2 (v3_ack_packet_id p) (cn_pid_man c),
       cn_qos2_publish_processing := cn_qos2_publish_processing c - {v3_ack_packet_id p}\<rparr>) d"
proof -
  let ?i = "v3_ack_packet_id p"
  let ?e = "(erase_stored R_v3_1_1_pubcomp ?i c)\<lparr>cn_pid_pubcomp := cn_pid_pubcomp c - {?i},
     cn_pid_man := release_id 2 ?i (cn_pid_man c), cn_qos2_publish_processing := cn_qos2_publish_processing c - {?i}\<rparr>"
  let ?d = "release_and_notify ?i (erase_stored R_v3_1_1_pubcomp ?i (c\<lparr>cn_pid_pubcomp := cn_pid_pubcomp c - {?i}\<rparr>))"
  have "?d\<lparr>cn_qos2_publish_processing := cn_qos2_publish_processing ?d - {?i}\<rparr> = emit (On_packet_id_release ?i) ?e"
    using assms(1) by (simp add: release_and_notify_def erase_stored_def live_def emit_def)
  with assms(2) have "recv_packet (V3_pubcomp p) c = Inr (received (V3_pubcomp p) (emit (On_packet_id_release ?i) ?e))"
    by (simp add: recv_v3_pubcomp_def Let_def)
  with moves_received [OF moves_emit [OF moves_refl, of "On_packet_id_release ?i" ?e]] show ?thesis by auto
qed

subsection \<open>Exchanges\<close>

lemma deliver_to_b:
  assumes "live n b" and "packet_variant_ok p" and "packet_variant_size p \<le> n" and "packet_version p = V3_1_1"
    and "\<not> is_connect p" and "\<not> is_connack p" and "\<not> is_auth p"
    and "recv_packet (packet_received p) b = Inr d" and "moves es b' d" and "cn_events b' = cn_events b"
  shows "deliver \<lparr>net_a = a, net_b = b, to_a = [], to_b = wire p\<rparr> =
    Inr \<lparr>net_a = a, net_b = d, to_a = concat (map wire (sent_packets es)), to_b = []\<rparr>"
proof -
  have "outgoing b d = outgoing b' d" using assms(10) by (simp add: outgoing_def new_events_def)
  with recv_live [OF assms(1-8), of "[]"] wire_not_empty [OF assms(2)] moves_outgoing [OF assms(9)]
  show ?thesis by (simp add: deliver_def)
qed

lemma deliver_to_a:
  assumes "live n a" and "packet_variant_ok p" and "packet_variant_size p \<le> n" and "packet_version p = V3_1_1"
    and "\<not> is_connect p" and "\<not> is_connack p" and "\<not> is_auth p"
    and "recv_packet (packet_received p) a = Inr d" and "moves es a' d" and "cn_events a' = cn_events a"
  shows "deliver \<lparr>net_a = a, net_b = b, to_a = wire p, to_b = []\<rparr> =
    Inr \<lparr>net_a = d, net_b = b, to_a = [], to_b = concat (map wire (sent_packets es))\<rparr>"
proof -
  have "outgoing a d = outgoing a' d" using assms(10) by (simp add: outgoing_def new_events_def)
  with recv_live [OF assms(1-8), of "[]"] wire_not_empty [OF assms(2)] moves_outgoing [OF assms(9)]
  show ?thesis by (simp add: deliver_def)
qed

lemma stored_publish_sel [simp]:
  "cn_events (stored_publish p c) = cn_events c" "live n (stored_publish p c) = live n c"
  "cn_pid_man (stored_publish p c) = cn_pid_man c" "cn_pid_pubcomp (stored_publish p c) = cn_pid_pubcomp c"
  "cn_need_store (stored_publish p c) = cn_need_store c"
  by (simp_all add: stored_publish_def add_to_store_def live_def)

text \<open>What the store holds for an identifier of an exchange that is over: nothing.\<close>

lemma set_dup_same:
  "opts_get_qos (v3_publish_opts (v3_publish_set_dup True p)) = opts_get_qos (v3_publish_opts p)"
  "v3_publish_packet_id (v3_publish_set_dup True p) = v3_publish_packet_id p"
  by (simp_all add: v3_publish_set_dup_def v3_publish_opts_def opts_get_qos_def pub_set_dup_def v3_publish_packet_id_def
      bit.conj_disj_distrib2)

definition without :: "response_packet \<Rightarrow> nat \<Rightarrow> store \<Rightarrow> store" where
  "without r i s = filter (\<lambda>pv. sp_key pv \<noteq> (r, i)) s"

lemma erase_without: "snd (store_erase r i s) = without r i s"
proof (cases "(r, i) \<in> sp_key ` set s")
  case False
  then have "filter (\<lambda>pv. sp_key pv \<noteq> (r, i)) s = s" by (force simp: filter_id_conv)
  with False show ?thesis by (simp add: store_erase_def without_def)
qed (simp add: store_erase_def without_def)

lemma emplace_without: "sp_key pv = (r, i) \<Longrightarrow> without r i (snd (store_emplace_back pv s)) = without r i s"
  by (simp add: store_emplace_back_def without_def)

lemma stored_publish_without:
  assumes "v3_publish_packet_id p = i"
  shows "opts_get_qos (v3_publish_opts p) = at_least_once \<Longrightarrow>
      without R_v3_1_1_puback i (cn_store (stored_publish p c)) = without R_v3_1_1_puback i (cn_store c)"
    and "opts_get_qos (v3_publish_opts p) = exactly_once \<Longrightarrow>
      without R_v3_1_1_pubrec i (cn_store (stored_publish p c)) = without R_v3_1_1_pubrec i (cn_store c)"
  using assms
  by (simp_all add: stored_publish_def add_to_store_def set_dup_same store_add_var_def emplace_without sp_key_def sp_packet_id_def)

lemma stored_pubrel_without:
  "i < 65536 \<Longrightarrow> without R_v3_1_1_pubcomp i (snd (store_add (V3_pubrel (make_v3_pubrel 2 i)) s)) = without R_v3_1_1_pubcomp i s"
  by (simp add: store_add_var_def emplace_without sp_key_def sp_packet_id_def v3_ack_made)

text \<open>
  C36. QoS 1 comes to an end. Let two engines be connected, both live and responding automatically, and
  let the first send a QoS 1 PUBLISH. After two deliveries nothing is under way any more: the
  receiver was given exactly this message and has sent its PUBACK; the sender has been told of
  the response and of the release of the identifier, which is free again, and stores nothing
  for it.
\<close>

theorem qos1_exchange_completes:
  assumes "live n a" and "live n b" and "packet_variant_ok (V3_publish p)" and "v3_publish_size p \<le> n" and "4 \<le> n"
    and "opts_get_qos (v3_publish_opts p) = at_least_once" and "v3_publish_packet_id p = i" and "i < 65536"
    and "is_used_id i (cn_pid_man a)" and "send (V3_publish p) a = Inr a1"
  shows "\<exists>a2 b1. settle 2 \<lparr>net_a = a1, net_b = b, to_a = [], to_b = outgoing a a1\<rparr> =
      Inr \<lparr>net_a = a2, net_b = b1, to_a = [], to_b = []\<rparr> \<and>
    reports b b1 = [On_send (V3_puback (make_v3_puback 2 i)) None, On_receive (V3_publish (v3_publish_received p))] \<and>
    reports a1 a2 = [On_packet_id_release i, On_receive (V3_puback (make_v3_puback 2 i))] \<and>
    cn_pid_man a2 = release_id 2 i (cn_pid_man a) \<and> i \<notin> cn_pid_puback a2 \<and>
    cn_store a2 = without R_v3_1_1_puback i (cn_store a)"
proof -
  let ?ack = "V3_puback (make_v3_puback 2 i)" and ?p = "V3_publish p"
  let ?e = "(stored_publish p a)\<lparr>cn_pid_puback := insert i (cn_pid_puback a)\<rparr>"
  from send_qos12 [OF assms(1,4)] assms obtain rel where m1: "moves [On_send ?p rel] ?e a1"
    by (auto simp: qos_1_or_2_def Let_def)
  have "outgoing a a1 = outgoing ?e a1" by (simp add: outgoing_def new_events_def)
  with moves_outgoing [OF m1] have out: "outgoing a a1 = wire ?p" by simp
  have la: "live n a1" using assms(1) moves_live [OF m1, of n] by (simp add: live_def stored_publish_def add_to_store_def)
  from recv_qos1 [OF assms(2,5), of "v3_publish_received p"] assms(6,7) obtain b1 where
    b1: "recv_packet (packet_received ?p) b = Inr b1"
      "moves [On_send ?ack None, On_receive (V3_publish (v3_publish_received p))] b b1"
    by (auto simp: publish_received_same)
  have 1: "deliver \<lparr>net_a = a1, net_b = b, to_a = [], to_b = wire ?p\<rparr> = Inr \<lparr>net_a = a1, net_b = b1, to_a = wire ?ack, to_b = []\<rparr>"
    using deliver_to_b [OF assms(2,3) _ _ _ _ _ b1(1,2) refl, of a1] assms(4) by (simp add: packet_version_def traits_defs)
  have i: "v3_ack_packet_id (make_v3_puback 2 i) = i" using assms(8) by (rule v3_ack_made)
  have "i \<in> cn_pid_puback a1" by (simp add: moves_sel [OF m1])
  from recv_puback [OF la, of "make_v3_puback 2 i"] this obtain a2 where
    a2: "recv_packet ?ack a1 = Inr a2"
      "moves [On_packet_id_release i, On_receive ?ack]
        ((erase_stored R_v3_1_1_puback i a1)\<lparr>cn_pid_puback := cn_pid_puback a1 - {i}, cn_pid_man := release_id 2 i (cn_pid_man a1)\<rparr>) a2"
    unfolding i by auto
  let ?a2 = "(erase_stored R_v3_1_1_puback i a1)\<lparr>cn_pid_puback := cn_pid_puback a1 - {i}, cn_pid_man := release_id 2 i (cn_pid_man a1)\<rparr>"
  have ev: "cn_events ?a2 = cn_events a1" by (simp add: erase_stored_def)
  have 2: "deliver \<lparr>net_a = a1, net_b = b1, to_a = wire ?ack, to_b = []\<rparr> = Inr \<lparr>net_a = a2, net_b = b1, to_a = [], to_b = []\<rparr>"
    using deliver_to_a [OF la v3_ack_made(9) _ _ _ _ _ _ a2(2) ev, of i b1] a2(1) assms(5)
    by (simp add: packet_version_def traits_defs v3_all_size_def v3_ack_made)
  have "settle 2 \<lparr>net_a = a1, net_b = b, to_a = [], to_b = outgoing a a1\<rparr> = Inr \<lparr>net_a = a2, net_b = b1, to_a = [], to_b = []\<rparr>"
    unfolding out by (simp add: settle_2 1 2)
  moreover have "cn_store a2 = without R_v3_1_1_puback i (cn_store a)"
    using stored_publish_without(1) [OF assms(7,6), of a]
    by (simp add: moves_sel [OF a2(2)] erase_stored_def erase_without moves_sel [OF m1])
  moreover have "reports a1 a2 = [On_packet_id_release i, On_receive ?ack]"
    using moves_reports [OF a2(2)] ev by (simp add: reports_def new_events_def)
  ultimately show ?thesis
    using moves_reports [OF b1(2)] by (auto simp: moves_sel [OF a2(2)] moves_sel [OF m1])
qed

text \<open>The first half of a QoS 2 exchange: PUBLISH and PUBREC.\<close>

lemma qos2_first_half:
  assumes "live n a1" and "live n b" and "packet_variant_ok (V3_publish p)" and "v3_publish_size p \<le> n" and "4 \<le> n"
    and "opts_get_qos (v3_publish_opts p) = exactly_once" and "v3_publish_packet_id p = i" and "i < 65536"
    and "i \<in> cn_pid_pubrec a1" and "i \<notin> cn_qos2_publish_handled b"
  obtains a2 b1 where
    "settle 2 \<lparr>net_a = a1, net_b = b, to_a = [], to_b = wire (V3_publish p)\<rparr> =
       Inr \<lparr>net_a = a2, net_b = b1, to_a = [], to_b = wire (V3_pubrel (make_v3_pubrel 2 i))\<rparr>"
    and "moves [On_send (V3_pubrec (make_v3_pubrec 2 i)) None, On_receive (V3_publish (v3_publish_received p))]
       (b\<lparr>cn_qos2_publish_handled := insert i (cn_qos2_publish_handled b)\<rparr>) b1"
    and "moves [On_send (V3_pubrel (make_v3_pubrel 2 i)) None, On_receive (V3_pubrec (make_v3_pubrec 2 i))]
       ((if cn_need_store a1 then add_to_store (V3_pubrel (make_v3_pubrel 2 i)) (erase_stored R_v3_1_1_pubrec i a1)
         else erase_stored R_v3_1_1_pubrec i a1)
        \<lparr>cn_pid_pubrec := cn_pid_pubrec a1 - {i}, cn_pid_pubcomp := insert i (cn_pid_pubcomp a1)\<rparr>) a2"
proof -
  let ?p = "V3_publish p" and ?rec = "V3_pubrec (make_v3_pubrec 2 i)" and ?rel = "V3_pubrel (make_v3_pubrel 2 i)"
  from recv_qos2 [OF assms(2,5), of "v3_publish_received p"] assms(6,7,10) obtain b1 where
    b1: "recv_packet (packet_received ?p) b = Inr b1"
      "moves [On_send ?rec None, On_receive (V3_publish (v3_publish_received p))]
        (b\<lparr>cn_qos2_publish_handled := insert i (cn_qos2_publish_handled b)\<rparr>) b1"
    by (auto simp: publish_received_same)
  have 1: "deliver \<lparr>net_a = a1, net_b = b, to_a = [], to_b = wire ?p\<rparr> = Inr \<lparr>net_a = a1, net_b = b1, to_a = wire ?rec, to_b = []\<rparr>"
    using deliver_to_b [OF assms(2,3) _ _ _ _ _ b1(1,2), of a1] assms(4) by (simp add: packet_version_def traits_defs)
  have i: "v3_ack_packet_id (make_v3_pubrec 2 i) = i" using assms(8) by (rule v3_ack_made)
  let ?e = "(if cn_need_store a1 then add_to_store ?rel (erase_stored R_v3_1_1_pubrec i a1) else erase_stored R_v3_1_1_pubrec i a1)
        \<lparr>cn_pid_pubrec := cn_pid_pubrec a1 - {i}, cn_pid_pubcomp := insert i (cn_pid_pubcomp a1)\<rparr>"
  from recv_pubrec [OF assms(1,5), of "make_v3_pubrec 2 i"] assms(8,9) obtain a2 where
    a2: "recv_packet ?rec a1 = Inr a2" "moves [On_send ?rel None, On_receive ?rec] ?e a2"
    unfolding i Let_def by auto
  have ev: "cn_events ?e = cn_events a1" by (simp add: erase_stored_def add_to_store_def)
  have 2: "deliver \<lparr>net_a = a1, net_b = b1, to_a = wire ?rec, to_b = []\<rparr> = Inr \<lparr>net_a = a2, net_b = b1, to_a = [], to_b = wire ?rel\<rparr>"
    using deliver_to_a [OF assms(1) v3_ack_made(10) _ _ _ _ _ _ a2(2) ev, of i b1] a2(1) assms(5)
    by (simp add: packet_version_def traits_defs v3_all_size_def v3_ack_made)
  show thesis by (rule that [OF _ b1(2) a2(2)]) (simp add: settle_2 1 2)
qed

text \<open>The second half: PUBREL and PUBCOMP.\<close>

lemma qos2_second_half:
  assumes "live n a2" and "live n b1" and "4 \<le> n" and "i < 65536" and "i \<in> cn_pid_pubcomp a2"
  obtains a3 b2 where
    "settle 2 \<lparr>net_a = a2, net_b = b1, to_a = [], to_b = wire (V3_pubrel (make_v3_pubrel 2 i))\<rparr> =
       Inr \<lparr>net_a = a3, net_b = b2, to_a = [], to_b = []\<rparr>"
    and "moves [On_send (V3_pubcomp (make_v3_pubcomp 2 i)) None, On_receive (V3_pubrel (make_v3_pubrel 2 i))]
       (b1\<lparr>cn_qos2_publish_handled := cn_qos2_publish_handled b1 - {i}\<rparr>) b2"
    and "moves [On_packet_id_release i, On_receive (V3_pubcomp (make_v3_pubcomp 2 i))]
       ((erase_stored R_v3_1_1_pubcomp i a2)\<lparr>cn_pid_pubcomp := cn_pid_pubcomp a2 - {i}, cn_pid_man := release_id 2 i (cn_pid_man a2),
          cn_qos2_publish_processing := cn_qos2_publish_processing a2 - {i}\<rparr>) a3"
proof -
  let ?rel = "V3_pubrel (make_v3_pubrel 2 i)" and ?comp = "V3_pubcomp (make_v3_pubcomp 2 i)"
  have i: "v3_ack_packet_id (make_v3_pubrel 2 i) = i" "v3_ack_packet_id (make_v3_pubcomp 2 i) = i"
    using assms(4) by (simp_all add: v3_ack_made)
  from recv_pubrel [OF assms(2,3), of "make_v3_pubrel 2 i"] obtain b2 where
    b2: "recv_packet ?rel b1 = Inr b2"
      "moves [On_send ?comp None, On_receive ?rel] (b1\<lparr>cn_qos2_publish_handled := cn_qos2_publish_handled b1 - {i}\<rparr>) b2"
    unfolding i by auto
  have 1: "deliver \<lparr>net_a = a2, net_b = b1, to_a = [], to_b = wire ?rel\<rparr> = Inr \<lparr>net_a = a2, net_b = b2, to_a = wire ?comp, to_b = []\<rparr>"
    using deliver_to_b [OF assms(2) v3_ack_made(11) _ _ _ _ _ _ b2(2), of i a2] b2(1) assms(3)
    by (simp add: packet_version_def traits_defs v3_all_size_def v3_ack_made)
  let ?e = "(erase_stored R_v3_1_1_pubcomp i a2)\<lparr>cn_pid_pubcomp := cn_pid_pubcomp a2 - {i}, cn_pid_man := release_id 2 i (cn_pid_man a2),
          cn_qos2_publish_processing := cn_qos2_publish_processing a2 - {i}\<rparr>"
  from recv_pubcomp [OF assms(1), of "make_v3_pubcomp 2 i"] assms(5) obtain a3 where
    a3: "recv_packet ?comp a2 = Inr a3" "moves [On_packet_id_release i, On_receive ?comp] ?e a3"
    unfolding i by auto
  have ev: "cn_events ?e = cn_events a2" by (simp add: erase_stored_def)
  have 2: "deliver \<lparr>net_a = a2, net_b = b2, to_a = wire ?comp, to_b = []\<rparr> = Inr \<lparr>net_a = a3, net_b = b2, to_a = [], to_b = []\<rparr>"
    using deliver_to_a [OF assms(1) v3_ack_made(12) _ _ _ _ _ _ a3(2) ev, of i b2] a3(1) assms(3)
    by (simp add: packet_version_def traits_defs v3_all_size_def v3_ack_made)
  show thesis by (rule that [OF _ b2(2) a3(2)]) (simp add: settle_2 1 2)
qed

lemma reports_trans:
  assumes "moves es c' d" and "cn_events c' = cn_events c" and "moves fs d' e" and "cn_events d' = cn_events d"
  shows "reports c e = es @ fs"
proof -
  from assms(1) obtain gs where g: "cn_events d = cn_events c' @ gs" "filter (\<lambda>e. \<not> is_timer_event e) gs = es"
    by (elim movesE) auto
  from assms(3) obtain hs where h: "cn_events e = cn_events d' @ hs" "filter (\<lambda>e. \<not> is_timer_event e) hs = fs"
    by (elim movesE) auto
  show ?thesis using g h assms(2,4) by (simp add: reports_def new_events_def)
qed

text \<open>
  C2. QoS 2 comes to an end, with exactly one delivery. Between two live engines that respond
  automatically, a QoS 2 PUBLISH is settled after four deliveries: the receiver was given the
  message exactly once and no longer remembers the identifier; the sender has seen PUBREC and
  PUBCOMP, its identifier is free again, and nothing is stored for it.
\<close>

theorem qos2_exchange_completes:
  assumes "live n a" and "live n b" and "packet_variant_ok (V3_publish p)" and "v3_publish_size p \<le> n" and "4 \<le> n"
    and "opts_get_qos (v3_publish_opts p) = exactly_once" and "v3_publish_packet_id p = i" and "i < 65536"
    and "is_used_id i (cn_pid_man a)" and "i \<notin> cn_qos2_publish_handled b" and "send (V3_publish p) a = Inr a1"
  shows "\<exists>a3 b2. settle 4 \<lparr>net_a = a1, net_b = b, to_a = [], to_b = outgoing a a1\<rparr> =
      Inr \<lparr>net_a = a3, net_b = b2, to_a = [], to_b = []\<rparr> \<and>
    reports b b2 = [On_send (V3_pubrec (make_v3_pubrec 2 i)) None, On_receive (V3_publish (v3_publish_received p)),
      On_send (V3_pubcomp (make_v3_pubcomp 2 i)) None, On_receive (V3_pubrel (make_v3_pubrel 2 i))] \<and>
    cn_qos2_publish_handled b2 = cn_qos2_publish_handled b \<and>
    reports a1 a3 = [On_send (V3_pubrel (make_v3_pubrel 2 i)) None, On_receive (V3_pubrec (make_v3_pubrec 2 i)),
      On_packet_id_release i, On_receive (V3_pubcomp (make_v3_pubcomp 2 i))] \<and>
    cn_pid_man a3 = release_id 2 i (cn_pid_man a) \<and> i \<notin> cn_pid_pubrec a3 \<union> cn_pid_pubcomp a3 \<union> cn_qos2_publish_processing a3 \<and>
    cn_store a3 = without R_v3_1_1_pubcomp i (without R_v3_1_1_pubrec i (cn_store a))"
proof -
  let ?e = "(stored_publish p a)\<lparr>cn_qos2_publish_processing := insert i (cn_qos2_publish_processing a), cn_pid_pubrec := insert i (cn_pid_pubrec a)\<rparr>"
  from send_qos12 [OF assms(1,4)] assms obtain rel where m1: "moves [On_send (V3_publish p) rel] ?e a1"
    by (auto simp: qos_1_or_2_def Let_def)
  have "outgoing a a1 = outgoing ?e a1" by (simp add: outgoing_def new_events_def)
  with moves_outgoing [OF m1] have out: "outgoing a a1 = wire (V3_publish p)" by simp
  have la: "live n a1" using assms(1) moves_live [OF m1, of n] by (simp add: live_def stored_publish_def add_to_store_def)
  have "i \<in> cn_pid_pubrec a1" by (simp add: moves_sel [OF m1])
  from qos2_first_half [OF la assms(2-8) this assms(10)] obtain a2 b1 where
    h1: "settle 2 \<lparr>net_a = a1, net_b = b, to_a = [], to_b = outgoing a a1\<rparr> =
       Inr \<lparr>net_a = a2, net_b = b1, to_a = [], to_b = wire (V3_pubrel (make_v3_pubrel 2 i))\<rparr>"
    and b1: "moves [On_send (V3_pubrec (make_v3_pubrec 2 i)) None, On_receive (V3_publish (v3_publish_received p))]
       (b\<lparr>cn_qos2_publish_handled := insert i (cn_qos2_publish_handled b)\<rparr>) b1"
    and a2: "moves [On_send (V3_pubrel (make_v3_pubrel 2 i)) None, On_receive (V3_pubrec (make_v3_pubrec 2 i))]
       ((if cn_need_store a1 then add_to_store (V3_pubrel (make_v3_pubrel 2 i)) (erase_stored R_v3_1_1_pubrec i a1)
         else erase_stored R_v3_1_1_pubrec i a1)
        \<lparr>cn_pid_pubrec := cn_pid_pubrec a1 - {i}, cn_pid_pubcomp := insert i (cn_pid_pubcomp a1)\<rparr>) a2"
    unfolding out .
  have l: "live n a2" "live n b1" "i \<in> cn_pid_pubcomp a2"
    using la assms(2) by (simp_all add: moves_live [OF a2] moves_live [OF b1] moves_sel [OF a2])
       (simp_all add: live_def add_to_store_def erase_stored_def)
  from qos2_second_half [OF l(1,2) assms(5,8) l(3)] obtain a3 b2 where
    h2: "settle 2 \<lparr>net_a = a2, net_b = b1, to_a = [], to_b = wire (V3_pubrel (make_v3_pubrel 2 i))\<rparr> =
       Inr \<lparr>net_a = a3, net_b = b2, to_a = [], to_b = []\<rparr>"
    and b2: "moves [On_send (V3_pubcomp (make_v3_pubcomp 2 i)) None, On_receive (V3_pubrel (make_v3_pubrel 2 i))]
       (b1\<lparr>cn_qos2_publish_handled := cn_qos2_publish_handled b1 - {i}\<rparr>) b2"
    and a3: "moves [On_packet_id_release i, On_receive (V3_pubcomp (make_v3_pubcomp 2 i))]
       ((erase_stored R_v3_1_1_pubcomp i a2)\<lparr>cn_pid_pubcomp := cn_pid_pubcomp a2 - {i}, cn_pid_man := release_id 2 i (cn_pid_man a2),
          cn_qos2_publish_processing := cn_qos2_publish_processing a2 - {i}\<rparr>) a3" .
  have "settle 4 \<lparr>net_a = a1, net_b = b, to_a = [], to_b = outgoing a a1\<rparr> = Inr \<lparr>net_a = a3, net_b = b2, to_a = [], to_b = []\<rparr>"
    by (simp add: settle_4 h1 h2)
  moreover have "cn_store a3 = without R_v3_1_1_pubcomp i (without R_v3_1_1_pubrec i (cn_store a))"
    using stored_publish_without(2) [OF assms(7,6), of a] stored_pubrel_without [OF assms(8)]
    by (simp add: moves_sel [OF a3] erase_stored_def erase_without moves_sel [OF a2] add_to_store_def moves_sel [OF m1] del: store_add.simps)
  moreover note reports_trans [OF b1 _ b2] reports_trans [OF a2 _ a3]
  ultimately show ?thesis
    using assms(10)
    by (intro exI [of _ a3] exI [of _ b2])
       (simp add: moves_sel [OF a3] moves_sel [OF a2] moves_sel [OF m1] moves_sel [OF b1] moves_sel [OF b2] erase_stored_def add_to_store_def)
qed

text \<open>Two connections to evaluate the exchanges on: a client with identifier 1 in use, and its server.\<close>

definition sample_ids :: packet_id_manager where
  "sample_ids = snd (register_id 2 1 (packet_id_manager_init 2))"

lemma sample_ids_used: "is_used_id 1 sample_ids"
proof -
  obtain m where m: "register_id 2 1 (packet_id_manager_init 2) = (True, m)" "pid_ok 2 m"
      "va_free m = va_free (packet_id_manager_init 2) - {1}"
    using pim.register_free [of 2 "packet_id_manager_init 2" 1] pid_init_ok [of 2] by auto
  then show ?thesis using pim.used_free [of 2 m 1] by (simp add: sample_ids_def)
qed

definition sample_client :: connection where
  "sample_client = sample_connected\<lparr>cn_auto_pub_response := True, cn_pid_man := sample_ids\<rparr>"

definition sample_server :: connection where
  "sample_server = sample_connected\<lparr>cn_role := Server, cn_auto_pub_response := True\<rparr>"

lemma sample_live: "live 7 sample_client" "live 7 sample_server" "is_used_id 1 (cn_pid_man sample_client)"
    "1 \<notin> cn_qos2_publish_handled sample_server"
  by (simp_all add: live_def sample_client_def sample_server_def packet_size_no_limit_def sample_ids_used [unfolded One_nat_def])

theorem qos2_exchange_completes_witness:
  "\<exists>a1 a3 b2. send (V3_publish sample_qos2) sample_client = Inr a1 \<and>
     settle 4 \<lparr>net_a = a1, net_b = sample_server, to_a = [], to_b = outgoing sample_client a1\<rparr> =
       Inr \<lparr>net_a = a3, net_b = b2, to_a = [], to_b = []\<rparr> \<and> cn_qos2_publish_handled b2 = {}"
proof -
  have p: "v3_publish_size sample_qos2 \<le> 7" "qos_1_or_2 (opts_get_qos (v3_publish_opts sample_qos2))"
    by (simp_all add: v3_publish_size_def sample_qos2_def) code_simp
  from send_qos12 [OF sample_live(1) p] sample_live(3) obtain a1 where a1: "send (V3_publish sample_qos2) sample_client = Inr a1"
    by (auto simp: sample_qos2_values)
  from qos2_exchange_completes [OF sample_live(1,2) sample_qos2_ok p(1) _ sample_qos2_values(1,2) _ sample_live(3,4) a1]
  show ?thesis using a1 by (auto simp: sample_server_def)
qed

definition sample_v3_qos1 :: v3_publish where
  "sample_v3_qos1 = sample_qos2\<lparr>p3_fixed_header := 0x32\<rparr>"

lemma sample_v3_qos1_ok: "packet_variant_ok (V3_publish sample_v3_qos1)" "v3_publish_packet_id sample_v3_qos1 = 1"
    "opts_get_qos (v3_publish_opts sample_v3_qos1) = at_least_once"
proof -
  show id: "v3_publish_packet_id sample_v3_qos1 = 1" by (simp add: sample_v3_qos1_def sample_qos2_def v3_publish_packet_id_def endian_load_def)
  show "opts_get_qos (v3_publish_opts sample_v3_qos1) = at_least_once" by code_simp
  have "get_control_packet_type_with_check 0x32 = Some Cpt_publish" "pub_get_qos 0x32 = at_least_once" "qos_with_id at_least_once"
    by code_simp+
  with sample_qos2_ok id sample_qos2_values(2) show "packet_variant_ok (V3_publish sample_v3_qos1)"
    by (simp add: v3_publish_ok_def header_ok_def sample_v3_qos1_def)
qed

theorem qos1_exchange_completes_witness:
  "\<exists>a1 a2 b1. send (V3_publish sample_v3_qos1) sample_client = Inr a1 \<and>
     settle 2 \<lparr>net_a = a1, net_b = sample_server, to_a = [], to_b = outgoing sample_client a1\<rparr> =
       Inr \<lparr>net_a = a2, net_b = b1, to_a = [], to_b = []\<rparr> \<and> 1 \<notin> cn_pid_puback a2"
proof -
  have p: "v3_publish_size sample_v3_qos1 \<le> 7" "qos_1_or_2 (opts_get_qos (v3_publish_opts sample_v3_qos1))"
    by (simp_all add: v3_publish_size_def sample_v3_qos1_def sample_qos2_def) code_simp
  from send_qos12 [OF sample_live(1) p] sample_live(3) obtain a1 where a1: "send (V3_publish sample_v3_qos1) sample_client = Inr a1"
    by (auto simp: sample_v3_qos1_ok)
  from qos1_exchange_completes [OF sample_live(1,2) sample_v3_qos1_ok(1) p(1) _ sample_v3_qos1_ok(3,2) _ sample_live(3) a1]
  show ?thesis using a1 by auto
qed

end
