(* ===== verification/Connection_Flow.thy ===== *)
theory Connection_Flow
  imports Connection_Session
begin

text \<open>
  Limits of the receiver: the maximum packet size and the receive maximum of MQTT 5.0, as
  \<^verbatim>\<open>process_send_packet\<close> and the handlers of the responses keep them.
\<close>

subsection \<open>Maximum packet size\<close>

lemma variable_bytes_loop_mono: "v \<le> w \<Longrightarrow> length (val_to_variable_bytes_loop v) \<le> length (val_to_variable_bytes_loop w)"
proof (induction v arbitrary: w rule: val_to_variable_bytes_loop.induct)
  case (1 v)
  show ?case
  proof (cases "v > 127")
    case True
    with 1 have "length (val_to_variable_bytes_loop (v div 128)) \<le> length (val_to_variable_bytes_loop (w div 128))"
      by (simp add: div_le_mono)
    with True 1(2) show ?thesis by (simp add: val_to_variable_bytes_loop.simps [of v] val_to_variable_bytes_loop.simps [of w])
  qed (simp add: val_to_variable_bytes_loop.simps [of v] val_to_variable_bytes_loop.simps [of w])
qed

lemma variable_bytes_mono:
  "v \<le> w \<Longrightarrow> w \<le> 0xfffffff \<Longrightarrow> length (val_to_variable_bytes v) \<le> length (val_to_variable_bytes w)"
  by (simp add: val_to_variable_bytes_def variable_bytes_loop_mono)

lemma add_topic_alias_size:
  assumes "v5_publish_ok n p" and "p5_remaining_length p + 6 \<le> 0xfffffff"
  shows "v5_publish_size p + 3 \<le> v5_publish_size (add_topic_alias ta p)"
proof -
  let ?l = "\<lambda>k. length (val_to_variable_bytes k)"
  let ?r = "p5_remaining_length p" and ?q = "p5_property_length p"
  from assms have p: "p5_remaining_length_buf p = val_to_variable_bytes ?r" "p5_property_length_buf p = val_to_variable_bytes ?q"
      "?q \<le> ?r" "?l ?q \<le> ?r"
    by (auto simp: v5_publish_ok_def header_ok_def props_ok_def)
  with assms have q: "?l ?q \<le> ?l (?q + 3)" by (intro variable_bytes_mono) simp_all
  let ?n = "?r + 3 + ?l (?q + 3) - ?l ?q"
  from p have "v5_publish_size (add_topic_alias ta p) = 1 + ?l ?n + ?n"
    by (simp add: add_topic_alias_def Let_def update_property_length_buf_def update_remaining_length_buf_def v5_publish_size_def)
  moreover have "?l ?r \<le> ?l ?n"
  proof (rule variable_bytes_mono)
    have "1 \<le> ?l ?q" using variable_bytes_not_empty [of ?q] p(3) assms(2) by (cases "val_to_variable_bytes ?q") simp_all
    with variable_bytes_length [of "?q + 3"] assms(2) show "?n \<le> 0xfffffff" by simp
  qed (use q in simp)
  ultimately show ?thesis using p q by (simp add: v5_publish_size_def)
qed

text \<open>
  The check of the maximum packet size comes too early. When the engine maps topics to aliases
  by itself, the PUBLISH grows by a topic alias property after its size was checked: one that
  just fits is handed over with a size that the receiver has declared not to accept.
\<close>

theorem auto_map_exceeds_maximum_packet_size:
  assumes "send_checks (V5_publish p) c = Inr ()" and "cn_status c = Connected" and "cn_auto_map_topic_alias_send c"
    and "cn_topic_alias_send c = Some tas" and "p5_topic_name p \<noteq> []" and "get_topic_alias (p5_props p) = None"
    and "tas_find_alias (p5_topic_name p) tas = None" and "get_lru_alias tas = Some ta"
    and "tas_insert_or_update (cn_now c) (p5_topic_name p) ta tas = Some tas'"
    and "opts_get_qos (v5_publish_opts p) = at_most_once" and "v5_publish_ok n p" and "p5_remaining_length p + 6 \<le> 0xfffffff"
    and "cn_maximum_packet_size_send c < v5_publish_size p + 3"
  shows "\<exists>d q. send (V5_publish p) c = Inr d \<and> sent_packets (new_events c d) = [q] \<and>
    packet_variant_size (V5_publish p) \<le> cn_maximum_packet_size_send c \<and> cn_maximum_packet_size_send c < packet_variant_size q"
proof -
  let ?q = "V5_publish (add_topic_alias ta p)" and ?c = "c\<lparr>cn_topic_alias_send := Some tas'\<rparr>"
  have opts: "v5_publish_opts (add_topic_alias ta p) = v5_publish_opts p"
    by (simp add: alias_op_defs v5_publish_opts_def)
  have "process_send_packet (V5_publish p) c = Inr (True, emit (On_send ?q None) ?c)"
    using assms by (simp add: process_send_packet_def store_stage_def traits_defs qos_1_or_2_def apply_alias_def auto_alias_def
        receive_maximum_stage_def opts ack_stage_def final_stage_def Let_def)
  then have "send (V5_publish p) c = Inr (emit (On_send ?q None) ?c) \<or>
      (\<exists>ms. send (V5_publish p) c = Inr (emit (On_timer_op Timer_reset Pingreq_send (Some ms)) ((emit (On_send ?q None) ?c)\<lparr>cn_pingreq_send_set := True\<rparr>)))"
    by (auto simp: send_def traits_defs Let_def split: option.splits)
  then obtain d where "send (V5_publish p) c = Inr d" "sent_packets (new_events c d) = [?q]"
    by (elim disjE exE) (rule that, assumption, simp add: new_events_def emit_def)+
  moreover from assms(1) have "packet_variant_size (V5_publish p) \<le> cn_maximum_packet_size_send c"
    by (simp add: send_checks_def validate_maximum_packet_size_def split: if_splits)
  ultimately show ?thesis using add_topic_alias_size [OF assms(11,12), of ta] assms(13) by auto
qed

definition sample_qos0 :: v5_publish where
  "sample_qos0 = \<lparr>p5_fixed_header = 0x30, p5_topic_name = [0x61], p5_topic_name_length_buf = [0, 1], p5_packet_id = [0, 0],
     p5_property_length = 0, p5_property_length_buf = [0], p5_props = [], p5_payloads = [],
     p5_remaining_length = 4, p5_remaining_length_buf = [4]\<rparr>"

definition sample_v5 :: connection where
  "sample_v5 = (connection_init Client 2 V5)\<lparr>cn_status := Connected\<rparr>"

lemma sample_qos0_values:
  "opts_get_qos (v5_publish_opts sample_qos0) = at_most_once" "v5_publish_packet_id sample_qos0 = 0"
  by code_simp+

lemma sample_qos0_ok: "v5_publish_ok 2 sample_qos0"
proof -
  have "utf8string_check [0x61]" "get_control_packet_type_with_check 0x30 = Some Cpt_publish" "pub_get_qos 0x30 = at_most_once"
    by code_simp+
  moreover have "val_to_variable_bytes 4 = [4]" "val_to_variable_bytes 0 = [0]"
    by (simp_all add: val_to_variable_bytes_def val_to_variable_bytes_loop.simps)
  moreover have "endian_store 2 (Suc 0) = [0, 1]" by code_simp
  moreover have "endian_load [0, 0] = 0" by (simp add: endian_load_def)
  ultimately show ?thesis
    by (simp add: v5_publish_ok_def sample_qos0_def header_ok_def str_ok_def props_ok_def v5_publish_packet_id_def
        properties_ok_def)
qed

theorem auto_map_exceeds_maximum_packet_size_witness:
  "let c = sample_v5\<lparr>cn_auto_map_topic_alias_send := True, cn_topic_alias_send := Some (topic_alias_send_init 5),
         cn_maximum_packet_size_send := 6\<rparr> in
   \<exists>d q. send (V5_publish sample_qos0) c = Inr d \<and> sent_packets (new_events c d) = [q] \<and> 6 < packet_variant_size q"
proof -
  let ?c = "sample_v5\<lparr>cn_auto_map_topic_alias_send := True, cn_topic_alias_send := Some (topic_alias_send_init 5),
         cn_maximum_packet_size_send := 6\<rparr>"
  let ?tas = "topic_alias_send_init 5"
  have t: "tas_find_alias [0x61] ?tas = None" "get_lru_alias ?tas = Some 1" "tas_insert_or_update 0 [0x61] 1 ?tas \<noteq> None"
    by code_simp+
  have chk: "send_checks (V5_publish sample_qos0) ?c = Inr ()"
    by (simp add: send_eval sample_v5_def connection_init_def v5_publish_size_def sample_qos0_def)
  from t(3) obtain tas' where u: "tas_insert_or_update 0 [0x61] 1 ?tas = Some tas'" by blast
  have n: "cn_now ?c = 0" by (simp add: sample_v5_def connection_init_def)
  show ?thesis unfolding Let_def
    using auto_map_exceeds_maximum_packet_size [OF chk, of ?tas 1 tas' 2] t(1,2) u n sample_qos0_ok sample_qos0_values
    by (auto simp: sample_v5_def sample_qos0_def get_topic_alias_def v5_publish_size_def)
qed

subsection \<open>Receive maximum\<close>

text \<open>The stage of \<^verbatim>\<open>process_send_packet\<close> that counts, for as many PUBLISH packets in a row.\<close>

primrec admit :: "nat \<Rightarrow> v5_publish \<Rightarrow> connection \<Rightarrow> send_exit + connection" where
  "admit 0 p c = Inr c"
| "admit (Suc k) p c = bindE (receive_maximum_stage p c) (admit k p)"

lemma admit_count:
  assumes "qos_1_or_2 (opts_get_qos (v5_publish_opts p))" and "cn_publish_send_max c = Some m"
    and "cn_publish_send_count c + k \<le> m" and "m < 65536"
  shows "admit k p c = Inr (c\<lparr>cn_publish_send_count := cn_publish_send_count c + k\<rparr>)"
  using assms by (induction k arbitrary: c) (simp_all add: receive_maximum_stage_def)



lemma send_connect_resets_count:
  assumes "send p c = Inr d" and "is_connect p" and "cn_status c = Disconnected" and "cn_status d = Connecting"
  shows "cn_publish_send_count d = 0"
proof -
  have "cn_publish_send_count (fold (\<lambda>prop c. session_expiry_property prop (recv_limit_property prop c)) ps x) = cn_publish_send_count x" for ps x
    by (induction ps arbitrary: x) (simp_all add: session_expiry_property_def recv_limit_property_def)
  then have "cn_publish_send_count (send_connect_stage p c) = 0"
    using assms(2)
    by (cases p) (simp_all add: traits_defs send_v3_connect_def send_v5_connect_def connection_initialize_def
        set_send_interval_if_unset_def clear_session_def clear_publish_pids_def Let_def)
  moreover have "offline_alias_stage p x = Inr ()" "store_stage p x = Inr (False, None, x)" "v5_publish_stage False p x = Inr (p, x)"
      "ack_stage p None x = (None, x)" "final_stage p None x = Returned True (emit (On_send p None) x)" "\<not> is_connack p" for x
    using assms(2) by (cases p; simp add: traits_defs store_stage_def ack_stage_def final_stage_def)+
  ultimately show ?thesis
    using assms send_checks_exit [of p c]
    by (cases "send_checks p c")
       (auto simp: send_def process_send_packet_def Let_def emit_def rejected_def split: send_exit.splits if_splits option.splits)
qed

text \<open>
  C40. After a session was resumed the count is wrong. CONNECT sets the number of PUBLISH packets
  under way to zero, and the packets retransmitted after the CONNACK are not counted; the PUBACK
  of one of them decrements the 16-bit counter below zero. From then on the engine admits one
  packet more than the receive maximum \<open>m\<close>, and reports a vacancy of nearly \<open>2^64\<close>.
\<close>

theorem resumed_session_miscounts:
  assumes "send p c = Inr c1" and "is_connect p" and "cn_status c = Disconnected" and "cn_status c1 = Connecting"
    and "recv_packet k c1 = Inr c2" and "accepting_connack k = Some True"
    and "recv_packet (V5_puback a) c2 = Inr d" and "v5_ack_packet_id a \<in> cn_pid_puback c2"
    and "cn_publish_send_max c2 = Some m" and "m < 65535" and "qos_1_or_2 (opts_get_qos (v5_publish_opts q))"
  shows "cn_publish_send_count d = 65535 \<and> get_receive_maximum_vacancy_for_send d = Some (2 ^ 64 - (65535 - m)) \<and>
    admit (m + 1) q d = Inr (d\<lparr>cn_publish_send_count := m\<rparr>)"
proof -
  obtain e where "only_limits (c1\<lparr>cn_status := Connected\<rparr>) e" "c2 = emit (On_receive k) (resume_or_clear True e)"
    using recv_accepting_connack [OF assms(5,6)] .
  then have "cn_publish_send_count c2 = 0"
    using send_connect_resets_count [OF assms(1-4)]
    by (simp add: resume_or_clear_def only_limits_def, simp add: emit_def)
  with assms(7-9) have d: "cn_publish_send_count d = 65535" "cn_publish_send_max d = Some m"
    by (auto simp: recv_v5_puback_def Let_def received_def pingreq_recv_op_def count_down_def release_and_notify_def
        erase_stored_def emit_def split: option.splits if_splits)
  have "get_receive_maximum_vacancy_for_send d = Some (2 ^ 64 - (65535 - m))"
    using d assms(10) by (simp add: get_receive_maximum_vacancy_for_send_def)
  moreover have "receive_maximum_stage q d = Inr (d\<lparr>cn_publish_send_count := 0\<rparr>)"
    using d assms(10,11) by (simp add: receive_maximum_stage_def)
  with admit_count [OF assms(11), of "d\<lparr>cn_publish_send_count := 0\<rparr>" m m] d assms(10)
  have "admit (m + 1) q d = Inr (d\<lparr>cn_publish_send_count := m\<rparr>)" by simp
  ultimately show ?thesis using d(1) by simp
qed

text \<open>A client that resumes a session with a PUBLISH under way, identifier 1, and receive maximum 3.\<close>

definition sample_connect_v5 :: v5_connect where
  "sample_connect_v5 = \<lparr>c5_fixed_header = 0x10, c5_connect_flags = 0, c5_remaining_length = 13, c5_remaining_length_buf = [13],
     c5_protocol_name_and_level = protocol_name_and_level 5, c5_client_id = [], c5_client_id_length_buf = [0, 0],
     c5_will_topic = [], c5_will_topic_length_buf = [], c5_will_message = [], c5_will_message_length_buf = [],
     c5_will_property_length = 0, c5_will_property_length_buf = [], c5_will_props = [],
     c5_user_name = [], c5_user_name_length_buf = [], c5_password = [], c5_password_length_buf = [],
     c5_keep_alive_buf = [0, 0], c5_property_length = 0, c5_property_length_buf = [0], c5_props = []\<rparr>"

definition sample_connack_v5 :: v5_connack where
  "sample_connack_v5 = \<lparr>ca5_fixed_header = 0x20, ca5_remaining_length = 6, ca5_remaining_length_buf = [6],
     ca5_connect_acknowledge_flags = 1, ca5_reason_code = 0, ca5_property_length = 3, ca5_property_length_buf = [3],
     ca5_props = [N_bytes_property Id_receive_maximum [0, 3]]\<rparr>"

definition sample_puback_v5 :: v5_ack where
  "sample_puback_v5 = \<lparr>a5_fixed_header = 0x40, a5_remaining_length = 2, a5_remaining_length_buf = [2], a5_packet_id = [0, 1],
     a5_reason_code = None, a5_property_length = 0, a5_property_length_buf = [], a5_props = []\<rparr>"

theorem resumed_session_miscounts_witness:
  "\<exists>c1 c2 d. send (V5_connect sample_connect_v5) (sample_v5\<lparr>cn_status := Disconnected, cn_pid_puback := {1}\<rparr>) = Inr c1 \<and>
     recv_packet (V5_connack sample_connack_v5) c1 = Inr c2 \<and> recv_packet (V5_puback sample_puback_v5) c2 = Inr d \<and>
     cn_publish_send_max c2 = Some 3 \<and> cn_publish_send_count d = 65535 \<and>
     admit 4 sample_publish d = Inr (d\<lparr>cn_publish_send_count := 3\<rparr>)"
proof -
  let ?p = "V5_connect sample_connect_v5" and ?k = "V5_connack sample_connack_v5" and ?a = "V5_puback sample_puback_v5"
  define c where "c = sample_v5\<lparr>cn_status := Disconnected, cn_pid_puback := {1}\<rparr>"
  have flags: "\<not> v5_connect_clean_start sample_connect_v5" "v5_connack_session_present sample_connack_v5"
      "accepting_connack ?k = Some True" "qos_1_or_2 (opts_get_qos (v5_publish_opts sample_publish))" by code_simp+
  have vals: "v5_connect_keep_alive sample_connect_v5 = 0" "c5_props sample_connect_v5 = []" "v5_ack_packet_id sample_puback_v5 = 1"
      "endian_load [0, 3] = 3" "v5_connect_size sample_connect_v5 = 15"
    by (simp_all add: v5_connect_keep_alive_def sample_connect_v5_def endian_load_def v5_ack_packet_id_def sample_puback_v5_def
        v5_connect_size_def)
  define e where "e = send_v5_connect sample_connect_v5 c"
  have e: "cn_status e = Connecting" "cn_pid_puback e = {1}" "cn_store e = []" "cn_role e = Client"
      "cn_pingreq_send_interval_ms e = None" "cn_status c = Disconnected"
    by (simp_all add: e_def c_def send_v5_connect_def connection_initialize_def set_send_interval_if_unset_def vals flags
        sample_v5_def connection_init_def Let_def)
  let ?c1 = "emit (On_send ?p None) e"
  have "send_checks ?p c = Inr ()"
    by (simp add: c_def send_eval vals sample_v5_def connection_init_def packet_size_no_limit_def)
  then have 1: "send ?p c = Inr ?c1"
    by (simp add: send_def process_send_packet_def e_def [symmetric] store_stage_def ack_stage_def final_stage_def traits_defs Let_def)
       (simp add: e emit_def)
  have k: "ca5_reason_code sample_connack_v5 = 0" "ca5_props sample_connack_v5 = [N_bytes_property Id_receive_maximum [0, 3]]"
    by (simp_all add: sample_connack_v5_def)
  define c2 where "c2 = emit (On_receive ?k) (send_stored (?c1\<lparr>cn_status := Connected, cn_publish_send_max := Some 3\<rparr>))"
  have 2: "recv_packet ?k ?c1 = Inr c2"
    by (simp add: recv_v5_connack_def k flags(2) resume_or_clear_def send_limit_property_def server_keep_alive_property_def vals(4) c2_def)
  have c2: "cn_publish_send_max c2 = Some 3" "cn_pid_puback c2 = {1}"
    by (simp_all add: c2_def emit_def e)
  obtain d where 3: "recv_packet ?a c2 = Inr d" by (simp add: recv_v5_puback_def vals c2)
  have side: "is_connect ?p" "cn_status ?c1 = Connecting" "v5_ack_packet_id sample_puback_v5 \<in> cn_pid_puback c2" "(3::nat) < 65535"
    by (simp_all add: traits_defs e emit_def vals c2)
  have "(3::nat) + 1 = 4" by simp
  with resumed_session_miscounts [OF 1 side(1) e(6) side(2) 2 flags(3) 3 side(3) c2(1) side(4) flags(4)]
  have "cn_publish_send_count d = 65535 \<and> admit 4 sample_publish d = Inr (d\<lparr>cn_publish_send_count := 3\<rparr>)"
    by metis
  with 1 2 3 c2(1) show ?thesis unfolding c_def by blast
qed

text \<open>
  A PUBLISH that is refused because of the receive maximum leaves traces. It is refused after
  it was stored and marked as waiting for its PUBACK: its identifier is given back to the pool,
  yet the packet stays in the store, to be retransmitted with an identifier that may by then
  belong to another packet.
\<close>

theorem refused_publish_stays_stored:
  assumes "send_checks (V5_publish p) c = Inr ()" and "cn_status c = Connected" and "cn_need_store c"
    and "opts_get_qos (v5_publish_opts p) = at_least_once" and "p5_topic_name p \<noteq> []" and "get_topic_alias (p5_props p) = None"
    and "\<not> cn_auto_map_topic_alias_send c" and "\<not> cn_auto_replace_topic_alias_send c"
    and "pid_ok (cn_pid_bytes c) (cn_pid_man c)" and "is_used_id (v5_publish_packet_id p) (cn_pid_man c)"
    and "v5_publish_packet_id p \<in> {1..256 ^ cn_pid_bytes c - 1}"
    and "make_store_publish (cn_pid_bytes c) (p5_topic_name p) p = Inr q"
    and "cn_publish_send_max c = Some (cn_publish_send_count c)"
  shows "\<exists>d. send (V5_publish p) c = Inr d \<and>
    new_events c d = [On_error (disconnect_code receive_maximum_exceeded), On_packet_id_release (v5_publish_packet_id p)] \<and>
    \<not> is_used_id (v5_publish_packet_id p) (cn_pid_man d) \<and> v5_publish_packet_id p \<in> cn_pid_puback d \<and>
    cn_store d = snd (store_add (V5_publish (v5_publish_set_dup True q)) (cn_store c))"
proof -
  let ?i = "v5_publish_packet_id p" and ?n = "cn_pid_bytes c"
  let ?e = "(add_to_store (V5_publish (v5_publish_set_dup True q)) c)\<lparr>cn_pid_puback := insert ?i (cn_pid_puback c)\<rparr>"
  let ?d = "release_and_notify ?i (emit (On_error (disconnect_code receive_maximum_exceeded)) ?e)"
  have "send (V5_publish p) c = Inr ?d"
    using assms
    by (simp add: send_def process_send_packet_def store_stage_def traits_defs qos_1_or_2_def store_v5_publish_def apply_alias_def
        auto_alias_def receive_maximum_stage_def return_error_release_def add_to_store_def Let_def)
  moreover have "new_events c ?d = [On_error (disconnect_code receive_maximum_exceeded), On_packet_id_release ?i]"
    by (rule new_events_append) (simp add: release_and_notify_def emit_def add_to_store_def)
  moreover have "\<not> is_used_id ?i (release_id ?n ?i (cn_pid_man c))"
    using assms(9,11) pim.release_inv [of ?n "cn_pid_man c" ?i] pim.release_free [of ?n "cn_pid_man c" ?i]
      pim.used_free [of ?n "release_id ?n ?i (cn_pid_man c)" ?i] by (simp add: pid_ok_def)
  ultimately show ?thesis by (auto simp: release_and_notify_def emit_def add_to_store_def)
qed

definition sample_qos1 :: v5_publish where
  "sample_qos1 = \<lparr>p5_fixed_header = 0x32, p5_topic_name = [0x61], p5_topic_name_length_buf = [0, 1], p5_packet_id = [0, 1],
     p5_property_length = 0, p5_property_length_buf = [0], p5_props = [], p5_payloads = [],
     p5_remaining_length = 6, p5_remaining_length_buf = [6]\<rparr>"

lemma sample_qos1_values:
  "opts_get_qos (v5_publish_opts sample_qos1) = at_least_once" "v5_publish_packet_id sample_qos1 = 1"
  by code_simp (simp add: v5_publish_packet_id_def sample_qos1_def endian_load_def)

lemma sample_qos1_stored: "make_store_publish 2 [0x61] sample_qos1 = Inr sample_qos1"
proof -
  have "utf8string_check [0x61]" "qos_with_id at_least_once" "v5_publish_packet_id_buf 2 (Suc 0) at_least_once = Inr [0, 1]"
      "make_fixed_header Cpt_publish 0 OR (0x32::byte) = 0x32" "endian_store 2 (Suc 0) = [0, 1]"
      "erase_topic_alias (p5_props sample_qos1) = []" "p5_payloads sample_qos1 = []" "v5_publish_opts sample_qos1 = 0x32"
    by code_simp+
  moreover have "val_to_variable_bytes 6 = [6]" "val_to_variable_bytes 0 = [0]"
    by (simp_all add: val_to_variable_bytes_def val_to_variable_bytes_loop.simps)
  ultimately show ?thesis
    using sample_qos1_values
    by (simp add: make_store_publish_def make_v5_publish_def numeric_cast_def throw_unless_def make_props_def Let_def)
       (simp add: sample_qos1_def)
qed

theorem refused_publish_stays_stored_witness:
  "\<exists>c d pv. cn_status c = Connected \<and> send (V5_publish sample_qos1) c = Inr d \<and>
     On_error (disconnect_code receive_maximum_exceeded) \<in> set (new_events c d) \<and>
     \<not> is_used_id 1 (cn_pid_man d) \<and> 1 \<in> cn_pid_puback d \<and> cn_store c = [] \<and> cn_store d = [pv]"
proof -
  obtain m where m: "register_id 2 1 (packet_id_manager_init 2) = (True, m)" "pid_ok 2 m"
      "va_free m = va_free (packet_id_manager_init 2) - {1}"
    using pim.register_free [of 2 "packet_id_manager_init 2" 1] pid_init_ok [of 2] by auto
  then have u: "is_used_id 1 m" using pim.used_free [of 2 m 1] by simp
  define c where "c = sample_v5\<lparr>cn_need_store := True, cn_pid_man := m, cn_publish_send_max := Some 1, cn_publish_send_count := 1\<rparr>"
  have c: "cn_status c = Connected" "cn_need_store c" "\<not> cn_auto_map_topic_alias_send c" "\<not> cn_auto_replace_topic_alias_send c"
      "cn_pid_bytes c = 2" "cn_pid_man c = m" "cn_publish_send_max c = Some (cn_publish_send_count c)" "cn_store c = []"
    by (simp_all add: c_def sample_v5_def connection_init_def)
  have chk: "send_checks (V5_publish sample_qos1) c = Inr ()"
    by (simp add: c_def send_eval sample_v5_def connection_init_def v5_publish_size_def sample_qos1_def packet_size_no_limit_def)
  have p: "p5_topic_name sample_qos1 = [0x61]" "get_topic_alias (p5_props sample_qos1) = None"
    by (simp_all add: sample_qos1_def get_topic_alias_def)
  let ?dup = "v5_publish_set_dup True sample_qos1"
  have "opts_get_qos (v5_publish_opts ?dup) = at_least_once" by code_simp
  then have st: "cn_store d = [\<lparr>sp_res = R_v5_puback, sp_var = S5_publish ?dup\<rparr>]"
    if "cn_store d = snd (store_add (V5_publish ?dup) [])" for d
    using that by (simp add: store_add_var_def store_emplace_back_def)
  from refused_publish_stays_stored [OF chk c(1,2) sample_qos1_values(1) _ p(2) c(3,4) _ _ _ _ c(7), of sample_qos1]
    c m(2) u p sample_qos1_values sample_qos1_stored
  obtain d where d: "send (V5_publish sample_qos1) c = Inr d"
      "new_events c d = [On_error (disconnect_code receive_maximum_exceeded), On_packet_id_release 1]"
      "\<not> is_used_id 1 (cn_pid_man d)" "1 \<in> cn_pid_puback d" "cn_store d = snd (store_add (V5_publish ?dup) [])"
    by auto
  with st [OF d(5)] c show ?thesis by (intro exI [of _ c] exI [of _ d]) simp
qed

end
