(* ===== verification/Packet_Types.thy ===== *)
theory Packet_Types
  imports Packet_Builder
begin

unbundle bit_operations_syntax

text \<open>
  The packets a program can build: one rule for each throwing constructor of the packet classes.
  The side conditions are what the C++ types of the arguments guarantee (a packet identifier of
  two bytes, an enumerator as reason code, publish options and topic entries made by their own
  constructors, properties made by the property constructors) and the conditions under which
  the parsing constructors accept the result: a list of topics is not empty, and the remaining
  length can be encoded.
\<close>

definition opts_typed :: "pubopts \<Rightarrow> bool" where
  "opts_typed o1 \<longleftrightarrow> o1 AND 0xF0 = 0 \<and> opts_get_qos o1 \<noteq> 3"

definition will_typed :: "will option \<Rightarrow> bool" where
  "will_typed wo \<longleftrightarrow> (\<forall>w. wo = Some w \<longrightarrow> will_get_qos w \<noteq> 3 \<and> list_all property_ok (will_props w))"

definition code_typed :: "(string \<times> nat \<times> bool) list \<Rightarrow> byte option \<Rightarrow> properties \<Rightarrow> bool" where
  "code_typed codes rco props \<longleftrightarrow>
     (rco = None \<longrightarrow> props = []) \<and> (\<forall>rc. rco = Some rc \<longrightarrow> enumerated codes rc) \<and> list_all property_ok props"

inductive constructed :: "packet_variant \<Rightarrow> bool" where
  v3_connect: "make_v3_connect c ka ci wo uo po = Inr p \<Longrightarrow> will_typed wo \<Longrightarrow> c3_remaining_length p \<le> 0xfffffff \<Longrightarrow>
    constructed (V3_connect p)"
| v3_connack: "rc \<le> 5 \<Longrightarrow> constructed (V3_connack (make_v3_connack sp rc))"
| v3_publish: "make_v3_publish 2 pid topic payloads opts = Inr p \<Longrightarrow> pid < 65536 \<Longrightarrow> opts_typed opts \<Longrightarrow>
    p3_remaining_length p \<le> 0xfffffff \<Longrightarrow> constructed (V3_publish p)"
| v3_puback: "constructed (V3_puback (make_v3_puback 2 pid))"
| v3_pubrec: "constructed (V3_pubrec (make_v3_pubrec 2 pid))"
| v3_pubrel: "constructed (V3_pubrel (make_v3_pubrel 2 pid))"
| v3_pubcomp: "constructed (V3_pubcomp (make_v3_pubcomp 2 pid))"
| v3_subscribe: "make_v3_subscribe 2 pid es = Inr p \<Longrightarrow> \<forall>e \<in> set es. \<exists>t o1. e = topic_subopts_of t o1 \<Longrightarrow>
    s3_remaining_length p \<le> 0xfffffff \<Longrightarrow> constructed (V3_subscribe p)"
| v3_suback: "make_v3_suback 2 pid rcs = Inr p \<Longrightarrow> rcs \<noteq> [] \<Longrightarrow> list_all suback_return_code_valid rcs \<Longrightarrow>
    sa3_remaining_length p \<le> 0xfffffff \<Longrightarrow> constructed (V3_suback p)"
| v3_unsubscribe: "make_v3_unsubscribe 2 pid ts = Inr p \<Longrightarrow> \<forall>t \<in> set ts. \<exists>a. t = topic_sharename_of a \<Longrightarrow> ts \<noteq> [] \<Longrightarrow>
    u3_remaining_length p \<le> 0xfffffff \<Longrightarrow> constructed (V3_unsubscribe p)"
| v3_unsuback: "constructed (V3_unsuback (make_v3_unsuback 2 pid))"
| v3_pingreq: "constructed (V3_pingreq make_v3_pingreq)"
| v3_pingresp: "constructed (V3_pingresp make_v3_pingresp)"
| v3_disconnect: "constructed (V3_disconnect make_v3_disconnect)"
| v5_connect: "make_v5_connect c ka ci wo uo po props = Inr q \<Longrightarrow> will_typed wo \<Longrightarrow> list_all property_ok props \<Longrightarrow>
    c5_remaining_length q \<le> 0xfffffff \<Longrightarrow> constructed (V5_connect q)"
| v5_connack: "make_v5_connack sp rc props = Inr a \<Longrightarrow> enumerated connect_reason_code_enum rc \<Longrightarrow> list_all property_ok props \<Longrightarrow>
    ca5_remaining_length a \<le> 0xfffffff \<Longrightarrow> constructed (V5_connack a)"
| v5_publish: "make_v5_publish 2 pid topic payloads opts props = Inr q \<Longrightarrow> pid < 65536 \<Longrightarrow> opts_typed opts \<Longrightarrow>
    list_all property_ok props \<Longrightarrow> p5_remaining_length q \<le> 0xfffffff \<Longrightarrow> constructed (V5_publish q)"
| v5_puback: "make_v5_puback 2 pid rco props = Inr a \<Longrightarrow> code_typed puback_reason_code_enum rco props \<Longrightarrow>
    a5_remaining_length a \<le> 0xfffffff \<Longrightarrow> constructed (V5_puback a)"
| v5_pubrec: "make_v5_pubrec 2 pid rco props = Inr a \<Longrightarrow> code_typed pubrec_reason_code_enum rco props \<Longrightarrow>
    a5_remaining_length a \<le> 0xfffffff \<Longrightarrow> constructed (V5_pubrec a)"
| v5_pubrel: "make_v5_pubrel 2 pid rco props = Inr a \<Longrightarrow> code_typed pubrel_reason_code_enum rco props \<Longrightarrow>
    a5_remaining_length a \<le> 0xfffffff \<Longrightarrow> constructed (V5_pubrel a)"
| v5_pubcomp: "make_v5_pubcomp 2 pid rco props = Inr a \<Longrightarrow> code_typed pubcomp_reason_code_enum rco props \<Longrightarrow>
    a5_remaining_length a \<le> 0xfffffff \<Longrightarrow> constructed (V5_pubcomp a)"
| v5_subscribe: "make_v5_subscribe 2 pid es props = Inr p \<Longrightarrow> \<forall>e \<in> set es. \<exists>t o1. e = topic_subopts_of t o1 \<Longrightarrow>
    es \<noteq> [] \<Longrightarrow> list_all property_ok props \<Longrightarrow> s5_remaining_length p \<le> 0xfffffff \<Longrightarrow> constructed (V5_subscribe p)"
| v5_suback: "make_v5_suback 2 pid rcs props = Inr p \<Longrightarrow> rcs \<noteq> [] \<Longrightarrow> list_all (enumerated suback_reason_code_enum) rcs \<Longrightarrow>
    list_all property_ok props \<Longrightarrow> sa5_remaining_length p \<le> 0xfffffff \<Longrightarrow> constructed (V5_suback p)"
| v5_unsubscribe: "make_v5_unsubscribe 2 pid ts props = Inr p \<Longrightarrow> \<forall>t \<in> set ts. \<exists>a. t = topic_sharename_of a \<Longrightarrow> ts \<noteq> [] \<Longrightarrow>
    list_all property_ok props \<Longrightarrow> u5_remaining_length p \<le> 0xfffffff \<Longrightarrow> constructed (V5_unsubscribe p)"
| v5_unsuback: "make_v5_unsuback 2 pid rcs props = Inr p \<Longrightarrow> rcs \<noteq> [] \<Longrightarrow> list_all (enumerated unsuback_reason_code_enum) rcs \<Longrightarrow>
    list_all property_ok props \<Longrightarrow> sa5_remaining_length p \<le> 0xfffffff \<Longrightarrow> constructed (V5_unsuback p)"
| v5_pingreq: "constructed (V5_pingreq make_v5_pingreq)"
| v5_pingresp: "constructed (V5_pingresp make_v5_pingresp)"
| v5_disconnect: "make_v5_disconnect rco props = Inr r \<Longrightarrow> code_typed disconnect_reason_code_enum rco props \<Longrightarrow>
    r5_remaining_length r \<le> 0xfffffff \<Longrightarrow> constructed (V5_disconnect r)"
| v5_auth: "make_v5_auth rco props = Inr r \<Longrightarrow> code_typed auth_reason_code_enum rco props \<Longrightarrow>
    r5_remaining_length r \<le> 0xfffffff \<Longrightarrow> constructed (V5_auth r)"

lemmas make_alias_defs = make_v3_puback_def make_v3_pubrec_def make_v3_pubrel_def make_v3_pubcomp_def make_v3_unsuback_def
  make_v3_pingreq_def make_v3_pingresp_def make_v3_disconnect_def make_v5_puback_def make_v5_pubrec_def make_v5_pubrel_def
  make_v5_pubcomp_def make_v5_suback_def make_v5_unsuback_def make_v5_pingreq_def make_v5_pingresp_def
  make_v5_disconnect_def make_v5_auth_def

lemma constructed_ok: "constructed p \<Longrightarrow> packet_variant_ok p"
proof (induction rule: constructed.induct)
  case (v3_connect c ka ci wo uo po p)
  then show ?case by (auto simp: will_typed_def intro: make_v3_connect_ok)
next
  case (v3_publish pid topic payloads opts p)
  then show ?case using make_v3_publish_ok(1) [OF v3_publish(1)] by (simp add: opts_typed_def)
next
  case (v5_connect c ka ci wo uo po props q)
  then show ?case by (auto simp: will_typed_def intro: make_v5_connect_ok)
next
  case (v5_publish pid topic payloads opts props q)
  then show ?case using make_v5_publish_ok(1) [OF v5_publish(1)] by (simp add: opts_typed_def)
qed (auto simp: make_alias_defs code_typed_def make_v3_connack_ok make_v3_ack_ok make_v3_empty_ok
    intro: make_v3_subscribe_ok(1) make_v3_suback_ok make_v3_unsubscribe_ok(1) make_v5_connack_ok make_v5_ack_ok(1)
      make_v5_subscribe_ok(1) make_v5_suback_ok(1) make_v5_unsubscribe_ok(1) make_v5_reason_ok)



end
