(* ===== verification/Endpoint.thy ===== *)
theory Endpoint
  imports Connection_Session
begin

text \<open>
  The asynchronous endpoint: \<^verbatim>\<open>basic_endpoint_impl\<close> of \<^verbatim>\<open>asio_bind/impl/endpoint_impl.hpp\<close> and
  \<^verbatim>\<open>endpoint_*.hpp/.ipp\<close>, which drives the engine over a stream of Boost.Asio.

  \<^item> A composed operation (\<^verbatim>\<open>send_op\<close>, \<^verbatim>\<open>recv_op\<close>, \<^verbatim>\<open>close_op\<close>, ...) is a value with the members of
    the C++ class, its \<^verbatim>\<open>state\<close> included. \<open>run\<close> is its \<^verbatim>\<open>operator()\<close>: it gets the result of what the
    operation waited for and returns the endpoint and what is started: an \<open>action\<close> says what
    Boost.Asio is asked for and which operation is resumed with the result.
  \<^item> The endpoint lives on one executor: \<open>ep_step\<close> runs one handler at a time, in any order.
  \<^item> The engine is called through \<^verbatim>\<open>rv_connection\<close>, which hands out the events of a call.
  \<^item> \<^verbatim>\<open>close_queue_\<close> holds close operations in their state \<^verbatim>\<open>close\<close>: what each of them resumes.
  \<^item> A steady timer is the number of milliseconds it was started with, while it is waited for.
  \<^item> A failing \<^verbatim>\<open>BOOST_ASSERT\<close> is \<open>Undefined\<close>.
\<close>

subsection \<open>Operations\<close>

datatype filter_kind = Filter_match | Filter_except

datatype send_state = So_dispatch | So_write | So_sent | So_close | So_complete

record send_op =
  so_packet :: packet_variant
  so_static :: bool
  so_from_queue :: bool
  so_decided_error :: "error_code option"
  so_events :: "event list"
  so_disconnect_sent :: bool
  so_state :: send_state

datatype recv_state = Ro_dispatch | Ro_check_buf | Ro_read_istream | Ro_process | Ro_read | Ro_finish_read
  | Ro_sent | Ro_closed | Ro_complete

record recv_op =
  ro_fil :: "filter_kind option"
  ro_types :: "control_packet_type set"
  ro_decided_error :: "error_code option"
  ro_recv_packet :: "packet_variant option"
  ro_try_resend :: bool
  ro_disconnect_sent :: bool
  ro_state :: recv_state

datatype close_state = Co_dispatch | Co_close | Co_complete

datatype handshake_state = Ho_dispatch | Ho_handshake | Ho_complete

text \<open>The operations that make one call of the engine on the executor.\<close>

datatype call = Call_acquire | Call_register nat | Call_release nat | Call_get_stored | Call_regulate v5_publish
  | Call_restore "store_packet_variant list"

text \<open>
  A close operation carries the operation it resumes at the end, if any. The flag of
  \<open>Acquire_wait_op\<close> and \<open>Call_op\<close> is their state: dispatched or not.
\<close>

datatype op =
    Send_op send_op
  | Recv_op recv_op
  | Close_op close_state "op option"
  | Acquire_wait_op bool
  | Call_op bool call
  | Handshake_op handshake_state

datatype completion =
    Sent error_code
  | Received error_code "packet_variant option"
  | Close_done
  | Acquired error_code nat
  | Registered error_code
  | Released
  | Stored "store_packet_variant list"
  | Regulated error_code v5_publish
  | Restored
  | Handshaken error_code

text \<open>
  What an operation asks Boost.Asio for. \<open>Write\<close> has the identifier that is appended to the
  result, and no operation when the result is discarded.
\<close>

datatype action =
    Resume op
  | Write packet_variant "nat option" "op option"
  | Read nat op
  | Stream_close op
  | Delay nat op
  | Retry_wait nat op
  | Handshake op
  | Done completion

record io_result =
  io_ec :: error_code
  io_bytes :: bytes
  io_rel :: "nat option"

definition io_ok :: io_result where
  "io_ok = \<lparr>io_ec = ec_success, io_bytes = [], io_rel = None\<rparr>"

definition operation_aborted :: error_code where "operation_aborted = Error_Code Cat_system 125"

subsection \<open>The endpoint\<close>

datatype close_status = Open | Closing | Closed

record endpoint =
  ep_con :: connection
  ep_read_buffer_size :: nat
  ep_read_buf :: bytes
  ep_publish_queue :: "v5_publish list"
  ep_close_queue :: "op option list"
  ep_timer :: "timer_kind \<Rightarrow> nat option"
  ep_close_delay :: nat
  ep_retry_queue :: "(nat \<times> bool) list"
  ep_next_retry :: nat
  ep_packet_id_released :: bool
  ep_status :: close_status
  ep_recv_events :: "event list"

definition endpoint_init :: "role \<Rightarrow> nat \<Rightarrow> protocol_version \<Rightarrow> endpoint" where
  "endpoint_init r n ver =
     \<lparr>ep_con = connection_init r n ver, ep_read_buffer_size = 65535, ep_read_buf = [], ep_publish_queue = [],
      ep_close_queue = [], ep_timer = (\<lambda>_. None), ep_close_delay = 0, ep_retry_queue = [], ep_next_retry = 0,
      ep_packet_id_released = False, ep_status = Closed, ep_recv_events = []\<rparr>"

text \<open>A call of \<^verbatim>\<open>rv_connection\<close>: the events of the call are moved out.\<close>

definition rv :: "(connection \<Rightarrow> failure + connection) \<Rightarrow> endpoint \<Rightarrow> failure + event list \<times> endpoint" where
  "rv f e = bindE (f (ep_con e)) (\<lambda>c. Inr (cn_events c, e\<lparr>ep_con := c\<lparr>cn_events := []\<rparr>\<rparr>))"

subsection \<open>Timers and waiters\<close>

definition cancel_timer :: "timer_kind \<Rightarrow> endpoint \<Rightarrow> endpoint" where
  "cancel_timer k e = e\<lparr>ep_timer := (ep_timer e)(k := None)\<rparr>"

definition start_timer :: "timer_kind \<Rightarrow> nat \<Rightarrow> endpoint \<Rightarrow> endpoint" where
  "start_timer k ms e = e\<lparr>ep_timer := (ep_timer e)(k := Some ms)\<rparr>"

definition reset_pingreq_send_timer :: "nat option \<Rightarrow> endpoint \<Rightarrow> endpoint" where
  "reset_pingreq_send_timer ms e =
     (let e = cancel_timer Pingreq_send e in
      if can_send_as_client (cn_role (ep_con e))
      then (case ms of Some d \<Rightarrow> start_timer Pingreq_send d e | None \<Rightarrow> e) else e)"

definition reset_pingreq_recv_timer :: "nat option \<Rightarrow> endpoint \<Rightarrow> endpoint" where
  "reset_pingreq_recv_timer ms e =
     (let e = cancel_timer Pingreq_recv e in
      if can_send_as_server (cn_role (ep_con e))
      then (case ms of Some d \<Rightarrow> start_timer Pingreq_recv d e | None \<Rightarrow> e) else e)"

text \<open>Unlike the others, this one leaves the timer alone when there is no duration.\<close>

definition reset_pingresp_recv_timer :: "nat option \<Rightarrow> endpoint \<Rightarrow> endpoint" where
  "reset_pingresp_recv_timer ms e =
     (if can_send_as_client (cn_role (ep_con e))
      then (case ms of Some d \<Rightarrow> start_timer Pingresp_recv d (cancel_timer Pingresp_recv e) | None \<Rightarrow> e) else e)"

fun notify_retry_one :: "(nat \<times> bool) list \<Rightarrow> (nat \<times> bool) list" where
  "notify_retry_one [] = []"
| "notify_retry_one ((t, cancelled) # q) = (if cancelled then (t, cancelled) # notify_retry_one q else (t, True) # q)"

definition notify_release_pid :: "endpoint \<Rightarrow> endpoint" where
  "notify_release_pid e = e\<lparr>ep_packet_id_released := True, ep_retry_queue := notify_retry_one (ep_retry_queue e)\<rparr>"

definition enqueue_publish :: "v5_publish \<Rightarrow> endpoint \<Rightarrow> endpoint" where
  "enqueue_publish p e =
     (if qos_1_or_2 (opts_get_qos (v5_publish_opts p)) then
        (let vacancy = get_receive_maximum_vacancy_for_send (ep_con e) in
         if vacancy = Some 0 \<or> ep_publish_queue e \<noteq> [] then e\<lparr>ep_publish_queue := ep_publish_queue e @ [p]\<rparr> else e)
      else e)"

subsection \<open>Sending\<close>

definition packet_enqueued :: error_code where "packet_enqueued = mqtt_err 0x102"
definition packet_identifier_fully_used :: error_code where "packet_identifier_fully_used = mqtt_err 0x181"
definition packet_identifier_conflict :: error_code where "packet_identifier_conflict = mqtt_err 0x182"

definition new_send_op :: "packet_variant \<Rightarrow> bool \<Rightarrow> bool \<Rightarrow> send_op" where
  "new_send_op p static from_queue =
     \<lparr>so_packet = p, so_static = static, so_from_queue = from_queue, so_decided_error = None, so_events = [],
      so_disconnect_sent = False, so_state = So_dispatch\<rparr>"

definition init_send :: "packet_variant \<Rightarrow> bool \<Rightarrow> bool \<Rightarrow> op" where
  "init_send p static from_queue = Send_op (new_send_op p static from_queue)"

text \<open>
  A PUBLISH that exceeds the receive maximum is queued. That branch is compiled for a packet of the
  static type \<^verbatim>\<open>v5::basic_publish_packet\<close> only.
\<close>

definition queued_publish :: "send_op \<Rightarrow> error_code \<Rightarrow> v5_publish option" where
  "queued_publish o1 ec =
     (if ec = disconnect_code receive_maximum_exceeded \<and> so_static o1
      then (case so_packet o1 of V5_publish p \<Rightarrow> Some p | _ \<Rightarrow> None) else None)"

text \<open>\<^verbatim>\<open>while (it != events->end()) if (!process_one_event(self)) return;\<close>\<close>

fun send_process :: "event list \<Rightarrow> send_op \<Rightarrow> endpoint \<Rightarrow> failure + endpoint \<times> action list" where
  "send_process [] o1 e = Inr (e, [Resume (Send_op (o1\<lparr>so_events := [], so_state := So_complete\<rparr>))])"
| "send_process (On_error ec # evs) o1 e =
     (case queued_publish o1 ec of
        Some p \<Rightarrow>
          (let (success, c) = register_packet_id (v5_publish_packet_id p) (ep_con e); e = e\<lparr>ep_con := c\<rparr> in
           if success then send_process evs (o1\<lparr>so_decided_error := Some packet_enqueued\<rparr>) (enqueue_publish p e)
           else Inl Undefined)
      | None \<Rightarrow> send_process evs (o1\<lparr>so_decided_error := Some ec\<rparr>) e)"
| "send_process (On_timer_op t Pingreq_send ms # evs) o1 e =
     send_process evs o1 (case t of Timer_reset \<Rightarrow> reset_pingreq_send_timer ms e | Timer_cancel \<Rightarrow> cancel_timer Pingreq_send e)"
| "send_process (On_timer_op t Pingreq_recv ms # evs) o1 e =
     (case t of Timer_cancel \<Rightarrow> send_process evs o1 (cancel_timer Pingreq_recv e) | Timer_reset \<Rightarrow> Inl Undefined)"
| "send_process (On_timer_op t Pingresp_recv ms # evs) o1 e =
     (case t of Timer_reset \<Rightarrow> send_process evs o1 (reset_pingresp_recv_timer ms e) | Timer_cancel \<Rightarrow> Inl Undefined)"
| "send_process (On_packet_id_release i # evs) o1 e = send_process evs o1 (notify_release_pid e)"
| "send_process (On_send p rel # evs) o1 e =
     Inr (e, [Write p rel (Some (Send_op (o1\<lparr>so_state := So_sent, so_disconnect_sent := is_disconnect p, so_events := evs\<rparr>)))])"
| "send_process (On_close # evs) o1 e =
     (let o2 = Send_op (o1\<lparr>so_state := So_close, so_events := evs\<rparr>) in
      Inr (e, [if so_disconnect_sent o1 \<and> ep_close_delay e \<noteq> 0 then Delay (ep_close_delay e) o2 else Resume o2]))"
| "send_process (On_receive p # evs) o1 e = Inl Undefined"

text \<open>The identifier of a packet that could not be written is released; the events of that call are discarded.\<close>

definition run_send :: "send_op \<Rightarrow> io_result \<Rightarrow> endpoint \<Rightarrow> failure + endpoint \<times> action list" where
  "run_send o1 r e =
     (if ec_failed (io_ec r) then
        bindE (case io_rel r of Some i \<Rightarrow> rv (\<lambda>c. Inr (release_packet_id i c)) e | None \<Rightarrow> Inr ([], e)) (\<lambda>(_, e).
        Inr (e, [Done (Sent (io_ec r))]))
      else
        (case so_state o1 of
           So_dispatch \<Rightarrow> Inr (e, [Resume (Send_op (o1\<lparr>so_state := So_write\<rparr>))])
         | So_write \<Rightarrow> bindE (rv (send (so_packet o1)) e) (\<lambda>(evs, e). send_process evs o1 e)
         | So_sent \<Rightarrow> send_process (so_events o1) o1 e
         | So_close \<Rightarrow> Inr (e, [Resume (Close_op Co_dispatch (Some (Send_op (o1\<lparr>so_state := So_complete\<rparr>))))])
         | So_complete \<Rightarrow>
             Inr (e, [Done (Sent (case so_decided_error o1 of Some ec \<Rightarrow> ec | None \<Rightarrow> io_ec r))])))"

subsection \<open>Closing\<close>

definition complete_close :: "op option \<Rightarrow> action" where
  "complete_close k = (case k of None \<Rightarrow> Done Close_done | Some o1 \<Rightarrow> Resume o1)"

fun close_process :: "event list \<Rightarrow> endpoint \<Rightarrow> failure + endpoint" where
  "close_process [] e = Inr e"
| "close_process (On_timer_op t k ms # evs) e =
     (case t of Timer_cancel \<Rightarrow> close_process evs (cancel_timer k e) | Timer_reset \<Rightarrow> Inl Undefined)"
| "close_process (On_packet_id_release i # evs) e = close_process evs (notify_release_pid e)"
| "close_process (_ # evs) e = Inl Undefined"

text \<open>The state \<^verbatim>\<open>close\<close>: a request that comes while the stream is being closed waits in \<^verbatim>\<open>close_queue_\<close>.\<close>

definition request_close :: "op option \<Rightarrow> endpoint \<Rightarrow> endpoint \<times> action list" where
  "request_close k e =
     (case ep_status e of
        Open \<Rightarrow> (e\<lparr>ep_status := Closing\<rparr>, [Stream_close (Close_op Co_complete k)])
      | Closing \<Rightarrow> (e\<lparr>ep_close_queue := ep_close_queue e @ [k]\<rparr>, [])
      | Closed \<Rightarrow> (e, [complete_close k]))"

text \<open>\<^verbatim>\<open>close_queue_.poll()\<close> runs what waits there again, in the state \<^verbatim>\<open>close\<close>.\<close>

fun poll_close_queue :: "op option list \<Rightarrow> endpoint \<Rightarrow> endpoint \<times> action list" where
  "poll_close_queue [] e = (e, [])"
| "poll_close_queue (k # ks) e =
     (let (e, acts) = request_close k e; (e, acts') = poll_close_queue ks e in (e, acts @ acts'))"

fun run_close :: "close_state \<Rightarrow> op option \<Rightarrow> endpoint \<Rightarrow> failure + endpoint \<times> action list" where
  "run_close Co_dispatch k e = Inr (e, [Resume (Close_op Co_close k)])"
| "run_close Co_close k e = Inr (request_close k e)"
| "run_close Co_complete k e =
     bindE (rv (\<lambda>c. Inr (notify_closed c)) (e\<lparr>ep_status := Closed\<rparr>)) (\<lambda>(evs, e).
     bindE (close_process evs e) (\<lambda>e.
     (let (e, acts) = poll_close_queue (ep_close_queue e) (e\<lparr>ep_close_queue := []\<rparr>)
      in Inr (e, acts @ [complete_close k]))))"

subsection \<open>Receiving\<close>

definition new_recv_op :: "filter_kind option \<Rightarrow> control_packet_type set \<Rightarrow> recv_op" where
  "new_recv_op fil types =
     \<lparr>ro_fil = fil, ro_types = types, ro_decided_error = None, ro_recv_packet = None, ro_try_resend = False,
      ro_disconnect_sent = False, ro_state = Ro_dispatch\<rparr>"

definition init_recv :: "filter_kind option \<Rightarrow> control_packet_type set \<Rightarrow> op" where
  "init_recv fil types = Recv_op (new_recv_op fil types)"

text \<open>The loop of the state \<^verbatim>\<open>process\<close>, and what follows it.\<close>

fun recv_process :: "event list \<Rightarrow> recv_op \<Rightarrow> endpoint \<Rightarrow> failure + endpoint \<times> action list" where
  "recv_process [] o1 e =
     (let e = e\<lparr>ep_recv_events := []\<rparr> in
      case (ro_decided_error o1, ro_recv_packet o1) of
        (None, None) \<Rightarrow> Inr (e, [Resume (Recv_op (o1\<lparr>ro_state := Ro_check_buf\<rparr>))])
      | (Some _, Some _) \<Rightarrow> Inl Undefined
      | _ \<Rightarrow> Inr (e, [Resume (Recv_op (o1\<lparr>ro_state := Ro_complete\<rparr>))]))"
| "recv_process (On_error ec # evs) o1 e = recv_process evs (o1\<lparr>ro_decided_error := Some ec\<rparr>) e"
| "recv_process (On_send p rel # evs) o1 e =
     (if rel \<noteq> None then Inl Undefined
      else Inr (e\<lparr>ep_recv_events := evs\<rparr>,
             [Write p None (Some (Recv_op (o1\<lparr>ro_state := Ro_sent, ro_disconnect_sent := is_disconnect p\<rparr>)))]))"
| "recv_process (On_packet_id_release i # evs) o1 e =
     recv_process evs (o1\<lparr>ro_try_resend := True\<rparr>) (notify_release_pid e)"
| "recv_process (On_receive p # evs) o1 e =
     (if ro_recv_packet o1 \<noteq> None then Inl Undefined else recv_process evs (o1\<lparr>ro_recv_packet := Some p\<rparr>) e)"
| "recv_process (On_timer_op t Pingreq_send ms # evs) o1 e =
     recv_process evs o1 (case t of Timer_reset \<Rightarrow> reset_pingreq_send_timer ms e | Timer_cancel \<Rightarrow> cancel_timer Pingreq_send e)"
| "recv_process (On_timer_op t Pingreq_recv ms # evs) o1 e =
     recv_process evs o1 (case t of Timer_reset \<Rightarrow> reset_pingreq_recv_timer ms e | Timer_cancel \<Rightarrow> cancel_timer Pingreq_recv e)"
| "recv_process (On_timer_op t Pingresp_recv ms # evs) o1 e =
     (case t of Timer_cancel \<Rightarrow> recv_process evs o1 (reset_pingresp_recv_timer ms e) | Timer_reset \<Rightarrow> Inl Undefined)"
| "recv_process (On_close # evs) o1 e =
     Inr (e\<lparr>ep_recv_events := evs\<rparr>, [Resume (Close_op Co_dispatch (Some (Recv_op (o1\<lparr>ro_state := Ro_closed\<rparr>))))])"

text \<open>The vacancy is read once: either nothing is sent or the whole queue.\<close>

definition send_publish_from_queue :: "endpoint \<Rightarrow> endpoint \<times> action list" where
  "send_publish_from_queue e =
     (if ep_status e = Open \<and> get_receive_maximum_vacancy_for_send (ep_con e) \<noteq> Some 0
      then (e\<lparr>ep_publish_queue := []\<rparr>, map (\<lambda>p. Resume (init_send (V5_publish p) True True)) (ep_publish_queue e))
      else (e, []))"

definition filtered_out :: "recv_op \<Rightarrow> packet_variant \<Rightarrow> bool" where
  "filtered_out o1 p \<longleftrightarrow>
     ro_fil o1 = Some Filter_match \<and> packet_type p \<notin> ro_types o1 \<or> ro_fil o1 = Some Filter_except \<and> packet_type p \<in> ro_types o1"

text \<open>\<^verbatim>\<open>con_.recv(is_)\<close> reads from the buffer of the stream.\<close>

definition rv_recv :: "endpoint \<Rightarrow> failure + endpoint" where
  "rv_recv e =
     bindE (recv (ep_read_buf e) (ep_con e)) (\<lambda>(c, rest).
     Inr (e\<lparr>ep_con := c\<lparr>cn_events := []\<rparr>, ep_read_buf := rest, ep_recv_events := ep_recv_events e @ cn_events c\<rparr>))"

definition run_recv :: "recv_op \<Rightarrow> io_result \<Rightarrow> endpoint \<Rightarrow> failure + endpoint \<times> action list" where
  "run_recv o1 r e =
     (let go = (\<lambda>s. Resume (Recv_op (o1\<lparr>ro_state := s\<rparr>))) in
      if ec_failed (io_ec r) then
        (if io_ec r = operation_aborted then Inr (e, [Done (Received (io_ec r) (ro_recv_packet o1))])
         else Inr (e, [Resume (Close_op Co_dispatch
                (Some (Recv_op (o1\<lparr>ro_state := Ro_complete, ro_decided_error := Some (io_ec r)\<rparr>))))]))
      else
        (case ro_state o1 of
           Ro_dispatch \<Rightarrow> Inr (e, [go Ro_check_buf])
         | Ro_check_buf \<Rightarrow> Inr (e, [go (if ep_read_buf e = [] then Ro_read else Ro_read_istream)])
         | Ro_read_istream \<Rightarrow>
             bindE (rv_recv e) (\<lambda>e. Inr (e, [go (if ep_recv_events e = [] then Ro_read else Ro_process)]))
         | Ro_process \<Rightarrow> recv_process (ep_recv_events e) o1 e
         | Ro_read \<Rightarrow> Inr (e, [Read (ep_read_buffer_size e) (Recv_op (o1\<lparr>ro_state := Ro_finish_read\<rparr>))])
         | Ro_finish_read \<Rightarrow> Inr (e\<lparr>ep_read_buf := ep_read_buf e @ io_bytes r\<rparr>, [go Ro_read_istream])
         | Ro_sent \<Rightarrow> Inr (e, [go Ro_process])
         | Ro_closed \<Rightarrow> Inr (e, [go Ro_process])
         | Ro_complete \<Rightarrow>
             (case ro_decided_error o1 of
                Some ec \<Rightarrow> Inr (e, [Done (Received ec None)])
              | None \<Rightarrow>
                  (case ro_recv_packet o1 of
                     None \<Rightarrow> Inl Undefined
                   | Some p \<Rightarrow>
                       if filtered_out o1 p
                       then Inr (e, [Resume (Recv_op (o1\<lparr>ro_state := Ro_check_buf, ro_recv_packet := None\<rparr>))])
                       else
                         (let (e, sends) = (if ro_try_resend o1 then send_publish_from_queue e else (e, []))
                          in Inr (e, sends @ [Done (Received ec_success (Some p))]))))))"

subsection \<open>Keep alive timers\<close>

text \<open>The handlers of the three timers. Outside them, a timer that has fired is no longer waited for.\<close>

fun pingreq_send_events :: "event list \<Rightarrow> endpoint \<Rightarrow> failure + endpoint \<times> action list" where
  "pingreq_send_events [] e = Inr (e, [])"
| "pingreq_send_events (On_timer_op t Pingreq_send ms # evs) e =
     pingreq_send_events evs (case t of Timer_reset \<Rightarrow> reset_pingreq_send_timer ms e | Timer_cancel \<Rightarrow> cancel_timer Pingreq_send e)"
| "pingreq_send_events (On_timer_op t Pingresp_recv ms # evs) e =
     (case t of Timer_reset \<Rightarrow> pingreq_send_events evs (reset_pingresp_recv_timer ms e) | Timer_cancel \<Rightarrow> Inl Undefined)"
| "pingreq_send_events (On_send p rel # evs) e =
     (if rel \<noteq> None then Inl Undefined
      else bindE (pingreq_send_events evs e) (\<lambda>(e, acts). Inr (e, Write p None None # acts)))"
| "pingreq_send_events (_ # evs) e = Inl Undefined"

text \<open>A DISCONNECT of MQTT 5.0 has to be followed by the last event, a close.\<close>

definition disconnect_then_close :: "packet_variant \<Rightarrow> event list \<Rightarrow> endpoint \<Rightarrow> failure + endpoint \<times> action list" where
  "disconnect_then_close p evs e =
     (case (p, evs) of
        (V5_disconnect d, [On_close]) \<Rightarrow> Inr (e, [Write p None (Some (Close_op Co_dispatch None))])
      | _ \<Rightarrow> Inl Undefined)"

fun pingreq_recv_events :: "event list \<Rightarrow> endpoint \<Rightarrow> failure + endpoint \<times> action list" where
  "pingreq_recv_events [] e = Inr (e, [])"
| "pingreq_recv_events (On_timer_op t Pingreq_recv ms # evs) e =
     pingreq_recv_events evs (case t of Timer_reset \<Rightarrow> reset_pingreq_recv_timer ms e | Timer_cancel \<Rightarrow> cancel_timer Pingreq_recv e)"
| "pingreq_recv_events (On_send p rel # evs) e = disconnect_then_close p evs e"
| "pingreq_recv_events (On_close # evs) e =
     bindE (pingreq_recv_events evs e) (\<lambda>(e, acts). Inr (e, Resume (Close_op Co_dispatch None) # acts))"
| "pingreq_recv_events (_ # evs) e = Inl Undefined"

fun pingresp_recv_events :: "event list \<Rightarrow> endpoint \<Rightarrow> failure + endpoint \<times> action list" where
  "pingresp_recv_events [] e = Inr (e, [])"
| "pingresp_recv_events (On_timer_op t Pingresp_recv ms # evs) e =
     pingresp_recv_events evs
       (case t of Timer_reset \<Rightarrow> reset_pingresp_recv_timer ms e | Timer_cancel \<Rightarrow> cancel_timer Pingresp_recv e)"
| "pingresp_recv_events (On_timer_op t Pingreq_send ms # evs) e =
     (case t of Timer_cancel \<Rightarrow> pingresp_recv_events evs (cancel_timer Pingreq_send e) | Timer_reset \<Rightarrow> Inl Undefined)"
| "pingresp_recv_events (On_send p rel # evs) e = disconnect_then_close p evs e"
| "pingresp_recv_events (On_close # evs) e =
     bindE (pingresp_recv_events evs e) (\<lambda>(e, acts). Inr (e, Resume (Close_op Co_dispatch None) # acts))"
| "pingresp_recv_events (_ # evs) e = Inl Undefined"

definition timer_fired :: "timer_kind \<Rightarrow> endpoint \<Rightarrow> failure + endpoint \<times> action list" where
  "timer_fired k e =
     bindE (rv (notify_timer_fired k) (cancel_timer k e)) (\<lambda>(evs, e).
     (case k of
        Pingreq_send \<Rightarrow> pingreq_send_events evs e
      | Pingreq_recv \<Rightarrow> pingreq_recv_events evs e
      | Pingresp_recv \<Rightarrow> pingresp_recv_events evs e))"

text \<open>\<^verbatim>\<open>set_pingreq_send_interval\<close> of the endpoint.\<close>

fun interval_events :: "event list \<Rightarrow> endpoint \<Rightarrow> failure + endpoint" where
  "interval_events [] e = Inr e"
| "interval_events (On_timer_op t Pingreq_send ms # evs) e =
     interval_events evs (case t of Timer_reset \<Rightarrow> reset_pingreq_send_timer ms e | Timer_cancel \<Rightarrow> cancel_timer Pingreq_send e)"
| "interval_events (_ # evs) e = Inl Undefined"

definition ep_set_pingreq_send_interval :: "nat \<Rightarrow> endpoint \<Rightarrow> failure + endpoint" where
  "ep_set_pingreq_send_interval ms e =
     bindE (rv (\<lambda>c. Inr (set_pingreq_send_interval ms c)) e) (\<lambda>(evs, e). interval_events evs e)"

subsection \<open>Packet identifiers and the other calls\<close>

text \<open>\<^verbatim>\<open>add_retry_op\<close>: a timer that never expires joins the waiters; cancelling it wakes the waiter.\<close>

definition add_retry :: "op \<Rightarrow> endpoint \<Rightarrow> endpoint \<times> action list" where
  "add_retry o1 e =
     (let t = ep_next_retry e in
      (e\<lparr>ep_next_retry := t + 1, ep_retry_queue := ep_retry_queue e @ [(t, False)]\<rparr>, [Retry_wait t o1]))"

definition retry_woken :: "nat \<Rightarrow> endpoint \<Rightarrow> endpoint" where
  "retry_woken t e =
     (if ep_packet_id_released e then e
      else e\<lparr>ep_retry_queue := filter (\<lambda>x. fst x \<noteq> t) (ep_retry_queue e)\<rparr>)"

definition complete_retry_one :: "endpoint \<Rightarrow> endpoint" where
  "complete_retry_one e = e\<lparr>ep_retry_queue := tl (ep_retry_queue e)\<rparr>"

definition acquire_or_wait :: "endpoint \<Rightarrow> endpoint \<times> action list" where
  "acquire_or_wait e =
     (let (pid, c) = acquire_unique_packet_id (ep_con e); e = e\<lparr>ep_con := c\<rparr> in
      case pid of
        Some i \<Rightarrow> (e, [Done (Acquired ec_success i)])
      | None \<Rightarrow> add_retry (Acquire_wait_op True) (e\<lparr>ep_packet_id_released := False\<rparr>))"

definition run_acquire_wait :: "bool \<Rightarrow> io_result \<Rightarrow> endpoint \<Rightarrow> endpoint \<times> action list" where
  "run_acquire_wait dispatched r e =
     (if \<not> dispatched then (e, [Resume (Acquire_wait_op True)])
      else if io_ec r = operation_aborted then
        (if ep_packet_id_released e then acquire_or_wait (complete_retry_one e)
         else (e, [Done (Acquired (io_ec r) 0)]))
      else if ep_retry_queue e \<noteq> [] then add_retry (Acquire_wait_op True) e
      else acquire_or_wait e)"

fun release_events :: "event list \<Rightarrow> endpoint \<Rightarrow> failure + endpoint" where
  "release_events [] e = Inr e"
| "release_events (On_packet_id_release i # evs) e = release_events evs (notify_release_pid e)"
| "release_events (_ # evs) e = Inl Undefined"

definition acquire_unique_packet_id_op :: "endpoint \<Rightarrow> failure + endpoint \<times> completion" where
  "acquire_unique_packet_id_op e =
     (let (pid, c) = acquire_unique_packet_id (ep_con e) in
      Inr (e\<lparr>ep_con := c\<rparr>,
        case pid of Some i \<Rightarrow> Acquired ec_success i | None \<Rightarrow> Acquired packet_identifier_fully_used 0))"

definition register_packet_id_op :: "nat \<Rightarrow> endpoint \<Rightarrow> failure + endpoint \<times> completion" where
  "register_packet_id_op i e =
     (let (success, c) = register_packet_id i (ep_con e) in
      Inr (e\<lparr>ep_con := c\<rparr>, Registered (if success then ec_success else packet_identifier_conflict)))"

definition release_packet_id_op :: "nat \<Rightarrow> endpoint \<Rightarrow> failure + endpoint \<times> completion" where
  "release_packet_id_op i e =
     bindE (rv (\<lambda>c. Inr (release_packet_id i c)) e) (\<lambda>(evs, e).
     bindE (release_events evs e) (\<lambda>e. Inr (e, Released)))"

definition get_stored_packets_op :: "endpoint \<Rightarrow> failure + endpoint \<times> completion" where
  "get_stored_packets_op e = Inr (e, Stored (get_stored_packets (ep_con e)))"

definition regulate_for_store_op :: "v5_publish \<Rightarrow> endpoint \<Rightarrow> failure + endpoint \<times> completion" where
  "regulate_for_store_op p e = bindE (regulate_for_store p (ep_con e)) (\<lambda>(ec, q). Inr (e, Regulated ec q))"

definition restore_packets_op :: "store_packet_variant list \<Rightarrow> endpoint \<Rightarrow> failure + endpoint \<times> completion" where
  "restore_packets_op pvs e = Inr (e\<lparr>ep_con := restore_packets pvs (ep_con e)\<rparr>, Restored)"

fun run_call :: "call \<Rightarrow> endpoint \<Rightarrow> failure + endpoint \<times> completion" where
  "run_call Call_acquire e = acquire_unique_packet_id_op e"
| "run_call (Call_register i) e = register_packet_id_op i e"
| "run_call (Call_release i) e = release_packet_id_op i e"
| "run_call Call_get_stored e = get_stored_packets_op e"
| "run_call (Call_regulate p) e = regulate_for_store_op p e"
| "run_call (Call_restore pvs) e = restore_packets_op pvs e"

fun run_handshake :: "handshake_state \<Rightarrow> io_result \<Rightarrow> endpoint \<Rightarrow> endpoint \<times> action list" where
  "run_handshake Ho_dispatch r e = (e, [Resume (Handshake_op Ho_handshake)])"
| "run_handshake Ho_handshake r e = (e, [Handshake (Handshake_op Ho_complete)])"
| "run_handshake Ho_complete r e =
     (if ec_failed (io_ec r) then e else e\<lparr>ep_status := Open\<rparr>, [Done (Handshaken (io_ec r))])"

definition underlying_accepted :: "endpoint \<Rightarrow> endpoint" where
  "underlying_accepted e = e\<lparr>ep_status := Open\<rparr>"

text \<open>The synchronous functions. Releasing an identifier discards the events of the call.\<close>

datatype sync_call =
    Sync_set_offline_publish bool
  | Sync_set_auto_pub_response bool
  | Sync_set_auto_ping_response bool
  | Sync_set_auto_map_topic_alias_send bool
  | Sync_set_auto_replace_topic_alias_send bool
  | Sync_set_pingresp_recv_timeout nat
  | Sync_set_close_delay nat
  | Sync_set_read_buffer_size nat
  | Sync_set_pingreq_send_interval nat
  | Sync_acquire
  | Sync_register nat
  | Sync_release nat
  | Sync_restore "store_packet_variant list"
  | Sync_restore_handled "nat set"

fun sync :: "sync_call \<Rightarrow> endpoint \<Rightarrow> failure + endpoint" where
  "sync (Sync_set_offline_publish b) e = Inr (e\<lparr>ep_con := set_offline_publish b (ep_con e)\<rparr>)"
| "sync (Sync_set_auto_pub_response b) e = Inr (e\<lparr>ep_con := set_auto_pub_response b (ep_con e)\<rparr>)"
| "sync (Sync_set_auto_ping_response b) e = Inr (e\<lparr>ep_con := set_auto_ping_response b (ep_con e)\<rparr>)"
| "sync (Sync_set_auto_map_topic_alias_send b) e = Inr (e\<lparr>ep_con := set_auto_map_topic_alias_send b (ep_con e)\<rparr>)"
| "sync (Sync_set_auto_replace_topic_alias_send b) e =
     Inr (e\<lparr>ep_con := set_auto_replace_topic_alias_send b (ep_con e)\<rparr>)"
| "sync (Sync_set_pingresp_recv_timeout ms) e = Inr (e\<lparr>ep_con := set_pingresp_recv_timeout ms (ep_con e)\<rparr>)"
| "sync (Sync_set_close_delay ms) e = Inr (e\<lparr>ep_close_delay := ms\<rparr>)"
| "sync (Sync_set_read_buffer_size n) e = Inr (e\<lparr>ep_read_buffer_size := n\<rparr>)"
| "sync (Sync_set_pingreq_send_interval ms) e = ep_set_pingreq_send_interval ms e"
| "sync Sync_acquire e = Inr (e\<lparr>ep_con := snd (acquire_unique_packet_id (ep_con e))\<rparr>)"
| "sync (Sync_register i) e = Inr (e\<lparr>ep_con := snd (register_packet_id i (ep_con e))\<rparr>)"
| "sync (Sync_release i) e = bindE (rv (\<lambda>c. Inr (release_packet_id i c)) e) (\<lambda>(_, e). Inr e)"
| "sync (Sync_restore pvs) e = Inr (e\<lparr>ep_con := restore_packets pvs (ep_con e)\<rparr>)"
| "sync (Sync_restore_handled pids) e = Inr (e\<lparr>ep_con := restore_qos2_publish_handled_pids pids (ep_con e)\<rparr>)"

subsection \<open>The executor\<close>

text \<open>\<^verbatim>\<open>operator()\<close> of the operations.\<close>

definition run :: "op \<Rightarrow> io_result \<Rightarrow> endpoint \<Rightarrow> failure + endpoint \<times> action list" where
  "run o1 r e =
     (case o1 of
        Send_op s \<Rightarrow> run_send s r e
      | Recv_op s \<Rightarrow> run_recv s r e
      | Close_op s k \<Rightarrow> run_close s k e
      | Acquire_wait_op dispatched \<Rightarrow> Inr (run_acquire_wait dispatched r e)
      | Call_op dispatched c \<Rightarrow>
          (if dispatched then bindE (run_call c e) (\<lambda>(e, d). Inr (e, [Done d]))
           else Inr (e, [Resume (Call_op True c)]))
      | Handshake_op s \<Rightarrow> Inr (run_handshake s r e))"

text \<open>
  What a pending action may report. A stream that is being closed completes no handshake; the timer
  of a waiter never expires, it can only be cancelled.
\<close>

fun action_reports :: "action \<Rightarrow> endpoint \<Rightarrow> io_result \<Rightarrow> op \<Rightarrow> bool" where
  "action_reports (Resume o1) e r o2 \<longleftrightarrow> o2 = o1 \<and> r = io_ok"
| "action_reports (Write p rel (Some o1)) e r o2 \<longleftrightarrow> o2 = o1 \<and> io_rel r = rel"
| "action_reports (Read n o1) e r o2 \<longleftrightarrow> o2 = o1 \<and> io_rel r = None \<and> length (io_bytes r) \<le> n"
| "action_reports (Stream_close o1) e r o2 \<longleftrightarrow> o2 = o1 \<and> io_rel r = None"
| "action_reports (Delay ms o1) e r o2 \<longleftrightarrow> o2 = o1 \<and> io_rel r = None"
| "action_reports (Retry_wait t o1) e r o2 \<longleftrightarrow> o2 = o1 \<and> io_ec r = operation_aborted"
| "action_reports (Handshake o1) e r o2 \<longleftrightarrow> o2 = o1 \<and> (ec_failed (io_ec r) \<or> ep_status e \<noteq> Closing)"
| "action_reports _ e r o2 \<longleftrightarrow> False"

definition woken :: "action \<Rightarrow> endpoint \<Rightarrow> endpoint" where
  "woken a e = (case a of Retry_wait t o1 \<Rightarrow> retry_woken t e | _ \<Rightarrow> e)"

fun user_op :: "op \<Rightarrow> bool" where
  "user_op (Send_op s) \<longleftrightarrow> Send_op s = init_send (so_packet s) (so_static s) False"
| "user_op (Recv_op s) \<longleftrightarrow> Recv_op s = init_recv (ro_fil s) (ro_types s)"
| "user_op (Close_op s k) \<longleftrightarrow> s = Co_dispatch \<and> k = None"
| "user_op (Acquire_wait_op dispatched) \<longleftrightarrow> \<not> dispatched"
| "user_op (Call_op dispatched c) \<longleftrightarrow> \<not> dispatched"
| "user_op (Handshake_op s) \<longleftrightarrow> s = Ho_dispatch"

type_synonym ep_state = "endpoint \<times> action list"

text \<open>
  One step: a pending action reports and its operation runs, a completion is handed out, a
  detached write ends, a timer fires, the user starts an operation or calls a function, or time passes.
  The stream is not opened while it is being closed.
\<close>

inductive ep_step :: "ep_state \<Rightarrow> ep_state \<Rightarrow> bool" where
  report: "action_reports a e r o1 \<Longrightarrow> run o1 r (woken a e) = Inr (e', new) \<Longrightarrow>
     ep_step (e, xs @ a # ys) (e', xs @ ys @ new)"
| hand_out: "ep_step (e, xs @ Done d # ys) (e, xs @ ys)"
| detached: "ep_step (e, xs @ Write p rel None # ys) (e, xs @ ys)"
| fire: "ep_timer e k \<noteq> None \<Longrightarrow> timer_fired k e = Inr (e', new) \<Longrightarrow> ep_step (e, acts) (e', acts @ new)"
| start: "user_op o1 \<Longrightarrow> ep_step (e, acts) (e, acts @ [Resume o1])"
| call: "sync s e = Inr e' \<Longrightarrow> ep_step (e, acts) (e', acts)"
| clock: "ep_step (e, acts) (e\<lparr>ep_con := (ep_con e)\<lparr>cn_now := t\<rparr>\<rparr>, acts)"
| accept: "ep_status e \<noteq> Closing \<Longrightarrow> ep_step (e, acts) (underlying_accepted e, acts)"

inductive ep_reachable :: "role \<Rightarrow> nat \<Rightarrow> protocol_version \<Rightarrow> ep_state \<Rightarrow> bool" for r n ver where
  init: "ep_reachable r n ver (endpoint_init r n ver, [])"
| step: "ep_reachable r n ver s \<Longrightarrow> ep_step s s' \<Longrightarrow> ep_reachable r n ver s'"

end
