(* ===== verification/Endpoint_Run.thy ===== *)
theory Endpoint_Run
  imports Endpoint
begin

text \<open>
  Every schedule of an endpoint: its operations reach the engine through the engine's interface
  only, and a stream is closed once however often and by whomever that is asked for.
\<close>

subsection \<open>What an operation may change\<close>

text \<open>\<open>engine_path c d\<close>: the engine went from \<open>c\<close> to \<open>d\<close> by calls without events or whose events were taken.\<close>

inductive engine_path :: "connection \<Rightarrow> connection \<Rightarrow> bool" where
  none: "engine_path c c"
| silent: "engine_path c d \<Longrightarrow> api a d = Inr d' \<Longrightarrow> cn_events d' = cn_events d \<Longrightarrow> engine_path c d'"
| taken: "engine_path c d \<Longrightarrow> api a d = Inr d' \<Longrightarrow> engine_path c (d'\<lparr>cn_events := []\<rparr>)"

definition ep_frame :: "endpoint \<Rightarrow> endpoint \<Rightarrow> bool" where
  "ep_frame e e' \<longleftrightarrow>
     engine_path (ep_con e) (ep_con e') \<and> ep_status e' = ep_status e \<and> ep_close_queue e' = ep_close_queue e"

text \<open>
  Two operations wait for one report only: the end of a close of the stream and of a handshake.
  \<open>free_op\<close>: what can be resumed otherwise, with its continuation. \<open>quiet\<close>: an action that starts
  no close of the stream.
\<close>

fun free_op :: "op \<Rightarrow> bool" where
  "free_op (Close_op s None) \<longleftrightarrow> s \<noteq> Co_complete"
| "free_op (Close_op s (Some o1)) \<longleftrightarrow> s \<noteq> Co_complete \<and> free_op o1"
| "free_op (Handshake_op s) \<longleftrightarrow> s \<noteq> Ho_complete"
| "free_op _ \<longleftrightarrow> True"

fun quiet :: "action \<Rightarrow> bool" where
  "quiet (Resume o1) \<longleftrightarrow> free_op o1"
| "quiet (Write p rel None) \<longleftrightarrow> True"
| "quiet (Write p rel (Some o1)) \<longleftrightarrow> free_op o1"
| "quiet (Read n o1) \<longleftrightarrow> free_op o1"
| "quiet (Delay ms o1) \<longleftrightarrow> free_op o1"
| "quiet (Retry_wait t o1) \<longleftrightarrow> free_op o1"
| "quiet (Handshake o1) \<longleftrightarrow> o1 = Handshake_op Ho_complete"
| "quiet (Stream_close o1) \<longleftrightarrow> False"
| "quiet (Done d) \<longleftrightarrow> True"

fun stream_closes :: "action list \<Rightarrow> nat" where
  "stream_closes [] = 0"
| "stream_closes (Stream_close o1 # acts) = Suc (stream_closes acts)"
| "stream_closes (_ # acts) = stream_closes acts"

lemma stream_closes_append [simp]: "stream_closes (xs @ ys) = stream_closes xs + stream_closes ys"
  by (induction xs rule: stream_closes.induct) simp_all

lemma quiet_closes: "list_all quiet acts \<Longrightarrow> stream_closes acts = 0"
  by (induction acts rule: stream_closes.induct) simp_all

lemma engine_path_trans: "engine_path b c \<Longrightarrow> engine_path a b \<Longrightarrow> engine_path a c"
  by (induction rule: engine_path.induct) (auto intro: engine_path.intros)

lemma engine_path_silent: "api a c = Inr d \<Longrightarrow> cn_events d = cn_events c \<Longrightarrow> engine_path c d"
  by (rule engine_path.silent [OF engine_path.none])

lemma engine_path_events: "engine_path c d \<Longrightarrow> cn_events c = [] \<Longrightarrow> cn_events d = []"
  by (induction rule: engine_path.induct) simp_all

lemma frame_refl [simp]: "ep_frame e e"
  by (simp add: ep_frame_def engine_path.none)

lemma frame_trans: "ep_frame a b \<Longrightarrow> ep_frame b c \<Longrightarrow> ep_frame a c"
  by (auto simp: ep_frame_def intro: engine_path_trans)

text \<open>Updates of the other members.\<close>

lemma frame_members [simp]:
  "ep_frame e (e'\<lparr>ep_read_buffer_size := n\<rparr>) = ep_frame e e'"
  "ep_frame e (e'\<lparr>ep_read_buf := buf\<rparr>) = ep_frame e e'"
  "ep_frame e (e'\<lparr>ep_publish_queue := q\<rparr>) = ep_frame e e'"
  "ep_frame e (e'\<lparr>ep_timer := t\<rparr>) = ep_frame e e'"
  "ep_frame e (e'\<lparr>ep_close_delay := n\<rparr>) = ep_frame e e'"
  "ep_frame e (e'\<lparr>ep_retry_queue := rq\<rparr>) = ep_frame e e'"
  "ep_frame e (e'\<lparr>ep_next_retry := n\<rparr>) = ep_frame e e'"
  "ep_frame e (e'\<lparr>ep_packet_id_released := b\<rparr>) = ep_frame e e'"
  "ep_frame e (e'\<lparr>ep_recv_events := evs\<rparr>) = ep_frame e e'"
  by (simp_all add: ep_frame_def)

lemma frame_helpers [simp]:
  "ep_frame e (cancel_timer k e') = ep_frame e e'"
  "ep_frame e (start_timer k ms e') = ep_frame e e'"
  "ep_frame e (notify_release_pid e') = ep_frame e e'"
  "ep_frame e (enqueue_publish p e') = ep_frame e e'"
  "ep_frame e (complete_retry_one e') = ep_frame e e'"
  "ep_frame e (retry_woken t e') = ep_frame e e'"
  "ep_frame e (woken a e') = ep_frame e e'"
  by (simp_all add: cancel_timer_def start_timer_def notify_release_pid_def enqueue_publish_def complete_retry_one_def
        retry_woken_def woken_def Let_def split: action.split)

lemma frame_resets [simp]:
  "ep_frame e (reset_pingreq_send_timer ms e') = ep_frame e e'"
  "ep_frame e (reset_pingreq_recv_timer ms e') = ep_frame e e'"
  "ep_frame e (reset_pingresp_recv_timer ms e') = ep_frame e e'"
  by (simp_all add: reset_pingreq_send_timer_def reset_pingreq_recv_timer_def reset_pingresp_recv_timer_def Let_def
        split: option.split)

lemma frame_timer_case [simp]:
  "ep_frame e (case t of Timer_reset \<Rightarrow> reset_pingreq_send_timer ms e' | Timer_cancel \<Rightarrow> cancel_timer k e') = ep_frame e e'"
  "ep_frame e (case t of Timer_reset \<Rightarrow> reset_pingreq_recv_timer ms e' | Timer_cancel \<Rightarrow> cancel_timer k e') = ep_frame e e'"
  "ep_frame e (case t of Timer_reset \<Rightarrow> reset_pingresp_recv_timer ms e' | Timer_cancel \<Rightarrow> cancel_timer k e') = ep_frame e e'"
  by (simp_all split: timer_op.split)

text \<open>Calls of the engine.\<close>

lemma frame_con: "ep_frame e e' \<Longrightarrow> engine_path (ep_con e') c \<Longrightarrow> ep_frame e (e'\<lparr>ep_con := c\<rparr>)"
  by (auto simp: ep_frame_def intro: engine_path_trans)

lemma frame_rv:
  assumes "rv f e' = Inr (evs, e'')" and "\<And>c d. f c = Inr d \<Longrightarrow> \<exists>a. api a c = Inr d" and "ep_frame e e'"
  shows "ep_frame e e''"
proof -
  from assms(1) obtain c where "f (ep_con e') = Inr c" "e'' = e'\<lparr>ep_con := c\<lparr>cn_events := []\<rparr>\<rparr>"
    by (auto simp: rv_def bindE_eq_Inr)
  with assms show ?thesis by (auto intro!: frame_con dest!: assms(2) intro: engine_path.taken [OF engine_path.none])
qed

lemma api_calls:
  "api (Api_send p) c = send p c" "api (Api_timer_fired k) c = notify_timer_fired k c"
  "api Api_notify_closed c = Inr (notify_closed c)"
  by simp_all

lemma path_register: "register_packet_id i c = (b, d) \<Longrightarrow> engine_path c d"
  using engine_path_silent [of "Api_register_packet_id i" c d] by (auto simp: register_packet_id_def split: prod.splits)

text \<open>The loops over events.\<close>

lemma close_process_frame: "close_process evs e' = Inr e'' \<Longrightarrow> ep_frame e e' \<Longrightarrow> ep_frame e e''"
  by (induction evs e' arbitrary: e'' rule: close_process.induct) (auto split: timer_op.splits)

lemma release_events_frame: "release_events evs e' = Inr e'' \<Longrightarrow> ep_frame e e' \<Longrightarrow> ep_frame e e''"
  by (induction evs e' arbitrary: e'' rule: release_events.induct) auto

lemma interval_events_frame: "interval_events evs e' = Inr e'' \<Longrightarrow> ep_frame e e' \<Longrightarrow> ep_frame e e''"
  by (induction evs e' arbitrary: e'' rule: interval_events.induct) auto

lemma send_process_frame:
  "send_process evs o1 e' = Inr (e'', acts) \<Longrightarrow> ep_frame e e' \<Longrightarrow> ep_frame e e'' \<and> list_all quiet acts"
proof (induction evs o1 e' arbitrary: e'' rule: send_process.induct)
  case (2 ec evs o1 e')
  show ?case
  proof (cases "queued_publish o1 ec")
    case None
    with 2 show ?thesis by simp
  next
    case (Some p)
    obtain b c where reg: "register_packet_id (v5_publish_packet_id p) (ep_con e') = (b, c)" by fastforce
    with Some 2(3) have b by (auto split: if_splits)
    with 2(2) [OF Some, of "(b, c)" b c] 2(3) reg Some frame_con [OF 2(4) path_register [OF reg]] show ?thesis
      by (simp add: Let_def)
  qed
qed (auto simp: Let_def split: timer_op.splits if_splits)

lemma recv_process_frame:
  "recv_process evs o1 e' = Inr (e'', acts) \<Longrightarrow> ep_frame e e' \<Longrightarrow> ep_frame e e'' \<and> list_all quiet acts"
  by (induction evs o1 e' arbitrary: e'' rule: recv_process.induct)
     (auto simp: Let_def split: timer_op.splits option.splits if_splits)

lemma disconnect_then_close_frame:
  "disconnect_then_close p evs e' = Inr (e'', acts) \<Longrightarrow> e'' = e' \<and> list_all quiet acts"
  by (auto simp: disconnect_then_close_def split: packet_variant.splits list.splits event.splits)

lemma pingreq_send_events_frame:
  "pingreq_send_events evs e' = Inr (e'', acts) \<Longrightarrow> ep_frame e e' \<Longrightarrow> ep_frame e e'' \<and> list_all quiet acts"
  by (induction evs e' arbitrary: e'' acts rule: pingreq_send_events.induct)
     (auto simp: bindE_eq_Inr split: timer_op.splits if_splits)

lemma pingreq_recv_events_frame:
  "pingreq_recv_events evs e' = Inr (e'', acts) \<Longrightarrow> ep_frame e e' \<Longrightarrow> ep_frame e e'' \<and> list_all quiet acts"
  by (induction evs e' arbitrary: e'' acts rule: pingreq_recv_events.induct)
     (auto simp: bindE_eq_Inr dest: disconnect_then_close_frame split: timer_op.splits)

lemma pingresp_recv_events_frame:
  "pingresp_recv_events evs e' = Inr (e'', acts) \<Longrightarrow> ep_frame e e' \<Longrightarrow> ep_frame e e'' \<and> list_all quiet acts"
  by (induction evs e' arbitrary: e'' acts rule: pingresp_recv_events.induct)
     (auto simp: bindE_eq_Inr dest: disconnect_then_close_frame split: timer_op.splits)

subsection \<open>Operations and the engine\<close>

text \<open>The calls of \<^verbatim>\<open>rv_connection\<close>.\<close>

lemma frame_calls:
  "rv (send p) e' = Inr (evs, e'') \<Longrightarrow> ep_frame e e' \<Longrightarrow> ep_frame e e''"
  "rv (notify_timer_fired k) e' = Inr (evs, e'') \<Longrightarrow> ep_frame e e' \<Longrightarrow> ep_frame e e''"
  "rv (\<lambda>c. Inr (notify_closed c)) e' = Inr (evs, e'') \<Longrightarrow> ep_frame e e' \<Longrightarrow> ep_frame e e''"
  "rv (\<lambda>c. Inr (release_packet_id i c)) e' = Inr (evs, e'') \<Longrightarrow> ep_frame e e' \<Longrightarrow> ep_frame e e''"
  "rv (\<lambda>c. Inr (set_pingreq_send_interval ms c)) e' = Inr (evs, e'') \<Longrightarrow> ep_frame e e' \<Longrightarrow> ep_frame e e''"
  by (erule frame_rv;
      metis api.simps(1) api.simps(3) api.simps(4) api.simps(5) api.simps(14))+

lemmas calls_frame = frame_calls [OF _ frame_refl]

lemma rv_recv_frame: "rv_recv e' = Inr e'' \<Longrightarrow> ep_frame e e' \<Longrightarrow> ep_frame e e''"
proof -
  assume "rv_recv e' = Inr e''" and frame: "ep_frame e e'"
  then obtain c rest where "recv (ep_read_buf e') (ep_con e') = Inr (c, rest)"
    and e'': "e'' = e'\<lparr>ep_con := c\<lparr>cn_events := []\<rparr>, ep_read_buf := rest, ep_recv_events := ep_recv_events e' @ cn_events c\<rparr>"
    by (auto simp: rv_recv_def bindE_eq_Inr)
  then have "engine_path (ep_con e') (c\<lparr>cn_events := []\<rparr>)"
    by (intro engine_path.taken [OF engine_path.none, of "Api_recv (ep_read_buf e')"]) simp
  with frame show ?thesis by (simp add: e'' frame_con)
qed

lemma run_send_frame: "run_send o1 r e = Inr (e', acts) \<Longrightarrow> ep_frame e e' \<and> list_all quiet acts"
  by (auto simp: run_send_def bindE_eq_Inr split: if_splits send_state.splits option.splits
      dest: send_process_frame [OF _ calls_frame(1)] send_process_frame [OF _ frame_refl] intro: calls_frame)

lemma send_publish_from_queue_frame:
  "send_publish_from_queue e = (e', acts) \<Longrightarrow> ep_frame e e' \<and> list_all quiet acts"
  by (auto simp: send_publish_from_queue_def init_send_def list_all_iff split: if_splits)

lemma run_recv_frame: "run_recv o1 r e = Inr (e', acts) \<Longrightarrow> ep_frame e e' \<and> list_all quiet acts"
  by (auto simp: run_recv_def bindE_eq_Inr Let_def split: if_splits recv_state.splits option.splits prod.splits
      dest: recv_process_frame [where e = e] send_publish_from_queue_frame intro: rv_recv_frame)

lemma path_acquire: "acquire_unique_packet_id c = (i, d) \<Longrightarrow> engine_path c d"
  using engine_path_silent [of Api_acquire_packet_id c d] by (auto simp: acquire_unique_packet_id_def split: prod.splits)

lemma acquire_or_wait_frame: "acquire_or_wait e' = (e'', acts) \<Longrightarrow> ep_frame e e' \<Longrightarrow> ep_frame e e'' \<and> list_all quiet acts"
  by (auto simp: acquire_or_wait_def add_retry_def Let_def split: prod.splits option.splits intro!: frame_con path_acquire)

lemma run_acquire_wait_frame:
  "run_acquire_wait dispatched r e = (e', acts) \<Longrightarrow> ep_frame e e' \<and> list_all quiet acts"
  by (auto simp: run_acquire_wait_def add_retry_def Let_def split: if_splits dest: acquire_or_wait_frame [where e = e])

lemma silent_calls [simp]:
  "cn_events (set_offline_publish b c) = cn_events c" "cn_events (set_auto_pub_response b c) = cn_events c"
  "cn_events (set_auto_ping_response b c) = cn_events c" "cn_events (set_auto_map_topic_alias_send b c) = cn_events c"
  "cn_events (set_auto_replace_topic_alias_send b c) = cn_events c" "cn_events (set_pingresp_recv_timeout ms c) = cn_events c"
  "cn_events (restore_qos2_publish_handled_pids pids c) = cn_events c"
  "cn_events (snd (acquire_unique_packet_id c)) = cn_events c" "cn_events (snd (register_packet_id pid c)) = cn_events c"
  by (simp_all add: set_offline_publish_def set_auto_pub_response_def set_auto_ping_response_def
        set_auto_map_topic_alias_send_def set_auto_replace_topic_alias_send_def set_pingresp_recv_timeout_def
        restore_qos2_publish_handled_pids_def acquire_unique_packet_id_def register_packet_id_def split: prod.split)

lemma restore_packets_silent [simp]: "cn_events (restore_packets pvs c) = cn_events c"
proof -
  have store: "cn_events (restore_add_store p pid c) = cn_events c" for p pid c
    by (auto simp: restore_add_store_def register_packet_id_def Let_def split: prod.splits)
  have "cn_events (restore_packet pv c) = cn_events c" for pv c
    by (simp add: restore_packet_def Let_def store restore_add_publish_def split: store_var.split)
  then show ?thesis unfolding restore_packets_def by (rule fold_events)
qed

lemma frame_api: "api a (ep_con e) = Inr c \<Longrightarrow> cn_events c = cn_events (ep_con e) \<Longrightarrow> ep_frame e (e\<lparr>ep_con := c\<rparr>)"
  by (simp add: frame_con engine_path_silent)

lemmas call_ops = acquire_unique_packet_id_op_def register_packet_id_op_def release_packet_id_op_def get_stored_packets_op_def
  regulate_for_store_op_def restore_packets_op_def

lemma run_call_frame: "run_call c e = Inr (e', d) \<Longrightarrow> ep_frame e e'"
  by (cases c)
     (auto simp: call_ops bindE_eq_Inr split: prod.splits intro: frame_con path_acquire path_register calls_frame
        release_events_frame [OF _ calls_frame(4)] api.simps(16) [THEN frame_api])

lemma sync_frame: "sync s e = Inr e' \<Longrightarrow> ep_frame e e'"
  by (cases s)
     (auto simp: bindE_eq_Inr ep_set_pingreq_send_interval_def
        intro: calls_frame interval_events_frame [OF _ calls_frame(5)] api.simps(6-17) [THEN frame_api])

lemma timer_fired_frame: "timer_fired k e = Inr (e', acts) \<Longrightarrow> ep_frame e e' \<and> list_all quiet acts"
  by (cases k)
     (auto simp: timer_fired_def bindE_eq_Inr dest!: frame_calls(2) [where e = e] intro: frame_refl
      dest: pingreq_send_events_frame pingreq_recv_events_frame pingresp_recv_events_frame)

subsection \<open>Closing once\<close>

lemma poll_closed:
  "ep_status e = Closed \<Longrightarrow> poll_close_queue ks e = (e, map complete_close ks)"
  by (induction ks) (simp_all add: request_close_def)

lemma quiet_complete: "free_op (Close_op Co_dispatch k) \<Longrightarrow> quiet (complete_close k)"
  by (cases k) (simp_all add: complete_close_def)

text \<open>
  A close of the stream is under way exactly while the endpoint is closing, requests wait only
  then, and every pending action is where it belongs.
\<close>

definition closing_count :: "endpoint \<Rightarrow> nat" where
  "closing_count e = (if ep_status e = Closing then 1 else 0)"

definition placed :: "action \<Rightarrow> bool" where
  "placed a \<longleftrightarrow> quiet a \<or> (\<exists>k. a = Stream_close (Close_op Co_complete k) \<and> free_op (Close_op Co_dispatch k))"

definition close_ok :: "ep_state \<Rightarrow> bool" where
  "close_ok s \<longleftrightarrow>
     list_all placed (snd s) \<and> stream_closes (snd s) = closing_count (fst s) \<and>
     (ep_close_queue (fst s) \<noteq> [] \<longrightarrow> ep_status (fst s) = Closing) \<and>
     list_all (\<lambda>k. free_op (Close_op Co_dispatch k)) (ep_close_queue (fst s))"

text \<open>What a free operation does.\<close>

lemma run_free:
  assumes "run o1 r e = Inr (e', new)" and "free_op o1" and "\<forall>k. o1 \<noteq> Close_op Co_close k"
  shows "ep_frame e e' \<and> list_all quiet new"
  using assms
proof (cases o1)
  case (Close_op s k)
  with assms show ?thesis by (cases s; cases k) (auto simp: run_def)
next
  case (Handshake_op s)
  with assms show ?thesis by (cases s) (auto simp: run_def)
next
  case (Acquire_wait_op b)
  with assms(1) show ?thesis using run_acquire_wait_frame by (simp add: run_def)
qed (auto simp: run_def bindE_eq_Inr split: if_splits dest: run_send_frame run_recv_frame run_call_frame)

text \<open>The end of the close: everyone who waits is resumed.\<close>

lemma run_close_complete:
  assumes "run_close Co_complete k e = Inr (e', new)"
  shows "ep_status e' = Closed \<and> ep_close_queue e' = [] \<and> new = map complete_close (ep_close_queue e) @ [complete_close k] \<and>
    engine_path (ep_con e) (ep_con e')"
proof -
  let ?e = "e\<lparr>ep_status := Closed\<rparr>"
  from assms obtain evs e1 e2 where calls: "rv (\<lambda>c. Inr (notify_closed c)) ?e = Inr (evs, e1)" "close_process evs e1 = Inr e2"
    and e': "(let (e, acts) = poll_close_queue (ep_close_queue e2) (e2\<lparr>ep_close_queue := []\<rparr>) in Inr (e, acts @ [complete_close k])) =
      (Inr (e', new) :: failure + ep_state)"
    by (auto simp: bindE_eq_Inr)
  have frame: "ep_frame ?e e2" using close_process_frame [OF calls(2) calls_frame(3) [OF calls(1)]] .
  then have "ep_status e2 = Closed" "ep_close_queue e2 = ep_close_queue e" "engine_path (ep_con e) (ep_con e2)"
    by (simp_all add: ep_frame_def)
  with e' show ?thesis by (auto simp: poll_closed)
qed

lemma frame_close_ok:
  assumes "close_ok (e, acts)" and "ep_frame e e'" and "stream_closes acts' = stream_closes acts" and "list_all placed acts'"
  shows "close_ok (e', acts')"
  using assms by (simp add: close_ok_def ep_frame_def closing_count_def)

lemma quiet_placed: "list_all quiet acts \<Longrightarrow> list_all placed acts"
  by (auto simp: placed_def list_all_iff)

text \<open>The three reports that matter.\<close>

lemma request_close_ok:
  assumes "close_ok (e, xs @ a # ys)" and "quiet a" and "free_op (Close_op Co_dispatch k)" and "request_close k e = (e', new)"
  shows "close_ok (e', xs @ ys @ new)"
proof -
  have "stream_closes [a] = 0" using quiet_closes [of "[a]"] assms(2) by simp
  then have "stream_closes (xs @ a # ys) = stream_closes (xs @ ys)"
    using stream_closes_append [of "[a]" ys] by simp
  with assms show ?thesis
    using quiet_complete [of k] quiet_closes [of "[complete_close k]"]
    by (auto simp: request_close_def close_ok_def closing_count_def placed_def split: close_status.splits)
qed

lemma close_complete_ok:
  assumes "close_ok (e, xs @ Stream_close (Close_op Co_complete k) # ys)" and "run_close Co_complete k e = Inr (e', new)"
  shows "close_ok (e', xs @ ys @ new)"
proof -
  from run_close_complete [OF assms(2)] have e': "ep_status e' = Closed" "ep_close_queue e' = []"
    and new: "new = map complete_close (ep_close_queue e) @ [complete_close k]" by simp_all
  from assms(1) have "list_all quiet new"
    by (auto simp: new close_ok_def placed_def list_all_iff intro: quiet_complete)
  moreover from assms(1) have "stream_closes (xs @ ys) = 0"
    by (auto simp: close_ok_def closing_count_def split: if_splits)
  ultimately show ?thesis using assms(1) quiet_closes [of new] quiet_placed [of new] by (simp add: close_ok_def closing_count_def e')
qed

lemma handshake_ok:
  assumes "close_ok (e, xs @ Handshake o1 # ys)" and "ec_failed (io_ec r) \<or> ep_status e \<noteq> Closing"
    and "run_handshake Ho_complete r e = (e', new)"
  shows "close_ok (e', xs @ ys @ new)"
  using assms by (auto simp: close_ok_def closing_count_def placed_def split: if_splits)

lemma action_reports_cases:
  assumes "action_reports a e r o1" and "placed a"
  obtains (free) "free_op o1" "quiet a"
  | (closed) k where "a = Stream_close (Close_op Co_complete k)" "o1 = Close_op Co_complete k"
  | (opened) "a = Handshake (Handshake_op Ho_complete)" "o1 = Handshake_op Ho_complete" "ec_failed (io_ec r) \<or> ep_status e \<noteq> Closing"
  using assms by (cases "(a, e, r, o1)" rule: action_reports.cases) (auto simp: placed_def)

lemma drop_quiet:
  "quiet a \<Longrightarrow> stream_closes (xs @ a # ys) = stream_closes (xs @ ys)"
  using quiet_closes [of "[a]"] stream_closes_append [of "[a]" ys] by simp

lemma frame_woken: "ep_frame (woken a e) e' \<Longrightarrow> ep_frame e e'"
  by (rule frame_trans [of e "woken a e"]) simp_all

lemma woken_other [simp]: "woken (Stream_close o1) e = e" "woken (Handshake o1) e = e"
  by (simp_all add: woken_def)

lemma woken_members:
  "ep_status (woken a e) = ep_status e" "ep_close_queue (woken a e) = ep_close_queue e" "ep_con (woken a e) = ep_con e"
  by (simp_all add: woken_def retry_woken_def split: action.split)

lemma report_ok:
  assumes ok: "close_ok (e, xs @ a # ys)" and "action_reports a e r o1" and run: "run o1 r (woken a e) = Inr (e', new)"
  shows "close_ok (e', xs @ ys @ new) \<and> engine_path (ep_con e) (ep_con e')"
proof -
  from ok have "placed a" by (simp add: close_ok_def)
  with assms(2) show ?thesis
  proof (cases rule: action_reports_cases)
    case free
    show ?thesis
    proof (cases "\<exists>k. o1 = Close_op Co_close k")
      case True
      then obtain k where o1: "o1 = Close_op Co_close k" ..
      with run have "request_close k (woken a e) = (e', new)" by (simp add: run_def)
      moreover from o1 free(1) have "free_op (Close_op Co_dispatch k)" by (cases k) simp_all
      moreover have "close_ok (woken a e, xs @ a # ys)" using ok by (simp add: close_ok_def closing_count_def woken_members)
      ultimately have "close_ok (e', xs @ ys @ new)" using request_close_ok [OF _ free(2)] by blast
      moreover have "ep_con e' = ep_con e" using \<open>request_close k (woken a e) = (e', new)\<close>
        by (auto simp: request_close_def woken_members split: close_status.splits)
      ultimately show ?thesis by (simp add: engine_path.none)
    next
      case False
      with run_free [OF run free(1)] frame_woken have "ep_frame e e'" "list_all quiet new" by blast+
      moreover from ok have "list_all placed (xs @ ys)" by (simp add: close_ok_def)
      ultimately show ?thesis using frame_close_ok [OF ok, of e' "xs @ ys @ new"] drop_quiet [OF free(2)]
        by (simp add: quiet_closes quiet_placed) (simp add: ep_frame_def)
    qed
  next
    case (closed k)
    with run have "run_close Co_complete k e = Inr (e', new)" by (simp add: run_def)
    with close_complete_ok ok closed(1) run_close_complete show ?thesis by blast
  next
    case opened
    with run have hs: "run_handshake Ho_complete r e = (e', new)" by (simp add: run_def)
    with handshake_ok [OF ok [unfolded opened(1)] opened(3)] show ?thesis by (auto intro: engine_path.none split: if_splits)
  qed
qed

lemma user_free: "user_op o1 \<Longrightarrow> free_op o1"
  by (cases o1 rule: free_op.cases) (simp_all add: init_send_def init_recv_def)

lemma ep_step_ok:
  assumes "ep_step s s'" and "close_ok s"
  shows "close_ok s' \<and> engine_path (ep_con (fst s)) (ep_con (fst s'))"
  using assms
proof (cases rule: ep_step.cases)
  case (report a e r o1 e' new xs ys)
  with report_ok [of e xs a ys r o1 e' new] assms(2) show ?thesis by simp
next
  case (fire e k e' new acts)
  from timer_fired_frame [OF fire(4)] have "ep_frame e e'" "list_all quiet new" by simp_all
  with frame_close_ok [of e acts e' "acts @ new"] assms(2) show ?thesis
    by (simp add: fire(1,2) quiet_closes quiet_placed) (simp add: close_ok_def ep_frame_def)
next
  case (start o1 e acts)
  with user_free assms(2) show ?thesis by (simp add: close_ok_def placed_def engine_path.none)
next
  case (call c e e' acts)
  with sync_frame [of c e e'] frame_close_ok [of e acts e' acts] assms(2) show ?thesis
    by (simp add: close_ok_def ep_frame_def)
next
  case (clock e acts t)
  with assms(2) engine_path_silent [of "Api_clock t" "ep_con e"] show ?thesis by (simp add: close_ok_def closing_count_def)
next
  case (accept e acts)
  with assms(2) show ?thesis by (simp add: close_ok_def closing_count_def underlying_accepted_def engine_path.none)
qed (auto simp: close_ok_def engine_path.none)

lemma ep_reachable_ok: "ep_reachable r n ver s \<Longrightarrow> close_ok s"
proof (induction rule: ep_reachable.induct)
  case init
  show ?case by (simp add: close_ok_def endpoint_init_def closing_count_def)
next
  case (step s s')
  with ep_step_ok show ?case by blast
qed

subsection \<open>The end of a close never fails\<close>

fun closing_event :: "event \<Rightarrow> bool" where
  "closing_event (On_timer_op t k ms) \<longleftrightarrow> t = Timer_cancel"
| "closing_event (On_packet_id_release i) \<longleftrightarrow> True"
| "closing_event _ \<longleftrightarrow> False"

lemma close_process_total: "list_all closing_event evs \<Longrightarrow> \<exists>e'. close_process evs e = Inr e'"
  by (induction evs e rule: close_process.induct) auto

abbreviation closing_events :: "connection \<Rightarrow> bool" where
  "closing_events c \<equiv> list_all closing_event (cn_events c)"

lemma release_packet_ids_closing: "closing_events c \<Longrightarrow> closing_events (release_packet_ids ids c)"
proof -
  have one: "closing_events c \<Longrightarrow> closing_events (release_packet_id i c)" for i c
    by (simp add: release_packet_id_def release_and_notify_def emit_def)
  have "closing_events c \<Longrightarrow> closing_events (fold release_packet_id xs c)" for xs
    by (induction xs arbitrary: c) (simp_all add: one)
  then show "closing_events c \<Longrightarrow> closing_events (release_packet_ids ids c)"
    by (simp add: release_packet_ids_def)
qed

lemma notify_closed_closing:
  assumes "cn_events c = []" shows "closing_events (notify_closed c)"
proof -
  have "closing_events c \<Longrightarrow> closing_events (cancel_timers c)" for c
    by (simp add: cancel_timers_def emit_def Let_def)
  with assms show ?thesis
    by (simp add: notify_closed_def Let_def release_packet_ids_closing)
qed

lemma run_close_complete_total:
  assumes "cn_events (ep_con e) = []" shows "\<exists>s. run_close Co_complete k e = Inr s"
proof -
  let ?e = "e\<lparr>ep_status := Closed, ep_con := notify_closed (ep_con e)\<lparr>cn_events := []\<rparr>\<rparr>"
  from close_process_total [OF notify_closed_closing [OF assms], of ?e] show ?thesis
    by (auto simp: rv_def split: prod.split)
qed

subsection \<open>The engine under an endpoint\<close>

text \<open>
  What every call of the engine keeps, and what does not depend on the events it hands out, holds
  of the engine of every endpoint.
\<close>

locale engine_invariant =
  fixes P :: "connection \<Rightarrow> bool" and r :: role and n :: nat and ver :: protocol_version
  assumes P_init: "P (connection_init r n ver)"
    and P_api: "P c \<Longrightarrow> api a c = Inr d \<Longrightarrow> P d"
    and P_events: "P c \<Longrightarrow> P (c\<lparr>cn_events := evs\<rparr>)"
begin

lemma P_path: "engine_path c d \<Longrightarrow> P c \<Longrightarrow> P d"
  by (induction rule: engine_path.induct) (auto intro: P_api P_events)

theorem endpoint_keeps: "ep_reachable r n ver s \<Longrightarrow> P (ep_con (fst s))"
proof (induction rule: ep_reachable.induct)
  case init
  show ?case by (simp add: endpoint_init_def P_init)
next
  case (step s s')
  with ep_step_ok [OF step.hyps(2) ep_reachable_ok [OF step.hyps(1)]] show ?case by (blast intro: P_path)
qed

end

lemma ep_no_events: "ep_reachable r n ver s \<Longrightarrow> cn_events (ep_con (fst s)) = []"
proof (induction rule: ep_reachable.induct)
  case init
  show ?case by (simp add: endpoint_init_def connection_init_def)
next
  case (step s s')
  with ep_step_ok [OF step.hyps(2) ep_reachable_ok [OF step.hyps(1)]] show ?case by (blast intro: engine_path_events)
qed

interpretation builder_kept: engine_invariant "\<lambda>c. rpb_ok (cn_rpb c)" r n ver for r n ver
  by unfold_locales (auto simp: connection_init_def intro: builder_api)

interpretation store_kept: engine_invariant "\<lambda>c. store_ok (cn_store c) \<and> cn_role c = r \<and> cn_pid_bytes c = n" r n ver for r n ver
  by unfold_locales (auto simp: connection_init_def store_ok_def dest: store_api)

subsection \<open>Properties\<close>

text \<open>
  C10. However operations, timers, results of the network and calls of the user interleave, the
  stream is closed once at a time: a close is under way exactly while the endpoint is closing, and
  requests to close wait only then. When the stream reports the end, that report is processed
  without a failing assertion, the endpoint is closed, and the operation that started the close
  and every one that waits for it go on.
\<close>

theorem stream_closed_once:
  assumes "ep_reachable r n ver (e, acts)"
  shows "stream_closes acts = (if ep_status e = Closing then 1 else 0) \<and> (ep_close_queue e \<noteq> [] \<longrightarrow> ep_status e = Closing) \<and>
    (Stream_close o1 \<in> set acts \<longrightarrow>
       (\<exists>k e'. o1 = Close_op Co_complete k \<and> ep_status e' = Closed \<and> ep_close_queue e' = [] \<and>
          run o1 res e = Inr (e', map complete_close (ep_close_queue e) @ [complete_close k])))"
proof (intro conjI impI)
  from ep_reachable_ok [OF assms] have ok: "close_ok (e, acts)" .
  then show "stream_closes acts = (if ep_status e = Closing then 1 else 0)" "ep_close_queue e \<noteq> [] \<Longrightarrow> ep_status e = Closing"
    by (simp_all add: close_ok_def closing_count_def)
  assume "Stream_close o1 \<in> set acts"
  with ok obtain k where o1: "o1 = Close_op Co_complete k"
    by (auto simp: close_ok_def placed_def list_all_iff)
  from run_close_complete_total [of e k] ep_no_events [OF assms] obtain e' new where run: "run_close Co_complete k e = Inr (e', new)"
    by auto
  with run_close_complete [OF run] o1 show "\<exists>k e'. o1 = Close_op Co_complete k \<and> ep_status e' = Closed \<and> ep_close_queue e' = [] \<and>
      run o1 res e = Inr (e', map complete_close (ep_close_queue e) @ [complete_close k])"
    by (auto simp: run_def)
qed

text \<open>A server whose user closes it twice.\<close>

definition closing_twice :: ep_state where
  "closing_twice = ((endpoint_init Server 2 V3_1_1)\<lparr>ep_status := Closing, ep_close_queue := [None]\<rparr>,
     [Stream_close (Close_op Co_complete None)])"

lemma reachable_resume:
  assumes "ep_reachable r n ver (e, Resume o1 # acts)" and "run o1 io_ok e = Inr (e', new)"
  shows "ep_reachable r n ver (e', acts @ new)"
  using ep_reachable.step [OF assms(1)] ep_step.report [of "Resume o1" e io_ok o1 e' new "[]" acts] assms(2)
  by (simp add: woken_def)

lemma reachable_start: "ep_reachable r n ver (e, acts) \<Longrightarrow> user_op o1 \<Longrightarrow> ep_reachable r n ver (e, acts @ [Resume o1])"
  by (rule ep_reachable.step [OF _ ep_step.start])

lemma closing_twice_reachable: "ep_reachable Server 2 V3_1_1 closing_twice"
proof -
  let ?e = "(endpoint_init Server 2 V3_1_1)\<lparr>ep_status := Open\<rparr>" and ?c = "Close_op Co_dispatch None" and ?d = "Close_op Co_close None"
  have "ep_reachable Server 2 V3_1_1 (?e, [])"
    using ep_reachable.step [OF ep_reachable.init ep_step.accept] by (simp add: endpoint_init_def underlying_accepted_def)
  from reachable_start [OF this, of ?c] reachable_start [of Server 2 V3_1_1 ?e "[Resume ?c]" ?c]
  have "ep_reachable Server 2 V3_1_1 (?e, [Resume ?c, Resume ?c])" by simp
  then have "ep_reachable Server 2 V3_1_1 (?e, [Resume ?c, Resume ?d])" by (rule reachable_resume [where acts = "[Resume ?c]", simplified]) (simp add: run_def)
  then have "ep_reachable Server 2 V3_1_1 (?e, [Resume ?d, Resume ?d])" by (rule reachable_resume [where acts = "[Resume ?d]", simplified]) (simp add: run_def)
  then have "ep_reachable Server 2 V3_1_1 (?e\<lparr>ep_status := Closing\<rparr>, [Resume ?d, Stream_close (Close_op Co_complete None)])"
    by (rule reachable_resume [where acts = "[Resume ?d]", simplified]) (simp add: run_def request_close_def)
  then show ?thesis unfolding closing_twice_def
    by (rule reachable_resume [where new = "[]", simplified])
       (simp add: run_def request_close_def endpoint_init_def)
qed

theorem stream_closed_once_witness:
  "\<exists>e'. run (Close_op Co_complete None) io_ok (fst closing_twice) = Inr (e', [Done Close_done, Done Close_done]) \<and> ep_status e' = Closed"
  using stream_closed_once [OF closing_twice_reachable [unfolded closing_twice_def], of "Close_op Co_complete None" io_ok]
  by (auto simp: closing_twice_def complete_close_def)

end
