(* ===== verification/Endpoint_Recv.thy ===== *)
theory Endpoint_Recv
  imports Endpoint_Run
begin

text \<open>
  The receive operation of the endpoint: it always reaches the network, a close, or its completion;
  and what becomes of a received PINGRESP.
\<close>

subsection \<open>Every receive gets somewhere\<close>

text \<open>The operation resumed with success until it waits for something else than the executor.\<close>

fun recv_run :: "nat \<Rightarrow> recv_op \<Rightarrow> endpoint \<Rightarrow> (failure + endpoint \<times> action list) option" where
  "recv_run 0 o1 e = None"
| "recv_run (Suc n) o1 e =
     (case run_recv o1 io_ok e of
        Inr (e', [Resume (Recv_op o2)]) \<Rightarrow> recv_run n o2 e'
      | res \<Rightarrow> Some res)"

fun recv_rank :: "recv_state \<Rightarrow> bool \<Rightarrow> nat" where
  "recv_rank Ro_finish_read b = 13"
| "recv_rank Ro_read_istream b = (if b then 12 else 4)"
| "recv_rank Ro_sent b = 9"
| "recv_rank Ro_closed b = 9"
| "recv_rank Ro_process b = 8"
| "recv_rank Ro_complete b = 7"
| "recv_rank Ro_dispatch b = 6"
| "recv_rank Ro_check_buf b = 5"
| "recv_rank Ro_read b = 1"

definition recv_measure :: "recv_op \<Rightarrow> endpoint \<Rightarrow> nat" where
  "recv_measure o1 e = 10 * length (ep_read_buf e) + recv_rank (ro_state o1) (ep_read_buf e = [])"

text \<open>The loop over the events leaves the buffer alone and ends in \<^verbatim>\<open>check_buf\<close> or \<^verbatim>\<open>complete\<close>.\<close>

definition buf_kept :: "endpoint \<Rightarrow> endpoint \<Rightarrow> bool" where
  "buf_kept e e' \<longleftrightarrow> ep_read_buf e' = ep_read_buf e \<and> ep_con e' = ep_con e"

lemma buf_kept_timers [simp]:
  "buf_kept e (cancel_timer k e') = buf_kept e e'" "buf_kept e (notify_release_pid e') = buf_kept e e'"
  "buf_kept e (reset_pingreq_send_timer ms e') = buf_kept e e'" "buf_kept e (reset_pingreq_recv_timer ms e') = buf_kept e e'"
  "buf_kept e (reset_pingresp_recv_timer ms e') = buf_kept e e'"
  by (simp_all add: buf_kept_def cancel_timer_def start_timer_def notify_release_pid_def reset_pingreq_send_timer_def
        reset_pingreq_recv_timer_def reset_pingresp_recv_timer_def Let_def split: option.split)

lemma recv_process_resumes:
  "recv_process evs o1 e' = Inr (e'', [Resume (Recv_op o2)]) \<Longrightarrow> buf_kept e e' \<Longrightarrow>
     buf_kept e e'' \<and> ro_state o2 \<in> {Ro_check_buf, Ro_complete}"
proof (induction evs o1 e' rule: recv_process.induct)
  case (1 o1 e')
  then show ?case by (auto simp: Let_def buf_kept_def split: option.splits)
qed (auto split: timer_op.splits if_splits)

lemma rv_recv_buffer:
  assumes "rv_recv e = Inr e'" and "rpb_ok (cn_rpb (ep_con e))"
  shows "rpb_ok (cn_rpb (ep_con e')) \<and> (ep_read_buf e \<noteq> [] \<longrightarrow> length (ep_read_buf e') < length (ep_read_buf e)) \<and>
    (ep_read_buf e = [] \<longrightarrow> ep_read_buf e' = [])"
proof -
  from assms(1) obtain c rest where recv: "recv (ep_read_buf e) (ep_con e) = Inr (c, rest)"
    and e': "ep_con e' = c\<lparr>cn_events := []\<rparr>" "ep_read_buf e' = rest"
    by (auto simp: rv_recv_def bindE_eq_Inr)
  have ok: "rpb_ok (cn_rpb c)" using builder_api [OF assms(2), of "Api_recv (ep_read_buf e)" c] recv by simp
  from recv_builder [OF recv] recv_bytes [OF assms(2), of "ep_read_buf e" "fst (rpb_recv (cn_rpb (ep_con e)) (ep_read_buf e))" rest]
  obtain ys where "ep_read_buf e = ys @ rest" by blast
  with ok e' recv_progress [OF assms(2) recv] show ?thesis
    by (cases "ep_read_buf e = []") auto
qed

lemma recv_decreases:
  assumes "run_recv o1 io_ok e = Inr (e', [Resume (Recv_op o2)])" and ok: "rpb_ok (cn_rpb (ep_con e))"
  shows "recv_measure o2 e' < recv_measure o1 e \<and> rpb_ok (cn_rpb (ep_con e'))"
proof -
  have io: "\<not> ec_failed (io_ec io_ok)" "io_bytes io_ok = []" by (simp_all add: io_ok_def ec_success_def ec_failed_def)
  show ?thesis
  proof (cases "ro_state o1")
    case Ro_process
    with assms(1) io have "recv_process (ep_recv_events e) o1 e = Inr (e', [Resume (Recv_op o2)])"
      by (simp add: run_recv_def)
    from recv_process_resumes [OF this, of e] Ro_process ok show ?thesis by (auto simp: buf_kept_def recv_measure_def)
  next
    case Ro_read_istream
    with assms(1) io obtain e1 where e1: "rv_recv e = Inr e'" "o2 = o1\<lparr>ro_state := if ep_recv_events e' = [] then Ro_read else Ro_process\<rparr>"
      by (auto simp: run_recv_def bindE_eq_Inr)
    from rv_recv_buffer [OF e1(1) ok] Ro_read_istream show ?thesis
      by (cases "ep_read_buf e = []") (auto simp: e1(2) recv_measure_def)
  next
    case Ro_complete
    with assms io show ?thesis
      by (auto simp: run_recv_def recv_measure_def Let_def split: option.splits if_splits prod.splits)
  qed (use assms io in \<open>auto simp: run_recv_def recv_measure_def Let_def split: if_splits\<close>)
qed

lemma recv_run_returns: "recv_measure o1 e < fuel \<Longrightarrow> rpb_ok (cn_rpb (ep_con e)) \<Longrightarrow> \<exists>res. recv_run fuel o1 e = Some res"
proof (induction fuel arbitrary: o1 e)
  case (Suc n)
  show ?case
  proof (cases "\<exists>e' o2. run_recv o1 io_ok e = Inr (e', [Resume (Recv_op o2)])")
    case True
    then obtain e' o2 where run: "run_recv o1 io_ok e = Inr (e', [Resume (Recv_op o2)])" by blast
    from recv_decreases [OF run Suc.prems(2)] Suc.prems(1) Suc.IH [of o2 e'] show ?thesis by (simp add: run)
  next
    case False
    then show ?thesis by (auto split: sum.split prod.split list.split action.split op.split)
  qed
qed simp



subsection \<open>A received PINGRESP\<close>

abbreviation pingresp :: packet_variant where "pingresp \<equiv> V3_pingresp make_v3_pingresp"

lemma pingresp_ok: "packet_variant_ok pingresp"
  by (simp add: v3_empty_ok_def) code_simp

lemma recv_pingresp_wire:
  assumes "cn_status c = Connected" and "ready_for pingresp c" and "can_send_as_client (cn_role c)"
  shows "recv (wire pingresp) c = Inr (recv_pingresp pingresp c, [])"
  using recv_wire [OF pingresp_ok assms(2), of "[]"] assms
  by (simp add: protocol_satisfied_def traits_defs)

text \<open>
  C39. A client of MQTT 3.1.1 that waits for a PINGRESP receives it and hands it to its user, but the
  timer of the PINGRESP goes on: the endpoint answers the request to cancel it by
  \<^verbatim>\<open>reset_pingresp_recv_timer\<close> without a duration, which does nothing. When the timer fires, the
  endpoint closes the healthy connection.
\<close>

theorem pingresp_does_not_stop_timer:
  assumes "cn_status (ep_con e) = Connected" and "ready_for pingresp (ep_con e)" and "can_send_as_client (cn_role (ep_con e))"
    and "cn_protocol_version (ep_con e) = V3_1_1" and "cn_events (ep_con e) = []"
    and "ep_read_buf e = wire pingresp" and "ep_recv_events e = []" and "ep_timer e Pingresp_recv = Some ms"
  shows "\<exists>e' e''. recv_run 5 (new_recv_op None {}) e = Some (Inr (e', [Done (Received ec_success (Some pingresp))])) \<and>
    ep_timer e' Pingresp_recv = Some ms \<and> timer_fired Pingresp_recv e' = Inr (e'', [Resume (Close_op Co_dispatch None)])"
proof -
  let ?c = "ep_con e" and ?d = "(ep_con e)\<lparr>cn_pingresp_recv_set := False\<rparr>"
  let ?o = "\<lambda>s. (new_recv_op None {})\<lparr>ro_state := s\<rparr>"
  let ?evs = "[On_timer_op Timer_cancel Pingresp_recv None, On_receive pingresp]"
  let ?e = "e\<lparr>ep_con := ?d, ep_read_buf := [], ep_recv_events := []\<rparr>"
  have io: "\<not> ec_failed (io_ec io_ok)" by (simp add: io_ok_def ec_success_def ec_failed_def)
  have "wire pingresp \<noteq> []" by code_simp
  have "rv_recv e = Inr (e\<lparr>ep_con := ?d, ep_read_buf := [], ep_recv_events := ?evs\<rparr>)"
    using recv_pingresp_wire [OF assms(1,2,3)] assms(5-7) by (simp add: rv_recv_def recv_pingresp_def emit_def)
  moreover have "recv_process ?evs (?o Ro_process) (e\<lparr>ep_con := ?d, ep_read_buf := [], ep_recv_events := ?evs\<rparr>) =
      Inr (?e, [Resume (Recv_op ((?o Ro_complete)\<lparr>ro_recv_packet := Some pingresp\<rparr>))])"
    using assms(3) by (simp add: reset_pingresp_recv_timer_def new_recv_op_def)
  ultimately have "recv_run 5 (new_recv_op None {}) e = Some (Inr (?e, [Done (Received ec_success (Some pingresp))]))"
    using assms(6) io \<open>wire pingresp \<noteq> []\<close>
    by (simp add: eval_nat_numeral run_recv_def new_recv_op_def filtered_out_def)
  moreover have "timer_fired Pingresp_recv ?e =
      Inr ((cancel_timer Pingresp_recv ?e)\<lparr>ep_con := ?d\<rparr>, [Resume (Close_op Co_dispatch None)])"
    using assms(4,5) by (simp add: timer_fired_def rv_def timeout_close_def emit_def cancel_timer_def)
  ultimately show ?thesis using assms(8) by auto
qed

definition waiting_for_pingresp :: endpoint where
  "waiting_for_pingresp = (endpoint_init Client 2 V3_1_1)\<lparr>ep_con := sample_connected\<lparr>cn_pingresp_recv_set := True\<rparr>,
     ep_status := Open, ep_timer := (\<lambda>_. None)(Pingresp_recv := Some 100), ep_read_buf := wire pingresp\<rparr>"

theorem pingresp_does_not_stop_timer_witness:
  "\<exists>e' e''. recv_run 5 (new_recv_op None {}) waiting_for_pingresp =
      Some (Inr (e', [Done (Received ec_success (Some pingresp))])) \<and>
    ep_timer e' Pingresp_recv = Some 100 \<and> timer_fired Pingresp_recv e' = Inr (e'', [Resume (Close_op Co_dispatch None)])"
proof (rule pingresp_does_not_stop_timer)
  have "packet_variant_size pingresp = 2" by code_simp
  then show "ready_for pingresp (ep_con waiting_for_pingresp)"
    by (simp add: ready_for_def waiting_for_pingresp_def packet_version_def is_v5_def packet_size_no_limit_def)
qed (simp_all add: waiting_for_pingresp_def endpoint_init_def can_send_as_client_def)

subsection \<open>A DISCONNECT while a PINGRESP is awaited\<close>

text \<open>
  Sending DISCONNECT cancels the timers that are set. The send operation handles the request to
  cancel the timer of the PINGRESP by a failing assertion.
\<close>

theorem disconnect_while_pinging_asserts:
  assumes "cn_status (ep_con e) = Connected" and "cn_role (ep_con e) = Client" and "cn_protocol_version (ep_con e) = V3_1_1"
    and "cn_events (ep_con e) = []" and "2 \<le> cn_maximum_packet_size_send (ep_con e)" and "cn_pingresp_recv_set (ep_con e)"
  shows "run_send ((new_send_op (V3_disconnect make_v3_disconnect) static False)\<lparr>so_state := So_write\<rparr>) io_ok e = Inl Undefined"
proof -
  let ?p = "V3_disconnect make_v3_disconnect"
  have size: "packet_variant_size ?p = 2" by code_simp
  have "send ?p (ep_con e) =
      Inr (emit On_close (emit (On_send ?p None) (cancel_timers ((ep_con e)\<lparr>cn_status := Disconnected\<rparr>))))"
    using assms size by (simp add: send_eval cancel_timers_def emit_def)
  moreover have "send_process (cn_events (emit On_close (emit (On_send ?p None) (cancel_timers ((ep_con e)\<lparr>cn_status := Disconnected\<rparr>))))) o1 e' =
      Inl Undefined" for o1 e'
    using assms(4,6) by (auto simp: cancel_timers_def emit_def Let_def)
  ultimately show ?thesis by (simp add: run_send_def rv_def new_send_op_def io_ok_def ec_success_def ec_failed_def)
qed

subsection \<open>A waiter that is not woken\<close>

text \<open>
  A write that fails releases the identifier of its packet, but the events of that call are dropped:
  the first of the operations that wait for an identifier stays asleep although one is free again.
\<close>

theorem write_error_wakes_nobody:
  assumes "run_send o1 res e = Inr (e', acts)" and "ec_failed (io_ec res)"
  shows "ep_retry_queue e' = ep_retry_queue e \<and> ep_packet_id_released e' = ep_packet_id_released e \<and>
    (io_rel res = Some i \<longrightarrow> cn_pid_man (ep_con e') = cn_pid_man (release_packet_id i (ep_con e)))"
  using assms by (auto simp: run_send_def rv_def split: option.splits)

end
