(* ===== verification/Client.thy ===== *)
theory Client
  imports Endpoint
begin

text \<open>
  The client: \<^verbatim>\<open>client_impl\<close> of \<^verbatim>\<open>asio_bind/impl/client_impl.hpp\<close> and \<^verbatim>\<open>client_*.hpp/.ipp\<close>, which
  sends requests over an endpoint and completes each of them with the response.

  \<^item> A request is known by the number of its completion handler. What Boost.Asio or the endpoint is
    asked for is a \<open>client_action\<close>; when it reports, a \<open>client_event\<close>, the \<^verbatim>\<open>operator()\<close> of the operation
    runs. Handlers run one at a time, on the executor of the endpoint.
  \<^item> The timers of the requests never expire. A timer is a number; \<open>cl_cancelled\<close> are those that were
    cancelled. Every cancel of the timer \<^verbatim>\<open>tim_notify_publish_recv_\<close> ends the waits started before.
  \<^item> The endpoint may report any result of an \<^verbatim>\<open>async_send\<close> and any packet or error of an
    \<^verbatim>\<open>async_recv\<close>; the operations that the client only forwards to it are those of \<^verbatim>\<open>Endpoint\<close>.
  \<^item> A packet of another protocol version than the one of the client is of no class the client knows.
  \<^item> Reading an empty \<^verbatim>\<open>std::optional\<close> or \<^verbatim>\<open>std::deque\<close> is \<open>Undefined\<close>.
\<close>

subsection \<open>Requests\<close>

datatype request_kind = Rq_start | Rq_subscribe | Rq_unsubscribe | Rq_publish | Rq_disconnect | Rq_auth

record pubres =
  puback_opt :: "packet_variant option"
  pubrec_opt :: "packet_variant option"
  pubcomp_opt :: "packet_variant option"

definition no_pubres :: pubres where
  "no_pubres = \<lparr>puback_opt = None, pubrec_opt = None, pubcomp_opt = None\<rparr>"

datatype client_result =
    Responded error_code "packet_variant option"
  | Published error_code pubres
  | Finished error_code
  | Client_received error_code "packet_variant option"

text \<open>
  What is pending. \<open>Wait_timer\<close> has the number of the timer; the identifier of the request is written
  down beside it, the code keeps it in the element of the timer only. \<open>Wait_notify\<close> has the number
  of cancels of the shared timer so far.
\<close>

datatype client_action =
    Ep_send nat request_kind packet_variant
  | Ep_recv
  | Wait_timer nat nat request_kind nat
  | Dispatch_recv nat
  | Wait_notify nat nat
  | Complete nat request_kind nat client_result
  | Complete_recv nat client_result

subsection \<open>State\<close>

record pending_elem =
  el_pid :: nat
  el_tim :: nat
  el_pv :: "packet_variant option"
  el_res :: pubres

record client =
  cl_version :: protocol_version
  cl_col :: "pending_elem list"
  cl_recv_queue :: "(error_code \<times> packet_variant option) list"
  cl_recv_queue_inserted :: bool
  cl_notify_cancels :: nat
  cl_cancelled :: "nat set"
  cl_next_tim :: nat

definition client_init :: "protocol_version \<Rightarrow> client" where
  "client_init ver =
     \<lparr>cl_version = ver, cl_col = [], cl_recv_queue = [], cl_recv_queue_inserted = False, cl_notify_cancels = 0,
      cl_cancelled = {}, cl_next_tim = 0\<rparr>"

text \<open>The endpoint below: it answers PUBLISH and PINGREQ by itself.\<close>

definition client_endpoint :: "protocol_version \<Rightarrow> endpoint" where
  "client_endpoint ver =
     (let e = endpoint_init role.Client 2 ver in
      e\<lparr>ep_con := set_auto_ping_response True (set_auto_pub_response True (ep_con e))\<rparr>)"

text \<open>Both indexes of the collection are unique: an element with a known identifier or timer is not added.\<close>

definition col_emplace :: "nat \<Rightarrow> nat \<Rightarrow> pending_elem list \<Rightarrow> pending_elem list" where
  "col_emplace pid tim col =
     (if pid \<in> el_pid ` set col \<or> tim \<in> el_tim ` set col then col
      else col @ [\<lparr>el_pid = pid, el_tim = tim, el_pv = None, el_res = no_pubres\<rparr>])"

definition find_pid :: "nat \<Rightarrow> pending_elem list \<Rightarrow> pending_elem option" where
  "find_pid pid col = find (\<lambda>el. el_pid el = pid) col"

definition find_tim :: "nat \<Rightarrow> pending_elem list \<Rightarrow> pending_elem option" where
  "find_tim tim col = find (\<lambda>el. el_tim el = tim) col"

definition col_clear :: "client \<Rightarrow> client" where
  "col_clear c = c\<lparr>cl_cancelled := cl_cancelled c \<union> el_tim ` set (cl_col c), cl_col := []\<rparr>"

subsection \<open>The start of a request\<close>

definition failed_result :: "request_kind \<Rightarrow> error_code \<Rightarrow> client_result" where
  "failed_result kind ec =
     (case kind of
        Rq_publish \<Rightarrow> Published ec no_pubres
      | Rq_disconnect \<Rightarrow> Finished ec
      | Rq_auth \<Rightarrow> Finished ec
      | _ \<Rightarrow> Responded ec None)"

text \<open>
  The first \<^verbatim>\<open>operator()\<close>: the operation has the packet, or the code of the exception that its
  constructor threw.
\<close>

definition begin_request :: "nat \<Rightarrow> request_kind \<Rightarrow> error_code \<Rightarrow> packet_variant option \<Rightarrow> failure + client_action list" where
  "begin_request req kind ec packet =
     (if ec_failed ec then Inr [Complete req kind 0 (failed_result kind ec)]
      else case packet of None \<Rightarrow> Inl Undefined | Some p \<Rightarrow> Inr [Ep_send req kind p])"

definition async_start :: "nat \<Rightarrow> error_code \<Rightarrow> packet_variant option \<Rightarrow> failure + client_action list" where
  "async_start req = begin_request req Rq_start"

definition async_subscribe :: "nat \<Rightarrow> error_code \<Rightarrow> packet_variant option \<Rightarrow> failure + client_action list" where
  "async_subscribe req = begin_request req Rq_subscribe"

definition async_unsubscribe :: "nat \<Rightarrow> error_code \<Rightarrow> packet_variant option \<Rightarrow> failure + client_action list" where
  "async_unsubscribe req = begin_request req Rq_unsubscribe"

definition async_publish :: "nat \<Rightarrow> error_code \<Rightarrow> packet_variant option \<Rightarrow> failure + client_action list" where
  "async_publish req = begin_request req Rq_publish"

definition async_disconnect :: "nat \<Rightarrow> error_code \<Rightarrow> packet_variant option \<Rightarrow> failure + client_action list" where
  "async_disconnect req = begin_request req Rq_disconnect"

definition async_auth :: "nat \<Rightarrow> error_code \<Rightarrow> packet_variant option \<Rightarrow> failure + client_action list" where
  "async_auth req = begin_request req Rq_auth"

definition async_request :: "nat \<Rightarrow> request_kind \<Rightarrow> error_code \<Rightarrow> packet_variant option \<Rightarrow> failure + client_action list" where
  "async_request req kind =
     (case kind of
        Rq_start \<Rightarrow> async_start req
      | Rq_subscribe \<Rightarrow> async_subscribe req
      | Rq_unsubscribe \<Rightarrow> async_unsubscribe req
      | Rq_publish \<Rightarrow> async_publish req
      | Rq_disconnect \<Rightarrow> async_disconnect req
      | Rq_auth \<Rightarrow> async_auth req)"

lemma async_request_eq: "async_request req kind = begin_request req kind"
  by (cases kind) (simp_all add: async_request_def async_start_def async_subscribe_def async_unsubscribe_def async_publish_def
    async_disconnect_def async_auth_def)

text \<open>\<^verbatim>\<open>operator()\<close> with the result of \<^verbatim>\<open>async_send\<close>.\<close>

definition wait_response :: "nat \<Rightarrow> request_kind \<Rightarrow> nat \<Rightarrow> client \<Rightarrow> client \<times> client_action list" where
  "wait_response req kind pid c =
     (let tim = cl_next_tim c in
      (c\<lparr>cl_next_tim := tim + 1, cl_col := col_emplace pid tim (cl_col c)\<rparr>,
       (if kind = Rq_start then [Ep_recv] else []) @ [Wait_timer tim req kind pid]))"

definition start_sent :: "nat \<Rightarrow> nat \<Rightarrow> error_code \<Rightarrow> client \<Rightarrow> client \<times> client_action list" where
  "start_sent req pid ec c =
     (if ec_failed ec then (c, [Complete req Rq_start pid (Responded ec None)]) else wait_response req Rq_start 0 c)"

definition subscribe_sent :: "nat \<Rightarrow> nat \<Rightarrow> error_code \<Rightarrow> client \<Rightarrow> client \<times> client_action list" where
  "subscribe_sent req pid ec c =
     (if ec_failed ec then (c, [Complete req Rq_subscribe pid (Responded ec None)]) else wait_response req Rq_subscribe pid c)"

definition unsubscribe_sent :: "nat \<Rightarrow> nat \<Rightarrow> error_code \<Rightarrow> client \<Rightarrow> client \<times> client_action list" where
  "unsubscribe_sent req pid ec c =
     (if ec_failed ec then (c, [Complete req Rq_unsubscribe pid (Responded ec None)]) else wait_response req Rq_unsubscribe pid c)"

definition publish_sent :: "nat \<Rightarrow> nat \<Rightarrow> error_code \<Rightarrow> client \<Rightarrow> client \<times> client_action list" where
  "publish_sent req pid ec c =
     (if ec_failed ec \<or> pid = 0 then (c, [Complete req Rq_publish pid (Published ec no_pubres)]) else wait_response req Rq_publish pid c)"

definition disconnect_sent :: "nat \<Rightarrow> nat \<Rightarrow> error_code \<Rightarrow> client \<Rightarrow> client \<times> client_action list" where
  "disconnect_sent req pid ec c = (c, [Complete req Rq_disconnect pid (Finished ec)])"

definition auth_sent :: "nat \<Rightarrow> nat \<Rightarrow> error_code \<Rightarrow> client \<Rightarrow> client \<times> client_action list" where
  "auth_sent req pid ec c = (c, [Complete req Rq_auth pid (Finished ec)])"

definition request_sent :: "nat \<Rightarrow> request_kind \<Rightarrow> nat \<Rightarrow> error_code \<Rightarrow> client \<Rightarrow> client \<times> client_action list" where
  "request_sent req kind =
     (case kind of
        Rq_start \<Rightarrow> start_sent req
      | Rq_subscribe \<Rightarrow> subscribe_sent req
      | Rq_unsubscribe \<Rightarrow> unsubscribe_sent req
      | Rq_publish \<Rightarrow> publish_sent req
      | Rq_disconnect \<Rightarrow> disconnect_sent req
      | Rq_auth \<Rightarrow> auth_sent req)"

lemma request_sent_eq:
  "request_sent req kind pid ec c =
     (if ec_failed ec then (c, [Complete req kind pid (failed_result kind ec)])
      else case kind of
        Rq_disconnect \<Rightarrow> (c, [Complete req kind pid (Finished ec)])
      | Rq_auth \<Rightarrow> (c, [Complete req kind pid (Finished ec)])
      | Rq_publish \<Rightarrow> if pid = 0 then (c, [Complete req kind pid (Published ec no_pubres)]) else wait_response req kind pid c
      | Rq_start \<Rightarrow> wait_response req kind 0 c
      | _ \<Rightarrow> wait_response req kind pid c)"
  by (cases kind) (simp_all add: request_sent_def start_sent_def subscribe_sent_def unsubscribe_sent_def publish_sent_def disconnect_sent_def
    auth_sent_def failed_result_def)

subsection \<open>The end of a request\<close>

definition own_version :: "protocol_version \<Rightarrow> packet_variant \<Rightarrow> bool" where
  "own_version ver p \<longleftrightarrow> (if ver = V3_1_1 then is_v3_1_1 p else is_v5 p)"

text \<open>The codes of a SUBACK or UNSUBACK as one error code.\<close>

definition entries_code :: "error_category \<Rightarrow> byte list \<Rightarrow> error_code" where
  "entries_code cat entries =
     (case entries of
        [] \<Rightarrow> protocol_error
      | [code] \<Rightarrow> make_error_code cat (unat code)
      | _ \<Rightarrow>
          (if list_all (\<lambda>code. ec_failed (make_error_code cat (unat code))) entries then mqtt_err 0x180
           else if list_ex (\<lambda>code. ec_failed (make_error_code cat (unat code))) entries then mqtt_err 0x101
           else ec_success))"

definition start_result :: "packet_variant \<Rightarrow> client_result" where
  "start_result p =
     (case p of
        V3_connack q \<Rightarrow> Responded (make_error_code Cat_connect_return_code (unat (v3_connack_code q))) (Some p)
      | V5_connack q \<Rightarrow> Responded (make_error_code Cat_connect_reason_code (unat (ca5_reason_code q))) (Some p)
      | _ \<Rightarrow> Responded protocol_error None)"

definition subscribe_result :: "packet_variant \<Rightarrow> client_result" where
  "subscribe_result p =
     (case p of
        V3_suback q \<Rightarrow> Responded (entries_code Cat_suback_return_code (sa3_entries q)) (Some p)
      | V5_suback q \<Rightarrow> Responded (entries_code Cat_suback_reason_code (sa5_entries q)) (Some p)
      | _ \<Rightarrow> Responded protocol_error None)"

definition unsubscribe_result :: "packet_variant \<Rightarrow> client_result" where
  "unsubscribe_result p =
     (case p of
        V3_unsuback q \<Rightarrow> Responded ec_success (Some p)
      | V5_unsuback q \<Rightarrow> Responded (entries_code Cat_unsuback_reason_code (sa5_entries q)) (Some p)
      | _ \<Rightarrow> Responded protocol_error None)"

fun v5_response_code :: "packet_variant \<Rightarrow> error_code" where
  "v5_response_code (V5_puback q) = make_error_code Cat_puback_reason_code (unat (v5_ack_code q))"
| "v5_response_code (V5_pubrec q) = make_error_code Cat_pubrec_reason_code (unat (v5_ack_code q))"
| "v5_response_code (V5_pubcomp q) = make_error_code Cat_pubcomp_reason_code (unat (v5_ack_code q))"
| "v5_response_code _ = ec_success"

definition publish_code :: "protocol_version \<Rightarrow> pubres \<Rightarrow> error_code" where
  "publish_code ver res =
     (if ver = V3_1_1 then ec_success
      else case (puback_opt res, pubrec_opt res, pubcomp_opt res) of
        (Some p, _, _) \<Rightarrow> v5_response_code p
      | (None, Some p, q) \<Rightarrow>
          (if ec_failed (v5_response_code p) then v5_response_code p
           else case q of Some q \<Rightarrow> v5_response_code q | None \<Rightarrow> protocol_error)
      | _ \<Rightarrow> protocol_error)"

text \<open>\<^verbatim>\<open>operator()\<close> with the timer of the request; how the wait ended is not looked at.\<close>

definition request_result :: "protocol_version \<Rightarrow> request_kind \<Rightarrow> pending_elem \<Rightarrow> failure + client_result" where
  "request_result ver kind el =
     (case kind of
        Rq_publish \<Rightarrow> Inr (Published (publish_code ver (el_res el)) (el_res el))
      | _ \<Rightarrow>
          (case el_pv el of
             None \<Rightarrow> Inl Undefined
           | Some p \<Rightarrow>
               Inr (case kind of
                  Rq_start \<Rightarrow> start_result p
                | Rq_subscribe \<Rightarrow> subscribe_result p
                | _ \<Rightarrow> unsubscribe_result p)))"

definition timer_done :: "nat \<Rightarrow> nat \<Rightarrow> request_kind \<Rightarrow> nat \<Rightarrow> client \<Rightarrow> failure + client \<times> client_action list" where
  "timer_done tim req kind pid c =
     (case find_tim tim (cl_col c) of
        None \<Rightarrow> Inr (c, [Complete req kind pid (failed_result kind operation_aborted)])
      | Some el \<Rightarrow>
          bindE (request_result (cl_version c) kind el) (\<lambda>res.
          Inr (c\<lparr>cl_col := filter (\<lambda>x. el_tim x \<noteq> tim) (cl_col c)\<rparr>, [Complete req kind pid res])))"

subsection \<open>The receive loop\<close>

definition push_received :: "error_code \<times> packet_variant option \<Rightarrow> client \<Rightarrow> client" where
  "push_received x c =
     c\<lparr>cl_recv_queue := cl_recv_queue c @ [x], cl_recv_queue_inserted := True, cl_notify_cancels := cl_notify_cancels c + 1\<rparr>"

definition modify_pid :: "nat \<Rightarrow> (pending_elem \<Rightarrow> pending_elem) \<Rightarrow> bool \<Rightarrow> client \<Rightarrow> client" where
  "modify_pid pid f cancel c =
     (case find_pid pid (cl_col c) of
        None \<Rightarrow> c
      | Some el \<Rightarrow>
          c\<lparr>cl_col := map (\<lambda>x. if el_pid x = pid then f x else x) (cl_col c),
            cl_cancelled := (if cancel then insert (el_tim el) (cl_cancelled c) else cl_cancelled c)\<rparr>)"

definition set_pv :: "packet_variant \<Rightarrow> pending_elem \<Rightarrow> pending_elem" where
  "set_pv p el = el\<lparr>el_pv := Some p\<rparr>"

definition set_puback :: "packet_variant \<Rightarrow> pending_elem \<Rightarrow> pending_elem" where
  "set_puback p el = el\<lparr>el_res := (el_res el)\<lparr>puback_opt := Some p\<rparr>\<rparr>"

definition set_pubrec :: "packet_variant \<Rightarrow> pending_elem \<Rightarrow> pending_elem" where
  "set_pubrec p el = el\<lparr>el_res := (el_res el)\<lparr>pubrec_opt := Some p\<rparr>\<rparr>"

definition set_pubcomp :: "packet_variant \<Rightarrow> pending_elem \<Rightarrow> pending_elem" where
  "set_pubcomp p el = el\<lparr>el_res := (el_res el)\<lparr>pubcomp_opt := Some p\<rparr>\<rparr>"

definition visit_received :: "packet_variant \<Rightarrow> client \<Rightarrow> client" where
  "visit_received p c =
     (if is_V5_auth p then push_received (ec_success, Some p) c
      else if \<not> own_version (cl_version c) p then c
      else case packet_type p of
        Cpt_connack \<Rightarrow> modify_pid 0 (set_pv p) True c
      | Cpt_suback \<Rightarrow> modify_pid (packet_id p) (set_pv p) True c
      | Cpt_unsuback \<Rightarrow> modify_pid (packet_id p) (set_pv p) True c
      | Cpt_publish \<Rightarrow> push_received (ec_success, Some p) c
      | Cpt_puback \<Rightarrow> modify_pid (packet_id p) (set_puback p) True c
      | Cpt_pubrec \<Rightarrow> modify_pid (packet_id p) (set_pubrec p) (is_v5 p \<and> ec_failed (v5_response_code p)) c
      | Cpt_pubcomp \<Rightarrow> modify_pid (packet_id p) (set_pubcomp p) True c
      | Cpt_disconnect \<Rightarrow> push_received (ec_success, Some p) c
      | _ \<Rightarrow> c)"

definition loop_received :: "error_code \<Rightarrow> packet_variant option \<Rightarrow> client \<Rightarrow> failure + client \<times> client_action list" where
  "loop_received ec pv c =
     (if ec_failed ec then Inr (col_clear (push_received (ec, None) c), [])
      else case pv of None \<Rightarrow> Inl Undefined | Some p \<Rightarrow> Inr (visit_received p c, [Ep_recv]))"

subsection \<open>Receiving\<close>

text \<open>\<^verbatim>\<open>expires_at\<close> also ends the waits for the timer.\<close>

definition recv_dispatched :: "nat \<Rightarrow> client \<Rightarrow> client \<times> client_action list" where
  "recv_dispatched req c =
     (case cl_recv_queue c of
        [] \<Rightarrow>
          (let n = cl_notify_cancels c + 1 in
           (c\<lparr>cl_recv_queue_inserted := False, cl_notify_cancels := n\<rparr>, [Wait_notify req n]))
      | (ec, pv) # q \<Rightarrow> (c\<lparr>cl_recv_queue := q\<rparr>, [Complete_recv req (Client_received ec pv)]))"

definition recv_notified :: "nat \<Rightarrow> client \<Rightarrow> failure + client \<times> client_action list" where
  "recv_notified req c =
     (if cl_recv_queue_inserted c then
        (case cl_recv_queue c of
           [] \<Rightarrow> Inl Undefined
         | (ec, pv) # q \<Rightarrow> Inr (c\<lparr>cl_recv_queue := q\<rparr>, [Complete_recv req (Client_received ec pv)]))
      else Inr (c, [Complete_recv req (Client_received operation_aborted None)]))"

subsection \<open>Runs\<close>

text \<open>
  An event is a call of the user or the report of a pending action. \<open>Ev_cancel\<close>: the user cancels a
  request through the cancellation slot of its handler, which ends the wait for its timer.
  An event that does not fit changes nothing.
\<close>

datatype client_event =
    Ev_begin nat request_kind error_code "packet_variant option"
  | Ev_sent nat error_code
  | Ev_received error_code "packet_variant option"
  | Ev_timer nat
  | Ev_cancel nat
  | Ev_recv nat
  | Ev_dispatch nat
  | Ev_notify nat
  | Ev_hand_out client_action

type_synonym client_state = "client \<times> client_action list"

definition take_action :: "(client_action \<Rightarrow> bool) \<Rightarrow> client_action list \<Rightarrow> (client_action \<times> client_action list) option" where
  "take_action P acts = map_option (\<lambda>a. (a, remove1 a acts)) (find P acts)"

definition continue_with :: "client_action list \<Rightarrow> failure + client \<times> client_action list \<Rightarrow> failure + client_state" where
  "continue_with rest r = bindE r (\<lambda>(c, new). Inr (c, rest @ new))"

fun is_sending :: "nat \<Rightarrow> client_action \<Rightarrow> bool" where
  "is_sending req (Ep_send r kind p) \<longleftrightarrow> r = req"
| "is_sending req _ \<longleftrightarrow> False"

fun waits_for :: "nat \<Rightarrow> client_action \<Rightarrow> bool" where
  "waits_for tim (Wait_timer t req kind pid) \<longleftrightarrow> t = tim"
| "waits_for tim _ \<longleftrightarrow> False"

fun is_notified :: "nat \<Rightarrow> client \<Rightarrow> client_action \<Rightarrow> bool" where
  "is_notified req c (Wait_notify r n) \<longleftrightarrow> r = req \<and> n < cl_notify_cancels c"
| "is_notified req c _ \<longleftrightarrow> False"

fun is_completion :: "client_action \<Rightarrow> bool" where
  "is_completion (Complete req kind pid res) \<longleftrightarrow> True"
| "is_completion (Complete_recv req res) \<longleftrightarrow> True"
| "is_completion _ \<longleftrightarrow> False"

fun client_step :: "client_event \<Rightarrow> client_state \<Rightarrow> failure + client_state" where
  "client_step (Ev_begin req kind ec p) (c, acts) =
     continue_with acts (bindE (async_request req kind ec p) (\<lambda>new. Inr (c, new)))"
| "client_step (Ev_sent req ec) (c, acts) =
     (case take_action (is_sending req) acts of
        Some (Ep_send r kind p, rest) \<Rightarrow> continue_with rest (Inr (request_sent r kind (packet_id p) ec c))
      | _ \<Rightarrow> Inr (c, acts))"
| "client_step (Ev_received ec pv) (c, acts) =
     (case take_action (\<lambda>a. a = Ep_recv) acts of
        Some (_, rest) \<Rightarrow> continue_with rest (loop_received ec pv c)
      | None \<Rightarrow> Inr (c, acts))"
| "client_step (Ev_timer tim) (c, acts) =
     (case take_action (\<lambda>a. waits_for tim a \<and> tim \<in> cl_cancelled c) acts of
        Some (Wait_timer t req kind pid, rest) \<Rightarrow> continue_with rest (timer_done t req kind pid c)
      | _ \<Rightarrow> Inr (c, acts))"
| "client_step (Ev_cancel tim) (c, acts) =
     (case take_action (waits_for tim) acts of
        Some (Wait_timer t req kind pid, rest) \<Rightarrow> continue_with rest (timer_done t req kind pid c)
      | _ \<Rightarrow> Inr (c, acts))"
| "client_step (Ev_recv req) (c, acts) = Inr (c, acts @ [Dispatch_recv req])"
| "client_step (Ev_dispatch req) (c, acts) =
     (case take_action (\<lambda>a. a = Dispatch_recv req) acts of
        Some (_, rest) \<Rightarrow> continue_with rest (Inr (recv_dispatched req c))
      | None \<Rightarrow> Inr (c, acts))"
| "client_step (Ev_notify req) (c, acts) =
     (case take_action (is_notified req c) acts of
        Some (_, rest) \<Rightarrow> continue_with rest (recv_notified req c)
      | None \<Rightarrow> Inr (c, acts))"
| "client_step (Ev_hand_out a) (c, acts) = Inr (c, if is_completion a then remove1 a acts else acts)"

fun client_run :: "client_event list \<Rightarrow> client_state \<Rightarrow> failure + client_state" where
  "client_run [] s = Inr s"
| "client_run (ev # evs) s = bindE (client_step ev s) (client_run evs)"

end
