(* ===== verification/Client_Run.thy ===== *)
theory Client_Run
  imports Client
begin

text \<open>
  The invariant of the client: what holds of the pending actions and of the collection of elements
  after any events.
\<close>

subsection \<open>Pending actions\<close>

lemma take_action_Some: "take_action P acts = Some (a, rest) \<longleftrightarrow> find P acts = Some a \<and> rest = remove1 a acts"
  by (auto simp: take_action_def)

lemma find_SomeD: "find P xs = Some x \<Longrightarrow> x \<in> set xs \<and> P x"
  by (auto simp: find_Some_iff)

fun wait_tim :: "client_action \<Rightarrow> nat list" where
  "wait_tim (Wait_timer t req kind pid) = [t]"
| "wait_tim _ = []"

definition wait_tims :: "client_action list \<Rightarrow> nat list" where
  "wait_tims acts = concat (map wait_tim acts)"

lemma wait_tims_append [simp]: "wait_tims (xs @ ys) = wait_tims xs @ wait_tims ys"
  by (simp add: wait_tims_def)

lemma wait_tims_Nil [simp]: "wait_tims [] = []" and wait_tims_Cons [simp]: "wait_tims (a # acts) = wait_tim a @ wait_tims acts"
  by (simp_all add: wait_tims_def)

lemma set_wait_tims: "t \<in> set (wait_tims acts) \<longleftrightarrow> (\<exists>req kind pid. Wait_timer t req kind pid \<in> set acts)"
proof (induction acts)
  case (Cons a acts)
  then show ?case by (cases a) auto
qed simp

lemma wait_tims_remove1: "set (wait_tims (remove1 a acts)) \<subseteq> set (wait_tims acts)"
  by (induction acts) auto

lemma wait_tims_remove1_other: "wait_tim a = [] \<Longrightarrow> wait_tims (remove1 a acts) = wait_tims acts"
  by (induction acts) auto

lemma wait_tims_distinct_remove1: "distinct (wait_tims acts) \<Longrightarrow> distinct (wait_tims (remove1 a acts))"
proof (induction acts)
  case (Cons b acts)
  then show ?case using wait_tims_remove1 [of a acts] by auto
qed simp

lemma wait_tims_removed:
  "distinct (wait_tims acts) \<Longrightarrow> Wait_timer t req kind pid \<in> set acts \<Longrightarrow>
   set (wait_tims (remove1 (Wait_timer t req kind pid) acts)) = set (wait_tims acts) - {t}"
proof (induction acts)
  case (Cons b acts)
  show ?case
  proof (cases "b = Wait_timer t req kind pid")
    case False
    with Cons.prems have "Wait_timer t req kind pid \<in> set acts" by simp
    moreover from this have "t \<in> set (wait_tims acts)" unfolding set_wait_tims by blast
    ultimately show ?thesis using Cons False by auto
  qed (use Cons.prems in auto)
qed simp

lemma wait_unique:
  "distinct (wait_tims acts) \<Longrightarrow> Wait_timer t r k i \<in> set acts \<Longrightarrow> Wait_timer t r' k' i' \<in> set acts \<Longrightarrow> r' = r \<and> k' = k \<and> i' = i"
proof (induction acts)
  case (Cons b acts)
  then show ?case by (auto simp: set_wait_tims)
qed simp

subsection \<open>The invariant\<close>

definition elem_ok :: "pending_elem \<Rightarrow> bool" where
  "elem_ok el \<longleftrightarrow>
     (\<forall>p. el_pv el = Some p \<longrightarrow> packet_type p = Cpt_connack \<or> packet_type p \<in> {Cpt_suback, Cpt_unsuback} \<and> packet_id p = el_pid el) \<and>
     (\<forall>p. puback_opt (el_res el) = Some p \<longrightarrow> packet_type p = Cpt_puback \<and> packet_id p = el_pid el) \<and>
     (\<forall>p. pubrec_opt (el_res el) = Some p \<longrightarrow> packet_type p = Cpt_pubrec \<and> packet_id p = el_pid el) \<and>
     (\<forall>p. pubcomp_opt (el_res el) = Some p \<longrightarrow> packet_type p = Cpt_pubcomp \<and> packet_id p = el_pid el)"

text \<open>A result that belongs to a request of this kind with this identifier.\<close>

fun response_type :: "request_kind \<Rightarrow> control_packet_type option" where
  "response_type Rq_start = Some Cpt_connack"
| "response_type Rq_subscribe = Some Cpt_suback"
| "response_type Rq_unsubscribe = Some Cpt_unsuback"
| "response_type _ = None"

fun result_fits :: "request_kind \<Rightarrow> nat \<Rightarrow> client_result \<Rightarrow> bool" where
  "result_fits kind pid (Responded ec (Some p)) \<longleftrightarrow>
     response_type kind = Some (packet_type p) \<and> (kind \<noteq> Rq_start \<longrightarrow> packet_id p = pid)"
| "result_fits kind pid (Published ec res) \<longleftrightarrow>
     kind = Rq_publish \<and>
     (\<forall>p. puback_opt res = Some p \<longrightarrow> packet_type p = Cpt_puback \<and> packet_id p = pid) \<and>
     (\<forall>p. pubrec_opt res = Some p \<longrightarrow> packet_type p = Cpt_pubrec \<and> packet_id p = pid) \<and>
     (\<forall>p. pubcomp_opt res = Some p \<longrightarrow> packet_type p = Cpt_pubcomp \<and> packet_id p = pid)"
| "result_fits kind pid (Client_received ec p) \<longleftrightarrow> False"
| "result_fits kind pid _ \<longleftrightarrow> True"

definition col_ok :: "client \<Rightarrow> bool" where
  "col_ok c \<longleftrightarrow>
     distinct (map el_pid (cl_col c)) \<and> distinct (map el_tim (cl_col c)) \<and>
     (\<forall>el \<in> set (cl_col c). elem_ok el \<and> el_tim el < cl_next_tim c)"

definition waits_ok :: "client_state \<Rightarrow> bool" where
  "waits_ok s \<longleftrightarrow>
     (let (c, acts) = s in
      distinct (wait_tims acts) \<and> (\<forall>t \<in> set (wait_tims acts). t < cl_next_tim c) \<and> el_tim ` set (cl_col c) \<subseteq> set (wait_tims acts) \<and>
      (\<forall>t req kind pid. Wait_timer t req kind pid \<in> set acts \<longrightarrow>
         kind \<noteq> Rq_disconnect \<and> kind \<noteq> Rq_auth \<and> (\<forall>el \<in> set (cl_col c). el_tim el = t \<longrightarrow> el_pid el = pid)))"

lemma waits_okD:
  assumes "waits_ok (c, acts)" and "Wait_timer t req kind pid \<in> set acts"
  shows "kind \<noteq> Rq_disconnect" "kind \<noteq> Rq_auth" "t < cl_next_tim c" "el \<in> set (cl_col c) \<Longrightarrow> el_tim el = t \<Longrightarrow> el_pid el = pid"
  using assms set_wait_tims [of t acts] by (auto simp: waits_ok_def)

lemma waits_okI:
  assumes "distinct (wait_tims acts)" and "el_tim ` set (cl_col c) \<subseteq> set (wait_tims acts)"
    and "\<And>t req kind pid. Wait_timer t req kind pid \<in> set acts \<Longrightarrow>
      t < cl_next_tim c \<and> kind \<noteq> Rq_disconnect \<and> kind \<noteq> Rq_auth \<and> (\<forall>el \<in> set (cl_col c). el_tim el = t \<longrightarrow> el_pid el = pid)"
  shows "waits_ok (c, acts)"
  using assms unfolding waits_ok_def prod.case Let_def by (auto simp: set_wait_tims)

definition results_ok :: "client_action list \<Rightarrow> bool" where
  "results_ok acts \<longleftrightarrow> (\<forall>req kind pid res. Complete req kind pid res \<in> set acts \<longrightarrow> result_fits kind pid res)"

definition client_ok :: "client_state \<Rightarrow> bool" where
  "client_ok s \<longleftrightarrow> col_ok (fst s) \<and> waits_ok s \<and> results_ok (snd s)"

lemma failed_fits [simp]: "result_fits kind pid (failed_result kind ec)"
  by (cases kind) (simp_all add: failed_result_def no_pubres_def)

lemma results_ok_remove1: "results_ok acts \<Longrightarrow> results_ok (remove1 a acts)"
  unfolding results_ok_def using set_remove1_subset [of a acts] by blast

lemma results_ok_append: "results_ok (xs @ ys) \<longleftrightarrow> results_ok xs \<and> results_ok ys"
  by (auto simp: results_ok_def)

lemma results_ok_simps [simp]:
  "results_ok []" "results_ok (Complete req kind pid res # acts) \<longleftrightarrow> result_fits kind pid res \<and> results_ok acts"
  "results_ok (Ep_send req kind p # acts) \<longleftrightarrow> results_ok acts" "results_ok (Ep_recv # acts) \<longleftrightarrow> results_ok acts"
  "results_ok (Wait_timer t req kind pid # acts) \<longleftrightarrow> results_ok acts" "results_ok (Dispatch_recv req # acts) \<longleftrightarrow> results_ok acts"
  "results_ok (Wait_notify req n # acts) \<longleftrightarrow> results_ok acts" "results_ok (Complete_recv req res # acts) \<longleftrightarrow> results_ok acts"
  by (auto simp: results_ok_def)

text \<open>Actions that are no waits come and go.\<close>

lemma waits_ok_same:
  assumes "waits_ok (c, acts)" and "cl_col c' = cl_col c" and "cl_next_tim c' = cl_next_tim c" and "wait_tims acts' = wait_tims acts"
    and old: "\<And>t r k i. Wait_timer t r k i \<in> set acts' \<Longrightarrow> Wait_timer t r k i \<in> set acts"
  shows "waits_ok (c', acts')"
proof (rule waits_okI)
  fix t r k i assume "Wait_timer t r k i \<in> set acts'"
  from waits_okD [OF assms(1) old [OF this]] assms(2,3)
  show "t < cl_next_tim c' \<and> k \<noteq> Rq_disconnect \<and> k \<noteq> Rq_auth \<and> (\<forall>el \<in> set (cl_col c'). el_tim el = t \<longrightarrow> el_pid el = i)" by simp
qed (use assms(1-4) in \<open>simp_all add: waits_ok_def\<close>)

lemma no_waits: "wait_tims new = [] \<Longrightarrow> Wait_timer t r k i \<notin> set new"
  using set_wait_tims [of t new] by auto

lemma waits_ok_new:
  assumes "waits_ok (c, acts)" and "cl_col c' = cl_col c" and "cl_next_tim c' = cl_next_tim c" and "wait_tims new = []"
  shows "waits_ok (c', acts @ new)"
  by (rule waits_ok_same [OF assms(1-3)]) (use assms(4) no_waits [OF assms(4)] in auto)

lemma waits_ok_remove1:
  assumes "waits_ok (c, acts)" and "wait_tim a = []" shows "waits_ok (c, remove1 a acts)"
  by (rule waits_ok_same [OF assms(1)]) (use assms(2) set_remove1_subset [of a acts] in \<open>auto simp: wait_tims_remove1_other\<close>)

lemma waits_ok_cong:
  assumes "waits_ok (c, acts)" and "cl_col c' = cl_col c" and "cl_next_tim c' = cl_next_tim c" and "wait_tim a = []" and "wait_tims new = []"
  shows "waits_ok (c', remove1 a acts @ new)"
  using waits_ok_new [OF waits_ok_remove1 [OF assms(1,4)] assms(2,3,5)] .

subsection \<open>Every event keeps it\<close>

lemma col_emplace_ok:
  assumes "col_ok c" and "waits_ok (c, acts)" and "Ep_send req k p \<in> set acts"
    and c': "c' = c\<lparr>cl_next_tim := cl_next_tim c + 1, cl_col := col_emplace pid (cl_next_tim c) (cl_col c)\<rparr>"
    and new: "new = xs @ [Wait_timer (cl_next_tim c) req kind pid]" "wait_tims xs = []" and kind: "kind \<noteq> Rq_disconnect" "kind \<noteq> Rq_auth"
  shows "col_ok c'" "waits_ok (c', remove1 (Ep_send req k p) acts @ new)"
proof -
  have tims: "\<forall>el \<in> set (cl_col c). el_tim el < cl_next_tim c" using assms(1) by (simp add: col_ok_def)
  have fresh: "cl_next_tim c \<notin> el_tim ` set (cl_col c)" using tims by auto
  then have col: "set (cl_col c') = set (cl_col c) \<or>
      set (cl_col c') = insert \<lparr>el_pid = pid, el_tim = cl_next_tim c, el_pv = None, el_res = no_pubres\<rparr> (set (cl_col c))"
    by (simp add: c' col_emplace_def)
  show "col_ok c'"
    using assms(1) tims fresh by (auto simp: col_ok_def c' col_emplace_def elem_ok_def no_pubres_def)
  have no: "Wait_timer t r k' i \<notin> set xs" for t r k' i using new(2) set_wait_tims by (metis empty_iff list.set(1))
  have old: "Wait_timer t r k' i \<in> set (remove1 (Ep_send req k p) acts) \<Longrightarrow> Wait_timer t r k' i \<in> set acts" for t r k' i
    by (meson notin_set_remove1)
  have waits: "wait_tims (remove1 (Ep_send req k p) acts @ new) = wait_tims acts @ [cl_next_tim c]"
    by (simp add: new wait_tims_remove1_other)
  have less: "\<forall>t \<in> set (wait_tims acts). t < cl_next_tim c" using assms(2) by (simp add: waits_ok_def)
  show "waits_ok (c', remove1 (Ep_send req k p) acts @ new)"
  proof (rule waits_okI)
    show "distinct (wait_tims (remove1 (Ep_send req k p) acts @ new))" using assms(2) less unfolding waits by (auto simp: waits_ok_def)
    have "el_tim ` set (cl_col c) \<subseteq> set (wait_tims acts)" using assms(2) by (simp add: waits_ok_def)
    with col show "el_tim ` set (cl_col c') \<subseteq> set (wait_tims (remove1 (Ep_send req k p) acts @ new))"
      unfolding waits by (elim disjE) auto
    fix t r k' i assume w: "Wait_timer t r k' i \<in> set (remove1 (Ep_send req k p) acts @ new)"
    have "Wait_timer t r k' i \<in> set acts \<or> t = cl_next_tim c \<and> k' = kind \<and> i = pid"
      using w no [of t r k' i] old [of t r k' i] unfolding new(1) by auto
    then consider (old) "Wait_timer t r k' i \<in> set acts" | (new) "t = cl_next_tim c" "k' = kind" "i = pid" by blast
    then show "t < cl_next_tim c' \<and> k' \<noteq> Rq_disconnect \<and> k' \<noteq> Rq_auth \<and> (\<forall>el \<in> set (cl_col c'). el_tim el = t \<longrightarrow> el_pid el = i)"
    proof cases
      case old
      from waits_okD [OF assms(2) old] col show ?thesis by (elim disjE) (auto simp: c')
    next
      case new
      with kind col tims show ?thesis by (elim disjE) (fastforce simp: c')+
    qed
  qed
qed

lemma request_sent_ok:
  assumes "client_ok (c, acts)" and "Ep_send req kind p \<in> set acts" and "request_sent req kind (packet_id p) ec c = (c', new)"
  shows "client_ok (c', remove1 (Ep_send req kind p) acts @ new)"
proof -
  from assms(1) have ok: "col_ok c" "waits_ok (c, acts)" "results_ok acts" by (simp_all add: client_ok_def)
  show ?thesis
  proof (cases "c' = c \<and> wait_tims new = []")
    case True
    moreover have "results_ok new" using assms(3)
      by (auto simp: request_sent_eq wait_response_def no_pubres_def Let_def split: if_splits request_kind.splits)
    ultimately show ?thesis
      using ok waits_ok_cong [OF ok(2), of c "Ep_send req kind p" new] by (simp add: client_ok_def results_ok_append results_ok_remove1)
  next
    case False
    define pid where "pid = (if kind = Rq_start then 0 else packet_id p)"
    from False assms(3) have kind: "kind \<noteq> Rq_disconnect" "kind \<noteq> Rq_auth" by (auto simp: request_sent_eq split: if_splits)
    from False assms(3) have
      c': "c' = c\<lparr>cl_next_tim := cl_next_tim c + 1, cl_col := col_emplace pid (cl_next_tim c) (cl_col c)\<rparr>"
      and new: "new = (if kind = Rq_start then [Ep_recv] else []) @ [Wait_timer (cl_next_tim c) req kind pid]"
      by (auto simp: request_sent_eq wait_response_def pid_def Let_def split: if_splits request_kind.splits)
    from col_emplace_ok [OF ok(1,2) assms(2) c' new _ kind] ok(3) show ?thesis
      by (simp add: client_ok_def results_ok_append results_ok_remove1 new)
  qed
qed

text \<open>A response is written into the element with its identifier.\<close>

lemma find_pid_Some: "find_pid pid col = Some el \<Longrightarrow> el \<in> set col \<and> el_pid el = pid"
  by (auto simp: find_pid_def dest: find_SomeD)

lemma find_tim_Some: "find_tim tim col = Some el \<Longrightarrow> el \<in> set col \<and> el_tim el = tim"
  by (auto simp: find_tim_def dest: find_SomeD)

lemma map_if_same: "(\<And>x. g (f x) = g x) \<Longrightarrow> map g (map (\<lambda>x. if P x then f x else x) xs) = map g xs"
  by simp

lemma modify_pid_ok:
  assumes "col_ok c" and "waits_ok (c, acts)" and f: "\<And>x. el_pid (f x) = el_pid x" "\<And>x. el_tim (f x) = el_tim x"
    and ok: "\<And>x. el_pid x = pid \<Longrightarrow> elem_ok x \<Longrightarrow> elem_ok (f x)"
  shows "col_ok (modify_pid pid f cancel c)" "waits_ok (modify_pid pid f cancel c, acts)"
proof -
  let ?c = "modify_pid pid f cancel c"
  have pids: "map el_pid (cl_col ?c) = map el_pid (cl_col c)" and tims: "map el_tim (cl_col ?c) = map el_tim (cl_col c)"
    by (simp_all add: modify_pid_def f split: option.split)
  have elems: "x \<in> set (cl_col ?c) \<Longrightarrow> \<exists>y \<in> set (cl_col c). el_pid x = el_pid y \<and> el_tim x = el_tim y \<and> (x = y \<or> x = f y \<and> el_pid y = pid)" for x
    by (auto simp: modify_pid_def f split: option.splits if_splits)
  have n: "cl_next_tim ?c = cl_next_tim c" by (simp add: modify_pid_def split: option.split)
  have "elem_ok x \<and> el_tim x < cl_next_tim c" if "x \<in> set (cl_col ?c)" for x
    using elems [OF that] assms(1) ok by (auto simp: col_ok_def)
  then show "col_ok ?c" using assms(1) unfolding col_ok_def pids tims n by blast
  have tims': "el_tim ` set (cl_col ?c) = el_tim ` set (cl_col c)" using arg_cong [OF tims, of set] by simp
  show "waits_ok (?c, acts)"
  proof (rule waits_okI)
    fix t r k i assume w: "Wait_timer t r k i \<in> set acts"
    note old = waits_okD [OF assms(2) w]
    have "el_pid x = i" if "x \<in> set (cl_col ?c)" "el_tim x = t" for x using elems [OF that(1)] that(2) old(4) by auto
    with old(1-3) show "t < cl_next_tim ?c \<and> k \<noteq> Rq_disconnect \<and> k \<noteq> Rq_auth \<and> (\<forall>el \<in> set (cl_col ?c). el_tim el = t \<longrightarrow> el_pid el = i)" by (simp add: n)
  qed (use assms(2) in \<open>simp_all add: waits_ok_def tims'\<close>)
qed

lemma set_ok [simp]:
  "el_pid (set_pv p x) = el_pid x" "el_tim (set_pv p x) = el_tim x" "el_pid (set_puback p x) = el_pid x" "el_tim (set_puback p x) = el_tim x"
  "el_pid (set_pubrec p x) = el_pid x" "el_tim (set_pubrec p x) = el_tim x" "el_pid (set_pubcomp p x) = el_pid x" "el_tim (set_pubcomp p x) = el_tim x"
  by (simp_all add: set_pv_def set_puback_def set_pubrec_def set_pubcomp_def)

lemma elem_ok_set:
  "elem_ok x \<Longrightarrow> packet_type p = Cpt_connack \<or> packet_type p \<in> {Cpt_suback, Cpt_unsuback} \<and> packet_id p = el_pid x \<Longrightarrow> elem_ok (set_pv p x)"
  "elem_ok x \<Longrightarrow> packet_type p = Cpt_puback \<Longrightarrow> packet_id p = el_pid x \<Longrightarrow> elem_ok (set_puback p x)"
  "elem_ok x \<Longrightarrow> packet_type p = Cpt_pubrec \<Longrightarrow> packet_id p = el_pid x \<Longrightarrow> elem_ok (set_pubrec p x)"
  "elem_ok x \<Longrightarrow> packet_type p = Cpt_pubcomp \<Longrightarrow> packet_id p = el_pid x \<Longrightarrow> elem_ok (set_pubcomp p x)"
  by (auto simp: elem_ok_def set_pv_def set_puback_def set_pubrec_def set_pubcomp_def)

lemma push_received_same [simp]:
  "cl_col (push_received x c) = cl_col c" "cl_next_tim (push_received x c) = cl_next_tim c" "cl_cancelled (push_received x c) = cl_cancelled c"
  "cl_version (push_received x c) = cl_version c"
  by (simp_all add: push_received_def)

lemma push_received_ok:
  "col_ok c \<Longrightarrow> col_ok (push_received x c)" "waits_ok (c, acts) \<Longrightarrow> waits_ok (push_received x c, acts)"
  by (simp_all add: col_ok_def waits_ok_def)

lemma visit_received_ok:
  assumes "col_ok c" and "waits_ok (c, acts)"
  shows "col_ok (visit_received p c) \<and> waits_ok (visit_received p c, acts)"
  unfolding visit_received_def
  using assms push_received_ok(1) [OF assms(1)] push_received_ok(2) [OF assms(2)]
  by (auto split: control_packet_type.split intro!: modify_pid_ok elem_ok_set simp: push_received_ok)

lemma waits_ok_clear: "waits_ok (c, acts) \<Longrightarrow> waits_ok (col_clear c, acts)"
  by (rule waits_okI) (simp_all add: waits_ok_def col_clear_def, metis set_wait_tims)

lemma loop_received_ok:
  assumes "col_ok c" and "waits_ok (c, acts)" and "loop_received ec pv c = Inr (c', new)"
  shows "col_ok c' \<and> waits_ok (c', acts) \<and> wait_tims new = [] \<and> results_ok new"
  using assms visit_received_ok [OF assms(1,2)] waits_ok_clear [OF push_received_ok(2) [OF assms(2)]]
  by (auto simp: loop_received_def col_ok_def col_clear_def split: if_splits option.splits)

text \<open>The end of a request.\<close>

lemma request_result_fits:
  assumes "elem_ok el" and "request_result ver kind el = Inr res" and "el_pid el = pid"
    and "kind \<noteq> Rq_disconnect" "kind \<noteq> Rq_auth"
  shows "result_fits kind pid res"
  using assms
  by (cases kind; cases "el_pv el")
     (auto simp: request_result_def elem_ok_def start_result_def subscribe_result_def unsubscribe_result_def split: packet_variant.splits)

lemma timer_done_ok:
  assumes ok: "client_ok (c, acts)" and w: "Wait_timer t req kind pid \<in> set acts" and c': "timer_done t req kind pid c = Inr (c', new)"
  shows "client_ok (c', remove1 (Wait_timer t req kind pid) acts @ new)"
proof -
  let ?rest = "remove1 (Wait_timer t req kind pid) acts"
  from ok have col: "col_ok c" and waits: "waits_ok (c, acts)" and res: "results_ok acts" by (simp_all add: client_ok_def)
  have dist: "distinct (wait_tims acts)" using waits by (simp add: waits_ok_def)
  have cut: "set (wait_tims ?rest) = set (wait_tims acts) - {t}" by (rule wait_tims_removed [OF dist w])
  note kind = waits_okD [OF waits w]
  have c'': "cl_next_tim c' = cl_next_tim c" "set (cl_col c') = {el \<in> set (cl_col c). el_tim el \<noteq> t}"
    using c' by (auto simp: timer_done_def find_tim_def find_None_iff bindE_eq_Inr split: option.splits)
  have "results_ok new \<and> wait_tims new = []"
  proof (cases "find_tim t (cl_col c)")
    case None
    with c' show ?thesis by (auto simp: timer_done_def)
  next
    case (Some el)
    with find_tim_Some [OF Some] kind(4) have el: "el \<in> set (cl_col c)" "el_pid el = pid" by auto
    then have "elem_ok el" using col by (simp add: col_ok_def)
    with c' Some request_result_fits [OF this _ el(2) kind(1,2)] show ?thesis by (auto simp: timer_done_def bindE_eq_Inr)
  qed
  moreover have "waits_ok (c', ?rest @ new)"
  proof (rule waits_ok_new [OF waits_okI refl refl])
    show "distinct (wait_tims ?rest)" by (rule wait_tims_distinct_remove1 [OF dist])
    show "el_tim ` set (cl_col c') \<subseteq> set (wait_tims ?rest)" using waits c''(2) by (auto simp: cut waits_ok_def)
    fix t' r k i assume "Wait_timer t' r k i \<in> set ?rest"
    then have "Wait_timer t' r k i \<in> set acts" using set_remove1_subset [of _ acts] by blast
    from waits_okD [OF waits this] c''
    show "t' < cl_next_tim c' \<and> k \<noteq> Rq_disconnect \<and> k \<noteq> Rq_auth \<and> (\<forall>el \<in> set (cl_col c'). el_tim el = t' \<longrightarrow> el_pid el = i)" by auto
  qed (use calculation in simp)
  moreover have "col_ok c'" using col c' c''
    by (auto simp: timer_done_def col_ok_def bindE_eq_Inr distinct_map_filter split: option.splits)
  ultimately show ?thesis using res by (simp add: client_ok_def results_ok_append results_ok_remove1)
qed

text \<open>Receiving does not touch the requests.\<close>

lemma recv_same:
  "recv_dispatched req c = (c', new) \<Longrightarrow> cl_col c' = cl_col c \<and> cl_next_tim c' = cl_next_tim c \<and> wait_tims new = [] \<and> results_ok new"
  "recv_notified req c = Inr (c', new) \<Longrightarrow> cl_col c' = cl_col c \<and> cl_next_tim c' = cl_next_tim c \<and> wait_tims new = [] \<and> results_ok new"
  by (auto simp: recv_dispatched_def recv_notified_def Let_def split: list.splits if_splits)

lemma client_ok_other:
  assumes "client_ok (c, acts)" and "cl_col c' = cl_col c" "cl_next_tim c' = cl_next_tim c" "wait_tims new = []" "results_ok new" and "wait_tim a = []"
  shows "client_ok (c', remove1 a acts @ new)" "client_ok (c', acts @ new)"
  using assms waits_ok_cong [of c acts c' a new] waits_ok_new [of c acts c' new]
  by (simp_all add: client_ok_def col_ok_def results_ok_append results_ok_remove1)

lemma client_step_ok:
  assumes ok: "client_ok s" and step: "client_step ev s = Inr s'"
  shows "client_ok s'"
proof -
  obtain c acts where s: "s = (c, acts)" by fastforce
  note ok = ok [unfolded s] and step = step [unfolded s]
  show ?thesis
  proof (cases ev)
    case (Ev_begin req kind ec p)
    with step obtain new where new: "async_request req kind ec p = Inr new" "s' = (c, acts @ new)"
      by (auto simp: continue_with_def bindE_eq_Inr)
    then have "wait_tims new = []" "results_ok new" by (auto simp: async_request_eq begin_request_def split: if_splits option.splits)
    with new client_ok_other(2) [OF ok refl refl, of new Ep_recv] show ?thesis by simp
  next
    case (Ev_sent req ec)
    show ?thesis
    proof (cases "find (is_sending req) acts")
      case None
      with step Ev_sent ok show ?thesis by (simp add: take_action_def)
    next
      case (Some a)
      with find_SomeD [OF Some] obtain kind p where a: "a = Ep_send req kind p" "a \<in> set acts" by (cases a) auto
      obtain c' new where "request_sent req kind (packet_id p) ec c = (c', new)" by fastforce
      with request_sent_ok [OF ok a(2) [unfolded a(1)] this] step Ev_sent Some a show ?thesis
        by (auto simp: take_action_def continue_with_def)
    qed
  next
    case (Ev_received ec pv)
    show ?thesis
    proof (cases "find (\<lambda>a. a = Ep_recv) acts")
      case None
      with step Ev_received ok show ?thesis by (simp add: take_action_def)
    next
      case (Some a)
      with find_SomeD [OF Some] have a: "a = Ep_recv" by simp
      with step Ev_received Some obtain c' new where c': "loop_received ec pv c = Inr (c', new)" "s' = (c', remove1 Ep_recv acts @ new)"
        by (auto simp: take_action_def continue_with_def bindE_eq_Inr)
      from ok loop_received_ok [OF _ _ c'(1), of acts] have
        "col_ok c'" "waits_ok (c', acts)" "wait_tims new = []" "results_ok new" "results_ok acts" by (auto simp: client_ok_def)
      with waits_ok_cong [of c' acts c' Ep_recv new] c'(2) show ?thesis by (simp add: client_ok_def results_ok_append results_ok_remove1)
    qed
  next
    case (Ev_timer tim)
    show ?thesis
    proof (cases "find (\<lambda>a. waits_for tim a \<and> tim \<in> cl_cancelled c) acts")
      case (Some a)
      with find_SomeD [OF Some] obtain req kind pid where a: "a = Wait_timer tim req kind pid" "a \<in> set acts" by (cases a) auto
      with step Ev_timer Some timer_done_ok [OF ok a(2) [unfolded a(1)]] show ?thesis by (auto simp: take_action_def continue_with_def bindE_eq_Inr)
    qed (use step Ev_timer ok in \<open>simp add: take_action_def\<close>)
  next
    case (Ev_cancel tim)
    show ?thesis
    proof (cases "find (waits_for tim) acts")
      case (Some a)
      with find_SomeD [OF Some] obtain req kind pid where a: "a = Wait_timer tim req kind pid" "a \<in> set acts" by (cases a) auto
      with step Ev_cancel Some timer_done_ok [OF ok a(2) [unfolded a(1)]] show ?thesis by (auto simp: take_action_def continue_with_def bindE_eq_Inr)
    qed (use step Ev_cancel ok in \<open>simp add: take_action_def\<close>)
  next
    case (Ev_recv req)
    with step client_ok_other(2) [OF ok refl refl, of "[Dispatch_recv req]" Ep_recv] show ?thesis by simp
  next
    case (Ev_dispatch req)
    obtain c' new where c': "recv_dispatched req c = (c', new)" by fastforce
    with step Ev_dispatch ok client_ok_other(1) [OF ok, of c' new "Dispatch_recv req"] recv_same(1) [OF c'] show ?thesis
      by (auto simp: take_action_def continue_with_def dest: find_SomeD split: option.splits)
  next
    case (Ev_notify req)
    show ?thesis
    proof (cases "find (is_notified req c) acts")
      case (Some a)
      then have a: "wait_tim a = []" using find_SomeD [OF Some] by (cases a) auto
      from step Ev_notify Some obtain c' new where c': "recv_notified req c = Inr (c', new)" "s' = (c', remove1 a acts @ new)"
        by (auto simp: take_action_def continue_with_def bindE_eq_Inr)
      with client_ok_other(1) [OF ok, of c' new a] recv_same(2) [OF c'(1)] a show ?thesis by simp
    qed (use step Ev_notify ok in \<open>simp add: take_action_def\<close>)
  next
    case (Ev_hand_out a)
    have "is_completion a \<Longrightarrow> wait_tim a = []" by (cases a) auto
    with step Ev_hand_out ok client_ok_other(1) [OF ok refl refl, of "[]" a] show ?thesis by (auto split: if_splits)
  qed
qed

lemma client_run_ok: "client_ok s \<Longrightarrow> client_run evs s = Inr s' \<Longrightarrow> client_ok s'"
  by (induction evs arbitrary: s) (auto simp: bindE_eq_Inr dest: client_step_ok)

lemma client_init_ok: "client_ok (client_init ver, [])"
  by (simp add: client_ok_def client_init_def col_ok_def waits_ok_def)

end
