(* ===== verification/Client_Answer.thy ===== *)
theory Client_Answer
  imports Client_Run
begin

text \<open>
  How a response reaches its request, how an error ends the requests that wait, and what cancelling
  a request does.
\<close>

subsection \<open>A response and its request\<close>

text \<open>The packets that end a request.\<close>

definition answers :: "protocol_version \<Rightarrow> request_kind \<Rightarrow> nat \<Rightarrow> packet_variant \<Rightarrow> bool" where
  "answers ver kind pid p \<longleftrightarrow>
     own_version ver p \<and>
     (case kind of
        Rq_start \<Rightarrow> packet_type p = Cpt_connack \<and> pid = 0
      | Rq_subscribe \<Rightarrow> packet_type p = Cpt_suback \<and> packet_id p = pid
      | Rq_unsubscribe \<Rightarrow> packet_type p = Cpt_unsuback \<and> packet_id p = pid
      | Rq_publish \<Rightarrow>
          packet_id p = pid \<and>
          (packet_type p = Cpt_puback \<or> packet_type p = Cpt_pubcomp \<or> packet_type p = Cpt_pubrec \<and> is_v5 p \<and> ec_failed (v5_response_code p))
      | _ \<Rightarrow> False)"

definition put_response :: "packet_variant \<Rightarrow> pending_elem \<Rightarrow> pending_elem" where
  "put_response p =
     (case packet_type p of
        Cpt_puback \<Rightarrow> set_puback p
      | Cpt_pubrec \<Rightarrow> set_pubrec p
      | Cpt_pubcomp \<Rightarrow> set_pubcomp p
      | _ \<Rightarrow> set_pv p)"

definition answer_result :: "protocol_version \<Rightarrow> request_kind \<Rightarrow> packet_variant \<Rightarrow> pending_elem \<Rightarrow> client_result" where
  "answer_result ver kind p el =
     (case kind of
        Rq_start \<Rightarrow> start_result p
      | Rq_subscribe \<Rightarrow> subscribe_result p
      | Rq_unsubscribe \<Rightarrow> unsubscribe_result p
      | _ \<Rightarrow> Published (publish_code ver (el_res (put_response p el))) (el_res (put_response p el)))"

lemma put_response_same [simp]: "el_pid (put_response p el) = el_pid el" "el_tim (put_response p el) = el_tim el"
  by (simp_all add: put_response_def split: control_packet_type.split)

lemma answers_visit:
  assumes "answers (cl_version c) kind pid p"
  shows "visit_received p c = modify_pid pid (put_response p) True c" "request_result ver kind (put_response p el) = Inr (answer_result ver kind p el)"
proof -
  have "is_V5_auth p \<Longrightarrow> packet_type p = Cpt_auth" by (cases p) simp_all
  moreover have "packet_type p \<noteq> Cpt_auth" using assms by (cases kind) (auto simp: answers_def)
  ultimately have auth: "\<not> is_V5_auth p" by blast
  have own: "own_version (cl_version c) p" using assms by (simp add: answers_def)
  note visit = visit_received_def put_response_def
  show "visit_received p c = modify_pid pid (put_response p) True c"
    using assms auth own
    by (cases kind) (simp_all add: answers_def visit, elim conjE disjE, simp_all add: visit)
  show "request_result ver kind (put_response p el) = Inr (answer_result ver kind p el)"
    using assms by (cases kind) (simp_all add: answers_def request_result_def answer_result_def put_response_def set_pv_def)
qed

lemma find_unique:
  assumes "x \<in> set xs" and "P x" and "\<And>y. y \<in> set xs \<Longrightarrow> P y \<Longrightarrow> y = x" shows "find P xs = Some x"
proof (cases "find P xs")
  case None
  with assms(1,2) show ?thesis by (simp add: find_None_iff)
next
  case (Some y)
  with find_SomeD [OF Some] assms(3) [of y] show ?thesis by simp
qed

lemma find_pid_unique: "col_ok c \<Longrightarrow> el \<in> set (cl_col c) \<Longrightarrow> find_pid (el_pid el) (cl_col c) = Some el"
  unfolding find_pid_def by (rule find_unique) (auto simp: col_ok_def distinct_map inj_on_def)

lemma find_tim_unique: "col_ok c \<Longrightarrow> el \<in> set (cl_col c) \<Longrightarrow> find_tim (el_tim el) (cl_col c) = Some el"
  unfolding find_tim_def by (rule find_unique) (auto simp: col_ok_def distinct_map inj_on_def)

lemma find_wait:
  assumes "distinct (wait_tims acts)" and "Wait_timer t req kind pid \<in> set acts"
  shows "find (waits_for t) acts = Some (Wait_timer t req kind pid)"
proof (rule find_unique)
  fix a assume a: "a \<in> set acts" "waits_for t a"
  from a(2) obtain r k i where "a = Wait_timer t r k i" by (cases a) auto
  with wait_unique [OF assms(1,2), of r k i] a(1) show "a = Wait_timer t req kind pid" by simp
qed (use assms in simp_all)

lemma timer_event:
  assumes "client_ok (c, acts)" and "Wait_timer t req kind pid \<in> set acts" and "t \<in> cl_cancelled c"
  shows "client_step (Ev_timer t) (c, acts) = continue_with (remove1 (Wait_timer t req kind pid) acts) (timer_done t req kind pid c)"
    and "client_step (Ev_cancel t) (c, acts) = continue_with (remove1 (Wait_timer t req kind pid) acts) (timer_done t req kind pid c)"
  using find_wait [OF _ assms(2)] assms(1,3) by (simp_all add: client_ok_def waits_ok_def take_action_def)

lemma cancel_event:
  assumes "client_ok (c, acts)" and "Wait_timer t req kind pid \<in> set acts"
  shows "client_step (Ev_cancel t) (c, acts) = continue_with (remove1 (Wait_timer t req kind pid) acts) (timer_done t req kind pid c)"
  using find_wait [OF _ assms(2)] assms(1) by (simp add: client_ok_def waits_ok_def take_action_def)

lemma received_event:
  assumes "Ep_recv \<in> set acts"
  shows "client_step (Ev_received ec pv) (c, acts) = continue_with (remove1 Ep_recv acts) (loop_received ec pv c)"
proof -
  have "find (\<lambda>a. a = Ep_recv) acts = Some Ep_recv" by (rule find_unique) (use assms in simp_all)
  then show ?thesis by (simp add: take_action_def)
qed

lemma response_reaches_request:
  assumes ok: "client_ok (c, acts)" and w: "Wait_timer t req kind pid \<in> set acts" and el: "el \<in> set (cl_col c)" "el_tim el = t"
    and recv: "Ep_recv \<in> set acts" and p: "answers (cl_version c) kind pid p"
  shows "\<exists>c' rest. client_run [Ev_received ec_success (Some p), Ev_timer t] (c, acts) =
    Inr (c', rest @ [Complete req kind pid (answer_result (cl_version c) kind p el)])"
proof -
  from ok have col: "col_ok c" and waits: "waits_ok (c, acts)" by (simp_all add: client_ok_def)
  define c1 where "c1 = modify_pid pid (put_response p) True c"
  let ?acts = "remove1 Ep_recv acts @ [Ep_recv]"
  have pid: "el_pid el = pid" using waits_okD(4) [OF waits w el] .
  have 1: "client_step (Ev_received ec_success (Some p)) (c, acts) = Inr (c1, ?acts)"
    using received_event [OF recv] answers_visit(1) [OF p] by (simp add: loop_received_def continue_with_def c1_def ec_failed_def ec_success_def)
  have ok1: "client_ok (c1, ?acts)" by (rule client_step_ok [OF ok 1])
  have c1: "t \<in> cl_cancelled c1" "put_response p el \<in> set (cl_col c1)" "cl_version c1 = cl_version c"
    using find_pid_unique [OF col el(1)] el pid by (auto simp: c1_def modify_pid_def)
  have w1: "Wait_timer t req kind pid \<in> set ?acts" using w by (simp add: in_set_remove1)
  have "find_tim t (cl_col c1) = Some (put_response p el)"
    using find_tim_unique [of c1 "put_response p el"] ok1 c1(2) el(2) by (simp add: client_ok_def)
  with answers_visit(2) [OF p, of "cl_version c" el] c1(3) have
    "\<exists>c'. timer_done t req kind pid c1 = Inr (c', [Complete req kind pid (answer_result (cl_version c) kind p el)])"
    by (simp add: timer_done_def)
  with timer_event(1) [OF ok1 w1 c1(1)] 1 show ?thesis by (auto simp: continue_with_def)
qed

subsection \<open>The end of the connection\<close>

text \<open>
  Identifiers of requests under way are distinct, as the allocation of identifiers by the endpoint
  makes them: no request is sent with the identifier of one that waits.
\<close>

fun collides :: "client_event \<Rightarrow> client_state \<Rightarrow> bool" where
  "collides (Ev_sent req ec) (c, acts) \<longleftrightarrow>
     (case find (is_sending req) acts of
        Some (Ep_send r kind p) \<Rightarrow> (if kind = Rq_start then 0 else packet_id p) \<in> el_pid ` set (cl_col c)
      | _ \<Rightarrow> False)"
| "collides _ _ \<longleftrightarrow> False"

fun collision_free :: "client_event list \<Rightarrow> client_state \<Rightarrow> bool" where
  "collision_free [] s \<longleftrightarrow> True"
| "collision_free (ev # evs) s \<longleftrightarrow>
     \<not> collides ev s \<and> (case client_step ev s of Inl _ \<Rightarrow> True | Inr s' \<Rightarrow> collision_free evs s')"

definition all_known :: "client_state \<Rightarrow> bool" where
  "all_known s \<longleftrightarrow> (let (c, acts) = s in set (wait_tims acts) \<subseteq> el_tim ` set (cl_col c) \<union> cl_cancelled c)"

lemma all_known_more:
  assumes "all_known (c, acts)" and "el_tim ` set (cl_col c) \<union> cl_cancelled c \<subseteq> el_tim ` set (cl_col c') \<union> cl_cancelled c'" and "wait_tims new = []"
  shows "all_known (c', remove1 a acts @ new)" "all_known (c', acts @ new)"
proof -
  from assms(1,2) have all: "set (wait_tims acts) \<subseteq> el_tim ` set (cl_col c') \<union> cl_cancelled c'" unfolding all_known_def prod.case Let_def by (rule subset_trans)
  then show "all_known (c', acts @ new)" using assms(3) by (simp add: all_known_def)
  show "all_known (c', remove1 a acts @ new)" using subset_trans [OF wait_tims_remove1 all] assms(3) by (simp add: all_known_def)
qed

lemma request_sent_known:
  assumes "all_known (c, acts)" and "request_sent req kind (packet_id p) ec c = (c', new)"
    and "(if kind = Rq_start then 0 else packet_id p) \<notin> el_pid ` set (cl_col c)" and col: "col_ok c"
  shows "all_known (c', remove1 (Ep_send req kind p) acts @ new)"
proof (cases "c' = c \<and> wait_tims new = []")
  case True
  with all_known_more(1) [OF assms(1), of c new] show ?thesis by simp
next
  case False
  define pid where "pid = (if kind = Rq_start then 0 else packet_id p)"
  from False assms(2) have
    c': "c' = c\<lparr>cl_next_tim := cl_next_tim c + 1, cl_col := col_emplace pid (cl_next_tim c) (cl_col c)\<rparr>"
    and new: "wait_tims new = [cl_next_tim c]"
    by (auto simp: request_sent_eq wait_response_def pid_def Let_def split: if_splits request_kind.splits)
  have "cl_next_tim c \<notin> el_tim ` set (cl_col c)" using col by (auto simp: col_ok_def)
  with assms(3) have "el_tim ` set (cl_col c') = insert (cl_next_tim c) (el_tim ` set (cl_col c))"
    by (simp add: c' col_emplace_def pid_def)
  with assms(1) wait_tims_remove1 [of "Ep_send req kind p" acts] new show ?thesis by (auto simp: all_known_def c')
qed

lemma timer_done_known:
  assumes "all_known (c, acts)" and "distinct (wait_tims acts)" and "Wait_timer t req kind pid \<in> set acts" and "timer_done t req kind pid c = Inr (c', new)"
  shows "all_known (c', remove1 (Wait_timer t req kind pid) acts @ new)"
proof -
  have "cl_cancelled c' = cl_cancelled c" "set (cl_col c') = {el \<in> set (cl_col c). el_tim el \<noteq> t}" "wait_tims new = []"
    using assms(4) by (auto simp: timer_done_def find_tim_def find_None_iff bindE_eq_Inr split: option.splits)
  with wait_tims_removed [OF assms(2,3)] assms(1) show ?thesis by (auto simp: all_known_def)
qed

abbreviation known_tims :: "client \<Rightarrow> nat set" where
  "known_tims c \<equiv> el_tim ` set (cl_col c) \<union> cl_cancelled c"

lemma modify_pid_known:
  assumes "\<And>x. el_tim (f x) = el_tim x" shows "known_tims c \<subseteq> known_tims (modify_pid pid f b c)"
proof -
  have "map el_tim (cl_col (modify_pid pid f b c)) = map el_tim (cl_col c)" by (simp add: modify_pid_def assms split: option.split)
  from arg_cong [OF this, of set] have "el_tim ` set (cl_col (modify_pid pid f b c)) = el_tim ` set (cl_col c)" by simp
  moreover have "cl_cancelled c \<subseteq> cl_cancelled (modify_pid pid f b c)" by (auto simp: modify_pid_def split: option.split)
  ultimately show ?thesis by blast
qed

lemma visit_received_known: "known_tims c \<subseteq> known_tims (visit_received p c)"
proof -
  have push: "known_tims c \<subseteq> known_tims (push_received x c)" for x by simp
  note set = modify_pid_known [where f = "set_pv p"] modify_pid_known [where f = "set_puback p"] modify_pid_known [where f = "set_pubrec p"]
    modify_pid_known [where f = "set_pubcomp p"]
  show ?thesis
    unfolding visit_received_def
    by (cases "is_V5_auth p"; cases "own_version (cl_version c) p"; cases "packet_type p")
       (simp_all only: if_True if_False not_True_eq_False not_False_eq_True control_packet_type.case push set set_ok order_refl)
qed

lemma loop_received_known:
  assumes "loop_received ec pv c = Inr (c', new)" shows "known_tims c \<subseteq> known_tims c'" "wait_tims new = []"
proof -
  consider "c' = col_clear (push_received (ec, None) c)" "new = []" | p where "c' = visit_received p c" "new = [Ep_recv]"
    using assms by (auto simp: loop_received_def split: if_splits option.splits)
  then have "known_tims c \<subseteq> known_tims c' \<and> wait_tims new = []"
  proof cases
    case (2 p)
    with visit_received_known [of c p] show ?thesis by simp
  qed (simp add: col_clear_def)
  then show "known_tims c \<subseteq> known_tims c'" "wait_tims new = []" by simp_all
qed

lemma client_step_known:
  assumes ok: "client_ok s" and known: "all_known s" and free: "\<not> collides ev s" and step: "client_step ev s = Inr s'"
  shows "all_known s'"
proof -
  obtain c acts where s: "s = (c, acts)" by fastforce
  note ok = ok [unfolded s] and known = known [unfolded s] and free = free [unfolded s] and step = step [unfolded s]
  have dist: "distinct (wait_tims acts)" using ok by (simp add: client_ok_def waits_ok_def)
  show ?thesis
  proof (cases ev)
    case (Ev_begin req kind ec p)
    with step obtain new where new: "async_request req kind ec p = Inr new" "s' = (c, acts @ new)"
      by (auto simp: continue_with_def bindE_eq_Inr)
    then have "wait_tims new = []" by (auto simp: async_request_eq begin_request_def split: if_splits option.splits)
    with all_known_more(2) [OF known, of c new] new show ?thesis by simp
  next
    case (Ev_sent req ec)
    show ?thesis
    proof (cases "find (is_sending req) acts")
      case (Some a)
      with find_SomeD [OF Some] obtain kind p where a: "a = Ep_send req kind p" by (cases a) auto
      obtain c' new where "request_sent req kind (packet_id p) ec c = (c', new)" by fastforce
      with request_sent_known [OF known this] free ok step Ev_sent Some a show ?thesis
        by (auto simp: take_action_def continue_with_def client_ok_def)
    qed (use step Ev_sent known in \<open>simp add: take_action_def\<close>)
  next
    case (Ev_received ec pv)
    show ?thesis
    proof (cases "find (\<lambda>a. a = Ep_recv) acts")
      case (Some a)
      with step Ev_received obtain c' new where c': "loop_received ec pv c = Inr (c', new)" "s' = (c', remove1 a acts @ new)"
        by (auto simp: take_action_def continue_with_def bindE_eq_Inr)
      with all_known_more(1) [OF known loop_received_known [OF c'(1)], of a] show ?thesis by simp
    qed (use step Ev_received known in \<open>simp add: take_action_def\<close>)
  next
    case (Ev_timer tim)
    show ?thesis
    proof (cases "find (\<lambda>a. waits_for tim a \<and> tim \<in> cl_cancelled c) acts")
      case (Some a)
      with find_SomeD [OF Some] obtain req kind pid where a: "a = Wait_timer tim req kind pid" "a \<in> set acts" by (cases a) auto
      with step Ev_timer Some timer_done_known [OF known dist a(2) [unfolded a(1)]] show ?thesis by (auto simp: take_action_def continue_with_def bindE_eq_Inr)
    qed (use step Ev_timer known in \<open>simp add: take_action_def\<close>)
  next
    case (Ev_cancel tim)
    show ?thesis
    proof (cases "find (waits_for tim) acts")
      case (Some a)
      with find_SomeD [OF Some] obtain req kind pid where a: "a = Wait_timer tim req kind pid" "a \<in> set acts" by (cases a) auto
      with step Ev_cancel Some timer_done_known [OF known dist a(2) [unfolded a(1)]] show ?thesis by (auto simp: take_action_def continue_with_def bindE_eq_Inr)
    qed (use step Ev_cancel known in \<open>simp add: take_action_def\<close>)
  next
    case (Ev_recv req)
    with step all_known_more(2) [OF known, of c "[Dispatch_recv req]"] show ?thesis by simp
  next
    case (Ev_dispatch req)
    obtain c' new where c': "recv_dispatched req c = (c', new)" by fastforce
    then have "cl_cancelled c' = cl_cancelled c" by (auto simp: recv_dispatched_def Let_def split: list.splits)
    with step Ev_dispatch known all_known_more(1) [OF known, of c' new "Dispatch_recv req"] recv_same(1) [OF c'] c' show ?thesis
      by (auto simp: take_action_def continue_with_def dest: find_SomeD split: option.splits)
  next
    case (Ev_notify req)
    show ?thesis
    proof (cases "find (is_notified req c) acts")
      case (Some a)
      from step Ev_notify Some obtain c' new where c': "recv_notified req c = Inr (c', new)" "s' = (c', remove1 a acts @ new)"
        by (auto simp: take_action_def continue_with_def bindE_eq_Inr)
      then have "cl_cancelled c' = cl_cancelled c" by (auto simp: recv_notified_def split: list.splits if_splits)
      with c' all_known_more(1) [OF known, of c' new a] recv_same(2) [OF c'(1)] show ?thesis by simp
    qed (use step Ev_notify known in \<open>simp add: take_action_def\<close>)
  next
    case (Ev_hand_out a)
    with step known all_known_more(1) [OF known, of c "[]" a] show ?thesis by (auto split: if_splits)
  qed
qed

lemma client_run_known:
  "client_ok s \<Longrightarrow> all_known s \<Longrightarrow> collision_free evs s \<Longrightarrow> client_run evs s = Inr s' \<Longrightarrow> all_known s'"
proof (induction evs arbitrary: s)
  case (Cons ev evs)
  then obtain s1 where s1: "client_step ev s = Inr s1" "client_run evs s1 = Inr s'" by (auto simp: bindE_eq_Inr)
  with Cons client_step_ok [OF Cons.prems(1) s1(1)] client_step_known [OF Cons.prems(1,2) _ s1(1)] show ?case by simp
qed simp

subsection \<open>Properties\<close>

lemma client_run_append: "client_run (xs @ ys) s = bindE (client_run xs s) (client_run ys)"
proof (induction xs arbitrary: s)
  case (Cons x xs)
  then show ?case by (cases "client_step x s") simp_all
qed simp

lemma run_from_init: "client_run evs (client_init ver, []) = Inr s \<Longrightarrow> client_ok s"
  by (rule client_run_ok [OF client_init_ok])

text \<open>
  C15. No request gets the response of another. Whatever the user does and the endpoint reports, in
  whatever order: a response with which a request completes is of the type that answers this kind of
  request and has its packet identifier.
\<close>

theorem responses_belong_to_requests:
  "client_run evs (client_init ver, []) = Inr (c, acts) \<Longrightarrow> Complete req kind pid res \<in> set acts \<Longrightarrow> result_fits kind pid res"
  using run_from_init by (fastforce simp: client_ok_def results_ok_def)

definition sample_start :: "client_event list" where
  "sample_start = [Ev_begin 7 Rq_start ec_success (Some (V3_connect sample_connect)), Ev_sent 7 ec_success]"

abbreviation sample_answer :: packet_variant where
  "sample_answer \<equiv> V3_connack (make_v3_connack False 0)"

lemma ec_success_ok [simp]: "\<not> ec_failed ec_success"
  by (simp add: ec_failed_def ec_success_def)

lemma sample_start_run:
  "client_run sample_start (client_init V3_1_1, []) =
     Inr (client_init V3_1_1\<lparr>cl_next_tim := 1, cl_col := [\<lparr>el_pid = 0, el_tim = 0, el_pv = None, el_res = no_pubres\<rparr>]\<rparr>,
       [Ep_recv, Wait_timer 0 7 Rq_start 0])"
  by (simp add: sample_start_def async_request_eq begin_request_def continue_with_def take_action_def request_sent_eq wait_response_def client_init_def
    col_emplace_def)

lemma sample_answers: "answers V3_1_1 Rq_start 0 sample_answer"
  by (simp add: answers_def own_version_def is_v3_1_1_def)

theorem responses_belong_to_requests_witness:
  "\<exists>c acts res. client_run (sample_start @ [Ev_received ec_success (Some sample_answer), Ev_timer 0]) (client_init V3_1_1, []) = Inr (c, acts) \<and>
     Complete 7 Rq_start 0 res \<in> set acts \<and> result_fits Rq_start 0 res"
proof -
  have "\<exists>c acts res. client_run (sample_start @ [Ev_received ec_success (Some sample_answer), Ev_timer 0]) (client_init V3_1_1, []) = Inr (c, acts) \<and>
     Complete 7 Rq_start 0 res \<in> set acts"
    by (simp add: sample_start_def async_request_eq begin_request_def continue_with_def take_action_def request_sent_eq wait_response_def client_init_def
      col_emplace_def loop_received_def visit_received_def own_version_def is_v3_1_1_def modify_pid_def find_pid_def timer_done_def find_tim_def request_result_def set_pv_def)
  then obtain c acts res where
    run: "client_run (sample_start @ [Ev_received ec_success (Some sample_answer), Ev_timer 0]) (client_init V3_1_1, []) = Inr (c, acts)"
      "Complete 7 Rq_start 0 res \<in> set acts" by blast
  with responses_belong_to_requests [OF run] show ?thesis by blast
qed



text \<open>
  C17. The end of the connection ends every request. When the endpoint reports an error to the receive
  loop, the error is queued for \<^verbatim>\<open>async_recv\<close>, and every request that waits becomes ready and completes
  with \<^verbatim>\<open>operation_aborted\<close>, provided that no two requests under way had the same identifier.
\<close>

theorem error_ends_requests:
  assumes run: "client_run evs (client_init ver, []) = Inr (c, acts)" and free: "collision_free evs (client_init ver, [])"
    and recv: "Ep_recv \<in> set acts" and ec: "ec_failed ec"
  shows "\<exists>c1 acts1. client_step (Ev_received ec pv) (c, acts) = Inr (c1, acts1) \<and> cl_recv_queue c1 = cl_recv_queue c @ [(ec, None)] \<and>
    (\<forall>t req kind pid. Wait_timer t req kind pid \<in> set acts \<longrightarrow> Wait_timer t req kind pid \<in> set acts1 \<and>
       (\<exists>c2 rest. client_step (Ev_timer t) (c1, acts1) = Inr (c2, rest @ [Complete req kind pid (failed_result kind operation_aborted)])))"
proof -
  define c1 where "c1 = col_clear (push_received (ec, None) c)"
  let ?acts = "remove1 Ep_recv acts"
  have step: "client_step (Ev_received ec pv) (c, acts) = Inr (c1, ?acts)"
    using received_event [OF recv] ec by (simp add: loop_received_def continue_with_def c1_def)
  note ok = run_from_init [OF run]
  have known: "all_known (c, acts)" using client_run_known [OF client_init_ok _ free run] by (simp add: all_known_def)
  have ok1: "client_ok (c1, ?acts)" by (rule client_step_ok [OF ok step])
  have "Wait_timer t req kind pid \<in> set ?acts \<and>
      (\<exists>c2 rest. client_step (Ev_timer t) (c1, ?acts) = Inr (c2, rest @ [Complete req kind pid (failed_result kind operation_aborted)]))"
    if w: "Wait_timer t req kind pid \<in> set acts" for t req kind pid
  proof -
    have w1: "Wait_timer t req kind pid \<in> set ?acts" using w by (simp add: in_set_remove1)
    have "t \<in> set (wait_tims acts)" using w set_wait_tims by blast
    then have "t \<in> cl_cancelled c1" using known by (auto simp: all_known_def c1_def col_clear_def)
    with timer_event(1) [OF ok1 w1] w1 show ?thesis by (simp add: timer_done_def find_tim_def c1_def col_clear_def continue_with_def)
  qed
  moreover have "cl_recv_queue c1 = cl_recv_queue c @ [(ec, None)]" by (simp add: c1_def col_clear_def push_received_def)
  ultimately show ?thesis using step by blast
qed

theorem error_ends_requests_witness:
  "\<exists>s c1 acts1 c2 rest. client_run sample_start (client_init V3_1_1, []) = Inr s \<and>
     client_step (Ev_received operation_aborted None) s = Inr (c1, acts1) \<and>
     client_step (Ev_timer 0) (c1, acts1) = Inr (c2, rest @ [Complete 7 Rq_start 0 (Responded operation_aborted None)])"
proof -
  have "collision_free sample_start (client_init V3_1_1, [])"
    by (simp add: sample_start_def client_init_def async_request_eq begin_request_def continue_with_def split: sum.split)
  moreover have "ec_failed operation_aborted" by (simp add: ec_failed_def operation_aborted_def)
  ultimately obtain c1 acts1 where "client_step (Ev_received operation_aborted None)
      (client_init V3_1_1\<lparr>cl_next_tim := 1, cl_col := [\<lparr>el_pid = 0, el_tim = 0, el_pv = None, el_res = no_pubres\<rparr>]\<rparr>, [Ep_recv, Wait_timer 0 7 Rq_start 0]) =
        Inr (c1, acts1)"
      "\<exists>c2 rest. client_step (Ev_timer 0) (c1, acts1) = Inr (c2, rest @ [Complete 7 Rq_start 0 (failed_result Rq_start operation_aborted)])"
    using error_ends_requests [OF sample_start_run, of operation_aborted None] by auto
  with sample_start_run show ?thesis by (auto simp: failed_result_def)
qed

text \<open>
  C18. Cancelling a request that waits is not handled. The handler takes the end of the wait for a
  response. A start, subscribe or unsubscribe then reads an empty \<^verbatim>\<open>std::optional\<close>, which is undefined
  behaviour, and a publish of MQTT 3.1.1 reports success although nothing was acknowledged.
\<close>

theorem cancelled_request_unhandled:
  assumes "client_run evs (client_init ver, []) = Inr (c, acts)" and "Wait_timer t req kind pid \<in> set acts"
    and "el \<in> set (cl_col c)" "el_tim el = t" and "el_pv el = None" "el_res el = no_pubres"
  shows "(kind \<in> {Rq_start, Rq_subscribe, Rq_unsubscribe} \<longrightarrow> client_step (Ev_cancel t) (c, acts) = Inl Undefined) \<and>
    (kind = Rq_publish \<longrightarrow> cl_version c = V3_1_1 \<longrightarrow>
       (\<exists>c' rest. client_step (Ev_cancel t) (c, acts) = Inr (c', rest @ [Complete req kind pid (Published ec_success no_pubres)])))"
proof -
  note ok = run_from_init [OF assms(1)]
  have "find_tim t (cl_col c) = Some el" using find_tim_unique [of c el] ok assms(3,4) by (simp add: client_ok_def)
  with cancel_event [OF ok assms(2)] assms(5,6) show ?thesis
    by (auto simp: timer_done_def request_result_def continue_with_def publish_code_def)
qed

theorem cancelled_request_unhandled_witness:
  "client_run (sample_start @ [Ev_cancel 0]) (client_init V3_1_1, []) = Inl Undefined"
proof -
  have run: "client_run (sample_start @ [Ev_cancel 0]) (client_init V3_1_1, []) =
      bindE (client_run sample_start (client_init V3_1_1, [])) (client_run [Ev_cancel 0])"
    by (rule client_run_append)
  from cancelled_request_unhandled [OF sample_start_run, of 0 7 Rq_start 0] show ?thesis
    unfolding run sample_start_run by simp
qed

end
