(* ===== verification/Stream_Impl.thy ===== *)
theory Stream_Impl
  imports Packet_Builder
begin

text \<open>
  The stream under the endpoint: \<^verbatim>\<open>stream_impl\<close> of \<^verbatim>\<open>asio_bind/impl/stream_impl.hpp\<close> with its operations
  \<^verbatim>\<open>stream_write_packet_op\<close> and \<^verbatim>\<open>stream_close_op\<close>, and the queue of writes \<^verbatim>\<open>util/ioc_queue.hpp\<close>.

  \<^item> An \<open>ioc_queue\<close> is the \<^verbatim>\<open>io_context\<close> in it (the handlers posted to it, whether it is stopped) with the
    members of the class. An \<^verbatim>\<open>io_context\<close> stops when it runs out of work; handlers and a work guard are
    work.
  \<^item> A \<^verbatim>\<open>const_buffer\<close> refers to the memory of a packet: it is the number of the operation that owns the
    packet and the bytes.
  \<^item> The layers below are known by what \<^verbatim>\<open>has_async_close\<close> says of them, from \<^verbatim>\<open>nl_\<close> down to the
    lowest one.
  \<^item> An operation returns what it asks for as \<open>stream_action\<close>s. Handlers run one at a time, on the
    executor of the stream, in any order: \<open>stream_step\<close>. The completion handler of the user runs as a
    step of its own.
  \<^item> \<^verbatim>\<open>async_read_some\<close> and \<^verbatim>\<open>async_underlying_handshake\<close> hand their arguments to the layer below and the
    result back; they touch no state of the stream. \<^verbatim>\<open>read_queue_\<close> is not used.
\<close>

subsection \<open>The queue\<close>

record 'h ioc_queue =
  iq_handlers :: "'h list"
  iq_stopped :: bool
  iq_working :: bool
  iq_guard :: bool

definition ioc_queue_init :: "'h ioc_queue" where
  "ioc_queue_init = \<lparr>iq_handlers = [], iq_stopped = True, iq_working = False, iq_guard = False\<rparr>"

text \<open>The \<^verbatim>\<open>io_context\<close> stops when the last work is finished.\<close>

definition work_finished :: "'h ioc_queue \<Rightarrow> 'h ioc_queue" where
  "work_finished q = (if iq_handlers q = [] \<and> \<not> iq_guard q then q\<lparr>iq_stopped := True\<rparr> else q)"

definition start_work :: "'h ioc_queue \<Rightarrow> 'h ioc_queue" where
  "start_work q = q\<lparr>iq_working := True, iq_guard := True\<rparr>"

definition stop_work :: "'h ioc_queue \<Rightarrow> 'h ioc_queue" where
  "stop_work q = (if iq_guard q then work_finished (q\<lparr>iq_guard := False\<rparr>) else q)"

definition immediate_executable :: "'h ioc_queue \<Rightarrow> bool" where
  "immediate_executable q \<longleftrightarrow> \<not> iq_working q \<and> iq_stopped q"

definition iq_post :: "'h \<Rightarrow> 'h ioc_queue \<Rightarrow> 'h ioc_queue" where
  "iq_post h q = q\<lparr>iq_handlers := iq_handlers q @ [h]\<rparr>"

text \<open>
  \<^verbatim>\<open>io_context::poll_one\<close>: the handler that runs, and the queue without it. Afterwards the work of the
  handler is finished.
\<close>

fun iq_next :: "'h ioc_queue \<Rightarrow> 'h option \<times> 'h ioc_queue" where
  "iq_next q =
    (if iq_stopped q then (None, q)
     else case iq_handlers q of
         [] \<Rightarrow> (None, work_finished q)
       | h # hs \<Rightarrow> (Some h, q\<lparr>iq_handlers := hs\<rparr>))"

subsection \<open>State and actions\<close>

datatype write_state = Wo_dispatch | Wo_post | Wo_write | Wo_bulk_write | Wo_complete

record write_op =
  wo_id :: nat
  wo_packet :: packet_variant
  wo_size :: nat
  wo_state :: write_state

type_synonym const_buffer = "nat \<times> bytes"

datatype stream_close_state = Sc_dispatch | Sc_close | Sc_complete

record stream_close_op =
  sc_id :: nat
  sc_state :: stream_close_state

record stream_impl =
  si_layers :: "bool list"
  si_open :: bool
  si_write_queue :: "write_op ioc_queue"
  si_storing_cbs :: "const_buffer list"
  si_sending_cbs :: "const_buffer list"
  si_bulk_write :: bool

text \<open>
  What is asked for: to be resumed on the executor; a write of buffers on the layer below; to be resumed with a
  result; \<^verbatim>\<open>poll_one\<close> of the queue; the steps of a close, with the layers still to be closed. \<open>Sa_written\<close> and
  \<open>Sa_closed\<close> are calls of completion handlers.
\<close>

datatype stream_action =
    Sa_dispatch write_op
  | Sa_write write_op "const_buffer list"
  | Sa_result write_op error_code nat
  | Sa_poll_one
  | Sa_written nat error_code nat
  | Sa_close_layer stream_close_op "bool list"
  | Sa_async_close stream_close_op "bool list"
  | Sa_close_last stream_close_op
  | Sa_close_dispatch stream_close_op
  | Sa_closed nat error_code

definition stream_impl_init :: "bool list \<Rightarrow> bool \<Rightarrow> stream_impl" where
  "stream_impl_init layers opn =
    \<lparr>si_layers = layers, si_open = opn, si_write_queue = ioc_queue_init, si_storing_cbs = [], si_sending_cbs = [],
     si_bulk_write = False\<rparr>"

definition set_bulk_write :: "bool \<Rightarrow> stream_impl \<Rightarrow> stream_impl" where
  "set_bulk_write val s = s\<lparr>si_bulk_write := val\<rparr>"

abbreviation upd_queue :: "(write_op ioc_queue \<Rightarrow> write_op ioc_queue) \<Rightarrow> stream_impl \<Rightarrow> stream_impl" where
  "upd_queue f s \<equiv> s\<lparr>si_write_queue := f (si_write_queue s)\<rparr>"

definition op_cbs :: "write_op \<Rightarrow> const_buffer list" where
  "op_cbs op = map (Pair (wo_id op)) (packet_variant_const_buffer_sequence (wo_packet op))"

text \<open>\<^verbatim>\<open>errc::connection_reset\<close>, the number of Linux; the category of \<^verbatim>\<open>errc\<close> is taken to be the system's.\<close>

definition connection_reset :: error_code where "connection_reset = Error_Code Cat_system 104"

subsection \<open>Writing a packet\<close>

definition write_start :: "write_op \<Rightarrow> stream_impl \<Rightarrow> stream_impl \<times> stream_action list" where
  "write_start op s =
    (let s = upd_queue start_work s; op' = op\<lparr>wo_state := Wo_complete\<rparr>
     in if si_open s then (s, [Sa_write op' (op_cbs op)]) else (s, [Sa_result op' connection_reset 0]))"

definition bulk_write_start :: "write_op \<Rightarrow> stream_impl \<Rightarrow> stream_impl \<times> stream_action list" where
  "bulk_write_start op s =
    (let s = upd_queue start_work s; op' = op\<lparr>wo_state := Wo_complete\<rparr>
     in if si_open s then
          (if si_storing_cbs s = [] then (s, [Sa_result op' ec_success (wo_size op)])
           else (s\<lparr>si_sending_cbs := si_storing_cbs s, si_storing_cbs := []\<rparr>, [Sa_write op' (si_storing_cbs s)]))
        else (s, [Sa_result op' connection_reset 0]))"

definition run_queued :: "write_op \<Rightarrow> stream_impl \<Rightarrow> stream_impl \<times> stream_action list" where
  "run_queued op s =
    (case wo_state op of
       Wo_write \<Rightarrow> write_start op s
     | Wo_bulk_write \<Rightarrow> bulk_write_start op s
     | _ \<Rightarrow> (s, []))"

definition poll_context :: "stream_impl \<Rightarrow> stream_impl \<times> stream_action list" where
  "poll_context s =
    (case iq_next (si_write_queue s) of
       (None, q) \<Rightarrow> (s\<lparr>si_write_queue := q\<rparr>, [])
     | (Some op, q) \<Rightarrow> (let (s, acts) = run_queued op (s\<lparr>si_write_queue := q\<rparr>) in (upd_queue work_finished s, acts)))"

definition try_execute :: "stream_impl \<Rightarrow> stream_impl \<times> stream_action list" where
  "try_execute s =
    (if immediate_executable (si_write_queue s) then poll_context (upd_queue (iq_stopped_update (\<lambda>_. False)) s) else (s, []))"

definition queue_poll_one :: "stream_impl \<Rightarrow> stream_impl \<times> stream_action list" where
  "queue_poll_one s = poll_context (upd_queue (\<lambda>q. q\<lparr>iq_working := False, iq_stopped := False\<rparr>) s)"

definition write_post :: "write_op \<Rightarrow> stream_impl \<Rightarrow> stream_impl \<times> stream_action list" where
  "write_post op s =
    (let (op, s) =
       (if \<not> si_bulk_write s \<or> immediate_executable (si_write_queue s) then (op\<lparr>wo_state := Wo_write\<rparr>, s)
        else (op\<lparr>wo_state := Wo_bulk_write\<rparr>, s\<lparr>si_storing_cbs := si_storing_cbs s @ op_cbs op\<rparr>))
     in try_execute (upd_queue (iq_post op) s))"

definition run_write :: "write_op \<Rightarrow> stream_impl \<Rightarrow> stream_impl \<times> stream_action list" where
  "run_write op s =
    (case wo_state op of
       Wo_dispatch \<Rightarrow> (s, [Sa_dispatch (op\<lparr>wo_state := Wo_post\<rparr>)])
     | Wo_post \<Rightarrow> write_post op s
     | _ \<Rightarrow> run_queued op s)"

definition async_write_packet :: "nat \<Rightarrow> packet_variant \<Rightarrow> stream_impl \<Rightarrow> stream_impl \<times> stream_action list" where
  "async_write_packet i p s =
    run_write \<lparr>wo_id = i, wo_packet = p, wo_size = packet_variant_size p, wo_state = Wo_dispatch\<rparr> s"

definition run_written :: "write_op \<Rightarrow> error_code \<Rightarrow> nat \<Rightarrow> stream_impl \<Rightarrow> stream_impl \<times> stream_action list" where
  "run_written op ec n s =
    (if ec_failed ec then (upd_queue stop_work s, [Sa_poll_one, Sa_written (wo_id op) ec n])
     else if wo_state op = Wo_complete then
       ((upd_queue stop_work s)\<lparr>si_sending_cbs := []\<rparr>, [Sa_poll_one, Sa_written (wo_id op) ec (wo_size op)])
     else (s, []))"

subsection \<open>Closing\<close>

definition run_stream_close :: "stream_close_op \<Rightarrow> error_code \<Rightarrow> stream_impl \<Rightarrow> stream_impl \<times> stream_action list" where
  "run_stream_close op ec s =
    (if sc_state op = Sc_dispatch then (s, [Sa_close_layer (op\<lparr>sc_state := Sc_close\<rparr>) (si_layers s)])
     else (s\<lparr>si_storing_cbs := [], si_sending_cbs := []\<rparr>, [Sa_closed (sc_id op) ec]))"

definition stream_async_close :: "nat \<Rightarrow> stream_impl \<Rightarrow> stream_impl \<times> stream_action list" where
  "stream_async_close i s = run_stream_close \<lparr>sc_id = i, sc_state = Sc_dispatch\<rparr> ec_success s"

fun run_close_layer :: "stream_close_op \<Rightarrow> bool list \<Rightarrow> stream_impl \<Rightarrow> stream_impl \<times> stream_action list" where
  "run_close_layer op [] s = (s, [])"
| "run_close_layer op (has_async_close # below) s =
    (if has_async_close then
       (if below \<noteq> [] then (s, [Sa_async_close op below])
        else (s, [Sa_close_last (op\<lparr>sc_state := Sc_complete\<rparr>)]))
     else
       (if below \<noteq> [] then (s, [Sa_close_layer op (si_layers s)])
        else (s, [Sa_close_dispatch (op\<lparr>sc_state := Sc_complete\<rparr>)])))"

subsection \<open>Schedules\<close>

text \<open>
  The stream with what is pending, the buffers that were handed to the layer below, the operations in
  the order in which they came to the queue, and the calls of completion handlers.
\<close>

record stream_world =
  sw_stream :: stream_impl
  sw_pending :: "stream_action list"
  sw_wire :: "const_buffer list"
  sw_posted :: "write_op list"
  sw_called :: "(nat \<times> packet_variant) list"
  sw_done :: "stream_action list"

definition stream_world_init :: "bool list \<Rightarrow> bool \<Rightarrow> stream_world" where
  "stream_world_init layers opn =
    \<lparr>sw_stream = stream_impl_init layers opn, sw_pending = [], sw_wire = [], sw_posted = [], sw_called = [], sw_done = []\<rparr>"

text \<open>What may happen: calls of the user, the layer below is opened or closed, and a pending action with its result.\<close>

datatype stream_event =
    Sv_write nat packet_variant
  | Sv_bulk bool
  | Sv_close nat
  | Sv_layer bool
  | Sv_resume nat error_code nat

definition is_done :: "stream_action \<Rightarrow> bool" where
  "is_done a \<longleftrightarrow> (case a of Sa_written _ _ _ \<Rightarrow> True | Sa_closed _ _ \<Rightarrow> True | _ \<Rightarrow> False)"

definition handed :: "stream_action \<Rightarrow> const_buffer list" where
  "handed a = (case a of Sa_write _ cbs \<Rightarrow> cbs | _ \<Rightarrow> [])"

definition sw_put :: "stream_impl \<times> stream_action list \<Rightarrow> stream_world \<Rightarrow> stream_world" where
  "sw_put r w = w\<lparr>sw_stream := fst r, sw_pending := sw_pending w @ filter (\<lambda>a. \<not> is_done a) (snd r),
    sw_wire := sw_wire w @ concat (map handed (snd r)), sw_done := sw_done w @ filter is_done (snd r)\<rparr>"

fun resume :: "stream_action \<Rightarrow> error_code \<Rightarrow> nat \<Rightarrow> stream_impl \<Rightarrow> stream_impl \<times> stream_action list" where
  "resume (Sa_dispatch op) ec n s = run_write op s"
| "resume (Sa_write op cbs) ec n s = run_written op ec n s"
| "resume (Sa_result op ec' n') ec n s = run_written op ec' n' s"
| "resume Sa_poll_one ec n s = queue_poll_one s"
| "resume (Sa_close_layer op layers) ec n s = run_close_layer op layers s"
| "resume (Sa_async_close op below) ec n s = run_close_layer op below s"
| "resume (Sa_close_last op) ec n s = run_stream_close op ec s"
| "resume (Sa_close_dispatch op) ec n s = run_stream_close op ec_success s"
| "resume (Sa_written i e m) ec n s = (s, [])"
| "resume (Sa_closed i e) ec n s = (s, [])"

definition posted :: "stream_action \<Rightarrow> write_op list" where
  "posted a = (case a of Sa_dispatch op \<Rightarrow> [op] | _ \<Rightarrow> [])"

fun stream_step :: "stream_event \<Rightarrow> stream_world \<Rightarrow> stream_world option" where
  "stream_step (Sv_write i p) w = Some (sw_put (async_write_packet i p (sw_stream w)) (w\<lparr>sw_called := sw_called w @ [(i, p)]\<rparr>))"
| "stream_step (Sv_bulk b) w = Some (w\<lparr>sw_stream := set_bulk_write b (sw_stream w)\<rparr>)"
| "stream_step (Sv_close i) w = Some (sw_put (stream_async_close i (sw_stream w)) w)"
| "stream_step (Sv_layer b) w = Some (w\<lparr>sw_stream := (sw_stream w)\<lparr>si_open := b\<rparr>\<rparr>)"
| "stream_step (Sv_resume k ec n) w =
    (if k < length (sw_pending w) then
       (let a = sw_pending w ! k
        in Some (sw_put (resume a ec n (sw_stream w))
             (w\<lparr>sw_pending := take k (sw_pending w) @ drop (Suc k) (sw_pending w), sw_posted := sw_posted w @ posted a\<rparr>)))
     else None)"

fun stream_run :: "stream_event list \<Rightarrow> stream_world \<Rightarrow> stream_world option" where
  "stream_run [] w = Some w"
| "stream_run (e # es) w = (case stream_step e w of None \<Rightarrow> None | Some w' \<Rightarrow> stream_run es w')"

end
