(* ===== verification/Stream_Run.thy ===== *)
theory Stream_Run
  imports Stream_Impl "HOL-Library.Multiset" "HOL-Library.Sublist"
begin

text \<open>
  Every schedule of a stream: one write at a time on the layer below, in the order of the calls, and no
  write is forgotten; and what becomes of a bulk write that fails.
\<close>

subsection \<open>One write at a time\<close>

fun is_token :: "stream_action \<Rightarrow> bool" where
  "is_token (Sa_write op cbs) = True"
| "is_token (Sa_result op ec n) = True"
| "is_token Sa_poll_one = True"
| "is_token _ = False"

text \<open>Actions of a write that has the layer below.\<close>

fun is_write :: "stream_action \<Rightarrow> bool" where
  "is_write (Sa_write op cbs) = True"
| "is_write (Sa_result op ec n) = True"
| "is_write _ = False"

text \<open>Every layer but the lowest has \<^verbatim>\<open>async_close\<close>, as all predefined layers have.\<close>

definition closable :: "bool list \<Rightarrow> bool" where
  "closable layers \<longleftrightarrow> layers \<noteq> [] \<and> list_all id (butlast layers)"

fun action_ok :: "stream_action \<Rightarrow> bool" where
  "action_ok (Sa_dispatch op) \<longleftrightarrow> wo_state op = Wo_post"
| "action_ok (Sa_write op cbs) \<longleftrightarrow> wo_state op = Wo_complete"
| "action_ok (Sa_result op ec n) \<longleftrightarrow> wo_state op = Wo_complete"
| "action_ok Sa_poll_one \<longleftrightarrow> True"
| "action_ok (Sa_close_layer op layers) \<longleftrightarrow> sc_state op = Sc_close \<and> closable layers"
| "action_ok (Sa_async_close op layers) \<longleftrightarrow> sc_state op = Sc_close \<and> closable layers"
| "action_ok (Sa_close_last op) \<longleftrightarrow> sc_state op = Sc_complete"
| "action_ok (Sa_close_dispatch op) \<longleftrightarrow> sc_state op = Sc_complete"
| "action_ok (Sa_written i ec n) \<longleftrightarrow> False"
| "action_ok (Sa_closed i ec) \<longleftrightarrow> False"

text \<open>
  Exactly one action can move a working queue on; the guard is held while a write has the layer below; a
  queue that does not work is empty.
\<close>

definition queue_ok :: "write_op ioc_queue \<Rightarrow> stream_action list \<Rightarrow> bool" where
  "queue_ok q acts \<longleftrightarrow>
     length (filter is_token acts) = (if iq_working q then 1 else 0) \<and>
     length (filter is_write acts) = (if iq_guard q then 1 else 0) \<and>
     (\<not> iq_working q \<longrightarrow> iq_stopped q \<and> iq_handlers q = []) \<and>
     list_all (\<lambda>op. wo_state op = Wo_write \<or> wo_state op = Wo_bulk_write) (iq_handlers q)"

lemmas queue_defs = queue_ok_def start_work_def stop_work_def work_finished_def immediate_executable_def iq_post_def

lemmas write_defs = run_write_def write_post_def try_execute_def poll_context_def run_queued_def write_start_def
  bulk_write_start_def queue_poll_one_def run_written_def async_write_packet_def

definition waiting :: "stream_action list \<Rightarrow> stream_action list" where
  "waiting = filter (\<lambda>a. \<not> is_done a)"

lemma is_done_simps [simp]:
  "\<not> is_done (Sa_dispatch op)" "\<not> is_done (Sa_write op cbs)" "\<not> is_done (Sa_result op ec n)" "\<not> is_done Sa_poll_one"
  "\<not> is_done (Sa_close_layer c ls)" "\<not> is_done (Sa_async_close c ls)" "\<not> is_done (Sa_close_last c)"
  "\<not> is_done (Sa_close_dispatch c)" "is_done (Sa_written i ec n)" "is_done (Sa_closed i ec)"
  by (simp_all add: is_done_def)

lemma write_token: "is_write a \<Longrightarrow> is_token a"
  by (cases a) auto

lemma no_token_no_write: "filter is_token acts = [] \<Longrightarrow> filter is_write acts = []"
  by (auto simp: filter_empty_conv write_token)

lemma run_queued_ok:
  assumes "run_queued op s = (s', acts)" and "\<not> iq_guard (si_write_queue s)"
    and "filter is_token rest = []" and "list_all (\<lambda>op. wo_state op = Wo_write \<or> wo_state op = Wo_bulk_write) (op # iq_handlers (si_write_queue s))"
  shows "queue_ok (work_finished (si_write_queue s')) (rest @ waiting acts)"
proof -
  from assms no_token_no_write [OF assms(3)] show ?thesis
    by (auto simp: run_queued_def write_start_def bulk_write_start_def Let_def queue_defs waiting_def split: if_splits)
qed

text \<open>Whoever moves the queue on holds its only token: the other actions have none.\<close>

lemma poll_context_ok:
  assumes "poll_context s = (s', acts)" and "filter is_token rest = []" and "\<not> iq_guard (si_write_queue s)"
    and "\<not> iq_working (si_write_queue s)" and "\<not> iq_stopped (si_write_queue s)"
    and "list_all (\<lambda>op. wo_state op = Wo_write \<or> wo_state op = Wo_bulk_write) (iq_handlers (si_write_queue s))"
  shows "queue_ok (si_write_queue s') (rest @ waiting acts)"
proof (cases "iq_handlers (si_write_queue s)")
  case Nil
  then show ?thesis
    using assms no_token_no_write [OF assms(2)] by (auto simp: poll_context_def queue_defs waiting_def)
next
  case (Cons op hs)
  obtain t where t: "run_queued op (s\<lparr>si_write_queue := (si_write_queue s)\<lparr>iq_handlers := hs\<rparr>\<rparr>) = (t, acts)"
    and "s' = upd_queue work_finished t"
    using assms(1,5) Cons by (auto simp: poll_context_def split: prod.splits)
  then show ?thesis using run_queued_ok [OF t _ assms(2)] assms(3,6) Cons by simp
qed

lemma write_post_ok:
  assumes "write_post op s = (s', acts)" and "queue_ok (si_write_queue s) rest"
  shows "queue_ok (si_write_queue s') (rest @ waiting acts)"
proof (cases "iq_working (si_write_queue s)")
  case True
  then show ?thesis using assms by (auto simp: write_post_def try_execute_def queue_defs waiting_def split: if_splits)
next
  case False
  then have q: "iq_stopped (si_write_queue s)" "iq_handlers (si_write_queue s) = []" "filter is_token rest = []"
    "\<not> iq_guard (si_write_queue s)"
    using assms(2) no_token_no_write [of rest] by (auto simp: queue_ok_def split: if_splits)
  have "poll_context (upd_queue (iq_stopped_update (\<lambda>_. False)) (upd_queue (iq_post (op\<lparr>wo_state := Wo_write\<rparr>)) s)) = (s', acts)"
    using assms(1) False q by (simp add: write_post_def try_execute_def immediate_executable_def iq_post_def)
  from poll_context_ok [OF this q(3)] False q(2,4) show ?thesis by (simp add: iq_post_def)
qed

lemma written_ok:
  assumes "run_written op ec n s = (s', acts)" and "queue_ok (si_write_queue s) (xs @ a # ys)"
    and "is_write a" and "wo_state op = Wo_complete"
  shows "queue_ok (si_write_queue s') (xs @ ys @ waiting acts)"
  using assms write_token [OF assms(3)]
  by (auto simp: run_written_def queue_defs waiting_def split: if_splits)

lemma poll_one_ok:
  assumes "queue_poll_one s = (s', acts)" and "queue_ok (si_write_queue s) (xs @ Sa_poll_one # ys)"
  shows "queue_ok (si_write_queue s') (xs @ ys @ waiting acts)"
proof -
  have "filter is_token (xs @ ys) = []" using assms(2) by (auto simp: queue_ok_def split: if_splits)
  moreover have "\<not> iq_guard (si_write_queue s)" using assms(2) no_token_no_write [OF calculation] by (auto simp: queue_ok_def split: if_splits)
  ultimately show ?thesis
    using poll_context_ok [OF assms(1) [unfolded queue_poll_one_def], of "xs @ ys"] assms(2) by (simp add: queue_ok_def)
qed

fun is_closing :: "stream_action \<Rightarrow> bool" where
  "is_closing (Sa_close_layer c ls) = True"
| "is_closing (Sa_async_close c ls) = True"
| "is_closing (Sa_close_last c) = True"
| "is_closing (Sa_close_dispatch c) = True"
| "is_closing _ = False"

lemma close_same_queue:
  assumes "resume a ec n s = (s', acts)" and "is_closing a"
  shows "si_write_queue s' = si_write_queue s \<and> filter is_token acts = [] \<and> \<not> is_token a"
proof -
  have "si_write_queue s' = si_write_queue s \<and> filter is_token acts = []" if "run_close_layer c ls s = (s', acts)" for c ls
    using that by (cases ls) (auto split: if_splits)
  then show ?thesis using assms by (cases a) (auto simp: run_stream_close_def split: if_splits)
qed

lemma waiting_filter: "filter P acts = [] \<Longrightarrow> filter P (waiting acts) = []"
  by (auto simp: waiting_def filter_empty_conv)

lemma queue_ok_close:
  assumes "queue_ok q (xs @ a # ys)" and "\<not> is_token a" and "filter is_token acts = []"
  shows "queue_ok q (xs @ ys @ waiting acts)"
proof -
  have "\<not> is_write a" using assms(2) write_token by blast
  then show ?thesis
    using assms waiting_filter [OF assms(3)] waiting_filter [OF no_token_no_write [OF assms(3)]]
    by (simp add: queue_ok_def)
qed

lemma action_cases:
  assumes "action_ok a"
  obtains (dispatch) op where "a = Sa_dispatch op" "wo_state op = Wo_post"
    | (writing) op where "is_write a" "wo_state op = Wo_complete" "\<And>ec n s. \<exists>ec' n'. resume a ec n s = run_written op ec' n' s"
    | (poll) "a = Sa_poll_one"
    | (close) "is_closing a"
  using assms by (cases a) auto

theorem resume_queue_ok:
  assumes "resume a ec n s = (s', acts)" and "queue_ok (si_write_queue s) (xs @ a # ys)" and "action_ok a"
  shows "queue_ok (si_write_queue s') (xs @ ys @ waiting acts)"
  using assms(3)
proof (cases rule: action_cases)
  case (dispatch op)
  then have "write_post op s = (s', acts)" using assms(1) by (simp add: run_write_def)
  moreover have "queue_ok (si_write_queue s) (xs @ ys)" using assms(2) dispatch by (simp add: queue_ok_def)
  ultimately show ?thesis using write_post_ok [of op s s' acts "xs @ ys"] by simp
next
  case (writing op)
  then show ?thesis using assms(1,2) written_ok by metis
next
  case poll
  then show ?thesis using assms(1,2) poll_one_ok by simp
next
  case close
  then show ?thesis using close_same_queue [OF assms(1)] queue_ok_close [OF assms(2)] by simp
qed

subsection \<open>Every write completes once\<close>

text \<open>The operations an action carries on, and those whose completion handler it calls.\<close>

fun write_id :: "stream_action \<Rightarrow> nat list" where
  "write_id (Sa_dispatch op) = [wo_id op]"
| "write_id (Sa_write op cbs) = [wo_id op]"
| "write_id (Sa_result op ec n) = [wo_id op]"
| "write_id _ = []"

fun done_id :: "stream_action \<Rightarrow> nat list" where
  "done_id (Sa_written i ec n) = [i]"
| "done_id _ = []"

text \<open>How far an action is from its end, with \<open>stream_work\<close> for all that is under way.\<close>

fun weight :: "stream_action \<Rightarrow> nat" where
  "weight (Sa_dispatch op) = 4"
| "weight (Sa_write op cbs) = 2"
| "weight (Sa_result op ec n) = 2"
| "weight Sa_poll_one = 1"
| "weight (Sa_close_layer c ls) = 2 * length ls + 1"
| "weight (Sa_async_close c ls) = 2 * length ls + 2"
| "weight (Sa_close_last c) = 1"
| "weight (Sa_close_dispatch c) = 1"
| "weight (Sa_written i ec n) = 0"
| "weight (Sa_closed i ec) = 0"

definition stream_work :: "stream_world \<Rightarrow> nat" where
  "stream_work w = sum_list (map weight (sw_pending w)) + 3 * length (iq_handlers (si_write_queue (sw_stream w)))"

definition same_op :: "write_op \<Rightarrow> nat \<times> packet_variant" where
  "same_op op = (wo_id op, wo_packet op)"

definition handler_ids :: "stream_impl \<Rightarrow> nat multiset" where
  "handler_ids s = mset (map wo_id (iq_handlers (si_write_queue s)))"

abbreviation ids_of :: "(stream_action \<Rightarrow> nat list) \<Rightarrow> stream_action list \<Rightarrow> nat multiset" where
  "ids_of f acts \<equiv> mset (concat (map f acts))"

abbreviation handlers_ok :: "stream_impl \<Rightarrow> bool" where
  "handlers_ok s \<equiv> list_all (\<lambda>op. wo_state op = Wo_write \<or> wo_state op = Wo_bulk_write) (iq_handlers (si_write_queue s))"

text \<open>What a handler does with the operations: nothing is lost, and the work shrinks.\<close>

definition passes_on :: "nat multiset \<Rightarrow> nat \<Rightarrow> stream_impl \<Rightarrow> stream_impl \<times> stream_action list \<Rightarrow> bool" where
  "passes_on ids m s r \<longleftrightarrow>
     ids + handler_ids s = ids_of write_id (snd r) + ids_of done_id (snd r) + handler_ids (fst r) \<and>
     sum_list (map weight (snd r)) + 3 * length (iq_handlers (si_write_queue (fst r))) \<le> m + 3 * length (iq_handlers (si_write_queue s)) \<and>
     list_all (\<lambda>a. is_done a \<or> action_ok a) (snd r) \<and> list_all (\<lambda>a. posted a = []) (snd r) \<and> si_layers (fst r) = si_layers s"

lemma iq_handlers_simps [simp]:
  "iq_handlers (work_finished q) = iq_handlers q" "iq_handlers (start_work q) = iq_handlers q"
  "iq_handlers (stop_work q) = iq_handlers q" "iq_handlers (iq_post op q) = iq_handlers q @ [op]"
  by (simp_all add: work_finished_def start_work_def stop_work_def iq_post_def)

lemma posted_simps [simp]:
  "posted (Sa_dispatch op) = [op]" "posted (Sa_write op cbs) = []" "posted (Sa_result op ec n) = []" "posted Sa_poll_one = []"
  "posted (Sa_close_layer c ls) = []" "posted (Sa_async_close c ls) = []" "posted (Sa_close_last c) = []"
  "posted (Sa_close_dispatch c) = []" "posted (Sa_written i ec n) = []" "posted (Sa_closed i ec) = []"
  by (simp_all add: posted_def)

lemma iq_post_simps [simp]:
  "iq_working (iq_post op q) = iq_working q" "iq_stopped (iq_post op q) = iq_stopped q" "iq_guard (iq_post op q) = iq_guard q"
  by (simp_all add: iq_post_def)

lemma run_queued_passes:
  assumes "wo_state op = Wo_write \<or> wo_state op = Wo_bulk_write"
  shows "passes_on {#wo_id op#} 2 s (run_queued op s)"
  using assms by (auto simp: passes_on_def handler_ids_def run_queued_def write_start_def bulk_write_start_def Let_def)

lemma poll_context_passes:
  assumes "handlers_ok s"
  shows "passes_on {#} 0 s (poll_context s)"
proof (cases "iq_handlers (si_write_queue s) = [] \<or> iq_stopped (si_write_queue s)")
  case True
  then show ?thesis by (auto simp: poll_context_def passes_on_def handler_ids_def)
next
  case False
  then obtain op hs where h: "iq_handlers (si_write_queue s) = op # hs" by (meson neq_Nil_conv)
  let ?s = "s\<lparr>si_write_queue := (si_write_queue s)\<lparr>iq_handlers := hs\<rparr>\<rparr>"
  have "passes_on {#wo_id op#} 2 ?s (run_queued op ?s)" using assms h by (intro run_queued_passes) simp
  with False h show ?thesis by (auto simp: poll_context_def passes_on_def handler_ids_def split: prod.splits)
qed

lemma write_post_passes:
  assumes "handlers_ok s"
  shows "passes_on {#wo_id op#} 3 s (write_post op s)"
proof -
  let ?b = "\<not> si_bulk_write s \<or> immediate_executable (si_write_queue s)"
  let ?op = "op\<lparr>wo_state := if ?b then Wo_write else Wo_bulk_write\<rparr>"
  define t where "t = upd_queue (iq_post ?op) (if ?b then s else s\<lparr>si_storing_cbs := si_storing_cbs s @ op_cbs op\<rparr>)"
  have t: "handlers_ok t" "handler_ids t = {#wo_id op#} + handler_ids s" "si_layers t = si_layers s"
    "length (iq_handlers (si_write_queue t)) = length (iq_handlers (si_write_queue s)) + 1"
    using assms by (auto simp: t_def handler_ids_def)
  have "write_post op s = try_execute t" by (simp add: write_post_def t_def)
  moreover have "passes_on {#} 0 t (try_execute t)"
    using poll_context_passes [of "upd_queue (iq_stopped_update (\<lambda>_. False)) t"] t
    by (auto simp: try_execute_def passes_on_def handler_ids_def)
  ultimately show ?thesis using t by (auto simp: passes_on_def)
qed

lemma close_passes:
  assumes "closable ls" and "sc_state c = Sc_close" and "m = 2 * length ls"
  shows "passes_on {#} m s (run_close_layer c ls s)"
  using assms by (cases ls) (auto simp: closable_def passes_on_def handler_ids_def split: if_splits)

lemma resume_passes:
  assumes "action_ok a" and "handlers_ok s"
  shows "passes_on (mset (write_id a)) (weight a - 1) s (resume a ec n s)"
proof (cases a)
  case (Sa_dispatch op)
  then show ?thesis using assms write_post_passes [OF assms(2), of op] by (simp add: run_write_def)
next
  case Sa_poll_one
  then show ?thesis
    using poll_context_passes [of "upd_queue (\<lambda>q. q\<lparr>iq_working := False, iq_stopped := False\<rparr>) s"] assms(2)
    by (simp add: queue_poll_one_def passes_on_def handler_ids_def)
next
  case (Sa_close_layer c ls)
  then show ?thesis using assms(1) close_passes by simp
next
  case (Sa_async_close c ls)
  then show ?thesis using assms(1) close_passes [of ls c "2 * length ls" s] by (simp add: passes_on_def)
qed (use assms(1) in \<open>auto simp: run_written_def run_stream_close_def passes_on_def handler_ids_def\<close>)

subsection \<open>Invariant\<close>

definition stream_ok :: "stream_world \<Rightarrow> bool" where
  "stream_ok w \<longleftrightarrow>
     queue_ok (si_write_queue (sw_stream w)) (sw_pending w) \<and> list_all action_ok (sw_pending w) \<and>
     closable (si_layers (sw_stream w)) \<and>
     ids_of write_id (sw_pending w) + handler_ids (sw_stream w) + ids_of done_id (sw_done w) = mset (map fst (sw_called w)) \<and>
     mset (map same_op (sw_posted w)) + mset (map same_op (concat (map posted (sw_pending w)))) = mset (sw_called w)"

lemma ids_waiting:
  "ids_of write_id (waiting acts) = ids_of write_id acts" "ids_of done_id (filter is_done acts) = ids_of done_id acts"
  "sum_list (map weight (waiting acts)) = sum_list (map weight acts)"
proof -
  have a: "write_id a = []" "weight a = 0" if "is_done a" for a using that by (cases a; simp)+
  have "done_id a = []" if "\<not> is_done a" for a using that by (cases a) simp_all
  with a show "ids_of write_id (waiting acts) = ids_of write_id acts" "ids_of done_id (filter is_done acts) = ids_of done_id acts"
    "sum_list (map weight (waiting acts)) = sum_list (map weight acts)"
    by (induction acts) (simp_all add: waiting_def)
qed

lemma waiting_posted: "list_all (\<lambda>a. posted a = []) acts \<Longrightarrow> concat (map posted (waiting acts)) = []"
  by (simp add: waiting_def list_all_iff)

lemma waiting_action_ok: "list_all (\<lambda>a. is_done a \<or> action_ok a) acts \<Longrightarrow> list_all action_ok (waiting acts)"
  by (auto simp: waiting_def list_all_iff)

lemma stream_ok_init: "closable layers \<Longrightarrow> stream_ok (stream_world_init layers opn)"
  by (simp add: stream_ok_def stream_world_init_def stream_impl_init_def queue_ok_def ioc_queue_init_def handler_ids_def)

text \<open>A resumed action is taken out of the pending ones, and what it asks for is added.\<close>

lemma stream_step_resume:
  assumes "stream_step (Sv_resume k ec n) w = Some w'"
  obtains xs a ys s' acts where "sw_pending w = xs @ a # ys" and "resume a ec n (sw_stream w) = (s', acts)"
    and "w' = w\<lparr>sw_stream := s', sw_pending := xs @ ys @ waiting acts, sw_posted := sw_posted w @ posted a,
      sw_wire := sw_wire w @ concat (map handed acts), sw_done := sw_done w @ filter is_done acts\<rparr>"
proof -
  have k: "k < length (sw_pending w)" using assms by (simp split: if_splits)
  obtain s' acts where r: "resume (sw_pending w ! k) ec n (sw_stream w) = (s', acts)" by fastforce
  show ?thesis
    by (rule that [OF id_take_nth_drop [OF k] r]) (use assms k r in \<open>auto simp: sw_put_def waiting_def Let_def\<close>)
qed

lemma exchanged:
  fixes a :: "'a multiset"
  assumes "a + h = b + d + h'" and "x + (a + y) + h + e = c"
  shows "x + (y + b) + h' + (e + d) = c"
proof -
  have "x + (y + b) + h' + (e + d) = x + y + e + (b + d + h')" by (simp add: ac_simps)
  also have "\<dots> = c" unfolding assms(1) [symmetric] assms(2) [symmetric] by (simp add: ac_simps)
  finally show ?thesis .
qed

lemma resume_ok:
  assumes "stream_step (Sv_resume k ec n) w = Some w'" and "stream_ok w"
  shows "stream_ok w' \<and> stream_work w' < stream_work w \<and> sw_called w' = sw_called w"
proof -
  obtain xs a ys s' acts where p: "sw_pending w = xs @ a # ys" and r: "resume a ec n (sw_stream w) = (s', acts)"
    and w': "w' = w\<lparr>sw_stream := s', sw_pending := xs @ ys @ waiting acts, sw_posted := sw_posted w @ posted a,
      sw_wire := sw_wire w @ concat (map handed acts), sw_done := sw_done w @ filter is_done acts\<rparr>"
    using stream_step_resume [OF assms(1)] .
  have a: "action_ok a" "handlers_ok (sw_stream w)" "queue_ok (si_write_queue (sw_stream w)) (xs @ a # ys)" "0 < weight a"
    using assms(2) p by (auto simp: stream_ok_def queue_ok_def intro: action_ok.elims(2) [of a])
  note pass = resume_passes [OF a(1,2), of ec n, unfolded r passes_on_def, simplified]
  have "ids_of write_id (xs @ ys @ waiting acts) + handler_ids s' + ids_of done_id (sw_done w @ filter is_done acts) =
      mset (map fst (sw_called w))"
    using exchanged [of "mset (write_id a)" "handler_ids (sw_stream w)" "ids_of write_id acts" "ids_of done_id acts"]
      assms(2) pass by (simp add: stream_ok_def p ids_waiting)
  then show ?thesis
    using resume_queue_ok [OF r a(3,1)] assms(2) pass a(4) unfolding stream_ok_def stream_work_def
    by (auto simp: w' p ids_waiting waiting_posted ac_simps intro: waiting_action_ok)
qed

lemma stream_step_ok:
  assumes "stream_step e w = Some w'" and "stream_ok w"
  shows "stream_ok w'"
proof (cases e)
  case (Sv_resume k ec n)
  then show ?thesis using resume_ok assms by blast
next
  case (Sv_write i p)
  then show ?thesis
    using assms by (auto simp: async_write_packet_def run_write_def sw_put_def stream_ok_def queue_ok_def same_op_def)
next
  case (Sv_close i)
  then show ?thesis
    using assms by (auto simp: stream_async_close_def run_stream_close_def sw_put_def stream_ok_def queue_ok_def)
qed (use assms in \<open>auto simp: set_bulk_write_def stream_ok_def handler_ids_def\<close>)

lemma stream_run_ok: "stream_run es w = Some w' \<Longrightarrow> stream_ok w \<Longrightarrow> stream_ok w'"
  by (induction es arbitrary: w) (auto split: option.splits dest: stream_step_ok)

fun is_resume :: "stream_event \<Rightarrow> bool" where
  "is_resume (Sv_resume k ec n) = True"
| "is_resume _ = False"

lemma resumes_bounded:
  assumes "stream_run rs w = Some w'" and "list_all is_resume rs" and "stream_ok w"
  shows "length rs + stream_work w' \<le> stream_work w \<and> sw_called w' = sw_called w"
  using assms
proof (induction rs arbitrary: w)
  case (Cons e rs)
  then obtain k ec n v where e: "e = Sv_resume k ec n" and v: "stream_step e w = Some v" "stream_run rs v = Some w'"
    by (auto elim: is_resume.elims split: option.splits)
  have "stream_ok v \<and> stream_work v < stream_work w \<and> sw_called v = sw_called w"
    using resume_ok v(1) Cons.prems(3) unfolding e by blast
  with Cons.IH [OF v(2)] Cons.prems(2) show ?case by auto
qed simp

text \<open>
  C13. Every write completes. Whatever happens on a stream whose layers can be closed (calls from anywhere, failing writes, bulk
  mode on or off, the connection lost, closes), at most one write is under way on the layer below. From then on, if
  the user makes no more calls, only finitely many handlers can run, at most \<open>stream_work\<close>; and when
  nothing is pending any more, the completion handler of every write that was called has been called
  exactly once, and the queue is empty.
\<close>

theorem stream_writes_complete:
  assumes "stream_run es (stream_world_init layers opn) = Some w" and "closable layers"
    and "stream_run rs w = Some w'" and "list_all is_resume rs"
  shows "length (filter is_write (sw_pending w)) \<le> 1 \<and> length rs \<le> stream_work w \<and>
    (sw_pending w' = [] \<longrightarrow> mset (concat (map done_id (sw_done w'))) = mset (map fst (sw_called w)) \<and>
       iq_handlers (si_write_queue (sw_stream w')) = [] \<and> immediate_executable (si_write_queue (sw_stream w')))"
proof -
  have w: "stream_ok w" using assms stream_run_ok stream_ok_init by blast
  have w': "stream_ok w'" using assms(3) w stream_run_ok by blast
  have "sw_pending w' = [] \<Longrightarrow> \<not> iq_working (si_write_queue (sw_stream w'))"
    using w' by (auto simp: stream_ok_def queue_ok_def)
  with w' have "sw_pending w' = [] \<Longrightarrow> iq_handlers (si_write_queue (sw_stream w')) = [] \<and>
      immediate_executable (si_write_queue (sw_stream w')) \<and> mset (concat (map done_id (sw_done w'))) = mset (map fst (sw_called w'))"
    by (auto simp: stream_ok_def queue_ok_def immediate_executable_def handler_ids_def)
  moreover have "length (filter is_write (sw_pending w)) \<le> 1" using w by (auto simp: stream_ok_def queue_ok_def)
  ultimately show ?thesis using resumes_bounded [OF assms(3,4) w] by auto
qed

subsection \<open>The order on the wire\<close>

text \<open>
  Bulk mode stays as it is, the layer below stays open. Then the operations that came to the queue are those
  whose buffers were handed to the layer below and the last ones that wait. Bulk mode keeps the buffers of the latter
  apart; otherwise each operation will write its own.
\<close>

definition in_order :: "bool \<Rightarrow> stream_world \<Rightarrow> write_op list \<Rightarrow> write_op list \<Rightarrow> bool" where
  "in_order b w sent rest \<longleftrightarrow>
     (let s = sw_stream w; hs = iq_handlers (si_write_queue s)
      in si_bulk_write s = b \<and> si_open s \<and> sw_posted w = sent @ rest \<and> sw_wire w = concat (map op_cbs sent) \<and>
         suffix (map same_op rest) (map same_op hs) \<and>
         (if b then list_all (\<lambda>op. wo_state op = Wo_bulk_write) hs \<and> si_storing_cbs s = concat (map op_cbs rest)
          else list_all (\<lambda>op. wo_state op = Wo_write) hs \<and> si_storing_cbs s = [] \<and> map same_op rest = map same_op hs))"

lemma same_op_cbs: "same_op op = same_op op' \<Longrightarrow> op_cbs op = op_cbs op'"
  by (simp add: same_op_def op_cbs_def)

lemma same_op_state [simp]: "same_op (op\<lparr>wo_state := st\<rparr>) = same_op op" "op_cbs (op\<lparr>wo_state := st\<rparr>) = op_cbs op"
  by (simp_all add: same_op_def op_cbs_def)

text \<open>Running the next handler hands over one packet, or all that are kept.\<close>

lemma poll_in_order:
  assumes "in_order b w sent rest" and "\<not> iq_stopped (si_write_queue (sw_stream w))" and "poll_context (sw_stream w) = (s', acts)"
  shows "\<exists>sent' rest'. in_order b (w\<lparr>sw_stream := s', sw_wire := sw_wire w @ concat (map handed acts)\<rparr>) sent' rest'"
proof (cases "iq_handlers (si_write_queue (sw_stream w))")
  case Nil
  then have "in_order b (w\<lparr>sw_stream := s', sw_wire := sw_wire w @ concat (map handed acts)\<rparr>) sent rest"
    using assms by (auto simp: in_order_def poll_context_def Let_def)
  then show ?thesis by blast
next
  case (Cons op hs)
  show ?thesis
  proof (cases b)
    case True
    then have "in_order b (w\<lparr>sw_stream := s', sw_wire := sw_wire w @ concat (map handed acts)\<rparr>) (sent @ rest) []"
      using assms Cons by (auto simp: in_order_def poll_context_def run_queued_def bulk_write_start_def handed_def Let_def split: if_splits)
    then show ?thesis by blast
  next
    case False
    then obtain r rs where r: "rest = r # rs" "same_op r = same_op op" "map same_op rs = map same_op hs"
      using assms(1) Cons by (auto simp: in_order_def Let_def)
    then have "in_order b (w\<lparr>sw_stream := s', sw_wire := sw_wire w @ concat (map handed acts)\<rparr>) (sent @ [r]) rs"
      using assms Cons False same_op_cbs [OF r(2)]
      by (auto simp: in_order_def poll_context_def run_queued_def write_start_def handed_def Let_def)
    then show ?thesis by blast
  qed
qed

lemma post_in_order:
  assumes "in_order b w sent rest" and "queue_ok (si_write_queue (sw_stream w)) xs" and "write_post op (sw_stream w) = (s', acts)"
  shows "\<exists>sent' rest'. in_order b (w\<lparr>sw_stream := s', sw_posted := sw_posted w @ [op], sw_wire := sw_wire w @ concat (map handed acts)\<rparr>)
    sent' rest'"
proof (cases "iq_working (si_write_queue (sw_stream w))")
  case True
  have "in_order b (w\<lparr>sw_stream := s', sw_posted := sw_posted w @ [op], sw_wire := sw_wire w @ concat (map handed acts)\<rparr>) sent (rest @ [op])"
    using assms(1,3) True
    by (auto simp: in_order_def write_post_def try_execute_def immediate_executable_def Let_def suffix_def split: if_splits)
  then show ?thesis by blast
next
  case False
  then have q: "iq_stopped (si_write_queue (sw_stream w))" "iq_handlers (si_write_queue (sw_stream w)) = []"
    using assms(2) by (auto simp: queue_ok_def)
  have "in_order b (w\<lparr>sw_stream := s', sw_posted := sw_posted w @ [op], sw_wire := sw_wire w @ concat (map handed acts)\<rparr>) (sent @ [op]) []"
    using assms(1,3) False q
    by (auto simp: in_order_def write_post_def try_execute_def immediate_executable_def poll_context_def run_queued_def
        write_start_def handed_def Let_def)
  then show ?thesis by blast
qed

text \<open>Nothing but calls of \<^verbatim>\<open>async_write_packet\<close> and handlers of writes.\<close>

fun only_writes :: "stream_event \<Rightarrow> bool" where
  "only_writes (Sv_write i p) = True"
| "only_writes (Sv_resume k ec n) = True"
| "only_writes _ = False"

definition no_close :: "stream_world \<Rightarrow> bool" where
  "no_close w \<longleftrightarrow> filter is_closing (sw_pending w) = []"

lemma resume_no_close:
  assumes "resume a ec n s = (s', acts)" and "action_ok a" and "\<not> is_closing a"
  shows "filter is_closing (waiting acts) = []"
proof -
  have q: "filter is_closing (snd (run_queued op t)) = []" for op t
    by (simp add: run_queued_def write_start_def bulk_write_start_def Let_def split: write_state.splits)
  have "filter is_closing (snd (poll_context t)) = []" for t
    using q by (auto simp: poll_context_def split: prod.splits option.splits) (metis snd_conv)+
  then have "filter is_closing (snd (resume a ec n s)) = []"
    using assms(2,3)
    by (cases a) (auto simp: run_write_def write_post_def try_execute_def queue_poll_one_def run_written_def split: if_splits)
  then show ?thesis using assms(1) by (simp add: waiting_filter)
qed

lemma step_in_order:
  assumes "stream_step e w = Some w'" and "only_writes e" and "stream_ok w" and "no_close w" and "in_order b w sent rest"
  shows "no_close w' \<and> (\<exists>sent rest. in_order b w' sent rest)"
proof (cases e)
  case (Sv_write i p)
  then have "no_close w'" "in_order b w' sent rest"
    using assms by (auto simp: async_write_packet_def run_write_def sw_put_def no_close_def in_order_def handed_def Let_def)
  then show ?thesis by blast
next
  case (Sv_resume k ec n)
  obtain xs a ys s' acts where p: "sw_pending w = xs @ a # ys" and r: "resume a ec n (sw_stream w) = (s', acts)"
    and w': "w' = w\<lparr>sw_stream := s', sw_pending := xs @ ys @ waiting acts, sw_posted := sw_posted w @ posted a,
      sw_wire := sw_wire w @ concat (map handed acts), sw_done := sw_done w @ filter is_done acts\<rparr>"
    using stream_step_resume assms(1) Sv_resume by metis
  have a: "action_ok a" "\<not> is_closing a" "queue_ok (si_write_queue (sw_stream w)) (sw_pending w)"
    using assms(3,4) p by (auto simp: stream_ok_def no_close_def split: if_splits)
  have "no_close w'" using resume_no_close [OF r a(1,2)] assms(4) p by (auto simp: w' no_close_def split: if_splits)
  moreover have "\<exists>sent rest. in_order b w' sent rest"
    using a(1)
  proof (cases rule: action_cases)
    case (dispatch op)
    then show ?thesis
      using post_in_order [OF assms(5) a(3), of op s' acts] r by (simp add: run_write_def w' in_order_def)
  next
    case (writing op)
    then obtain ec' n' where "run_written op ec' n' (sw_stream w) = (s', acts)" using r by metis
    then have "in_order b w' sent rest"
      using assms(5) writing(1) by (cases a) (auto simp: w' run_written_def in_order_def handed_def Let_def split: if_splits)
    then show ?thesis by blast
  next
    case poll
    let ?w = "w\<lparr>sw_stream := upd_queue (\<lambda>q. q\<lparr>iq_working := False, iq_stopped := False\<rparr>) (sw_stream w)\<rparr>"
    have "in_order b ?w sent rest" using assms(5) by (simp add: in_order_def Let_def)
    from poll_in_order [OF this, of s' acts] poll r show ?thesis by (simp add: queue_poll_one_def w' in_order_def)
  qed (use a(2) in simp)
  ultimately show ?thesis by blast
qed (use assms(2) in simp_all)

lemma run_in_order:
  assumes "stream_run es w = Some w'" and "list_all only_writes es" and "stream_ok w" and "no_close w" and "\<exists>sent rest. in_order b w sent rest"
  shows "\<exists>sent rest. in_order b w' sent rest"
  using assms
proof (induction es arbitrary: w)
  case (Cons e es)
  then obtain v where v: "stream_step e w = Some v" "stream_run es v = Some w'" by (auto split: option.splits)
  then show ?case using Cons.IH [OF v(2)] Cons.prems step_in_order [OF v(1)] stream_step_ok [OF v(1)] by auto
qed simp

lemma wire_bytes: "concat (map snd (concat (map op_cbs ops))) = concat (map (concat \<circ> packet_variant_const_buffer_sequence \<circ> wo_packet) ops)"
  by (induction ops) (simp_all add: op_cbs_def comp_def)

lemma wire_reassembled:
  assumes "rpb_run (concat (map snd (concat (map op_cbs ops)))) (bld, [], out)" and "list_all (packet_variant_ok \<circ> wo_packet) ops"
  shows "out = map (Ep_packet \<circ> concat \<circ> packet_variant_const_buffer_sequence \<circ> wo_packet) ops"
proof -
  let ?ws = "map (concat \<circ> packet_variant_const_buffer_sequence \<circ> wo_packet) ops"
  have "rpb_bytes rpb_init (concat ?ws) = (map Ep_packet ?ws, rpb_init)"
    using assms(2) by (intro framed_stream) (auto simp: list_all_iff packet_framed)
  moreover obtain d where "concat ?ws = d @ []" "rpb_bytes rpb_init d = (out, bld)"
    using rpb_run_prefix [OF assms(1)] unfolding wire_bytes by blast
  ultimately show ?thesis by (simp add: comp_assoc)
qed

lemma same_op_ids: "mset (map wo_id ops) = image_mset fst (mset (map same_op ops))"
  by (simp add: same_op_def multiset.map_comp comp_def)

lemma posted_ids: "mset (map wo_id (concat (map posted acts))) \<subseteq># ids_of write_id acts"
proof (induction acts)
  case (Cons a acts)
  have "mset (map wo_id (posted a)) \<subseteq># mset (write_id a)" by (cases a) simp_all
  with Cons show ?case by (simp add: subset_mset.add_mono)
qed simp

lemma cancelled:
  fixes d :: "'a multiset"
  assumes "p + d = c" and "d + m + h + e = c"
  shows "p = m + h + e"
proof -
  have "p + d = (m + h + e) + d" unfolding assms(1) assms(2) [symmetric] by (simp add: ac_simps)
  then show ?thesis by simp
qed

lemma done_among_sent:
  assumes "stream_ok w" and "in_order b w sent rest"
  shows "ids_of done_id (sw_done w) \<subseteq># mset (map wo_id sent)"
proof -
  obtain m where m: "ids_of write_id (sw_pending w) = mset (map wo_id (concat (map posted (sw_pending w)))) + m"
    using posted_ids by (metis subset_mset.less_eqE)
  have "mset (map wo_id (sw_posted w)) + mset (map wo_id (concat (map posted (sw_pending w)))) = mset (map fst (sw_called w))"
    using assms(1) unfolding stream_ok_def same_op_ids mset_map [of fst] image_mset_union [symmetric] by simp
  then have p: "mset (map wo_id (sw_posted w)) = m + handler_ids (sw_stream w) + ids_of done_id (sw_done w)"
    using assms(1) unfolding stream_ok_def m by (blast intro: cancelled)
  obtain zs where z: "map same_op (iq_handlers (si_write_queue (sw_stream w))) = zs @ map same_op rest"
    using assms(2) by (auto simp: in_order_def Let_def suffix_def)
  have "handler_ids (sw_stream w) = mset (map fst zs) + mset (map wo_id rest)"
    unfolding handler_ids_def same_op_ids z by simp
  then have "mset (map wo_id sent) = m + mset (map fst zs) + ids_of done_id (sw_done w)"
    using p assms(2) by (simp add: in_order_def Let_def ac_simps)
  then show ?thesis by simp
qed

lemma all_sent:
  assumes "stream_ok w" and "in_order b w sent rest" and "sw_pending w = []"
  shows "rest = [] \<and> mset (map same_op sent) = mset (sw_called w)"
proof -
  have "iq_handlers (si_write_queue (sw_stream w)) = []"
    using assms(1,3) by (auto simp: stream_ok_def queue_ok_def split: if_splits)
  then have "rest = []" using assms(2) by (simp add: in_order_def Let_def)
  then show ?thesis using assms by (simp add: in_order_def stream_ok_def Let_def)
qed

text \<open>
  C12. Packets go out in order and unbroken. While the layer below stays open and the bulk mode stays as it was
  set, in every schedule of calls, results (failing ones included) and handlers: the buffers handed to the layer below are those of
  the first packets that came to the queue, each packet complete and after the one before; writes that have
  completed are among them; and when nothing is pending, all packets called for were handed over. A receiver that
  cuts these bytes into packets gets exactly these packets.
\<close>

theorem stream_writes_in_order:
  assumes "stream_run (Sv_bulk b # es) (stream_world_init layers True) = Some w" and "closable layers" and "list_all only_writes es"
  shows "\<exists>sent rest. sw_posted w = sent @ rest \<and> sw_wire w = concat (map op_cbs sent) \<and>
     mset (concat (map done_id (sw_done w))) \<subseteq># mset (map wo_id sent) \<and>
     (sw_pending w = [] \<longrightarrow> rest = [] \<and> mset (map (\<lambda>op. (wo_id op, wo_packet op)) sent) = mset (sw_called w)) \<and>
     (list_all (packet_variant_ok \<circ> wo_packet) sent \<longrightarrow>
       (\<forall>bld out. rpb_run (concat (map snd (sw_wire w))) (bld, [], out) \<longrightarrow>
          out = map (Ep_packet \<circ> concat \<circ> packet_variant_const_buffer_sequence \<circ> wo_packet) sent))"
proof -
  let ?v = "stream_world_init layers True"
  let ?u = "?v\<lparr>sw_stream := set_bulk_write b (sw_stream ?v)\<rparr>"
  have run: "stream_step (Sv_bulk b) ?v = Some ?u" "stream_run es ?u = Some w" using assms(1) by simp_all
  have u: "stream_ok ?u" using stream_step_ok [OF run(1)] stream_ok_init [OF assms(2)] by simp
  have "no_close ?u" "in_order b ?u [] []"
    by (simp_all add: no_close_def in_order_def stream_world_init_def stream_impl_init_def ioc_queue_init_def set_bulk_write_def)
  with run_in_order [OF run(2) assms(3) u] obtain sent rest where o: "in_order b w sent rest" by blast
  have w: "stream_ok w" using stream_run_ok [OF run(2) u] .
  show ?thesis
    using done_among_sent [OF w o] all_sent [OF w o] o wire_reassembled [of sent]
    by (intro exI [of _ sent] exI [of _ rest]) (auto simp: in_order_def Let_def same_op_def [abs_def])
qed

text \<open>Two packets written at once: the second waits for the first.\<close>

definition sample_writes :: "stream_event list" where
  "sample_writes = [Sv_write 1 (V3_pingreq make_v3_pingreq), Sv_write 2 (V3_pingresp make_v3_pingresp),
     Sv_resume 0 ec_success 0, Sv_resume 0 ec_success 0, Sv_resume 0 ec_success 2, Sv_resume 0 ec_success 0,
     Sv_resume 0 ec_success 2, Sv_resume 0 ec_success 0]"

theorem stream_writes_in_order_witness:
  "\<exists>w sent. stream_run (Sv_bulk False # sample_writes) (stream_world_init [True] True) = Some w \<and>
     map snd (sw_wire w) = [[0xC0, 0], [0xD0, 0]] \<and> sw_wire w = concat (map op_cbs sent) \<and> sw_posted w = sent \<and> length sent = 2"
proof -
  have "closable [True]" "list_all only_writes sample_writes" by code_simp+
  moreover have "map_option (\<lambda>w. (map snd (sw_wire w), sw_pending w = [], length (sw_posted w)))
      (stream_run (Sv_bulk False # sample_writes) (stream_world_init [True] True)) = Some ([[0xC0, 0], [0xD0, 0]], True, 2)" by code_simp
  ultimately show ?thesis using stream_writes_in_order [of False sample_writes "[True]"] by fastforce
qed

theorem stream_writes_complete_witness:
  "\<exists>w. stream_run (Sv_bulk True # sample_writes) (stream_world_init [True] True) = Some w \<and>
     mset (concat (map done_id (sw_done w))) = mset [1, 2]"
proof -
  have "map_option (\<lambda>w. (sw_pending w = [], map fst (sw_called w)))
      (stream_run (Sv_bulk True # sample_writes) (stream_world_init [True] True)) = Some (True, [1, 2])" by code_simp
  then obtain w where w: "stream_run (Sv_bulk True # sample_writes) (stream_world_init [True] True) = Some w"
    "sw_pending w = []" "map fst (sw_called w) = [1, 2]" by auto
  have "closable [True]" by code_simp
  from stream_writes_complete [OF w(1) this, of "[]" w] w show ?thesis by auto
qed

subsection \<open>Bulk mode\<close>

definition bulk_failure :: "packet_variant \<Rightarrow> packet_variant \<Rightarrow> packet_variant \<Rightarrow> error_code \<Rightarrow> nat \<Rightarrow> stream_event list" where
  "bulk_failure p q r ec n = [Sv_bulk True, Sv_write 1 p, Sv_resume 0 ec_success 0, Sv_write 2 q, Sv_write 3 r,
     Sv_resume 1 ec_success 0, Sv_resume 1 ec_success 0, Sv_resume 0 ec_success (packet_variant_size p), Sv_resume 0 ec_success 0,
     Sv_resume 0 ec n, Sv_resume 0 ec_success 0, Sv_resume 0 ec_success 0]"

lemma success_not_failed [simp]: "\<not> ec_failed ec_success"
  by code_simp

text \<open>
  C14. A failing bulk write is reported to one caller only. In bulk mode, with a packet under way and two more called for, the second and third packets
  go out in one write. If this write fails, the second caller gets the error; the third is told that its packet
  was written, with its full size, although nothing of it may have left.
\<close>

theorem bulk_write_failure_hidden:
  assumes "ec_failed ec" and "packet_variant_const_buffer_sequence q \<noteq> []"
  shows "map_option sw_done (stream_run (bulk_failure p q r ec n) (stream_world_init layers True)) =
    Some [Sa_written 1 ec_success (packet_variant_size p), Sa_written 2 ec n, Sa_written 3 ec_success (packet_variant_size r)]"
  using assms
  by (simp add: bulk_failure_def stream_world_init_def stream_impl_init_def ioc_queue_init_def sw_put_def set_bulk_write_def
      write_defs queue_defs handed_def op_cbs_def Let_def)

theorem bulk_write_failure_hidden_witness:
  "map_option sw_done (stream_run (bulk_failure (V3_pingreq make_v3_pingreq) (V3_pingreq make_v3_pingreq)
      (V3_pingresp make_v3_pingresp) connection_reset 0) (stream_world_init [True] True)) =
    Some [Sa_written 1 ec_success 2, Sa_written 2 connection_reset 0, Sa_written 3 ec_success 2]"
proof -
  have "ec_failed connection_reset" "packet_variant_const_buffer_sequence (V3_pingreq make_v3_pingreq) \<noteq> []"
    "packet_variant_size (V3_pingreq make_v3_pingreq) = 2" "packet_variant_size (V3_pingresp make_v3_pingresp) = 2" by code_simp+
  then show ?thesis using bulk_write_failure_hidden by metis
qed

text \<open>
  Switching the bulk mode while packets wait changes their order: a packet called for with the mode on goes out
  with those kept before it, ahead of one that was called for with the mode off.
\<close>

definition bulk_switched :: "packet_variant \<Rightarrow> packet_variant \<Rightarrow> packet_variant \<Rightarrow> packet_variant \<Rightarrow> stream_event list" where
  "bulk_switched p q r t = [Sv_bulk True, Sv_write 1 p, Sv_resume 0 ec_success 0, Sv_write 2 q, Sv_resume 1 ec_success 0,
     Sv_bulk False, Sv_write 3 r, Sv_resume 1 ec_success 0, Sv_bulk True, Sv_write 4 t, Sv_resume 1 ec_success 0,
     Sv_resume 0 ec_success 0, Sv_resume 0 ec_success 0, Sv_resume 0 ec_success 0, Sv_resume 0 ec_success 0]"

theorem bulk_switch_reorders:
  assumes "packet_variant_const_buffer_sequence q \<noteq> []"
  shows "map_option (\<lambda>w. (map wo_id (sw_posted w), sw_wire w)) (stream_run (bulk_switched p q r t) (stream_world_init layers True)) =
    Some ([1, 2, 3, 4], concat (map (\<lambda>(i, p). map (Pair i) (packet_variant_const_buffer_sequence p)) [(1, p), (2, q), (4, t), (3, r)]))"
  using assms
  by (simp add: bulk_switched_def stream_world_init_def stream_impl_init_def ioc_queue_init_def sw_put_def set_bulk_write_def
      write_defs queue_defs handed_def op_cbs_def Let_def)

text \<open>
  A layer without \<^verbatim>\<open>async_close\<close> above another one: \<^verbatim>\<open>stream_close_op\<close> goes back to the topmost layer instead of
  the next one. If it is the topmost layer itself, the close never ends.
\<close>

theorem close_without_end:
  assumes "si_layers (sw_stream w) = False # l # ls" and "sw_pending w = [Sa_close_layer c (False # l # ls)]"
    and "list_all (\<lambda>e. \<exists>ec n. e = Sv_resume 0 ec n) es"
  shows "stream_run es w = Some w"
  using assms by (induction es arbitrary: w) (auto simp: sw_put_def handed_def posted_def)

end
