(* ===== verification/Topic_Filter.thy ===== *)
theory Topic_Filter
  imports Prelude
begin

text \<open>
  Topic names and topic filters of the broker: \<^verbatim>\<open>tool/include/broker/topic_filter.hpp\<close>. A
  \<^verbatim>\<open>std::string_view\<close> is the list of its bytes. The tokenizer calls \<open>out\<close> for one level after the
  other until it returns false; \<open>tokens\<close> are the levels.
\<close>

subsection \<open>Levels\<close>

definition topic_filter_separator :: byte where "topic_filter_separator = 0x2f"
definition char_plus :: byte where "char_plus = 0x2b"
definition char_hash :: byte where "char_hash = 0x23"
definition char_dollar :: byte where "char_dollar = 0x24"

abbreviation plus_level :: bytes where "plus_level \<equiv> [char_plus]"
abbreviation hash_level :: bytes where "hash_level \<equiv> [char_hash]"

lemmas topic_chars = topic_filter_separator_def char_plus_def char_hash_def char_dollar_def

lemma topic_chars_distinct [simp]:
  "char_plus \<noteq> char_hash" "char_hash \<noteq> char_plus" "char_plus \<noteq> topic_filter_separator" "topic_filter_separator \<noteq> char_plus"
  "char_hash \<noteq> topic_filter_separator" "topic_filter_separator \<noteq> char_hash" "topic_filter_separator \<noteq> 0" "char_plus \<noteq> 0" "char_hash \<noteq> 0"
  by (simp_all add: topic_chars)

abbreviation level_char :: "byte \<Rightarrow> bool" where "level_char c \<equiv> c \<noteq> topic_filter_separator"

definition topic_filter_tokenizer_next :: "bytes \<Rightarrow> bytes \<times> bytes" where
  "topic_filter_tokenizer_next str = (takeWhile level_char str, dropWhile level_char str)"

function topic_filter_tokenizer :: "bytes \<Rightarrow> (bytes \<Rightarrow> 's \<Rightarrow> bool \<times> 's) \<Rightarrow> 's \<Rightarrow> nat \<times> 's" where
  "topic_filter_tokenizer str out s =
     (let (token, rest) = topic_filter_tokenizer_next str; (go, s) = out token s in
      if go \<and> rest \<noteq> [] then (let (count, s) = topic_filter_tokenizer (tl rest) out s in (count + 1, s))
      else (1, s))"
  by auto

lemma next_shorter: "x \<in> set str \<Longrightarrow> length (dropWhile P str) - Suc 0 < length str"
  using length_dropWhile_le [of P str] by (cases str) (auto simp: less_Suc_eq_le diff_le_mono)

termination topic_filter_tokenizer
  by (relation "measure (\<lambda>(str, _). length str)") (auto simp: topic_filter_tokenizer_next_def next_shorter)

function tokens :: "bytes \<Rightarrow> bytes list" where
  "tokens str =
     (let rest = dropWhile level_char str in
      takeWhile level_char str # (if rest = [] then [] else tokens (tl rest)))"
  by auto
termination by (relation "measure length") (auto simp: next_shorter)

fun run_tokens :: "(bytes \<Rightarrow> 's \<Rightarrow> bool \<times> 's) \<Rightarrow> bytes list \<Rightarrow> 's \<Rightarrow> nat \<times> 's" where
  "run_tokens out [] s = (0, s)"
| "run_tokens out (t # ts) s =
     (let (go, s) = out t s in
      if go \<and> ts \<noteq> [] then (let (count, s) = run_tokens out ts s in (count + 1, s)) else (1, s))"

declare topic_filter_tokenizer.simps [simp del] tokens.simps [simp del]

lemma tokens_nonempty [simp]: "tokens str \<noteq> []"
  by (subst tokens.simps) (simp add: Let_def)

lemma topic_filter_tokenizer_tokens: "topic_filter_tokenizer str out s = run_tokens out (tokens str) s"
proof (induction str out s rule: topic_filter_tokenizer.induct)
  case (1 str out s)
  obtain go s' where w: "out (takeWhile level_char str) s = (go, s')" by fastforce
  show ?case
    using 1 [OF refl _ w [symmetric] refl]
    by (subst topic_filter_tokenizer.simps, subst tokens.simps)
       (auto simp: topic_filter_tokenizer_next_def w Let_def)
qed

text \<open>Levels joined again; a level has no separator in it.\<close>

fun join_levels :: "bytes list \<Rightarrow> bytes" where
  "join_levels [] = []"
| "join_levels [t] = t"
| "join_levels (t # ts) = t @ topic_filter_separator # join_levels ts"

lemma join_levels_Cons: "ts \<noteq> [] \<Longrightarrow> join_levels (t # ts) = t @ topic_filter_separator # join_levels ts"
  by (cases ts) simp_all

lemma tokens_join: "join_levels (tokens str) = str"
proof (induction str rule: tokens.induct)
  case (1 str)
  show ?case
  proof (cases "dropWhile level_char str")
    case Nil
    then have "takeWhile level_char str = str" by (simp add: takeWhile_eq_all_conv)
    with Nil show ?thesis by (subst tokens.simps) simp
  next
    case (Cons c rest)
    then have c: "c = topic_filter_separator" using hd_dropWhile [of level_char str] by simp
    have "str = takeWhile level_char str @ dropWhile level_char str" by simp
    then have str: "str = takeWhile level_char str @ topic_filter_separator # rest" unfolding Cons c .
    have "tokens str = takeWhile level_char str # tokens rest" using Cons by (subst tokens.simps) simp
    moreover have "join_levels (tokens rest) = rest" using 1 [OF refl] Cons by simp
    ultimately show ?thesis using str by (simp add: join_levels_Cons)
  qed
qed

lemma tokens_level: "t \<in> set (tokens str) \<Longrightarrow> topic_filter_separator \<notin> set t"
proof (induction str rule: tokens.induct)
  case (1 str)
  from 1(2) show ?case
    using 1(1) [OF refl] by (subst (asm) tokens.simps) (auto simp: Let_def dest: set_takeWhileD split: if_splits)
qed

lemma tokens_inject: "tokens a = tokens b \<longleftrightarrow> a = b"
  by (metis tokens_join)

subsection \<open>Validation\<close>

definition find_first_of :: "byte set \<Rightarrow> bytes \<Rightarrow> nat \<Rightarrow> nat option" where
  "find_first_of cs str pos = find (\<lambda>i. str ! i \<in> cs) [pos..<length str]"

abbreviation special_chars :: "byte set" where "special_chars \<equiv> {0, char_plus, char_hash}"

text \<open>The body of the loop of \<^verbatim>\<open>validate_topic_filter\<close>.\<close>

definition wildcard_placed :: "bytes \<Rightarrow> nat \<Rightarrow> bool" where
  "wildcard_placed str idx =
     (if str ! idx = 0 then False
      else if str ! idx = char_plus then
        (idx = 0 \<or> str ! (idx - 1) = topic_filter_separator) \<and>
        (idx = length str - 1 \<or> str ! (idx + 1) = topic_filter_separator)
      else idx = length str - 1 \<and> (idx = 0 \<or> str ! (idx - 1) = topic_filter_separator))"

lemma find_first_of_Some:
  "find_first_of cs str pos = Some idx \<Longrightarrow> pos \<le> idx \<and> idx < length str \<and> str ! idx \<in> cs"
  by (auto simp: find_first_of_def find_Some_iff)

function validate_loop :: "bytes \<Rightarrow> nat \<Rightarrow> bool" where
  "validate_loop str pos =
     (case find_first_of special_chars str pos of
        None \<Rightarrow> True
      | Some idx \<Rightarrow> if wildcard_placed str idx then validate_loop str (idx + 1) else False)"
  by auto
termination
  by (relation "measure (\<lambda>(str, pos). length str - pos)") (auto dest!: find_first_of_Some)

declare validate_loop.simps [simp del]

definition validate_topic_filter :: "bytes \<Rightarrow> bool" where
  "validate_topic_filter topic_filter =
     (if topic_filter = [] \<or> length topic_filter > 65535 then False else validate_loop topic_filter 0)"

definition validate_topic_name :: "bytes \<Rightarrow> bool" where
  "validate_topic_name topic_name \<longleftrightarrow>
     topic_name \<noteq> [] \<and> length topic_name \<le> 65535 \<and> find_first_of special_chars topic_name 0 = None"

text \<open>One pass over the characters: \<open>start\<close> tells whether a level begins here.\<close>

fun scan :: "bool \<Rightarrow> bytes \<Rightarrow> bool" where
  "scan start [] \<longleftrightarrow> True"
| "scan start (c # cs) \<longleftrightarrow>
     c \<noteq> 0 \<and> (c = char_plus \<longrightarrow> start \<and> (cs = [] \<or> hd cs = topic_filter_separator)) \<and>
     (c = char_hash \<longrightarrow> start \<and> cs = []) \<and> scan (c = topic_filter_separator) cs"

lemma validate_loop_scan:
  "pos \<le> length str \<Longrightarrow>
   validate_loop str pos \<longleftrightarrow> scan (pos = 0 \<or> str ! (pos - 1) = topic_filter_separator) (drop pos str)"
proof (induction "length str - pos" arbitrary: pos)
  case 0
  then have "find_first_of special_chars str pos = None" by (simp add: find_first_of_def)
  with 0 show ?case by (subst validate_loop.simps) simp
next
  case (Suc n)
  then have pos: "pos < length str" by simp
  then have split: "drop pos str = str ! pos # drop (Suc pos) str" by (simp add: Cons_nth_drop_Suc)
  have IH: "validate_loop str (Suc pos) \<longleftrightarrow> scan (str ! pos = topic_filter_separator) (drop (Suc pos) str)"
    using Suc by simp
  have upt: "[pos..<length str] = pos # [Suc pos..<length str]" using pos by (rule upt_conv_Cons)
  show ?case
  proof (cases "str ! pos \<in> special_chars")
    case False
    then have "find_first_of special_chars str pos = find_first_of special_chars str (Suc pos)"
      by (simp add: find_first_of_def upt)
    then have "validate_loop str pos \<longleftrightarrow> validate_loop str (Suc pos)" by (simp add: validate_loop.simps [of str pos] validate_loop.simps [of str "Suc pos"])
    with IH False show ?thesis by (auto simp: split)
  next
    case True
    then have find: "find_first_of special_chars str pos = Some pos" by (simp add: find_first_of_def upt)
    have last: "drop (Suc pos) str = [] \<longleftrightarrow> pos = length str - 1"
      and next': "drop (Suc pos) str \<noteq> [] \<Longrightarrow> hd (drop (Suc pos) str) = str ! (pos + 1)"
      using pos by (auto simp: hd_drop_conv_nth)
    have "validate_loop str pos \<longleftrightarrow> wildcard_placed str pos \<and> validate_loop str (Suc pos)"
      by (subst validate_loop.simps) (simp add: find)
    also have "\<dots> \<longleftrightarrow> scan (pos = 0 \<or> str ! (pos - 1) = topic_filter_separator) (drop pos str)"
      using True next' unfolding IH split wildcard_placed_def last [symmetric]
      by (cases "drop (Suc pos) str") auto
    finally show ?thesis .
  qed
qed

text \<open>The levels of a filter: a wildcard stands alone in its level, and \<open>#\<close> in the last level only.\<close>

definition level_valid :: "bool \<Rightarrow> bytes \<Rightarrow> bool" where
  "level_valid is_last t \<longleftrightarrow> 0 \<notin> set t \<and> (char_plus \<in> set t \<longrightarrow> t = plus_level) \<and> (char_hash \<in> set t \<longrightarrow> t = hash_level \<and> is_last)"

fun levels_valid :: "bytes list \<Rightarrow> bool" where
  "levels_valid [] \<longleftrightarrow> True"
| "levels_valid (t # ts) \<longleftrightarrow> level_valid (ts = []) t \<and> levels_valid ts"

lemma scan_plain:
  assumes "topic_filter_separator \<notin> set t" and "rest = [] \<or> hd rest = topic_filter_separator"
  shows "scan False (t @ rest) \<longleftrightarrow> (\<forall>c \<in> set t. c \<notin> special_chars) \<and> scan False rest"
  using assms(1)
proof (induction t)
  case (Cons c t)
  then have "c \<noteq> topic_filter_separator" by auto
  with Cons have "scan False ((c # t) @ rest) \<longleftrightarrow> c \<noteq> 0 \<and> c \<noteq> char_plus \<and> c \<noteq> char_hash \<and> scan False (t @ rest)" by simp
  with Cons show ?case by simp
qed simp

lemma scan_sep: "scan False (topic_filter_separator # rest) \<longleftrightarrow> scan True rest"
  by simp

lemma scan_level:
  assumes "topic_filter_separator \<notin> set t" and "rest = [] \<or> hd rest = topic_filter_separator"
  shows "scan True (t @ rest) \<longleftrightarrow> level_valid (rest = []) t \<and> scan False rest"
proof (cases t)
  case Nil
  with assms(2) show ?thesis by (cases rest) (auto simp: level_valid_def)
next
  case (Cons c cs)
  with assms have cs: "scan False (cs @ rest) \<longleftrightarrow> (\<forall>c \<in> set cs. c \<notin> special_chars) \<and> scan False rest"
    by (intro scan_plain) auto
  from assms(1) Cons have "c \<noteq> topic_filter_separator" by auto
  with Cons assms cs show ?thesis
    by (cases cs) (auto simp: level_valid_def)
qed

lemma scan_levels: "(\<And>t. t \<in> set ts \<Longrightarrow> topic_filter_separator \<notin> set t) \<Longrightarrow> scan True (join_levels ts) \<longleftrightarrow> levels_valid ts"
proof (induction ts rule: join_levels.induct)
  case (2 t)
  then show ?case using scan_level [of t "[]"] by simp
next
  case (3 t t' ts)
  let ?rest = "topic_filter_separator # join_levels (t' # ts)"
  have "scan True (t @ ?rest) \<longleftrightarrow> level_valid False t \<and> scan False ?rest"
    using scan_level [of t ?rest] 3(2) [of t] by simp
  moreover have "scan True (join_levels (t' # ts)) \<longleftrightarrow> levels_valid (t' # ts)" by (rule 3(1)) (rule 3(2), simp)
  ultimately show ?case unfolding scan_sep by (simp only: join_levels.simps levels_valid.simps list.distinct)
qed simp

lemma scan_no_special: "(\<forall>c \<in> set str. c \<notin> special_chars) \<longleftrightarrow> find_first_of special_chars str 0 = None"
  by (simp add: find_first_of_def find_None_iff all_set_conv_all_nth)

subsection \<open>Matching\<close>

text \<open>
  \<open>filter_matches\<close>: level by level, \<open>+\<close> stands for any level and a final \<open>#\<close> for at least one more;
  with \<open>first\<close>, a wildcard does not stand for a first level that begins with a dollar sign.
\<close>

definition system_level :: "bytes \<Rightarrow> bool" where
  "system_level t \<longleftrightarrow> t \<noteq> [] \<and> hd t = char_dollar"

fun filter_matches :: "bool \<Rightarrow> bytes list \<Rightarrow> bytes list \<Rightarrow> bool" where
  "filter_matches first [] ts \<longleftrightarrow> ts = []"
| "filter_matches first (f # fs) [] \<longleftrightarrow> False"
| "filter_matches first (f # fs) (t # ts) \<longleftrightarrow>
     f = hash_level \<and> fs = [] \<and> \<not> (first \<and> system_level t) \<or>
     (f = t \<or> f = plus_level \<and> \<not> (first \<and> system_level t)) \<and> filter_matches False fs ts"

text \<open>
  \<^verbatim>\<open>compare_topic_filter\<close>. \<open>None\<close> is undefined behaviour: \<^verbatim>\<open>remove_prefix\<close> of \<^verbatim>\<open>npos\<close> characters, when no
  separator follows in the topic name.
\<close>

function compare_loop :: "bytes \<Rightarrow> bytes \<Rightarrow> bool option" where
  "compare_loop topic_filter topic_name =
     (case find_first_of {char_plus, char_hash} topic_filter 0 of
        None \<Rightarrow> Some (topic_filter = topic_name)
      | Some idx \<Rightarrow>
          if topic_filter ! idx = char_plus then
            (if take idx topic_filter = take idx topic_name then
               (case find_first_of {topic_filter_separator} topic_name idx of
                  None \<Rightarrow> None
                | Some j \<Rightarrow> compare_loop (drop (idx + 1) topic_filter) (drop j topic_name))
             else Some False)
          else Some (take idx topic_filter = take idx topic_name))"
  by auto
termination
  by (relation "measure (\<lambda>(f, n). length f)") (auto dest!: find_first_of_Some)

declare compare_loop.simps [simp del]

definition compare_topic_filter :: "bytes \<Rightarrow> bytes \<Rightarrow> bool option" where
  "compare_topic_filter topic_filter topic_name =
     (if \<not> validate_topic_filter topic_filter then Some False
      else if \<not> validate_topic_name topic_name then Some False
      else compare_loop topic_filter topic_name)"

text \<open>The comparison character by character.\<close>

lemma find_first_of_Nil [simp]: "find_first_of cs [] pos = None"
  by (simp add: find_first_of_def)

lemma upt_Suc_map: "[Suc i..<Suc n] = map Suc [i..<n]"
  by (simp add: map_Suc_upt)

lemma find_map: "find P (map f xs) = map_option f (find (P \<circ> f) xs)"
  by (induction xs) simp_all

lemma find_first_of_Cons_Suc: "find_first_of cs (c # str) (Suc pos) = map_option Suc (find_first_of cs str pos)"
  by (simp add: find_first_of_def upt_Suc_map find_map comp_def del: upt_Suc)

lemma find_first_of_Cons:
  "find_first_of cs (c # str) 0 = (if c \<in> cs then Some 0 else map_option Suc (find_first_of cs str 0))"
proof -
  have "[0..<length (c # str)] = 0 # [Suc 0..<Suc (length str)]" by (simp add: upt_conv_Cons del: upt_Suc)
  then show ?thesis
    using find_first_of_Cons_Suc [of cs c str 0] by (simp add: find_first_of_def del: upt_Suc)
qed

abbreviation wildcard_char :: "byte \<Rightarrow> bool" where "wildcard_char c \<equiv> c = char_plus \<or> c = char_hash"

lemma compare_same: "\<not> wildcard_char c \<Longrightarrow> compare_loop (c # f) (c # n) = compare_loop f n"
  unfolding compare_loop.simps [of "c # f" "c # n"] compare_loop.simps [of f n]
  by (simp add: find_first_of_Cons find_first_of_Cons_Suc split: option.split)

lemma compare_differ: "\<not> wildcard_char c \<Longrightarrow> c \<noteq> d \<Longrightarrow> compare_loop (c # f) (d # n) = Some False"
  by (subst compare_loop.simps) (auto simp: find_first_of_Cons split: option.split)

lemma compare_end: "\<not> wildcard_char c \<Longrightarrow> compare_loop (c # f) [] = Some False"
  by (subst compare_loop.simps) (auto simp: find_first_of_Cons split: option.split)

lemma compare_empty: "compare_loop [] n = Some (n = [])"
  by (subst compare_loop.simps) auto

lemma compare_hash: "compare_loop (char_hash # f) n = Some True"
  by (subst compare_loop.simps) (simp add: find_first_of_Cons)

lemma find_separator:
  "case find_first_of {topic_filter_separator} n 0 of None \<Rightarrow> dropWhile level_char n = [] | Some j \<Rightarrow> (\<exists>c r. drop j n = c # r \<and> dropWhile level_char n = c # r)"
  by (induction n) (auto simp: find_first_of_Cons split: option.splits)

lemma compare_plus:
  "compare_loop (char_plus # f) n = (if dropWhile level_char n = [] then None else compare_loop f (dropWhile level_char n))"
  unfolding compare_loop.simps [of "char_plus # f" n]
  using find_separator [of n] by (cases "find_first_of {topic_filter_separator} n 0") (auto simp: find_first_of_Cons simp del: dropWhile_eq_Nil_conv)

lemma compare_level:
  assumes "\<forall>c \<in> set t. \<not> wildcard_char c"
  shows "compare_loop (t @ f) (t @ n) = compare_loop f n"
  using assms by (induction t) (auto simp: compare_same)

text \<open>A literal level against another level; what follows them begins with a separator or is empty.\<close>

definition level_end :: "bytes \<Rightarrow> bool" where
  "level_end r \<longleftrightarrow> r = [] \<or> hd r = topic_filter_separator"

lemma compare_other_level:
  assumes "\<forall>c \<in> set t. \<not> wildcard_char c \<and> level_char c" and "\<forall>c \<in> set u. level_char c" and "t \<noteq> u"
    and "level_end f" and "level_end n"
  shows "compare_loop (t @ f) (u @ n) = Some False"
  using assms
proof (induction t arbitrary: u)
  case Nil
  then obtain c u' where u: "u = c # u'" by (cases u) auto
  with Nil show ?case by (cases f) (auto simp: level_end_def compare_empty intro!: compare_differ)
next
  case (Cons c t)
  show ?case
  proof (cases u)
    case Nil
    with Cons.prems show ?thesis by (cases n) (auto simp: level_end_def compare_end intro!: compare_differ)
  next
    case (Cons d u')
    with Cons.prems Cons.IH [of u'] show ?thesis
      by (cases "c = d") (simp_all add: compare_same compare_differ)
  qed
qed

lemma join_levels_end: "\<exists>r. join_levels (t # ts) = t @ r \<and> level_end r"
  by (cases ts) (simp_all add: level_end_def)

lemma level_literal:
  assumes "level_valid b t" and "t \<noteq> plus_level" and "t \<noteq> hash_level"
  shows "\<forall>c \<in> set t. \<not> wildcard_char c"
  using assms by (auto simp: level_valid_def)

lemma dropWhile_level:
  assumes "topic_filter_separator \<notin> set u"
  shows "dropWhile level_char (join_levels (u # ns)) = (if ns = [] then [] else topic_filter_separator # join_levels ns)"
proof -
  have "dropWhile level_char (u @ r) = dropWhile level_char r" for r
    using assms by (auto intro: dropWhile_append2)
  from this [of "[]"] this [of "topic_filter_separator # join_levels ns"] show ?thesis by (cases ns) simp_all
qed

lemma compare_levels:
  assumes "levels_valid fs" and "fs \<noteq> []" and "ns \<noteq> []"
    and "\<And>t. t \<in> set fs \<union> set ns \<Longrightarrow> topic_filter_separator \<notin> set t" and "\<And>t. t \<in> set ns \<Longrightarrow> \<forall>c \<in> set t. \<not> wildcard_char c"
  shows "compare_loop (join_levels fs) (join_levels ns) = Some b \<Longrightarrow> b = filter_matches False fs ns"
  using assms
proof (induction fs arbitrary: ns)
  case (Cons t fs)
  obtain u us where ns: "ns = u # us" using Cons.prems by (cases ns) auto
  have u: "topic_filter_separator \<notin> set u" "u \<noteq> plus_level" "u \<noteq> hash_level" "\<forall>c \<in> set u. level_char c"
    using Cons.prems(5) [of u] Cons.prems(6) [of u] by (auto simp: ns)
  have sep: "\<not> wildcard_char topic_filter_separator" by simp
  have IH: "us \<noteq> [] \<Longrightarrow> fs \<noteq> [] \<Longrightarrow> compare_loop (join_levels fs) (join_levels us) = Some b \<Longrightarrow> b = filter_matches False fs us"
    by (rule Cons.IH) (use Cons.prems in \<open>auto simp: ns\<close>)
  consider "t = hash_level" | (plus) "t = plus_level" | (literal) "t \<noteq> plus_level" "t \<noteq> hash_level" by blast
  then show ?case
  proof cases
    case 1
    with Cons.prems(2) have "fs = []" by (simp add: level_valid_def)
    with 1 Cons.prems(1) show ?thesis by (simp add: ns compare_hash)
  next
    case plus
    with Cons.prems(1) dropWhile_level [OF u(1), of us] IH sep show ?thesis
      by (cases fs; cases us) (auto simp: ns compare_plus compare_empty compare_same split: if_splits)
  next
    case literal
    with Cons.prems(2) have t: "\<forall>c \<in> set t. \<not> wildcard_char c" using level_literal [of "fs = []" t] by simp
    have "\<forall>c \<in> set t. level_char c" using Cons.prems(5) [of t] by auto
    show ?thesis
    proof (cases "t = u")
      case True
      with Cons.prems(1) IH sep compare_level [OF t] literal show ?thesis
        using compare_level [OF t, of "[]" "[]"] compare_level [OF t, of "[]"] compare_level [OF t, of _ "[]"]
        by (cases fs; cases us) (auto simp: ns compare_empty compare_same compare_end)
    next
      case False
      obtain r r' where "join_levels (t # fs) = t @ r" "level_end r" "join_levels (u # us) = u @ r'" "level_end r'"
        using join_levels_end by metis
      with compare_other_level [of t u r r'] t \<open>\<forall>c \<in> set t. level_char c\<close> u False literal Cons.prems(1) show ?thesis
        by (auto simp: ns)
    qed
  qed
qed simp

lemma validate_topic_filter_levels:
  "validate_topic_filter str \<longleftrightarrow> str \<noteq> [] \<and> length str \<le> 65535 \<and> levels_valid (tokens str)"
proof -
  have "validate_loop str 0 \<longleftrightarrow> scan True str" using validate_loop_scan [of 0 str] by simp
  also have "\<dots> \<longleftrightarrow> levels_valid (tokens str)"
    using scan_levels [of "tokens str", OF tokens_level] by (simp add: tokens_join)
  finally show ?thesis by (auto simp: validate_topic_filter_def)
qed

lemma join_levels_set: "t \<in> set ts \<Longrightarrow> set t \<subseteq> set (join_levels ts)"
  by (induction ts rule: join_levels.induct) auto

lemma validate_topic_name_levels:
  "validate_topic_name str \<Longrightarrow> t \<in> set (tokens str) \<Longrightarrow> \<forall>c \<in> set t. c \<notin> special_chars"
  using join_levels_set [of t "tokens str"] scan_no_special [of str] by (auto simp: validate_topic_name_def tokens_join)

subsection \<open>Properties\<close>

text \<open>
  C32. Filters are checked and compared by levels. \<^verbatim>\<open>validate_topic_filter\<close>, which looks at single
  characters and their neighbours, accepts exactly the filters of 1 to 65535 bytes in which a
  wildcard stands alone in its level and \<open>#\<close> only in the last. When \<^verbatim>\<open>compare_topic_filter\<close>
  returns for a valid filter and a valid name, the result is whether the filter matches level by
  level. It does not return but has undefined behaviour when a \<open>+\<close> meets the last level of the name.
\<close>

theorem topic_filters_by_levels:
  "(validate_topic_filter f \<longleftrightarrow> f \<noteq> [] \<and> length f \<le> 65535 \<and> levels_valid (tokens f)) \<and>
   (validate_topic_filter f \<and> validate_topic_name n \<and> compare_topic_filter f n = Some b \<longrightarrow>
      b = filter_matches False (tokens f) (tokens n)) \<and>
   (validate_topic_filter (g @ plus_level) \<and> validate_topic_name (g @ t) \<and> (\<forall>c \<in> set g. \<not> wildcard_char c) \<and>
      topic_filter_separator \<notin> set t \<longrightarrow> compare_topic_filter (g @ plus_level) (g @ t) = None)"
proof (intro conjI impI validate_topic_filter_levels; elim conjE)
  assume f: "validate_topic_filter f" and n: "validate_topic_name n" and "compare_topic_filter f n = Some b"
  then have "compare_loop (join_levels (tokens f)) (join_levels (tokens n)) = Some b"
    by (simp add: compare_topic_filter_def tokens_join)
  then show "b = filter_matches False (tokens f) (tokens n)"
    by (rule compare_levels [rotated 5])
       (use f n validate_topic_name_levels in \<open>auto simp: validate_topic_filter_levels dest: tokens_level\<close>)
qed (auto simp: compare_topic_filter_def compare_level compare_plus)

theorem topic_filters_by_levels_witness:
  "validate_topic_filter [0x61, topic_filter_separator, char_plus] \<and>
   compare_topic_filter [0x61, topic_filter_separator, char_plus] [0x61, topic_filter_separator, 0x62] = None"
proof -
  have "validate_topic_filter ([0x61, topic_filter_separator] @ plus_level)"
    by (simp add: validate_topic_filter_def validate_loop.simps find_first_of_def wildcard_placed_def topic_chars)
  moreover have "validate_topic_name ([0x61, topic_filter_separator] @ [0x62])"
    by (simp add: validate_topic_name_def find_first_of_def topic_chars)
  moreover have "\<forall>c \<in> set [0x61, topic_filter_separator]. \<not> wildcard_char c" "topic_filter_separator \<notin> set [0x62]"
    by (simp_all add: topic_chars)
  ultimately show ?thesis
    using topic_filters_by_levels [of _ _ _ "[0x61, topic_filter_separator]" "[0x62]"] by simp
qed

end
