(* ===== verification/Subscription_Map.thy ===== *)
theory Subscription_Map
  imports Topic_Filter
begin

text \<open>
  The subscriptions of the broker: \<^verbatim>\<open>tool/include/broker/subscription_map.hpp\<close>.

  \<^item> The nodes of the tree of levels are the entries of one map; the key of a node is the identifier of
    its parent and its level. An iterator is the key it points to.
  \<^item> \<open>dv\<close> is the default value of the type stored in a node.
  \<^item> Exceptions are values of \<open>map_error\<close>; \<open>Dangling\<close> stands for the use of an iterator without
    entry and for a failing assertion.
  \<^item> A walk over matching nodes returns the keys in the order of the callbacks.
\<close>

subsection \<open>Nodes\<close>

type_synonym node_key = "nat \<times> bytes"

datatype map_error = Invalid_topic_filter | Invalid_handle | Max_stored_topics | No_wildcards_allowed | Dangling

record 'v path_entry =
  pe_id :: nat
  pe_parent :: node_key
  pe_count :: nat
  pe_hash :: bool
  pe_plus :: bool
  pe_value :: 'v

record 'v subscription_map =
  sm_map :: "node_key \<Rightarrow> 'v path_entry option"
  sm_next_node_id :: nat
  sm_root_key :: node_key
  sm_root_node_id :: nat
  sm_size :: nat

abbreviation set_node :: "node_key \<Rightarrow> 'v path_entry \<Rightarrow> 'v subscription_map \<Rightarrow> 'v subscription_map" where
  "set_node k e m \<equiv> m\<lparr>sm_map := (sm_map m)(k \<mapsto> e)\<rparr>"

definition size_max :: nat where "size_max = 2 ^ 64 - 1"

text \<open>\<^verbatim>\<open>count_storage<8>\<close>: 62 bits of count beside the two flags.\<close>

definition count_max :: nat where "count_max = 2 ^ 62 - 1"

definition generate_node_id :: "'v subscription_map \<Rightarrow> map_error + nat \<times> 'v subscription_map" where
  "generate_node_id m =
     (if sm_next_node_id m = size_max then Inl Max_stored_topics
      else Inr (sm_next_node_id m + 1, m\<lparr>sm_next_node_id := sm_next_node_id m + 1\<rparr>))"

definition new_path_entry :: "'v \<Rightarrow> nat \<Rightarrow> node_key \<Rightarrow> 'v path_entry" where
  "new_path_entry dv i parent =
     \<lparr>pe_id = i, pe_parent = parent, pe_count = 1, pe_hash = False, pe_plus = False, pe_value = dv\<rparr>"

definition increase_count_storage :: "'v path_entry \<Rightarrow> map_error + 'v path_entry" where
  "increase_count_storage e =
     (if pe_count e = count_max then Inl Max_stored_topics else Inr (e\<lparr>pe_count := pe_count e + 1\<rparr>))"

definition decrease_count_storage :: "'v path_entry \<Rightarrow> map_error + 'v path_entry" where
  "decrease_count_storage e =
     (if pe_count e = 0 then Inl Dangling else Inr (e\<lparr>pe_count := pe_count e - 1\<rparr>))"

text \<open>The constructor generates two identifiers: of the root and of the key of the root.\<close>

definition subscription_map_init :: "'v \<Rightarrow> 'v subscription_map" where
  "subscription_map_init dv =
     \<lparr>sm_map = [(2, []) \<mapsto> new_path_entry dv 1 (0, [])], sm_next_node_id = 2, sm_root_key = (2, []), sm_root_node_id = 1,
      sm_size = 0\<rparr>"

definition get_root :: "'v subscription_map \<Rightarrow> 'v path_entry" where
  "get_root m = the (sm_map m (sm_root_key m))"

subsection \<open>Paths\<close>

definition find_level :: "'v subscription_map \<Rightarrow> bytes \<Rightarrow> node_key list \<times> nat \<Rightarrow> bool \<times> node_key list \<times> nat" where
  "find_level m t s =
     (let (path, parent_id) = s in
      case sm_map m (parent_id, t) of
        None \<Rightarrow> (False, [], parent_id)
      | Some entry \<Rightarrow> (True, path @ [(parent_id, t)], pe_id entry))"

definition find_topic_filter :: "bytes \<Rightarrow> 'v subscription_map \<Rightarrow> node_key list" where
  "find_topic_filter topic_filter m =
     fst (snd (topic_filter_tokenizer topic_filter (find_level m) ([], pe_id (get_root m))))"

definition create_level ::
  "'v \<Rightarrow> bytes \<Rightarrow> 'v subscription_map \<times> node_key \<times> node_key list \<Rightarrow>
   map_error + 'v subscription_map \<times> node_key \<times> node_key list" where
  "create_level dv t s =
     (let (m, parent, result) = s in
      case sm_map m parent of
        None \<Rightarrow> Inl Dangling
      | Some pe \<Rightarrow>
          (let k = (pe_id pe, t) in
           case sm_map m k of
             None \<Rightarrow>
               bindE (generate_node_id m) (\<lambda>(i, m).
               Inr (set_node parent (pe\<lparr>pe_plus := pe_plus pe \<or> t = plus_level, pe_hash := pe_hash pe \<or> t = hash_level\<rparr>)
                      (set_node k (new_path_entry dv i parent) m), k, result @ [k]))
           | Some entry \<Rightarrow>
               bindE (increase_count_storage entry) (\<lambda>entry. Inr (set_node k entry m, k, result @ [k]))))"

text \<open>The callback of the tokenizer, for code that can throw.\<close>

definition throwing :: "(bytes \<Rightarrow> 's \<Rightarrow> 'e + 's) \<Rightarrow> bytes \<Rightarrow> 'e + 's \<Rightarrow> bool \<times> ('e + 's)" where
  "throwing f t s = (case bindE s (f t) of Inl x \<Rightarrow> (False, Inl x) | Inr s \<Rightarrow> (True, Inr s))"

definition create_topic_filter :: "'v \<Rightarrow> bytes \<Rightarrow> 'v subscription_map \<Rightarrow> map_error + 'v subscription_map \<times> node_key list" where
  "create_topic_filter dv topic_filter m =
     bindE (snd (topic_filter_tokenizer topic_filter (throwing (create_level dv)) (Inr (m, sm_root_key m, []))))
       (\<lambda>(m, _, result). Inr (m, result))"

text \<open>The loop from the leaf to the first level; the flags tell that the child that was removed is a wildcard.\<close>

fun remove_loop :: "node_key list \<Rightarrow> bool \<Rightarrow> bool \<Rightarrow> 'v subscription_map \<Rightarrow> map_error + bool \<times> bool \<times> 'v subscription_map" where
  "remove_loop [] rp rh m = Inr (rp, rh, m)"
| "remove_loop (k # ks) rp rh m =
     (case sm_map m k of
        None \<Rightarrow> Inl Dangling
      | Some entry \<Rightarrow>
          (let entry = (if rp then entry\<lparr>pe_plus := False\<rparr> else entry);
               entry = (if rh then entry\<lparr>pe_hash := False\<rparr> else entry) in
           bindE (decrease_count_storage entry) (\<lambda>entry.
           if pe_count entry = 0
           then remove_loop ks (snd k = plus_level) (snd k = hash_level) (m\<lparr>sm_map := (sm_map m)(k := None)\<rparr>)
           else remove_loop ks False False (set_node k entry m))))"

definition remove_topic_filter :: "node_key list \<Rightarrow> 'v subscription_map \<Rightarrow> map_error + 'v subscription_map" where
  "remove_topic_filter path m =
     bindE (remove_loop (rev path) False False m) (\<lambda>(rp, rh, m).
     let root = get_root m;
         root = (if rp then root\<lparr>pe_plus := False\<rparr> else root);
         root = (if rh then root\<lparr>pe_hash := False\<rparr> else root)
     in Inr (set_node (sm_root_key m) root m))"

subsection \<open>Matching\<close>

text \<open>One node of the current level: the nodes of the next level and the callbacks for \<open>#\<close>.\<close>

definition match_entry :: "'v subscription_map \<Rightarrow> bytes \<Rightarrow> node_key \<Rightarrow> node_key list \<times> node_key list" where
  "match_entry m t k =
     (let entry = the (sm_map m k); parent = pe_id entry;
          may = (parent \<noteq> sm_root_node_id m \<or> t = [] \<or> hd t \<noteq> char_dollar) in
      ((if sm_map m (parent, t) \<noteq> None then [(parent, t)] else []) @
       (if pe_plus entry \<and> sm_map m (parent, plus_level) \<noteq> None \<and> may then [(parent, plus_level)] else []),
       (if pe_hash entry \<and> sm_map m (parent, hash_level) \<noteq> None \<and> may then [(parent, hash_level)] else [])))"

definition match_level :: "'v subscription_map \<Rightarrow> bytes \<Rightarrow> node_key list \<times> node_key list \<Rightarrow> bool \<times> node_key list \<times> node_key list" where
  "match_level m t s =
     (let (entries, called) = s; new_entries = concat (map (\<lambda>k. fst (match_entry m t k)) entries) in
      (new_entries \<noteq> [], new_entries, called @ concat (map (\<lambda>k. snd (match_entry m t k)) entries)))"

definition find_match_impl :: "bytes \<Rightarrow> 'v subscription_map \<Rightarrow> node_key list" where
  "find_match_impl topic m =
     (let (entries, called) = snd (topic_filter_tokenizer topic (match_level m) ([sm_root_key m], []))
      in called @ entries)"

definition find_match :: "bytes \<Rightarrow> 'v subscription_map \<Rightarrow> 'v list" where
  "find_match topic m = map (\<lambda>k. pe_value (the (sm_map m k))) (find_match_impl topic m)"

definition modify_match :: "bytes \<Rightarrow> ('v \<Rightarrow> 'v) \<Rightarrow> 'v subscription_map \<Rightarrow> 'v subscription_map" where
  "modify_match topic callback m =
     fold (\<lambda>k m. set_node k (the (sm_map m k)\<lparr>pe_value := callback (pe_value (the (sm_map m k)))\<rparr>) m) (find_match_impl topic m) m"

subsection \<open>Handles\<close>

text \<open>The walk from a node to the root. It ends in a well-formed map only.\<close>

partial_function (option) handle_walk :: "'v subscription_map \<Rightarrow> node_key \<Rightarrow> (map_error + node_key list) option" where
  "handle_walk m h =
     (if h = sm_root_key m then Some (Inr [])
      else case sm_map m h of
        None \<Rightarrow> Some (Inl Invalid_handle)
      | Some entry \<Rightarrow> Option.bind (handle_walk m (pe_parent entry)) (\<lambda>r. Some (map_sum (\<lambda>x. x) ((#) h) r)))"

definition handle_to_iterators :: "node_key \<Rightarrow> 'v subscription_map \<Rightarrow> (map_error + node_key list) option" where
  "handle_to_iterators h m = map_option (map_sum (\<lambda>x. x) rev) (handle_walk m h)"

definition increase_node :: "node_key \<Rightarrow> 'v subscription_map \<Rightarrow> map_error + 'v subscription_map" where
  "increase_node k m =
     (case sm_map m k of
        None \<Rightarrow> Inl Dangling
      | Some entry \<Rightarrow> bindE (increase_count_storage entry) (\<lambda>entry. Inr (set_node k entry m)))"

fun increase_subscriptions :: "node_key list \<Rightarrow> 'v subscription_map \<Rightarrow> map_error + 'v subscription_map" where
  "increase_subscriptions [] m = Inr m"
| "increase_subscriptions (k # ks) m = bindE (increase_node k m) (increase_subscriptions ks)"

definition increase_subscriptions_handle :: "node_key \<Rightarrow> 'v subscription_map \<Rightarrow> (map_error + 'v subscription_map) option" where
  "increase_subscriptions_handle h m = map_option (\<lambda>r. bindE r (\<lambda>ks. increase_subscriptions ks m)) (handle_walk m h)"

definition increase_map_size :: "'v subscription_map \<Rightarrow> map_error + 'v subscription_map" where
  "increase_map_size m =
     (if sm_size m = size_max then Inl Max_stored_topics else Inr (m\<lparr>sm_size := sm_size m + 1\<rparr>))"

definition decrease_map_size :: "'v subscription_map \<Rightarrow> map_error + 'v subscription_map" where
  "decrease_map_size m = (if sm_size m = 0 then Inl Dangling else Inr (m\<lparr>sm_size := sm_size m - 1\<rparr>))"

definition internal_size :: "'v subscription_map \<Rightarrow> nat" where
  "internal_size m = card (dom (sm_map m))"

definition lookup_filter :: "bytes \<Rightarrow> 'v subscription_map \<Rightarrow> node_key option" where
  "lookup_filter topic_filter m =
     (let path = find_topic_filter topic_filter m in if path = [] then None else Some (last path))"

definition handle_to_topic_filter :: "node_key \<Rightarrow> 'v subscription_map \<Rightarrow> (map_error + bytes) option" where
  "handle_to_topic_filter h m =
     map_option (map_sum (\<lambda>x. x) (\<lambda>ks. foldl (\<lambda>result k. if result = [] then snd k else snd k @ topic_filter_separator # result) [] ks))
       (handle_walk m h)"

subsection \<open>Several values for a filter\<close>

text \<open>
  \<^verbatim>\<open>multiple_subscription_map\<close>: a node holds a map from keys to values. A handle that is not in the
  map throws; \<open>None\<close> would be a walk to the root that does not end.
\<close>

type_synonym ('k, 'w) multiple_map = "('k \<Rightarrow> 'w option) subscription_map"

definition multiple_map_init :: "('k, 'w) multiple_map" where
  "multiple_map_init = subscription_map_init (\<lambda>_. None)"

abbreviation set_value :: "node_key \<Rightarrow> 'v \<Rightarrow> 'v subscription_map \<Rightarrow> 'v subscription_map" where
  "set_value k v m \<equiv> set_node k ((the (sm_map m k))\<lparr>pe_value := v\<rparr>) m"

abbreviation node_value :: "'v subscription_map \<Rightarrow> node_key \<Rightarrow> 'v" where
  "node_value m k \<equiv> pe_value (the (sm_map m k))"

definition insert_or_assign ::
  "bytes \<Rightarrow> 'k \<Rightarrow> 'w \<Rightarrow> ('k, 'w) multiple_map \<Rightarrow> map_error + (node_key \<times> bool) \<times> ('k, 'w) multiple_map" where
  "insert_or_assign topic_filter key val m =
     (let path = find_topic_filter topic_filter m in
      if path = [] then
        bindE (create_topic_filter (\<lambda>_. None) topic_filter m) (\<lambda>(m, new_topic_filter).
        let h = last new_topic_filter in
        bindE (increase_map_size (set_value h ((node_value m h)(key \<mapsto> val)) m)) (\<lambda>m.
        Inr ((h, True), m)))
      else
        (let h = last path; inserted = (node_value m h key = None); m = set_value h ((node_value m h)(key \<mapsto> val)) m in
         if inserted then
           bindE (increase_subscriptions path m) (\<lambda>m. bindE (increase_map_size m) (\<lambda>m. Inr ((h, True), m)))
         else Inr ((h, False), m)))"

definition insert_or_assign_handle ::
  "node_key \<Rightarrow> 'k \<Rightarrow> 'w \<Rightarrow> ('k, 'w) multiple_map \<Rightarrow> (map_error + (node_key \<times> bool) \<times> ('k, 'w) multiple_map) option" where
  "insert_or_assign_handle h key val m =
     (if sm_map m h = None then Some (Inl Invalid_handle)
      else
        (let inserted = (node_value m h key = None); m = set_value h ((node_value m h)(key \<mapsto> val)) m in
         if inserted then
           map_option (\<lambda>r. bindE r (\<lambda>m. bindE (increase_map_size m) (\<lambda>m. Inr ((h, True), m)))) (increase_subscriptions_handle h m)
         else Some (Inr ((h, False), m))))"

definition erase_handle :: "node_key \<Rightarrow> 'k \<Rightarrow> ('k, 'w) multiple_map \<Rightarrow> (map_error + nat \<times> ('k, 'w) multiple_map) option" where
  "erase_handle h key m =
     (if sm_map m h = None then Some (Inl Invalid_handle)
      else if node_value m h key = None then Some (Inr (0, m))
      else
        (let m = set_value h ((node_value m h)(key := None)) m in
         map_option (\<lambda>r. bindE r (\<lambda>path. bindE (remove_topic_filter path m) (\<lambda>m. bindE (decrease_map_size m) (\<lambda>m. Inr (1, m)))))
           (handle_to_iterators h m)))"

definition erase_filter :: "bytes \<Rightarrow> 'k \<Rightarrow> ('k, 'w) multiple_map \<Rightarrow> map_error + nat \<times> ('k, 'w) multiple_map" where
  "erase_filter topic_filter key m =
     (let path = find_topic_filter topic_filter m in
      if path = [] then Inr (0, m)
      else
        (let h = last path in
         if node_value m h key = None then Inr (0, m)
         else
           bindE (decrease_map_size (set_value h ((node_value m h)(key := None)) m)) (\<lambda>m.
           bindE (remove_topic_filter path m) (\<lambda>m. Inr (1, m)))))"

text \<open>\<^verbatim>\<open>find\<close> calls back for every pair of every container, in the order of the containers.\<close>

definition find_subscriptions :: "bytes \<Rightarrow> ('k, 'w) multiple_map \<Rightarrow> ('k \<Rightarrow> 'w option) list" where
  "find_subscriptions topic m = find_match topic m"

definition modify_subscriptions :: "bytes \<Rightarrow> ('k \<Rightarrow> 'w \<Rightarrow> 'w) \<Rightarrow> ('k, 'w) multiple_map \<Rightarrow> ('k, 'w) multiple_map" where
  "modify_subscriptions topic callback m = modify_match topic (\<lambda>c k. map_option (callback k) (c k)) m"

subsection \<open>One value for a filter\<close>

text \<open>\<^verbatim>\<open>single_subscription_map\<close>\<close>

definition single_map_init :: "'v option subscription_map" where
  "single_map_init = subscription_map_init None"

definition single_insert :: "bytes \<Rightarrow> 'v \<Rightarrow> 'v option subscription_map \<Rightarrow> map_error + (node_key \<times> bool) \<times> 'v option subscription_map" where
  "single_insert topic_filter val m =
     (let path = find_topic_filter topic_filter m in
      if path \<noteq> [] then
        (if node_value m (last path) \<noteq> None then Inr ((last path, False), m)
         else Inr ((last path, True), set_value (last path) (Some val) m))
      else
        bindE (create_topic_filter None topic_filter m) (\<lambda>(m, new_topic_filter).
        let h = last new_topic_filter in
        bindE (increase_map_size (set_value h (Some val) m)) (\<lambda>m. Inr ((h, True), m))))"

definition single_update :: "bytes \<Rightarrow> 'v \<Rightarrow> 'v option subscription_map \<Rightarrow> map_error + 'v option subscription_map" where
  "single_update topic_filter val m =
     (let path = find_topic_filter topic_filter m in
      if path = [] then Inl Invalid_topic_filter else Inr (set_value (last path) (Some val) m))"

definition single_update_handle :: "node_key \<Rightarrow> 'v \<Rightarrow> 'v option subscription_map \<Rightarrow> map_error + 'v option subscription_map" where
  "single_update_handle h val m =
     (if sm_map m h = None then Inl Invalid_topic_filter else Inr (set_value h (Some val) m))"

definition single_erase_path :: "node_key list \<Rightarrow> 'v option subscription_map \<Rightarrow> map_error + nat \<times> 'v option subscription_map" where
  "single_erase_path path m =
     (if path = [] \<or> node_value m (last path) = None then Inr (0, m)
      else bindE (remove_topic_filter path m) (\<lambda>m. bindE (decrease_map_size m) (\<lambda>m. Inr (1, m))))"

definition single_erase :: "bytes \<Rightarrow> 'v option subscription_map \<Rightarrow> map_error + nat \<times> 'v option subscription_map" where
  "single_erase topic_filter m = single_erase_path (find_topic_filter topic_filter m) m"

definition single_erase_handle :: "node_key \<Rightarrow> 'v option subscription_map \<Rightarrow> (map_error + nat \<times> 'v option subscription_map) option" where
  "single_erase_handle h m = map_option (\<lambda>r. bindE r (\<lambda>path. single_erase_path path m)) (handle_to_iterators h m)"

definition single_find :: "bytes \<Rightarrow> 'v option subscription_map \<Rightarrow> 'v list" where
  "single_find topic m = concat (map (\<lambda>v. case v of None \<Rightarrow> [] | Some x \<Rightarrow> [x]) (find_match topic m))"

end
