(* ===== verification/Subscription_Tree.thy ===== *)
theory Subscription_Tree
  imports Subscription_Map
begin

text \<open>
  The map of nodes is a tree of levels: every node is reached from the root by one path, and the
  changes of the code (a node updated in place, a leaf added, a leaf removed) change these paths
  as expected.
\<close>

subsection \<open>Paths to nodes\<close>

text \<open>What makes the tree: identifier and parent of each node.\<close>

definition skeleton :: "'v subscription_map \<Rightarrow> node_key \<Rightarrow> (nat \<times> node_key) option" where
  "skeleton m k = map_option (\<lambda>e. (pe_id e, pe_parent e)) (sm_map m k)"

definition child :: "'v subscription_map \<Rightarrow> node_key \<Rightarrow> bytes \<Rightarrow> node_key option" where
  "child m k t =
     (case skeleton m k of
        None \<Rightarrow> None
      | Some (i, _) \<Rightarrow> if skeleton m (i, t) = None then None else Some (i, t))"

fun node_at :: "'v subscription_map \<Rightarrow> node_key \<Rightarrow> bytes list \<Rightarrow> node_key option" where
  "node_at m k [] = Some k"
| "node_at m k (t # ts) = Option.bind (child m k t) (\<lambda>k'. node_at m k' ts)"

abbreviation root_path :: "'v subscription_map \<Rightarrow> bytes list \<Rightarrow> node_key option" where
  "root_path m p \<equiv> node_at m (2, []) p"

text \<open>
  The root has the key \<open>(2, [])\<close> and the identifier 1; the identifiers are distinct, and a node has
  a larger one than its parent, whose key it knows.
\<close>

type_synonym skeleton = "node_key \<Rightarrow> (nat \<times> node_key) option"

definition ids_ok :: "nat \<Rightarrow> skeleton \<Rightarrow> bool" where
  "ids_ok n s \<longleftrightarrow> (\<forall>k i p. s k = Some (i, p) \<longrightarrow> i \<le> n \<and> i \<noteq> 2)"

definition ids_unique :: "skeleton \<Rightarrow> bool" where
  "ids_unique s \<longleftrightarrow> (\<forall>k k' i p p'. s k = Some (i, p) \<longrightarrow> s k' = Some (i, p') \<longrightarrow> k = k')"

definition parents_ok :: "skeleton \<Rightarrow> bool" where
  "parents_ok s \<longleftrightarrow>
     (\<forall>i t j p. s (i, t) = Some (j, p) \<longrightarrow> (i, t) \<noteq> (2, []) \<longrightarrow> i < j \<and> (\<exists>q. s p = Some (i, q)))"

definition skeleton_ok :: "nat \<Rightarrow> skeleton \<Rightarrow> bool" where
  "skeleton_ok n s \<longleftrightarrow> 2 \<le> n \<and> finite (dom s) \<and> (\<exists>p. s (2, []) = Some (1, p)) \<and> ids_ok n s \<and> ids_unique s \<and> parents_ok s"

definition sm_tree :: "'v subscription_map \<Rightarrow> bool" where
  "sm_tree m \<longleftrightarrow> sm_root_key m = (2, []) \<and> sm_root_node_id m = 1 \<and> skeleton_ok (sm_next_node_id m) (skeleton m)"

lemma skeleton_None: "skeleton m k = None \<longleftrightarrow> sm_map m k = None"
  by (simp add: skeleton_def)

lemma skeleton_Some: "skeleton m k = Some (i, p) \<longleftrightarrow> (\<exists>e. sm_map m k = Some e \<and> pe_id e = i \<and> pe_parent e = p)"
  by (auto simp: skeleton_def)

lemma skeleton_dom: "dom (skeleton m) = dom (sm_map m)"
  by (auto simp: skeleton_def dom_def)

lemma skeleton_of: "sm_map m k = Some e \<Longrightarrow> skeleton m k = Some (pe_id e, pe_parent e)"
  by (simp add: skeleton_def)

lemma tree_root_key: "sm_tree m \<Longrightarrow> sm_root_key m = (2, [])" and tree_root_id: "sm_tree m \<Longrightarrow> sm_root_node_id m = 1"
  by (simp_all add: sm_tree_def)

lemma tree_root: "sm_tree m \<Longrightarrow> \<exists>e. sm_map m (2, []) = Some e \<and> pe_id e = 1"
  by (auto simp: sm_tree_def skeleton_ok_def skeleton_Some)

lemma tree_finite: "sm_tree m \<Longrightarrow> finite (dom (sm_map m))"
  by (simp add: sm_tree_def skeleton_ok_def skeleton_dom)

lemma tree_id: "sm_tree m \<Longrightarrow> sm_map m k = Some e \<Longrightarrow> pe_id e \<le> sm_next_node_id m \<and> pe_id e \<noteq> 2"
  using skeleton_of [of m k e] unfolding sm_tree_def skeleton_ok_def ids_ok_def by blast

lemma tree_unique: "sm_tree m \<Longrightarrow> sm_map m k = Some e \<Longrightarrow> sm_map m k' = Some e' \<Longrightarrow> pe_id e = pe_id e' \<Longrightarrow> k = k'"
  using skeleton_of [of m k e] skeleton_of [of m k' e'] unfolding sm_tree_def skeleton_ok_def ids_unique_def by metis

lemma tree_parent:
  "sm_tree m \<Longrightarrow> sm_map m (i, t) = Some e \<Longrightarrow> (i, t) \<noteq> (2, []) \<Longrightarrow>
   i < pe_id e \<and> (\<exists>pe. sm_map m (pe_parent e) = Some pe \<and> pe_id pe = i)"
  using skeleton_of [of m "(i, t)" e] unfolding sm_tree_def skeleton_ok_def parents_ok_def by (metis skeleton_Some)

lemma child_Some: "child m k t = Some k' \<longleftrightarrow> (\<exists>e. sm_map m k = Some e \<and> k' = (pe_id e, t) \<and> sm_map m k' \<noteq> None)"
  by (auto simp: child_def skeleton_Some skeleton_None split: option.splits prod.splits)

lemma node_at_append: "node_at m k (p @ q) = Option.bind (node_at m k p) (\<lambda>k'. node_at m k' q)"
  by (induction p arbitrary: k) (auto split: bind_splits)

lemma node_at_snoc: "node_at m k (p @ [t]) = Option.bind (node_at m k p) (\<lambda>k'. child m k' t)"
  by (simp add: node_at_append split: bind_splits)

lemma node_at_dom: "node_at m k p = Some k' \<Longrightarrow> sm_map m k \<noteq> None \<Longrightarrow> sm_map m k' \<noteq> None"
  by (induction p arbitrary: k) (auto simp: child_Some bind_eq_Some_conv)

lemma root_path_dom: "sm_tree m \<Longrightarrow> root_path m p = Some k \<Longrightarrow> sm_map m k \<noteq> None"
  using tree_root [of m] by (auto dest: node_at_dom)

lemma root_path_inj: "sm_tree m \<Longrightarrow> root_path m p = Some k \<Longrightarrow> root_path m q = Some k \<Longrightarrow> p = q"
proof (induction p arbitrary: q k rule: rev_induct)
  case Nil
  then have k: "k = (2, [])" by simp
  show ?case
  proof (cases q rule: rev_cases)
    case (snoc q' t)
    with Nil k obtain k' e where "sm_map m k' = Some e" "pe_id e = 2" by (auto simp: node_at_snoc bind_eq_Some_conv child_Some)
    with tree_id [OF Nil(1)] show ?thesis by blast
  qed simp
next
  case (snoc t p)
  then obtain k1 e1 where 1: "root_path m p = Some k1" "sm_map m k1 = Some e1" "k = (pe_id e1, t)"
    by (auto simp: node_at_snoc bind_eq_Some_conv child_Some)
  with tree_id [OF snoc.prems(1)] have "k \<noteq> (2, [])" by auto
  with snoc.prems(3) obtain q' u where q: "q = q' @ [u]" by (cases q rule: rev_cases) auto
  with snoc.prems(3) obtain k2 e2 where 2: "root_path m q' = Some k2" "sm_map m k2 = Some e2" "k = (pe_id e2, u)"
    by (auto simp: node_at_snoc bind_eq_Some_conv child_Some)
  with 1 tree_unique [OF snoc.prems(1)] have "k1 = k2" "t = u" by auto
  with snoc.IH [OF snoc.prems(1) 1(1)] 2(1) q show ?case by simp
qed

lemma root_path_exists: "sm_tree m \<Longrightarrow> sm_map m k = Some e \<Longrightarrow> \<exists>p. root_path m p = Some k"
proof (induction "pe_id e" arbitrary: k e rule: less_induct)
  case less
  show ?case
  proof (cases "k = (2, [])")
    case True
    then show ?thesis by (intro exI [of _ "[]"]) simp
  next
    case False
    obtain i t where k: "k = (i, t)" by fastforce
    with less.prems False tree_parent [of m i t e] obtain pe where pe: "sm_map m (pe_parent e) = Some pe" "pe_id pe = i" "i < pe_id e" by auto
    with less.hyps [of pe "pe_parent e"] less.prems obtain p where "root_path m p = Some (pe_parent e)" by auto
    with pe k less.prems(2) show ?thesis
      by (intro exI [of _ "p @ [t]"]) (simp add: node_at_snoc child_Some)
  qed
qed

subsection \<open>Changes\<close>

text \<open>A node updated in place keeps its identifier and its parent.\<close>

lemma skeleton_update:
  "sm_map m k = Some e \<Longrightarrow> pe_id e' = pe_id e \<Longrightarrow> pe_parent e' = pe_parent e \<Longrightarrow> skeleton (set_node k e' m) = skeleton m"
  by (auto simp: skeleton_def fun_eq_iff)

lemma tree_cong:
  "sm_tree m \<Longrightarrow> skeleton m' = skeleton m \<Longrightarrow> sm_root_key m' = sm_root_key m \<Longrightarrow> sm_root_node_id m' = sm_root_node_id m \<Longrightarrow>
   sm_next_node_id m' = sm_next_node_id m \<Longrightarrow> sm_tree m'"
  unfolding sm_tree_def by simp

lemma tree_update:
  "sm_tree m \<Longrightarrow> sm_map m k = Some e \<Longrightarrow> pe_id e' = pe_id e \<Longrightarrow> pe_parent e' = pe_parent e \<Longrightarrow> sm_tree (set_node k e' m)"
  by (erule tree_cong) (simp_all add: skeleton_update)

lemma child_cong: "skeleton m' = skeleton m \<Longrightarrow> child m' = child m"
  by (auto simp: child_def fun_eq_iff split: option.split)

lemma node_at_cong:
  assumes "skeleton m' = skeleton m" shows "node_at m' k p = node_at m k p"
  by (induction p arbitrary: k) (simp_all add: child_cong [OF assms])

lemmas node_at_update = node_at_cong [OF skeleton_update]

text \<open>A leaf with a fresh identifier.\<close>

lemma skeleton_insert: "skeleton (set_node k e m) = (skeleton m)(k \<mapsto> (pe_id e, pe_parent e))"
  by (auto simp: skeleton_def fun_eq_iff)

lemma skeleton_ok_insert:
  assumes "skeleton_ok n s" and "s parent = Some (i, q)" and "s (i, t) = None"
  shows "skeleton_ok (n + 1) (s((i, t) \<mapsto> (n + 1, parent)))"
proof -
  from assms(1) have old: "ids_ok n s" "ids_unique s" "parents_ok s" by (simp_all add: skeleton_ok_def)
  from old(1) assms(2) have i: "i \<le> n" "i \<noteq> 2" unfolding ids_ok_def by blast+
  have "ids_ok (n + 1) (s((i, t) \<mapsto> (n + 1, parent)))"
    unfolding ids_ok_def
  proof (intro allI impI)
    fix k j p
    assume "(s((i, t) \<mapsto> (n + 1, parent))) k = Some (j, p)"
    then consider "j = n + 1" | "s k = Some (j, p)" by (auto split: if_splits)
    then show "j \<le> n + 1 \<and> j \<noteq> 2"
    proof cases
      case 2
      with old(1) have "j \<le> n \<and> j \<noteq> 2" unfolding ids_ok_def by blast
      then show ?thesis by simp
    qed (use assms(1) in \<open>simp add: skeleton_ok_def\<close>)
  qed
  moreover have "ids_unique (s((i, t) \<mapsto> (n + 1, parent)))"
    unfolding ids_unique_def
  proof (intro allI impI)
    fix k k' j p p'
    assume "(s((i, t) \<mapsto> (n + 1, parent))) k = Some (j, p)" "(s((i, t) \<mapsto> (n + 1, parent))) k' = Some (j, p')"
    moreover have "s k \<noteq> Some (n + 1, p)" for k p using old(1) unfolding ids_ok_def by (metis not_less_eq_eq order_refl Suc_eq_plus1)
    ultimately show "k = k'" using old(2) unfolding ids_unique_def by (metis fun_upd_apply option.inject prod.inject)
  qed
  moreover have "parents_ok (s((i, t) \<mapsto> (n + 1, parent)))"
    unfolding parents_ok_def
  proof (intro allI impI)
    fix a u j p
    assume a: "(s((i, t) \<mapsto> (n + 1, parent))) (a, u) = Some (j, p)" "(a, u) \<noteq> (2, [])"
    show "a < j \<and> (\<exists>q. (s((i, t) \<mapsto> (n + 1, parent))) p = Some (a, q))"
    proof (cases "(a, u) = (i, t)")
      case True
      with a assms(2,3) i show ?thesis by auto
    next
      case False
      with a have "s (a, u) = Some (j, p)" by (auto split: if_splits)
      with old(3) a(2) obtain q where "a < j" "s p = Some (a, q)" unfolding parents_ok_def by blast
      with assms(3) show ?thesis by auto
    qed
  qed
  ultimately show ?thesis using assms(1) i by (auto simp: skeleton_ok_def)
qed

lemma tree_insert:
  assumes "sm_tree m" and "sm_map m parent = Some pe" and "sm_map m (pe_id pe, t) = None"
    and "pe_id e = sm_next_node_id m + 1" and "pe_parent e = parent"
  shows "sm_tree (set_node (pe_id pe, t) e (m\<lparr>sm_next_node_id := sm_next_node_id m + 1\<rparr>))"
proof -
  have "skeleton (set_node (pe_id pe, t) e (m\<lparr>sm_next_node_id := sm_next_node_id m + 1\<rparr>)) =
      (skeleton m)((pe_id pe, t) \<mapsto> (sm_next_node_id m + 1, parent))"
    using assms(4,5) by (auto simp: skeleton_def fun_eq_iff)
  with assms skeleton_ok_insert [of "sm_next_node_id m" "skeleton m" parent "pe_id pe" "pe_parent pe" t] show ?thesis
    by (simp add: sm_tree_def skeleton_of skeleton_None)
qed

text \<open>A leaf that is removed.\<close>

lemma skeleton_ok_remove:
  assumes "skeleton_ok n s" and "s k = Some (i, q)" and "k \<noteq> (2, [])" and "\<forall>t. s (i, t) = None"
  shows "skeleton_ok n (s(k := None))"
proof -
  from assms(1) have old: "ids_ok n s" "ids_unique s" "parents_ok s" by (simp_all add: skeleton_ok_def)
  have "ids_ok n (s(k := None))" using old(1) by (auto simp: ids_ok_def)
  moreover have "ids_unique (s(k := None))" using old(2) by (auto simp: ids_unique_def)
  moreover have "parents_ok (s(k := None))"
    unfolding parents_ok_def
  proof (intro allI impI)
    fix a u j p
    assume a: "(s(k := None)) (a, u) = Some (j, p)" "(a, u) \<noteq> (2, [])"
    then have au: "s (a, u) = Some (j, p)" by (auto split: if_splits)
    with old(3) a(2) obtain q' where q: "a < j" "s p = Some (a, q')" unfolding parents_ok_def by blast
    with au assms(2,4) have "p \<noteq> k" by auto
    with q show "a < j \<and> (\<exists>q. (s(k := None)) p = Some (a, q))" by auto
  qed
  ultimately show ?thesis using assms(1,3) by (auto simp: skeleton_ok_def)
qed

lemma tree_remove:
  assumes "sm_tree m" and "sm_map m k = Some e" and "k \<noteq> (2, [])" and "\<forall>t. sm_map m (pe_id e, t) = None"
  shows "sm_tree (m\<lparr>sm_map := (sm_map m)(k := None)\<rparr>)"
proof -
  have "skeleton (m\<lparr>sm_map := (sm_map m)(k := None)\<rparr>) = (skeleton m)(k := None)" by (auto simp: skeleton_def fun_eq_iff)
  with assms skeleton_ok_remove [of "sm_next_node_id m" "skeleton m" k "pe_id e" "pe_parent e"] show ?thesis
    by (simp add: sm_tree_def skeleton_of skeleton_None)
qed

lemma tree_fresh:
  assumes "sm_tree m" shows "sm_map m (sm_next_node_id m + 1, t) = None"
proof (rule ccontr)
  assume "sm_map m (sm_next_node_id m + 1, t) \<noteq> None"
  then obtain x where x: "sm_map m (sm_next_node_id m + 1, t) = Some x" by auto
  have "(sm_next_node_id m + 1, t) \<noteq> (2, [])" using assms by (auto simp: sm_tree_def skeleton_ok_def)
  with tree_parent [OF assms x] obtain pe where "sm_map m (pe_parent x) = Some pe" "pe_id pe = sm_next_node_id m + 1" by blast
  with tree_id [OF assms] show False by fastforce
qed

text \<open>The paths after a leaf was added or removed.\<close>

lemma root_path_insert:
  assumes tree: "sm_tree m" and parent: "sm_map m parent = Some pe" and none: "sm_map m (pe_id pe, t) = None"
    and e: "pe_id e = sm_next_node_id m + 1" and p: "root_path m p = Some parent"
    and m': "m' = set_node (pe_id pe, t) e (m\<lparr>sm_next_node_id := sm_next_node_id m + 1\<rparr>)"
  shows "root_path m' q = (if q = p @ [t] then Some (pe_id pe, t) else root_path m q)"
proof (induction q rule: rev_induct)
  case (snoc u q)
  let ?k = "(pe_id pe, t)"
  show ?case
  proof (cases "q = p @ [t]")
    case True
    have "root_path m (p @ [t]) = None" using p parent none by (simp add: node_at_snoc child_def skeleton_def)
    with True have "root_path m (q @ [u]) = None" using node_at_snoc [of m "(2, [])" "p @ [t]" u] by simp
    moreover have "child m' ?k u = None"
      using tree_fresh [OF tree, of u] e tree_id [OF tree parent] by (auto simp: m' child_def skeleton_def)
    moreover from True snoc.IH have "root_path m' (q @ [u]) = child m' ?k u" using node_at_snoc [of m' "(2, [])" q u] by simp
    ultimately show ?thesis using True by simp
  next
    case False
    then have q: "root_path m' q = root_path m q" by (simp add: snoc.IH)
    show ?thesis
    proof (cases "root_path m q")
      case None
      with p have "q \<noteq> p" by auto
      with None q show ?thesis by (simp add: node_at_snoc)
    next
      case (Some k')
      then obtain x where x: "sm_map m k' = Some x" using root_path_dom [OF tree] by blast
      with none have "k' \<noteq> ?k" by auto
      have "pe_id x = pe_id pe \<longleftrightarrow> q = p"
        using tree_unique [OF tree x parent] Some p root_path_inj [OF tree, of q parent p] x parent by auto
      with x \<open>k' \<noteq> ?k\<close> have "child m' k' u = (if q = p \<and> u = t then Some ?k else child m k' u)"
        by (auto simp: child_def m' skeleton_def)
      with Some q show ?thesis by (simp add: node_at_snoc)
    qed
  qed
qed simp

lemma root_path_remove:
  assumes tree: "sm_tree m" and k: "sm_map m k = Some e" and "k \<noteq> (2, [])" and leaf: "\<forall>t. sm_map m (pe_id e, t) = None"
    and m': "m' = m\<lparr>sm_map := (sm_map m)(k := None)\<rparr>"
  shows "root_path m' q = (if root_path m q = Some k then None else root_path m q)"
proof (induction q rule: rev_induct)
  case (snoc u q)
  show ?case
  proof (cases "root_path m q")
    case (Some k')
    then obtain x where x: "sm_map m k' = Some x" using root_path_dom [OF tree] by blast
    show ?thesis
    proof (cases "k' = k")
      case True
      with k leaf have "child m k' u = None" by (auto simp: child_def skeleton_def)
      with Some True snoc.IH show ?thesis by (simp add: node_at_snoc)
    next
      case False
      with x have "child m' k' u = (if child m k' u = Some k then None else child m k' u)"
        by (auto simp: child_def m' skeleton_def)
      with Some False snoc.IH show ?thesis by (simp add: node_at_snoc)
    qed
  qed (use snoc.IH in \<open>simp add: node_at_snoc\<close>)
qed (use assms(3) in auto)

subsection \<open>The lookup of a filter\<close>

text \<open>\<open>path_keys\<close>: the keys of the nodes along a path.\<close>

fun path_keys :: "'v subscription_map \<Rightarrow> node_key \<Rightarrow> bytes list \<Rightarrow> node_key list" where
  "path_keys m k [] = []"
| "path_keys m k (t # ts) = (case child m k t of None \<Rightarrow> [] | Some k' \<Rightarrow> k' # path_keys m k' ts)"

lemma path_keys_last: "node_at m k p = Some k' \<Longrightarrow> p \<noteq> [] \<Longrightarrow> path_keys m k p \<noteq> [] \<and> last (path_keys m k p) = k'"
proof (induction p arbitrary: k)
  case (Cons t p)
  then obtain k1 where k1: "child m k t = Some k1" "node_at m k1 p = Some k'" by (auto simp: bind_eq_Some_conv)
  with Cons.IH [OF k1(2)] show ?case by (cases "p = []") simp_all
qed simp

lemma find_level_run:
  assumes "sm_map m k = Some e" and "ts \<noteq> []"
  shows "fst (snd (run_tokens (find_level m) ts (path, pe_id e))) =
    (if node_at m k ts = None then [] else path @ path_keys m k ts)"
  using assms
proof (induction ts arbitrary: k e path)
  case (Cons t ts)
  show ?case
  proof (cases "sm_map m (pe_id e, t)")
    case None
    with Cons.prems show ?thesis by (simp add: find_level_def child_def skeleton_def)
  next
    case (Some e')
    then have child: "child m k t = Some (pe_id e, t)" using Cons.prems by (simp add: child_def skeleton_def)
    show ?thesis
    proof (cases "ts = []")
      case True
      with Some child show ?thesis by (simp add: find_level_def)
    next
      case False
      have "find_level m t (path, pe_id e) = (True, path @ [(pe_id e, t)], pe_id e')" using Some by (simp add: find_level_def)
      with Cons.IH [OF Some False, of "path @ [(pe_id e, t)]"] child False show ?thesis
        by (simp add: case_prod_beta)
    qed
  qed
qed simp

lemma find_topic_filter_eq:
  assumes "sm_tree m"
  shows "find_topic_filter tf m = (if root_path m (tokens tf) = None then [] else path_keys m (2, []) (tokens tf))"
proof -
  from tree_root [OF assms] tree_root_key [OF assms] obtain e where "sm_map m (2, []) = Some e" "get_root m = e"
    by (auto simp: get_root_def)
  with find_level_run [of m "(2, [])" e "tokens tf" "[]"] show ?thesis
    by (simp add: find_topic_filter_def topic_filter_tokenizer_tokens)
qed

lemma find_topic_filter_last:
  assumes "sm_tree m" and "root_path m (tokens tf) = Some k"
  shows "find_topic_filter tf m \<noteq> []" "last (find_topic_filter tf m) = k"
  using assms find_topic_filter_eq [OF assms(1), of tf] path_keys_last [OF assms(2)] by auto

lemma find_topic_filter_Nil: "sm_tree m \<Longrightarrow> find_topic_filter tf m = [] \<longleftrightarrow> root_path m (tokens tf) = None"
  using find_topic_filter_last(1) [of m tf] by (cases "root_path m (tokens tf)") (auto simp: find_topic_filter_eq)

end
