(* ===== verification/Subscription_Inv.thy ===== *)
theory Subscription_Inv
  imports Subscription_Tree
begin

text \<open>
  The subscription map with several values per filter implements a map from filters and keys to
  values: the counts and flags of its nodes stay exact, insertion and removal change the content of
  one filter, and the callbacks are the subscriptions of the filters that match a topic.
\<close>

subsection \<open>Counts and flags\<close>

definition own :: "('k \<Rightarrow> 'w option) path_entry \<Rightarrow> nat" where
  "own e = card (dom (pe_value e))"

definition cnt :: "'v subscription_map \<Rightarrow> node_key \<Rightarrow> nat" where
  "cnt m k = (case sm_map m k of None \<Rightarrow> 0 | Some e \<Rightarrow> pe_count e)"

definition below :: "'v subscription_map \<Rightarrow> nat \<Rightarrow> nat" where
  "below m i = (\<Sum>t \<in> {t. sm_map m (i, t) \<noteq> None}. cnt m (i, t))"

text \<open>
  The count of a node is the number of subscriptions at it and below it. \<open>X\<close> and \<open>Y\<close> are the identifiers
  of nodes whose count is one too large or one too small while an operation is under way; \<open>tot\<close> is the
  count of the root, which the code keeps as the size of the map.
\<close>

abbreviation counted :: "nat set \<Rightarrow> nat set \<Rightarrow> ('k, 'w) multiple_map \<Rightarrow> ('k \<Rightarrow> 'w option) path_entry \<Rightarrow> bool" where
  "counted X Y m e \<equiv>
     pe_count e + of_bool (pe_id e \<in> Y) = own e + below m (pe_id e) + of_bool (pe_id e \<in> X) \<and>
     0 < pe_count e \<and> finite (dom (pe_value e))"

definition counts_ok :: "nat set \<Rightarrow> nat set \<Rightarrow> nat \<Rightarrow> ('k, 'w) multiple_map \<Rightarrow> bool" where
  "counts_ok X Y tot m \<longleftrightarrow>
     tot + of_bool (1 \<in> Y) = below m 1 + of_bool (1 \<in> X) \<and>
     (\<forall>k e. sm_map m k = Some e \<longrightarrow> k \<noteq> (2, []) \<longrightarrow>
        counted X Y m e)"

text \<open>A flag tells that the child exists; \<open>P\<close> and \<open>H\<close>: the flags of node \<open>x\<close> are still to be cleared.\<close>

definition flags_ok :: "bool \<Rightarrow> bool \<Rightarrow> nat \<Rightarrow> 'v subscription_map \<Rightarrow> bool" where
  "flags_ok P H x m \<longleftrightarrow>
     (P \<longrightarrow> sm_map m (x, plus_level) = None) \<and> (H \<longrightarrow> sm_map m (x, hash_level) = None) \<and>
     (\<forall>k e. sm_map m k = Some e \<longrightarrow>
        (pe_plus e \<longleftrightarrow> sm_map m (pe_id e, plus_level) \<noteq> None \<or> P \<and> pe_id e = x) \<and>
        (pe_hash e \<longleftrightarrow> sm_map m (pe_id e, hash_level) \<noteq> None \<or> H \<and> pe_id e = x))"

definition sm_ok :: "('k, 'w) multiple_map \<Rightarrow> bool" where
  "sm_ok m \<longleftrightarrow> sm_tree m \<and> flags_ok False False 0 m \<and> counts_ok {} {} (sm_size m) m"

definition content :: "('k, 'w) multiple_map \<Rightarrow> bytes list \<Rightarrow> 'k \<Rightarrow> 'w option" where
  "content m p = (case root_path m p of None \<Rightarrow> (\<lambda>_. None) | Some k \<Rightarrow> node_value m k)"

lemma finite_children: "finite (dom (sm_map m)) \<Longrightarrow> finite {t. sm_map m (i, t) \<noteq> None}"
proof (rule finite_subset [of _ "snd ` dom (sm_map m)"])
  show "{t. sm_map m (i, t) \<noteq> None} \<subseteq> snd ` dom (sm_map m)"
  proof
    fix t assume "t \<in> {t. sm_map m (i, t) \<noteq> None}"
    then show "t \<in> snd ` dom (sm_map m)" by (intro image_eqI [of _ _ "(i, t)"]) auto
  qed
qed simp

lemma below_other: "(\<And>t. sm_map m' (j, t) = sm_map m (j, t)) \<Longrightarrow> below m' j = below m j"
  by (simp add: below_def cnt_def)

lemma below_insert:
  assumes "finite (dom (sm_map m))" and "sm_map m (i, t) = None"
  shows "below (set_node (i, t) e m) j = below m j + of_bool (j = i) * pe_count e"
proof (cases "j = i")
  case True
  let ?C = "{t. sm_map m (i, t) \<noteq> None}" and ?f = "\<lambda>u. cnt (set_node (i, t) e m) (i, u)"
  have C: "{u. sm_map (set_node (i, t) e m) (i, u) \<noteq> None} = insert t ?C" by (auto split: if_splits)
  have t: "t \<notin> ?C" using assms(2) by simp
  have "sum ?f (insert t ?C) = ?f t + sum ?f ?C"
    by (rule sum.insert [OF finite_children [OF assms(1)] t])
  moreover have "sum ?f ?C = below m i"
    unfolding below_def by (rule sum.cong) (use t in \<open>auto simp: cnt_def\<close>)
  moreover have "?f t = pe_count e" by (simp add: cnt_def)
  moreover have "below (set_node (i, t) e m) i = sum ?f (insert t ?C)" by (simp only: below_def C)
  ultimately show ?thesis using True by simp
next
  case False
  then have "below (set_node (i, t) e m) j = below m j" by (intro below_other) simp
  with False show ?thesis by simp
qed

abbreviation del_node :: "node_key \<Rightarrow> 'v subscription_map \<Rightarrow> 'v subscription_map" where
  "del_node k m \<equiv> m\<lparr>sm_map := (sm_map m)(k := None)\<rparr>"

lemma set_del_node: "set_node k e (del_node k m) = set_node k e m"
  by simp

lemma set_node_same: "sm_map m k = Some e \<Longrightarrow> set_node k e m = m"
  by (cases m) (auto simp: fun_eq_iff)

lemma below_remove:
  assumes "finite (dom (sm_map m))" and "sm_map m (i, t) = Some e"
  shows "below (del_node (i, t) m) j + of_bool (j = i) * pe_count e = below m j"
proof -
  have "finite (dom (sm_map (del_node (i, t) m)))" using assms(1) by simp
  from below_insert [OF this, of i t e j] assms(2) show ?thesis by (simp add: set_del_node set_node_same)
qed

lemma below_update:
  assumes "finite (dom (sm_map m))" and "sm_map m (i, t) = Some e"
  shows "below (set_node (i, t) e' m) j + of_bool (j = i) * pe_count e = below m j + of_bool (j = i) * pe_count e'"
proof -
  have "finite (dom (sm_map (del_node (i, t) m)))" using assms(1) by simp
  from below_insert [OF this, of i t e' j] below_remove [OF assms, of j] show ?thesis by (simp add: set_del_node)
qed

subsection \<open>One level further down\<close>

lemma counts_node:
  "counts_ok X Y tot m \<Longrightarrow> sm_map m k = Some e \<Longrightarrow> k \<noteq> (2, []) \<Longrightarrow>
     counted X Y m e"
  unfolding counts_ok_def by blast

lemma not_root_key: "sm_tree m \<Longrightarrow> sm_map m k = Some e \<Longrightarrow> (pe_id e, t) \<noteq> (2, [])"
  using tree_id by fastforce

lemma root_id_key: "sm_tree m \<Longrightarrow> sm_map m k = Some e \<Longrightarrow> pe_id e = 1 \<longleftrightarrow> k = (2, [])"
  using tree_root [of m] tree_unique [of m k e "(2, [])"] by auto

text \<open>To prove \<open>counts_ok\<close> after a change at one key.\<close>

lemma counts_okI:
  assumes "tot + of_bool (1 \<in> Y) = below m' 1 + of_bool (1 \<in> X)"
    and "\<And>e. sm_map m' h = Some e \<Longrightarrow> h \<noteq> (2, []) \<Longrightarrow>
      counted X Y m' e"
    and "\<And>k e. k \<noteq> h \<Longrightarrow> sm_map m' k = Some e \<Longrightarrow> k \<noteq> (2, []) \<Longrightarrow>
      counted X Y m' e"
  shows "counts_ok X Y tot m'"
  using assms unfolding counts_ok_def by metis

lemma counts_total: "counts_ok X Y tot m \<Longrightarrow> tot + of_bool (1 \<in> Y) = below m 1 + of_bool (1 \<in> X)"
  by (simp add: counts_ok_def)

lemma counts_down:
  assumes tree: "sm_tree m" and counts: "counts_ok {pe_id pe} Y tot m" and parent: "sm_map m parent = Some pe"
    and child: "sm_map m (pe_id pe, t) = Some e" and Y: "pe_id pe \<notin> Y"
    and e': "pe_id e' = pe_id e" "pe_count e' = pe_count e + 1" "pe_value e' = pe_value e"
  shows "counts_ok {pe_id e} Y tot (set_node (pe_id pe, t) e' m)"
proof (rule counts_okI [where h = "(pe_id pe, t)"])
  let ?m = "set_node (pe_id pe, t) e' m"
  have below: "below ?m j = below m j + of_bool (j = pe_id pe)" for j
    using below_update [OF tree_finite [OF tree] child, of e' j] by (simp add: e' split: if_splits)
  note root = not_root_key [OF tree parent, of t]
  have less: "pe_id pe \<noteq> pe_id e" using tree_parent [OF tree child root] by simp
  have "pe_id e \<noteq> 1" using root_id_key [OF tree child] root by simp
  then show "tot + of_bool (1 \<in> Y) = below ?m 1 + of_bool (1 \<in> {pe_id e})"
    using counts_total [OF counts] by (auto simp: below)
  fix x assume "sm_map ?m (pe_id pe, t) = Some x"
  then have "x = e'" by simp
  with counts_node [OF counts child root] less
  show "counted {pe_id e} Y ?m x"
    by (simp add: below e' own_def)
next
  let ?m = "set_node (pe_id pe, t) e' m"
  have below: "below ?m j = below m j + of_bool (j = pe_id pe)" for j
    using below_update [OF tree_finite [OF tree] child, of e' j] by (simp add: e' split: if_splits)
  fix k x assume k: "k \<noteq> (pe_id pe, t)" "sm_map ?m k = Some x" "k \<noteq> (2, [])"
  then have x: "sm_map m k = Some x" by simp
  with k tree_unique [OF tree x child] have "pe_id x \<noteq> pe_id e" by auto
  with counts_node [OF counts x k(3)] Y
  show "counted {pe_id e} Y ?m x"
    by (auto simp: below)
qed

lemma fresh_below: "sm_tree m \<Longrightarrow> below m (sm_next_node_id m + 1) = 0"
  using tree_fresh [of m] by (simp add: below_def)

lemma counts_new:
  assumes tree: "sm_tree m" and counts: "counts_ok {pe_id pe} Y tot m" and parent: "sm_map m parent = Some pe"
    and none: "sm_map m (pe_id pe, t) = None" and Y: "pe_id pe \<notin> Y" "sm_next_node_id m + 1 \<notin> Y"
    and e: "pe_id e = sm_next_node_id m + 1" "pe_count e = 1" "pe_value e = (\<lambda>_. None)"
  shows "counts_ok {pe_id e} Y tot (set_node (pe_id pe, t) e m)"
proof (rule counts_okI [where h = "(pe_id pe, t)"])
  let ?m = "set_node (pe_id pe, t) e m"
  have below: "below ?m j = below m j + of_bool (j = pe_id pe)" for j
    using below_insert [OF tree_finite [OF tree] none, of e j] by (simp add: e split: if_splits)
  have ids: "pe_id pe \<noteq> sm_next_node_id m + 1" "sm_next_node_id m + 1 \<noteq> 1"
    using tree_id [OF tree parent] tree by (auto simp: sm_tree_def skeleton_ok_def)
  then show "tot + of_bool (1 \<in> Y) = below ?m 1 + of_bool (1 \<in> {pe_id e})"
    using counts_total [OF counts] by (auto simp: below e)
  fix x assume "sm_map ?m (pe_id pe, t) = Some x"
  then have "x = e" by simp
  with ids Y fresh_below [OF tree]
  show "counted {pe_id e} Y ?m x"
    by (simp add: below e own_def)
next
  let ?m = "set_node (pe_id pe, t) e m"
  have below: "below ?m j = below m j + of_bool (j = pe_id pe)" for j
    using below_insert [OF tree_finite [OF tree] none, of e j] by (simp add: e split: if_splits)
  fix k x assume k: "k \<noteq> (pe_id pe, t)" "sm_map ?m k = Some x" "k \<noteq> (2, [])"
  then have x: "sm_map m k = Some x" by simp
  with tree_id [OF tree x] have "pe_id x \<noteq> pe_id e" by (simp add: e)
  with counts_node [OF counts x k(3)] Y
  show "counted {pe_id e} Y ?m x"
    by (auto simp: below)
qed

text \<open>A node updated in place without a change of its count.\<close>

lemma below_same:
  assumes "sm_tree m" and "sm_map m h = Some e" and "pe_count e' = pe_count e"
  shows "below (set_node h e' m) j = below m j"
  using below_update [OF tree_finite [OF assms(1)], of "fst h" "snd h" e e' j] assms by simp

lemma counts_update:
  assumes tree: "sm_tree m" and counts: "counts_ok X Y tot m" and h: "sm_map m h = Some e" "h \<noteq> (2, [])"
    and e': "pe_id e' = pe_id e" "pe_count e' = pe_count e" "finite (dom (pe_value e')) \<longleftrightarrow> finite (dom (pe_value e))"
    and own: "own e' + of_bool (pe_id e \<in> X') + of_bool (pe_id e \<in> Y) = own e + of_bool (pe_id e \<in> X) + of_bool (pe_id e \<in> Y')"
    and same: "\<And>i. i \<noteq> pe_id e \<Longrightarrow> (i \<in> X' \<longleftrightarrow> i \<in> X) \<and> (i \<in> Y' \<longleftrightarrow> i \<in> Y)"
  shows "counts_ok X' Y' tot (set_node h e' m)"
proof (rule counts_okI [where h = h])
  note below = below_same [OF tree h(1) e'(2)]
  have "pe_id e \<noteq> 1" using root_id_key [OF tree h(1)] h(2) by simp
  with same [of 1] show "tot + of_bool (1 \<in> Y') = below (set_node h e' m) 1 + of_bool (1 \<in> X')"
    using counts_total [OF counts] by (auto simp: below)
  fix x assume "sm_map (set_node h e' m) h = Some x"
  then have "x = e'" by simp
  moreover have "pe_count e + of_bool (pe_id e \<in> Y') = own e' + below m (pe_id e) + of_bool (pe_id e \<in> X')"
    using counts_node [OF counts h, THEN conjunct1] own by linarith
  ultimately
  show "counted X' Y' (set_node h e' m) x"
    using counts_node [OF counts h] unfolding below by (simp only: e')
next
  note below = below_same [OF tree h(1) e'(2)]
  fix k x assume k: "k \<noteq> h" "sm_map (set_node h e' m) k = Some x" "k \<noteq> (2, [])"
  then have x: "sm_map m k = Some x" by simp
  with k tree_unique [OF tree x h(1)] have "pe_id x \<noteq> pe_id e" by auto
  with counts_node [OF counts x k(3)] same [of "pe_id x"]
  show "counted X' Y' (set_node h e' m) x"
    unfolding below by simp
qed

lemma counts_root_update:
  assumes tree: "sm_tree m" and counts: "counts_ok X Y tot m" and h: "sm_map m (2, []) = Some e" and e': "pe_count e' = pe_count e"
  shows "counts_ok X Y tot (set_node (2, []) e' m)"
  unfolding counts_ok_def below_same [OF tree h e']
proof (intro conjI [OF counts_total [OF counts]] allI impI)
  fix k x assume k: "sm_map (set_node (2, []) e' m) k = Some x" "k \<noteq> (2, [])"
  then have "sm_map m k = Some x" by simp
  from counts_node [OF counts this k(2)]
  show "counted X Y m x" .
qed

lemma counts_flags:
  assumes "sm_tree m" and "counts_ok X Y tot m" and "sm_map m h = Some e"
    and "pe_id e' = pe_id e" "pe_count e' = pe_count e" "pe_value e' = pe_value e"
  shows "counts_ok X Y tot (set_node h e' m)"
proof (cases "h = (2, [])")
  case True
  with assms counts_root_update show ?thesis by blast
next
  case False
  with assms show ?thesis by (intro counts_update [OF assms(1-3)]) (simp_all add: own_def)
qed

text \<open>Flags.\<close>

lemma flags_node:
  "flags_ok P H x m \<Longrightarrow> sm_map m k = Some e \<Longrightarrow>
     (pe_plus e \<longleftrightarrow> sm_map m (pe_id e, plus_level) \<noteq> None \<or> P \<and> pe_id e = x) \<and>
     (pe_hash e \<longleftrightarrow> sm_map m (pe_id e, hash_level) \<noteq> None \<or> H \<and> pe_id e = x)"
  unfolding flags_ok_def by blast

lemma flags_okI:
  assumes "P \<Longrightarrow> sm_map m (x, plus_level) = None" and "H \<Longrightarrow> sm_map m (x, hash_level) = None"
    and "\<And>k e. sm_map m k = Some e \<Longrightarrow>
      (pe_plus e \<longleftrightarrow> sm_map m (pe_id e, plus_level) \<noteq> None \<or> P \<and> pe_id e = x) \<and>
      (pe_hash e \<longleftrightarrow> sm_map m (pe_id e, hash_level) \<noteq> None \<or> H \<and> pe_id e = x)"
  shows "flags_ok P H x m"
  using assms unfolding flags_ok_def by blast

lemma set_node_None: "sm_map m h = Some e \<Longrightarrow> sm_map (set_node h e' m) k = None \<longleftrightarrow> sm_map m k = None"
  by auto

lemma flags_update:
  assumes "flags_ok P H x m" and "sm_map m h = Some e" and "pe_id e' = pe_id e" "pe_plus e' = pe_plus e" "pe_hash e' = pe_hash e"
  shows "flags_ok P H x (set_node h e' m)"
proof (rule flags_okI)
  fix k y assume y: "sm_map (set_node h e' m) k = Some y"
  have "\<exists>z. sm_map m k = Some z \<and> pe_id z = pe_id y \<and> pe_plus z = pe_plus y \<and> pe_hash z = pe_hash y"
    using assms(2-5) y by (cases "k = h") auto
  then obtain z where z: "sm_map m k = Some z" "pe_id z = pe_id y" "pe_plus z = pe_plus y" "pe_hash z = pe_hash y" by blast
  from flags_node [OF assms(1) z(1)] z(2-4)
  show "(pe_plus y \<longleftrightarrow> sm_map (set_node h e' m) (pe_id y, plus_level) \<noteq> None \<or> P \<and> pe_id y = x) \<and>
      (pe_hash y \<longleftrightarrow> sm_map (set_node h e' m) (pe_id y, hash_level) \<noteq> None \<or> H \<and> pe_id y = x)"
    unfolding set_node_None [OF assms(2)] by simp
qed (use assms(1,2) in \<open>auto simp: flags_ok_def\<close>)

end
