(* ===== verification/Subscription_Ops.thy ===== *)
theory Subscription_Ops
  imports Subscription_Inv
begin

text \<open>
  The operations of the subscription map with several values per filter: each keeps the invariant
  of \<^verbatim>\<open>Subscription_Inv\<close> and changes the content of one filter only.
\<close>

subsection \<open>Creating the nodes of a filter\<close>

text \<open>\<open>mid\<close>: the invariant with one count out of step.\<close>

definition mid :: "nat set \<Rightarrow> nat set \<Rightarrow> nat \<Rightarrow> ('k, 'w) multiple_map \<Rightarrow> bool" where
  "mid X Y tot m \<longleftrightarrow> sm_tree m \<and> flags_ok False False 0 m \<and> counts_ok X Y tot m"

lemma mid_tree [elim]: "mid X Y tot m \<Longrightarrow> sm_tree m" and mid_flags [elim]: "mid X Y tot m \<Longrightarrow> flags_ok False False 0 m"
  and mid_counts [elim]: "mid X Y tot m \<Longrightarrow> counts_ok X Y tot m"
  by (simp_all add: mid_def)

lemma counts_cong: "sm_map m' = sm_map m \<Longrightarrow> counts_ok X Y tot m' \<longleftrightarrow> counts_ok X Y tot m"
  by (simp add: counts_ok_def below_def cnt_def)

lemma flags_new:
  assumes tree: "sm_tree m" and flags: "flags_ok False False 0 m" and parent: "sm_map m parent = Some pe" and none: "sm_map m (pe_id pe, t) = None"
    and e: "pe_id e = sm_next_node_id m + 1" "\<not> pe_plus e" "\<not> pe_hash e"
    and m': "sm_map m' = (sm_map m)((pe_id pe, t) \<mapsto> e, parent \<mapsto> pe\<lparr>pe_plus := pe_plus pe \<or> t = plus_level, pe_hash := pe_hash pe \<or> t = hash_level\<rparr>)"
  shows "flags_ok False False 0 m'"
proof (rule flags_okI)
  fix k x assume x: "sm_map m' k = Some x"
  have ne: "parent \<noteq> (pe_id pe, t)" using parent none by auto
  have id: "pe_id pe \<noteq> sm_next_node_id m + 1" using tree_id [OF tree parent] by auto
  have dom: "sm_map m' j = None \<longleftrightarrow> sm_map m j = None \<and> j \<noteq> (pe_id pe, t)" for j using parent by (auto simp: m')
  consider (new) "k = (pe_id pe, t)" | (parent) "k = parent" | (other) "sm_map m k = Some x" "k \<noteq> parent"
    using x by (auto simp: m' split: if_splits)
  then have "(pe_plus x \<longleftrightarrow> sm_map m' (pe_id x, plus_level) \<noteq> None) \<and> (pe_hash x \<longleftrightarrow> sm_map m' (pe_id x, hash_level) \<noteq> None)"
  proof cases
    case new
    then have "x = e" using x ne by (auto simp: m')
    with tree_fresh [OF tree] id show ?thesis by (auto simp: dom e)
  next
    case parent
    with x flags_node [OF flags assms(3)] show ?thesis by (auto simp: dom) (auto simp: m')
  next
    case other
    with tree_unique [OF tree other(1) assms(3)] have "pe_id x \<noteq> pe_id pe" by auto
    with flags_node [OF flags other(1)] show ?thesis by (auto simp: dom)
  qed
  then show "(pe_plus x \<longleftrightarrow> sm_map m' (pe_id x, plus_level) \<noteq> None \<or> False \<and> pe_id x = 0) \<and>
      (pe_hash x \<longleftrightarrow> sm_map m' (pe_id x, hash_level) \<noteq> None \<or> False \<and> pe_id x = 0)" by simp
qed simp_all

text \<open>What stays: the paths that exist and the values.\<close>

definition extends_map :: "('k, 'w) multiple_map \<Rightarrow> ('k, 'w) multiple_map \<Rightarrow> bool" where
  "extends_map m m' \<longleftrightarrow>
     content m' = content m \<and> sm_size m' = sm_size m \<and> (\<forall>q h. root_path m q = Some h \<longrightarrow> root_path m' q = Some h)"

lemma content_at: "root_path m p = Some k \<Longrightarrow> content m p = node_value m k"
  by (simp add: content_def)

lemma content_None: "root_path m p = None \<Longrightarrow> content m p = (\<lambda>_. None)"
  by (simp add: content_def)

lemma extends_update:
  assumes "sm_map m k = Some e" "pe_id e' = pe_id e" "pe_parent e' = pe_parent e" "pe_value e' = pe_value e"
  shows "extends_map m (set_node k e' m)"
  using node_at_update [OF assms(1-3)] assms(1,4) by (auto simp: extends_map_def content_def fun_eq_iff split: option.split)

lemma extends_trans: "extends_map m1 m2 \<Longrightarrow> extends_map m2 m3 \<Longrightarrow> extends_map m1 m3"
  by (auto simp: extends_map_def)

lemma extends_new:
  assumes tree: "sm_tree m" and parent: "sm_map m parent = Some pe" and none: "sm_map m (pe_id pe, t) = None"
    and e: "pe_id e = sm_next_node_id m + 1" "pe_value e = (\<lambda>_. None)" and p: "root_path m p = Some parent"
    and m': "m' = set_node (pe_id pe, t) e (m\<lparr>sm_next_node_id := sm_next_node_id m + 1\<rparr>)"
  shows "extends_map m m'"
proof -
  note path = root_path_insert [OF tree parent none e(1) p m']
  have p': "root_path m (p @ [t]) = None" using p parent none by (simp add: node_at_snoc child_def skeleton_def)
  have "content m' q = content m q" for q
  proof (cases "root_path m q")
    case None
    then show ?thesis by (simp add: content_def path e(2)) (simp add: m' e(2))
  next
    case (Some k)
    moreover from this p' have "q \<noteq> p @ [t]" by auto
    moreover have "k \<noteq> (pe_id pe, t)" using Some root_path_dom [OF tree Some] none by auto
    ultimately show ?thesis by (simp add: content_def path) (simp add: m')
  qed
  with p' show ?thesis by (auto simp: extends_map_def path) (simp add: m')
qed

text \<open>One level: the count that is out of step moves from the parent to the child.\<close>

definition level_done :: "('k, 'w) multiple_map \<Rightarrow> nat set \<Rightarrow> nat \<Rightarrow> bytes list \<Rightarrow> node_key \<Rightarrow> ('k, 'w) multiple_map \<Rightarrow> bool" where
  "level_done m Y tot p k m' \<longleftrightarrow>
     extends_map m m' \<and> root_path m' p = Some k \<and> (\<exists>e. sm_map m' k = Some e \<and> mid {pe_id e} Y tot m')"

lemma create_new:
  assumes mid: "mid {pe_id pe} {} tot m" and parent: "sm_map m parent = Some pe" and p: "root_path m p = Some parent"
    and none: "sm_map m (pe_id pe, t) = None" and m1: "m1 = m\<lparr>sm_next_node_id := sm_next_node_id m + 1\<rparr>"
    and e: "e = new_path_entry (\<lambda>_. None) (sm_next_node_id m + 1) parent"
    and m': "m' = set_node parent (pe\<lparr>pe_plus := pe_plus pe \<or> t = plus_level, pe_hash := pe_hash pe \<or> t = hash_level\<rparr>) (set_node (pe_id pe, t) e m1)"
  shows "level_done m {} tot (p @ [t]) (pe_id pe, t) m'"
proof -
  define m2 where "m2 = set_node (pe_id pe, t) e m1"
  let ?pe = "pe\<lparr>pe_plus := pe_plus pe \<or> t = plus_level, pe_hash := pe_hash pe \<or> t = hash_level\<rparr>"
  note tree = mid_tree [OF mid]
  have ne: "parent \<noteq> (pe_id pe, t)" using parent none by auto
  have ids: "pe_id e = sm_next_node_id m + 1" "pe_parent e = parent" "pe_count e = 1" "pe_value e = (\<lambda>_. None)" "\<not> pe_plus e" "\<not> pe_hash e"
    by (simp_all add: e new_path_entry_def)
  have parent2: "sm_map m2 parent = Some pe" using parent ne by (simp add: m2_def m1)
  have m'2: "m' = set_node parent ?pe m2" by (simp add: m' m2_def)
  have tree2: "sm_tree m2" unfolding m2_def m1 by (rule tree_insert [OF tree parent none]) (simp_all add: ids)
  have counts2: "counts_ok {pe_id e} {} tot m2"
    using counts_new [OF tree mid_counts [OF mid] parent none _ _ ids(1,3,4)] by (rule iffD1 [OF counts_cong, rotated]) (simp_all add: m2_def m1)
  have "extends_map m m2" by (rule extends_new [OF tree parent none _ _ p]) (simp_all add: ids m2_def m1)
  moreover have "extends_map m2 m'" unfolding m'2 by (rule extends_update [OF parent2]) simp_all
  moreover have "root_path m2 (p @ [t]) = Some (pe_id pe, t)"
    using root_path_insert [OF tree parent none _ p, of e m2] by (simp add: ids m2_def m1)
  moreover from this have "root_path m' (p @ [t]) = Some (pe_id pe, t)" unfolding m'2 by (subst node_at_update [OF parent2]) simp_all
  moreover have "sm_map m' (pe_id pe, t) = Some e" using ne by (simp add: m'2 m2_def)
  moreover have "sm_tree m'" unfolding m'2 by (rule tree_update [OF tree2 parent2]) simp_all
  moreover have "counts_ok {pe_id e} {} tot m'" unfolding m'2 by (rule counts_flags [OF tree2 counts2 parent2]) simp_all
  moreover have "flags_ok False False 0 m'"
    using flags_new [OF tree mid_flags [OF mid] parent none ids(1,5,6)] by (simp add: m' m1)
  ultimately show ?thesis unfolding level_done_def mid_def by (blast intro: extends_trans)
qed

lemma step_down:
  assumes mid: "mid {pe_id pe} Y tot m" and parent: "sm_map m parent = Some pe" and p: "root_path m p = Some parent"
    and Y: "pe_id pe \<notin> Y"
    and child: "sm_map m (pe_id pe, t) = Some e" and m': "m' = set_node (pe_id pe, t) (e\<lparr>pe_count := pe_count e + 1\<rparr>) m"
  shows "level_done m Y tot (p @ [t]) (pe_id pe, t) m'"
proof -
  note tree = mid_tree [OF mid]
  have "extends_map m m'" unfolding m' by (rule extends_update [OF child]) simp_all
  moreover have "root_path m (p @ [t]) = Some (pe_id pe, t)" using p parent child by (simp add: node_at_snoc child_Some)
  moreover have "sm_tree m'" unfolding m' by (rule tree_update [OF tree child]) simp_all
  moreover have "flags_ok False False 0 m'" unfolding m' by (rule flags_update [OF mid_flags [OF mid] child]) simp_all
  moreover have "counts_ok {pe_id e} Y tot m'"
    unfolding m' by (rule counts_down [OF tree mid_counts [OF mid] parent child Y]) simp_all
  ultimately show ?thesis by (auto simp: level_done_def mid_def extends_map_def m')
qed

text \<open>A count is at most the count of the parent, so no count overflows while the size of the map does not.\<close>

definition small :: "nat \<Rightarrow> node_key \<Rightarrow> ('k, 'w) multiple_map \<Rightarrow> bool" where
  "small tot k m \<longleftrightarrow> k = (2, []) \<or> cnt m k \<le> tot"

lemma cnt_below: "finite (dom (sm_map m)) \<Longrightarrow> sm_map m (i, t) = Some e \<Longrightarrow> pe_count e \<le> below m i"
  using member_le_sum [of t "{t. sm_map m (i, t) \<noteq> None}" "\<lambda>t. cnt m (i, t)"] finite_children [of m i]
  by (simp add: below_def cnt_def)

lemma count_child:
  assumes mid: "mid {pe_id pe} Y tot m" and parent: "sm_map m parent = Some pe" and Y: "pe_id pe \<notin> Y"
    and child: "sm_map m (pe_id pe, t) = Some e" and small: "small tot parent m"
  shows "pe_count e < tot"
proof (cases "parent = (2, [])")
  case True
  with tree_root [OF mid_tree [OF mid]] parent have "pe_id pe = 1" by auto
  with counts_total [OF mid_counts [OF mid]] Y cnt_below [OF tree_finite [OF mid_tree [OF mid]] child] show ?thesis by simp
next
  case False
  from counts_node [OF mid_counts [OF mid] parent this] Y have "below m (pe_id pe) < pe_count pe" by simp
  with False small parent cnt_below [OF tree_finite [OF mid_tree [OF mid]] child] show ?thesis by (simp add: small_def cnt_def)
qed

lemma create_level_step:
  assumes mid: "mid {pe_id pe} {} tot m" and parent: "sm_map m parent = Some pe" and p: "root_path m p = Some parent"
    and small: "small tot parent m" and tot: "0 < tot" "tot \<le> count_max" and ids: "sm_next_node_id m < size_max"
  shows "\<exists>m'. create_level (\<lambda>_. None) t (m, parent, res) = Inr (m', (pe_id pe, t), res @ [(pe_id pe, t)]) \<and>
    level_done m {} tot (p @ [t]) (pe_id pe, t) m' \<and> small tot (pe_id pe, t) m' \<and> sm_next_node_id m' \<le> sm_next_node_id m + 1"
proof (cases "sm_map m (pe_id pe, t)")
  case None
  then have ne: "parent \<noteq> (pe_id pe, t)" using parent by auto
  from create_new [OF mid parent p None refl refl refl] parent None ids tot ne show ?thesis
    by (simp add: create_level_def generate_node_id_def small_def cnt_def Let_def) (simp add: new_path_entry_def)
next
  case (Some e)
  with count_child [OF mid parent _ Some small] have "pe_count e < tot" by simp
  with step_down [OF mid parent p _ Some refl] parent Some tot show ?thesis
    by (simp add: create_level_def increase_count_storage_def small_def cnt_def Let_def)
qed

lemma level_done_trans:
  "level_done m Y tot p k m1 \<Longrightarrow> level_done m1 Y tot q h m2 \<Longrightarrow> level_done m Y tot q h m2"
  by (auto simp: level_done_def dest: extends_trans)

lemma throwing_Inr: "throwing f t (Inr s) = (case f t s of Inl x \<Rightarrow> (False, Inl x) | Inr s' \<Rightarrow> (True, Inr s'))"
  by (simp add: throwing_def)

lemma create_run:
  assumes "ts \<noteq> []" and "mid {pe_id pe} {} tot m" and "sm_map m parent = Some pe" and "root_path m p = Some parent"
    and "small tot parent m" and tot: "0 < tot" "tot \<le> count_max" and "sm_next_node_id m + length ts \<le> size_max"
  shows "\<exists>m' k ks. snd (run_tokens (throwing (create_level (\<lambda>_. None))) ts (Inr (m, parent, res))) = Inr (m', k, res @ ks) \<and>
    ks \<noteq> [] \<and> last ks = k \<and> level_done m {} tot (p @ ts) k m'"
  using assms(1-5,8)
proof (induction ts arbitrary: m parent pe p res)
  case (Cons t ts)
  from Cons.prems have "sm_next_node_id m < size_max" by simp
  from create_level_step [OF Cons.prems(2-5) tot this, of t res] obtain m1 where
    m1: "create_level (\<lambda>_. None) t (m, parent, res) = Inr (m1, (pe_id pe, t), res @ [(pe_id pe, t)])"
      "level_done m {} tot (p @ [t]) (pe_id pe, t) m1" "small tot (pe_id pe, t) m1" "sm_next_node_id m1 \<le> sm_next_node_id m + 1" by blast
  show ?case
  proof (cases "ts = []")
    case True
    with m1 show ?thesis by (simp add: throwing_def)
  next
    case False
    from m1(2) obtain e where e: "mid {pe_id e} {} tot m1" "sm_map m1 (pe_id pe, t) = Some e" "root_path m1 (p @ [t]) = Some (pe_id pe, t)"
      by (auto simp: level_done_def)
    have "sm_next_node_id m1 + length ts \<le> size_max" using m1(4) Cons.prems(6) by simp
    from Cons.IH [OF False e(1,2,3) m1(3) this, of "res @ [(pe_id pe, t)]"] obtain m' k ks where
      "snd (run_tokens (throwing (create_level (\<lambda>_. None))) ts (Inr (m1, (pe_id pe, t), res @ [(pe_id pe, t)]))) =
        Inr (m', k, (res @ [(pe_id pe, t)]) @ ks)" "ks \<noteq> []" "last ks = k" "level_done m1 {} tot ((p @ [t]) @ ts) k m'" by blast
    with m1(1) level_done_trans [OF m1(2)] False show ?thesis
      by (intro exI [of _ m'] exI [of _ k] exI [of _ "(pe_id pe, t) # ks"]) (simp add: throwing_Inr case_prod_beta)
  qed
qed simp

lemma mid_root:
  assumes "mid {} Y tot m" and "1 \<notin> Y" shows "mid {1} Y (tot + 1) m"
proof -
  have "counts_ok {1} Y (tot + 1) m"
    unfolding counts_ok_def
  proof (intro conjI allI impI)
    fix k e assume k: "sm_map m k = Some e" "k \<noteq> (2, [])"
    with root_id_key [OF mid_tree [OF assms(1)] k(1)] have "pe_id e \<noteq> 1" by simp
    with counts_node [OF mid_counts [OF assms(1)] k]
    show "pe_count e + of_bool (pe_id e \<in> Y) = own e + below m (pe_id e) + of_bool (pe_id e \<in> {1})" "0 < pe_count e" "finite (dom (pe_value e))"
      by simp_all
  qed (use assms(2) counts_total [OF mid_counts [OF assms(1)]] in simp)
  with assms(1) show ?thesis by (simp add: mid_def)
qed

lemma create_topic_filter_ok:
  assumes ok: "sm_ok m" and room: "sm_size m < count_max" "sm_next_node_id m + length (tokens tf) \<le> size_max"
  shows "\<exists>m' ks. create_topic_filter (\<lambda>_. None) tf m = Inr (m', ks) \<and> level_done m {} (sm_size m + 1) (tokens tf) (last ks) m'"
proof -
  from ok have tree: "sm_tree m" and flags: "flags_ok False False 0 m" and counts: "counts_ok {} {} (sm_size m) m" by (simp_all add: sm_ok_def)
  from tree_root [OF tree] obtain e where e: "sm_map m (2, []) = Some e" "pe_id e = 1" by blast
  have "mid {pe_id e} {} (sm_size m + 1) m" using mid_root [of "{}" "sm_size m" m] e ok by (simp add: mid_def sm_ok_def)
  from create_run [OF tokens_nonempty this e(1) _ _ _ _ room(2), of "[]" "[]"] room(1) show ?thesis
    by (auto simp: create_topic_filter_def topic_filter_tokenizer_tokens tree_root_key [OF tree] small_def)
qed

subsection \<open>Counting one more subscription along a path\<close>

lemma path_keys_snoc:
  "node_at m k (p @ [t]) = Some h \<Longrightarrow> path_keys m k (p @ [t]) = path_keys m k p @ [h]"
proof (induction p arbitrary: k)
  case (Cons u p)
  then show ?case by (auto simp: bind_eq_Some_conv split: option.split)
qed (auto simp: bind_eq_Some_conv)

lemma path_keys_cong:
  assumes "skeleton m' = skeleton m" shows "path_keys m' k p = path_keys m k p"
  by (induction p arbitrary: k) (simp_all add: child_cong [OF assms] split: option.split)

lemma increase_node_ok:
  "sm_map m k = Some e \<Longrightarrow> pe_count e < count_max \<Longrightarrow> increase_node k m = Inr (set_node k (e\<lparr>pe_count := pe_count e + 1\<rparr>) m)"
  by (simp add: increase_node_def increase_count_storage_def)

text \<open>The root of a walk is an inner node, and its identifier is not the one of the node whose subscription is added.\<close>

lemma increase_run:
  assumes "node_at m parent ts = Some h" and "mid {pe_id pe} {i} tot m" and "sm_map m parent = Some pe" and "root_path m p = Some parent"
    and "small tot parent m" and "sm_map m h = Some eh" "pe_id eh = i" and tot: "tot \<le> count_max"
  shows "\<exists>m'. increase_subscriptions (path_keys m parent ts) m = Inr m' \<and> level_done m {i} tot (p @ ts) h m' \<and> skeleton m' = skeleton m"
  using assms(1-7)
proof (induction ts arbitrary: m parent pe p eh)
  case Nil
  then show ?case by (auto simp: level_done_def extends_map_def)
next
  case (Cons t ts)
  note tree = mid_tree [OF Cons.prems(2)]
  from Cons.prems(1,3) obtain e where e: "child m parent t = Some (pe_id pe, t)" "sm_map m (pe_id pe, t) = Some e" "node_at m (pe_id pe, t) ts = Some h"
    by (auto simp: bind_eq_Some_conv child_Some)
  have "root_path m (p @ t # ts) = Some h" using Cons.prems(1,4) by (simp add: node_at_append)
  with Cons.prems(4) root_path_inj [OF tree, of p h "p @ t # ts"] have "parent \<noteq> h" by auto
  with tree_unique [OF tree Cons.prems(3,6)] Cons.prems(7) have i: "pe_id pe \<notin> {i}" by auto
  from count_child [OF Cons.prems(2,3) i e(2) Cons.prems(5)] have less: "pe_count e < tot" .
  define m1 where "m1 = set_node (pe_id pe, t) (e\<lparr>pe_count := pe_count e + 1\<rparr>) m"
  have skel: "skeleton m1 = skeleton m" unfolding m1_def by (rule skeleton_update [OF e(2)]) simp_all
  from step_down [OF Cons.prems(2-4) i e(2) m1_def] have step: "level_done m {i} tot (p @ [t]) (pe_id pe, t) m1" .
  then obtain e1 where e1: "mid {pe_id e1} {i} tot m1" "sm_map m1 (pe_id pe, t) = Some e1" "root_path m1 (p @ [t]) = Some (pe_id pe, t)"
    by (auto simp: level_done_def)
  have sm: "small tot (pe_id pe, t) m1" using less by (simp add: small_def cnt_def m1_def)
  have at: "node_at m1 (pe_id pe, t) ts = Some h" using e(3) by (simp add: node_at_cong [OF skel])
  obtain eh1 where eh1: "sm_map m1 h = Some eh1" "pe_id eh1 = i"
    using Cons.prems(6,7) e(2) by (cases "h = (pe_id pe, t)") (auto simp: m1_def)
  from Cons.IH [OF at e1 sm eh1] obtain m' where
    "increase_subscriptions (path_keys m1 (pe_id pe, t) ts) m1 = Inr m'" "level_done m1 {i} tot ((p @ [t]) @ ts) h m'"
      "skeleton m' = skeleton m1" by blast
  moreover have "increase_node (pe_id pe, t) m = Inr m1" unfolding m1_def using less tot by (intro increase_node_ok [OF e(2)]) simp
  ultimately show ?case using e(1) level_done_trans [OF step, of "p @ t # ts" h m'] by (simp add: path_keys_cong [OF skel] skel)
qed

lemma counts_cancel: "counts_ok X X tot m \<longleftrightarrow> counts_ok {} {} tot m"
  by (simp add: counts_ok_def)

subsection \<open>Insertion\<close>

text \<open>What an insertion or a removal does with the content: one filter gets another value.\<close>

lemma content_set_value:
  assumes tree: "sm_tree m" and h: "root_path m p = Some h"
  shows "content (set_value h v m) = (content m)(p := v)"
proof
  fix q
  obtain e where e: "sm_map m h = Some e" using root_path_dom [OF tree h] by auto
  let ?m = "set_node h (e\<lparr>pe_value := v\<rparr>) m"
  have path: "root_path ?m q = root_path m q" by (rule node_at_update [OF e]) simp_all
  show "content (set_value h v m) q = ((content m)(p := v)) q"
  proof (cases "root_path m q = Some h")
    case True
    with h root_path_inj [OF tree] have "q = p" by blast
    with True e show ?thesis using path by (simp add: content_def)
  next
    case False
    with h have "q \<noteq> p" by auto
    with False path show ?thesis by (simp add: content_def e split: option.split)
  qed
qed

lemma root_path_not_root:
  assumes "sm_tree m" "root_path m p = Some h" "p \<noteq> []" shows "h \<noteq> (2, [])"
  using root_path_inj [OF assms(1), of p h "[]"] assms(2,3) by auto

lemma own_insert: "finite (dom (pe_value e)) \<Longrightarrow> pe_value e k = None \<Longrightarrow> own (e\<lparr>pe_value := (pe_value e)(k \<mapsto> v)\<rparr>) = own e + 1"
  by (simp add: own_def card_insert_if domIff)

lemma own_assign: "pe_value e k \<noteq> None \<Longrightarrow> own (e\<lparr>pe_value := (pe_value e)(k \<mapsto> v)\<rparr>) = own e"
  by (simp add: own_def insert_absorb domIff)

lemma own_delete: "finite (dom (pe_value e)) \<Longrightarrow> pe_value e k \<noteq> None \<Longrightarrow> own (e\<lparr>pe_value := (pe_value e)(k := None)\<rparr>) + 1 = own e"
  using card_Suc_Diff1 [of "dom (pe_value e)" k] by (simp add: own_def domIff)

text \<open>A new value of a node; the count of the node follows later or was raised before.\<close>

lemma set_value_mid:
  assumes mid: "mid X Y tot m" and h: "root_path m p = Some h" "p \<noteq> []" and e: "sm_map m h = Some e"
    and fin: "finite (dom v) \<longleftrightarrow> finite (dom (pe_value e))"
    and own: "own (e\<lparr>pe_value := v\<rparr>) + of_bool (pe_id e \<in> X') + of_bool (pe_id e \<in> Y) = own e + of_bool (pe_id e \<in> X) + of_bool (pe_id e \<in> Y')"
    and same: "\<And>i. i \<noteq> pe_id e \<Longrightarrow> (i \<in> X' \<longleftrightarrow> i \<in> X) \<and> (i \<in> Y' \<longleftrightarrow> i \<in> Y)"
  shows "mid X' Y' tot (set_value h v m)"
proof -
  note tree = mid_tree [OF mid]
  have "counts_ok X' Y' tot (set_node h (e\<lparr>pe_value := v\<rparr>) m)"
    by (rule counts_update [OF tree mid_counts [OF mid] e root_path_not_root [OF tree h]]) (use fin own same in simp_all)
  moreover have "sm_tree (set_node h (e\<lparr>pe_value := v\<rparr>) m)" by (rule tree_update [OF tree e]) simp_all
  moreover have "flags_ok False False 0 (set_node h (e\<lparr>pe_value := v\<rparr>) m)" by (rule flags_update [OF mid_flags [OF mid] e]) simp_all
  ultimately show ?thesis by (simp add: mid_def e)
qed

lemma sm_ok_mid: "sm_ok m \<longleftrightarrow> mid {} {} (sm_size m) m"
  by (simp add: sm_ok_def mid_def)

lemma mid_size: "mid X Y tot (m\<lparr>sm_size := n\<rparr>) \<longleftrightarrow> mid X Y tot m"
proof -
  have "skeleton (m\<lparr>sm_size := n\<rparr>) = skeleton m" by (simp add: skeleton_def fun_eq_iff)
  then show ?thesis using counts_cong [of "m\<lparr>sm_size := n\<rparr>" m] by (simp add: mid_def sm_tree_def flags_ok_def)
qed

lemma node_at_size: "node_at (m\<lparr>sm_size := n\<rparr>) k p = node_at m k p"
  by (rule node_at_cong) (simp add: skeleton_def fun_eq_iff)

lemma content_size: "content (m\<lparr>sm_size := n\<rparr>) = content m"
  by (simp add: content_def node_at_size fun_eq_iff split: option.split)

lemma set_value_size: "sm_size (set_value h v m) = sm_size m"
  by simp

text \<open>\<open>stored\<close>: the outcome of an insertion for the abstract content.\<close>

definition stored :: "bytes list \<Rightarrow> 'k \<Rightarrow> 'w \<Rightarrow> ('k, 'w) multiple_map \<Rightarrow> node_key \<times> bool \<Rightarrow> ('k, 'w) multiple_map \<Rightarrow> bool" where
  "stored p key val m hb m' \<longleftrightarrow>
     sm_ok m' \<and> content m' = (content m)(p := (content m p)(key \<mapsto> val)) \<and>
     root_path m' p = Some (fst hb) \<and> (snd hb \<longleftrightarrow> content m p key = None) \<and> sm_size m' = sm_size m + of_bool (snd hb) \<and>
     (\<forall>q h. root_path m q = Some h \<longrightarrow> root_path m' q = Some h)"

lemma root_path_set_value: "sm_tree m \<Longrightarrow> root_path m p = Some h \<Longrightarrow> root_path (set_value h v m) q = root_path m q"
  using root_path_dom [of m p h] by (auto intro: node_at_update)

lemma mid_finite: "mid X Y tot m \<Longrightarrow> sm_map m h = Some e \<Longrightarrow> h \<noteq> (2, []) \<Longrightarrow> finite (dom (pe_value e))"
  using counts_node [OF mid_counts] by blast

lemma finite_dom_update: "finite (dom (f(k \<mapsto> v))) \<longleftrightarrow> finite (dom f)" "finite (dom (f(k := None))) \<longleftrightarrow> finite (dom f)"
  by simp_all

lemma count_max_less: "n < count_max \<Longrightarrow> n \<noteq> size_max"
  by (simp add: count_max_def size_max_def)

lemma store_new:
  assumes ok: "sm_ok m" and h: "root_path m p = Some h" "p \<noteq> []" and new: "node_value m h key = None" and room: "sm_size m < count_max"
  shows "\<exists>m2. increase_subscriptions (path_keys m (2, []) p) (set_value h ((node_value m h)(key \<mapsto> val)) m) = Inr m2 \<and>
    sm_size m2 = sm_size m \<and> stored p key val m (h, True) (m2\<lparr>sm_size := sm_size m + 1\<rparr>)"
proof -
  from ok have mid: "mid {} {} (sm_size m) m" by (simp add: sm_ok_mid)
  note tree = mid_tree [OF mid]
  obtain e where e: "sm_map m h = Some e" using root_path_dom [OF tree h(1)] by auto
  let ?v = "(pe_value e)(key \<mapsto> val)"
  define m1 where "m1 = set_value h ?v m"
  note notroot = root_path_not_root [OF tree h]
  have "mid {} {pe_id e} (sm_size m) m1"
    unfolding m1_def
    by (rule set_value_mid [OF mid h e]) (use own_insert [OF mid_finite [OF mid e notroot]] new e in \<open>simp_all add: finite_dom_update\<close>)
  then have mid1: "mid {1} {pe_id e} (sm_size m + 1) m1" using mid_root root_id_key [OF tree e] notroot by fastforce
  have path: "root_path m1 q = root_path m q" for q unfolding m1_def by (rule root_path_set_value [OF tree h(1)])
  have skel: "skeleton m1 = skeleton m" unfolding m1_def e option.sel by (rule skeleton_update [OF e]) simp_all
  obtain re where re: "sm_map m1 (2, []) = Some re" "pe_id re = 1" using tree_root [OF mid_tree [OF mid1]] by blast
  have eh: "sm_map m1 h = Some (e\<lparr>pe_value := ?v\<rparr>)" by (simp add: m1_def e)
  have "\<exists>m2. increase_subscriptions (path_keys m1 (2, []) p) m1 = Inr m2 \<and> level_done m1 {pe_id e} (sm_size m + 1) ([] @ p) h m2 \<and> skeleton m2 = skeleton m1"
    by (rule increase_run [OF _ _ re(1) _ _ eh]) (use h path mid1 re room in \<open>simp_all add: small_def\<close>)
  then obtain m2 where m2: "increase_subscriptions (path_keys m1 (2, []) p) m1 = Inr m2" "level_done m1 {pe_id e} (sm_size m + 1) p h m2"
    "skeleton m2 = skeleton m1" by auto
  then obtain e2 where e2: "extends_map m1 m2" "root_path m2 p = Some h" "sm_map m2 h = Some e2" "mid {pe_id e2} {pe_id e} (sm_size m + 1) m2"
    by (auto simp: level_done_def)
  have "pe_id e2 = pe_id e" using fun_cong [OF m2(3), of h] skel skeleton_of [OF e2(3)] skeleton_of [OF e] by simp
  with e2(4) have mid2: "mid {} {} (sm_size m + 1) m2" unfolding mid_def using counts_cancel by metis
  have "content m1 = (content m)(p := ?v)" unfolding m1_def by (rule content_set_value [OF tree h(1)])
  moreover have "content m p = pe_value e" using h e by (simp add: content_def)
  ultimately have "stored p key val m (h, True) (m2\<lparr>sm_size := sm_size m + 1\<rparr>)"
    using e2(1,2) mid2 new e by (simp add: stored_def sm_ok_mid mid_size content_size node_at_size extends_map_def path)
  with m2(1) e2(1) show ?thesis by (simp add: m1_def e path_keys_cong [OF skel [unfolded m1_def e option.sel]] extends_map_def)
qed

lemma store_again:
  assumes ok: "sm_ok m" and h: "root_path m p = Some h" "p \<noteq> []" and old: "node_value m h key \<noteq> None"
  shows "stored p key val m (h, False) (set_value h ((node_value m h)(key \<mapsto> val)) m)"
proof -
  from ok have mid: "mid {} {} (sm_size m) m" by (simp add: sm_ok_mid)
  note tree = mid_tree [OF mid]
  obtain e where e: "sm_map m h = Some e" using root_path_dom [OF tree h(1)] by auto
  have "mid {} {} (sm_size m) (set_value h ((pe_value e)(key \<mapsto> val)) m)"
    by (rule set_value_mid [OF mid h e]) (use own_assign old e in \<open>simp_all add: finite_dom_update\<close>)
  with content_set_value [OF tree h(1)] root_path_set_value [OF tree h(1)] content_at [OF h(1)] e old h(1) show ?thesis
    by (simp add: stored_def sm_ok_mid)
qed

lemma store_created:
  assumes "level_done m {} (sm_size m + 1) p h m1" and "root_path m p = None" and "p \<noteq> []"
  shows "stored p key val m (h, True) ((set_value h ((node_value m1 h)(key \<mapsto> val)) m1)\<lparr>sm_size := sm_size m + 1\<rparr>)"
proof -
  from assms(1) obtain e where e: "extends_map m m1" "root_path m1 p = Some h" "sm_map m1 h = Some e" "mid {pe_id e} {} (sm_size m + 1) m1"
    by (auto simp: level_done_def)
  note tree = mid_tree [OF e(4)]
  have empty: "content m p = (\<lambda>_. None)" by (rule content_None [OF assms(2)])
  then have v: "pe_value e = (\<lambda>_. None)" using e(1-3) content_at [OF e(2)] by (simp add: extends_map_def)
  have "mid {} {} (sm_size m + 1) (set_value h ((pe_value e)(key \<mapsto> val)) m1)"
    by (rule set_value_mid [OF e(4) e(2) assms(3) e(3)]) (use v in \<open>simp_all add: own_def\<close>)
  with content_set_value [OF tree e(2)] root_path_set_value [OF tree e(2)] e empty v show ?thesis
    by (simp add: stored_def sm_ok_mid mid_size content_size node_at_size extends_map_def)
qed

lemma insert_or_assign_ok:
  assumes ok: "sm_ok m" and room: "sm_size m < count_max" "sm_next_node_id m + length (tokens tf) \<le> size_max"
  shows "\<exists>hb m'. insert_or_assign tf key val m = Inr (hb, m') \<and> stored (tokens tf) key val m hb m'"
proof -
  have tree: "sm_tree m" using ok by (simp add: sm_ok_def)
  show ?thesis
  proof (cases "root_path m (tokens tf)")
    case None
    from create_topic_filter_ok [OF ok room] obtain m1 ks where
      "create_topic_filter (\<lambda>_. None) tf m = Inr (m1, ks)" "level_done m {} (sm_size m + 1) (tokens tf) (last ks) m1" by blast
    with store_created [of m "tokens tf" "last ks" m1 key val] None count_max_less [OF room(1)] find_topic_filter_Nil [OF tree, of tf]
    show ?thesis
      by (intro exI [of _ "(last ks, True)"] exI conjI)
         (simp_all add: insert_or_assign_def increase_map_size_def Let_def level_done_def extends_map_def)
  next
    case (Some h)
    note find = find_topic_filter_last [OF tree Some]
    have keys: "find_topic_filter tf m = path_keys m (2, []) (tokens tf)" using Some by (simp add: find_topic_filter_eq [OF tree])
    show ?thesis
    proof (cases "node_value m h key")
      case None
      from store_new [OF ok Some tokens_nonempty None room(1), of val] obtain m2 where
        "increase_subscriptions (find_topic_filter tf m) (set_value h ((node_value m h)(key \<mapsto> val)) m) = Inr m2" "sm_size m2 = sm_size m"
        "stored (tokens tf) key val m (h, True) (m2\<lparr>sm_size := sm_size m + 1\<rparr>)" unfolding keys by blast
      with find None count_max_less [OF room(1)] show ?thesis
        by (intro exI [of _ "(h, True)"] exI conjI) (simp_all add: insert_or_assign_def increase_map_size_def Let_def)
    next
      case (Some w)
      with store_again [OF ok \<open>root_path m (tokens tf) = Some h\<close> tokens_nonempty, of key val] find show ?thesis
        by (intro exI [of _ "(h, False)"] exI conjI) (simp_all add: insert_or_assign_def Let_def)
    qed
  qed
qed

end
