(* ===== verification/Subscription_Erase.thy ===== *)
theory Subscription_Erase
  imports Subscription_Ops
begin

text \<open>
  Removal of a subscription: the counts along the path go down by one, nodes whose count reaches
  zero leave the map, and the wildcard flags of their parents are cleared.
\<close>

subsection \<open>One level further up\<close>

lemma counts_lower:
  assumes tree: "sm_tree m" and counts: "counts_ok {pe_id e} {} tot m" and k: "sm_map m (i, t) = Some e" "(i, t) \<noteq> (2, [])"
    and e': "pe_id e' = pe_id e" "pe_count e' + 1 = pe_count e" "pe_value e' = pe_value e" "0 < pe_count e'"
  shows "counts_ok {i} {} tot (set_node (i, t) e' m)"
proof -
  let ?m = "set_node (i, t) e' m"
  have below: "below ?m j + of_bool (j = i) = below m j" for j
    using below_update [OF tree_finite [OF tree] k(1), of e' j] e'(2) by (cases "j = i") simp_all
  have i: "i < pe_id e" using tree_parent [OF tree k] by blast
  have "pe_id e \<noteq> 1" using root_id_key [OF tree k(1)] k(2) by simp
  show ?thesis
  proof (rule counts_okI [where h = "(i, t)"])
    show "tot + of_bool (1 \<in> {}) = below ?m 1 + of_bool (1 \<in> {i})"
      using counts_total [OF counts] below [of 1] \<open>pe_id e \<noteq> 1\<close> by (simp split: if_splits)
  next
    fix x assume "sm_map ?m (i, t) = Some x"
    then have "x = e'" by simp
    with counts_node [OF counts k] e' i below [of "pe_id e"] show "counted {i} {} ?m x" by (simp add: own_def)
  next
    fix k' x assume k': "k' \<noteq> (i, t)" "sm_map ?m k' = Some x" "k' \<noteq> (2, [])"
    then have x: "sm_map m k' = Some x" by simp
    with k' tree_unique [OF tree x k(1)] have "pe_id x \<noteq> pe_id e" by auto
    with counts_node [OF counts x k'(3)] below [of "pe_id x"] show "counted {i} {} ?m x" by (auto split: if_splits)
  qed
qed

text \<open>A node whose last subscription goes has no child and no value.\<close>

lemma count_one:
  assumes tree: "sm_tree m" and counts: "counts_ok {pe_id e} {} tot m" and k: "sm_map m k = Some e" "k \<noteq> (2, [])" and one: "pe_count e = 1"
  shows "pe_value e = (\<lambda>_. None)" "sm_map m (pe_id e, t) = None"
proof -
  from counts_node [OF counts k] one have z: "own e = 0" "below m (pe_id e) = 0" "finite (dom (pe_value e))" by simp_all
  then show "pe_value e = (\<lambda>_. None)" by (simp add: own_def) 
  show "sm_map m (pe_id e, t) = None"
  proof (cases "sm_map m (pe_id e, t)")
    case (Some c)
    with z(2) cnt_below [OF tree_finite [OF tree] Some] have "pe_count c = 0" by simp
    moreover have "0 < pe_count c" using counts_node [OF counts Some not_root_key [OF tree k(1)]] by blast
    ultimately show ?thesis by simp
  qed
qed

lemma counts_remove:
  assumes tree: "sm_tree m" and counts: "counts_ok {pe_id e} {} tot m" and k: "sm_map m (i, t) = Some e" "(i, t) \<noteq> (2, [])"
    and one: "pe_count e = 1"
  shows "counts_ok {i} {} tot (del_node (i, t) m)"
proof -
  let ?m = "del_node (i, t) m"
  have below: "below ?m j + of_bool (j = i) = below m j" for j
    using below_remove [OF tree_finite [OF tree] k(1), of j] one by simp
  have "pe_id e \<noteq> 1" using root_id_key [OF tree k(1)] k(2) by simp
  show ?thesis
  proof (rule counts_okI [where h = "(i, t)"])
    show "tot + of_bool (1 \<in> {}) = below ?m 1 + of_bool (1 \<in> {i})"
      using counts_total [OF counts] below [of 1] \<open>pe_id e \<noteq> 1\<close> by (simp split: if_splits)
  next
    fix k' x assume k': "k' \<noteq> (i, t)" "sm_map ?m k' = Some x" "k' \<noteq> (2, [])"
    then have x: "sm_map m k' = Some x" by simp
    with k' tree_unique [OF tree x k(1)] have "pe_id x \<noteq> pe_id e" by auto
    with counts_node [OF counts x k'(3)] below [of "pe_id x"] show "counted {i} {} ?m x" by (auto split: if_splits)
  qed simp
qed

text \<open>The pending flags of a node.\<close>

abbreviation clear_flags :: "bool \<Rightarrow> bool \<Rightarrow> 'v path_entry \<Rightarrow> 'v path_entry" where
  "clear_flags P H e \<equiv> (let e = (if P then e\<lparr>pe_plus := False\<rparr> else e) in if H then e\<lparr>pe_hash := False\<rparr> else e)"

lemma clear_flags_simps [simp]:
  "pe_id (clear_flags P H e) = pe_id e" "pe_parent (clear_flags P H e) = pe_parent e" "pe_count (clear_flags P H e) = pe_count e"
  "pe_value (clear_flags P H e) = pe_value e" "pe_plus (clear_flags P H e) \<longleftrightarrow> pe_plus e \<and> \<not> P" "pe_hash (clear_flags P H e) \<longleftrightarrow> pe_hash e \<and> \<not> H"
  by (simp_all add: Let_def)

lemma flags_cleared:
  assumes tree: "sm_tree m" and flags: "flags_ok P H (pe_id e) m" and k: "sm_map m k = Some e"
    and e': "pe_id e' = pe_id e" "pe_plus e' \<longleftrightarrow> pe_plus e \<and> \<not> P" "pe_hash e' \<longleftrightarrow> pe_hash e \<and> \<not> H"
  shows "flags_ok False False x (set_node k e' m)"
proof (rule flags_okI)
  fix k' y assume y: "sm_map (set_node k e' m) k' = Some y"
  have "(pe_plus y \<longleftrightarrow> sm_map m (pe_id y, plus_level) \<noteq> None) \<and> (pe_hash y \<longleftrightarrow> sm_map m (pe_id y, hash_level) \<noteq> None)"
  proof (cases "k' = k")
    case True
    with y have "y = e'" by simp
    with flags_node [OF flags k] flags e' show ?thesis by (auto simp: flags_ok_def)
  next
    case False
    with y have y: "sm_map m k' = Some y" by simp
    with False tree_unique [OF tree y k] flags_node [OF flags y] show ?thesis by auto
  qed
  then show "(pe_plus y \<longleftrightarrow> sm_map (set_node k e' m) (pe_id y, plus_level) \<noteq> None \<or> False \<and> pe_id y = x) \<and>
      (pe_hash y \<longleftrightarrow> sm_map (set_node k e' m) (pe_id y, hash_level) \<noteq> None \<or> False \<and> pe_id y = x)"
    unfolding set_node_None [OF k] by simp
qed simp_all

lemma flags_remove:
  assumes tree: "sm_tree m" and flags: "flags_ok P H (pe_id e) m" and k: "sm_map m (i, t) = Some e"
    and leaf: "\<And>t. sm_map m (pe_id e, t) = None"
  shows "flags_ok (t = plus_level) (t = hash_level) i (del_node (i, t) m)"
proof (rule flags_okI)
  fix k' y assume y: "sm_map (del_node (i, t) m) k' = Some y"
  then have k': "k' \<noteq> (i, t)" "sm_map m k' = Some y" by (auto split: if_splits)
  then have "pe_id y \<noteq> pe_id e" using tree_unique [OF tree k'(2) k] by auto
  with flags_node [OF flags k'(2)] k
  show "(pe_plus y \<longleftrightarrow> sm_map (del_node (i, t) m) (pe_id y, plus_level) \<noteq> None \<or> t = plus_level \<and> pe_id y = i) \<and>
      (pe_hash y \<longleftrightarrow> sm_map (del_node (i, t) m) (pe_id y, hash_level) \<noteq> None \<or> t = hash_level \<and> pe_id y = i)" by auto
qed auto

text \<open>One turn of the loop.\<close>

definition prunes :: "('k, 'w) multiple_map \<Rightarrow> ('k, 'w) multiple_map \<Rightarrow> bool" where
  "prunes m m' \<longleftrightarrow>
     content m' = content m \<and> sm_size m' = sm_size m \<and> (\<forall>q h. root_path m' q = Some h \<longrightarrow> root_path m q = Some h)"

lemma prunes_trans: "prunes m1 m2 \<Longrightarrow> prunes m2 m3 \<Longrightarrow> prunes m1 m3"
  by (auto simp: prunes_def)

lemma prunes_remove:
  assumes tree: "sm_tree m" and k: "sm_map m k = Some e" "k \<noteq> (2, [])" and leaf: "\<forall>t. sm_map m (pe_id e, t) = None"
    and v: "pe_value e = (\<lambda>_. None)"
  shows "prunes m (del_node k m)"
proof -
  note path = root_path_remove [OF tree k leaf refl]
  have "content (del_node k m) q = content m q" for q
    by (cases "root_path m q") (auto simp: content_def path k v)
  then show ?thesis by (auto simp: prunes_def path split: if_splits)
qed

lemma prunes_update:
  assumes "sm_map m k = Some e" "pe_id e' = pe_id e" "pe_parent e' = pe_parent e" "pe_value e' = pe_value e"
  shows "prunes m (set_node k e' m)"
  using extends_update [OF assms] node_at_update [OF assms(1-3)] by (simp add: prunes_def extends_map_def)

definition climbs :: "nat \<Rightarrow> bool \<Rightarrow> bool \<Rightarrow> node_key \<Rightarrow> ('k, 'w) multiple_map \<Rightarrow> bool" where
  "climbs tot P H k m \<longleftrightarrow>
     sm_tree m \<and> (\<exists>e. sm_map m k = Some e \<and> flags_ok P H (pe_id e) m \<and> counts_ok {pe_id e} {} tot m)"

lemma remove_step:
  assumes "climbs tot P H k m" and path: "root_path m (p @ [t]) = Some k" "root_path m p = Some parent"
  shows "\<exists>m' P' H'. remove_loop (k # ks) P H m = remove_loop ks P' H' m' \<and> climbs tot P' H' parent m' \<and> prunes m m' \<and>
    (\<forall>q. q \<noteq> p @ [t] \<longrightarrow> root_path m' q = root_path m q)"
proof -
  from assms(1) obtain e where tree: "sm_tree m" and e: "sm_map m k = Some e" and flags: "flags_ok P H (pe_id e) m"
    and counts: "counts_ok {pe_id e} {} tot m" by (auto simp: climbs_def)
  from path obtain pe where pe: "sm_map m parent = Some pe" "k = (pe_id pe, t)" by (auto simp: node_at_snoc child_Some)
  have root: "k \<noteq> (2, [])" by (rule root_path_not_root [OF tree path(1)]) simp
  have ne: "parent \<noteq> k" using root_path_inj [OF tree path(1), of p] path(2) by auto
  show ?thesis
  proof (cases "pe_count e = 1")
    case True
    note one = count_one [OF tree counts e root True]
    have "climbs tot (t = plus_level) (t = hash_level) parent (del_node k m)"
      using tree_remove [OF tree e root] one(2) flags_remove [OF tree flags, of "pe_id pe" t] counts_remove [OF tree counts, of "pe_id pe" t] e root True pe ne
      by (auto simp: climbs_def)
    moreover have "prunes m (del_node k m)" by (rule prunes_remove [OF tree e root _ one(1)]) (use one(2) in blast)
    moreover have "\<forall>q. q \<noteq> p @ [t] \<longrightarrow> root_path (del_node k m) q = root_path m q"
      using root_path_remove [OF tree e root _ refl] one(2) root_path_inj [OF tree path(1)] by auto
    ultimately show ?thesis using e True pe(2) by (intro exI conjI) (simp_all add: decrease_count_storage_def Let_def)
  next
    case False
    let ?e = "(clear_flags P H e)\<lparr>pe_count := pe_count e - 1\<rparr>"
    have pos: "0 < pe_count e" using counts_node [OF counts e root] by blast
    have "climbs tot False False parent (set_node k ?e m)"
      unfolding climbs_def
    proof (intro conjI exI [of _ pe])
      show "sm_tree (set_node k ?e m)" by (rule tree_update [OF tree e]) simp_all
      show "flags_ok False False (pe_id pe) (set_node k ?e m)" by (rule flags_cleared [OF tree flags e]) simp_all
      show "counts_ok {pe_id pe} {} tot (set_node k ?e m)"
        unfolding pe(2) by (rule counts_lower [OF tree counts]) (use e root pos False pe(2) in simp_all)
    qed (use pe(1) ne in simp)
    moreover have path': "root_path (set_node k ?e m) q = root_path m q" for q by (rule node_at_update [OF e]) simp_all
    moreover have "prunes m (set_node k ?e m)"
      by (rule prunes_update [OF e]) simp_all
    moreover have "remove_loop (k # ks) P H m = remove_loop ks False False (set_node k ?e m)"
      using e pos False by (simp add: decrease_count_storage_def Let_def)
    ultimately show ?thesis by blast
  qed
qed

lemma path_keys_same:
  assumes "\<And>q. length q \<le> n \<Longrightarrow> root_path m' q = root_path m q" and "root_path m r = Some h" and "length r \<le> n"
  shows "path_keys m' (2, []) r = path_keys m (2, []) r"
  using assms(2,3)
proof (induction r arbitrary: h rule: rev_induct)
  case (snoc t r)
  from snoc.prems obtain k where k: "root_path m r = Some k" by (auto simp: node_at_snoc bind_eq_Some_conv)
  have "root_path m' (r @ [t]) = Some h" using assms(1) [of "r @ [t]"] snoc.prems by simp
  with snoc.IH [OF k] snoc.prems show ?case by (simp add: path_keys_snoc)
qed simp

lemma remove_run:
  assumes "climbs tot P H k m" and "root_path m p = Some k"
  shows "\<exists>m' P' H'. remove_loop (rev (path_keys m (2, []) p)) P H m = Inr (P', H', m') \<and> climbs tot P' H' (2, []) m' \<and> prunes m m'"
  using assms
proof (induction p arbitrary: P H k m rule: rev_induct)
  case Nil
  then show ?case by (auto simp: prunes_def)
next
  case (snoc t p)
  from snoc.prems(2) obtain parent where parent: "root_path m p = Some parent" by (auto simp: node_at_snoc bind_eq_Some_conv)
  from remove_step [OF snoc.prems parent, of "rev (path_keys m (2, []) p)"] obtain m1 P1 H1 where
    1: "remove_loop (k # rev (path_keys m (2, []) p)) P H m = remove_loop (rev (path_keys m (2, []) p)) P1 H1 m1"
      "climbs tot P1 H1 parent m1" "prunes m m1" "\<forall>q. q \<noteq> p @ [t] \<longrightarrow> root_path m1 q = root_path m q" by blast
  then have p1: "root_path m1 p = Some parent" using parent by simp
  have keys: "path_keys m1 (2, []) p = path_keys m (2, []) p"
  proof (rule path_keys_same [where n = "length p"])
    fix q :: "bytes list" assume "length q \<le> length p"
    then have "q \<noteq> p @ [t]" by auto
    with 1(4) show "root_path m1 q = root_path m q" by blast
  qed (use parent in simp_all)
  from snoc.IH [OF 1(2) p1] obtain m' P' H' where
    "remove_loop (rev (path_keys m (2, []) p)) P1 H1 m1 = Inr (P', H', m')" "climbs tot P' H' (2, []) m'" "prunes m1 m'"
    unfolding keys by blast
  with 1(1,3) prunes_trans [of m m1 m'] show ?case
    unfolding path_keys_snoc [OF snoc.prems(2)] rev.simps rev_append by (simp del: remove_loop.simps)
qed

lemma climbs_root:
  assumes "climbs tot P H (2, []) m"
  shows "mid {} {} (tot - 1) (set_node (sm_root_key m) (clear_flags P H (get_root m)) m) \<and>
    prunes m (set_node (sm_root_key m) (clear_flags P H (get_root m)) m) \<and> 0 < tot"
proof -
  from assms obtain e where tree: "sm_tree m" and e: "sm_map m (2, []) = Some e" "get_root m = e" and flags: "flags_ok P H (pe_id e) m"
    and counts: "counts_ok {pe_id e} {} tot m" by (auto simp: climbs_def get_root_def tree_root_key)
  let ?m = "set_node (2, []) (clear_flags P H e) m"
  have id: "pe_id e = 1" using root_id_key [OF tree e(1)] by simp
  have tot: "tot = below m 1 + 1" using counts_total [OF counts] id by simp
  have "counts_ok {} {} (tot - 1) m"
    unfolding counts_ok_def
  proof (intro conjI allI impI)
    fix k x assume k: "sm_map m k = Some x" "k \<noteq> (2, [])"
    then have "pe_id x \<noteq> pe_id e" using root_id_key [OF tree k(1)] id by simp
    with counts_node [OF counts k] show "pe_count x + of_bool (pe_id x \<in> {}) = own x + below m (pe_id x) + of_bool (pe_id x \<in> {})"
      "0 < pe_count x" "finite (dom (pe_value x))" by auto
  qed (use tot in simp)
  then have "counts_ok {} {} (tot - 1) ?m" by (rule counts_flags [OF tree _ e(1)]) simp_all
  moreover have "sm_tree ?m" by (rule tree_update [OF tree e(1)]) simp_all
  moreover have "flags_ok False False 0 ?m" by (rule flags_cleared [OF tree flags e(1)]) simp_all
  moreover have "prunes m ?m" by (rule prunes_update [OF e(1)]) simp_all
  moreover have "0 < tot" using tot by simp
  ultimately show ?thesis unfolding mid_def e(2) tree_root_key [OF tree] by blast
qed

text \<open>The whole loop and the root.\<close>

lemma remove_topic_filter_ok:
  assumes "climbs tot False False h m" and "root_path m p = Some h"
  shows "\<exists>m'. remove_topic_filter (path_keys m (2, []) p) m = Inr m' \<and> mid {} {} (tot - 1) m' \<and> prunes m m' \<and> 0 < tot"
proof -
  from remove_run [OF assms] obtain m1 P H where
    "remove_loop (rev (path_keys m (2, []) p)) False False m = Inr (P, H, m1)" "climbs tot P H (2, []) m1" "prunes m m1" by blast
  with climbs_root [of tot P H m1] prunes_trans [of m m1] show ?thesis
    by (auto simp: remove_topic_filter_def Let_def)
qed

subsection \<open>Removal\<close>

definition erased :: "bytes list \<Rightarrow> 'k \<Rightarrow> ('k, 'w) multiple_map \<Rightarrow> nat \<Rightarrow> ('k, 'w) multiple_map \<Rightarrow> bool" where
  "erased p key m n m' \<longleftrightarrow>
     sm_ok m' \<and> content m' = (content m)(p := (content m p)(key := None)) \<and> n = of_bool (content m p key \<noteq> None) \<and>
     sm_size m' + n = sm_size m \<and> (\<forall>q h. root_path m' q = Some h \<longrightarrow> root_path m q = Some h)"

lemma erased_nothing: "sm_ok m \<Longrightarrow> content m p key = None \<Longrightarrow> erased p key m 0 m"
  by (auto simp: erased_def fun_eq_iff)

lemma erase_value:
  assumes ok: "sm_ok m" and h: "root_path m p = Some h" "p \<noteq> []" and old: "node_value m h key \<noteq> None"
  shows "\<exists>m'. remove_topic_filter (path_keys m (2, []) p) ((set_value h ((node_value m h)(key := None)) m)\<lparr>sm_size := n\<rparr>) = Inr m' \<and>
    sm_size m' = n \<and> 0 < sm_size m \<and> erased p key m 1 (m'\<lparr>sm_size := sm_size m - 1\<rparr>)"
proof -
  from ok have mid: "mid {} {} (sm_size m) m" by (simp add: sm_ok_mid)
  note tree = mid_tree [OF mid]
  obtain e where e: "sm_map m h = Some e" using root_path_dom [OF tree h(1)] by auto
  let ?v = "(pe_value e)(key := None)"
  define m1 where "m1 = (set_value h ?v m)\<lparr>sm_size := n\<rparr>"
  note notroot = root_path_not_root [OF tree h]
  have mid1: "mid {pe_id e} {} (sm_size m) m1"
    unfolding m1_def mid_size
    by (rule set_value_mid [OF mid h e]) (use own_delete [OF mid_finite [OF mid e notroot]] old e in \<open>simp_all add: finite_dom_update\<close>)
  have skel: "skeleton m1 = skeleton m" using e by (auto simp: m1_def skeleton_def fun_eq_iff)
  have path: "root_path m1 q = root_path m q" for q by (rule node_at_cong [OF skel])
  have "climbs (sm_size m) False False h m1"
    using mid1 by (auto simp: climbs_def mid_def flags_ok_def m1_def e)
  from remove_topic_filter_ok [OF this, of p] h path obtain m' where
    m': "remove_topic_filter (path_keys m (2, []) p) m1 = Inr m'" "mid {} {} (sm_size m - 1) m'" "prunes m1 m'" "0 < sm_size m"
    by (auto simp: path_keys_cong [OF skel])
  have "content m1 = (content m)(p := ?v)" unfolding m1_def content_size by (rule content_set_value [OF tree h(1)])
  moreover have "content m p = pe_value e" using h e by (simp add: content_def)
  ultimately have "erased p key m 1 (m'\<lparr>sm_size := sm_size m - 1\<rparr>)"
    using m'(2-4) old e by (simp add: erased_def sm_ok_mid mid_size content_size node_at_size prunes_def path)
  with m' show ?thesis by (auto simp: m1_def e prunes_def)
qed

lemma erase_filter_ok:
  assumes ok: "sm_ok m" shows "\<exists>n m'. erase_filter tf key m = Inr (n, m') \<and> erased (tokens tf) key m n m'"
proof -
  have tree: "sm_tree m" using ok by (simp add: sm_ok_def)
  show ?thesis
  proof (cases "root_path m (tokens tf)")
    case None
    with find_topic_filter_Nil [OF tree, of tf] erased_nothing [OF ok, of "tokens tf" key] show ?thesis
      by (simp add: erase_filter_def content_None)
  next
    case (Some h)
    note find = find_topic_filter_last [OF tree Some]
    have keys: "find_topic_filter tf m = path_keys m (2, []) (tokens tf)" using Some by (simp add: find_topic_filter_eq [OF tree])
    show ?thesis
    proof (cases "node_value m h key")
      case None
      with find erased_nothing [OF ok, of "tokens tf" key] Some show ?thesis by (simp add: erase_filter_def content_at Let_def)
    next
      case (Some w)
      let ?m = "(set_value h ((node_value m h)(key := None)) m)\<lparr>sm_size := sm_size m - 1\<rparr>"
      from erase_value [OF ok \<open>root_path m (tokens tf) = Some h\<close> tokens_nonempty, of key "sm_size m - 1"] Some obtain m' where
        m': "remove_topic_filter (find_topic_filter tf m) ?m = Inr m'" "sm_size m' = sm_size m - 1" "0 < sm_size m"
          "erased (tokens tf) key m 1 (m'\<lparr>sm_size := sm_size m - 1\<rparr>)" unfolding keys by auto
      from m'(2) have same: "m'\<lparr>sm_size := sm_size m - 1\<rparr> = m'" by (metis subscription_map.surjective subscription_map.update_convs(5))
      with m'(4) have "erased (tokens tf) key m 1 m'" by simp
      with m'(1-3) find Some show ?thesis
        by (intro exI [of _ 1] exI [of _ m'] conjI) (simp_all add: erase_filter_def decrease_map_size_def Let_def)
    qed
  qed
qed

subsection \<open>Handles\<close>

text \<open>The walk from a node ends at the root, and goes along the path of the node.\<close>

lemma handle_walk_path:
  assumes tree: "sm_tree m"
  shows "root_path m p = Some h \<Longrightarrow> handle_walk m h = Some (Inr (rev (path_keys m (2, []) p)))"
proof (induction p arbitrary: h rule: rev_induct)
  case Nil
  then show ?case by (subst handle_walk.simps) (simp add: tree_root_key [OF tree])
next
  case (snoc t p)
  from snoc.prems obtain parent pe e where parent: "root_path m p = Some parent" "sm_map m parent = Some pe" "h = (pe_id pe, t)" "sm_map m h = Some e"
    by (auto simp: node_at_snoc bind_eq_Some_conv child_Some)
  have "h \<noteq> (2, [])" by (rule root_path_not_root [OF tree snoc.prems]) simp
  moreover have "pe_parent e = parent"
    using tree_parent [OF tree, of "pe_id pe" t e] parent(3,4) \<open>h \<noteq> (2, [])\<close> tree_unique [OF tree _ parent(2)] by blast
  ultimately show ?case using snoc.IH [OF parent(1)] parent(4)
    by (subst handle_walk.simps) (simp add: tree_root_key [OF tree] path_keys_snoc [OF snoc.prems])
qed

lemma handle_to_iterators_path:
  assumes "sm_tree m" and "root_path m p = Some h"
  shows "handle_to_iterators h m = Some (Inr (path_keys m (2, []) p))"
  by (simp add: handle_to_iterators_def handle_walk_path [OF assms])

text \<open>The counts along a path are raised in any order.\<close>

definition raise_counts :: "node_key set \<Rightarrow> 'v subscription_map \<Rightarrow> 'v subscription_map" where
  "raise_counts K m = m\<lparr>sm_map := \<lambda>k. map_option (\<lambda>e. e\<lparr>pe_count := pe_count e + of_bool (k \<in> K)\<rparr>) (sm_map m k)\<rparr>"

lemma raise_counts_insert:
  assumes "sm_map m k = Some e" and "k \<notin> K"
  shows "raise_counts K (set_node k (e\<lparr>pe_count := pe_count e + 1\<rparr>) m) = raise_counts (insert k K) m"
  using assms by (cases m) (auto simp: raise_counts_def fun_eq_iff)

lemma increase_subscriptions_all:
  assumes "distinct ks" and "\<forall>k \<in> set ks. \<exists>e. sm_map m k = Some e \<and> pe_count e \<noteq> count_max"
  shows "increase_subscriptions ks m = Inr (raise_counts (set ks) m)"
  using assms
proof (induction ks arbitrary: m)
  case Nil
  then show ?case by (cases m) (simp add: raise_counts_def option.map_ident)
next
  case (Cons k ks)
  then obtain e where e: "sm_map m k = Some e" "pe_count e \<noteq> count_max" by auto
  let ?m = "set_node k (e\<lparr>pe_count := pe_count e + 1\<rparr>) m"
  have "increase_subscriptions ks ?m = Inr (raise_counts (set ks) ?m)" by (rule Cons.IH) (use Cons.prems in auto)
  with raise_counts_insert [OF e(1)] Cons.prems(1) e show ?case by (simp add: increase_node_def increase_count_storage_def)
qed

lemma increase_subscriptions_Inr:
  "increase_subscriptions ks m = Inr m' \<Longrightarrow> distinct ks \<Longrightarrow> k \<in> set ks \<Longrightarrow> \<exists>e. sm_map m k = Some e \<and> pe_count e \<noteq> count_max"
proof (induction ks arbitrary: m)
  case (Cons j ks)
  from Cons.prems(1) obtain e where e: "sm_map m j = Some e" "pe_count e \<noteq> count_max"
    "increase_subscriptions ks (set_node j (e\<lparr>pe_count := pe_count e + 1\<rparr>) m) = Inr m'"
    by (auto simp: increase_node_def increase_count_storage_def bindE_eq_Inr split: option.splits if_splits)
  show ?case
  proof (cases "k = j")
    case False
    with Cons.IH [OF e(3)] Cons.prems(2,3) show ?thesis by auto
  qed (use e in simp)
qed simp

lemma increase_subscriptions_rev:
  assumes "increase_subscriptions ks m = Inr m'" and "distinct ks" shows "increase_subscriptions (rev ks) m = Inr m'"
proof -
  note all = increase_subscriptions_Inr [OF assms]
  have "increase_subscriptions ks m = Inr (raise_counts (set ks) m)"
    by (rule increase_subscriptions_all) (use all assms(2) in blast)+
  moreover have "increase_subscriptions (rev ks) m = Inr (raise_counts (set (rev ks)) m)"
    by (rule increase_subscriptions_all) (use all assms(2) in \<open>simp_all del: split_paired_Ex split_paired_All\<close>)
  ultimately show ?thesis using assms(1) by simp
qed

lemma path_keys_set: "root_path m p = Some h \<Longrightarrow> k \<in> set (path_keys m (2, []) p) \<Longrightarrow> \<exists>q. root_path m q = Some k \<and> length q \<le> length p"
proof (induction p arbitrary: h rule: rev_induct)
  case (snoc t p)
  from snoc.prems(1) obtain h' where h': "root_path m p = Some h'" by (auto simp: node_at_snoc bind_eq_Some_conv)
  show ?case
  proof (cases "k = h")
    case True
    with snoc.prems(1) show ?thesis by auto
  next
    case False
    with snoc.prems(2) have "k \<in> set (path_keys m (2, []) p)" by (simp add: path_keys_snoc [OF snoc.prems(1)])
    from snoc.IH [OF h' this] show ?thesis by auto
  qed
qed simp

lemma path_keys_distinct: "sm_tree m \<Longrightarrow> root_path m p = Some h \<Longrightarrow> distinct (path_keys m (2, []) p)"
proof (induction p arbitrary: h rule: rev_induct)
  case (snoc t p)
  from snoc.prems(2) obtain h' where h': "root_path m p = Some h'" by (auto simp: node_at_snoc bind_eq_Some_conv)
  have "h \<notin> set (path_keys m (2, []) p)"
  proof
    assume "h \<in> set (path_keys m (2, []) p)"
    from path_keys_set [OF h' this] obtain q where "root_path m q = Some h" "length q \<le> length p" by blast
    with root_path_inj [OF snoc.prems(1) this(1) snoc.prems(2)] show False by auto
  qed
  with snoc.IH [OF snoc.prems(1) h'] show ?case by (simp add: path_keys_snoc [OF snoc.prems(2)])
qed simp

text \<open>The operations that take a handle do what the operations that take its filter do.\<close>

lemma insert_or_assign_handle_ok:
  assumes ok: "sm_ok m" and h: "root_path m p = Some h" "p \<noteq> []" and room: "sm_size m < count_max"
  shows "\<exists>b m'. insert_or_assign_handle h key val m = Some (Inr ((h, b), m')) \<and> stored p key val m (h, b) m'"
proof -
  have tree: "sm_tree m" using ok by (simp add: sm_ok_def)
  obtain e where e: "sm_map m h = Some e" using root_path_dom [OF tree h(1)] by auto
  show ?thesis
  proof (cases "node_value m h key")
    case None
    let ?m = "set_value h ((node_value m h)(key \<mapsto> val)) m"
    from store_new [OF ok h None room, of val] obtain m2 where m2:
      "increase_subscriptions (path_keys m (2, []) p) ?m = Inr m2" "sm_size m2 = sm_size m" "stored p key val m (h, True) (m2\<lparr>sm_size := sm_size m + 1\<rparr>)"
      by blast
    have skel: "skeleton ?m = skeleton m" using e by (auto simp: skeleton_def fun_eq_iff)
    have tree1: "sm_tree ?m" by (rule tree_cong [OF tree skel]) simp_all
    have "handle_walk ?m h = Some (Inr (rev (path_keys m (2, []) p)))"
      using handle_walk_path [OF tree1, of p h] h by (simp add: node_at_cong [OF skel] path_keys_cong [OF skel])
    with increase_subscriptions_rev [OF m2(1) path_keys_distinct [OF tree h(1)]] m2 None e count_max_less [OF room] show ?thesis
      by (intro exI [of _ True] exI conjI) (simp_all add: insert_or_assign_handle_def increase_subscriptions_handle_def increase_map_size_def Let_def)
  next
    case (Some w)
    with store_again [OF ok h, of key val] e show ?thesis
      by (intro exI [of _ False] exI conjI) (simp_all add: insert_or_assign_handle_def Let_def)
  qed
qed

lemma erase_handle_ok:
  assumes ok: "sm_ok m" and h: "root_path m p = Some h" "p \<noteq> []"
  shows "\<exists>n m'. erase_handle h key m = Some (Inr (n, m')) \<and> erased p key m n m'"
proof -
  have tree: "sm_tree m" using ok by (simp add: sm_ok_def)
  obtain e where e: "sm_map m h = Some e" using root_path_dom [OF tree h(1)] by auto
  show ?thesis
  proof (cases "node_value m h key")
    case None
    with e erased_nothing [OF ok, of p key] h show ?thesis by (simp add: erase_handle_def content_at)
  next
    case (Some w)
    let ?m = "set_value h ((node_value m h)(key := None)) m"
    have size: "?m\<lparr>sm_size := sm_size m\<rparr> = ?m" by simp
    from erase_value [OF ok h, of key "sm_size m"] Some size obtain m' where m':
      "remove_topic_filter (path_keys m (2, []) p) ?m = Inr m'" "sm_size m' = sm_size m" "0 < sm_size m"
      "erased p key m 1 (m'\<lparr>sm_size := sm_size m - 1\<rparr>)" by auto
    have skel: "skeleton ?m = skeleton m" using e by (auto simp: skeleton_def fun_eq_iff)
    have tree1: "sm_tree ?m" by (rule tree_cong [OF tree skel]) simp_all
    have "handle_to_iterators h ?m = Some (Inr (path_keys m (2, []) p))"
      using handle_to_iterators_path [OF tree1, of p h] h by (simp add: node_at_cong [OF skel] path_keys_cong [OF skel])
    with m' Some e show ?thesis
      by (intro exI [of _ 1] exI conjI) (simp_all add: erase_handle_def decrease_map_size_def Let_def)
  qed
qed

end
