(* ===== verification/Subscription_Match.thy ===== *)
theory Subscription_Match
  imports Subscription_Inv "HOL-Library.Multiset"
begin

text \<open>
  The search for the filters that match a topic: the search level by level over all nodes finds
  what a recursive search from the root finds, and these are the nodes of the matching filters, once each.
\<close>

subsection \<open>The recursive search\<close>

fun matched :: "'v subscription_map \<Rightarrow> node_key \<Rightarrow> bytes list \<Rightarrow> node_key list" where
  "matched m k [] = [k]"
| "matched m k (t # ts) = snd (match_entry m t k) @ concat (map (\<lambda>k'. matched m k' ts) (fst (match_entry m t k)))"

abbreviation mset_all :: "('a \<Rightarrow> 'b list) \<Rightarrow> 'a list \<Rightarrow> 'b multiset" where
  "mset_all f xs \<equiv> mset (concat (map f xs))"

lemma mset_all_split: "mset_all (\<lambda>x. f x @ g x) xs = mset_all f xs + mset_all g xs"
  by (induction xs) simp_all

lemma mset_all_concat: "mset_all g (concat (map f xs)) = mset_all (\<lambda>x. concat (map g (f x))) xs"
  by (induction xs) simp_all

lemma search_by_levels:
  assumes "ts \<noteq> []" and "run_tokens (match_level m) ts (entries, called) = (n, entries', called')"
  shows "mset (called' @ entries') = mset called + mset_all (\<lambda>k. matched m k ts) entries"
  using assms
proof (induction ts arbitrary: entries called n)
  case (Cons t ts)
  let ?new = "concat (map (\<lambda>k. fst (match_entry m t k)) entries)" and ?hash = "concat (map (\<lambda>k. snd (match_entry m t k)) entries)"
  have split: "mset_all (\<lambda>k. matched m k (t # ts)) entries = mset ?hash + mset_all (\<lambda>k. matched m k ts) ?new"
    unfolding matched.simps mset_all_split mset_all_concat ..
  have lvl: "match_level m t (entries, called) = (?new \<noteq> [], ?new, called @ ?hash)" by (simp add: match_level_def Let_def)
  consider "?new = []" | (last) "ts = []" "?new \<noteq> []" | (more) "ts \<noteq> []" "?new \<noteq> []" by blast
  then show ?case
  proof cases
    case 1
    with Cons.prems(2) lvl have "called' = called @ ?hash" "entries' = []" by (auto simp del: concat_eq_Nil_conv)
    with split 1 show ?thesis by (simp del: concat_eq_Nil_conv matched.simps)
  next
    case last
    with Cons.prems(2) lvl have "called' = called @ ?hash" "entries' = ?new" by auto
    with split last show ?thesis by (simp del: concat_eq_Nil_conv add: concat_map_singleton)
  next
    case more
    with Cons.prems(2) lvl obtain n' where "run_tokens (match_level m) ts (?new, called @ ?hash) = (n', entries', called')"
      by (auto simp del: concat_eq_Nil_conv split: prod.splits)
    from Cons.IH [OF more(1) this] split show ?thesis by (simp del: concat_eq_Nil_conv matched.simps)
  qed
qed simp

lemma find_match_impl_matched:
  "mset (find_match_impl topic m) = mset (matched m (sm_root_key m) (tokens topic))"
proof -
  obtain n e c where "run_tokens (match_level m) (tokens topic) ([sm_root_key m], []) = (n, e, c)" by (metis prod.collapse)
  with search_by_levels [OF tokens_nonempty this] show ?thesis
    by (simp add: find_match_impl_def topic_filter_tokenizer_tokens)
qed

subsection \<open>The nodes it finds\<close>

abbreviation plain_level :: "bytes \<Rightarrow> bool" where
  "plain_level t \<equiv> t \<noteq> plus_level \<and> t \<noteq> hash_level"

lemma match_entry_eq:
  assumes tree: "sm_tree m" and flags: "flags_ok False False 0 m" and k: "sm_map m k = Some e"
  shows "match_entry m t k =
    (let may = \<not> (k = (2, []) \<and> system_level t) in
     ((case child m k t of None \<Rightarrow> [] | Some k' \<Rightarrow> [k']) @ (case child m k plus_level of Some k' \<Rightarrow> if may then [k'] else [] | None \<Rightarrow> []),
      (case child m k hash_level of Some k' \<Rightarrow> if may then [k'] else [] | None \<Rightarrow> [])))"
proof -
  have child: "child m k u = (if sm_map m (pe_id e, u) = None then None else Some (pe_id e, u))" for u
    using k by (simp add: child_def skeleton_def)
  have root: "pe_id e = sm_root_node_id m \<longleftrightarrow> k = (2, [])" using root_id_key [OF tree k] tree_root_id [OF tree] by simp
  from flags_node [OF flags k] show ?thesis
    by (auto simp: match_entry_def k child root system_level_def Let_def)
qed

lemma child_dom: "child m k t = Some k' \<Longrightarrow> \<exists>e. sm_map m k' = Some e"
  by (auto simp: child_Some)

lemma child_not_root: "sm_tree m \<Longrightarrow> child m k t = Some k' \<Longrightarrow> k' \<noteq> (2, [])"
  by (auto simp: child_Some dest: not_root_key)

lemma matched_set:
  assumes tree: "sm_tree m" and flags: "flags_ok False False 0 m"
  shows "sm_map m k = Some e \<Longrightarrow> \<forall>t \<in> set ts. plain_level t \<Longrightarrow>
    x \<in> set (matched m k ts) \<longleftrightarrow> (\<exists>q. node_at m k q = Some x \<and> filter_matches (k = (2, [])) q ts)"
proof (induction ts arbitrary: k e)
  case Nil
  have "filter_matches b q [] \<longleftrightarrow> q = []" for b q by (cases q) simp_all
  then show ?case by auto
next
  case (Cons t ts)
  let ?may = "\<not> (k = (2, []) \<and> system_level t)"
  have step: "x \<in> set (matched m k' ts) \<longleftrightarrow> (\<exists>q. node_at m k' q = Some x \<and> filter_matches False q ts)" if "child m k u = Some k'" for k' u
    using Cons.IH [of k'] Cons.prems(2) child_dom [OF that] child_not_root [OF tree that] by auto
  have "x \<in> set (matched m k (t # ts)) \<longleftrightarrow>
      ?may \<and> child m k hash_level = Some x \<or> (\<exists>k'. child m k t = Some k' \<and> x \<in> set (matched m k' ts)) \<or>
      ?may \<and> (\<exists>k'. child m k plus_level = Some k' \<and> x \<in> set (matched m k' ts))"
    unfolding matched.simps match_entry_eq [OF tree flags Cons.prems(1)] Let_def
    by (cases "child m k hash_level"; cases "child m k t"; cases "child m k plus_level"; cases ?may)
       (simp_all add: eq_commute [of x] del: split_paired_Ex split_paired_All)
  also have "\<dots> \<longleftrightarrow>
      ?may \<and> child m k hash_level = Some x \<or> (\<exists>k' q. child m k t = Some k' \<and> node_at m k' q = Some x \<and> filter_matches False q ts) \<or>
      ?may \<and> (\<exists>k' q. child m k plus_level = Some k' \<and> node_at m k' q = Some x \<and> filter_matches False q ts)"
    using step by blast
  also have "\<dots> \<longleftrightarrow> (\<exists>q. node_at m k q = Some x \<and> filter_matches (k = (2, [])) q (t # ts))"
  proof
    assume "?may \<and> child m k hash_level = Some x \<or> (\<exists>k' q. child m k t = Some k' \<and> node_at m k' q = Some x \<and> filter_matches False q ts) \<or>
      ?may \<and> (\<exists>k' q. child m k plus_level = Some k' \<and> node_at m k' q = Some x \<and> filter_matches False q ts)"
    then show "\<exists>q. node_at m k q = Some x \<and> filter_matches (k = (2, [])) q (t # ts)"
    proof (elim disjE)
      assume "?may \<and> child m k hash_level = Some x"
      then show ?thesis by (intro exI [of _ "[hash_level]"]) auto
    next
      assume "\<exists>k' q. child m k t = Some k' \<and> node_at m k' q = Some x \<and> filter_matches False q ts"
      then obtain q where "node_at m k (t # q) = Some x \<and> filter_matches False q ts" by auto
      then show ?thesis by (intro exI [of _ "t # q"]) auto
    next
      assume "?may \<and> (\<exists>k' q. child m k plus_level = Some k' \<and> node_at m k' q = Some x \<and> filter_matches False q ts)"
      then obtain q where "?may" "node_at m k (plus_level # q) = Some x \<and> filter_matches False q ts" by auto
      then show ?thesis by (intro exI [of _ "plus_level # q"]) auto
    qed
  next
    assume "\<exists>q. node_at m k q = Some x \<and> filter_matches (k = (2, [])) q (t # ts)"
    then obtain f fs where q: "node_at m k (f # fs) = Some x" "filter_matches (k = (2, [])) (f # fs) (t # ts)"
      by (metis filter_matches.simps(1) list.exhaust list.distinct(1))
    then show "?may \<and> child m k hash_level = Some x \<or> (\<exists>k' q. child m k t = Some k' \<and> node_at m k' q = Some x \<and> filter_matches False q ts) \<or>
      ?may \<and> (\<exists>k' q. child m k plus_level = Some k' \<and> node_at m k' q = Some x \<and> filter_matches False q ts)"
      by (auto simp: bind_eq_Some_conv)
  qed
  finally show ?case .
qed

lemma matched_distinct:
  assumes tree: "sm_tree m" and flags: "flags_ok False False 0 m"
  shows "root_path m p = Some k \<Longrightarrow> \<forall>t \<in> set ts. plain_level t \<Longrightarrow> distinct (matched m k ts)"
proof (induction ts arbitrary: k p)
  case (Cons t ts)
  obtain e where e: "sm_map m k = Some e" using root_path_dom [OF tree Cons.prems(1)] by auto
  have child: "root_path m (p @ [u]) = child m k u" for u using Cons.prems(1) by (simp add: node_at_snoc)
  have dist: "distinct (matched m k' ts)" if "child m k u = Some k'" for k' u
    using Cons.IH [of "p @ [u]" k'] child [of u] that Cons.prems(2) by simp
  have loc: "\<exists>q. root_path m (p @ u # q) = Some x" if c: "child m k u = Some k'" and x: "x \<in> set (matched m k' ts)" for k' u x
  proof -
    obtain e' where "sm_map m k' = Some e'" using child_dom [OF c] by blast
    from matched_set [OF tree flags this] x Cons.prems(2) obtain q where "node_at m k' q = Some x" by auto
    with c Cons.prems(1) show ?thesis by (intro exI [of _ q]) (simp add: node_at_append)
  qed
  have ne: "x \<noteq> y" if "root_path m (p @ u # q) = Some x" "root_path m (p @ u' # q') = Some y" "u \<noteq> u'" for u u' q q' x y
    using root_path_inj [OF tree that(1), of "p @ u' # q'"] that by auto
  have hash: "child m k hash_level = Some x \<Longrightarrow> root_path m (p @ hash_level # []) = Some x" for x using child by simp
  have "\<And>x. child m k hash_level = Some x \<Longrightarrow> \<forall>k'. child m k t = Some k' \<longrightarrow> x \<notin> set (matched m k' ts)"
    "\<And>x. child m k hash_level = Some x \<Longrightarrow> \<forall>k'. child m k plus_level = Some k' \<longrightarrow> x \<notin> set (matched m k' ts)"
    using loc hash ne Cons.prems(2) by (metis list.set_intros(1), metis topic_chars_distinct(1) list.inject)
  moreover have "set (matched m k1 ts) \<inter> set (matched m k2 ts) = {}" if "child m k t = Some k1" "child m k plus_level = Some k2" for k1 k2
    using loc [OF that(1)] loc [OF that(2)] ne Cons.prems(2) by (metis disjoint_iff list.set_intros(1))
  ultimately show ?case
    using dist by (auto simp: match_entry_eq [OF tree flags e] Let_def split: option.splits if_splits)
qed simp

end
