(* ===== verification/Subscription_Spec.thy ===== *)
theory Subscription_Spec
  imports Subscription_Erase Subscription_Match
begin

text \<open>
  The subscription map with several values per filter as an implementation of a function from
  filters and keys to values.
\<close>

subsection \<open>What a search finds\<close>

lemma filter_matches_Nil: "ts \<noteq> [] \<Longrightarrow> filter_matches b p ts \<Longrightarrow> p \<noteq> []"
  by (cases p) auto

lemma topic_levels: "validate_topic_name topic \<Longrightarrow> \<forall>t \<in> set (tokens topic). plain_level t"
  using validate_topic_name_levels [of topic] by fastforce

lemma found_nodes:
  assumes ok: "sm_ok m" and topic: "validate_topic_name topic"
  shows "distinct (find_match_impl topic m)"
    "x \<in> set (find_match_impl topic m) \<longleftrightarrow> (\<exists>p. root_path m p = Some x \<and> filter_matches True p (tokens topic))"
proof -
  from ok have tree: "sm_tree m" and flags: "flags_ok False False 0 m" by (simp_all add: sm_ok_def)
  from tree_root [OF tree] obtain e where e: "sm_map m (2, []) = Some e" by blast
  have eq: "mset (find_match_impl topic m) = mset (matched m (2, []) (tokens topic))"
    using find_match_impl_matched [of topic m] by (simp add: tree_root_key [OF tree])
  have "distinct (matched m (2, []) (tokens topic))"
    by (rule matched_distinct [OF tree flags _ topic_levels [OF topic], of "[]"]) simp
  then show "distinct (find_match_impl topic m)" using mset_eq_imp_distinct_iff [OF eq] by simp
  show "x \<in> set (find_match_impl topic m) \<longleftrightarrow> (\<exists>p. root_path m p = Some x \<and> filter_matches True p (tokens topic))"
    using matched_set [OF tree flags e topic_levels [OF topic], of x] mset_eq_setD [OF eq] by simp
qed

lemma found_once:
  assumes ok: "sm_ok m" and topic: "validate_topic_name topic"
  shows "length (filter (\<lambda>c. c key = Some val) (find_subscriptions topic m)) =
    card {p. content m p key = Some val \<and> filter_matches True p (tokens topic)}"
proof -
  let ?L = "find_match_impl topic m" and ?P = "{p. content m p key = Some val \<and> filter_matches True p (tokens topic)}"
  have tree: "sm_tree m" using ok by (simp add: sm_ok_def)
  have path: "\<exists>x. root_path m p = Some x \<and> node_value m x = content m p" if "p \<in> ?P" for p
    using that by (cases "root_path m p") (auto simp: content_def)
  have "length (filter (\<lambda>c. c key = Some val) (find_subscriptions topic m)) = length (filter (\<lambda>x. node_value m x key = Some val) ?L)"
    by (simp add: find_subscriptions_def find_match_def filter_map comp_def)
  also have "\<dots> = card {x \<in> set ?L. node_value m x key = Some val}"
    using distinct_card [of "filter (\<lambda>x. node_value m x key = Some val) ?L"] found_nodes(1) [OF assms] by simp
  also have "{x \<in> set ?L. node_value m x key = Some val} = (\<lambda>p. the (root_path m p)) ` ?P"
  proof (intro set_eqI iffI)
    fix x assume "x \<in> {x \<in> set ?L. node_value m x key = Some val}"
    with found_nodes(2) [OF assms, of x] obtain p where
      p: "root_path m p = Some x" "filter_matches True p (tokens topic)" "node_value m x key = Some val" by blast
    then show "x \<in> (\<lambda>p. the (root_path m p)) ` ?P" by (intro image_eqI [of _ _ p]) (simp_all add: content_at)
  next
    fix x assume "x \<in> (\<lambda>p. the (root_path m p)) ` ?P"
    then obtain p where p: "p \<in> ?P" "x = the (root_path m p)" by blast
    with path [OF p(1)] have "root_path m p = Some x" "node_value m x = content m p" by auto
    with p found_nodes(2) [OF assms, of x] show "x \<in> {x \<in> set ?L. node_value m x key = Some val}" by auto
  qed
  also have "card \<dots> = card ?P"
  proof (rule card_image, rule inj_onI)
    fix p q assume "p \<in> ?P" "q \<in> ?P" "the (root_path m p) = the (root_path m q)"
    with path [of p] path [of q] root_path_inj [OF tree, of p _ q] show "p = q" by auto
  qed
  finally show ?thesis .
qed

subsection \<open>Modification of what a search finds\<close>

lemma dom_modify: "dom (\<lambda>k. map_option (f k) (c k)) = dom c"
  by (auto simp: dom_def)

lemma modify_one:
  assumes ok: "sm_ok m" and h: "root_path m p = Some h" "p \<noteq> []"
  shows "sm_ok (set_value h (\<lambda>k. map_option (f k) (node_value m h k)) m)"
proof -
  from ok have mid: "mid {} {} (sm_size m) m" by (simp add: sm_ok_mid)
  obtain e where e: "sm_map m h = Some e" using root_path_dom [OF mid_tree [OF mid] h(1)] by auto
  have "mid {} {} (sm_size m) (set_value h (\<lambda>k. map_option (f k) (pe_value e k)) m)"
    by (rule set_value_mid [OF mid h e]) (simp_all add: own_def dom_modify)
  with e show ?thesis by (simp add: sm_ok_mid)
qed

lemma modify_fold:
  assumes "sm_ok m" and "list_all2 (\<lambda>p h. root_path m p = Some h \<and> p \<noteq> []) ps ks" and "distinct ps"
    and "m' = fold upd ks m"
    and upd: "\<And>k m. upd k m = set_node k (the (sm_map m k)\<lparr>pe_value := callback (pe_value (the (sm_map m k)))\<rparr>) m"
    and callback: "callback = (\<lambda>c k. map_option (f k) (c k))"
  shows "sm_ok m' \<and> content m' = (\<lambda>p. if p \<in> set ps then callback (content m p) else content m p) \<and> sm_size m' = sm_size m"
  using assms(1-4)
proof (induction ps arbitrary: ks m)
  case (Cons p ps)
  then obtain h hs where ks: "ks = h # hs" "root_path m p = Some h" "p \<noteq> []" "list_all2 (\<lambda>p h. root_path m p = Some h \<and> p \<noteq> []) ps hs"
    by (auto simp: list_all2_Cons1)
  define m1 where "m1 = set_value h (callback (node_value m h)) m"
  have tree: "sm_tree m" using Cons.prems(1) by (simp add: sm_ok_def)
  have "sm_ok m1" unfolding m1_def callback by (rule modify_one [OF Cons.prems(1) ks(2,3)])
  moreover have "root_path m1 q = root_path m q" for q unfolding m1_def by (rule root_path_set_value [OF tree ks(2)])
  then have "list_all2 (\<lambda>p h. root_path m1 p = Some h \<and> p \<noteq> []) ps hs" using ks(4) by (simp add: list_all2_conv_all_nth)
  moreover have "m' = fold upd hs m1" unfolding Cons.prems(4) ks(1) m1_def by (simp only: fold_simps upd)
  ultimately have IH: "sm_ok m' \<and> content m' = (\<lambda>p. if p \<in> set ps then callback (content m1 p) else content m1 p) \<and> sm_size m' = sm_size m1"
    using Cons.IH [of m1 hs] Cons.prems(3) by simp
  have "content m1 = (content m)(p := callback (content m p))"
    unfolding m1_def content_at [OF ks(2)] by (rule content_set_value [OF tree ks(2)])
  moreover have "sm_size m1 = sm_size m" by (simp add: m1_def)
  ultimately show ?case using IH Cons.prems(3) by (auto intro!: ext)
qed simp

lemma modify_subscriptions_ok:
  assumes ok: "sm_ok m" and topic: "validate_topic_name topic"
  shows "sm_ok (modify_subscriptions topic f m)" "sm_size (modify_subscriptions topic f m) = sm_size m"
    "content (modify_subscriptions topic f m) =
      (\<lambda>p. if filter_matches True p (tokens topic) then (\<lambda>k. map_option (f k) (content m p k)) else content m p)"
proof -
  let ?L = "find_match_impl topic m" and ?c = "\<lambda>c k. map_option (f k) (c k)"
  have tree: "sm_tree m" using ok by (simp add: sm_ok_def)
  have "\<forall>x \<in> set ?L. \<exists>p. root_path m p = Some x \<and> filter_matches True p (tokens topic)" using found_nodes(2) [OF assms] by blast
  then obtain path where path: "\<And>x. x \<in> set ?L \<Longrightarrow> root_path m (path x) = Some x \<and> filter_matches True (path x) (tokens topic)" by metis
  let ?ps = "map path ?L"
  have all: "list_all2 (\<lambda>p h. root_path m p = Some h \<and> p \<noteq> []) ?ps ?L"
    unfolding list_all2_map1 by (rule list.rel_refl_strong) (use path filter_matches_Nil [OF tokens_nonempty] in blast)
  have "inj_on path (set ?L)" using path by (intro inj_onI) (metis option.inject)
  then have "distinct ?ps" using found_nodes(1) [OF assms] by (simp add: distinct_map)
  from modify_fold [OF ok all this refl refl refl, of f] have
    m': "sm_ok (modify_subscriptions topic f m)" "sm_size (modify_subscriptions topic f m) = sm_size m"
      "content (modify_subscriptions topic f m) = (\<lambda>p. if p \<in> set ?ps then ?c (content m p) else content m p)"
    by (simp_all add: modify_subscriptions_def modify_match_def)
  then show "sm_ok (modify_subscriptions topic f m)" "sm_size (modify_subscriptions topic f m) = sm_size m" by simp_all
  have "(if p \<in> set ?ps then ?c (content m p) else content m p) = (if filter_matches True p (tokens topic) then ?c (content m p) else content m p)" for p
  proof (cases "root_path m p")
    case None
    then show ?thesis by (simp add: content_None)
  next
    case (Some x)
    have "p \<in> set ?ps \<longleftrightarrow> filter_matches True p (tokens topic)"
    proof
      assume "filter_matches True p (tokens topic)"
      with Some found_nodes(2) [OF assms, of x] have "x \<in> set ?L" by blast
      moreover from this path Some root_path_inj [OF tree] have "path x = p" by blast
      ultimately show "p \<in> set ?ps" by force
    qed (use path in auto)
    then show ?thesis by simp
  qed
  then show "content (modify_subscriptions topic f m) =
      (\<lambda>p. if filter_matches True p (tokens topic) then ?c (content m p) else content m p)" unfolding m'(3) by blast
qed

subsection \<open>The abstract map\<close>

text \<open>The levels of a filter stand for the filter; a path that is not the levels of a string has no value.\<close>

type_synonym ('k, 'w) subscriptions = "bytes \<Rightarrow> 'k \<Rightarrow> 'w option"

definition sub_pairs :: "('k, 'w) subscriptions \<Rightarrow> (bytes \<times> 'k) set" where
  "sub_pairs A = {(f, k). A f k \<noteq> None}"

definition implements :: "('k, 'w) multiple_map \<Rightarrow> ('k, 'w) subscriptions \<Rightarrow> bool" where
  "implements m A \<longleftrightarrow>
     sm_ok m \<and> (\<forall>p. content m p = (if tokens (join_levels p) = p then A (join_levels p) else (\<lambda>_. None))) \<and>
     finite (sub_pairs A) \<and> sm_size m = card (sub_pairs A)"

abbreviation sub_insert :: "bytes \<Rightarrow> 'k \<Rightarrow> 'w \<Rightarrow> ('k, 'w) subscriptions \<Rightarrow> ('k, 'w) subscriptions" where
  "sub_insert f k v A \<equiv> A(f := (A f)(k \<mapsto> v))"

abbreviation sub_erase :: "bytes \<Rightarrow> 'k \<Rightarrow> ('k, 'w) subscriptions \<Rightarrow> ('k, 'w) subscriptions" where
  "sub_erase f k A \<equiv> A(f := (A f)(k := None))"

definition has_room :: "bytes \<Rightarrow> ('k, 'w) multiple_map \<Rightarrow> bool" where
  "has_room f m \<longleftrightarrow> sm_size m < count_max \<and> sm_next_node_id m + length (tokens f) \<le> size_max"

lemma sub_pairs_insert: "sub_pairs (sub_insert f k v A) = insert (f, k) (sub_pairs A)"
  by (auto simp: sub_pairs_def split: if_splits)

lemma sub_pairs_erase: "sub_pairs (sub_erase f k A) = sub_pairs A - {(f, k)}"
  by (auto simp: sub_pairs_def split: if_splits)

lemma tokens_join_tokens [simp]: "tokens (join_levels (tokens f)) = tokens f"
  by (simp add: tokens_join)

lemma implements_content: "implements m A \<Longrightarrow> content m (tokens f) = A f"
  by (simp add: implements_def tokens_join)

lemma content_change:
  assumes "\<forall>p. c p = (if tokens (join_levels p) = p then A (join_levels p) else (\<lambda>_. None))"
  shows "(c(tokens f := v)) p = (if tokens (join_levels p) = p then (A(f := v)) (join_levels p) else (\<lambda>_. None))"
  using assms by (auto simp: tokens_join)

lemma implements_stored:
  assumes "implements m A" and "stored (tokens f) k v m hb m'"
  shows "implements m' (sub_insert f k v A) \<and> (snd hb \<longleftrightarrow> A f k = None) \<and> root_path m' (tokens f) = Some (fst hb)"
proof -
  note A = implements_content [OF assms(1), of f]
  have "card (sub_pairs (sub_insert f k v A)) = card (sub_pairs A) + of_bool (A f k = None)"
    using assms(1) unfolding sub_pairs_insert by (auto simp: implements_def sub_pairs_def card_insert_if)
  with assms A show ?thesis
    using content_change [of "content m" A f "(A f)(k \<mapsto> v)"]
    by (simp add: implements_def stored_def sub_pairs_insert)
qed

lemma implements_erased:
  assumes "implements m A" and "erased (tokens f) k m n m'"
  shows "implements m' (sub_erase f k A) \<and> n = of_bool (A f k \<noteq> None)"
proof -
  note A = implements_content [OF assms(1), of f]
  have "finite (sub_pairs A)" using assms(1) by (simp add: implements_def)
  then have "card (sub_pairs (sub_erase f k A)) + of_bool (A f k \<noteq> None) = card (sub_pairs A)"
    unfolding sub_pairs_erase using card_Suc_Diff1 [of "sub_pairs A" "(f, k)"] by (auto simp: sub_pairs_def)
  with assms A show ?thesis
    using content_change [of "content m" A f "(A f)(k := None)"]
    by (auto simp: implements_def erased_def sub_pairs_erase)
qed

lemma implements_init: "implements (multiple_map_init :: ('k, 'w) multiple_map) (\<lambda>_ _. None)"
proof -
  let ?m = "multiple_map_init :: ('k, 'w) multiple_map"
  have map: "sm_map ?m = [(2, []) \<mapsto> new_path_entry (\<lambda>_. None) 1 (0, [])]" by (simp add: multiple_map_init_def subscription_map_init_def)
  have "sm_tree ?m"
    by (auto simp: sm_tree_def skeleton_ok_def skeleton_dom ids_ok_def ids_unique_def parents_ok_def skeleton_def multiple_map_init_def subscription_map_init_def
      new_path_entry_def split: if_splits)
  moreover have "flags_ok False False 0 ?m" by (auto simp: flags_ok_def map new_path_entry_def)
  moreover have "counts_ok {} {} 0 ?m" by (auto simp: counts_ok_def below_def map)
  moreover have "content ?m p = (\<lambda>_. None)" for p
  proof (cases p)
    case (Cons t ts)
    have "child ?m (2, []) t = None" by (simp add: child_def skeleton_def map new_path_entry_def)
    with Cons show ?thesis by (simp add: content_def)
  qed (simp add: content_def map new_path_entry_def)
  ultimately show ?thesis by (simp add: implements_def sm_ok_def sub_pairs_def multiple_map_init_def subscription_map_init_def)
qed

lemma implements_found:
  assumes "implements m A" and "validate_topic_name topic"
  shows "length (filter (\<lambda>c. c k = Some v) (find_subscriptions topic m)) =
    card {f. A f k = Some v \<and> filter_matches True (tokens f) (tokens topic)}"
proof -
  let ?P = "{p. content m p k = Some v \<and> filter_matches True p (tokens topic)}"
  have "?P = tokens ` {f. A f k = Some v \<and> filter_matches True (tokens f) (tokens topic)}"
  proof (intro set_eqI iffI)
    fix p assume p: "p \<in> ?P"
    then have "tokens (join_levels p) = p" "A (join_levels p) k = Some v" using assms(1) by (auto simp: implements_def split: if_splits)
    with p show "p \<in> tokens ` {f. A f k = Some v \<and> filter_matches True (tokens f) (tokens topic)}" by (intro image_eqI [of _ _ "join_levels p"]) auto
  qed (auto simp: implements_content [OF assms(1)])
  moreover have "inj tokens" by (auto intro: injI simp: tokens_inject)
  ultimately show ?thesis
    using found_once [OF _ assms(2), of m k v] assms(1) by (simp add: implements_def card_image inj_on_subset)
qed

lemma implements_modified:
  assumes "implements m A" and "validate_topic_name topic"
  shows "implements (modify_subscriptions topic g m)
    (\<lambda>f. if filter_matches True (tokens f) (tokens topic) then (\<lambda>k. map_option (g k) (A f k)) else A f)"
proof -
  let ?A = "\<lambda>f. if filter_matches True (tokens f) (tokens topic) then (\<lambda>k. map_option (g k) (A f k)) else A f"
  have "sub_pairs ?A = sub_pairs A" by (auto simp: sub_pairs_def split: if_splits)
  with assms(1) modify_subscriptions_ok [OF _ assms(2), of m g] show ?thesis by (simp add: implements_def fun_eq_iff)
qed

subsection \<open>The interface to the broker\<close>

text \<open>What a client of the map relies on: \<open>rel\<close> relates a map to the subscriptions it holds.\<close>

locale subscription_store =
  fixes rel :: "'m \<Rightarrow> ('k, 'w) subscriptions \<Rightarrow> bool" and room :: "bytes \<Rightarrow> 'm \<Rightarrow> bool"
    and ins :: "bytes \<Rightarrow> 'k \<Rightarrow> 'w \<Rightarrow> 'm \<Rightarrow> 'e + ('h \<times> bool) \<times> 'm" and era :: "bytes \<Rightarrow> 'k \<Rightarrow> 'm \<Rightarrow> 'e + nat \<times> 'm"
    and search :: "bytes \<Rightarrow> 'm \<Rightarrow> ('k \<Rightarrow> 'w option) list"
  assumes rel_finite: "rel m A \<Longrightarrow> finite (sub_pairs A)"
    and ins_law: "rel m A \<Longrightarrow> room f m \<Longrightarrow> \<exists>h b m'. ins f k v m = Inr ((h, b), m') \<and> rel m' (sub_insert f k v A) \<and> (b \<longleftrightarrow> A f k = None)"
    and era_law: "rel m A \<Longrightarrow> \<exists>n m'. era f k m = Inr (n, m') \<and> rel m' (sub_erase f k A) \<and> n = of_bool (A f k \<noteq> None)"
    and search_law: "rel m A \<Longrightarrow> validate_topic_name topic \<Longrightarrow>
      length (filter (\<lambda>c. c k = Some v) (search topic m)) = card {f. A f k = Some v \<and> filter_matches True (tokens f) (tokens topic)}"
begin

lemma search_member:
  assumes "rel m A" and "validate_topic_name topic"
  shows "(\<exists>c \<in> set (search topic m). c k = Some v) \<longleftrightarrow> (\<exists>f. A f k = Some v \<and> filter_matches True (tokens f) (tokens topic))"
proof -
  let ?F = "{f. A f k = Some v \<and> filter_matches True (tokens f) (tokens topic)}"
  have "?F \<subseteq> fst ` sub_pairs A" by (force simp: sub_pairs_def image_iff)
  then have fin: "finite ?F" using rel_finite [OF assms(1)] finite_surj by blast
  have "(\<exists>c \<in> set (search topic m). c k = Some v) \<longleftrightarrow> length (filter (\<lambda>c. c k = Some v) (search topic m)) \<noteq> 0"
    by (auto simp: filter_empty_conv)
  also have "\<dots> \<longleftrightarrow> ?F \<noteq> {}" unfolding search_law [OF assms] using fin by simp
  finally show ?thesis by auto
qed

lemma subscribed:
  assumes "rel m A" and "room f m"
  shows "\<exists>h b m'. ins f k v m = Inr ((h, b), m') \<and> rel m' (sub_insert f k v A) \<and> (b \<longleftrightarrow> A f k = None) \<and>
    (\<forall>topic. validate_topic_name topic \<longrightarrow> filter_matches True (tokens f) (tokens topic) \<longrightarrow> (\<exists>c \<in> set (search topic m'). c k = Some v))"
proof -
  from ins_law [OF assms] obtain h b m' where m': "ins f k v m = Inr ((h, b), m')" "rel m' (sub_insert f k v A)" "b \<longleftrightarrow> A f k = None" by blast
  then show ?thesis using search_member [OF m'(2)] by (intro exI conjI) auto
qed

lemma unsubscribed:
  assumes "rel m A"
  shows "\<exists>n m'. era f k m = Inr (n, m') \<and> rel m' (sub_erase f k A) \<and> n = of_bool (A f k \<noteq> None) \<and>
    (\<forall>topic c. validate_topic_name topic \<longrightarrow> c \<in> set (search topic m') \<longrightarrow> c k \<noteq> None \<longrightarrow>
      (\<exists>g. g \<noteq> f \<and> A g k \<noteq> None \<and> filter_matches True (tokens g) (tokens topic)))"
proof -
  from era_law [OF assms] obtain n m' where m': "era f k m = Inr (n, m')" "rel m' (sub_erase f k A)" "n = of_bool (A f k \<noteq> None)" by blast
  have "\<exists>g. g \<noteq> f \<and> A g k \<noteq> None \<and> filter_matches True (tokens g) (tokens topic)"
    if topic: "validate_topic_name topic" and c: "c \<in> set (search topic m')" "c k \<noteq> None" for topic c
  proof -
    from c obtain v where "c k = Some v" by blast
    with c(1) search_member [OF m'(2) topic, of k v] obtain g where "sub_erase f k A g k = Some v" "filter_matches True (tokens g) (tokens topic)" by blast
    then show ?thesis by (intro exI [of _ g]) (auto split: if_splits)
  qed
  with m' show ?thesis by blast
qed

end

lemma insert_law:
  assumes "implements m A" and "has_room f m"
  shows "\<exists>h b m'. insert_or_assign f k v m = Inr ((h, b), m') \<and> implements m' (sub_insert f k v A) \<and> (b \<longleftrightarrow> A f k = None) \<and>
    root_path m' (tokens f) = Some h"
proof -
  from assms insert_or_assign_ok [of m f k v] obtain hb m' where "insert_or_assign f k v m = Inr (hb, m')" "stored (tokens f) k v m hb m'"
    by (auto simp: implements_def has_room_def)
  with implements_stored [OF assms(1) this(2)] show ?thesis by (cases hb) simp
qed

lemma erase_law:
  assumes "implements m A"
  shows "\<exists>n m'. erase_filter f k m = Inr (n, m') \<and> implements m' (sub_erase f k A) \<and> n = of_bool (A f k \<noteq> None)"
proof -
  from assms erase_filter_ok [of m f k] obtain n m' where "erase_filter f k m = Inr (n, m')" "erased (tokens f) k m n m'"
    by (auto simp: implements_def)
  with implements_erased [OF assms(1) this(2)] show ?thesis by blast
qed

interpretation broker_subs: subscription_store implements has_room insert_or_assign erase_filter find_subscriptions
proof
  fix m :: "('k, 'w) multiple_map" and A f k v
  show "implements m A \<Longrightarrow> finite (sub_pairs A)" by (simp add: implements_def)
  assume "implements m A" "has_room f m"
  from insert_law [OF this, of k v] obtain h b m' where
    "insert_or_assign f k v m = Inr ((h, b), m')" "implements m' (sub_insert f k v A)" "b \<longleftrightarrow> A f k = None" by blast
  then show "\<exists>h b m'. insert_or_assign f k v m = Inr ((h, b), m') \<and> implements m' (sub_insert f k v A) \<and> (b \<longleftrightarrow> A f k = None)"
    by (intro exI conjI)
qed (rule erase_law implements_found, assumption+)+

subsection \<open>Properties\<close>

lemma lookup_filter_path: "implements m A \<Longrightarrow> lookup_filter f m = root_path m (tokens f)"
  using find_topic_filter_Nil [of m f] find_topic_filter_last(2) [of m f]
  by (cases "root_path m (tokens f)") (auto simp: lookup_filter_def implements_def sm_ok_def Let_def)

lemma insert_handle_law:
  assumes "implements m A" and "has_room f m" and "lookup_filter f m = Some h"
  shows "\<exists>b m'. insert_or_assign_handle h k v m = Some (Inr ((h, b), m')) \<and> implements m' (sub_insert f k v A) \<and> (b \<longleftrightarrow> A f k = None)"
proof -
  have "root_path m (tokens f) = Some h" using assms(3) by (simp add: lookup_filter_path [OF assms(1)])
  with assms(1,2) insert_or_assign_handle_ok [of m "tokens f" h k v] obtain b m' where
    "insert_or_assign_handle h k v m = Some (Inr ((h, b), m'))" "stored (tokens f) k v m (h, b) m'" by (auto simp: implements_def has_room_def)
  with implements_stored [OF assms(1) this(2)] show ?thesis by simp
qed

lemma erase_handle_law:
  assumes "implements m A" and "lookup_filter f m = Some h"
  shows "\<exists>n m'. erase_handle h k m = Some (Inr (n, m')) \<and> implements m' (sub_erase f k A) \<and> n = of_bool (A f k \<noteq> None)"
proof -
  have "root_path m (tokens f) = Some h" using assms(2) by (simp add: lookup_filter_path [OF assms(1)])
  with assms(1) erase_handle_ok [of m "tokens f" h k] obtain n m' where
    "erase_handle h k m = Some (Inr (n, m'))" "erased (tokens f) k m n m'" by (auto simp: implements_def)
  with implements_erased [OF assms(1) this(2)] show ?thesis by blast
qed

lemma init_room: "has_room plus_level (multiple_map_init :: (nat, bool) multiple_map)"
  by (simp add: has_room_def multiple_map_init_def subscription_map_init_def count_max_def size_max_def tokens.simps topic_chars)

text \<open>
  C26. The subscription map implements a function from filters and keys to values. The empty map
  holds nothing. While there is room, an insertion never throws, sets one entry, tells whether it is
  new and gives the handle under which the filter is found; an insertion or a removal by handle or by
  filter does the same. A removal takes away one entry and returns how many there were. The size is the
  number of entries.
\<close>

theorem subscription_map_refines:
  assumes m: "implements m A" and room: "has_room f m"
  shows "implements multiple_map_init (\<lambda>_ _. None) \<and> sm_size m = card (sub_pairs A) \<and>
    (\<exists>h b m'. insert_or_assign f k v m = Inr ((h, b), m') \<and> implements m' (sub_insert f k v A) \<and> (b \<longleftrightarrow> A f k = None) \<and>
       lookup_filter f m' = Some h) \<and>
    (\<exists>n m'. erase_filter f k m = Inr (n, m') \<and> implements m' (sub_erase f k A) \<and> n = of_bool (A f k \<noteq> None)) \<and>
    (\<forall>h. lookup_filter f m = Some h \<longrightarrow>
       (\<exists>b m'. insert_or_assign_handle h k v m = Some (Inr ((h, b), m')) \<and> implements m' (sub_insert f k v A) \<and> (b \<longleftrightarrow> A f k = None)) \<and>
       (\<exists>n m'. erase_handle h k m = Some (Inr (n, m')) \<and> implements m' (sub_erase f k A) \<and> n = of_bool (A f k \<noteq> None)))"
proof (intro conjI allI impI)
  from insert_law [OF m room, of k v] obtain h b m' where m':
    "insert_or_assign f k v m = Inr ((h, b), m')" "implements m' (sub_insert f k v A)" "b \<longleftrightarrow> A f k = None" "root_path m' (tokens f) = Some h" by blast
  with lookup_filter_path [OF m'(2), of f]
  show "\<exists>h b m'. insert_or_assign f k v m = Inr ((h, b), m') \<and> implements m' (sub_insert f k v A) \<and> (b \<longleftrightarrow> A f k = None) \<and>
       lookup_filter f m' = Some h" by (intro exI conjI) simp_all
qed (use m room in \<open>blast intro: implements_init erase_law insert_handle_law erase_handle_law implements_def [THEN iffD1, THEN conjunct2, THEN conjunct2, THEN conjunct2]\<close>)+

theorem subscription_map_refines_witness:
  "\<exists>h m'. insert_or_assign plus_level (0::nat) True multiple_map_init = Inr ((h, True), m') \<and> lookup_filter plus_level m' = Some h"
  using subscription_map_refines [OF implements_init init_room, of "0::nat" True] by auto

text \<open>
  C27. What a search finds: for a valid topic name, the callbacks with a key and a value are as many as
  there are filters that match the topic and hold this value under this key. A modification changes
  the values of exactly these entries.
\<close>

theorem subscriptions_found:
  assumes "implements m A" and "validate_topic_name topic"
  shows "length (filter (\<lambda>c. c k = Some v) (find_subscriptions topic m)) =
      card {f. A f k = Some v \<and> filter_matches True (tokens f) (tokens topic)} \<and>
    implements (modify_subscriptions topic g m)
      (\<lambda>f. if filter_matches True (tokens f) (tokens topic) then (\<lambda>k. map_option (g k) (A f k)) else A f)"
  using implements_found [OF assms] implements_modified [OF assms] by blast

theorem subscriptions_found_witness:
  "\<exists>h b m'. insert_or_assign plus_level 0 True (multiple_map_init :: (nat, bool) multiple_map) = Inr ((h, b), m') \<and>
     length (filter (\<lambda>c. c 0 = Some True) (find_subscriptions [0x61] m')) = 1"
proof -
  from insert_law [OF implements_init init_room, of 0 True] obtain h b m' where
    m': "insert_or_assign plus_level 0 True (multiple_map_init :: (nat, bool) multiple_map) = Inr ((h, b), m')"
      "implements m' (sub_insert plus_level 0 True (\<lambda>_ _. None))" by blast
  have topic: "validate_topic_name [0x61]" "filter_matches True (tokens plus_level) (tokens [0x61])"
    by (simp_all add: validate_topic_name_def find_first_of_def topic_chars tokens.simps system_level_def)
  then have F: "{f. sub_insert plus_level 0 True (\<lambda>_ _. None) f 0 = Some True \<and> filter_matches True (tokens f) (tokens [0x61])} = {plus_level}"
    by (auto split: if_splits)
  have "length (filter (\<lambda>c. c 0 = Some True) (find_subscriptions [0x61] m')) = 1"
    using subscriptions_found [OF m'(2) topic(1), of 0 True "\<lambda>_ x. x"] unfolding F by simp
  with m'(1) show ?thesis by blast
qed

text \<open>
  A subscriber gets what it asked for. After an insertion the callbacks for every topic that the
  filter matches include the new entry. After the removal a callback for the key is due to another
  filter of this key that matches the topic.
\<close>

theorem subscribed_until_unsubscribed:
  assumes "implements m A" and "has_room f m"
  shows "\<exists>h b m1 m2. insert_or_assign f k v m = Inr ((h, b), m1) \<and> erase_filter f k m1 = Inr (1, m2) \<and>
    (\<forall>topic. validate_topic_name topic \<longrightarrow> filter_matches True (tokens f) (tokens topic) \<longrightarrow> (\<exists>c \<in> set (find_subscriptions topic m1). c k = Some v)) \<and>
    (\<forall>topic c. validate_topic_name topic \<longrightarrow> c \<in> set (find_subscriptions topic m2) \<longrightarrow> c k \<noteq> None \<longrightarrow>
       (\<exists>g. g \<noteq> f \<and> A g k \<noteq> None \<and> filter_matches True (tokens g) (tokens topic)))"
proof -
  from broker_subs.subscribed [OF assms, of k v] obtain h b m1 where m1:
    "insert_or_assign f k v m = Inr ((h, b), m1)" "implements m1 (sub_insert f k v A)"
    "\<forall>topic. validate_topic_name topic \<longrightarrow> filter_matches True (tokens f) (tokens topic) \<longrightarrow> (\<exists>c \<in> set (find_subscriptions topic m1). c k = Some v)"
    by blast
  from broker_subs.unsubscribed [OF m1(2), of f k] obtain n m2 where m2: "erase_filter f k m1 = Inr (n, m2)" "n = of_bool (sub_insert f k v A f k \<noteq> None)"
    "\<forall>topic c. validate_topic_name topic \<longrightarrow> c \<in> set (find_subscriptions topic m2) \<longrightarrow> c k \<noteq> None \<longrightarrow>
       (\<exists>g. g \<noteq> f \<and> sub_insert f k v A g k \<noteq> None \<and> filter_matches True (tokens g) (tokens topic))" by blast
  have "(\<exists>g. g \<noteq> f \<and> sub_insert f k v A g k \<noteq> None \<and> filter_matches True (tokens g) ts) \<longleftrightarrow>
      (\<exists>g. g \<noteq> f \<and> A g k \<noteq> None \<and> filter_matches True (tokens g) ts)" for ts
    by (rule ex_cong1) (simp cong: conj_cong)
  with m1(1,3) m2 show ?thesis by (intro exI conjI) simp_all
qed

theorem subscribed_until_unsubscribed_witness:
  "\<exists>h b m1 m2. insert_or_assign plus_level (0::nat) True multiple_map_init = Inr ((h, b), m1) \<and>
     (\<exists>c \<in> set (find_subscriptions [0x61] m1). c 0 = Some True) \<and> erase_filter plus_level 0 m1 = Inr (1, m2) \<and>
     (\<forall>c \<in> set (find_subscriptions [0x61] m2). c 0 = None)"
proof -
  from subscribed_until_unsubscribed [OF implements_init init_room, of 0 True] obtain h b m1 m2 where
    m: "insert_or_assign plus_level (0::nat) True multiple_map_init = Inr ((h, b), m1)" "erase_filter plus_level 0 m1 = Inr (1, m2)"
    "\<forall>topic. validate_topic_name topic \<longrightarrow> filter_matches True (tokens plus_level) (tokens topic) \<longrightarrow> (\<exists>c \<in> set (find_subscriptions topic m1). c 0 = Some True)"
    "\<forall>topic c. validate_topic_name topic \<longrightarrow> c \<in> set (find_subscriptions topic m2) \<longrightarrow> c 0 = None" by auto
  have "validate_topic_name [0x61]" "filter_matches True (tokens plus_level) (tokens [0x61])"
    by (simp_all add: validate_topic_name_def find_first_of_def topic_chars tokens.simps system_level_def)
  with m show ?thesis by (intro exI conjI) (assumption | blast)+
qed

end
