(* ===== verification/Shared_Target.thy ===== *)
theory Shared_Target
  imports Topic_Filter "HOL-Library.AList" "HOL-Library.List_Lexorder" "HOL-Library.Product_Lexorder" "HOL-Library.Multiset"
begin

text \<open>
  The sessions that share a subscription: \<^verbatim>\<open>tool/include/broker/shared_target.hpp\<close> and \<^verbatim>\<open>shared_target_impl.hpp\<close>.

  \<^item> The container has a unique index on client identifier and share name, and an index ordered by
    share name and time stamp, which keeps entries with equal keys in the order of insertion. It is the list of its
    entries in the order of the second index.
  \<^item> What is used of a session is its identity and its client identifier. A subscription is any value.
  \<^item> \<open>now\<close> is what \<^verbatim>\<open>std::chrono::steady_clock::now()\<close> returns. The mutex makes each operation one step.
\<close>

subsection \<open>Operations\<close>

record session_ref =
  ss_number :: nat
  ss_client_id :: bytes

record 'u shared_entry =
  se_share_name :: bytes
  se_ssr :: session_ref
  se_tp :: nat
  se_tf_subs :: "(bytes \<times> 'u) list"

definition se_client_id :: "'u shared_entry \<Rightarrow> bytes" where
  "se_client_id e = ss_client_id (se_ssr e)"

definition sn_tp :: "'u shared_entry \<Rightarrow> bytes \<times> nat" where
  "sn_tp e = (se_share_name e, se_tp e)"

text \<open>The ordered index: a new entry comes behind all that are not greater; a modified one stays if its place is right.\<close>

definition link_entry :: "'u shared_entry \<Rightarrow> 'u shared_entry list \<Rightarrow> 'u shared_entry list" where
  "link_entry e xs = takeWhile (\<lambda>x. sn_tp x \<le> sn_tp e) xs @ e # dropWhile (\<lambda>x. sn_tp x \<le> sn_tp e) xs"

definition modify_target :: "'u shared_entry list \<Rightarrow> 'u shared_entry \<Rightarrow> 'u shared_entry list \<Rightarrow> 'u shared_entry list" where
  "modify_target before e after =
     (if (before = [] \<or> sn_tp (last before) \<le> sn_tp e) \<and> (after = [] \<or> sn_tp e \<le> sn_tp (hd after))
      then before @ e # after
      else link_entry e (before @ after))"

definition has_cid_sn :: "bytes \<Rightarrow> bytes \<Rightarrow> 'u shared_entry \<Rightarrow> bool" where
  "has_cid_sn cid share_name e \<longleftrightarrow> se_client_id e = cid \<and> se_share_name e = share_name"

definition emplace_sub :: "bytes \<Rightarrow> 'u \<Rightarrow> 'u shared_entry \<Rightarrow> 'u shared_entry" where
  "emplace_sub topic_filter sub e =
     (if map_of (se_tf_subs e) topic_filter = None then e\<lparr>se_tf_subs := (topic_filter, sub) # se_tf_subs e\<rparr> else e)"

definition shared_insert :: "bytes \<Rightarrow> bytes \<Rightarrow> 'u \<Rightarrow> session_ref \<Rightarrow> nat \<Rightarrow> 'u shared_entry list \<Rightarrow> 'u shared_entry list" where
  "shared_insert share_name topic_filter sub ss now targets =
     (if \<not> list_ex (has_cid_sn (ss_client_id ss) share_name) targets
      then link_entry \<lparr>se_share_name = share_name, se_ssr = ss, se_tp = now, se_tf_subs = [(topic_filter, sub)]\<rparr> targets
      else map (\<lambda>e. if has_cid_sn (ss_client_id ss) share_name e then emplace_sub topic_filter sub e else e) targets)"

definition shared_erase :: "bytes \<Rightarrow> bytes \<Rightarrow> session_ref \<Rightarrow> 'u shared_entry list \<Rightarrow> 'u shared_entry list" where
  "shared_erase share_name topic_filter ss targets =
     filter (\<lambda>e. \<not> (has_cid_sn (ss_client_id ss) share_name e \<and> se_tf_subs e = []))
       (map (\<lambda>e. if has_cid_sn (ss_client_id ss) share_name e then e\<lparr>se_tf_subs := AList.delete topic_filter (se_tf_subs e)\<rparr> else e) targets)"

definition shared_erase_session :: "session_ref \<Rightarrow> 'u shared_entry list \<Rightarrow> 'u shared_entry list" where
  "shared_erase_session ss targets = filter (\<lambda>e. se_client_id e \<noteq> ss_client_id ss) targets"

definition is_target :: "bytes \<Rightarrow> bytes \<Rightarrow> 'u shared_entry \<Rightarrow> bool" where
  "is_target share_name topic_filter e \<longleftrightarrow> se_share_name e = share_name \<and> map_of (se_tf_subs e) topic_filter \<noteq> None"

definition get_target ::
  "bytes \<Rightarrow> bytes \<Rightarrow> nat \<Rightarrow> 'u shared_entry list \<Rightarrow> (session_ref \<times> 'u) option \<times> 'u shared_entry list" where
  "get_target share_name topic_filter now targets =
     (case dropWhile (\<lambda>e. \<not> is_target share_name topic_filter e) targets of
        [] \<Rightarrow> (None, targets)
      | e # after \<Rightarrow>
          (Some (se_ssr e, the (map_of (se_tf_subs e) topic_filter)),
           modify_target (takeWhile (\<lambda>e. \<not> is_target share_name topic_filter e) targets) (e\<lparr>se_tp := now\<rparr>) after))"

subsection \<open>The order of the entries\<close>

text \<open>The entries are in order, no time stamp is later than the clock, and client identifier and share name are unique.\<close>

definition in_index_order :: "'u shared_entry list \<Rightarrow> bool" where
  "in_index_order xs \<longleftrightarrow> sorted (map sn_tp xs)"

definition targets_ok :: "nat \<Rightarrow> 'u shared_entry list \<Rightarrow> bool" where
  "targets_ok now xs \<longleftrightarrow>
     in_index_order xs \<and> (\<forall>e \<in> set xs. se_tp e \<le> now) \<and> distinct (map (\<lambda>e. (se_client_id e, se_share_name e)) xs) \<and>
     (\<forall>e \<in> set xs. se_tf_subs e \<noteq> [])"

lemma set_link [simp]: "set (link_entry e xs) = insert e (set xs)"
  unfolding link_entry_def by (metis Un_insert_right list.simps(15) set_append takeWhile_dropWhile_id)

lemma mset_link: "mset (link_entry e xs) = add_mset e (mset xs)"
  unfolding link_entry_def by (metis mset.simps(2) mset_append takeWhile_dropWhile_id union_mset_add_mset_right)

lemma sorted_link: "in_index_order xs \<Longrightarrow> in_index_order (link_entry e xs)"
proof (induction xs)
  case (Cons x xs)
  show ?case
  proof (cases "sn_tp x \<le> sn_tp e")
    case True
    then have "link_entry e (x # xs) = x # link_entry e xs" by (simp add: link_entry_def)
    with Cons True show ?thesis by (auto simp: in_index_order_def)
  next
    case False
    then have "link_entry e (x # xs) = e # x # xs" by (simp add: link_entry_def)
    with Cons.prems False show ?thesis by (fastforce simp: in_index_order_def)
  qed
qed (simp add: link_entry_def in_index_order_def)

text \<open>An entry later than all others of its share name becomes the last of them.\<close>

lemma filter_link:
  assumes "in_index_order xs" and "\<forall>x \<in> set xs. P x \<longrightarrow> sn_tp x \<le> sn_tp e" and "P e"
  shows "filter P (link_entry e xs) = filter P xs @ [e]"
proof -
  have "filter P (dropWhile (\<lambda>x. sn_tp x \<le> sn_tp e) xs) = []"
    using assms(1,2)
  proof (induction xs)
    case (Cons x xs)
    then show ?case
    proof (cases "sn_tp x \<le> sn_tp e")
      case False
      have "\<not> P y" if "y \<in> set (x # xs)" for y
        using that False Cons.prems by (auto simp: in_index_order_def dest: order.trans)
      then show ?thesis using False by (auto simp: filter_empty_conv)
    qed (auto simp: in_index_order_def)
  qed simp
  moreover have "filter P xs = filter P (takeWhile (\<lambda>x. sn_tp x \<le> sn_tp e) xs) @ filter P (dropWhile (\<lambda>x. sn_tp x \<le> sn_tp e) xs)"
    by (metis filter_append takeWhile_dropWhile_id)
  ultimately show ?thesis using assms(3) by (simp add: link_entry_def)
qed

lemma sorted_split: "in_index_order (xs @ e # ys) \<Longrightarrow> in_index_order (xs @ ys)"
  by (auto simp: in_index_order_def sorted_append)

lemma mset_modify: "mset (modify_target before e after) = add_mset e (mset (before @ after))"
  by (simp add: modify_target_def mset_link)

lemma sorted_modify:
  assumes "in_index_order (before @ after)"
  shows "in_index_order (modify_target before e after)"
proof (cases "(before = [] \<or> sn_tp (last before) \<le> sn_tp e) \<and> (after = [] \<or> sn_tp e \<le> sn_tp (hd after))")
  case True
  have "sn_tp x \<le> sn_tp e" if "x \<in> set before" for x
  proof -
    have "sn_tp x \<le> sn_tp (last before)"
      using that assms by (cases before rule: rev_cases) (auto simp: in_index_order_def sorted_append)
    then show ?thesis using that True by (auto dest: order.trans)
  qed
  moreover have "sn_tp e \<le> sn_tp x" if "x \<in> set after" for x
  proof -
    have "sn_tp (hd after) \<le> sn_tp x" using that assms by (cases after) (auto simp: in_index_order_def sorted_append)
    then show ?thesis using that True by (auto dest: order.trans)
  qed
  ultimately show ?thesis using assms True by (auto simp: modify_target_def in_index_order_def sorted_append dest: order.trans)
qed (auto simp: modify_target_def assms sorted_link)

text \<open>With a time stamp later than all others, an entry becomes the last one of its share name.\<close>

lemma filter_modify:
  assumes "in_index_order (before @ after)" and "\<forall>x \<in> set (before @ after). P x \<longrightarrow> se_share_name x = se_share_name e \<and> se_tp x < se_tp e" and "P e"
  shows "filter P (modify_target before e after) = filter P (before @ after) @ [e]"
proof (cases "(before = [] \<or> sn_tp (last before) \<le> sn_tp e) \<and> (after = [] \<or> sn_tp e \<le> sn_tp (hd after))")
  case True
  have "\<not> P x" if "x \<in> set after" for x
  proof -
    have "sn_tp (hd after) \<le> sn_tp x" using that assms(1) by (cases after) (auto simp: in_index_order_def sorted_append)
    then have "sn_tp e \<le> sn_tp x" using that True by (auto dest: order.trans)
    then show ?thesis using assms(2) that by (auto simp: sn_tp_def)
  qed
  then have "filter P after = []" by (simp add: filter_empty_conv)
  then show ?thesis using True assms(3) by (simp add: modify_target_def)
next
  case False
  have "\<forall>x \<in> set (before @ after). P x \<longrightarrow> sn_tp x \<le> sn_tp e" using assms(2) by (auto simp: sn_tp_def)
  from filter_link [OF assms(1) this assms(3)] False show ?thesis by (auto simp: modify_target_def)
qed

subsection \<open>Operations keep the order\<close>

lemma set_modify: "set (modify_target before e after) = insert e (set (before @ after))"
  using arg_cong [OF mset_modify, of set_mset] by simp

lemma targets_split:
  assumes "dropWhile (\<lambda>e. \<not> is_target sn tf e) xs = e # after" and "before = takeWhile (\<lambda>e. \<not> is_target sn tf e) xs"
  shows "xs = before @ e # after \<and> is_target sn tf e \<and> filter (is_target sn tf) xs = e # filter (is_target sn tf) after"
proof -
  have x: "xs = before @ e # after" using assms by (metis takeWhile_dropWhile_id)
  have "is_target sn tf e" using assms(1) hd_dropWhile [of "\<lambda>e. \<not> is_target sn tf e" xs] by simp
  moreover have "filter (is_target sn tf) before = []" using assms(2) by (auto simp: filter_empty_conv dest: set_takeWhileD)
  ultimately show ?thesis using x by (metis append_Nil filter.simps(2) filter_append)
qed

definition target_of :: "bytes \<Rightarrow> 'u shared_entry \<Rightarrow> session_ref \<times> 'u" where
  "target_of tf e = (se_ssr e, the (map_of (se_tf_subs e) tf))"

definition shared_targets :: "bytes \<Rightarrow> bytes \<Rightarrow> 'u shared_entry list \<Rightarrow> (session_ref \<times> 'u) list" where
  "shared_targets sn tf xs = map (target_of tf) (filter (is_target sn tf) xs)"

lemma targets_ok_later: "targets_ok t xs \<Longrightarrow> t \<le> now \<Longrightarrow> targets_ok now xs"
  by (auto simp: targets_ok_def dest: order.trans)

lemma targets_ok_modify:
  assumes "targets_ok t (before @ e # after)" and "t \<le> now"
  shows "targets_ok now (modify_target before (e\<lparr>se_tp := now\<rparr>) after)"
proof -
  let ?e = "e\<lparr>se_tp := now\<rparr>" and ?f = "\<lambda>e. (se_client_id e, se_share_name e)"
  have "mset (map ?f (modify_target before ?e after)) = mset (map ?f (before @ e # after))"
    by (simp add: mset_modify se_client_id_def)
  then have "distinct (map ?f (modify_target before ?e after)) \<longleftrightarrow> distinct (map ?f (before @ e # after))"
    by (rule mset_eq_imp_distinct_iff)
  moreover have "in_index_order (modify_target before ?e after)"
    using assms(1) by (intro sorted_modify sorted_split [of before e after]) (simp add: targets_ok_def)
  moreover have "\<forall>x \<in> set (modify_target before ?e after). se_tp x \<le> now \<and> se_tf_subs x \<noteq> []"
    using assms by (auto simp: targets_ok_def set_modify dest: order.trans)
  ultimately show ?thesis using assms(1) unfolding targets_ok_def by blast
qed

lemma get_target_step:
  assumes "targets_ok t xs" and "t < now" and "get_target sn tf now xs = (r, xs')"
  shows "targets_ok now xs' \<and>
    (case shared_targets sn tf xs of [] \<Rightarrow> r = None \<and> xs' = xs | x # ts \<Rightarrow> r = Some x \<and> shared_targets sn tf xs' = ts @ [x])"
proof (cases "dropWhile (\<lambda>e. \<not> is_target sn tf e) xs")
  case Nil
  have "r = None" "xs' = xs" using assms(3) unfolding get_target_def Nil by simp_all
  moreover have "filter (is_target sn tf) xs = []" using Nil by (simp add: filter_empty_conv dropWhile_eq_Nil_conv)
  ultimately show ?thesis using assms(2) targets_ok_later [OF assms(1), of now] by (simp add: shared_targets_def)
next
  case (Cons e after)
  define before where "before = takeWhile (\<lambda>e. \<not> is_target sn tf e) xs"
  note x = targets_split [OF Cons before_def]
  let ?e = "e\<lparr>se_tp := now\<rparr>"
  have r: "r = Some (target_of tf e)" "xs' = modify_target before ?e after"
    using assms(3) Cons by (simp_all add: get_target_def before_def target_of_def)
  have "filter (is_target sn tf) xs' = filter (is_target sn tf) (before @ after) @ [?e]"
    unfolding r(2)
  proof (rule filter_modify)
    show "in_index_order (before @ after)" using assms(1) x sorted_split by (metis targets_ok_def)
    show "\<forall>y \<in> set (before @ after). is_target sn tf y \<longrightarrow> se_share_name y = se_share_name ?e \<and> se_tp y < se_tp ?e"
    proof (intro ballI impI)
      fix y assume y: "y \<in> set (before @ after)" "is_target sn tf y"
      then have "y \<in> set xs" using x by auto
      then have "se_tp y \<le> t" using assms(1) by (simp add: targets_ok_def)
      then show "se_share_name y = se_share_name ?e \<and> se_tp y < se_tp ?e" using y(2) x assms(2) by (simp add: is_target_def)
    qed
    show "is_target sn tf ?e" using x by (simp add: is_target_def)
  qed
  moreover have "filter (is_target sn tf) before = []" using before_def by (auto simp: filter_empty_conv dest: set_takeWhileD)
  ultimately show ?thesis
    using x r targets_ok_modify [of t before e after now] assms(1,2) by (simp add: shared_targets_def target_of_def)
qed

abbreviation cid_sn :: "'u shared_entry \<Rightarrow> bytes \<times> bytes" where
  "cid_sn e \<equiv> (se_client_id e, se_share_name e)"

lemma map_entries:
  assumes "\<And>e. se_ssr (g e) = se_ssr e" "\<And>e. se_share_name (g e) = se_share_name e" "\<And>e. se_tp (g e) = se_tp e"
  shows "map sn_tp (map g xs) = map sn_tp xs" "map cid_sn (map g xs) = map cid_sn xs"
  using assms by (simp_all add: sn_tp_def se_client_id_def)

lemma targets_ok_map:
  assumes "targets_ok t xs" and "t \<le> now" and "\<And>e. se_ssr (g e) = se_ssr e" "\<And>e. se_share_name (g e) = se_share_name e" "\<And>e. se_tp (g e) = se_tp e"
    and "\<And>e. e \<in> set xs \<Longrightarrow> P (g e) \<Longrightarrow> se_tf_subs (g e) \<noteq> []"
  shows "targets_ok now (filter P (map g xs))"
proof -
  have "sorted (map sn_tp (map g xs))" "distinct (map cid_sn (map g xs))"
    using assms(1) unfolding map_entries [OF assms(3-5)] targets_ok_def in_index_order_def by blast+
  then have "in_index_order (filter P (map g xs))" "distinct (map cid_sn (filter P (map g xs)))"
    unfolding in_index_order_def by (auto intro: sorted_filter distinct_map_filter simp del: map_map distinct_map)
  moreover have "\<forall>x \<in> set (filter P (map g xs)). se_tp x \<le> now \<and> se_tf_subs x \<noteq> []"
    using assms by (auto simp: targets_ok_def dest: order.trans)
  ultimately show ?thesis unfolding targets_ok_def by blast
qed

lemma targets_ok_insert:
  assumes "targets_ok t xs" and "t \<le> now"
  shows "targets_ok now (shared_insert sn tf sub ss now xs)"
proof (cases "list_ex (has_cid_sn (ss_client_id ss) sn) xs")
  case True
  let ?g = "\<lambda>e. if has_cid_sn (ss_client_id ss) sn e then emplace_sub tf sub e else e"
  have "targets_ok now (filter (\<lambda>_. True) (map ?g xs))"
    by (rule targets_ok_map [OF assms]) (use assms(1) in \<open>auto simp: emplace_sub_def targets_ok_def\<close>)
  then show ?thesis using True by (simp add: shared_insert_def)
next
  case False
  let ?e = "\<lparr>se_share_name = sn, se_ssr = ss, se_tp = now, se_tf_subs = [(tf, sub)]\<rparr>"
  have "distinct (map (\<lambda>e. (se_client_id e, se_share_name e)) (?e # xs))"
    using False assms(1) by (auto simp: targets_ok_def list_ex_iff has_cid_sn_def se_client_id_def)
  moreover have "mset (map (\<lambda>e. (se_client_id e, se_share_name e)) (link_entry ?e xs)) = mset (map (\<lambda>e. (se_client_id e, se_share_name e)) (?e # xs))"
    by (simp add: mset_link)
  ultimately have "distinct (map (\<lambda>e. (se_client_id e, se_share_name e)) (link_entry ?e xs))" using mset_eq_imp_distinct_iff by blast
  moreover have "in_index_order (link_entry ?e xs)" using assms(1) by (intro sorted_link) (simp add: targets_ok_def)
  moreover have "\<forall>x \<in> set (link_entry ?e xs). se_tp x \<le> now \<and> se_tf_subs x \<noteq> []"
    using assms by (auto simp: targets_ok_def dest: order.trans)
  ultimately show ?thesis using False unfolding shared_insert_def targets_ok_def by simp
qed

lemma targets_ok_filter: "targets_ok t xs \<Longrightarrow> targets_ok t (filter P xs)"
  by (auto simp: targets_ok_def in_index_order_def distinct_map_filter sorted_filter)

lemma targets_ok_erase:
  assumes "targets_ok t xs"
  shows "targets_ok t (shared_erase sn tf ss xs)"
  unfolding shared_erase_def
  by (rule targets_ok_map [OF assms])
    (use assms in \<open>auto simp: targets_ok_def has_cid_sn_def se_client_id_def split: if_splits\<close>)

subsection \<open>Runs\<close>

datatype 'u shared_op = Sh_insert bytes bytes 'u session_ref | Sh_erase bytes bytes session_ref | Sh_erase_session session_ref | Sh_get bytes bytes

fun shared_step :: "nat \<Rightarrow> 'u shared_op \<Rightarrow> 'u shared_entry list \<Rightarrow> 'u shared_entry list" where
  "shared_step now (Sh_insert sn tf sub ss) xs = shared_insert sn tf sub ss now xs"
| "shared_step now (Sh_erase sn tf ss) xs = shared_erase sn tf ss xs"
| "shared_step now (Sh_erase_session ss) xs = shared_erase_session ss xs"
| "shared_step now (Sh_get sn tf) xs = snd (get_target sn tf now xs)"

text \<open>Calls with the time at which they are made, and the results of several calls of \<^verbatim>\<open>get_target\<close>.\<close>

fun shared_run :: "(nat \<times> 'u shared_op) list \<Rightarrow> 'u shared_entry list \<Rightarrow> 'u shared_entry list" where
  "shared_run [] xs = xs"
| "shared_run ((now, op) # ops) xs = shared_run ops (shared_step now op xs)"

fun get_targets :: "bytes \<Rightarrow> bytes \<Rightarrow> nat list \<Rightarrow> 'u shared_entry list \<Rightarrow> (session_ref \<times> 'u) option list" where
  "get_targets sn tf [] xs = []"
| "get_targets sn tf (now # nows) xs = (let (r, xs) = get_target sn tf now xs in r # get_targets sn tf nows xs)"

lemma shared_step_ok:
  assumes "targets_ok t xs" and "t < now"
  shows "targets_ok now (shared_step now op xs)"
proof (cases op)
  case (Sh_get sn tf)
  then show ?thesis using get_target_step [OF assms, of sn tf] by (cases "get_target sn tf now xs") auto
next
  case (Sh_insert sn tf sub ss)
  then show ?thesis using targets_ok_insert [OF assms(1)] assms(2) by simp
next
  case (Sh_erase sn tf ss)
  then show ?thesis using targets_ok_later [OF targets_ok_erase [OF assms(1)]] assms(2) by simp
next
  case (Sh_erase_session ss)
  then show ?thesis using targets_ok_later [OF targets_ok_filter [OF assms(1)]] assms(2) by (simp add: shared_erase_session_def)
qed

lemma shared_run_ok:
  "targets_ok t xs \<Longrightarrow> sorted_wrt (<) (t # map fst ops) \<Longrightarrow> targets_ok (last (t # map fst ops)) (shared_run ops xs)"
proof (induction ops arbitrary: t xs)
  case (Cons op ops)
  obtain now o' where op: "op = (now, o')" by fastforce
  with Cons.IH [of now "shared_step now o' xs"] Cons.prems shared_step_ok [of t xs now o'] show ?case by simp
qed simp

lemma rotates:
  assumes "targets_ok t xs" and "sorted_wrt (<) (t # nows)" and "ts = shared_targets sn tf xs"
  shows "get_targets sn tf nows xs = map (\<lambda>i. if ts = [] then None else Some (ts ! (i mod length ts))) [0..<length nows]"
  using assms
proof (induction nows arbitrary: t xs ts)
  case (Cons now nows)
  obtain r xs' where g: "get_target sn tf now xs = (r, xs')" by fastforce
  have "t < now" using Cons.prems(2) by simp
  note st = get_target_step [OF Cons.prems(1) this g]
  have up: "[0..<length (now # nows)] = 0 # map Suc [0..<length nows]" by (simp add: upt_conv_Cons map_Suc_upt del: upt_Suc)
  show ?case
  proof (cases ts)
    case Nil
    then have "r = None" "xs' = xs" "targets_ok now xs" using st Cons.prems(3) by auto
    then show ?thesis using g Nil Cons.IH [of now xs ts] Cons.prems(2,3) unfolding up by (simp add: comp_def)
  next
    case (Cons x ts')
    let ?us = "ts' @ [x]"
    have us: "shared_targets sn tf xs' = ?us" "r = Some x" using st Cons Cons.prems(3) by auto
    have "get_targets sn tf nows xs' = map (\<lambda>i. Some (?us ! (i mod length ?us))) [0..<length nows]"
      using Cons.IH [of now xs' ?us] st us Cons.prems(2) by simp
    moreover have "?us ! (i mod length ?us) = ts ! (Suc i mod length ts)" for i
    proof -
      have us: "?us = rotate1 ts" using Cons by simp
      have "rotate1 ts ! (i mod length ts) = ts ! (Suc (i mod length ts) mod length ts)" by (rule nth_rotate1) (simp add: Cons)
      then show ?thesis unfolding us length_rotate1 mod_Suc_eq .
    qed
    ultimately show ?thesis using g us Cons unfolding up by simp
  qed
qed simp


definition sample_sharing :: "(nat \<times> nat shared_op) list" where
  "sample_sharing =
     (let s = (\<lambda>i. \<lparr>ss_number = i, ss_client_id = [of_nat i]\<rparr>)
      in [(1, Sh_insert [0x61] [0x74] 0 (s 1)), (2, Sh_insert [0x61] [0x74] 0 (s 2)), (3, Sh_get [0x61] [0x74]),
          (4, Sh_insert [0x62] [0x74] 0 (s 3)), (5, Sh_insert [0x61] [0x74] 0 (s 3))])"


text \<open>Who is a target: subscriptions add and remove exactly the session and the filter they name.\<close>

theorem shared_membership:
  assumes "targets_ok t xs"
  shows "(\<exists>e \<in> set (shared_insert sn tf sub ss now xs). is_target sn' tf' e \<and> se_client_id e = c) \<longleftrightarrow>
      (\<exists>e \<in> set xs. is_target sn' tf' e \<and> se_client_id e = c) \<or> (sn', tf', c) = (sn, tf, ss_client_id ss)" (is ?ins)
    and "(\<exists>e \<in> set (shared_erase sn tf ss xs). is_target sn' tf' e \<and> se_client_id e = c) \<longleftrightarrow>
      (\<exists>e \<in> set xs. is_target sn' tf' e \<and> se_client_id e = c) \<and> (sn', tf', c) \<noteq> (sn, tf, ss_client_id ss)" (is ?era)
    and "(\<exists>e \<in> set (shared_erase_session ss xs). is_target sn' tf' e \<and> se_client_id e = c) \<longleftrightarrow>
      (\<exists>e \<in> set xs. is_target sn' tf' e \<and> se_client_id e = c) \<and> c \<noteq> ss_client_id ss" (is ?ses)
proof -
  show ?ins
  proof (cases "list_ex (has_cid_sn (ss_client_id ss) sn) xs")
    case True
    then obtain e0 where "e0 \<in> set xs" "has_cid_sn (ss_client_id ss) sn e0" by (auto simp: list_ex_iff)
    moreover have "is_target sn' tf' (emplace_sub tf sub e) \<longleftrightarrow> is_target sn' tf' e \<or> se_share_name e = sn' \<and> tf' = tf"
      and "se_client_id (emplace_sub tf sub e) = se_client_id e" for e
      by (auto simp: emplace_sub_def is_target_def se_client_id_def)
    ultimately show ?thesis using True by (auto simp: shared_insert_def has_cid_sn_def bex_Un split: if_splits)
  next
    case False
    then show ?thesis by (auto simp: shared_insert_def is_target_def se_client_id_def split: if_splits)
  qed
  show ?era
  proof -
    let ?own = "has_cid_sn (ss_client_id ss) sn"
    let ?g = "\<lambda>e. if ?own e then e\<lparr>se_tf_subs := AList.delete tf (se_tf_subs e)\<rparr> else e"
    have del: "map_of (AList.delete tf subs) tf' \<noteq> None \<longleftrightarrow> map_of subs tf' \<noteq> None \<and> tf' \<noteq> tf" for subs :: "(bytes \<times> 'b) list"
      by (simp add: delete_conv')
    have some: "map_of subs tf' \<noteq> None \<Longrightarrow> subs \<noteq> []" for subs :: "(bytes \<times> 'b) list" by auto
    have g: "\<not> (?own (?g e) \<and> se_tf_subs (?g e) = []) \<and> is_target sn' tf' (?g e) \<and> se_client_id (?g e) = c \<longleftrightarrow>
        is_target sn' tf' e \<and> se_client_id e = c \<and> (sn', tf', c) \<noteq> (sn, tf, ss_client_id ss)" for e
      using del [of "se_tf_subs e"] some [of "AList.delete tf (se_tf_subs e)"]
      by (auto simp: is_target_def has_cid_sn_def se_client_id_def)
    have "(\<exists>e \<in> set (shared_erase sn tf ss xs). is_target sn' tf' e \<and> se_client_id e = c) \<longleftrightarrow>
        (\<exists>e \<in> set xs. \<not> (?own (?g e) \<and> se_tf_subs (?g e) = []) \<and> is_target sn' tf' (?g e) \<and> se_client_id (?g e) = c)"
      unfolding shared_erase_def set_filter set_map by blast
    then show ?thesis unfolding g by blast
  qed
  show ?ses by (auto simp: shared_erase_session_def)
qed

end
