(* ===== verification/Broker_Session.thy ===== *)
theory Broker_Session
  imports Subscription_Spec Shared_Target Packet_Basics
begin

text \<open>
  The subscriptions of the sessions of the broker: the part of \<^verbatim>\<open>session_state\<close>
  (\<^verbatim>\<open>tool/include/broker/session_state.hpp\<close>) that works on the subscription map and on the shared targets.

  \<^item> The map and the targets belong to the broker; \<^verbatim>\<open>handles_\<close>, a set of the session, is the ordered list of its elements.
  \<^item> An exception of the map is \<open>Inl\<close>. \<open>None\<close> would be a walk along the handles that does not end.
\<close>

subsection \<open>Operations\<close>

record subscription =
  sb_ss :: session_ref
  sb_sharename :: bytes
  sb_topic :: bytes
  sb_opts :: subopts
  sb_sid :: "nat option"

type_synonym sub_con_map = "(bytes, subscription) multiple_map"

record broker_subs =
  br_subs_map :: sub_con_map
  br_shared_targets :: "subscription shared_entry list"
  br_handles :: "session_ref \<Rightarrow> node_key list"

definition broker_subs_init :: broker_subs where
  "broker_subs_init = \<lparr>br_subs_map = multiple_map_init, br_shared_targets = [], br_handles = (\<lambda>_. [])\<rparr>"

text \<open>\<^verbatim>\<open>subscribe\<close>, with whether the retained messages are to be sent.\<close>

definition session_subscribe ::
  "session_ref \<Rightarrow> bytes \<Rightarrow> bytes \<Rightarrow> subopts \<Rightarrow> nat option \<Rightarrow> nat \<Rightarrow> broker_subs \<Rightarrow> map_error + bool \<times> broker_subs" where
  "session_subscribe ss share_name topic_filter subopts sid now b =
     (let sub = \<lparr>sb_ss = ss, sb_sharename = share_name, sb_topic = topic_filter, sb_opts = subopts, sb_sid = sid\<rparr>;
          b = (if share_name \<noteq> [] then b\<lparr>br_shared_targets := shared_insert share_name topic_filter sub ss now (br_shared_targets b)\<rparr> else b) in
      bindE (insert_or_assign topic_filter (ss_client_id ss) sub (br_subs_map b)) (\<lambda>((h, inserted), m).
      let b = b\<lparr>br_subs_map := m\<rparr>; rh = sub_get_retain_handling subopts in
      if inserted then
        Inr (rh = rh_send \<or> rh = rh_send_only_new_subscription, b\<lparr>br_handles := (br_handles b)(ss := insort_insert h (br_handles b ss))\<rparr>)
      else Inr (rh = rh_send, b)))"

definition session_unsubscribe :: "session_ref \<Rightarrow> bytes \<Rightarrow> bytes \<Rightarrow> broker_subs \<Rightarrow> (map_error + broker_subs) option" where
  "session_unsubscribe ss share_name topic_filter b =
     (let b = (if share_name \<noteq> [] then b\<lparr>br_shared_targets := shared_erase share_name topic_filter ss (br_shared_targets b)\<rparr> else b) in
      case lookup_filter topic_filter (br_subs_map b) of
        None \<Rightarrow> Some (Inr b)
      | Some h \<Rightarrow>
          map_option (\<lambda>r. bindE r (\<lambda>(n, m). Inr (b\<lparr>br_subs_map := m, br_handles := (br_handles b)(ss := removeAll h (br_handles b ss))\<rparr>)))
            (erase_handle h (ss_client_id ss) (br_subs_map b)))"

fun erase_handles :: "node_key list \<Rightarrow> bytes \<Rightarrow> sub_con_map \<Rightarrow> (map_error + sub_con_map) option" where
  "erase_handles [] cid m = Some (Inr m)"
| "erase_handles (h # hs) cid m =
     Option.bind (erase_handle h cid m) (\<lambda>r. case r of Inl e \<Rightarrow> Some (Inl e) | Inr (n, m) \<Rightarrow> erase_handles hs cid m)"

definition session_unsubscribe_all :: "session_ref \<Rightarrow> broker_subs \<Rightarrow> (map_error + broker_subs) option" where
  "session_unsubscribe_all ss b =
     map_option (\<lambda>r. bindE r (\<lambda>m. Inr (b\<lparr>br_subs_map := m, br_handles := (br_handles b)(ss := [])\<rparr>)))
       (erase_handles (br_handles b ss) (ss_client_id ss) (br_subs_map b))"

text \<open>What \<^verbatim>\<open>clean\<close> does to the subscriptions.\<close>

definition session_clean :: "session_ref \<Rightarrow> broker_subs \<Rightarrow> (map_error + broker_subs) option" where
  "session_clean ss b =
     map_option (\<lambda>r. bindE r (\<lambda>b. Inr (b\<lparr>br_shared_targets := shared_erase_session ss (br_shared_targets b)\<rparr>))) (session_unsubscribe_all ss b)"

subsection \<open>Handles\<close>

text \<open>The handles of a session are those of the filters it has subscribed to.\<close>

definition handles_of :: "bytes \<Rightarrow> sub_con_map \<Rightarrow> (bytes, subscription) subscriptions \<Rightarrow> node_key set" where
  "handles_of cid m A = {h. \<exists>f. A f cid \<noteq> None \<and> root_path m (tokens f) = Some h}"

lemma implements_path:
  assumes "implements m A" and "A f k \<noteq> None"
  shows "\<exists>h. root_path m (tokens f) = Some h"
proof (cases "root_path m (tokens f)")
  case None
  then have "content m (tokens f) = (\<lambda>_. None)" by (rule content_None)
  then show ?thesis using implements_content [OF assms(1), of f] assms(2) by simp
qed blast

lemma path_inj: "implements m A \<Longrightarrow> root_path m (tokens f) = Some h \<Longrightarrow> root_path m (tokens g) = Some h \<Longrightarrow> f = g"
  using root_path_inj [of m "tokens f" h "tokens g"] by (simp add: implements_def sm_ok_def tokens_inject)

text \<open>Insertion and removal at one filter leave the handles of the others as they are.\<close>

lemma subscribe_map:
  assumes "implements m A" and "has_room f m"
  shows "\<exists>h b m'. insert_or_assign f k v m = Inr ((h, b), m') \<and> implements m' (sub_insert f k v A) \<and> (b \<longleftrightarrow> A f k = None) \<and>
    handles_of k m' (sub_insert f k v A) = insert h (handles_of k m A) \<and> (\<not> b \<longrightarrow> h \<in> handles_of k m A) \<and>
    (\<forall>j. j \<noteq> k \<longrightarrow> handles_of j m' (sub_insert f k v A) = handles_of j m A)"
proof -
  from assms insert_or_assign_ok [of m f k v] obtain hb m' where m': "insert_or_assign f k v m = Inr (hb, m')" "stored (tokens f) k v m hb m'"
    by (auto simp: implements_def has_room_def)
  obtain h b where hb: "hb = (h, b)" by fastforce
  note st = implements_stored [OF assms(1) m'(2)]
  have keep: "root_path m' (tokens g) = root_path m (tokens g)" if a: "A g j \<noteq> None" for g j
  proof -
    obtain h' where "root_path m (tokens g) = Some h'" using implements_path [OF assms(1) a] by blast
    moreover from this have "root_path m' (tokens g) = Some h'" using m'(2) unfolding stored_def by blast
    ultimately show ?thesis by simp
  qed
  have "handles_of j m' (sub_insert f k v A) = (if j = k then insert h (handles_of k m A) else handles_of j m A)" for j
  proof (cases "j = k")
    case True
    have "h' \<in> handles_of k m' (sub_insert f k v A) \<longleftrightarrow> h' = h \<or> h' \<in> handles_of k m A" for h'
    proof -
      have new: "sub_insert f k v A g k \<noteq> None \<longleftrightarrow> g = f \<or> A g k \<noteq> None" for g by auto
      have "h' \<in> handles_of k m' (sub_insert f k v A) \<longleftrightarrow>
          root_path m' (tokens f) = Some h' \<or> (\<exists>g. A g k \<noteq> None \<and> root_path m' (tokens g) = Some h')"
        unfolding handles_of_def mem_Collect_eq new by blast
      moreover have "A g k \<noteq> None \<and> root_path m' (tokens g) = Some h' \<longleftrightarrow> A g k \<noteq> None \<and> root_path m (tokens g) = Some h'" for g
        using keep [of g k] by auto
      ultimately show ?thesis using st hb unfolding handles_of_def mem_Collect_eq by auto
    qed
    then show ?thesis unfolding set_eq_iff using True by simp
  next
    case False
    then have "sub_insert f k v A g j = A g j" for g by simp
    moreover have "A g j \<noteq> None \<and> root_path m' (tokens g) = Some h' \<longleftrightarrow> A g j \<noteq> None \<and> root_path m (tokens g) = Some h'" for g h'
      using keep [of g j] by auto
    ultimately show ?thesis using False by (simp only: handles_of_def if_False)
  qed
  moreover have "h \<in> handles_of k m A" if "\<not> b"
    using that st hb keep [of f k] unfolding handles_of_def by auto
  ultimately show ?thesis using m'(1) st hb by (intro exI [of _ h] exI [of _ b] exI [of _ m']) auto
qed

lemma unsubscribe_map:
  assumes "implements m A" and "root_path m (tokens f) = Some h"
  shows "\<exists>n m'. erase_handle h k m = Some (Inr (n, m')) \<and> implements m' (sub_erase f k A) \<and>
    handles_of k m' (sub_erase f k A) = handles_of k m A - {h} \<and> (\<forall>j. j \<noteq> k \<longrightarrow> handles_of j m' (sub_erase f k A) = handles_of j m A)"
proof -
  from assms erase_handle_ok [of m "tokens f" h k] obtain n m' where m': "erase_handle h k m = Some (Inr (n, m'))" "erased (tokens f) k m n m'"
    by (auto simp: implements_def)
  note er = implements_erased [OF assms(1) m'(2)]
  have keep: "root_path m' (tokens g) = root_path m (tokens g)" if a: "sub_erase f k A g j \<noteq> None" for g j
  proof -
    obtain h' where h': "root_path m' (tokens g) = Some h'" using implements_path [OF conjunct1 [OF er] a] by blast
    then have "root_path m (tokens g) = Some h'" using m'(2) unfolding erased_def by blast
    with h' show ?thesis by simp
  qed
  have "handles_of j m' (sub_erase f k A) = (if j = k then handles_of k m A - {h} else handles_of j m A)" for j
  proof -
    have "h' \<in> handles_of j m' (sub_erase f k A) \<longleftrightarrow> (\<exists>g. sub_erase f k A g j \<noteq> None \<and> root_path m (tokens g) = Some h')" for h'
      unfolding handles_of_def mem_Collect_eq using keep by metis
    moreover have "sub_erase f k A g j \<noteq> None \<longleftrightarrow> A g j \<noteq> None \<and> \<not> (g = f \<and> j = k)" for g by auto
    ultimately have e: "h' \<in> handles_of j m' (sub_erase f k A) \<longleftrightarrow>
        (\<exists>g. A g j \<noteq> None \<and> \<not> (g = f \<and> j = k) \<and> root_path m (tokens g) = Some h')" for h' by metis
    show ?thesis
    proof (cases "j = k")
      case True
      have same: "g = f \<longleftrightarrow> h' = h" if rp: "root_path m (tokens g) = Some h'" for g h'
      proof
        assume "h' = h"
        then show "g = f" using path_inj [OF assms(1) _ assms(2), of g] rp by simp
      qed (use rp assms(2) in simp)
      have one: "A g j \<noteq> None \<and> \<not> (g = f \<and> j = k) \<and> root_path m (tokens g) = Some h' \<longleftrightarrow>
          (A g k \<noteq> None \<and> root_path m (tokens g) = Some h') \<and> h' \<noteq> h" for g h'
        using True same [of g h'] by (cases "root_path m (tokens g) = Some h'") simp_all
      have "h' \<in> handles_of j m' (sub_erase f k A) \<longleftrightarrow> h' \<in> handles_of k m A - {h}" for h'
        unfolding e one by (simp only: handles_of_def Diff_iff mem_Collect_eq singleton_iff ex_simps)
      then show ?thesis unfolding set_eq_iff using True by simp
    next
      case False
      then have "h' \<in> handles_of j m' (sub_erase f k A) \<longleftrightarrow> h' \<in> handles_of j m A" for h'
        unfolding e by (simp only: handles_of_def mem_Collect_eq simp_thms)
      then show ?thesis unfolding set_eq_iff using False by simp
    qed
  qed
  then show ?thesis using m'(1) er by (intro exI [of _ n] exI [of _ m']) auto
qed

lemma erase_handles_ok:
  assumes "implements m A" and "distinct hs" and "set hs \<subseteq> handles_of k m A"
  shows "\<exists>m' A'. erase_handles hs k m = Some (Inr m') \<and> implements m' A' \<and> handles_of k m' A' = handles_of k m A - set hs \<and>
    (\<forall>j. j \<noteq> k \<longrightarrow> handles_of j m' A' = handles_of j m A \<and> (\<forall>f. A' f j = A f j)) \<and> (\<forall>f. A' f k = None \<or> A' f k = A f k)"
  using assms
proof (induction hs arbitrary: m A)
  case (Cons h hs)
  from Cons.prems(3) obtain f where f: "root_path m (tokens f) = Some h" unfolding handles_of_def by auto
  from unsubscribe_map [OF Cons.prems(1) f, of k] obtain n m1 where
    m1: "erase_handle h k m = Some (Inr (n, m1))" "implements m1 (sub_erase f k A)" "handles_of k m1 (sub_erase f k A) = handles_of k m A - {h}"
      "\<forall>j. j \<noteq> k \<longrightarrow> handles_of j m1 (sub_erase f k A) = handles_of j m A" by blast
  have hs: "distinct hs" "set hs \<subseteq> handles_of k m1 (sub_erase f k A)" using Cons.prems(2,3) m1(3) by auto
  from Cons.IH [OF m1(2) hs] obtain m' A' where
    m': "erase_handles hs k m1 = Some (Inr m')" "implements m' A'" "handles_of k m' A' = handles_of k m1 (sub_erase f k A) - set hs"
      "\<forall>j. j \<noteq> k \<longrightarrow> handles_of j m' A' = handles_of j m1 (sub_erase f k A) \<and> (\<forall>g. A' g j = sub_erase f k A g j)"
      "\<forall>g. A' g k = None \<or> A' g k = sub_erase f k A g k" by blast
  have "handles_of k m' A' = handles_of k m A - set (h # hs)" unfolding m'(3) m1(3) by auto
  moreover have "\<forall>j. j \<noteq> k \<longrightarrow> handles_of j m' A' = handles_of j m A \<and> (\<forall>g. A' g j = A g j)" using m'(4) m1(4) by auto
  moreover have "\<forall>g. A' g k = None \<or> A' g k = A g k" using m'(5) by (auto split: if_splits)
  moreover have "erase_handles (h # hs) k m = Some (Inr m')" using m1(1) m'(1) by simp
  ultimately show ?case using m'(2) by blast
qed auto

abbreviation sub_clean :: "'k \<Rightarrow> ('k, 'w) subscriptions \<Rightarrow> ('k, 'w) subscriptions" where
  "sub_clean k A \<equiv> \<lambda>f. (A f)(k := None)"

lemma no_handles: "implements m A \<Longrightarrow> handles_of k m A = {} \<Longrightarrow> A f k = None"
  using implements_path [of m A f k] unfolding handles_of_def by blast

lemma erase_all_handles:
  assumes "implements m A" and "distinct hs" and "set hs = handles_of k m A"
  shows "\<exists>m'. erase_handles hs k m = Some (Inr m') \<and> implements m' (sub_clean k A) \<and> handles_of k m' (sub_clean k A) = {} \<and>
    (\<forall>j. j \<noteq> k \<longrightarrow> handles_of j m' (sub_clean k A) = handles_of j m A)"
proof -
  from erase_handles_ok [OF assms(1,2), of k] assms(3) obtain m' A' where
    m': "erase_handles hs k m = Some (Inr m')" "implements m' A'" "handles_of k m' A' = {}"
      "\<forall>j. j \<noteq> k \<longrightarrow> handles_of j m' A' = handles_of j m A \<and> (\<forall>f. A' f j = A f j)" by auto
  have "A' = sub_clean k A" using m'(4) no_handles [OF m'(2,3)] by (auto simp: fun_eq_iff)
  with m' show ?thesis by blast
qed

subsection \<open>Identifiers used\<close>

text \<open>An insertion takes at most one identifier of a node for each level of its filter; a removal takes none.\<close>

lemma create_level_ids: "create_level dv t (m, parent, res) = Inr (m', s) \<Longrightarrow> sm_next_node_id m' \<le> sm_next_node_id m + 1"
  by (auto simp: create_level_def generate_node_id_def bindE_eq_Inr Let_def split: option.splits if_splits)

lemma create_run_ids:
  "snd (run_tokens (throwing (create_level dv)) ts (Inr (m, parent, res))) = Inr (m', s) \<Longrightarrow> sm_next_node_id m' \<le> sm_next_node_id m + length ts"
proof (induction ts arbitrary: m parent res)
  case (Cons t ts)
  show ?case
  proof (cases "create_level dv t (m, parent, res)")
    case (Inr r)
    obtain m1 p1 r1 where r: "r = (m1, p1, r1)" by (cases r)
    have "sm_next_node_id m1 \<le> sm_next_node_id m + 1" using create_level_ids [of dv t m parent res m1 "(p1, r1)"] Inr r by simp
    then show ?thesis using Cons.IH [of m1 p1 r1] Cons.prems Inr r by (cases "ts = []") (auto simp: throwing_Inr case_prod_unfold Let_def)
  qed (use Cons.prems in \<open>auto simp: throwing_def\<close>)
qed simp

lemma increase_subscriptions_ids: "increase_subscriptions ks m = Inr m' \<Longrightarrow> sm_next_node_id m' = sm_next_node_id m"
  by (induction ks arbitrary: m) (auto simp: bindE_eq_Inr increase_node_def increase_count_storage_def split: option.splits if_splits)

lemma insert_ids:
  "insert_or_assign f k v m = Inr (r, m') \<Longrightarrow> sm_next_node_id m' \<le> sm_next_node_id m + length (tokens f)"
  by (auto simp: insert_or_assign_def create_topic_filter_def topic_filter_tokenizer_tokens increase_map_size_def bindE_eq_Inr Let_def
    dest!: create_run_ids increase_subscriptions_ids split: if_splits)

lemma remove_loop_ids: "remove_loop ks rp rh m = Inr (a, c, m') \<Longrightarrow> sm_next_node_id m' = sm_next_node_id m"
  by (induction ks arbitrary: rp rh m) (auto simp: bindE_eq_Inr Let_def split: option.splits if_splits)

lemma erase_ids: "erase_handle h k m = Some (Inr (n, m')) \<Longrightarrow> sm_next_node_id m' = sm_next_node_id m"
  by (auto simp: erase_handle_def remove_topic_filter_def decrease_map_size_def bindE_eq_Inr Let_def dest!: remove_loop_ids split: if_splits)

lemma erase_handles_ids: "erase_handles hs k m = Some (Inr m') \<Longrightarrow> sm_next_node_id m' = sm_next_node_id m"
proof (induction hs arbitrary: m)
  case (Cons h hs)
  then obtain n m1 where "erase_handle h k m = Some (Inr (n, m1))" "erase_handles hs k m1 = Some (Inr m')"
    by (cases "erase_handle h k m") (auto split: sum.splits)
  then show ?case using Cons.IH [of m1] erase_ids [of h k m n m1] by simp
qed simp

subsection \<open>The invariant\<close>

text \<open>
  The sessions \<open>S\<close> of the broker have different client identifiers. The map implements the subscriptions \<open>A\<close>,
  a session has exactly the handles of its filters, every shared subscription in the map has a target, and a subscription
  identifier is a value that a property can have.
\<close>

definition sid_ok :: "nat option \<Rightarrow> bool" where
  "sid_ok sid \<longleftrightarrow> (\<forall>n. sid = Some n \<longrightarrow> 0 < n \<and> n \<le> 268435455)"

definition target_entry_ok :: "session_ref set \<Rightarrow> subscription shared_entry \<Rightarrow> bool" where
  "target_entry_ok S e \<longleftrightarrow> se_ssr e \<in> S \<and> se_share_name e \<noteq> [] \<and>
     (\<forall>(tf, sub) \<in> set (se_tf_subs e). sb_ss sub = se_ssr e \<and> sb_sharename sub = se_share_name e \<and> sb_topic sub = tf \<and> sid_ok (sb_sid sub))"

abbreviation target_entries_ok :: "session_ref set \<Rightarrow> subscription shared_entry list \<Rightarrow> bool" where
  "target_entries_ok S xs \<equiv> \<forall>e \<in> set xs. target_entry_ok S e"

definition has_target :: "bytes \<Rightarrow> bytes \<Rightarrow> bytes \<Rightarrow> 'u shared_entry list \<Rightarrow> bool" where
  "has_target sn tf cid xs \<longleftrightarrow> (\<exists>e \<in> set xs. is_target sn tf e \<and> se_client_id e = cid)"

definition subs_ok :: "session_ref set \<Rightarrow> subscription shared_entry list \<Rightarrow> (bytes, subscription) subscriptions \<Rightarrow> bool" where
  "subs_ok S xs A \<longleftrightarrow>
     (\<forall>f k v. A f k = Some v \<longrightarrow> sb_topic v = f \<and> sb_ss v \<in> S \<and> ss_client_id (sb_ss v) = k \<and> sid_ok (sb_sid v) \<and>
       (sb_sharename v \<noteq> [] \<longrightarrow> has_target (sb_sharename v) f k xs))"

definition handles_ok :: "session_ref set \<Rightarrow> broker_subs \<Rightarrow> (bytes, subscription) subscriptions \<Rightarrow> bool" where
  "handles_ok S b A \<longleftrightarrow>
     (\<forall>ss \<in> S. distinct (br_handles b ss) \<and> set (br_handles b ss) = handles_of (ss_client_id ss) (br_subs_map b) A)"

definition broker_ok :: "session_ref set \<Rightarrow> nat \<Rightarrow> broker_subs \<Rightarrow> (bytes, subscription) subscriptions \<Rightarrow> bool" where
  "broker_ok S t b A \<longleftrightarrow>
     implements (br_subs_map b) A \<and> handles_ok S b A \<and> targets_ok t (br_shared_targets b) \<and> target_entries_ok S (br_shared_targets b) \<and>
     subs_ok S (br_shared_targets b) A"

lemma broker_init_ok: "broker_ok S 0 broker_subs_init (\<lambda>_ _. None)"
  by (simp add: broker_ok_def broker_subs_init_def implements_init handles_ok_def handles_of_def targets_ok_def in_index_order_def
    subs_ok_def)

lemma entry_ok_emplace:
  "target_entry_ok S e \<Longrightarrow> sb_ss sub = se_ssr e \<Longrightarrow> sb_sharename sub = se_share_name e \<Longrightarrow> sb_topic sub = tf \<Longrightarrow>
   sid_ok (sb_sid sub) \<Longrightarrow> target_entry_ok S (emplace_sub tf sub e)"
  by (auto simp: target_entry_ok_def emplace_sub_def)

lemma entries_ok_insert:
  assumes "target_entries_ok S xs" and "ss \<in> S" "sn \<noteq> []" and "inj_on ss_client_id S" and "sb_ss sub = ss" "sb_sharename sub = sn" "sb_topic sub = tf" "sid_ok (sb_sid sub)"
  shows "target_entries_ok S (shared_insert sn tf sub ss now xs)"
proof (cases "list_ex (has_cid_sn (ss_client_id ss) sn) xs")
  case True
  have "target_entry_ok S (emplace_sub tf sub e)" if e: "e \<in> set xs" "has_cid_sn (ss_client_id ss) sn e" for e
  proof (rule entry_ok_emplace)
    show "target_entry_ok S e" using assms(1) e(1) by blast
    then have "se_ssr e = ss" using e(2) assms(2,4) by (auto simp: target_entry_ok_def has_cid_sn_def se_client_id_def dest: inj_onD)
    then show "sb_ss sub = se_ssr e" "sb_sharename sub = se_share_name e" "sb_topic sub = tf" "sid_ok (sb_sid sub)" using assms(5-8) e(2) by (simp_all add: has_cid_sn_def)
  qed
  then show ?thesis using True assms(1) by (auto simp: shared_insert_def)
next
  case False
  have "target_entry_ok S \<lparr>se_share_name = sn, se_ssr = ss, se_tp = now, se_tf_subs = [(tf, sub)]\<rparr>" using assms(2-8) by (simp add: target_entry_ok_def)
  with False assms(1) show ?thesis by (simp add: shared_insert_def)
qed

lemma entries_ok_erase:
  assumes "target_entries_ok S xs" shows "target_entries_ok S (shared_erase sn tf ss xs)"
proof -
  have "target_entry_ok S (e\<lparr>se_tf_subs := AList.delete tf (se_tf_subs e)\<rparr>)" if "target_entry_ok S e" for e
    using that by (auto simp: target_entry_ok_def AList.delete_eq)
  then show ?thesis using assms by (auto simp: shared_erase_def)
qed

lemma has_target_step:
  assumes "targets_ok t xs"
  shows "has_target sn' tf' c (shared_insert sn tf sub ss now xs) \<longleftrightarrow> has_target sn' tf' c xs \<or> (sn', tf', c) = (sn, tf, ss_client_id ss)"
    "has_target sn' tf' c (shared_erase sn tf ss xs) \<longleftrightarrow> has_target sn' tf' c xs \<and> (sn', tf', c) \<noteq> (sn, tf, ss_client_id ss)"
    "has_target sn' tf' c (shared_erase_session ss xs) \<longleftrightarrow> has_target sn' tf' c xs \<and> c \<noteq> ss_client_id ss"
  unfolding has_target_def using shared_membership [OF assms] by simp_all

lemma subs_ok_mono: "subs_ok S xs A \<Longrightarrow> (\<And>sn tf c. has_target sn tf c xs \<Longrightarrow> has_target sn tf c xs') \<Longrightarrow> subs_ok S xs' A"
  by (auto simp: subs_ok_def)

lemma subs_ok_insert:
  assumes "subs_ok S xs A" and "sb_topic v = f" "sb_ss v \<in> S" "ss_client_id (sb_ss v) = k" "sid_ok (sb_sid v)"
    and "sb_sharename v \<noteq> [] \<longrightarrow> has_target (sb_sharename v) f k xs"
  shows "subs_ok S xs (sub_insert f k v A)"
  using assms by (simp add: subs_ok_def)

lemma handles_other: "inj_on ss_client_id S \<Longrightarrow> ss \<in> S \<Longrightarrow> x \<in> S \<Longrightarrow> x \<noteq> ss \<Longrightarrow> ss_client_id x \<noteq> ss_client_id ss"
  by (auto dest: inj_onD)

definition the_subscription :: "session_ref \<Rightarrow> bytes \<Rightarrow> bytes \<Rightarrow> subopts \<Rightarrow> nat option \<Rightarrow> subscription" where
  "the_subscription ss sn tf opts sid = \<lparr>sb_ss = ss, sb_sharename = sn, sb_topic = tf, sb_opts = opts, sb_sid = sid\<rparr>"

definition sends_retained :: "subopts \<Rightarrow> bool \<Rightarrow> bool" where
  "sends_retained opts new \<longleftrightarrow>
     sub_get_retain_handling opts = rh_send \<or> new \<and> sub_get_retain_handling opts = rh_send_only_new_subscription"

lemma session_subscribe_law:
  assumes ok: "broker_ok S t b A" and S: "ss \<in> S" "inj_on ss_client_id S" and "t \<le> now" and sid: "sid_ok sid" and room: "has_room tf (br_subs_map b)"
  shows "\<exists>b'. session_subscribe ss sn tf opts sid now b = Inr (sends_retained opts (A tf (ss_client_id ss) = None), b') \<and>
    broker_ok S now b' (sub_insert tf (ss_client_id ss) (the_subscription ss sn tf opts sid) A) \<and>
    sm_next_node_id (br_subs_map b') \<le> sm_next_node_id (br_subs_map b) + length (tokens tf)"
proof -
  let ?v = "the_subscription ss sn tf opts sid" and ?k = "ss_client_id ss" and ?xs = "br_shared_targets b"
  let ?ts = "if sn \<noteq> [] then shared_insert sn tf ?v ss now ?xs else ?xs" and ?A = "sub_insert tf ?k ?v A"
  have m: "implements (br_subs_map b) A" and h: "handles_ok S b A" and t: "targets_ok t ?xs" and e: "target_entries_ok S ?xs" and su: "subs_ok S ?xs A"
    using ok by (simp_all add: broker_ok_def)
  have v [simp]: "sb_ss ?v = ss" "sb_sharename ?v = sn" "sb_topic ?v = tf" "sb_sid ?v = sid" by (simp_all add: the_subscription_def)
  have ts: "targets_ok now ?ts" "target_entries_ok S ?ts"
    using targets_ok_insert [OF t assms(4)] targets_ok_later [OF t assms(4)] entries_ok_insert [OF e S(1) _ S(2), of sn ?v tf now] e sid
    by (cases "sn = []"; simp)+
  have "subs_ok S ?ts A" by (rule subs_ok_mono [OF su]) (simp add: has_target_step(1) [OF t])
  then have su': "subs_ok S ?ts ?A" by (rule subs_ok_insert) (simp_all add: S(1) sid has_target_step(1) [OF t])
  from subscribe_map [OF m room, of ?k ?v] obtain hd new m' where
    i: "insert_or_assign tf ?k ?v (br_subs_map b) = Inr ((hd, new), m')" "implements m' ?A" "new \<longleftrightarrow> A tf ?k = None"
      "handles_of ?k m' ?A = insert hd (handles_of ?k (br_subs_map b) A)" "\<not> new \<longrightarrow> hd \<in> handles_of ?k (br_subs_map b) A"
      "\<forall>j. j \<noteq> ?k \<longrightarrow> handles_of j m' ?A = handles_of j (br_subs_map b) A" by (elim exE conjE) (rule that)
  let ?b = "b\<lparr>br_shared_targets := ?ts, br_subs_map := m', br_handles := (if new then (br_handles b)(ss := insort_insert hd (br_handles b ss)) else br_handles b)\<rparr>"
  have own: "distinct (br_handles b ss)" "set (br_handles b ss) = handles_of ?k (br_subs_map b) A" using h S(1) unfolding handles_ok_def by blast+
  have "distinct (br_handles ?b x) \<and> set (br_handles ?b x) = handles_of (ss_client_id x) (br_subs_map ?b) ?A" if x: "x \<in> S" for x
  proof (cases "x = ss")
    case True
    with own i(4,5) show ?thesis by (cases new) (simp_all add: distinct_insort_insert set_insort_insert insert_absorb)
  next
    case False
    then have "ss_client_id x \<noteq> ?k" using handles_other S x by blast
    then show ?thesis using h x False i(6) by (simp add: handles_ok_def)
  qed
  then have "handles_ok S ?b ?A" unfolding handles_ok_def by blast
  then have "broker_ok S now ?b ?A" using i(2) ts su' by (simp add: broker_ok_def)
  moreover have "session_subscribe ss sn tf opts sid now b = Inr (sends_retained opts (A tf ?k = None), ?b)"
    using i(1,3) by (cases b) (auto simp add: session_subscribe_def sends_retained_def the_subscription_def Let_def)
  moreover have "sm_next_node_id (br_subs_map ?b) \<le> sm_next_node_id (br_subs_map b) + length (tokens tf)" using insert_ids [OF i(1)] by simp
  ultimately show ?thesis by blast
qed

lemma subs_ok_restrict:
  assumes "subs_ok S xs A" and "\<And>f k v. A' f k = Some v \<Longrightarrow> A f k = Some v" and "\<And>f k sn. A' f k \<noteq> None \<Longrightarrow> has_target sn f k xs \<Longrightarrow> has_target sn f k xs'"
  shows "subs_ok S xs' A'"
  unfolding subs_ok_def
proof (intro allI impI conjI)
  fix f k v assume v: "A' f k = Some v"
  note o = assms(1) [unfolded subs_ok_def, rule_format, OF assms(2) [OF v]]
  from o show "sb_topic v = f" "sb_ss v \<in> S" "ss_client_id (sb_ss v) = k" "sid_ok (sb_sid v)" by simp_all
  assume "sb_sharename v \<noteq> []"
  then have "has_target (sb_sharename v) f k xs" using o by simp
  then show "has_target (sb_sharename v) f k xs'" using assms(3) v by simp
qed

lemma session_unsubscribe_law:
  assumes ok: "broker_ok S t b A" and S: "ss \<in> S" "inj_on ss_client_id S"
  shows "\<exists>b'. session_unsubscribe ss sn tf b = Some (Inr b') \<and> broker_ok S t b' (sub_erase tf (ss_client_id ss) A) \<and>
    sm_next_node_id (br_subs_map b') = sm_next_node_id (br_subs_map b)"
proof -
  let ?k = "ss_client_id ss" and ?xs = "br_shared_targets b"
  let ?ts = "if sn \<noteq> [] then shared_erase sn tf ss ?xs else ?xs" and ?A = "sub_erase tf ?k A"
  have m: "implements (br_subs_map b) A" and h: "handles_ok S b A" and t: "targets_ok t ?xs" and e: "target_entries_ok S ?xs" and su: "subs_ok S ?xs A"
    using ok by (simp_all add: broker_ok_def)
  have ts: "targets_ok t ?ts" "target_entries_ok S ?ts" using targets_ok_erase [OF t] entries_ok_erase [OF e] t e by auto
  have su': "subs_ok S ?ts ?A" by (rule subs_ok_restrict [OF su]) (auto simp: has_target_step(2) [OF t] split: if_splits)
  show ?thesis
  proof (cases "root_path (br_subs_map b) (tokens tf)")
    case None
    then have "A tf ?k = None" using implements_path [OF m] by force
    then have "?A = A" by (simp add: fun_eq_iff)
    then have "broker_ok S t (b\<lparr>br_shared_targets := ?ts\<rparr>) ?A" using m h ts su' by (simp add: broker_ok_def handles_ok_def)
    moreover have "session_unsubscribe ss sn tf b = Some (Inr (b\<lparr>br_shared_targets := ?ts\<rparr>))"
      using None lookup_filter_path [OF m, of tf] by (cases b) (simp add: session_unsubscribe_def Let_def)
    ultimately show ?thesis by auto
  next
    case (Some hd)
    from unsubscribe_map [OF m Some, of ?k] obtain n m' where
      i: "erase_handle hd ?k (br_subs_map b) = Some (Inr (n, m'))" "implements m' ?A" "handles_of ?k m' ?A = handles_of ?k (br_subs_map b) A - {hd}"
        "\<forall>j. j \<noteq> ?k \<longrightarrow> handles_of j m' ?A = handles_of j (br_subs_map b) A" by blast
    let ?b = "b\<lparr>br_shared_targets := ?ts, br_subs_map := m', br_handles := (br_handles b)(ss := removeAll hd (br_handles b ss))\<rparr>"
    have "distinct (br_handles ?b x) \<and> set (br_handles ?b x) = handles_of (ss_client_id x) (br_subs_map ?b) ?A" if x: "x \<in> S" for x
    proof (cases "x = ss")
      case True
      then show ?thesis using h x i(3) by (simp add: handles_ok_def distinct_removeAll)
    next
      case False
      then have "ss_client_id x \<noteq> ?k" using handles_other S x by blast
      then show ?thesis using h x False i(4) by (simp add: handles_ok_def)
    qed
    then have "handles_ok S ?b ?A" unfolding handles_ok_def by blast
    then have "broker_ok S t ?b ?A" using i(2) ts su' by (simp add: broker_ok_def)
    moreover have "session_unsubscribe ss sn tf b = Some (Inr ?b)"
      using Some i(1) lookup_filter_path [OF m, of tf] by (cases b) (simp add: session_unsubscribe_def Let_def)
    ultimately show ?thesis using erase_ids [OF i(1)] by (intro exI [of _ ?b]) simp
  qed
qed

lemma session_clean_law:
  assumes ok: "broker_ok S t b A" and S: "ss \<in> S" "inj_on ss_client_id S"
  shows "\<exists>b'. session_clean ss b = Some (Inr b') \<and> broker_ok S t b' (sub_clean (ss_client_id ss) A) \<and>
    sm_next_node_id (br_subs_map b') = sm_next_node_id (br_subs_map b) \<and> br_handles b' ss = []"
proof -
  let ?k = "ss_client_id ss" and ?xs = "br_shared_targets b"
  let ?ts = "shared_erase_session ss ?xs" and ?A = "sub_clean ?k A"
  have m: "implements (br_subs_map b) A" and h: "handles_ok S b A" and t: "targets_ok t ?xs" and e: "target_entries_ok S ?xs" and su: "subs_ok S ?xs A"
    using ok by (simp_all add: broker_ok_def)
  have ts: "targets_ok t ?ts" "target_entries_ok S ?ts" using targets_ok_filter [OF t] e by (auto simp: shared_erase_session_def)
  have su': "subs_ok S ?ts ?A" by (rule subs_ok_restrict [OF su]) (auto simp: has_target_step(3) [OF t] split: if_splits)
  have "distinct (br_handles b ss)" "set (br_handles b ss) = handles_of ?k (br_subs_map b) A" using h S(1) unfolding handles_ok_def by blast+
  from erase_all_handles [OF m this] obtain m' where
    i: "erase_handles (br_handles b ss) ?k (br_subs_map b) = Some (Inr m')" "implements m' ?A" "handles_of ?k m' ?A = {}"
      "\<forall>j. j \<noteq> ?k \<longrightarrow> handles_of j m' ?A = handles_of j (br_subs_map b) A" by blast
  let ?b = "b\<lparr>br_subs_map := m', br_handles := (br_handles b)(ss := []), br_shared_targets := ?ts\<rparr>"
  have "distinct (br_handles ?b x) \<and> set (br_handles ?b x) = handles_of (ss_client_id x) (br_subs_map ?b) ?A" if x: "x \<in> S" for x
    using h x i(3,4) handles_other [OF S(2,1) x] by (cases "x = ss") (simp_all add: handles_ok_def)
  then have "handles_ok S ?b ?A" unfolding handles_ok_def by blast
  then have "broker_ok S t ?b ?A" using i(2) ts su' by (simp add: broker_ok_def)
  moreover have "session_clean ss b = Some (Inr ?b)" using i(1) by (cases b) (simp add: session_clean_def session_unsubscribe_all_def)
  ultimately show ?thesis using erase_handles_ids [OF i(1)] by (intro exI [of _ ?b]) simp
qed

subsection \<open>Runs\<close>

datatype session_op =
    Se_subscribe session_ref bytes bytes subopts "nat option"
  | Se_unsubscribe session_ref bytes bytes
  | Se_clean session_ref

text \<open>A call at a time, with whether retained messages are to be sent.\<close>

fun session_step :: "nat \<times> session_op \<Rightarrow> broker_subs \<Rightarrow> (map_error + bool \<times> broker_subs) option" where
  "session_step (now, Se_subscribe ss sn tf opts sid) b = Some (session_subscribe ss sn tf opts sid now b)"
| "session_step (now, Se_unsubscribe ss sn tf) b = map_option (\<lambda>r. bindE r (\<lambda>b. Inr (False, b))) (session_unsubscribe ss sn tf b)"
| "session_step (now, Se_clean ss) b = map_option (\<lambda>r. bindE r (\<lambda>b. Inr (False, b))) (session_clean ss b)"

fun session_run :: "(nat \<times> session_op) list \<Rightarrow> broker_subs \<Rightarrow> (map_error + bool list \<times> broker_subs) option" where
  "session_run [] b = Some (Inr ([], b))"
| "session_run (op # ops) b =
     Option.bind (session_step op b) (\<lambda>r. case r of
       Inl e \<Rightarrow> Some (Inl e)
     | Inr (x, b) \<Rightarrow> map_option (\<lambda>r. bindE r (\<lambda>(xs, b). Inr (x # xs, b))) (session_run ops b))"

text \<open>The same on a function from filters and client identifiers to subscriptions.\<close>

fun session_spec :: "session_op \<Rightarrow> (bytes, subscription) subscriptions \<Rightarrow> bool \<times> (bytes, subscription) subscriptions" where
  "session_spec (Se_subscribe ss sn tf opts sid) A =
     (sends_retained opts (A tf (ss_client_id ss) = None), sub_insert tf (ss_client_id ss) (the_subscription ss sn tf opts sid) A)"
| "session_spec (Se_unsubscribe ss sn tf) A = (False, sub_erase tf (ss_client_id ss) A)"
| "session_spec (Se_clean ss) A = (False, sub_clean (ss_client_id ss) A)"

fun subs_spec_run :: "session_op list \<Rightarrow> (bytes, subscription) subscriptions \<Rightarrow> bool list \<times> (bytes, subscription) subscriptions" where
  "subs_spec_run [] A = ([], A)"
| "subs_spec_run (op # ops) A = (let (x, A) = session_spec op A; (xs, A) = subs_spec_run ops A in (x # xs, A))"

fun op_allowed :: "session_ref set \<Rightarrow> session_op \<Rightarrow> bool" where
  "op_allowed S (Se_subscribe ss sn tf opts sid) \<longleftrightarrow> ss \<in> S \<and> sid_ok sid"
| "op_allowed S (Se_unsubscribe ss sn tf) \<longleftrightarrow> ss \<in> S"
| "op_allowed S (Se_clean ss) \<longleftrightarrow> ss \<in> S"

fun session_levels :: "session_op \<Rightarrow> nat" where
  "session_levels (Se_subscribe ss sn tf opts sid) = length (tokens tf)"
| "session_levels _ = 0"

definition within :: "nat \<Rightarrow> broker_subs \<Rightarrow> bool" where
  "within u b \<longleftrightarrow> sm_size (br_subs_map b) \<le> u \<and> sm_next_node_id (br_subs_map b) \<le> u + 2"

lemma broker_size: "broker_ok S t b A \<Longrightarrow> sm_size (br_subs_map b) = card (sub_pairs A) \<and> finite (sub_pairs A)"
  by (simp add: broker_ok_def implements_def)

lemma broker_later: "broker_ok S t b A \<Longrightarrow> t \<le> now \<Longrightarrow> broker_ok S now b A"
  by (auto simp: broker_ok_def dest: targets_ok_later)

lemma within_room: "within u b \<Longrightarrow> u + length (tokens tf) + 2 < count_max \<Longrightarrow> has_room tf (br_subs_map b)"
  by (simp add: within_def has_room_def count_max_def size_max_def)

lemma within_card:
  assumes "broker_ok S t b A" "broker_ok S t' b' A'" and "within u b" and "card (sub_pairs A') \<le> card (sub_pairs A) + n"
    and "sm_next_node_id (br_subs_map b') \<le> sm_next_node_id (br_subs_map b) + n"
  shows "within (u + n) b'"
  using assms(3-5) broker_size [OF assms(1)] broker_size [OF assms(2)] by (simp add: within_def)

lemma session_step_law:
  assumes ok: "broker_ok S t b A" and S: "op_allowed S op" "inj_on ss_client_id S" and t: "t \<le> now"
    and u: "within u b" "u + session_levels op + 2 < count_max"
  shows "\<exists>b'. session_step (now, op) b = Some (Inr (fst (session_spec op A), b')) \<and> broker_ok S now b' (snd (session_spec op A)) \<and>
    within (u + session_levels op) b'"
proof (cases op)
  case (Se_subscribe ss sn tf opts sid)
  have "has_room tf (br_subs_map b)" using within_room [OF u(1)] u(2) Se_subscribe by simp
  from session_subscribe_law [OF ok _ S(2) t _ this, of ss sid sn opts] S(1) Se_subscribe obtain b' where
    b': "session_subscribe ss sn tf opts sid now b = Inr (sends_retained opts (A tf (ss_client_id ss) = None), b')"
      "broker_ok S now b' (sub_insert tf (ss_client_id ss) (the_subscription ss sn tf opts sid) A)"
      "sm_next_node_id (br_subs_map b') \<le> sm_next_node_id (br_subs_map b) + length (tokens tf)" by auto
  have "Suc 0 \<le> length (tokens tf)" using tokens_nonempty by (simp add: Suc_le_eq)
  then have "card (sub_pairs (sub_insert tf (ss_client_id ss) (the_subscription ss sn tf opts sid) A)) \<le> card (sub_pairs A) + length (tokens tf)"
    unfolding sub_pairs_insert using broker_size [OF ok] by (auto simp: card_insert_if)
  from within_card [OF ok b'(2) u(1) this b'(3)] show ?thesis using b' Se_subscribe by simp
next
  case (Se_unsubscribe ss sn tf)
  with session_unsubscribe_law [OF ok _ S(2), of ss sn tf] S(1) obtain b' where
    b': "session_unsubscribe ss sn tf b = Some (Inr b')" "broker_ok S t b' (sub_erase tf (ss_client_id ss) A)"
      "sm_next_node_id (br_subs_map b') = sm_next_node_id (br_subs_map b)" by auto
  have "card (sub_pairs (sub_erase tf (ss_client_id ss) A)) \<le> card (sub_pairs A)"
    unfolding sub_pairs_erase using broker_size [OF ok] by (simp add: card_mono)
  with within_card [OF ok b'(2) u(1), of 0] b' Se_unsubscribe broker_later [OF b'(2) t] show ?thesis by simp
next
  case (Se_clean ss)
  with session_clean_law [OF ok _ S(2), of ss] S(1) obtain b' where
    b': "session_clean ss b = Some (Inr b')" "broker_ok S t b' (sub_clean (ss_client_id ss) A)"
      "sm_next_node_id (br_subs_map b') = sm_next_node_id (br_subs_map b)" by auto
  have "sub_pairs (sub_clean (ss_client_id ss) A) \<subseteq> sub_pairs A" by (auto simp: sub_pairs_def split: if_splits)
  then have "card (sub_pairs (sub_clean (ss_client_id ss) A)) \<le> card (sub_pairs A)" using broker_size [OF ok] by (simp add: card_mono)
  with within_card [OF ok b'(2) u(1), of 0] b' Se_clean broker_later [OF b'(2) t] show ?thesis by simp
qed

lemma session_run_law:
  assumes "broker_ok S t b A" and "inj_on ss_client_id S" and "\<forall>op \<in> set ops. op_allowed S (snd op)" and "sorted (t # map fst ops)"
    and "within u b" and "u + sum_list (map (session_levels \<circ> snd) ops) + 2 < count_max"
  shows "\<exists>b'. session_run ops b = Some (Inr (fst (subs_spec_run (map snd ops) A), b')) \<and>
    broker_ok S (last (t # map fst ops)) b' (snd (subs_spec_run (map snd ops) A))"
  using assms
proof (induction ops arbitrary: t b A u)
  case (Cons p ops)
  obtain now op where p: "p = (now, op)" by fastforce
  have "op_allowed S op" "t \<le> now" "u + session_levels op + 2 < count_max" using Cons.prems p by auto
  from session_step_law [OF Cons.prems(1) this(1) Cons.prems(2) this(2) Cons.prems(5) this(3)] obtain b1 where
    b1: "session_step p b = Some (Inr (fst (session_spec op A), b1))" "broker_ok S now b1 (snd (session_spec op A))"
      "within (u + session_levels op) b1" unfolding p by blast
  have "\<forall>op \<in> set ops. op_allowed S (snd op)" "sorted (now # map fst ops)"
    "u + session_levels op + sum_list (map (session_levels \<circ> snd) ops) + 2 < count_max" using Cons.prems p by (auto simp: comp_def)
  from Cons.IH [OF b1(2) Cons.prems(2) this(1,2) b1(3) this(3)] obtain b2 where
    b2: "session_run ops b1 = Some (Inr (fst (subs_spec_run (map snd ops) (snd (session_spec op A))), b2))"
      "broker_ok S (last (now # map fst ops)) b2 (snd (subs_spec_run (map snd ops) (snd (session_spec op A))))" by blast
  have "session_run (p # ops) b = Some (Inr (fst (subs_spec_run (map snd (p # ops)) A), b2))"
    using b1(1) b2(1) p by (simp add: case_prod_unfold Let_def)
  moreover have "broker_ok S (last (t # map fst (p # ops))) b2 (snd (subs_spec_run (map snd (p # ops)) A))"
    using b2(2) p by (simp add: case_prod_unfold Let_def)
  ultimately show ?case by blast
qed simp

lemma session_run_from_init:
  assumes "inj_on ss_client_id S" and "\<forall>op \<in> set ops. op_allowed S (snd op)" and "sorted (map fst ops)"
    and "sum_list (map (session_levels \<circ> snd) ops) + 2 < count_max"
  shows "\<exists>b. session_run ops broker_subs_init = Some (Inr (fst (subs_spec_run (map snd ops) (\<lambda>_ _. None)), b)) \<and>
    broker_ok S (last (0 # map fst ops)) b (snd (subs_spec_run (map snd ops) (\<lambda>_ _. None)))"
proof -
  have "within 0 broker_subs_init" by (simp add: within_def broker_subs_init_def multiple_map_init_def subscription_map_init_def)
  then show ?thesis using session_run_law [OF broker_init_ok assms(1,2), of 0] assms(3,4) by simp
qed

subsection \<open>Properties\<close>

text \<open>
  C23. Any calls by sessions with different client identifiers, with subscription identifiers that a property can have and as long
  as the map has room, succeed: no exception is thrown
  and every walk ends. The map then holds the subscriptions that the same calls leave in a function from filters and client
  identifiers to subscriptions, retained messages are asked for when the options say so for a new or a known subscription,
  the size is exact, the handles of each session are those of the filters it is subscribed to, and every shared subscription
  in the map has a target.
\<close>

theorem session_subscriptions_refine:
  assumes "inj_on ss_client_id S" and "\<forall>op \<in> set ops. op_allowed S (snd op)" and "sorted (map fst ops)"
    and "sum_list (map (session_levels \<circ> snd) ops) + 2 < count_max" and "(rs, A) = subs_spec_run (map snd ops) (\<lambda>_ _. None)"
  shows "\<exists>b. session_run ops broker_subs_init = Some (Inr (rs, b)) \<and> implements (br_subs_map b) A \<and>
    sm_size (br_subs_map b) = card {(f, k). A f k \<noteq> None} \<and>
    (\<forall>ss \<in> S. set (br_handles b ss) = {h. \<exists>f. A f (ss_client_id ss) \<noteq> None \<and> lookup_filter f (br_subs_map b) = Some h}) \<and>
    (\<forall>f k v. A f k = Some v \<and> sb_sharename v \<noteq> [] \<longrightarrow> fst (get_target (sb_sharename v) f now (br_shared_targets b)) \<noteq> None)"
proof -
  from session_run_from_init [OF assms(1-4)] assms(5) obtain b where
    b: "session_run ops broker_subs_init = Some (Inr (rs, b))" "broker_ok S (last (0 # map fst ops)) b A"
    by (metis fst_conv snd_conv)
  have m: "implements (br_subs_map b) A" using b(2) by (simp add: broker_ok_def)
  have "set (br_handles b ss) = {h. \<exists>f. A f (ss_client_id ss) \<noteq> None \<and> lookup_filter f (br_subs_map b) = Some h}" if "ss \<in> S" for ss
    using b(2) that unfolding broker_ok_def handles_ok_def handles_of_def lookup_filter_path [OF m] by blast
  moreover have "fst (get_target (sb_sharename v) f now (br_shared_targets b)) \<noteq> None" if "A f k = Some v \<and> sb_sharename v \<noteq> []" for f k v
  proof -
    have "has_target (sb_sharename v) f k (br_shared_targets b)" using b(2) that by (auto simp: broker_ok_def subs_ok_def)
    then show ?thesis by (auto simp: has_target_def get_target_def dropWhile_eq_Nil_conv split: list.split)
  qed
  moreover have "sm_size (br_subs_map b) = card {(f, k). A f k \<noteq> None}" using broker_size [OF b(2)] by (simp add: sub_pairs_def)
  ultimately show ?thesis using b(1) m by blast
qed

definition sample_session :: "nat \<Rightarrow> session_ref" where
  "sample_session i = \<lparr>ss_number = i, ss_client_id = [of_nat i]\<rparr>"

definition sample_session_ops :: "(nat \<times> session_op) list" where
  "sample_session_ops =
     [(1, Se_subscribe (sample_session 1) [] [0x74] 0x10 None), (2, Se_subscribe (sample_session 1) [] [0x74] 0x10 None),
      (3, Se_subscribe (sample_session 2) [0x67] [0x74] 0 (Some 5)), (4, Se_unsubscribe (sample_session 2) [] plus_level),
      (5, Se_clean (sample_session 1))]"

lemma sample_session_premises:
  "inj_on ss_client_id {sample_session 1, sample_session 2}" "\<forall>op \<in> set sample_session_ops. op_allowed {sample_session 1, sample_session 2} (snd op)"
  "sorted (map fst sample_session_ops)" "sum_list (map (session_levels \<circ> snd) sample_session_ops) + 2 < count_max"
  by (simp_all add: sample_session_def sample_session_ops_def tokens.simps topic_chars count_max_def sid_ok_def)

definition sample_subs :: "(bytes, subscription) subscriptions" where
  "sample_subs = (\<lambda>_ _. None)([0x74] := [[2] \<mapsto> the_subscription (sample_session 2) [0x67] [0x74] 0 (Some 5)])"

lemma sample_session_spec:
  "subs_spec_run (map snd sample_session_ops) (\<lambda>_ _. None) =
     ([True, False, True, False, False], sample_subs)"
  by (auto simp: topic_chars sample_subs_def sample_session_def sample_session_ops_def sends_retained_def subopts_defs fun_eq_iff)

theorem session_subscriptions_refine_witness:
  "\<exists>b. session_run sample_session_ops broker_subs_init = Some (Inr ([True, False, True, False, False], b)) \<and> sm_size (br_subs_map b) = 1 \<and>
    br_handles b (sample_session 1) = [] \<and> fst (get_target [0x67] [0x74] 6 (br_shared_targets b)) \<noteq> None"
proof -
  from session_subscriptions_refine [OF sample_session_premises sample_session_spec [symmetric], of 6] obtain b where
    b: "session_run sample_session_ops broker_subs_init = Some (Inr ([True, False, True, False, False], b))"
      "sm_size (br_subs_map b) = card {(f, k). sample_subs f k \<noteq> None}"
      "\<forall>ss \<in> {sample_session 1, sample_session 2}. set (br_handles b ss) =
         {h. \<exists>f. sample_subs f (ss_client_id ss) \<noteq> None \<and> lookup_filter f (br_subs_map b) = Some h}"
      "\<forall>f k v. sample_subs f k = Some v \<and> sb_sharename v \<noteq> [] \<longrightarrow> fst (get_target (sb_sharename v) f 6 (br_shared_targets b)) \<noteq> None" by blast
  have "{(f, k). sample_subs f k \<noteq> None} = {([0x74], [2])}" by (auto simp: sample_subs_def split: if_splits)
  then have "sm_size (br_subs_map b) = 1" using b(2) by simp
  moreover have "set (br_handles b (sample_session 1)) = {}" using b(3) by (simp add: sample_session_def sample_subs_def)
  moreover have "fst (get_target [0x67] [0x74] 6 (br_shared_targets b)) \<noteq> None"
    using b(4) [rule_format, of "[0x74]" "[2]" "the_subscription (sample_session 2) [0x67] [0x74] 0 (Some 5)"] by (simp add: the_subscription_def sample_subs_def)
  ultimately show ?thesis using b(1) by simp
qed

text \<open>
  C24. When a session is cleaned after any such calls, nothing of it remains: no search of the map finds its client identifier,
  it has no handle, and no target of a shared subscription is left; the subscriptions of all other clients stay, with their handles.
\<close>

theorem session_clean_complete:
  assumes "inj_on ss_client_id S" and "\<forall>op \<in> set ops. op_allowed S (snd op)" and "sorted (map fst ops)"
    and "sum_list (map (session_levels \<circ> snd) ops) + 2 < count_max" and "ss \<in> S"
  shows "\<exists>rs b b'. session_run ops broker_subs_init = Some (Inr (rs, b)) \<and> session_clean ss b = Some (Inr b') \<and> br_handles b' ss = [] \<and>
    (\<forall>topic c. validate_topic_name topic \<and> c \<in> set (find_subscriptions topic (br_subs_map b')) \<longrightarrow> c (ss_client_id ss) = None) \<and>
    (\<forall>e \<in> set (br_shared_targets b'). se_ssr e \<noteq> ss) \<and>
    (\<forall>x topic v. x \<in> S - {ss} \<and> validate_topic_name topic \<longrightarrow>
      length (filter (\<lambda>c. c (ss_client_id x) = Some v) (find_subscriptions topic (br_subs_map b'))) =
      length (filter (\<lambda>c. c (ss_client_id x) = Some v) (find_subscriptions topic (br_subs_map b)))) \<and>
    filter (\<lambda>e. se_ssr e \<noteq> ss) (br_shared_targets b) = br_shared_targets b'"
proof -
  let ?A = "snd (subs_spec_run (map snd ops) (\<lambda>_ _. None))" and ?t = "last (0 # map fst ops)" and ?k = "ss_client_id ss"
  from session_run_from_init [OF assms(1-4)] obtain rs b where b: "session_run ops broker_subs_init = Some (Inr (rs, b))" "broker_ok S ?t b ?A" by blast
  from session_clean_law [OF b(2) assms(5,1)] obtain b' where
    b': "session_clean ss b = Some (Inr b')" "broker_ok S ?t b' (sub_clean ?k ?A)" "br_handles b' ss = []" by blast
  have m: "implements (br_subs_map b) ?A" and m': "implements (br_subs_map b') (sub_clean ?k ?A)" using b(2) b'(2) by (simp_all add: broker_ok_def)
  have "c ?k = None" if c: "validate_topic_name topic \<and> c \<in> set (find_subscriptions topic (br_subs_map b'))" for topic c
    using broker_subs.search_member [OF m', of topic ?k] c by (cases "c ?k") auto
  moreover have "length (filter (\<lambda>c. c (ss_client_id x) = Some v) (find_subscriptions topic (br_subs_map b'))) =
      length (filter (\<lambda>c. c (ss_client_id x) = Some v) (find_subscriptions topic (br_subs_map b)))"
    if x: "x \<in> S - {ss} \<and> validate_topic_name topic" for x topic v
    using x handles_other [OF assms(1,5), of x] implements_found [OF m, of topic] implements_found [OF m', of topic] by simp
  moreover have ts: "br_shared_targets b' = shared_erase_session ss (br_shared_targets b)"
    using b'(1) by (auto simp: session_clean_def session_unsubscribe_all_def bindE_eq_Inr)
  moreover have "se_ssr e \<noteq> ss \<longleftrightarrow> se_client_id e \<noteq> ?k" if "e \<in> set (br_shared_targets b)" for e
  proof -
    have "se_ssr e \<in> S" using that b(2) by (auto simp: broker_ok_def target_entry_ok_def)
    then show ?thesis using assms(1,5) by (auto simp: se_client_id_def dest: inj_onD)
  qed
  then have "filter (\<lambda>e. se_ssr e \<noteq> ss) (br_shared_targets b) = br_shared_targets b'" unfolding ts shared_erase_session_def by (rule filter_cong [OF refl])
  ultimately show ?thesis using b(1) b'(1,3) by (intro exI [of _ rs] exI [of _ b] exI [of _ b']) (auto simp: shared_erase_session_def se_client_id_def)
qed

theorem session_clean_complete_witness:
  "\<exists>rs b b'. session_run sample_session_ops broker_subs_init = Some (Inr (rs, b)) \<and> session_clean (sample_session 2) b = Some (Inr b') \<and>
    (\<forall>e \<in> set (br_shared_targets b'). se_ssr e \<noteq> sample_session 2)"
proof -
  have "sample_session 2 \<in> {sample_session 1, sample_session 2}" by simp
  from session_clean_complete [OF sample_session_premises this] obtain rs b b' where
    "session_run sample_session_ops broker_subs_init = Some (Inr (rs, b))" "session_clean (sample_session 2) b = Some (Inr b')"
    "\<forall>e \<in> set (br_shared_targets b'). se_ssr e \<noteq> sample_session 2" by (elim exE conjE) (rule that)
  then show ?thesis by (intro exI conjI)
qed

text \<open>
  C25. A shared and a plain subscription of a client to one filter are one entry of the map. After a shared subscription, an UNSUBSCRIBE of the same
  filter without share name, to which the session need not be subscribed, takes the shared subscription out of the map: no
  search finds it any more, while the session remains a target of the group.
\<close>

theorem unsubscribe_silences_group:
  assumes "broker_ok S t b A" and "ss \<in> S" "inj_on ss_client_id S" and "t \<le> now" and "sid_ok sid" and "has_room tf (br_subs_map b)" and "sn \<noteq> []"
  shows "\<exists>send b1 b2. session_subscribe ss sn tf opts sid now b = Inr (send, b1) \<and> session_unsubscribe ss [] tf b1 = Some (Inr b2) \<and>
    (\<forall>topic c v. validate_topic_name topic \<and> c \<in> set (find_subscriptions topic (br_subs_map b2)) \<and> c (ss_client_id ss) = Some v \<longrightarrow> sb_topic v \<noteq> tf) \<and>
    has_target sn tf (ss_client_id ss) (br_shared_targets b2)"
proof -
  let ?k = "ss_client_id ss" and ?v = "the_subscription ss sn tf opts sid"
  from session_subscribe_law [OF assms(1-6), of sn opts] obtain send b1 where
    b1: "session_subscribe ss sn tf opts sid now b = Inr (send, b1)" "broker_ok S now b1 (sub_insert tf ?k ?v A)" by blast
  have "sub_insert tf ?k ?v A tf ?k = Some ?v" by simp
  with b1(2) have target: "has_target sn tf ?k (br_shared_targets b1)"
    unfolding broker_ok_def subs_ok_def using assms(7) by (metis subscription.select_convs(2) the_subscription_def)
  from session_unsubscribe_law [OF b1(2) assms(2,3), of "[]" tf] obtain b2 where
    b2: "session_unsubscribe ss [] tf b1 = Some (Inr b2)" "broker_ok S now b2 (sub_erase tf ?k (sub_insert tf ?k ?v A))" by blast
  have "br_shared_targets b2 = br_shared_targets b1"
    using b2(1) by (auto simp: session_unsubscribe_def bindE_eq_Inr split: option.splits)
  moreover have "sb_topic v \<noteq> tf"
    if v: "validate_topic_name topic \<and> c \<in> set (find_subscriptions topic (br_subs_map b2)) \<and> c ?k = Some v" for topic c v
  proof
    assume tf: "sb_topic v = tf"
    have m: "implements (br_subs_map b2) (sub_erase tf ?k (sub_insert tf ?k ?v A))" and s: "subs_ok S (br_shared_targets b2) (sub_erase tf ?k (sub_insert tf ?k ?v A))"
      using b2(2) by (simp_all add: broker_ok_def)
    from v broker_subs.search_member [OF m, of topic ?k v] obtain f where f: "sub_erase tf ?k (sub_insert tf ?k ?v A) f ?k = Some v" by blast
    then have "sb_topic v = f" using s unfolding subs_ok_def by blast
    with f tf show False by simp
  qed
  ultimately show ?thesis using b1(1) b2(1) target by (intro exI [of _ send] exI [of _ b1] exI [of _ b2]) simp
qed

theorem unsubscribe_silences_group_witness:
  "\<exists>send b1 b2. session_subscribe (sample_session 1) [0x67] [0x74] 0 None 1 broker_subs_init = Inr (send, b1) \<and>
    session_unsubscribe (sample_session 1) [] [0x74] b1 = Some (Inr b2) \<and> has_target [0x67] [0x74] [1] (br_shared_targets b2)"
proof -
  have a: "sample_session 1 \<in> {sample_session 1}" "inj_on ss_client_id {sample_session 1}" "(0 :: nat) \<le> 1" "sid_ok None"
    "has_room [0x74] (br_subs_map broker_subs_init)" "[0x67] \<noteq> ([] :: bytes)"
    by (simp_all add: sid_ok_def has_room_def broker_subs_init_def multiple_map_init_def subscription_map_init_def count_max_def size_max_def tokens.simps topic_chars)
  from unsubscribe_silences_group [OF broker_init_ok a, of 0] obtain send b1 b2 where
    "session_subscribe (sample_session 1) [0x67] [0x74] 0 None 1 broker_subs_init = Inr (send, b1)"
    "session_unsubscribe (sample_session 1) [] [0x74] b1 = Some (Inr b2)"
    "has_target [0x67] [0x74] (ss_client_id (sample_session 1)) (br_shared_targets b2)" by (elim exE conjE) (rule that)
  then show ?thesis by (intro exI conjI) (simp_all add: sample_session_def)
qed

end
