(* ===== verification/Retained_Map.thy ===== *)
theory Retained_Map
  imports Subscription_Map "HOL-Library.AList" "HOL-Library.Multiset" "HOL-Library.Sublist"
begin

text \<open>
  The retained messages of the broker: \<^verbatim>\<open>tool/include/broker/retained_topic_map.hpp\<close>.

  \<^item> The \<^verbatim>\<open>multi_index\<close> container of nodes has a unique index on the identifier of the parent with the level, and
    an index ordered by the identifier of the parent, which keeps nodes with the same parent in the order of
    insertion. It is the association list of the nodes in the order of insertion; an iterator is the key it
    points to. The root has the key \<open>(0, [])\<close>.
  \<^item> An exception leaves the map as it is at that moment: \<open>Inl\<close> carries the error and the map.
  \<^item> The search returns the values in the order of the callbacks, \<open>None\<close> if it does not end.
\<close>

subsection \<open>Nodes\<close>

record 'v retained_entry =
  re_id :: nat
  re_count :: nat
  re_value :: "'v option"

record 'v retained_map =
  rm_map :: "(node_key \<times> 'v retained_entry) list"
  rm_size :: nat
  rm_next_node_id :: nat

definition root_node_id :: nat where "root_node_id = 1"

abbreviation retained_root :: node_key where "retained_root \<equiv> (0, [])"

definition retained_map_init :: "'v retained_map" where
  "retained_map_init =
     \<lparr>rm_map = [(retained_root, \<lparr>re_id = root_node_id, re_count = 1, re_value = None\<rparr>)], rm_size = 0,
      rm_next_node_id = root_node_id + 1\<rparr>"

abbreviation rm_node :: "'v retained_map \<Rightarrow> node_key \<Rightarrow> 'v retained_entry option" where
  "rm_node m \<equiv> map_of (rm_map m)"

abbreviation rm_entry :: "'v retained_map \<Rightarrow> node_key \<Rightarrow> 'v retained_entry" where
  "rm_entry m k \<equiv> the (rm_node m k)"

definition rm_set :: "node_key \<Rightarrow> 'v retained_entry \<Rightarrow> 'v retained_map \<Rightarrow> 'v retained_map" where
  "rm_set k e m = m\<lparr>rm_map := AList.update k e (rm_map m)\<rparr>"

definition rm_delete :: "node_key \<Rightarrow> 'v retained_map \<Rightarrow> 'v retained_map" where
  "rm_delete k m = m\<lparr>rm_map := AList.delete k (rm_map m)\<rparr>"

type_synonym ('v, 'r) retained_result = "(map_error \<times> 'v retained_map) + 'r"

definition retained_increase :: "node_key \<Rightarrow> 'v retained_map \<Rightarrow> ('v, 'v retained_map) retained_result" where
  "retained_increase k m =
     (let e = rm_entry m k in
      if re_count e = size_max then Inl (Max_stored_topics, m) else Inr (rm_set k (e\<lparr>re_count := re_count e + 1\<rparr>) m))"

text \<open>The count is a \<^verbatim>\<open>std::size_t\<close>; the assertion in \<^verbatim>\<open>decrease_count\<close> is \<^verbatim>\<open>count >= count\<close>.\<close>

definition retained_decrease :: "node_key \<Rightarrow> 'v retained_map \<Rightarrow> 'v retained_map" where
  "retained_decrease k m =
     (let e = rm_entry m k in rm_set k (e\<lparr>re_count := (re_count e + size_max) mod (size_max + 1)\<rparr>) m)"

subsection \<open>Topics\<close>

definition retained_create_level ::
  "bytes \<Rightarrow> node_key \<times> 'v retained_map \<Rightarrow> ('v, node_key \<times> 'v retained_map) retained_result" where
  "retained_create_level t s =
     (let (parent, m) = s; k = (re_id (rm_entry m parent), t) in
      if t = plus_level \<or> t = hash_level then Inl (No_wildcards_allowed, m)
      else case rm_node m k of
        None \<Rightarrow>
          (let m = (rm_set k \<lparr>re_id = rm_next_node_id m, re_count = 1, re_value = None\<rparr> m)\<lparr>rm_next_node_id := rm_next_node_id m + 1\<rparr> in
           if rm_next_node_id m = size_max then Inl (Max_stored_topics, m) else Inr (k, m))
      | Some _ \<Rightarrow> bindE (retained_increase k m) (\<lambda>m. Inr (k, m)))"

definition retained_create_topic :: "bytes \<Rightarrow> 'v retained_map \<Rightarrow> ('v, node_key \<times> 'v retained_map) retained_result" where
  "retained_create_topic topic m = snd (topic_filter_tokenizer topic (throwing retained_create_level) (Inr (retained_root, m)))"

definition retained_find_level :: "'v retained_map \<Rightarrow> bytes \<Rightarrow> node_key list \<times> node_key \<Rightarrow> bool \<times> node_key list \<times> node_key" where
  "retained_find_level m t s =
     (let (path, parent) = s; k = (re_id (rm_entry m parent), t) in
      case rm_node m k of
        None \<Rightarrow> (False, [], parent)
      | Some _ \<Rightarrow> (True, path @ [k], k))"

definition retained_find_topic :: "bytes \<Rightarrow> 'v retained_map \<Rightarrow> node_key list" where
  "retained_find_topic topic m = fst (snd (topic_filter_tokenizer topic (retained_find_level m) ([], retained_root)))"

fun retained_erase_path :: "node_key list \<Rightarrow> 'v retained_map \<Rightarrow> 'v retained_map" where
  "retained_erase_path [] m = m"
| "retained_erase_path (k # ks) m =
     (let m = retained_decrease k m in
      retained_erase_path ks (if re_count (rm_entry m k) = 0 then rm_delete k m else m))"

definition retained_set_value :: "node_key \<Rightarrow> 'v option \<Rightarrow> 'v retained_map \<Rightarrow> 'v retained_map" where
  "retained_set_value k v m = rm_set k ((rm_entry m k)\<lparr>re_value := v\<rparr>) m"

definition retained_erase_topic :: "bytes \<Rightarrow> 'v retained_map \<Rightarrow> nat \<times> 'v retained_map" where
  "retained_erase_topic topic m =
     (let path = retained_find_topic topic m in
      if path \<noteq> [] \<and> re_value (rm_entry m (last path)) \<noteq> None
      then (1, retained_erase_path path (retained_set_value (last path) None m))
      else (0, m))"

fun retained_increase_topics :: "node_key list \<Rightarrow> 'v retained_map \<Rightarrow> ('v, 'v retained_map) retained_result" where
  "retained_increase_topics [] m = Inr m"
| "retained_increase_topics (k # ks) m = bindE (retained_increase k m) (retained_increase_topics ks)"

definition retained_increase_size :: "'v retained_map \<Rightarrow> ('v, 'v retained_map) retained_result" where
  "retained_increase_size m =
     (if rm_size m = size_max then Inl (Max_stored_topics, m) else Inr (m\<lparr>rm_size := rm_size m + 1\<rparr>))"

definition retained_decrease_size :: "nat \<Rightarrow> 'v retained_map \<Rightarrow> 'v retained_map" where
  "retained_decrease_size n m = m\<lparr>rm_size := (rm_size m + (size_max + 1 - n)) mod (size_max + 1)\<rparr>"

definition retained_insert :: "bytes \<Rightarrow> 'v \<Rightarrow> 'v retained_map \<Rightarrow> ('v, nat \<times> 'v retained_map) retained_result" where
  "retained_insert topic val m =
     (let path = retained_find_topic topic m in
      if path = [] then
        bindE (retained_create_topic topic m) (\<lambda>(new_topic, m).
        bindE (retained_increase_size (retained_set_value new_topic (Some val) m)) (\<lambda>m. Inr (1, m)))
      else if re_value (rm_entry m (last path)) = None then
        bindE (retained_increase_topics path m) (\<lambda>m.
        bindE (retained_increase_size (retained_set_value (last path) (Some val) m)) (\<lambda>m. Inr (1, m)))
      else Inr (0, retained_set_value (last path) (Some val) m))"

definition retained_erase :: "bytes \<Rightarrow> 'v retained_map \<Rightarrow> nat \<times> 'v retained_map" where
  "retained_erase topic m = (let (result, m) = retained_erase_topic topic m in (result, retained_decrease_size result m))"

definition retained_internal_size :: "'v retained_map \<Rightarrow> nat" where
  "retained_internal_size m = length (rm_map m)"

definition retained_clear :: "'v retained_map \<Rightarrow> 'v retained_map" where
  "retained_clear m = retained_map_init"

subsection \<open>Search\<close>

text \<open>The nodes below a node, in the order of the index.\<close>

definition retained_children :: "'v retained_map \<Rightarrow> nat \<Rightarrow> (node_key \<times> 'v retained_entry) list" where
  "retained_children m parent = filter (\<lambda>x. fst (fst x) = parent) (rm_map m)"

definition not_system :: "node_key \<times> 'v retained_entry \<Rightarrow> bool" where
  "not_system x \<longleftrightarrow> snd (fst x) = [] \<or> hd (snd (fst x)) \<noteq> char_dollar"

definition values_of :: "'v retained_entry list \<Rightarrow> 'v list" where
  "values_of es = concat (map (\<lambda>e. case re_value e of None \<Rightarrow> [] | Some v \<Rightarrow> [v]) es)"

partial_function (option) match_hash_entries :: "'v retained_map \<Rightarrow> nat list \<Rightarrow> bool \<Rightarrow> 'v list option" where
  "match_hash_entries m entries ignore_system =
     (if entries = [] then Some []
      else
        (let found = concat (map (\<lambda>root. filter (\<lambda>x. \<not> ignore_system \<or> not_system x) (retained_children m root)) entries) in
         Option.bind (match_hash_entries m (map (\<lambda>x. re_id (snd x)) found) False)
           (\<lambda>vs. Some (values_of (map snd found) @ vs))))"

definition next_entries :: "'v retained_map \<Rightarrow> bytes \<Rightarrow> node_key \<Rightarrow> node_key list" where
  "next_entries m t k =
     (let parent = re_id (rm_entry m k) in
      if t = plus_level
      then map fst (takeWhile (\<lambda>x. parent \<noteq> root_node_id \<or> not_system x) (retained_children m parent))
      else if rm_node m (parent, t) = None then [] else [(parent, t)])"

definition retained_match_level ::
  "'v retained_map \<Rightarrow> bytes \<Rightarrow> (node_key list \<times> 'v list) option \<Rightarrow> bool \<times> (node_key list \<times> 'v list) option" where
  "retained_match_level m t s =
     (case s of
        None \<Rightarrow> (False, None)
      | Some (entries, called) \<Rightarrow>
          if t = hash_level \<and> entries \<noteq> [] then
            (let parent = re_id (rm_entry m (hd entries)) in
             case match_hash_entries m [parent] (parent = root_node_id) of
               None \<Rightarrow> (False, None)
             | Some vs \<Rightarrow> (False, Some (entries, called @ vs)))
          else
            (let new_entries = concat (map (next_entries m t) entries) in
             (new_entries \<noteq> [], Some (new_entries, called))))"

definition retained_find :: "bytes \<Rightarrow> 'v retained_map \<Rightarrow> 'v list option" where
  "retained_find topic_filter m =
     map_option (\<lambda>(entries, called). called @ values_of (map (rm_entry m) entries))
       (snd (topic_filter_tokenizer topic_filter (retained_match_level m) (Some ([retained_root], []))))"

end
