(* ===== verification/Retained_Tree.thy ===== *)
theory Retained_Tree
  imports Retained_Map
begin

text \<open>
  The nodes of the retained messages as a function of the topics: there is one node for every
  beginning of a stored topic, its count is the number of topics that begin with it. While a topic is added level
  by level, what has been added of it counts as a topic.
\<close>

subsection \<open>Nodes and topics\<close>

type_synonym levels = "bytes list"

definition node_of :: "levels multiset \<Rightarrow> levels \<Rightarrow> bool" where
  "node_of T p \<longleftrightarrow> p = [] \<or> (\<exists>q \<in># T. prefix p q)"

definition topics_below :: "levels multiset \<Rightarrow> levels \<Rightarrow> nat" where
  "topics_below T p = size (filter_mset (prefix p) T)"

definition node_key_of :: "(levels \<Rightarrow> nat) \<Rightarrow> levels \<Rightarrow> node_key" where
  "node_key_of idf p = (if p = [] then retained_root else (idf (butlast p), last p))"

definition entry_at :: "levels multiset \<Rightarrow> (levels \<Rightarrow> 'v option) \<Rightarrow> (levels \<Rightarrow> nat) \<Rightarrow> levels \<Rightarrow> 'v retained_entry" where
  "entry_at T A idf p = \<lparr>re_id = idf p, re_count = topics_below T p, re_value = A p\<rparr>"

definition root_entry :: "'v retained_entry" where
  "root_entry = \<lparr>re_id = root_node_id, re_count = 1, re_value = None\<rparr>"

definition ids_distinct :: "levels multiset \<Rightarrow> (levels \<Rightarrow> nat) \<Rightarrow> bool" where
  "ids_distinct T idf \<longleftrightarrow> (\<forall>p q. node_of T p \<longrightarrow> node_of T q \<longrightarrow> idf p = idf q \<longrightarrow> p = q)"

definition ids_below :: "nat \<Rightarrow> levels multiset \<Rightarrow> (levels \<Rightarrow> nat) \<Rightarrow> bool" where
  "ids_below n T idf \<longleftrightarrow> idf [] = root_node_id \<and> (\<forall>p. node_of T p \<longrightarrow> 0 < idf p \<and> idf p < n)"

definition nodes_of ::
  "(node_key \<Rightarrow> 'v retained_entry option) \<Rightarrow> levels multiset \<Rightarrow> (levels \<Rightarrow> 'v option) \<Rightarrow> (levels \<Rightarrow> nat) \<Rightarrow> bool" where
  "nodes_of f T A idf \<longleftrightarrow>
     (\<forall>k e. f k = Some e \<longleftrightarrow>
        k = retained_root \<and> e = root_entry \<or>
        (\<exists>p. p \<noteq> [] \<and> node_of T p \<and> k = node_key_of idf p \<and> e = entry_at T A idf p))"

definition tree_of :: "'v retained_map \<Rightarrow> levels multiset \<Rightarrow> (levels \<Rightarrow> 'v option) \<Rightarrow> (levels \<Rightarrow> nat) \<Rightarrow> bool" where
  "tree_of m T A idf \<longleftrightarrow>
     distinct (map fst (rm_map m)) \<and> ids_distinct T idf \<and> ids_below (rm_next_node_id m) T idf \<and>
     nodes_of (rm_node m) T A idf \<and> (\<forall>p. A p \<noteq> None \<longrightarrow> p \<noteq> [] \<and> node_of T p)"

lemma node_of_Nil [simp]: "node_of T []"
  by (simp add: node_of_def)

lemma node_of_butlast: "node_of T (p @ [t]) \<Longrightarrow> node_of T p"
  by (auto simp: node_of_def dest: append_prefixD)

lemma node_of_prefix: "prefix p q \<Longrightarrow> node_of T q \<Longrightarrow> node_of T p"
  by (auto simp: node_of_def dest: prefix_order.trans)

lemma node_of_add: "node_of (add_mset q T) p \<longleftrightarrow> node_of T p \<or> prefix p q"
  by (auto simp: node_of_def)

lemma topics_below_add: "topics_below (add_mset q T) p = topics_below T p + (if prefix p q then 1 else 0)"
  by (simp add: topics_below_def)

lemma node_of_below: "p \<noteq> [] \<Longrightarrow> node_of T p \<longleftrightarrow> 0 < topics_below T p"
  by (auto simp: node_of_def topics_below_def simp flip: neq0_conv)

lemma topics_below_le: "topics_below T p \<le> size T"
  unfolding topics_below_def by (rule size_filter_mset_lesseq)

lemma node_key_snoc [simp]: "node_key_of idf (p @ [t]) = (idf p, t)" "node_key_of idf [] = retained_root"
  by (simp_all add: node_key_of_def)

lemma entry_at_simps [simp]:
  "re_id (entry_at T A idf p) = idf p" "re_count (entry_at T A idf p) = topics_below T p" "re_value (entry_at T A idf p) = A p"
  by (simp_all add: entry_at_def)

subsection \<open>Lookup\<close>

lemma tree_nodes:
  "tree_of m T A idf \<Longrightarrow> rm_node m k = Some e \<longleftrightarrow>
     k = retained_root \<and> e = root_entry \<or> (\<exists>p. p \<noteq> [] \<and> node_of T p \<and> k = node_key_of idf p \<and> e = entry_at T A idf p)"
  unfolding tree_of_def nodes_of_def by blast

lemma tree_root_entry: "tree_of m T A idf \<Longrightarrow> rm_node m retained_root = Some root_entry"
  by (simp add: tree_of_def nodes_of_def)

lemma tree_entry: "tree_of m T A idf \<Longrightarrow> node_of T p \<Longrightarrow> p \<noteq> [] \<Longrightarrow> rm_node m (node_key_of idf p) = Some (entry_at T A idf p)"
  unfolding tree_of_def nodes_of_def by blast

lemma retained_tree_id: "tree_of m T A idf \<Longrightarrow> node_of T p \<Longrightarrow> re_id (rm_entry m (node_key_of idf p)) = idf p"
  using tree_entry [of m T A idf p] tree_root_entry [of m T A idf]
  by (cases "p = []") (auto simp: tree_of_def ids_below_def root_entry_def)

lemma node_key_inj:
  assumes "tree_of m T A idf" and "node_of T p" and "node_of T q" and "node_key_of idf p = node_key_of idf q"
  shows "p = q"
proof (cases p rule: rev_cases)
  case Nil
  with assms show ?thesis
    by (cases q rule: rev_cases) (auto simp: tree_of_def ids_below_def dest: node_of_butlast)
next
  case (snoc p' t)
  then have "node_of T p'" "0 < idf p'" using assms(1,2) by (auto simp: tree_of_def ids_below_def dest: node_of_butlast)
  with assms snoc show ?thesis
    by (cases q rule: rev_cases) (auto simp: tree_of_def ids_distinct_def dest: node_of_butlast)
qed

lemma tree_no_entry:
  assumes "tree_of m T A idf" and "node_of T p" and "\<not> node_of T (p @ [t])"
  shows "rm_node m (idf p, t) = None"
proof (rule ccontr)
  assume "rm_node m (idf p, t) \<noteq> None"
  moreover have "0 < idf p" using assms(1,2) by (simp add: tree_of_def ids_below_def)
  ultimately obtain q where q: "q \<noteq> []" "node_of T q" "(idf p, t) = node_key_of idf q"
    using assms(1) by (auto simp: tree_of_def nodes_of_def)
  obtain q' u where "q = q' @ [u]" using q(1) by (cases q rule: rev_cases) auto
  with q assms show False by (auto simp: tree_of_def ids_distinct_def dest: node_of_butlast)
qed

lemma tree_entry_step:
  assumes "tree_of m T A idf" and "node_of T p"
  shows "rm_node m (idf p, t) = (if node_of T (p @ [t]) then Some (entry_at T A idf (p @ [t])) else None)"
  using tree_entry [OF assms(1), of "p @ [t]"] tree_no_entry [OF assms] by simp

text \<open>The keys on the way from one node down to another.\<close>

fun keys_along :: "(levels \<Rightarrow> nat) \<Rightarrow> levels \<Rightarrow> levels \<Rightarrow> node_key list" where
  "keys_along idf p [] = []"
| "keys_along idf p (t # ts) = (idf p, t) # keys_along idf (p @ [t]) ts"

lemma keys_along_last: "ts \<noteq> [] \<Longrightarrow> last (keys_along idf p ts) = node_key_of idf (p @ ts)"
proof (induction ts arbitrary: p)
  case (Cons t ts)
  then show ?case using Cons.IH [of "p @ [t]"] by (cases ts) auto
qed simp

lemma find_levels:
  assumes "tree_of m T A idf" and "node_of T p" and "ts \<noteq> []"
  shows "fst (snd (run_tokens (retained_find_level m) ts (path, node_key_of idf p))) =
    (if node_of T (p @ ts) then path @ keys_along idf p ts else [])"
  using assms(2,3)
proof (induction ts arbitrary: p path)
  case (Cons t ts)
  have id: "re_id (rm_entry m (node_key_of idf p)) = idf p" using retained_tree_id [OF assms(1) Cons.prems(1)] .
  have no: "\<not> node_of T (p @ [t]) \<Longrightarrow> \<not> node_of T (p @ t # ts)"
    using node_of_prefix [of "p @ [t]" "p @ t # ts" T] by auto
  show ?case
  proof (cases "node_of T (p @ [t])")
    case False
    then show ?thesis
      using no id tree_entry_step [OF assms(1) Cons.prems(1), of t] by (simp add: retained_find_level_def)
  next
    case True
    then have step: "retained_find_level m t (path, node_key_of idf p) = (True, path @ [(idf p, t)], (idf p, t))"
      using id tree_entry_step [OF assms(1) Cons.prems(1), of t] by (simp add: retained_find_level_def Let_def)
    show ?thesis
    proof (cases "ts = []")
      case True
      then show ?thesis using step \<open>node_of T (p @ [t])\<close> by simp
    next
      case False
      then show ?thesis using step Cons.IH [of "p @ [t]" "path @ [(idf p, t)]"] True by (simp add: case_prod_unfold Let_def)
    qed
  qed
qed simp

lemma find_topic_keys:
  assumes "tree_of m T A idf"
  shows "retained_find_topic topic m = (if node_of T (tokens topic) then keys_along idf [] (tokens topic) else [])"
  using find_levels [OF assms, of "[]" "tokens topic" "[]"]
  by (simp add: retained_find_topic_def topic_filter_tokenizer_tokens)

subsection \<open>Changes\<close>

lemma rm_set_simps [simp]:
  "rm_node (rm_set k e m) = (rm_node m)(k \<mapsto> e)" "rm_next_node_id (rm_set k e m) = rm_next_node_id m" "rm_size (rm_set k e m) = rm_size m"
  "rm_node (rm_delete k m) = (rm_node m)(k := None)" "rm_next_node_id (rm_delete k m) = rm_next_node_id m" "rm_size (rm_delete k m) = rm_size m"
  by (simp_all add: rm_set_def rm_delete_def AList.update_conv' delete_conv')

lemma rm_distinct [simp]:
  "distinct (map fst (rm_map m)) \<Longrightarrow> distinct (map fst (rm_map (rm_set k e m)))"
  "distinct (map fst (rm_map m)) \<Longrightarrow> distinct (map fst (rm_map (rm_delete k m)))"
  by (simp_all add: rm_set_def rm_delete_def distinct_update distinct_delete)

text \<open>A node that changes in place.\<close>

lemma tree_set:
  assumes "tree_of m T A idf" and "node_of T p" and "p \<noteq> []" and "\<And>q. node_of T' q \<longleftrightarrow> node_of T q"
    and "\<And>q. node_of T q \<Longrightarrow> q \<noteq> p \<Longrightarrow> q \<noteq> [] \<Longrightarrow> entry_at T' A' idf q = entry_at T A idf q" and "\<And>q. A' q \<noteq> None \<Longrightarrow> q \<noteq> [] \<and> node_of T q"
  shows "tree_of (rm_set (node_key_of idf p) (entry_at T' A' idf p) m) T' A' idf"
proof -
  have k: "node_key_of idf p \<noteq> retained_root"
    using node_key_inj [OF assms(1,2), of "[]"] assms(3) by auto
  have "nodes_of ((rm_node m)(node_key_of idf p \<mapsto> entry_at T' A' idf p)) T' A' idf"
    unfolding nodes_of_def
  proof (intro allI)
    fix k' e
    show "((rm_node m)(node_key_of idf p \<mapsto> entry_at T' A' idf p)) k' = Some e \<longleftrightarrow>
      k' = retained_root \<and> e = root_entry \<or>
      (\<exists>q. q \<noteq> [] \<and> node_of T' q \<and> k' = node_key_of idf q \<and> e = entry_at T' A' idf q)"
    proof (cases "k' = node_key_of idf p")
      case True
      then have "(\<exists>q. q \<noteq> [] \<and> node_of T' q \<and> k' = node_key_of idf q \<and> e = entry_at T' A' idf q) \<longleftrightarrow> e = entry_at T' A' idf p"
        using assms(2-4) node_key_inj [OF assms(1,2)] by metis
      then show ?thesis using True k by auto
    next
      case False
      then have "((rm_node m)(node_key_of idf p \<mapsto> entry_at T' A' idf p)) k' = Some e \<longleftrightarrow>
          k' = retained_root \<and> e = root_entry \<or> (\<exists>q. q \<noteq> [] \<and> node_of T q \<and> k' = node_key_of idf q \<and> e = entry_at T A idf q)"
        using tree_nodes [OF assms(1)] by simp
      then show ?thesis using False assms(4,5) by metis
    qed
  qed
  then show ?thesis using assms(1,4,6) by (simp add: tree_of_def ids_distinct_def ids_below_def)
qed

text \<open>A new leaf gets the next identifier.\<close>

lemma tree_new:
  assumes "tree_of m T A idf" and "node_of T p" and "\<not> node_of T (p @ [t])" and "\<And>q. node_of T' q \<longleftrightarrow> node_of T q \<or> q = p @ [t]"
    and "\<And>q. node_of T q \<Longrightarrow> topics_below T' q = topics_below T q" and "n = rm_next_node_id m"
  shows "tree_of ((rm_set (idf p, t) (entry_at T' A (idf(p @ [t] := n)) (p @ [t])) m)\<lparr>rm_next_node_id := n + 1\<rparr>) T' A (idf(p @ [t] := n))"
proof -
  let ?idf = "idf(p @ [t] := n)"
  have old: "?idf q = idf q" if "node_of T q" for q using that assms(3) by auto
  have less: "0 < idf q" "idf q < n" if "node_of T q" for q using that assms(1,6) by (auto simp: tree_of_def ids_below_def)
  have inj: "a = b" if "node_of T a" "node_of T b" "idf a = idf b" for a b
    using assms(1) that unfolding tree_of_def ids_distinct_def by blast
  have up: "node_of T q" if "node_of T' (q @ [u])" for q u using that assms(2,4) node_of_butlast by auto
  have key: "node_key_of ?idf q = node_key_of idf q" if "node_of T' q" for q
    using that old up by (cases q rule: rev_cases) (simp_all del: fun_upd_apply)
  have "ids_distinct T' ?idf"
    unfolding ids_distinct_def
  proof (intro allI impI)
    fix a b assume ab: "node_of T' a" "node_of T' b" "?idf a = ?idf b"
    have "idf a \<noteq> n" "idf b \<noteq> n" if "node_of T a" "node_of T b" using less that by auto
    with ab assms(1,4) less show "a = b"
      by (auto simp: tree_of_def ids_distinct_def split: if_splits)
  qed
  moreover have "ids_below (n + 1) T' ?idf"
    using assms(1,4) less [of "[]"] less by (auto simp: tree_of_def ids_below_def less_Suc_eq)
  moreover have "nodes_of ((rm_node m)((idf p, t) \<mapsto> entry_at T' A ?idf (p @ [t]))) T' A ?idf"
    unfolding nodes_of_def
  proof (intro allI)
    fix k e
    show "((rm_node m)((idf p, t) \<mapsto> entry_at T' A ?idf (p @ [t]))) k = Some e \<longleftrightarrow>
      k = retained_root \<and> e = root_entry \<or> (\<exists>q. q \<noteq> [] \<and> node_of T' q \<and> k = node_key_of ?idf q \<and> e = entry_at T' A ?idf q)"
    proof (cases "k = (idf p, t)")
      case True
      have only: "q = p @ [t]" if "node_of T' q" "q \<noteq> []" "k = node_key_of idf q" for q
      proof (cases q rule: rev_cases)
        case (snoc q' u)
        then show ?thesis using that True inj [of q' p] up [of q' u] assms(2) by simp
      qed (use that in simp)
      have "(\<exists>q. q \<noteq> [] \<and> node_of T' q \<and> k = node_key_of ?idf q \<and> e = entry_at T' A ?idf q) \<longleftrightarrow> e = entry_at T' A ?idf (p @ [t])"
      proof (intro iffI; (elim exE conjE)?)
        fix q assume "q \<noteq> []" "node_of T' q" "k = node_key_of ?idf q" "e = entry_at T' A ?idf q"
        then show "e = entry_at T' A ?idf (p @ [t])" using only [of q] key [of q] by (simp del: fun_upd_apply)
      next
        assume "e = entry_at T' A ?idf (p @ [t])"
        then show "\<exists>q. q \<noteq> [] \<and> node_of T' q \<and> k = node_key_of ?idf q \<and> e = entry_at T' A ?idf q"
          using True key [of "p @ [t]"] assms(4) by (intro exI [of _ "p @ [t]"]) (simp del: fun_upd_apply)
      qed
      then show ?thesis using True less [OF assms(2)] by auto
    next
      case False
      have "((rm_node m)((idf p, t) \<mapsto> entry_at T' A ?idf (p @ [t]))) k = Some e \<longleftrightarrow>
          k = retained_root \<and> e = root_entry \<or> (\<exists>q. q \<noteq> [] \<and> node_of T q \<and> k = node_key_of idf q \<and> e = entry_at T A idf q)"
        using False tree_nodes [OF assms(1)] by simp
      moreover have "q \<noteq> [] \<and> node_of T q \<and> k = node_key_of idf q \<and> e = entry_at T A idf q \<longleftrightarrow>
          q \<noteq> [] \<and> node_of T' q \<and> k = node_key_of ?idf q \<and> e = entry_at T' A ?idf q" for q
      proof (cases "node_of T q")
        case True
        then have "entry_at T A idf q = entry_at T' A ?idf q" using old assms(5) by (simp add: entry_at_def)
        then show ?thesis using True key [of q] assms(4) by (simp del: fun_upd_apply)
      next
        case no: False
        have "k \<noteq> node_key_of ?idf (p @ [t])" using False key [of "p @ [t]"] assms(4) by (simp del: fun_upd_apply)
        then show ?thesis using no assms(4) by blast
      qed
      ultimately show ?thesis by (simp del: fun_upd_apply)
    qed
  qed
  ultimately show ?thesis using assms(1,4,6) by (simp add: tree_of_def)
qed

subsection \<open>Adding a topic\<close>

lemma node_of_snoc: "node_of (add_mset (p @ [t]) T) q \<longleftrightarrow> node_of (add_mset p T) q \<or> q = p @ [t]"
  by (auto simp: node_of_add prefix_snoc)

text \<open>One more level of the topic that is being added, at a node that exists.\<close>

lemma increase_level:
  assumes "tree_of m (add_mset p T) A idf" and "node_of T (p @ [t])" and "size T < size_max"
  shows "\<exists>m'. retained_increase (idf p, t) m = Inr m' \<and> tree_of m' (add_mset (p @ [t]) T) A idf \<and>
    rm_size m' = rm_size m \<and> rm_next_node_id m' = rm_next_node_id m"
proof -
  let ?T = "add_mset p T" and ?T' = "add_mset (p @ [t]) T"
  have n: "node_of ?T (p @ [t])" using assms(2) by (simp add: node_of_add)
  have e: "rm_node m (idf p, t) = Some (entry_at ?T A idf (p @ [t]))" using tree_entry [OF assms(1) n] by simp
  have c: "topics_below ?T (p @ [t]) = topics_below T (p @ [t])" by (auto simp: topics_below_add dest: prefix_length_le)
  then have "topics_below ?T (p @ [t]) < size_max" using topics_below_le [of T "p @ [t]"] assms(3) by linarith
  then have "retained_increase (idf p, t) m = Inr (rm_set (idf p, t) (entry_at ?T' A idf (p @ [t])) m)"
    using e c by (simp add: retained_increase_def entry_at_def topics_below_add)
  moreover have "tree_of (rm_set (node_key_of idf (p @ [t])) (entry_at ?T' A idf (p @ [t])) m) ?T' A idf"
  proof (rule tree_set [OF assms(1) n])
    show "node_of ?T' q \<longleftrightarrow> node_of ?T q" for q using n by (auto simp: node_of_snoc)
    show "entry_at ?T' A idf q = entry_at ?T A idf q" if "q \<noteq> p @ [t]" for q
      using that by (simp add: entry_at_def topics_below_add prefix_snoc)
    show "A q \<noteq> None \<Longrightarrow> q \<noteq> [] \<and> node_of ?T q" for q using assms(1) by (simp add: tree_of_def)
  qed simp
  ultimately show ?thesis by simp
qed

lemma create_level_ok:
  assumes "tree_of m (add_mset p T) A idf" and "t \<noteq> plus_level" "t \<noteq> hash_level" and "size T < size_max" and "rm_next_node_id m + 1 < size_max"
  shows "\<exists>m' idf'. retained_create_level t (node_key_of idf p, m) = Inr (node_key_of idf' (p @ [t]), m') \<and>
    tree_of m' (add_mset (p @ [t]) T) A idf' \<and> rm_size m' = rm_size m \<and> rm_next_node_id m' \<le> rm_next_node_id m + 1"
proof -
  let ?T = "add_mset p T" and ?T' = "add_mset (p @ [t]) T"
  have p: "node_of ?T p" by (simp add: node_of_add)
  have id: "re_id (rm_entry m (node_key_of idf p)) = idf p" using retained_tree_id [OF assms(1) p] .
  show ?thesis
  proof (cases "node_of T (p @ [t])")
    case True
    then have "rm_node m (idf p, t) \<noteq> None" using tree_entry_step [OF assms(1) p, of t] by (simp add: node_of_add)
    with increase_level [OF assms(1) True assms(4)] id assms(2,3) show ?thesis
      by (auto simp: retained_create_level_def intro!: exI [of _ idf])
  next
    case False
    then have new: "\<not> node_of ?T (p @ [t])" by (auto simp: node_of_add dest: prefix_length_le)
    define n where "n = rm_next_node_id m"
    define m' where "m' = (rm_set (idf p, t) (entry_at ?T' A (idf(p @ [t] := n)) (p @ [t])) m)\<lparr>rm_next_node_id := n + 1\<rparr>"
    have tree: "tree_of m' ?T' A (idf(p @ [t] := n))"
      unfolding m'_def
    proof (rule tree_new [OF assms(1) p new])
      show "node_of ?T' q \<longleftrightarrow> node_of ?T q \<or> q = p @ [t]" for q by (rule node_of_snoc)
      show "topics_below ?T' q = topics_below ?T q" if "node_of ?T q" for q
        using that new by (auto simp: topics_below_add prefix_snoc)
    qed (simp add: n_def)
    have "A (p @ [t]) = None" using assms(1) new by (auto simp: tree_of_def)
    moreover have "topics_below T (p @ [t]) = 0" using False node_of_below [of "p @ [t]" T] by simp
    ultimately have "entry_at ?T' A (idf(p @ [t] := n)) (p @ [t]) = \<lparr>re_id = n, re_count = 1, re_value = None\<rparr>"
      by (simp add: entry_at_def topics_below_add)
    then have "retained_create_level t (node_key_of idf p, m) = Inr ((idf p, t), m')"
      using id tree_no_entry [OF assms(1) p new] assms(2,3,5) by (simp add: retained_create_level_def m'_def n_def Let_def)
    with tree show ?thesis
      by (intro exI [of _ m'] exI [of _ "idf(p @ [t] := n)"]) (simp add: m'_def n_def)
  qed
qed

lemma create_levels:
  assumes "tree_of m (add_mset p T) A idf" and "\<forall>t \<in> set ts. t \<noteq> plus_level \<and> t \<noteq> hash_level" and "size T < size_max"
    and "rm_next_node_id m + length ts < size_max" and "ts \<noteq> []"
  shows "\<exists>m' idf'. snd (run_tokens (throwing retained_create_level) ts (Inr (node_key_of idf p, m))) = Inr (node_key_of idf' (p @ ts), m') \<and>
    tree_of m' (add_mset (p @ ts) T) A idf' \<and> rm_size m' = rm_size m \<and> rm_next_node_id m' \<le> rm_next_node_id m + length ts"
  using assms
proof (induction ts arbitrary: p m idf)
  case (Cons t ts)
  then obtain m1 idf1 where 1: "retained_create_level t (node_key_of idf p, m) = Inr (node_key_of idf1 (p @ [t]), m1)"
    "tree_of m1 (add_mset (p @ [t]) T) A idf1" "rm_size m1 = rm_size m" "rm_next_node_id m1 \<le> rm_next_node_id m + 1"
    using create_level_ok [of m p T A idf t] by auto
  then have step: "throwing retained_create_level t (Inr (node_key_of idf p, m)) = (True, Inr (node_key_of idf1 (p @ [t]), m1))"
    by (simp add: throwing_def)
  show ?case
  proof (cases "ts = []")
    case True
    then show ?thesis using 1 step by auto
  next
    case False
    with Cons.IH [OF 1(2)] Cons.prems(2-4) 1 obtain m' idf' where
      "snd (run_tokens (throwing retained_create_level) ts (Inr (node_key_of idf1 (p @ [t]), m1))) = Inr (node_key_of idf' (p @ t # ts), m')"
      "tree_of m' (add_mset (p @ t # ts) T) A idf'" "rm_size m' = rm_size m1" "rm_next_node_id m' \<le> rm_next_node_id m1 + length ts"
      by auto
    with 1 step False show ?thesis by (auto simp: case_prod_unfold Let_def)
  qed
qed simp

lemma increase_topics_ok:
  assumes "tree_of m (add_mset p T) A idf" and "node_of T (p @ ts)" and "size T < size_max"
  shows "\<exists>m'. retained_increase_topics (keys_along idf p ts) m = Inr m' \<and> tree_of m' (add_mset (p @ ts) T) A idf \<and>
    rm_size m' = rm_size m \<and> rm_next_node_id m' = rm_next_node_id m"
  using assms(1,2)
proof (induction ts arbitrary: p m)
  case (Cons t ts)
  then have "node_of T (p @ [t])" using node_of_prefix [of "p @ [t]" "p @ t # ts" T] by simp
  then obtain m1 where 1: "retained_increase (idf p, t) m = Inr m1" "tree_of m1 (add_mset (p @ [t]) T) A idf" "rm_size m1 = rm_size m"
    "rm_next_node_id m1 = rm_next_node_id m"
    using increase_level [OF Cons.prems(1) _ assms(3)] by blast
  then show ?case using Cons.IH [OF 1(2)] Cons.prems(2) by simp
qed simp

subsection \<open>Removing a topic\<close>

lemma keys_along_set: "k \<in> set (keys_along idf p ts) \<longleftrightarrow> (\<exists>q. strict_prefix p q \<and> prefix q (p @ ts) \<and> k = node_key_of idf q)"
proof (induction ts arbitrary: p)
  case (Cons t ts)
  have split: "strict_prefix p q \<and> prefix q (p @ t # ts) \<longleftrightarrow> q = p @ [t] \<or> strict_prefix (p @ [t]) q \<and> prefix q ((p @ [t]) @ ts)" for q
  proof -
    have "strict_prefix p q \<longleftrightarrow> prefix (p @ [t]) q" if "prefix q (p @ t # ts)"
    proof (cases "prefix p q")
      case True
      then obtain z where "q = p @ z" by (auto elim: prefixE)
      with that show ?thesis by (cases z) (auto simp: strict_prefix_def)
    qed (auto simp: strict_prefix_def dest: append_prefixD)
    then show ?thesis by (auto simp: strict_prefix_def)
  qed
  show ?case unfolding conj_assoc [symmetric] split by (auto simp: Cons.IH)
qed (auto simp: strict_prefix_def)

lemma keys_along_distinct:
  assumes "tree_of m T A idf" and "node_of T (p @ ts)"
  shows "distinct (keys_along idf p ts)"
  using assms(2)
proof (induction ts arbitrary: p)
  case (Cons t ts)
  have "(idf p, t) \<notin> set (keys_along idf (p @ [t]) ts)"
  proof
    assume "(idf p, t) \<in> set (keys_along idf (p @ [t]) ts)"
    then obtain q where q: "strict_prefix (p @ [t]) q" "prefix q (p @ t # ts)" "node_key_of idf (p @ [t]) = node_key_of idf q"
      by (auto simp: keys_along_set)
    then have "node_of T q" "node_of T (p @ [t])" using Cons.prems node_of_prefix [of q "p @ t # ts"] node_of_prefix [of "p @ [t]" q]
      by (auto simp: strict_prefix_def)
    with node_key_inj [OF assms(1)] q(1,3) show False by (metis prefix_order.less_irrefl)
  qed
  with Cons show ?case by simp
qed simp

text \<open>Every node on the path loses one topic, or goes with the last one.\<close>

lemma erase_path_nodes:
  assumes "distinct ks" and "\<forall>k \<in> set ks. \<exists>e. rm_node m k = Some e \<and> 0 < re_count e \<and> re_count e \<le> size_max"
  shows "rm_node (retained_erase_path ks m) k =
     (if k \<in> set ks then
        (let e = rm_entry m k in if re_count e = 1 then None else Some (e\<lparr>re_count := re_count e - 1\<rparr>))
      else rm_node m k) \<and>
   rm_next_node_id (retained_erase_path ks m) = rm_next_node_id m \<and> rm_size (retained_erase_path ks m) = rm_size m \<and>
   (distinct (map fst (rm_map m)) \<longrightarrow> distinct (map fst (rm_map (retained_erase_path ks m))))"
  using assms
proof (induction ks arbitrary: m)
  case (Cons k0 ks)
  then obtain e where e: "rm_node m k0 = Some e" "0 < re_count e" "re_count e \<le> size_max" by auto
  have wrap: "(re_count e + size_max) mod (size_max + 1) = re_count e - 1"
  proof -
    have "re_count e + size_max = (re_count e - 1) + (size_max + 1)" using e(2) by simp
    then have "(re_count e + size_max) mod (size_max + 1) = (re_count e - 1) mod (size_max + 1)" by (metis mod_add_self2)
    then show ?thesis using e(3) by simp
  qed
  define m1 where "m1 = retained_decrease k0 m"
  define m2 where "m2 = (if re_count (rm_entry m1 k0) = 0 then rm_delete k0 m1 else m1)"
  have m1: "m1 = rm_set k0 (e\<lparr>re_count := re_count e - 1\<rparr>) m" using e wrap by (simp add: m1_def retained_decrease_def)
  have m2: "rm_node m2 = (rm_node m)(k0 := if re_count e = 1 then None else Some (e\<lparr>re_count := re_count e - 1\<rparr>))"
    "rm_next_node_id m2 = rm_next_node_id m" "rm_size m2 = rm_size m" "distinct (map fst (rm_map m)) \<longrightarrow> distinct (map fst (rm_map m2))"
    using e(2) by (auto simp: m2_def m1)
  have "retained_erase_path (k0 # ks) m = retained_erase_path ks m2" by (simp add: m1_def m2_def Let_def)
  moreover have "\<forall>k \<in> set ks. \<exists>e. rm_node m2 k = Some e \<and> 0 < re_count e \<and> re_count e \<le> size_max"
    using Cons.prems by (auto simp: m2(1))
  ultimately show ?case using Cons.IH [of m2] Cons.prems(1) m2 e by (auto simp: Let_def)
qed simp

lemma erase_path_ok:
  assumes "tree_of m (add_mset ts T) A idf" and "ts \<noteq> []" and "size T < size_max" and "\<And>q. A q \<noteq> None \<Longrightarrow> node_of T q"
  shows "tree_of (retained_erase_path (keys_along idf [] ts) m) T A idf"
proof -
  let ?T = "add_mset ts T" and ?ks = "keys_along idf [] ts"
  let ?m = "retained_erase_path ?ks m"
  have pre: "node_of ?T q" if "prefix q ts" for q using that by (simp add: node_of_add)
  have mono: "node_of T q \<Longrightarrow> node_of ?T q" for q by (simp add: node_of_add)
  have on: "(\<exists>q. q \<noteq> [] \<and> prefix q ts \<and> k = node_key_of idf q) \<longleftrightarrow> k \<in> set ?ks" for k
    by (simp add: keys_along_set strict_prefix_def) metis
  have "distinct ?ks" using keys_along_distinct [OF assms(1), of "[]" ts] by (simp add: node_of_add)
  moreover have "\<forall>k \<in> set ?ks. \<exists>e. rm_node m k = Some e \<and> 0 < re_count e \<and> re_count e \<le> size_max"
  proof
    fix k assume "k \<in> set ?ks"
    then obtain q where "q \<noteq> []" "prefix q ts" "k = node_key_of idf q" using on by blast
    then show "\<exists>e. rm_node m k = Some e \<and> 0 < re_count e \<and> re_count e \<le> size_max"
      using tree_entry [OF assms(1) pre] node_of_below [of q ?T] pre topics_below_le [of ?T q] assms(3) by fastforce
  qed
  ultimately have nodes: "rm_node ?m k = (if k \<in> set ?ks then
        (let e = rm_entry m k in if re_count e = 1 then None else Some (e\<lparr>re_count := re_count e - 1\<rparr>)) else rm_node m k)"
      and rest: "rm_next_node_id ?m = rm_next_node_id m" "distinct (map fst (rm_map m)) \<longrightarrow> distinct (map fst (rm_map ?m))" for k
    using erase_path_nodes [of ?ks m] by blast+
  have "nodes_of (rm_node ?m) T A idf"
    unfolding nodes_of_def
  proof (intro allI)
    fix k e
    show "rm_node ?m k = Some e \<longleftrightarrow>
      k = retained_root \<and> e = root_entry \<or> (\<exists>q. q \<noteq> [] \<and> node_of T q \<and> k = node_key_of idf q \<and> e = entry_at T A idf q)"
    proof (cases "k \<in> set ?ks")
      case True
      then obtain q where q: "q \<noteq> []" "prefix q ts" "k = node_key_of idf q" using on by blast
      have "rm_node m k = Some (entry_at ?T A idf q)" using tree_entry [OF assms(1) pre] q by simp
      then have lhs: "rm_node ?m k = (if topics_below T q = 0 then None else Some (entry_at T A idf q))"
        using True q(2) nodes by (simp add: entry_at_def topics_below_add)
      have "k \<noteq> retained_root" using node_key_inj [OF assms(1) pre [OF q(2)], of "[]"] q by auto
      moreover have "q' = q" if "node_of T q'" "k = node_key_of idf q'" for q'
        using node_key_inj [OF assms(1) pre [OF q(2)] mono [OF that(1)]] that(2) q(3) by simp
      then have "(\<exists>q'. q' \<noteq> [] \<and> node_of T q' \<and> k = node_key_of idf q' \<and> e = entry_at T A idf q') \<longleftrightarrow>
          node_of T q \<and> e = entry_at T A idf q" using q by blast
      moreover have "node_of T q \<longleftrightarrow> topics_below T q \<noteq> 0" using q(1) node_of_below [of q T] by simp
      ultimately show ?thesis unfolding lhs by auto
    next
      case False
      have "node_of T q \<and> e = entry_at T A idf q \<longleftrightarrow> node_of ?T q \<and> e = entry_at ?T A idf q" if "q \<noteq> []" "k = node_key_of idf q" for q
      proof -
        have "\<not> prefix q ts" using False on that by blast
        then show ?thesis by (simp add: node_of_add entry_at_def topics_below_add)
      qed
      then have "q \<noteq> [] \<and> node_of T q \<and> k = node_key_of idf q \<and> e = entry_at T A idf q \<longleftrightarrow>
          q \<noteq> [] \<and> node_of ?T q \<and> k = node_key_of idf q \<and> e = entry_at ?T A idf q" for q by blast
      moreover have "rm_node ?m k = rm_node m k" using False nodes by simp
      ultimately show ?thesis using tree_nodes [OF assms(1), of k e] by simp
    qed
  qed
  moreover have "ids_distinct T idf" using assms(1) mono by (simp add: tree_of_def ids_distinct_def)
  moreover have "ids_below (rm_next_node_id m) T idf" using assms(1) mono by (simp add: tree_of_def ids_below_def)
  ultimately show ?thesis using assms(1,4) rest by (simp add: tree_of_def)
qed

end
