(* ===== verification/Retained_Spec.thy ===== *)
theory Retained_Spec
  imports Retained_Tree
begin

text \<open>
  The retained messages implement a finite map from topics to values; what a search finds.
\<close>

subsection \<open>Topics and values\<close>

definition by_levels :: "(bytes \<Rightarrow> 'v option) \<Rightarrow> levels \<Rightarrow> 'v option" where
  "by_levels A p = (if p \<in> range tokens then A (join_levels p) else None)"

definition stored_topics :: "(bytes \<Rightarrow> 'v option) \<Rightarrow> levels multiset" where
  "stored_topics A = mset_set (tokens ` dom A)"

definition retained_holds :: "'v retained_map \<Rightarrow> (bytes \<Rightarrow> 'v option) \<Rightarrow> bool" where
  "retained_holds m A \<longleftrightarrow>
     finite (dom A) \<and> rm_size m = card (dom A) \<and> rm_size m \<le> size_max \<and>
     (\<exists>idf. tree_of m (stored_topics A) (by_levels A) idf)"

text \<open>Room for one more topic, and topics without wildcards.\<close>

definition retained_room :: "bytes \<Rightarrow> 'v retained_map \<Rightarrow> bool" where
  "retained_room topic m \<longleftrightarrow> rm_size m < size_max \<and> rm_next_node_id m + length (tokens topic) < size_max"

definition no_wildcards :: "bytes \<Rightarrow> bool" where
  "no_wildcards topic \<longleftrightarrow> list_all (\<lambda>t. t \<noteq> plus_level \<and> t \<noteq> hash_level) (tokens topic)"

lemma inj_tokens: "inj tokens"
  by (metis injI tokens_join)

lemma by_levels_tokens [simp]: "by_levels A (tokens f) = A f"
  by (simp add: by_levels_def tokens_join)

lemma by_levels_upd: "by_levels (A(f := x)) = (by_levels A)(tokens f := x)"
  by (auto simp: by_levels_def fun_eq_iff tokens_join)

lemma by_levels_dom: "by_levels A p \<noteq> None \<longleftrightarrow> p \<in> tokens ` dom A"
  by (auto simp: by_levels_def tokens_join)

lemma stored_topics_insert: "finite (dom A) \<Longrightarrow> A f = None \<Longrightarrow> stored_topics (A(f \<mapsto> v)) = add_mset (tokens f) (stored_topics A)"
  using inj_tokens by (simp add: stored_topics_def inj_image_mem_iff domIff)

lemma stored_topics_assign: "A f \<noteq> None \<Longrightarrow> stored_topics (A(f \<mapsto> v)) = stored_topics A"
  by (simp add: stored_topics_def insert_absorb domIff)

lemma stored_topics_erase:
  assumes "finite (dom A)" and "A f \<noteq> None"
  shows "stored_topics A = add_mset (tokens f) (stored_topics (A(f := None)))"
proof -
  have "A = (A(f := None))(f \<mapsto> the (A f))" using assms(2) by auto
  then show ?thesis using stored_topics_insert [of "A(f := None)" f "the (A f)"] assms(1) by simp
qed

lemma stored_size: "finite (dom A) \<Longrightarrow> size (stored_topics A) = card (dom A)"
  using inj_tokens by (simp add: stored_topics_def card_image inj_on_subset)

lemma stored_node: "finite (dom A) \<Longrightarrow> by_levels A p \<noteq> None \<Longrightarrow> p \<noteq> [] \<and> node_of (stored_topics A) p"
  using by_levels_dom [of A p] by (auto simp: stored_topics_def node_of_def)

text \<open>A topic of no levels has no node but the root.\<close>

lemma tree_add_Nil: "tree_of m (add_mset [] T) A idf \<longleftrightarrow> tree_of m T A idf"
proof -
  have "node_of (add_mset [] T) = node_of T" by (auto simp: node_of_add fun_eq_iff)
  moreover have "entry_at (add_mset [] T) A idf p = entry_at T A idf p" if "p \<noteq> []" for p
    using that by (simp add: entry_at_def topics_below_add)
  then have "p \<noteq> [] \<and> node_of T p \<and> k = node_key_of idf p \<and> e = entry_at (add_mset [] T) A idf p \<longleftrightarrow>
      p \<noteq> [] \<and> node_of T p \<and> k = node_key_of idf p \<and> e = entry_at T A idf p" for p k e by auto
  ultimately show ?thesis unfolding tree_of_def ids_distinct_def ids_below_def nodes_of_def by simp
qed

lemma retained_set_value_ok:
  assumes "tree_of m T A idf" and "node_of T p" and "p \<noteq> []"
  shows "tree_of (retained_set_value (node_key_of idf p) v m) T (A(p := v)) idf"
proof -
  have "retained_set_value (node_key_of idf p) v m = rm_set (node_key_of idf p) (entry_at T (A(p := v)) idf p) m"
    using tree_entry [OF assms] by (simp add: retained_set_value_def entry_at_def)
  moreover have "tree_of (rm_set (node_key_of idf p) (entry_at T (A(p := v)) idf p) m) T (A(p := v)) idf"
    using assms by (intro tree_set [OF assms]) (auto simp: entry_at_def tree_of_def split: if_splits)
  ultimately show ?thesis by simp
qed

lemma retained_set_value_size [simp]:
  "rm_size (retained_set_value k v m) = rm_size m" "rm_next_node_id (retained_set_value k v m) = rm_next_node_id m"
  by (simp_all add: retained_set_value_def)

lemma erase_path_size: "rm_size (retained_erase_path ks m) = rm_size m" "rm_next_node_id (retained_erase_path ks m) = rm_next_node_id m"
  by (induction ks arbitrary: m) (simp_all add: Let_def retained_decrease_def)

subsection \<open>Insertion and removal\<close>

lemma keys_along_Nil: "keys_along idf p ts = [] \<longleftrightarrow> ts = []"
  by (cases ts) simp_all

lemma wrap_once: "a \<le> n \<Longrightarrow> Suc (a + n) mod Suc n = a"
  by (metis add_Suc_right le_imp_less_Suc mod_add_self2 mod_less)

lemma retained_insert_law:
  assumes "retained_holds m A" and "retained_room topic m" and "no_wildcards topic"
  shows "\<exists>m'. retained_insert topic v m = Inr (if A topic = None then 1 else 0, m') \<and> retained_holds m' (A(topic \<mapsto> v)) \<and>
    rm_next_node_id m' \<le> rm_next_node_id m + length (tokens topic)"
proof -
  let ?T = "stored_topics A" and ?ts = "tokens topic" and ?B = "by_levels A"
  obtain idf where tree: "tree_of m ?T ?B idf" and fin: "finite (dom A)" "rm_size m = card (dom A)"
    using assms(1) by (auto simp: retained_holds_def)
  have room: "size ?T < size_max" using assms(2) fin by (simp add: stored_size retained_room_def)
  have path: "retained_find_topic topic m = (if node_of ?T ?ts then keys_along idf [] ?ts else [])"
    by (rule find_topic_keys [OF tree])
  have last: "last (keys_along idf [] ?ts) = node_key_of idf ?ts" "keys_along idf [] ?ts \<noteq> []"
    using keys_along_last [of ?ts idf "[]"] by (simp_all add: keys_along_Nil)
  have done': "\<exists>m''. retained_increase_size (retained_set_value (node_key_of idf' ?ts) (Some v) m') = Inr m'' \<and> retained_holds m'' (A(topic \<mapsto> v)) \<and>
      rm_next_node_id m'' = rm_next_node_id m'"
    if "tree_of m' (add_mset ?ts ?T) ?B idf'" "rm_size m' = rm_size m" "A topic = None" for m' idf'
  proof -
    have "node_of (add_mset ?ts ?T) ?ts" by (simp add: node_of_add)
    from retained_set_value_ok [OF that(1) this] have
      t: "tree_of (retained_set_value (node_key_of idf' ?ts) (Some v) m') (stored_topics (A(topic \<mapsto> v))) (by_levels (A(topic \<mapsto> v))) idf'"
      using that(3) fin(1) by (simp add: stored_topics_insert by_levels_upd)
    have "tree_of ((retained_set_value (node_key_of idf' ?ts) (Some v) m')\<lparr>rm_size := n\<rparr>) (stored_topics (A(topic \<mapsto> v))) (by_levels (A(topic \<mapsto> v))) idf'" for n
      using t by (simp add: tree_of_def)
    moreover have "card (dom (A(topic \<mapsto> v))) = card (dom A) + 1" using that(3) fin(1) by (simp add: domIff)
    ultimately show ?thesis
      using that(2) fin assms(2) by (auto simp: retained_increase_size_def retained_holds_def retained_room_def)
  qed
  have start: "tree_of m (add_mset [] ?T) ?B idf" using tree tree_add_Nil by blast
  consider (new) "\<not> node_of ?T ?ts" | (inner) "node_of ?T ?ts" "A topic = None" | (old) "A topic \<noteq> None" "node_of ?T ?ts"
    using stored_node [OF fin(1), of ?ts] by auto
  then show ?thesis
  proof cases
    case new
    have "A topic = None" using new stored_node [OF fin(1), of ?ts] by (cases "A topic") auto
    moreover obtain m' idf' where "retained_create_topic topic m = Inr (node_key_of idf' ?ts, m')"
      "tree_of m' (add_mset ?ts ?T) ?B idf'" "rm_size m' = rm_size m" "rm_next_node_id m' \<le> rm_next_node_id m + length ?ts"
      using create_levels [OF start, of ?ts] assms(2,3) room
      by (auto simp: retained_create_topic_def topic_filter_tokenizer_tokens retained_room_def no_wildcards_def list_all_iff)
    ultimately show ?thesis using new path done' by (fastforce simp: retained_insert_def)
  next
    case inner
    then obtain m' where "retained_increase_topics (keys_along idf [] ?ts) m = Inr m'" "tree_of m' (add_mset ?ts ?T) ?B idf" "rm_size m' = rm_size m" "rm_next_node_id m' = rm_next_node_id m"
      using increase_topics_ok [OF start, of ?ts] room by auto
    moreover have "re_value (rm_entry m (node_key_of idf ?ts)) = None" using tree_entry [OF tree inner(1)] inner(2) by simp
    ultimately show ?thesis using inner path last done' by (fastforce simp: retained_insert_def)
  next
    case old
    have "re_value (rm_entry m (node_key_of idf ?ts)) \<noteq> None" using tree_entry [OF tree old(2)] old(1) by simp
    then have "retained_insert topic v m = Inr (0, retained_set_value (node_key_of idf ?ts) (Some v) m)"
      using old path last by (auto simp: retained_insert_def Let_def)
    moreover have "retained_holds (retained_set_value (node_key_of idf ?ts) (Some v) m) (A(topic \<mapsto> v))"
      using retained_set_value_ok [OF tree old(2), of "Some v"] old(1) assms(1)
      by (auto simp: retained_holds_def stored_topics_assign by_levels_upd insert_absorb domIff)
    ultimately show ?thesis using old by simp
  qed
qed

lemma retained_erase_law:
  assumes "retained_holds m A"
  shows "\<exists>m'. retained_erase topic m = (if A topic = None then 0 else 1, m') \<and> retained_holds m' (A(topic := None)) \<and> rm_next_node_id m' = rm_next_node_id m"
proof -
  let ?T = "stored_topics A" and ?ts = "tokens topic" and ?B = "by_levels A"
  obtain idf where tree: "tree_of m ?T ?B idf" and fin: "finite (dom A)" "rm_size m = card (dom A)" "rm_size m \<le> size_max"
    using assms(1) by (auto simp: retained_holds_def)
  have path: "retained_find_topic topic m = (if node_of ?T ?ts then keys_along idf [] ?ts else [])"
    by (rule find_topic_keys [OF tree])
  have last: "last (keys_along idf [] ?ts) = node_key_of idf ?ts" "keys_along idf [] ?ts \<noteq> []"
    using keys_along_last [of ?ts idf "[]"] by (simp_all add: keys_along_Nil)
  show ?thesis
  proof (cases "A topic")
    case None
    then have "retained_erase_topic topic m = (0, m)"
      using path last tree_entry [OF tree, of ?ts] by (simp add: retained_erase_topic_def)
    then have "retained_erase topic m = (0, m)" using wrap_once [OF fin(3)] by (simp add: retained_erase_def retained_decrease_size_def)
    with None assms show ?thesis by (simp add: fun_upd_idem)
  next
    case (Some v)
    let ?A = "A(topic := None)"
    have node: "node_of ?T ?ts" "A topic \<noteq> None" using Some stored_node [OF fin(1), of ?ts] by auto
    let ?m = "retained_set_value (node_key_of idf ?ts) None m"
    have T: "?T = add_mset ?ts (stored_topics ?A)" by (rule stored_topics_erase [OF fin(1) node(2)])
    have "tree_of ?m (add_mset ?ts (stored_topics ?A)) (by_levels ?A) idf"
      using retained_set_value_ok [OF tree node(1), of None] by (simp add: T by_levels_upd)
    moreover have "card (dom A) = card (dom ?A) + 1" using node(2) fin(1) card_Suc_Diff1 [of "dom A" topic] by (simp add: domIff)
    moreover have "finite (dom ?A)" using fin(1) by simp
    moreover have "size (stored_topics ?A) < size_max" using calculation fin by (simp add: stored_size)
    ultimately have m: "tree_of (retained_erase_path (keys_along idf [] ?ts) ?m) (stored_topics ?A) (by_levels ?A) idf"
      using erase_path_ok [of ?m ?ts "stored_topics ?A" "by_levels ?A" idf] stored_node [of ?A] by simp
    have size: "rm_size m = card (dom ?A) + 1" using fin node(2) card_Suc_Diff1 [of "dom A" topic] by (simp add: domIff)
    have "(rm_size m + size_max) mod (size_max + 1) = card (dom ?A)"
      using size(1) fin(3) wrap_once [of "card (dom ?A)" size_max] by simp
    then have "rm_size (retained_decrease_size 1 (retained_erase_path (keys_along idf [] ?ts) ?m)) = card (dom ?A)"
      by (simp add: retained_decrease_size_def erase_path_size)
    moreover have "tree_of (retained_decrease_size 1 (retained_erase_path (keys_along idf [] ?ts) ?m)) (stored_topics ?A) (by_levels ?A) idf"
      using m by (simp add: tree_of_def retained_decrease_size_def)
    moreover have "re_value (rm_entry m (node_key_of idf ?ts)) \<noteq> None" using tree_entry [OF tree node(1)] node(2) by simp
    then have "retained_erase topic m = (1, retained_decrease_size 1 (retained_erase_path (keys_along idf [] ?ts) ?m))"
      using path last node by (simp add: retained_erase_def retained_erase_topic_def)
    ultimately show ?thesis using node(2) fin size
      by (auto simp: retained_holds_def) (simp add: retained_decrease_size_def erase_path_size)
  qed
qed

subsection \<open>Values of nodes\<close>

text \<open>The values stored at a set of nodes.\<close>

definition values_at :: "(levels \<Rightarrow> 'v option) \<Rightarrow> levels set \<Rightarrow> 'v multiset" where
  "values_at A S = image_mset (\<lambda>p. the (A p)) (mset_set {p \<in> S. A p \<noteq> None})"

lemma values_at_union:
  assumes "finite (dom A)" and "S \<inter> S' = {}"
  shows "values_at A (S \<union> S') = values_at A S + values_at A S'"
proof -
  have fin: "finite {p \<in> X. A p \<noteq> None}" for X using finite_subset [OF _ assms(1), of "{p \<in> X. A p \<noteq> None}"] by (auto simp: dom_def)
  have "{p \<in> S \<union> S'. A p \<noteq> None} = {p \<in> S. A p \<noteq> None} \<union> {p \<in> S'. A p \<noteq> None}" by auto
  then have "mset_set {p \<in> S \<union> S'. A p \<noteq> None} = mset_set {p \<in> S. A p \<noteq> None} + mset_set {p \<in> S'. A p \<noteq> None}"
    using assms(2) fin by (simp only:, intro mset_set_Union) auto
  then show ?thesis by (simp add: values_at_def)
qed

lemma values_at_cong: "(\<And>p. A p \<noteq> None \<Longrightarrow> p \<in> S \<longleftrightarrow> p \<in> S') \<Longrightarrow> values_at A S = values_at A S'"
  unfolding values_at_def by (rule arg_cong [where f = "\<lambda>X. image_mset _ (mset_set X)"]) blast

lemma values_of_nodes:
  assumes "distinct ps" and "finite (dom A)"
  shows "mset (values_of (map (entry_at T A idf) ps)) = values_at A (set ps)"
  using assms(1)
proof (induction ps)
  case (Cons p ps)
  have "values_at A {p} = mset (case A p of None \<Rightarrow> [] | Some v \<Rightarrow> [v])"
  proof -
    have "{q \<in> {p}. A q \<noteq> None} = (if A p = None then {} else {p})" by auto
    then show ?thesis by (auto simp: values_at_def split: option.split)
  qed
  then show ?case using Cons values_at_union [OF assms(2), of "{p}" "set ps"] by (simp add: values_of_def)
qed (simp add: values_of_def values_at_def)

subsection \<open>Nodes below a node\<close>

lemma system_child: "not_system x \<longleftrightarrow> \<not> system_level (snd (fst x))"
  by (auto simp: not_system_def system_level_def)

lemma children_of:
  assumes "tree_of m T A idf" and "node_of T p"
  shows "x \<in> set (retained_children m (idf p)) \<longleftrightarrow>
    (\<exists>t. node_of T (p @ [t]) \<and> x = ((idf p, t), entry_at T A idf (p @ [t])))"
proof -
  have "x \<in> set (retained_children m (idf p)) \<longleftrightarrow> fst (fst x) = idf p \<and> rm_node m (fst x) = Some (snd x)"
    using assms(1) by (auto simp: retained_children_def tree_of_def)
  also have "\<dots> \<longleftrightarrow> (\<exists>t. node_of T (p @ [t]) \<and> x = ((idf p, t), entry_at T A idf (p @ [t])))"
    using tree_entry_step [OF assms] by (cases x) (auto split: if_splits)
  finally show ?thesis .
qed

text \<open>The nodes of the next level below some nodes, as the search goes through them.\<close>

definition nodes_below :: "'v retained_map \<Rightarrow> (levels \<Rightarrow> nat) \<Rightarrow> (node_key \<times> 'v retained_entry \<Rightarrow> bool) \<Rightarrow> levels list \<Rightarrow> levels list" where
  "nodes_below m idf P ps = concat (map (\<lambda>p. map (\<lambda>x. p @ [snd (fst x)]) (filter P (retained_children m (idf p)))) ps)"

lemma nodes_below_set:
  assumes "tree_of m T A idf" and "\<forall>p \<in> set ps. node_of T p" and "\<And>x. P x \<longleftrightarrow> Q (snd (fst x))"
  shows "set (nodes_below m idf P ps) = {p @ [t] | p t. p \<in> set ps \<and> node_of T (p @ [t]) \<and> Q t}"
proof -
  have "q \<in> set (nodes_below m idf P ps) \<longleftrightarrow> (\<exists>p \<in> set ps. \<exists>x \<in> set (retained_children m (idf p)). P x \<and> q = p @ [snd (fst x)])" for q
    by (auto simp: nodes_below_def)
  moreover have "(\<exists>x \<in> set (retained_children m (idf p)). P x \<and> q = p @ [snd (fst x)]) \<longleftrightarrow> (\<exists>t. node_of T (p @ [t]) \<and> Q t \<and> q = p @ [t])"
    if "p \<in> set ps" for p q
    unfolding Bex_def children_of [OF assms(1) assms(2) [rule_format, OF that]] assms(3) by auto
  ultimately have "q \<in> set (nodes_below m idf P ps) \<longleftrightarrow> (\<exists>p \<in> set ps. \<exists>t. node_of T (p @ [t]) \<and> Q t \<and> q = p @ [t])" for q by simp
  then show ?thesis by blast
qed

lemma children_distinct: "tree_of m T A idf \<Longrightarrow> distinct (map (\<lambda>x. snd (fst x)) (retained_children m i))"
proof -
  assume "tree_of m T A idf"
  then have "distinct (map fst (retained_children m i))" by (simp add: retained_children_def tree_of_def distinct_map_filter)
  moreover have "map fst (retained_children m i) = map (Pair i) (map (\<lambda>x. snd (fst x)) (retained_children m i))"
    by (auto simp: retained_children_def)
  ultimately show ?thesis by (metis distinct_map)
qed

lemma nodes_below_distinct:
  assumes "tree_of m T A idf" and "distinct ps"
  shows "distinct (nodes_below m idf P ps)"
proof -
  have "distinct (map (\<lambda>x. p @ [snd (fst x)]) (filter P (retained_children m (idf p))))" for p
  proof -
    have "distinct (map (\<lambda>x. snd (fst x)) (filter P (retained_children m (idf p))))"
      using children_distinct [OF assms(1)] by (rule distinct_map_filter)
    then show ?thesis by (auto simp: distinct_map inj_on_def)
  qed
  then show ?thesis
    using assms(2) by (induction ps) (auto simp: nodes_below_def)
qed

lemma nodes_below_entries:
  assumes "tree_of m T A idf" and "\<forall>p \<in> set ps. node_of T p"
  shows "map snd (concat (map (\<lambda>p. filter P (retained_children m (idf p))) ps)) = map (entry_at T A idf) (nodes_below m idf P ps) \<and>
    map fst (concat (map (\<lambda>p. filter P (retained_children m (idf p))) ps)) = map (node_key_of idf) (nodes_below m idf P ps)"
  using assms(2)
proof (induction ps)
  case (Cons p ps)
  have "map snd (filter P (retained_children m (idf p))) = map (entry_at T A idf) (map (\<lambda>x. p @ [snd (fst x)]) (filter P (retained_children m (idf p))))"
    "map fst (filter P (retained_children m (idf p))) = map (node_key_of idf) (map (\<lambda>x. p @ [snd (fst x)]) (filter P (retained_children m (idf p))))"
    using children_of [OF assms(1), of p] Cons.prems by (auto simp: Ball_def)
  with Cons show ?case by (simp add: nodes_below_def)
qed (simp add: nodes_below_def)

subsection \<open>All topics below some nodes\<close>

definition below_nodes :: "bool \<Rightarrow> levels list \<Rightarrow> levels set" where
  "below_nodes b ps = {p @ t # r | p t r. p \<in> set ps \<and> \<not> (b \<and> system_level t)}"

abbreviation shown :: "bool \<Rightarrow> node_key \<times> 'v retained_entry \<Rightarrow> bool" where
  "shown b \<equiv> \<lambda>x. \<not> b \<or> not_system x"

lemma hash_step:
  assumes "tree_of m T A idf" and "\<forall>p \<in> set ps. node_of T p"
  shows "match_hash_entries m (map idf ps) b =
    (if ps = [] then Some []
     else Option.bind (match_hash_entries m (map idf (nodes_below m idf (shown b) ps)) False)
       (\<lambda>vs. Some (values_of (map (entry_at T A idf) (nodes_below m idf (shown b) ps)) @ vs)))"
proof -
  define found where "found = concat (map (\<lambda>p. filter (shown b) (retained_children m (idf p))) ps)"
  have entries: "map snd found = map (entry_at T A idf) (nodes_below m idf (shown b) ps)"
    unfolding found_def using nodes_below_entries [OF assms] by blast
  have "map (\<lambda>x. re_id (snd x)) found = map re_id (map snd found)" by simp
  then have ids: "map (\<lambda>x. re_id (snd x)) found = map idf (nodes_below m idf (shown b) ps)" unfolding entries by simp
  show ?thesis
    by (subst match_hash_entries.simps) (use entries ids in \<open>simp add: found_def comp_def\<close>)
qed

lemma below_split:
  assumes "tree_of m T A idf" and "finite (dom A)" and "\<forall>p \<in> set ps. node_of T p \<and> length p = n"
  shows "values_at A (below_nodes b ps) =
    values_at A (set (nodes_below m idf (shown b) ps)) + values_at A (below_nodes False (nodes_below m idf (shown b) ps))"
proof -
  let ?qs = "nodes_below m idf (shown b) ps"
  have qs: "set ?qs = {p @ [t] | p t. p \<in> set ps \<and> node_of T (p @ [t]) \<and> \<not> (b \<and> system_level t)}"
    using assms(3) by (subst nodes_below_set [OF assms(1), of ps _ "\<lambda>t. \<not> (b \<and> system_level t)"]) (auto simp: system_child)
  have node: "node_of T p" if "A p \<noteq> None" for p using that assms(1) by (simp add: tree_of_def)
  have "values_at A (below_nodes b ps) = values_at A (set ?qs \<union> below_nodes False ?qs)"
  proof (rule values_at_cong)
    fix q assume q: "A q \<noteq> None"
    have pre: "node_of T (p @ [t])" if "q = p @ t # r" for p t r
      using node_of_prefix [of "p @ [t]" q] node [OF q] that by auto
    show "q \<in> below_nodes b ps \<longleftrightarrow> q \<in> set ?qs \<union> below_nodes False ?qs"
    proof
      assume "q \<in> below_nodes b ps"
      then obtain p t r where *: "q = p @ t # r" "p \<in> set ps" "\<not> (b \<and> system_level t)" by (auto simp: below_nodes_def)
      then have "p @ [t] \<in> set ?qs" using pre unfolding qs by blast
      with * show "q \<in> set ?qs \<union> below_nodes False ?qs" by (cases r) (auto simp: below_nodes_def intro!: exI [of _ "p @ [t]"])
    next
      assume "q \<in> set ?qs \<union> below_nodes False ?qs"
      then show "q \<in> below_nodes b ps" unfolding below_nodes_def qs by fastforce
    qed
  qed
  also have "\<dots> = values_at A (set ?qs) + values_at A (below_nodes False ?qs)"
  proof (rule values_at_union [OF assms(2)])
    have "length q = n + 1" if "q \<in> set ?qs" for q using that assms(3) unfolding qs by auto
    moreover have "n + 1 < length q" if "q \<in> below_nodes False ?qs" for q using that calculation by (auto simp: below_nodes_def)
    ultimately show "set ?qs \<inter> below_nodes False ?qs = {}" by fastforce
  qed
  finally show ?thesis .
qed

lemma hash_found:
  assumes "tree_of m T A idf" and "finite (dom A)" and "\<forall>p. node_of T p \<longrightarrow> length p < n + k"
    and "\<forall>p \<in> set ps. node_of T p \<and> length p = n" and "distinct ps"
  shows "\<exists>vs. match_hash_entries m (map idf ps) b = Some vs \<and> mset vs = values_at A (below_nodes b ps)"
  using assms(3-5)
proof (induction k arbitrary: n ps b)
  case 0
  then have "ps = []" by (cases ps) auto
  then show ?case by (subst match_hash_entries.simps) (simp add: below_nodes_def values_at_def)
next
  case (Suc k)
  let ?qs = "nodes_below m idf (shown b) ps"
  have nodes: "\<forall>p \<in> set ps. node_of T p" using Suc.prems by blast
  have "\<forall>q \<in> set ?qs. node_of T q \<and> length q = n + 1"
    using Suc.prems(2) nodes_below_set [OF assms(1) nodes, of "shown b" "\<lambda>t. \<not> (b \<and> system_level t)"] by (auto simp: system_child)
  then obtain vs where vs: "match_hash_entries m (map idf ?qs) False = Some vs" "mset vs = values_at A (below_nodes False ?qs)"
    using Suc.IH [of "n + 1" ?qs False] Suc.prems nodes_below_distinct [OF assms(1)] by auto
  show ?case
  proof (cases "ps = []")
    case True
    then show ?thesis by (subst match_hash_entries.simps) (simp add: below_nodes_def values_at_def)
  next
    case False
    then show ?thesis
      using hash_step [OF assms(1) nodes, of b] vs below_split [OF assms(1,2) Suc.prems(2), of b]
        values_of_nodes [OF nodes_below_distinct [OF assms(1) Suc.prems(3)] assms(2)] by simp
  qed
qed

subsection \<open>The search by levels\<close>

text \<open>
  What a filter is meant to match: \<open>+\<close> any level, a final \<open>#\<close> any number of levels; with \<open>first\<close>, no wildcard
  matches a first level that begins with a dollar sign.
\<close>

fun retained_matches :: "bool \<Rightarrow> levels \<Rightarrow> levels \<Rightarrow> bool" where
  "retained_matches first [] ts \<longleftrightarrow> ts = []"
| "retained_matches first (f # fs) [] \<longleftrightarrow> f = hash_level \<and> fs = []"
| "retained_matches first (f # fs) (t # ts) \<longleftrightarrow>
     f = hash_level \<and> fs = [] \<and> \<not> (first \<and> system_level t) \<or>
     (f = t \<or> f = plus_level \<and> \<not> (first \<and> system_level t)) \<and> retained_matches False fs ts"

lemma retained_node_value:
  assumes "tree_of m T A idf" and "node_of T p"
  shows "re_value (rm_entry m (node_key_of idf p)) = A p"
proof (cases "p = []")
  case True
  moreover have "A [] = None" using assms(1) by (auto simp: tree_of_def)
  ultimately show ?thesis using tree_root_entry [OF assms(1)] by (simp add: root_entry_def)
qed (use tree_entry [OF assms] in simp)

lemma entries_values:
  assumes "tree_of m T A idf" and "finite (dom A)" and "\<forall>p \<in> set ps. node_of T p" and "distinct ps"
  shows "mset (values_of (map (rm_entry m) (map (node_key_of idf) ps))) = values_at A (set ps)"
proof -
  have "values_of (map (rm_entry m) (map (node_key_of idf) ps)) = values_of (map (entry_at T A idf) ps)"
    using assms(3) retained_node_value [OF assms(1)] by (induction ps) (simp_all add: values_of_def)
  then show ?thesis using values_of_nodes [OF assms(4,2)] by simp
qed

lemma root_only: "tree_of m T A idf \<Longrightarrow> node_of T p \<Longrightarrow> idf p = root_node_id \<longleftrightarrow> p = []"
  unfolding tree_of_def ids_distinct_def ids_below_def by (metis node_of_Nil)

text \<open>One level that is not \<open>#\<close>.\<close>

definition level_nodes :: "'v retained_map \<Rightarrow> (levels \<Rightarrow> nat) \<Rightarrow> bytes \<Rightarrow> levels list \<Rightarrow> levels list" where
  "level_nodes m idf f ps =
     (if f = plus_level then nodes_below m idf (\<lambda>_. True) ps
      else map (\<lambda>p. p @ [f]) (filter (\<lambda>p. rm_node m (idf p, f) \<noteq> None) ps))"

lemma next_level:
  assumes "tree_of m T A idf" and "\<forall>p \<in> set ps. node_of T p"
    and "f = plus_level \<Longrightarrow> [] \<in> set ps \<Longrightarrow> \<forall>t. node_of T [t] \<longrightarrow> \<not> system_level t"
  shows "concat (map (next_entries m f) (map (node_key_of idf) ps)) = map (node_key_of idf) (level_nodes m idf f ps)"
proof (cases "f = plus_level")
  case True
  have "next_entries m f (node_key_of idf p) = map fst (filter (\<lambda>_. True) (retained_children m (idf p)))" if "p \<in> set ps" for p
  proof -
    have p: "node_of T p" using that assms(2) by blast
    have tw: "takeWhile (\<lambda>x. idf p \<noteq> root_node_id \<or> not_system x) (retained_children m (idf p)) = retained_children m (idf p)"
      unfolding takeWhile_eq_all_conv
      using children_of [OF assms(1) p] root_only [OF assms(1) p] assms(3) [OF True] that by (auto simp: system_child)
    show ?thesis unfolding next_entries_def Let_def retained_tree_id [OF assms(1) p] by (simp only: True tw if_True simp_thms) simp
  qed
  then have "concat (map (next_entries m f) (map (node_key_of idf) ps)) =
      map fst (concat (map (\<lambda>p. filter (\<lambda>_. True) (retained_children m (idf p))) ps))"
    by (simp add: map_concat comp_def cong: map_cong)
  also have "\<dots> = map (node_key_of idf) (nodes_below m idf (\<lambda>_. True) ps)" using nodes_below_entries [OF assms(1,2)] by blast
  finally show ?thesis using True by (simp add: level_nodes_def)
next
  case False
  then show ?thesis
    using assms(2) retained_tree_id [OF assms(1)] by (induction ps) (auto simp: level_nodes_def next_entries_def)
qed

lemma level_nodes_set:
  assumes "tree_of m T A idf" and "\<forall>p \<in> set ps. node_of T p"
  shows "set (level_nodes m idf f ps) = {p @ [t] | p t. p \<in> set ps \<and> node_of T (p @ [t]) \<and> (f = plus_level \<or> f = t)}"
proof (cases "f = plus_level")
  case True
  then show ?thesis using nodes_below_set [OF assms, of "\<lambda>_. True" "\<lambda>_. True"] by (simp add: level_nodes_def)
next
  case False
  have "rm_node m (idf p, f) \<noteq> None \<longleftrightarrow> node_of T (p @ [f])" if "p \<in> set ps" for p
    using tree_entry_step [OF assms(1), of p f] assms(2) that by simp
  then show ?thesis using False by (auto simp: level_nodes_def)
qed

lemma level_nodes_distinct: "tree_of m T A idf \<Longrightarrow> distinct ps \<Longrightarrow> distinct (level_nodes m idf f ps)"
  using nodes_below_distinct by (auto simp: level_nodes_def distinct_map inj_on_def)

definition matching_below :: "levels \<Rightarrow> levels list \<Rightarrow> levels set" where
  "matching_below fs ps = {p @ r | p r. p \<in> set ps \<and> retained_matches (p = []) fs r}"

lemma matching_step:
  assumes "tree_of m T A idf" and "\<forall>p \<in> set ps. node_of T p" and "f \<noteq> hash_level"
    and "f = plus_level \<Longrightarrow> [] \<in> set ps \<Longrightarrow> \<forall>t. node_of T [t] \<longrightarrow> \<not> system_level t"
  shows "values_at A (matching_below (f # fs) ps) = values_at A (matching_below fs (level_nodes m idf f ps))"
proof (rule values_at_cong)
  fix q assume "A q \<noteq> None"
  then have "node_of T q" using assms(1) by (simp add: tree_of_def)
  then have pre: "node_of T (p @ [t])" if "q = p @ t # r" for p t r
    using node_of_prefix [of "p @ [t]" q T] that by auto
  have "q \<in> matching_below (f # fs) ps \<longleftrightarrow>
      (\<exists>p t r. q = p @ t # r \<and> p \<in> set ps \<and> (f = t \<or> f = plus_level \<and> \<not> (p = [] \<and> system_level t)) \<and> retained_matches False fs r)"
    (is "_ \<longleftrightarrow> ?rhs")
  proof
    assume "q \<in> matching_below (f # fs) ps"
    then obtain p r where "q = p @ r" "p \<in> set ps" "retained_matches (p = []) (f # fs) r" by (auto simp: matching_below_def)
    with assms(3) show ?rhs by (cases r) auto
  next
    assume ?rhs
    then show "q \<in> matching_below (f # fs) ps" unfolding matching_below_def by fastforce
  qed
  also have "\<dots> \<longleftrightarrow> (\<exists>p t r. q = p @ t # r \<and> p @ [t] \<in> set (level_nodes m idf f ps) \<and> retained_matches False fs r)"
  proof -
    have mem: "p @ [t] \<in> set (level_nodes m idf f ps) \<longleftrightarrow> p \<in> set ps \<and> node_of T (p @ [t]) \<and> (f = plus_level \<or> f = t)" for p t
      by (auto simp: level_nodes_set [OF assms(1,2)])
    have "q = p @ t # r \<and> p \<in> set ps \<and> (f = t \<or> f = plus_level \<and> \<not> (p = [] \<and> system_level t)) \<and> retained_matches False fs r \<longleftrightarrow>
        q = p @ t # r \<and> p @ [t] \<in> set (level_nodes m idf f ps) \<and> retained_matches False fs r" for p t r
      unfolding mem using pre [of p t r] assms(4) by (cases "p = []") auto
    then show ?thesis by simp
  qed
  also have "\<dots> \<longleftrightarrow> q \<in> matching_below fs (level_nodes m idf f ps)"
  proof -
    have shape: "\<exists>p t. x = p @ [t]" if "x \<in> set (level_nodes m idf f ps)" for x
      using that by (auto simp: level_nodes_set [OF assms(1,2)])
    show ?thesis
    proof
      assume "q \<in> matching_below fs (level_nodes m idf f ps)"
      then obtain x r where x: "q = x @ r" "x \<in> set (level_nodes m idf f ps)" "retained_matches (x = []) fs r"
        by (auto simp: matching_below_def)
      then obtain p t where "x = p @ [t]" using shape by blast
      with x show "\<exists>p t r. q = p @ t # r \<and> p @ [t] \<in> set (level_nodes m idf f ps) \<and> retained_matches False fs r" by auto
    next
      assume "\<exists>p t r. q = p @ t # r \<and> p @ [t] \<in> set (level_nodes m idf f ps) \<and> retained_matches False fs r"
      then obtain p t r where x: "q = p @ t # r" "p @ [t] \<in> set (level_nodes m idf f ps)" "retained_matches False fs r" by blast
      then have "q = (p @ [t]) @ r" "retained_matches (p @ [t] = []) fs r" by simp_all
      with x(2) show "q \<in> matching_below fs (level_nodes m idf f ps)" unfolding matching_below_def by blast
    qed
  qed
  finally show "q \<in> matching_below (f # fs) ps \<longleftrightarrow> q \<in> matching_below fs (level_nodes m idf f ps)" .
qed

text \<open>
  The search works as meant if the filter has no \<open>+\<close> before a final \<open>#\<close>, and if it does not begin with \<open>+\<close> while topics are
  stored whose first level begins with a dollar sign.
\<close>

definition searchable :: "levels \<Rightarrow> levels multiset \<Rightarrow> levels list \<Rightarrow> bool" where
  "searchable fs T ps \<longleftrightarrow>
     hash_level \<notin> set (butlast fs) \<and>
     (hash_level \<in> set fs \<longrightarrow> plus_level \<notin> set fs \<and> length ps \<le> 1) \<and>
     (hd fs = plus_level \<and> [] \<in> set ps \<longrightarrow> (\<forall>t. node_of T [t] \<longrightarrow> \<not> system_level t))"

lemma search_hash:
  assumes "tree_of m T A idf" and "finite (dom A)" and "node_of T p" and "finite (set_mset T)"
  shows "\<exists>vs. retained_match_level m hash_level (Some ([node_key_of idf p], [])) = (False, Some ([node_key_of idf p], vs)) \<and>
    mset (vs @ values_of (map (rm_entry m) [node_key_of idf p])) = values_at A (matching_below [hash_level] [p])"
proof -
  have "finite (length ` set_mset T)" using assms(4) by simp
  then obtain k where k: "\<forall>q \<in># T. length q < k" by (metis finite_nat_set_iff_bounded imageI)
  have "length q < length p + Suc k" if "node_of T q" for q
  proof (cases "q = []")
    case False
    with that obtain x where "x \<in># T" "prefix q x" by (auto simp: node_of_def)
    then have "length q \<le> length x" "length x < k" using k prefix_length_le by auto
    then show ?thesis by simp
  qed simp
  then have "\<forall>q. node_of T q \<longrightarrow> length q < length p + Suc k" by blast
  from hash_found [OF assms(1,2) this, of "[p]" "p = []"] assms(3)
  obtain vs where vs: "match_hash_entries m [idf p] (p = []) = Some vs" "mset vs = values_at A (below_nodes (p = []) [p])" by auto
  have "values_at A (matching_below [hash_level] [p]) = values_at A (below_nodes (p = []) [p] \<union> {p})"
  proof (rule values_at_cong)
    fix q
    have "retained_matches b [hash_level] r \<longleftrightarrow> r = [] \<or> (\<exists>t us. r = t # us \<and> \<not> (b \<and> system_level t))" for b r
      by (cases r) (auto simp: system_level_def topic_chars)
    then show "q \<in> matching_below [hash_level] [p] \<longleftrightarrow> q \<in> below_nodes (p = []) [p] \<union> {p}"
      by (auto simp: matching_below_def below_nodes_def)
  qed
  also have "\<dots> = values_at A (below_nodes (p = []) [p]) + values_at A {p}"
    by (rule values_at_union [OF assms(2)]) (auto simp: below_nodes_def)
  also have "values_at A {p} = mset (values_of (map (rm_entry m) [node_key_of idf p]))"
    using entries_values [OF assms(1,2), of "[p]"] assms(3) by simp
  finally show ?thesis
    using vs retained_tree_id [OF assms(1,3)] root_only [OF assms(1,3)] by (intro exI [of _ vs]) (simp add: retained_match_level_def)
qed

lemma search_levels:
  assumes "tree_of m T A idf" and "finite (dom A)" and "finite (set_mset T)"
    and "\<forall>p \<in> set ps. node_of T p" and "distinct ps" and "ps \<noteq> []" and "fs \<noteq> []" and "searchable fs T ps"
  shows "\<exists>entries called. snd (run_tokens (retained_match_level m) fs (Some (map (node_key_of idf) ps, []))) = Some (entries, called) \<and>
    mset (called @ values_of (map (rm_entry m) entries)) = values_at A (matching_below fs ps)"
  using assms(4-)
proof (induction fs arbitrary: ps)
  case (Cons f fs)
  show ?case
  proof (cases "f = hash_level")
    case True
    then have "fs = []" "length ps = 1"
      using Cons.prems by (cases fs; cases ps; auto simp: searchable_def)+
    then obtain p where "ps = [p]" by (auto simp: length_Suc_conv)
    with search_hash [OF assms(1,2) _ assms(3), of p] Cons.prems(1) True \<open>fs = []\<close> show ?thesis by auto
  next
    case False
    let ?qs = "level_nodes m idf f ps"
    have sys: "f = plus_level \<Longrightarrow> [] \<in> set ps \<Longrightarrow> \<forall>t. node_of T [t] \<longrightarrow> \<not> system_level t"
      using Cons.prems(5) by (simp add: searchable_def)
    have step: "retained_match_level m f (Some (map (node_key_of idf) ps, [])) = (?qs \<noteq> [], Some (map (node_key_of idf) ?qs, []))"
    proof -
      have "concat (map (next_entries m f) (map (node_key_of idf) ps)) = map (node_key_of idf) ?qs"
        using next_level [OF assms(1) Cons.prems(1)] sys by blast
      then show ?thesis
        using False unfolding retained_match_level_def Let_def by (simp only: option.case prod.case simp_thms if_False map_is_Nil_conv)
    qed
    have vals: "values_at A (matching_below (f # fs) ps) = values_at A (matching_below fs ?qs)"
      by (rule matching_step [OF assms(1) Cons.prems(1) False sys])
    have qs: "\<forall>q \<in> set ?qs. node_of T q" "[] \<notin> set ?qs" "distinct ?qs"
      using level_nodes_set [OF assms(1) Cons.prems(1), of f] level_nodes_distinct [OF assms(1) Cons.prems(2)] by auto
    show ?thesis
    proof (cases "?qs = [] \<or> fs = []")
      case True
      then have "matching_below fs ?qs = set ?qs" by (auto simp: matching_below_def)
      then show ?thesis
        using True step vals entries_values [OF assms(1,2) qs(1,3)] by (auto simp: case_prod_unfold Let_def)
    next
      case False
      have "length ?qs \<le> 1" if "hash_level \<in> set fs"
        using that Cons.prems(5) by (auto simp: searchable_def level_nodes_def intro: order.trans [OF length_filter_le])
      then have "searchable fs T ?qs" using Cons.prems(5) qs(2) False by (auto simp: searchable_def)
      then show ?thesis using Cons.IH [OF qs(1,3)] False step vals by (simp add: case_prod_unfold Let_def)
    qed
  qed
qed simp

subsection \<open>Runs\<close>

datatype 'v retained_op = Ret_insert bytes 'v | Ret_erase bytes | Ret_clear

fun retained_step :: "'v retained_op \<Rightarrow> 'v retained_map \<Rightarrow> ('v, nat \<times> 'v retained_map) retained_result" where
  "retained_step (Ret_insert topic v) m = retained_insert topic v m"
| "retained_step (Ret_erase topic) m = Inr (retained_erase topic m)"
| "retained_step Ret_clear m = Inr (0, retained_clear m)"

fun retained_run :: "'v retained_op list \<Rightarrow> 'v retained_map \<Rightarrow> ('v, nat list \<times> 'v retained_map) retained_result" where
  "retained_run [] m = Inr ([], m)"
| "retained_run (op # ops) m =
     bindE (retained_step op m) (\<lambda>(r, m). bindE (retained_run ops m) (\<lambda>(rs, m). Inr (r # rs, m)))"

text \<open>The same on a function from topics to values: the results say whether the number of topics changes.\<close>

fun topic_step :: "'v retained_op \<Rightarrow> (bytes \<Rightarrow> 'v option) \<Rightarrow> nat \<times> (bytes \<Rightarrow> 'v option)" where
  "topic_step (Ret_insert topic v) A = ((if A topic = None then 1 else 0), A(topic \<mapsto> v))"
| "topic_step (Ret_erase topic) A = ((if A topic = None then 0 else 1), A(topic := None))"
| "topic_step Ret_clear A = (0, \<lambda>_. None)"

fun topic_run :: "'v retained_op list \<Rightarrow> (bytes \<Rightarrow> 'v option) \<Rightarrow> nat list \<times> (bytes \<Rightarrow> 'v option)" where
  "topic_run [] A = ([], A)"
| "topic_run (op # ops) A = (let (r, A) = topic_step op A; (rs, A) = topic_run ops A in (r # rs, A))"

text \<open>What the insertions may need of identifiers.\<close>

fun op_levels :: "'v retained_op \<Rightarrow> nat" where
  "op_levels (Ret_insert topic v) = length (tokens topic)"
| "op_levels _ = 0"

fun op_plain :: "'v retained_op \<Rightarrow> bool" where
  "op_plain (Ret_insert topic v) = no_wildcards topic"
| "op_plain _ = True"

locale topic_store =
  fixes holds :: "'m \<Rightarrow> (bytes \<Rightarrow> 'v option) \<Rightarrow> bool"
    and used :: "'m \<Rightarrow> nat"
    and step :: "'v retained_op \<Rightarrow> 'm \<Rightarrow> ('e \<times> 'm) + (nat \<times> 'm)"
    and run :: "'v retained_op list \<Rightarrow> 'm \<Rightarrow> ('e \<times> 'm) + (nat list \<times> 'm)"
    and limit :: nat
  assumes run_Nil: "run [] m = Inr ([], m)"
    and run_Cons: "run (op # ops) m = bindE (step op m) (\<lambda>(r, m). bindE (run ops m) (\<lambda>(rs, m). Inr (r # rs, m)))"
    and step_law: "holds m A \<Longrightarrow> op_plain op \<Longrightarrow> used m + op_levels op < limit \<Longrightarrow>
    \<exists>m'. step op m = Inr (fst (topic_step op A), m') \<and> holds m' (snd (topic_step op A)) \<and> used m' \<le> used m + op_levels op"
begin

lemma run_refines:
  assumes "holds m A" and "list_all op_plain ops" and "used m + sum_list (map op_levels ops) < limit"
  shows "\<exists>m'. run ops m = Inr (fst (topic_run ops A), m') \<and> holds m' (snd (topic_run ops A))"
  using assms
proof (induction ops arbitrary: m A)
  case (Cons op ops)
  then obtain m1 where 1: "step op m = Inr (fst (topic_step op A), m1)" "holds m1 (snd (topic_step op A))" "used m1 \<le> used m + op_levels op"
    using step_law [of m A op] by auto
  then obtain m2 where "run ops m1 = Inr (fst (topic_run ops (snd (topic_step op A))), m2)" "holds m2 (snd (topic_run ops (snd (topic_step op A))))"
    using Cons.IH [of m1 "snd (topic_step op A)"] Cons.prems by auto
  then show ?case using 1 by (simp add: run_Cons case_prod_unfold Let_def)
qed (simp add: run_Nil)

end

lemma init_holds: "retained_holds (retained_map_init :: 'v retained_map) (\<lambda>_. None)"
proof -
  have "tree_of (retained_map_init :: 'v retained_map) {#} (\<lambda>_. None) (\<lambda>_. root_node_id)"
    by (auto simp: tree_of_def retained_map_init_def ids_distinct_def ids_below_def nodes_of_def node_of_def root_entry_def root_node_id_def)
  moreover have "by_levels (\<lambda>_. None :: 'v option) = (\<lambda>_. None)" by (simp add: by_levels_def fun_eq_iff)
  moreover have "stored_topics (\<lambda>_. None :: 'v option) = {#}" by (simp add: stored_topics_def)
  ultimately have "tree_of (retained_map_init :: 'v retained_map) (stored_topics (\<lambda>_. None :: 'v option)) (by_levels (\<lambda>_. None)) (\<lambda>_. root_node_id)" by simp
  then show ?thesis by (auto simp del: split_paired_Ex simp add: retained_holds_def retained_map_init_def)
qed

lemma next_positive: "tree_of m T A idf \<Longrightarrow> 2 \<le> rm_next_node_id m"
  unfolding tree_of_def ids_below_def root_node_id_def by (metis One_nat_def Suc_leI node_of_Nil numeral_2_eq_2)

text \<open>There are never more topics than identifiers were given out.\<close>

lemma size_used:
  assumes "retained_holds m A"
  shows "rm_size m < rm_next_node_id m"
proof -
  obtain idf where t: "tree_of m (stored_topics A) (by_levels A) idf" and fin: "finite (dom A)" "rm_size m = card (dom A)"
    using assms by (auto simp: retained_holds_def)
  have n: "node_of (stored_topics A) p \<and> p \<noteq> []" if "p \<in> tokens ` dom A" for p
    using that stored_node [OF fin(1), of p] by_levels_dom [of A p] by blast
  then have "inj_on idf (tokens ` dom A)" "idf ` tokens ` dom A \<subseteq> {0<..<rm_next_node_id m}"
    using t unfolding tree_of_def ids_distinct_def ids_below_def inj_on_def by (blast, fastforce)
  then have "card (tokens ` dom A) \<le> card {0<..<rm_next_node_id m}" by (metis card_image card_mono finite_greaterThanLessThan)
  moreover have "card (tokens ` dom A) = card (dom A)" using inj_tokens by (simp add: card_image inj_on_subset)
  moreover have "0 < rm_next_node_id m" using next_positive [OF t] by simp
  ultimately show ?thesis using fin(2) by simp
qed

lemma retained_step_law:
  assumes h: "retained_holds m A" and p: "op_plain op" and r: "rm_next_node_id m + op_levels op < size_max"
  shows "\<exists>m'. retained_step op m = Inr (fst (topic_step op A), m') \<and> retained_holds m' (snd (topic_step op A)) \<and>
    rm_next_node_id m' \<le> rm_next_node_id m + op_levels op"
proof (cases op)
    case (Ret_insert topic v)
    have "retained_room topic m" using r size_used [OF h] Ret_insert by (simp add: retained_room_def)
    from retained_insert_law [OF h this, of v] p Ret_insert show ?thesis by auto
  next
    case (Ret_erase topic)
    then show ?thesis using retained_erase_law [OF h, of topic] by auto
  next
    case Ret_clear
    have "2 \<le> rm_next_node_id m" using h next_positive by (auto simp: retained_holds_def)
    then show ?thesis using Ret_clear init_holds by (simp add: retained_clear_def retained_map_init_def root_node_id_def)
qed

interpretation retained: topic_store retained_holds rm_next_node_id retained_step retained_run size_max
  by unfold_locales (simp_all add: retained_step_law)

subsection \<open>Properties\<close>

lemma stored_node_iff: "finite (dom A) \<Longrightarrow> p \<noteq> [] \<Longrightarrow> node_of (stored_topics A) p \<longleftrightarrow> (\<exists>q \<in> dom A. prefix p (tokens q))"
  by (auto simp: node_of_def stored_topics_def)

text \<open>One node for each beginning of a topic, and the root.\<close>

lemma node_count:
  assumes "retained_holds m A"
  shows "retained_internal_size m = 1 + card {p. p \<noteq> [] \<and> (\<exists>q \<in> dom A. prefix p (tokens q))}"
proof -
  obtain idf where t: "tree_of m (stored_topics A) (by_levels A) idf" and fin: "finite (dom A)"
    using assms by (auto simp: retained_holds_def)
  let ?N = "{p. p \<noteq> [] \<and> node_of (stored_topics A) p}"
  have "dom (rm_node m) = insert retained_root (node_key_of idf ` ?N)"
    using tree_nodes [OF t] by (auto simp: dom_def)
  moreover have "retained_root \<notin> node_key_of idf ` ?N" using node_key_inj [OF t, of _ "[]"] by auto
  moreover have "inj_on (node_key_of idf) ?N" using node_key_inj [OF t] by (auto simp: inj_on_def)
  moreover have "finite ?N"
  proof -
    have "?N \<subseteq> (\<Union>q \<in> dom A. set (prefixes (tokens q)))" using fin by (auto simp: stored_node_iff)
    then show ?thesis using fin by (simp add: finite_subset)
  qed
  ultimately have "card (dom (rm_node m)) = 1 + card ?N" by (simp add: card_image)
  moreover have "card (dom (rm_node m)) = length (rm_map m)"
    using t by (simp add: tree_of_def dom_map_of_conv_image_fst distinct_card flip: set_map)
  moreover have "?N = {p. p \<noteq> [] \<and> (\<exists>q \<in> dom A. prefix p (tokens q))}" using stored_node_iff [OF fin] by auto
  ultimately show ?thesis by (simp add: retained_internal_size_def)
qed

lemma retained_from_init:
  assumes "list_all op_plain ops" and "sum_list (map op_levels ops) + 2 < size_max"
  shows "\<exists>m. retained_run ops retained_map_init = Inr (fst (topic_run ops (\<lambda>_. None)), m) \<and> retained_holds m (snd (topic_run ops (\<lambda>_. None)))"
  using retained.run_refines [OF init_holds assms(1)] assms(2) by (simp add: retained_map_init_def root_node_id_def)

lemma values_at_topics:
  "values_at (by_levels A) S = image_mset (\<lambda>q. the (A q)) (mset_set {q \<in> dom A. tokens q \<in> S})"
proof -
  have "{p \<in> S. by_levels A p \<noteq> None} = tokens ` {q \<in> dom A. tokens q \<in> S}"
    using by_levels_dom [of A] by auto
  moreover have "mset_set (tokens ` X) = image_mset tokens (mset_set X)" for X
    using inj_tokens by (simp add: image_mset_mset_set inj_on_subset)
  ultimately show ?thesis by (simp add: values_at_def multiset.map_comp comp_def)
qed

text \<open>
  C28. The retained messages are a finite map from topics to values. Any sequence of insertions of topics without wildcards, removals and clearings, as
  long as identifiers last, succeeds from the empty map and gives the results of the same
  operations on a function from topics to values: 1 if the number of stored topics changes and 0 if not. The size is the number of topics stored, and
  besides the root there is exactly one node for each beginning of a stored topic: removals leave nothing behind.
\<close>

theorem retained_map_refines:
  assumes "list_all op_plain ops" and "sum_list (map op_levels ops) + 2 < size_max"
  shows "\<exists>m. retained_run ops retained_map_init = Inr (fst (topic_run ops (\<lambda>_. None)), m) \<and>
    retained_holds m (snd (topic_run ops (\<lambda>_. None))) \<and> rm_size m = card (dom (snd (topic_run ops (\<lambda>_. None)))) \<and>
    retained_internal_size m = 1 + card {p. p \<noteq> [] \<and> (\<exists>q \<in> dom (snd (topic_run ops (\<lambda>_. None))). prefix p (tokens q))}"
  using retained_from_init [OF assms] node_count by (fastforce simp: retained_holds_def)

text \<open>Topics \<open>a/b\<close> and \<open>a\<close>.\<close>

definition sample_topics :: "nat retained_op list" where
  "sample_topics = [Ret_insert [0x61, 0x2f, 0x62] 1, Ret_insert [0x61] 2, Ret_erase [0x61, 0x2f, 0x62], Ret_insert [0x61] 3]"

lemma sample_tokens [simp]: "tokens [0x61, 0x2f, 0x62] = [[0x61], [0x62]]" "tokens [0x61] = [[0x61]]" "tokens plus_level = [plus_level]"
  by code_simp+

lemma sample_plain: "list_all op_plain sample_topics" "sum_list (map op_levels sample_topics) + 2 < size_max"
  by (simp_all add: sample_topics_def no_wildcards_def char_plus_def char_hash_def size_max_def)

theorem retained_map_refines_witness:
  "\<exists>m. retained_run sample_topics retained_map_init = Inr ([1, 1, 1, 0], m) \<and> retained_holds m [[0x61] \<mapsto> 3]"
proof -
  have "topic_run sample_topics (\<lambda>_. None) = ([1, 1, 1, 0], [[0x61] \<mapsto> 3])"
    by (auto simp: sample_topics_def fun_eq_iff)
  then show ?thesis using retained_map_refines [OF sample_plain] by auto
qed

text \<open>
  C29. A search finds what it is meant to find. For a filter without \<open>+\<close> before a final \<open>#\<close>, which does not begin with \<open>+\<close> while a topic is stored
  whose first level begins with a dollar sign, the search ends and calls back exactly once for each stored topic that
  the filter matches, with its value.
\<close>

theorem retained_found:
  assumes "list_all op_plain ops" and "sum_list (map op_levels ops) + 2 < size_max" and "retained_run ops retained_map_init = Inr (rs, m)"
    and "A = snd (topic_run ops (\<lambda>_. None))" and "hash_level \<notin> set (butlast (tokens f))"
    and "hash_level \<in> set (tokens f) \<Longrightarrow> plus_level \<notin> set (tokens f)"
    and "hd (tokens f) = plus_level \<Longrightarrow> \<forall>q \<in> dom A. \<not> system_level (hd (tokens q))"
  shows "\<exists>vs. retained_find f m = Some vs \<and>
    mset vs = image_mset (\<lambda>q. the (A q)) (mset_set {q \<in> dom A. retained_matches True (tokens f) (tokens q)})"
proof -
  have h: "retained_holds m A" using retained_from_init [OF assms(1,2)] assms(3,4) by auto
  then obtain idf where t: "tree_of m (stored_topics A) (by_levels A) idf" and fin: "finite (dom A)" by (auto simp: retained_holds_def)
  have "dom (by_levels A) = tokens ` dom A" using by_levels_dom [of A] by blast
  then have "finite (dom (by_levels A))" using fin by simp
  moreover have "\<not> system_level u" if hd: "hd (tokens f) = plus_level" and nd: "node_of (stored_topics A) [u]" for u
  proof -
    obtain q where q: "q \<in> dom A" "prefix [u] (tokens q)" using nd stored_node_iff [OF fin, of "[u]"] by auto
    have "hd (tokens q) = u" using q(2) by (cases "tokens q") simp_all
    then show ?thesis using bspec [OF assms(7) [OF hd] q(1)] by simp
  qed
  then have "searchable (tokens f) (stored_topics A) [[]]" using assms(5,6) by (simp add: searchable_def)
  ultimately obtain entries called where
    "snd (run_tokens (retained_match_level m) (tokens f) (Some ([retained_root], []))) = Some (entries, called)"
    "mset (called @ values_of (map (rm_entry m) entries)) = values_at (by_levels A) (matching_below (tokens f) [[]])"
    using search_levels [OF t, of "[[]]" "tokens f"] by auto
  moreover have "matching_below (tokens f) [[]] = {p. retained_matches True (tokens f) p}" by (auto simp: matching_below_def)
  ultimately show ?thesis by (simp add: retained_find_def topic_filter_tokenizer_tokens values_at_topics)
qed

theorem retained_found_witness:
  "\<exists>rs m vs. retained_run sample_topics retained_map_init = Inr (rs, m) \<and> retained_find plus_level m = Some vs \<and> mset vs = {#3#}"
proof -
  obtain rs m where run: "retained_run sample_topics retained_map_init = Inr (rs, m)" using retained_from_init [OF sample_plain] by auto
  have A: "snd (topic_run sample_topics (\<lambda>_. None)) = [[0x61] \<mapsto> 3]" by (auto simp: sample_topics_def fun_eq_iff)
  have "system_level [0x61] = False" "retained_matches True [plus_level] [[0x61]]" "plus_level \<noteq> hash_level" by code_simp+
  moreover have "{q \<in> dom [[0x61] \<mapsto> (3::nat)]. retained_matches True [plus_level] (tokens q)} = {[0x61]}" using calculation by auto
  ultimately show ?thesis using retained_found [OF sample_plain run A [symmetric], of plus_level] run by auto
qed


end
