(* ===== verification/Broker_Publish.thy ===== *)
theory Broker_Publish
  imports Broker_Session Retained_Spec Property
begin

text \<open>
  How the broker distributes a message: \<^verbatim>\<open>publish_handler\<close> and \<^verbatim>\<open>do_publish\<close> of
  \<^verbatim>\<open>tool/include/broker/broker.hpp\<close>.

  \<^item> \<open>order\<close> is the order in which the pairs of an \<^verbatim>\<open>std::unordered_map\<close> are visited, \<open>clock\<close> what the calls of
    \<^verbatim>\<open>steady_clock::now()\<close> return one after the other, and \<open>auth_pub\<close> and \<open>auth_sub\<close> say what
    \<^verbatim>\<open>security_\<close> allows to a session for a topic. All of them are arguments.
  \<^item> A call of \<^verbatim>\<open>session_state::deliver\<close> is an element of \<open>bk_delivered\<close>, a packet sent in answer one of
    \<open>bk_responses\<close>. An exception is \<open>Inl\<close>, with what was done before it.
  \<^item> The timer of a retained message is the interval it was started with.
\<close>

subsection \<open>State\<close>

record delivery =
  dl_ss :: session_ref
  dl_sub :: subscription
  dl_topic :: bytes
  dl_payload :: "bytes list"
  dl_opts :: pubopts
  dl_props :: properties

record retain_type =
  rt_topic :: bytes
  rt_payload :: "bytes list"
  rt_props :: properties
  rt_qos :: qos
  rt_expiry :: "nat option"

text \<open>The arguments of the constructor of the response: a reason code and properties only where they are given.\<close>

datatype publish_response =
    Pubres_v3 control_packet_type nat
  | Pubres_v5 control_packet_type nat "(byte \<times> properties option) option"

record broker =
  bk_subs :: broker_subs
  bk_retains :: "retain_type retained_map"
  bk_delivered :: "delivery list"
  bk_responses :: "publish_response list"

record publish_state =
  ps_matched :: bool
  ps_sent :: "(bytes \<times> bytes) list"
  ps_calls :: nat
  ps_broker :: broker

datatype publish_error = Pe_exn exn | Pe_map map_error

subsection \<open>Distribution\<close>

definition sid_property :: "nat option \<Rightarrow> exn + properties" where
  "sid_property sid =
     (case sid of
        None \<Rightarrow> Inr []
      | Some n \<Rightarrow> if 2 ^ 32 \<le> n then Inl Bad_numeric_cast else bindE (subscription_identifier n) (\<lambda>p. Inr [p]))"

definition delivery_opts :: "pubopts \<Rightarrow> subopts \<Rightarrow> pubopts" where
  "delivery_opts opts so =
     (let new_opts = pubopts_of_qos (min (opts_get_qos opts) (sub_get_qos so)) in
      if sub_get_rap so = rap_retain \<and> opts_get_retain opts = retain_yes then pubopts_or new_opts retain_yes else new_opts)"

text \<open>The lambda \<^verbatim>\<open>deliver\<close>, with what its caller does with the result.\<close>

definition publish_deliver ::
  "(session_ref \<Rightarrow> bool) \<Rightarrow> bytes \<Rightarrow> bytes list \<Rightarrow> pubopts \<Rightarrow> properties \<Rightarrow> session_ref \<Rightarrow> subscription \<Rightarrow> publish_state \<Rightarrow>
   (publish_error \<times> broker) + publish_state" where
  "publish_deliver allowed topic payload opts props ss sub st =
     (if \<not> allowed ss then Inr st
      else case sid_property (sb_sid sub) of
        Inl x \<Rightarrow> Inl (Pe_exn x, ps_broker st)
      | Inr ps \<Rightarrow>
          (let b = ps_broker st;
               d = \<lparr>dl_ss = ss, dl_sub = sub, dl_topic = topic, dl_payload = payload, dl_opts = delivery_opts opts (sb_opts sub), dl_props = props @ ps\<rparr> in
           Inr (st\<lparr>ps_matched := True, ps_broker := b\<lparr>bk_delivered := bk_delivered b @ [d]\<rparr>\<rparr>)))"

text \<open>The callback of \<^verbatim>\<open>modify\<close>.\<close>

definition publish_callback ::
  "(session_ref \<Rightarrow> bool) \<Rightarrow> (nat \<Rightarrow> nat) \<Rightarrow> session_ref \<Rightarrow> bytes \<Rightarrow> bytes list \<Rightarrow> pubopts \<Rightarrow> properties \<Rightarrow> subscription \<Rightarrow> publish_state \<Rightarrow>
   (publish_error \<times> broker) + publish_state" where
  "publish_callback allowed clock source topic payload opts props sub st =
     (if sb_sharename sub = [] then
        (if sub_get_nl (sb_opts sub) = nl_yes \<and> ss_client_id (sb_ss sub) = ss_client_id source then Inr st
         else publish_deliver allowed topic payload opts props (sb_ss sub) sub st)
      else if (sb_sharename sub, sb_topic sub) \<in> set (ps_sent st) then Inr st
      else
        (let b = ps_broker st; s = bk_subs b;
             (r, targets) = get_target (sb_sharename sub) (sb_topic sub) (clock (ps_calls st)) (br_shared_targets s);
             st = st\<lparr>ps_sent := (sb_sharename sub, sb_topic sub) # ps_sent st, ps_calls := ps_calls st + 1,
                     ps_broker := b\<lparr>bk_subs := s\<lparr>br_shared_targets := targets\<rparr>\<rparr>\<rparr> in
         case r of
           None \<Rightarrow> Inr st
         | Some (ssr, sub) \<Rightarrow> publish_deliver allowed topic payload opts props ssr sub st))"

fun publish_loop ::
  "(session_ref \<Rightarrow> bool) \<Rightarrow> (nat \<Rightarrow> nat) \<Rightarrow> session_ref \<Rightarrow> bytes \<Rightarrow> bytes list \<Rightarrow> pubopts \<Rightarrow> properties \<Rightarrow> subscription list \<Rightarrow> publish_state \<Rightarrow>
   (publish_error \<times> broker) + publish_state" where
  "publish_loop allowed clock source topic payload opts props [] st = Inr st"
| "publish_loop allowed clock source topic payload opts props (sub # subs) st =
     bindE (publish_callback allowed clock source topic payload opts props sub st) (publish_loop allowed clock source topic payload opts props subs)"

text \<open>The subscriptions in the order in which \<^verbatim>\<open>modify\<close> calls back.\<close>

definition visited :: "((bytes \<Rightarrow> subscription option) \<Rightarrow> bytes list) \<Rightarrow> bytes \<Rightarrow> sub_con_map \<Rightarrow> subscription list" where
  "visited order topic m = concat (map (\<lambda>c. map (\<lambda>key. the (c key)) (order c)) (find_subscriptions topic m))"

definition message_expiry :: "protocol_version \<Rightarrow> properties \<Rightarrow> nat option" where
  "message_expiry version props =
     (if version = V5
      then fold (\<lambda>p r. if prop_id p = Id_message_expiry_interval then Some (property_val_int p) else r) props None
      else None)"

definition publish_retain :: "protocol_version \<Rightarrow> bytes \<Rightarrow> bytes list \<Rightarrow> pubopts \<Rightarrow> properties \<Rightarrow> broker \<Rightarrow> (publish_error \<times> broker) + broker" where
  "publish_retain version topic payload opts props b =
     (if opts_get_retain opts \<noteq> retain_yes then Inr b
      else if payload = [] then Inr (b\<lparr>bk_retains := snd (retained_erase topic (bk_retains b))\<rparr>)
      else
        (let r = \<lparr>rt_topic = topic, rt_payload = payload, rt_props = props, rt_qos = opts_get_qos opts, rt_expiry = message_expiry version props\<rparr> in
         case retained_insert topic r (bk_retains b) of
           Inl (e, m) \<Rightarrow> Inl (Pe_map e, b\<lparr>bk_retains := m\<rparr>)
         | Inr (n, m) \<Rightarrow> Inr (b\<lparr>bk_retains := m\<rparr>)))"

definition do_publish ::
  "((bytes \<Rightarrow> subscription option) \<Rightarrow> bytes list) \<Rightarrow> (nat \<Rightarrow> nat) \<Rightarrow> (bytes \<Rightarrow> session_ref \<Rightarrow> bool) \<Rightarrow>
   session_ref \<Rightarrow> protocol_version \<Rightarrow> bytes \<Rightarrow> bytes list \<Rightarrow> pubopts \<Rightarrow> properties \<Rightarrow> broker \<Rightarrow> (publish_error \<times> broker) + bool \<times> broker" where
  "do_publish order clock auth_sub source version topic payload opts props b =
     bindE (publish_loop (auth_sub topic) clock source topic payload opts props (visited order topic (br_subs_map (bk_subs b)))
       \<lparr>ps_matched = False, ps_sent = [], ps_calls = 0, ps_broker = b\<rparr>) (\<lambda>st.
     bindE (publish_retain version topic payload opts props (ps_broker st)) (\<lambda>b. Inr (ps_matched st, b)))"

subsection \<open>The handler\<close>

definition rc_success :: byte where "rc_success = 0x00"
definition rc_no_matching_subscribers :: byte where "rc_no_matching_subscribers = 0x10"
definition rc_not_authorized :: byte where "rc_not_authorized = 0x87"

definition send_pubres :: "protocol_version \<Rightarrow> properties \<Rightarrow> properties \<Rightarrow> pubopts \<Rightarrow> nat \<Rightarrow> bool \<Rightarrow> bool \<Rightarrow> publish_response list" where
  "send_pubres version puback_props pubrec_props opts pid authorized hit =
     (let answer = (\<lambda>type props.
            if version = V3_1_1 then [Pubres_v3 type pid]
            else if version = V5 then
              [Pubres_v5 type pid
                 (if authorized
                  then (if props = []
                        then (if hit then None else Some (rc_no_matching_subscribers, None))
                        else Some (if hit then rc_success else rc_no_matching_subscribers, Some props))
                  else Some (rc_not_authorized, if props = [] then None else Some props))]
            else [])
      in if opts_get_qos opts = at_least_once then answer Cpt_puback puback_props
         else if opts_get_qos opts = exactly_once then answer Cpt_pubrec pubrec_props
         else [])"

definition forward_props :: "properties \<Rightarrow> properties" where
  "forward_props props = filter (\<lambda>p. prop_id p \<noteq> Id_topic_alias \<and> prop_id p \<noteq> Id_subscription_identifier) props"

text \<open>\<open>session\<close> is the session of the endpoint with its version, if it is still there.\<close>

definition publish_handler ::
  "((bytes \<Rightarrow> subscription option) \<Rightarrow> bytes list) \<Rightarrow> (nat \<Rightarrow> nat) \<Rightarrow> (bytes \<Rightarrow> session_ref \<Rightarrow> bool) \<Rightarrow> (bytes \<Rightarrow> session_ref \<Rightarrow> bool) \<Rightarrow>
   properties \<Rightarrow> properties \<Rightarrow> protocol_version \<Rightarrow> (session_ref \<times> protocol_version) option \<Rightarrow>
   nat \<Rightarrow> pubopts \<Rightarrow> bytes \<Rightarrow> bytes list \<Rightarrow> properties \<Rightarrow> broker \<Rightarrow> (publish_error \<times> broker) + broker" where
  "publish_handler order clock auth_pub auth_sub puback_props pubrec_props version session pid opts topic payload props b =
     (case session of
        None \<Rightarrow> Inr b
      | Some (ss, ss_version) \<Rightarrow>
          (let respond = (\<lambda>authorized hit b.
                 b\<lparr>bk_responses := bk_responses b @ send_pubres version puback_props pubrec_props opts pid authorized hit\<rparr>) in
           if \<not> auth_pub topic ss then Inr (respond False False b)
           else
             bindE (do_publish order clock auth_sub ss ss_version topic payload
                      (pubopts_or (pubopts_of_qos (opts_get_qos opts)) (opts_get_retain opts)) (forward_props props) b)
               (\<lambda>(hit, b). Inr (respond True hit b))))"

subsection \<open>What is visited\<close>

definition visits_all :: "((bytes \<Rightarrow> subscription option) \<Rightarrow> bytes list) \<Rightarrow> bool" where
  "visits_all order \<longleftrightarrow> (\<forall>c. finite (dom c) \<longrightarrow> distinct (order c) \<and> set (order c) = dom c)"

lemma count_entries:
  assumes "visits_all order" and "finite (dom c)" and own: "\<And>k v. c k = Some v \<Longrightarrow> ss_client_id (sb_ss v) = k"
  shows "length (filter (\<lambda>x. x = v) (map (\<lambda>key. the (c key)) (order c))) = of_bool (c (ss_client_id (sb_ss v)) = Some v)"
proof -
  have o: "distinct (order c)" "set (order c) = dom c" using assms(1,2) by (auto simp: visits_all_def)
  have "set (filter (\<lambda>key. the (c key) = v) (order c)) = (if c (ss_client_id (sb_ss v)) = Some v then {ss_client_id (sb_ss v)} else {})"
  proof (intro set_eqI)
    fix k
    have "k \<in> set (filter (\<lambda>key. the (c key) = v) (order c)) \<longleftrightarrow> c k = Some v" using o(2) by (cases "c k") (simp_all add: dom_def)
    also have "\<dots> \<longleftrightarrow> k = ss_client_id (sb_ss v) \<and> c (ss_client_id (sb_ss v)) = Some v" using own [of k v] by fast
    finally show "k \<in> set (filter (\<lambda>key. the (c key) = v) (order c)) \<longleftrightarrow>
        k \<in> (if c (ss_client_id (sb_ss v)) = Some v then {ss_client_id (sb_ss v)} else {})" by simp
  qed
  then have "length (filter (\<lambda>key. the (c key) = v) (order c)) = of_bool (c (ss_client_id (sb_ss v)) = Some v)"
    using distinct_card [of "filter (\<lambda>key. the (c key) = v) (order c)"] o(1) by (cases "c (ss_client_id (sb_ss v)) = Some v") simp_all
  then show ?thesis by (simp add: filter_map comp_def)
qed

lemma sum_of_bool: "sum_list (map (\<lambda>x. of_bool (P x)) xs) = length (filter P xs)"
  by (induction xs) auto

lemma visited_once:
  assumes m: "implements m A" and s: "subs_ok S xs A" and topic: "validate_topic_name topic" and order: "visits_all order"
  shows "length (filter (\<lambda>x. x = v) (visited order topic m)) =
    of_bool (A (sb_topic v) (ss_client_id (sb_ss v)) = Some v \<and> filter_matches True (tokens (sb_topic v)) (tokens topic))"
proof -
  let ?k = "ss_client_id (sb_ss v)" and ?cs = "find_subscriptions topic m"
  have entry: "\<exists>f. A f k = Some x" if "c \<in> set ?cs" "c k = Some x" for c k x
    using that broker_subs.search_member [OF m topic, of k x] by blast
  have own: "ss_client_id (sb_ss x) = k" if "c \<in> set ?cs" "c k = Some x" for c k x
    using entry [OF that] s unfolding subs_ok_def by blast
  have fin: "finite (dom c)" if c: "c \<in> set ?cs" for c
  proof -
    have "dom c \<subseteq> snd ` sub_pairs A" using entry [OF c] by (force simp: sub_pairs_def dom_def image_iff)
    then show ?thesis using m finite_surj by (auto simp: implements_def)
  qed
  have "length (filter (\<lambda>x. x = v) (visited order topic m)) =
      sum_list (map (\<lambda>c. length (filter (\<lambda>x. x = v) (map (\<lambda>key. the (c key)) (order c)))) ?cs)"
    by (simp add: visited_def filter_concat length_concat comp_def)
  also have "\<dots> = sum_list (map (\<lambda>c. of_bool (c ?k = Some v)) ?cs)"
    by (intro arg_cong [where f = sum_list] map_cong refl count_entries [OF order fin own])
  also have "\<dots> = card {f. A f ?k = Some v \<and> filter_matches True (tokens f) (tokens topic)}"
    unfolding sum_of_bool by (rule implements_found [OF m topic])
  also have "{f. A f ?k = Some v \<and> filter_matches True (tokens f) (tokens topic)} =
      (if A (sb_topic v) ?k = Some v \<and> filter_matches True (tokens (sb_topic v)) (tokens topic) then {sb_topic v} else {})"
    unfolding set_eq_iff using s [unfolded subs_ok_def, rule_format, of _ ?k v] by (simp only: mem_Collect_eq split: if_split) blast
  finally show ?thesis by simp
qed

lemma visited_set:
  assumes "implements m A" and "subs_ok S xs A" and "validate_topic_name topic" and "visits_all order"
  shows "v \<in> set (visited order topic m) \<longleftrightarrow> A (sb_topic v) (ss_client_id (sb_ss v)) = Some v \<and> filter_matches True (tokens (sb_topic v)) (tokens topic)"
proof -
  have "v \<in> set (visited order topic m) \<longleftrightarrow> length (filter (\<lambda>x. x = v) (visited order topic m)) \<noteq> 0" by (auto simp: filter_empty_conv)
  then show ?thesis unfolding visited_once [OF assms] by simp
qed

subsection \<open>Targets\<close>

lemma target_found:
  assumes t: "targets_ok t xs" "t \<le> now" and e: "target_entries_ok S xs" and h: "has_target sn tf c xs"
  shows "\<exists>ss sub xs'. get_target sn tf now xs = (Some (ss, sub), xs') \<and> ss \<in> S \<and> sb_ss sub = ss \<and> sb_sharename sub = sn \<and> sb_topic sub = tf \<and>
    sid_ok (sb_sid sub) \<and> has_target sn tf (ss_client_id ss) xs \<and> targets_ok now xs' \<and> target_entries_ok S xs' \<and>
    (\<forall>sn tf c. has_target sn tf c xs' \<longleftrightarrow> has_target sn tf c xs)"
proof -
  let ?P = "\<lambda>e. \<not> is_target sn tf e"
  obtain x after where d: "dropWhile ?P xs = x # after" using h by (cases "dropWhile ?P xs") (auto simp: has_target_def dropWhile_eq_Nil_conv)
  let ?before = "takeWhile ?P xs"
  let ?xs = "modify_target ?before (x\<lparr>se_tp := now\<rparr>) after"
  have xs: "xs = ?before @ x # after" "is_target sn tf x" using targets_split [OF d refl] by auto
  then obtain sub where sub: "map_of (se_tf_subs x) tf = Some sub" "se_share_name x = sn" by (auto simp: is_target_def)
  have x: "x \<in> set xs" "target_entry_ok S x" using xs(1) e by (metis in_set_conv_decomp)+
  have "targets_ok now ?xs" using targets_ok_modify [of t ?before x after now] t xs(1) by metis
  moreover have set: "set ?xs = insert (x\<lparr>se_tp := now\<rparr>) (set (?before @ after))" by (rule set_modify)
  have all: "set xs = insert x (set (?before @ after))" by (subst xs(1)) auto
  have "target_entries_ok S ?xs" unfolding set using e unfolding all by (auto simp: target_entry_ok_def)
  moreover have "has_target sn' tf' c' ?xs \<longleftrightarrow> has_target sn' tf' c' xs" for sn' tf' c'
    unfolding has_target_def set all by (simp add: is_target_def se_client_id_def)
  moreover have "has_target sn tf (ss_client_id (se_ssr x)) xs" using x(1) xs(2) by (auto simp: has_target_def se_client_id_def)
  moreover have "get_target sn tf now xs = (Some (se_ssr x, sub), ?xs)" by (simp add: get_target_def d sub(1))
  moreover have "se_ssr x \<in> S \<and> sb_ss sub = se_ssr x \<and> sb_sharename sub = sn \<and> sb_topic sub = tf \<and> sid_ok (sb_sid sub)"
    using x(2) map_of_SomeD [OF sub(1)] sub(2) by (auto simp: target_entry_ok_def)
  ultimately show ?thesis by blast
qed

subsection \<open>What is delivered\<close>

definition sid_props :: "nat option \<Rightarrow> properties" where
  "sid_props sid = (case sid of None \<Rightarrow> [] | Some n \<Rightarrow> [Variable_property Id_subscription_identifier (val_to_variable_bytes n)])"

lemma sid_property_ok: "sid_ok sid \<Longrightarrow> sid_property sid = Inr (sid_props sid)"
  by (auto simp: sid_ok_def sid_property_def sid_props_def subscription_identifier_def split: option.split)

text \<open>The message as a subscription gets it.\<close>

definition delivery_of :: "bytes \<Rightarrow> bytes list \<Rightarrow> pubopts \<Rightarrow> properties \<Rightarrow> subscription \<Rightarrow> delivery" where
  "delivery_of topic payload opts props sub =
     \<lparr>dl_ss = sb_ss sub, dl_sub = sub, dl_topic = topic, dl_payload = payload, dl_opts = delivery_opts opts (sb_opts sub),
      dl_props = props @ sid_props (sb_sid sub)\<rparr>"

definition plain_receiver :: "(session_ref \<Rightarrow> bool) \<Rightarrow> session_ref \<Rightarrow> subscription \<Rightarrow> bool" where
  "plain_receiver allowed source v \<longleftrightarrow>
     sb_sharename v = [] \<and> \<not> (sub_get_nl (sb_opts v) = nl_yes \<and> ss_client_id (sb_ss v) = ss_client_id source) \<and> allowed (sb_ss v)"

definition groups_in :: "subscription list \<Rightarrow> (bytes \<times> bytes) set" where
  "groups_in vs = {(sb_sharename v, sb_topic v) | v. v \<in> set vs \<and> sb_sharename v \<noteq> []}"

abbreviation delivered_to :: "bytes \<Rightarrow> bytes \<Rightarrow> delivery \<Rightarrow> bool" where
  "delivered_to sn tf d \<equiv> sb_sharename (dl_sub d) = sn \<and> sb_topic (dl_sub d) = tf"

definition served ::
  "session_ref set \<Rightarrow> (session_ref \<Rightarrow> bool) \<Rightarrow> session_ref \<Rightarrow> (subscription \<Rightarrow> delivery) \<Rightarrow> subscription shared_entry list \<Rightarrow>
   (bytes \<times> bytes) set \<Rightarrow> subscription list \<Rightarrow> delivery list \<Rightarrow> bool" where
  "served S allowed source mk xs G vs ds \<longleftrightarrow>
     filter (\<lambda>d. sb_sharename (dl_sub d) = []) ds = map mk (filter (plain_receiver allowed source) vs) \<and>
     (\<forall>d \<in> set ds. d = mk (dl_sub d) \<and> allowed (sb_ss (dl_sub d)) \<and> sb_ss (dl_sub d) \<in> S \<and>
       (sb_sharename (dl_sub d) \<noteq> [] \<longrightarrow> has_target (sb_sharename (dl_sub d)) (sb_topic (dl_sub d)) (ss_client_id (sb_ss (dl_sub d))) xs)) \<and>
     (\<forall>sn tf. sn \<noteq> [] \<longrightarrow> length (filter (delivered_to sn tf) ds) \<le> of_bool ((sn, tf) \<in> G) \<and>
       ((\<forall>ss \<in> S. has_target sn tf (ss_client_id ss) xs \<longrightarrow> allowed ss) \<longrightarrow> length (filter (delivered_to sn tf) ds) = of_bool ((sn, tf) \<in> G)))"

lemma served_append:
  assumes "served S allowed source mk xs G vs ds" and "served S allowed source mk xs' H ws es" and "G \<inter> H = {}"
    and "\<forall>sn tf c. has_target sn tf c xs' \<longleftrightarrow> has_target sn tf c xs"
  shows "served S allowed source mk xs (G \<union> H) (vs @ ws) (ds @ es)"
proof -
  have "length (filter (delivered_to sn tf) (ds @ es)) \<le> of_bool ((sn, tf) \<in> G \<union> H) \<and>
      ((\<forall>ss \<in> S. has_target sn tf (ss_client_id ss) xs \<longrightarrow> allowed ss) \<longrightarrow> length (filter (delivered_to sn tf) (ds @ es)) = of_bool ((sn, tf) \<in> G \<union> H))"
    if sn: "sn \<noteq> []" for sn tf
  proof -
    have g: "length (filter (delivered_to sn tf) ds) \<le> of_bool ((sn, tf) \<in> G)"
        "(\<forall>ss \<in> S. has_target sn tf (ss_client_id ss) xs \<longrightarrow> allowed ss) \<Longrightarrow> length (filter (delivered_to sn tf) ds) = of_bool ((sn, tf) \<in> G)"
      using assms(1) sn unfolding served_def by blast+
    have h: "length (filter (delivered_to sn tf) es) \<le> of_bool ((sn, tf) \<in> H)"
        "(\<forall>ss \<in> S. has_target sn tf (ss_client_id ss) xs \<longrightarrow> allowed ss) \<Longrightarrow> length (filter (delivered_to sn tf) es) = of_bool ((sn, tf) \<in> H)"
      using assms(2) sn unfolding served_def using assms(4) by blast+
    have sum: "(of_bool ((sn, tf) \<in> G \<union> H) :: nat) = of_bool ((sn, tf) \<in> G) + of_bool ((sn, tf) \<in> H)" using assms(3) by auto
    then have e: "length (filter (delivered_to sn tf) (ds @ es)) = of_bool ((sn, tf) \<in> G \<union> H)"
      if "length (filter (delivered_to sn tf) ds) = of_bool ((sn, tf) \<in> G)" "length (filter (delivered_to sn tf) es) = of_bool ((sn, tf) \<in> H)"
      using that by (simp only: filter_append length_append)
    have "length (filter (delivered_to sn tf) (ds @ es)) \<le> of_bool ((sn, tf) \<in> G \<union> H)"
      unfolding filter_append length_append sum using g(1) h(1) by (rule add_mono)
    then show ?thesis using e g(2) h(2) by blast
  qed
  moreover have "\<forall>d \<in> set (ds @ es). d = mk (dl_sub d) \<and> allowed (sb_ss (dl_sub d)) \<and> sb_ss (dl_sub d) \<in> S \<and>
       (sb_sharename (dl_sub d) \<noteq> [] \<longrightarrow> has_target (sb_sharename (dl_sub d)) (sb_topic (dl_sub d)) (ss_client_id (sb_ss (dl_sub d))) xs)"
    using assms(1,2,4) unfolding served_def set_append by blast
  moreover have "filter (\<lambda>d. sb_sharename (dl_sub d) = []) (ds @ es) = map mk (filter (plain_receiver allowed source) (vs @ ws))"
    using assms(1,2) by (simp add: served_def)
  ultimately show ?thesis unfolding served_def by blast
qed

text \<open>One call of the callback and all of them.\<close>

definition advance :: "subscription shared_entry list \<Rightarrow> delivery list \<Rightarrow> broker \<Rightarrow> broker" where
  "advance xs ds b = b\<lparr>bk_subs := (bk_subs b)\<lparr>br_shared_targets := xs\<rparr>, bk_delivered := bk_delivered b @ ds\<rparr>"

abbreviation st_targets :: "publish_state \<Rightarrow> subscription shared_entry list" where
  "st_targets st \<equiv> br_shared_targets (bk_subs (ps_broker st))"

lemma advance_id: "advance (br_shared_targets (bk_subs b)) [] b = b"
  by (simp add: advance_def)

lemma advance_advance: "advance ys es (advance xs ds b) = advance ys (ds @ es) b"
  by (simp add: advance_def)

lemma advance_targets [simp]: "br_shared_targets (bk_subs (advance xs ds b)) = xs"
  by (simp add: advance_def)

definition visit_ok :: "session_ref set \<Rightarrow> subscription shared_entry list \<Rightarrow> subscription \<Rightarrow> bool" where
  "visit_ok S xs v \<longleftrightarrow> sb_ss v \<in> S \<and> sid_ok (sb_sid v) \<and>
     (sb_sharename v \<noteq> [] \<longrightarrow> has_target (sb_sharename v) (sb_topic v) (ss_client_id (sb_ss v)) xs)"

lemma publish_deliver_ok:
  assumes "sid_ok (sb_sid sub)"
  shows "publish_deliver allowed topic payload opts props (sb_ss sub) sub st =
    Inr (if allowed (sb_ss sub)
         then st\<lparr>ps_matched := True, ps_broker := advance (st_targets st) [delivery_of topic payload opts props sub] (ps_broker st)\<rparr>
         else st)"
  by (cases "ps_broker st") (simp add: publish_deliver_def sid_property_ok [OF assms] delivery_of_def advance_def Let_def)

lemma publish_callback_ok:
  assumes v: "visit_ok S (st_targets st) v" and t: "targets_ok t (st_targets st)" "t \<le> clock (ps_calls st)" and e: "target_entries_ok S (st_targets st)"
  shows "\<exists>st' ds xs. publish_callback allowed clock source topic payload opts props v st = Inr st' \<and>
    ps_broker st' = advance xs ds (ps_broker st) \<and> (ps_matched st' \<longleftrightarrow> ps_matched st \<or> ds \<noteq> []) \<and>
    set (ps_sent st') = set (ps_sent st) \<union> groups_in [v] \<and> ps_calls st \<le> ps_calls st' \<and>
    (targets_ok t xs \<or> targets_ok (clock (ps_calls st)) xs \<and> ps_calls st' = ps_calls st + 1) \<and> target_entries_ok S xs \<and>
    (\<forall>sn tf c. has_target sn tf c xs \<longleftrightarrow> has_target sn tf c (st_targets st)) \<and>
    served S allowed source (delivery_of topic payload opts props) (st_targets st) (groups_in [v] - set (ps_sent st)) [v] ds"
proof (cases "sb_sharename v = []")
  case True
  let ?ds = "if plain_receiver allowed source v then [delivery_of topic payload opts props v] else []"
  let ?st = "if plain_receiver allowed source v
    then st\<lparr>ps_matched := True, ps_broker := advance (st_targets st) [delivery_of topic payload opts props v] (ps_broker st)\<rparr> else st"
  have "publish_callback allowed clock source topic payload opts props v st = Inr ?st"
    using True v publish_deliver_ok [of v allowed topic payload opts props st]
    by (auto simp: publish_callback_def plain_receiver_def visit_ok_def)
  moreover have "ps_broker ?st = advance (st_targets st) ?ds (ps_broker st)" by (simp add: advance_id)
  moreover have "groups_in [v] = {}" using True by (simp add: groups_in_def)
  moreover have "served S allowed source (delivery_of topic payload opts props) (st_targets st) {} [v] ?ds"
    using True v by (auto simp: served_def delivery_of_def plain_receiver_def visit_ok_def)
  ultimately show ?thesis using t(1) e
    by (intro exI [of _ ?st] exI [of _ ?ds] exI [of _ "st_targets st"]) simp
next
  case False
  have g: "groups_in [v] = {(sb_sharename v, sb_topic v)}" using False by (auto simp: groups_in_def)
  show ?thesis
  proof (cases "(sb_sharename v, sb_topic v) \<in> set (ps_sent st)")
    case True
    have "publish_callback allowed clock source topic payload opts props v st = Inr st" using True False by (simp add: publish_callback_def)
    moreover have "served S allowed source (delivery_of topic payload opts props) (st_targets st) {} [v] []"
      using False by (simp add: served_def plain_receiver_def)
    ultimately show ?thesis using True t(1) e g
      by (intro exI [of _ st] exI [of _ "[]"] exI [of _ "st_targets st"]) (simp add: advance_id insert_absorb)
  next
    case new: False
    have diff: "groups_in [v] - set (ps_sent st) = {(sb_sharename v, sb_topic v)}" using g new by auto
    have "has_target (sb_sharename v) (sb_topic v) (ss_client_id (sb_ss v)) (st_targets st)" using v False by (simp add: visit_ok_def)
    from target_found [OF t e this] obtain ss sub xs where
      x: "get_target (sb_sharename v) (sb_topic v) (clock (ps_calls st)) (st_targets st) = (Some (ss, sub), xs)" "ss \<in> S" "sb_ss sub = ss"
        "sb_sharename sub = sb_sharename v" "sb_topic sub = sb_topic v" "sid_ok (sb_sid sub)"
        "has_target (sb_sharename v) (sb_topic v) (ss_client_id ss) (st_targets st)" "targets_ok (clock (ps_calls st)) xs" "target_entries_ok S xs"
        "\<forall>sn tf c. has_target sn tf c xs \<longleftrightarrow> has_target sn tf c (st_targets st)" by (elim exE conjE) (rule that)
    let ?st = "st\<lparr>ps_sent := (sb_sharename v, sb_topic v) # ps_sent st, ps_calls := ps_calls st + 1, ps_broker := advance xs [] (ps_broker st)\<rparr>"
    let ?ds = "if allowed ss then [delivery_of topic payload opts props sub] else []"
    let ?st' = "if allowed ss then ?st\<lparr>ps_matched := True, ps_broker := advance xs ?ds (ps_broker st)\<rparr> else ?st"
    have "publish_callback allowed clock source topic payload opts props v st = publish_deliver allowed topic payload opts props ss sub ?st"
      using False new x(1) by (cases st; cases "ps_broker st") (simp add: publish_callback_def advance_def Let_def)
    also have "\<dots> = Inr ?st'"
      using publish_deliver_ok [OF x(6), of allowed topic payload opts props ?st] x(3) by (simp add: advance_advance)
    finally have "publish_callback allowed clock source topic payload opts props v st = Inr ?st'" .
    moreover have "ps_broker ?st' = advance xs ?ds (ps_broker st)" by simp
    moreover have "served S allowed source (delivery_of topic payload opts props) (st_targets st) (groups_in [v] - set (ps_sent st)) [v] ?ds"
      unfolding diff using False x(2-5,7) by (auto simp: served_def delivery_of_def plain_receiver_def)
    ultimately show ?thesis using x(8-10) g new
      by (intro exI [of _ ?st'] exI [of _ ?ds] exI [of _ xs]) simp
  qed
qed

lemma groups_in_Cons: "groups_in (v # vs) = groups_in [v] \<union> groups_in vs"
  by (auto simp: groups_in_def)

lemma publish_loop_ok:
  assumes "\<forall>v \<in> set vs. visit_ok S (st_targets st) v" and "targets_ok t (st_targets st)" "t \<le> clock (ps_calls st)" "mono clock" and "target_entries_ok S (st_targets st)"
  shows "\<exists>st' ds xs t'. publish_loop allowed clock source topic payload opts props vs st = Inr st' \<and>
    ps_broker st' = advance xs ds (ps_broker st) \<and> (ps_matched st' \<longleftrightarrow> ps_matched st \<or> ds \<noteq> []) \<and>
    targets_ok t' xs \<and> t' \<le> clock (ps_calls st') \<and> target_entries_ok S xs \<and> (\<forall>sn tf c. has_target sn tf c xs \<longleftrightarrow> has_target sn tf c (st_targets st)) \<and>
    served S allowed source (delivery_of topic payload opts props) (st_targets st) (groups_in vs - set (ps_sent st)) vs ds"
  using assms
proof (induction vs arbitrary: st t)
  case Nil
  have "served S allowed source (delivery_of topic payload opts props) (st_targets st) {} [] []" by (simp add: served_def)
  with Nil show ?case by (intro exI [of _ st] exI [of _ "[]"] exI [of _ "st_targets st"] exI [of _ t]) (simp add: advance_id groups_in_def)
next
  case (Cons v vs)
  let ?mk = "delivery_of topic payload opts props"
  have v: "visit_ok S (st_targets st) v" using Cons.prems(1) by simp
  note callback = publish_callback_ok [where clock = clock and st = st and S = S, OF v Cons.prems(2,3,5)]
  from callback [of allowed source topic payload opts props] obtain st1 ds xs where
    1: "publish_callback allowed clock source topic payload opts props v st = Inr st1" "ps_broker st1 = advance xs ds (ps_broker st)"
      "ps_matched st1 \<longleftrightarrow> ps_matched st \<or> ds \<noteq> []" "set (ps_sent st1) = set (ps_sent st) \<union> groups_in [v]" "ps_calls st \<le> ps_calls st1"
      "targets_ok t xs \<or> targets_ok (clock (ps_calls st)) xs \<and> ps_calls st1 = ps_calls st + 1" "target_entries_ok S xs"
      "\<forall>sn tf c. has_target sn tf c xs \<longleftrightarrow> has_target sn tf c (st_targets st)"
      "served S allowed source ?mk (st_targets st) (groups_in [v] - set (ps_sent st)) [v] ds"
    by (elim exE conjE) (rule that)
  have xs: "st_targets st1 = xs" by (simp add: 1(2))
  have "\<exists>t1. targets_ok t1 xs \<and> t1 \<le> clock (ps_calls st1)"
    using 1(6) monoD [OF Cons.prems(4) 1(5)] Cons.prems(3) by (auto intro: order.trans)
  then obtain t1 where t1: "targets_ok t1 (st_targets st1)" "t1 \<le> clock (ps_calls st1)" using xs by auto
  have "\<forall>v \<in> set vs. visit_ok S (st_targets st1) v" using Cons.prems(1) 1(8) xs by (simp add: visit_ok_def)
  from Cons.IH [OF this t1 Cons.prems(4)] 1(7) xs obtain st2 es ys t2 where
    2: "publish_loop allowed clock source topic payload opts props vs st1 = Inr st2" "ps_broker st2 = advance ys es (ps_broker st1)"
      "ps_matched st2 \<longleftrightarrow> ps_matched st1 \<or> es \<noteq> []" "targets_ok t2 ys" "t2 \<le> clock (ps_calls st2)" "target_entries_ok S ys"
      "\<forall>sn tf c. has_target sn tf c ys \<longleftrightarrow> has_target sn tf c xs"
      "served S allowed source ?mk xs (groups_in vs - set (ps_sent st1)) vs es" by auto
  have "(groups_in [v] - set (ps_sent st)) \<inter> (groups_in vs - set (ps_sent st1)) = {}" unfolding 1(4) by blast
  moreover have "(groups_in [v] - set (ps_sent st)) \<union> (groups_in vs - set (ps_sent st1)) = groups_in (v # vs) - set (ps_sent st)"
    unfolding groups_in_Cons [of v vs] 1(4) by blast
  ultimately
  have "served S allowed source ?mk (st_targets st) (groups_in (v # vs) - set (ps_sent st)) (v # vs) (ds @ es)"
    using served_append [OF 1(9) 2(8) _ 1(8)] by simp
  moreover have "publish_loop allowed clock source topic payload opts props (v # vs) st = Inr st2" using 1(1) 2(1) by simp
  moreover have "ps_broker st2 = advance ys (ds @ es) (ps_broker st)" by (simp add: 2(2) 1(2) advance_advance)
  ultimately show ?case using 1(3,8) 2(3-7) by (intro exI [of _ st2] exI [of _ "ds @ es"] exI [of _ ys] exI [of _ t2]) simp
qed

subsection \<open>A message\<close>

text \<open>The groups that share a subscription which matches the topic.\<close>

definition sharing :: "(bytes, subscription) subscriptions \<Rightarrow> bytes \<Rightarrow> bytes \<Rightarrow> bytes \<Rightarrow> bool" where
  "sharing A topic sn tf \<longleftrightarrow> filter_matches True (tokens tf) (tokens topic) \<and> (\<exists>k v. A tf k = Some v \<and> sb_sharename v = sn)"

lemma visited_groups:
  assumes "implements m A" and s: "subs_ok S xs A" and "validate_topic_name topic" and "visits_all order" and "sn \<noteq> []"
  shows "(sn, tf) \<in> groups_in (visited order topic m) \<longleftrightarrow> sharing A topic sn tf"
proof -
  note vis = visited_set [OF assms(1-4)]
  have "A tf (ss_client_id (sb_ss v)) = Some v \<and> sb_topic v = tf" if "A tf k = Some v" for k v
    using that s [unfolded subs_ok_def, rule_format, OF that] by simp
  then have "(\<exists>k v. A tf k = Some v \<and> sb_sharename v = sn) \<longleftrightarrow> (\<exists>v. A tf (ss_client_id (sb_ss v)) = Some v \<and> sb_topic v = tf \<and> sb_sharename v = sn)"
    by metis
  then have "sharing A topic sn tf \<longleftrightarrow> filter_matches True (tokens tf) (tokens topic) \<and>
      (\<exists>v. A tf (ss_client_id (sb_ss v)) = Some v \<and> sb_topic v = tf \<and> sb_sharename v = sn)" by (simp only: sharing_def)
  also have "\<dots> \<longleftrightarrow> (\<exists>v. sn = sb_sharename v \<and> tf = sb_topic v \<and> v \<in> set (visited order topic m) \<and> sb_sharename v \<noteq> [])"
    unfolding vis using assms(5) by blast
  also have "\<dots> \<longleftrightarrow> (sn, tf) \<in> groups_in (visited order topic m)" unfolding groups_in_def by blast
  finally show ?thesis by blast
qed

lemma plain_deliveries:
  assumes served: "served S allowed source (delivery_of topic payload opts props) xs G vs ds" and v: "sb_sharename v = []"
  shows "length (filter (\<lambda>d. dl_sub d = v) ds) = (if plain_receiver allowed source v then length (filter (\<lambda>x. x = v) vs) else 0)"
proof -
  let ?mk = "delivery_of topic payload opts props"
  have "filter (\<lambda>d. dl_sub d = v) ds = filter (\<lambda>d. dl_sub d = v) (filter (\<lambda>d. sb_sharename (dl_sub d) = []) ds)"
    using v unfolding filter_filter by (intro filter_cong) auto
  also have "\<dots> = map ?mk (filter (\<lambda>x. x = v) (filter (plain_receiver allowed source) vs))"
    using served by (simp add: served_def filter_map comp_def delivery_of_def)
  also have "filter (\<lambda>x. x = v) (filter (plain_receiver allowed source) vs) = (if plain_receiver allowed source v then filter (\<lambda>x. x = v) vs else [])"
    by (auto simp: filter_empty_conv intro: filter_cong)
  finally show ?thesis by simp
qed

definition retained_after :: "protocol_version \<Rightarrow> bytes \<Rightarrow> bytes list \<Rightarrow> pubopts \<Rightarrow> properties \<Rightarrow> (bytes \<Rightarrow> retain_type option) \<Rightarrow> bytes \<Rightarrow> retain_type option" where
  "retained_after version topic payload opts props R =
     (if opts_get_retain opts \<noteq> retain_yes then R
      else if payload = [] then R(topic := None)
      else R(topic \<mapsto> \<lparr>rt_topic = topic, rt_payload = payload, rt_props = props, rt_qos = opts_get_qos opts,
                       rt_expiry = message_expiry version props\<rparr>))"

lemma topic_no_wildcards: "validate_topic_name topic \<Longrightarrow> no_wildcards topic"
  using topic_levels [of topic] by (auto simp: no_wildcards_def list_all_iff)

lemma publish_retain_ok:
  assumes "retained_holds (bk_retains b) R" and "retained_room topic (bk_retains b)" and "validate_topic_name topic"
  shows "\<exists>m. publish_retain version topic payload opts props b = Inr (b\<lparr>bk_retains := m\<rparr>) \<and>
    retained_holds m (retained_after version topic payload opts props R)"
proof -
  let ?v = "\<lparr>rt_topic = topic, rt_payload = payload, rt_props = props, rt_qos = opts_get_qos opts, rt_expiry = message_expiry version props\<rparr>"
  obtain m1 where 1: "retained_insert topic ?v (bk_retains b) = Inr (if R topic = None then 1 else 0, m1)" "retained_holds m1 (R(topic \<mapsto> ?v))"
    using retained_insert_law [OF assms(1,2) topic_no_wildcards [OF assms(3)], of ?v] by blast
  obtain m2 where 2: "retained_erase topic (bk_retains b) = (if R topic = None then 0 else 1, m2)" "retained_holds m2 (R(topic := None))"
    using retained_erase_law [OF assms(1), of topic] by blast
  show ?thesis
  proof (cases "opts_get_retain opts = retain_yes")
    case True
    then show ?thesis using 1 2 by (cases "payload = []") (auto simp: publish_retain_def retained_after_def)
  next
    case False
    then show ?thesis using assms(1) by (intro exI [of _ "bk_retains b"]) (simp add: publish_retain_def retained_after_def)
  qed
qed

lemma do_publish_ok:
  assumes ok: "broker_ok S t (bk_subs b) A" and topic: "validate_topic_name topic" and order: "visits_all order" and clock: "mono clock" "t \<le> clock 0"
    and R: "retained_holds (bk_retains b) R" "retained_room topic (bk_retains b)"
  shows "\<exists>ds b' t'. do_publish order clock auth_sub source version topic payload opts props b = Inr (ds \<noteq> [], b') \<and>
    bk_delivered b' = bk_delivered b @ ds \<and> bk_responses b' = bk_responses b \<and> broker_ok S t' (bk_subs b') A \<and>
    retained_holds (bk_retains b') (retained_after version topic payload opts props R) \<and>
    served S (auth_sub topic) source (delivery_of topic payload opts props) (br_shared_targets (bk_subs b))
      (groups_in (visited order topic (br_subs_map (bk_subs b)))) (visited order topic (br_subs_map (bk_subs b))) ds"
proof -
  let ?m = "br_subs_map (bk_subs b)" and ?xs = "br_shared_targets (bk_subs b)"
  let ?vs = "visited order topic ?m" and ?st = "\<lparr>ps_matched = False, ps_sent = [], ps_calls = 0, ps_broker = b\<rparr>"
  have m: "implements ?m A" and s: "subs_ok S ?xs A" and t: "targets_ok t ?xs" and e: "target_entries_ok S ?xs" and h: "handles_ok S (bk_subs b) A"
    using ok by (simp_all add: broker_ok_def)
  have "visit_ok S ?xs v" if v: "v \<in> set ?vs" for v
  proof -
    have "A (sb_topic v) (ss_client_id (sb_ss v)) = Some v" using v visited_set [OF m s topic order] by blast
    from s [unfolded subs_ok_def, rule_format, OF this] show ?thesis by (simp add: visit_ok_def)
  qed
  then have vs: "\<forall>v \<in> set ?vs. visit_ok S (st_targets ?st) v" by simp
  have pre: "targets_ok t (st_targets ?st)" "t \<le> clock (ps_calls ?st)" "target_entries_ok S (st_targets ?st)" using t clock(2) e by simp_all
  note loop = publish_loop_ok [where clock = clock and st = ?st and S = S, OF vs pre(1,2) clock(1) pre(3)]
  from loop [of "auth_sub topic" source topic payload opts props] obtain st' ds xs t' where
    1: "publish_loop (auth_sub topic) clock source topic payload opts props ?vs ?st = Inr st'" "ps_broker st' = advance xs ds (ps_broker ?st)"
      "ps_matched st' \<longleftrightarrow> ps_matched ?st \<or> ds \<noteq> []" "targets_ok t' xs" "t' \<le> clock (ps_calls st')" "target_entries_ok S xs"
      "\<forall>sn tf c. has_target sn tf c xs \<longleftrightarrow> has_target sn tf c (st_targets ?st)"
      "served S (auth_sub topic) source (delivery_of topic payload opts props) (st_targets ?st) (groups_in ?vs - set (ps_sent ?st)) ?vs ds"
    by (elim exE conjE) (rule that)
  have keep: "bk_retains (ps_broker st') = bk_retains b" "bk_delivered (ps_broker st') = bk_delivered b @ ds" "bk_responses (ps_broker st') = bk_responses b"
    "bk_subs (ps_broker st') = (bk_subs b)\<lparr>br_shared_targets := xs\<rparr>" using 1(2) by (simp_all add: advance_def)
  from publish_retain_ok [of "ps_broker st'" R topic version payload opts props] R topic keep(1) obtain m' where
    2: "publish_retain version topic payload opts props (ps_broker st') = Inr ((ps_broker st')\<lparr>bk_retains := m'\<rparr>)"
      "retained_holds m' (retained_after version topic payload opts props R)" by auto
  let ?b = "(ps_broker st')\<lparr>bk_retains := m'\<rparr>"
  have "subs_ok S xs A" by (rule subs_ok_mono [OF s]) (use 1(7) in simp)
  then have "broker_ok S t' (bk_subs ?b) A" using m h 1(4,6) keep(4) by (simp add: broker_ok_def handles_ok_def)
  moreover have "do_publish order clock auth_sub source version topic payload opts props b = Inr (ds \<noteq> [], ?b)"
    using 1(1,3) 2(1) by (simp add: do_publish_def)
  ultimately show ?thesis using keep 1(8) 2(2) by (intro exI [of _ ds] exI [of _ ?b] exI [of _ t']) simp
qed

subsection \<open>Properties\<close>


definition sample_pub_ops :: "(nat \<times> session_op) list" where
  "sample_pub_ops = [(1, Se_subscribe (sample_session 1) [] [0x74] 0 None), (2, Se_subscribe (sample_session 2) [0x67] [0x74] 1 (Some 5))]"

definition sample_plain_sub :: subscription where
  "sample_plain_sub = the_subscription (sample_session 1) [] [0x74] 0 None"

definition sample_shared :: subscription where
  "sample_shared = the_subscription (sample_session 2) [0x67] [0x74] 1 (Some 5)"

lemma sample_pub_state:
  "\<exists>rs s. session_run sample_pub_ops broker_subs_init = Some (Inr (rs, s)) \<and>
    broker_ok {sample_session 1, sample_session 2} 2 s ((\<lambda>_ _. None)([0x74] := [[1] \<mapsto> sample_plain_sub, [2] \<mapsto> sample_shared]))"
proof -
  have "inj_on ss_client_id {sample_session 1, sample_session 2}" "\<forall>op \<in> set sample_pub_ops. op_allowed {sample_session 1, sample_session 2} (snd op)"
    "sorted (map fst sample_pub_ops)" "sum_list (map (session_levels \<circ> snd) sample_pub_ops) + 2 < count_max"
    by (simp_all add: sample_session_def sample_pub_ops_def tokens.simps topic_chars count_max_def sid_ok_def)
  from session_run_from_init [OF this] obtain s where
    s: "session_run sample_pub_ops broker_subs_init = Some (Inr (fst (subs_spec_run (map snd sample_pub_ops) (\<lambda>_ _. None)), s))"
      "broker_ok {sample_session 1, sample_session 2} (last (0 # map fst sample_pub_ops)) s (snd (subs_spec_run (map snd sample_pub_ops) (\<lambda>_ _. None)))" by blast
  have "snd (subs_spec_run (map snd sample_pub_ops) (\<lambda>_ _. None)) = (\<lambda>_ _. None)([0x74] := [[1] \<mapsto> sample_plain_sub, [2] \<mapsto> sample_shared])"
    by (simp add: sample_pub_ops_def sample_plain_sub_def sample_shared_def sample_session_def fun_upd_twist)
  with s show ?thesis by (intro exI conjI) (simp_all add: sample_pub_ops_def)
qed

definition sample_broker :: "broker_subs \<Rightarrow> broker" where
  "sample_broker s = \<lparr>bk_subs = s, bk_retains = retained_map_init, bk_delivered = [], bk_responses = []\<rparr>"

lemma sample_broker_ok:
  "validate_topic_name [0x74]" "visits_all (\<lambda>c. sorted_list_of_set (dom c))" "mono (\<lambda>i. 2 + i :: nat)" "(2 :: nat) \<le> (\<lambda>i. 2 + i) 0"
  "retained_holds (bk_retains (sample_broker s)) (\<lambda>_. None)" "retained_room [0x74] (bk_retains (sample_broker s))"
  using init_holds
  by (simp_all add: visits_all_def mono_def sample_broker_def retained_room_def retained_map_init_def root_node_id_def size_max_def tokens.simps topic_chars
    validate_topic_name_def find_first_of_def)


text \<open>
  C21. In every consistent state, a message on a valid topic is handed to at most one session of each group that shares a
  filter which matches, to none of a group without such a filter, and to exactly one when the sessions of the group are all allowed to get it. The session
  chosen is subscribed with that share name and filter.
\<close>

theorem shared_group_served_once:
  assumes "broker_ok S t (bk_subs b) A" and "validate_topic_name topic" and "visits_all order" and "mono clock" "t \<le> clock 0"
    and "retained_holds (bk_retains b) R" "retained_room topic (bk_retains b)"
  shows "\<exists>ds b'. do_publish order clock auth_sub source version topic payload opts props b = Inr (ds \<noteq> [], b') \<and>
    bk_delivered b' = bk_delivered b @ ds \<and>
    (\<forall>sn tf. sn \<noteq> [] \<longrightarrow> length (filter (delivered_to sn tf) ds) \<le> of_bool (sharing A topic sn tf) \<and>
       ((\<forall>ss \<in> S. has_target sn tf (ss_client_id ss) (br_shared_targets (bk_subs b)) \<longrightarrow> auth_sub topic ss) \<longrightarrow>
          length (filter (delivered_to sn tf) ds) = of_bool (sharing A topic sn tf))) \<and>
    (\<forall>d \<in> set ds. sb_sharename (dl_sub d) \<noteq> [] \<longrightarrow> auth_sub topic (dl_ss d) \<and>
       has_target (sb_sharename (dl_sub d)) (sb_topic (dl_sub d)) (ss_client_id (dl_ss d)) (br_shared_targets (bk_subs b)))"
proof -
  let ?vs = "visited order topic (br_subs_map (bk_subs b))" and ?mk = "delivery_of topic payload opts props"
  have ok: "implements (br_subs_map (bk_subs b)) A" "subs_ok S (br_shared_targets (bk_subs b)) A" using assms(1) by (simp_all add: broker_ok_def)
  from do_publish_ok [OF assms, of auth_sub source version payload opts props] obtain ds b' t' where
    1: "do_publish order clock auth_sub source version topic payload opts props b = Inr (ds \<noteq> [], b')" "bk_delivered b' = bk_delivered b @ ds"
      "bk_responses b' = bk_responses b" "broker_ok S t' (bk_subs b') A" "retained_holds (bk_retains b') (retained_after version topic payload opts props R)"
      "served S (auth_sub topic) source ?mk (br_shared_targets (bk_subs b)) (groups_in ?vs) ?vs ds" by (elim exE conjE) (rule that)
  note groups = visited_groups [OF ok assms(2,3)]
  have "dl_ss d = sb_ss (dl_sub d)" if "d = ?mk (dl_sub d)" for d using that by (metis delivery.select_convs(1) delivery_of_def)
  then have "\<forall>d \<in> set ds. sb_sharename (dl_sub d) \<noteq> [] \<longrightarrow> auth_sub topic (dl_ss d) \<and>
       has_target (sb_sharename (dl_sub d)) (sb_topic (dl_sub d)) (ss_client_id (dl_ss d)) (br_shared_targets (bk_subs b))"
    using 1(6) unfolding served_def by metis
  moreover have "length (filter (delivered_to sn tf) ds) \<le> of_bool (sharing A topic sn tf) \<and>
       ((\<forall>ss \<in> S. has_target sn tf (ss_client_id ss) (br_shared_targets (bk_subs b)) \<longrightarrow> auth_sub topic ss) \<longrightarrow>
          length (filter (delivered_to sn tf) ds) = of_bool (sharing A topic sn tf))" if sn: "sn \<noteq> []" for sn tf
    using 1(6) sn unfolding served_def groups [OF sn, symmetric] by blast
  ultimately show ?thesis using 1(1,2) by blast
qed

theorem shared_group_served_once_witness:
  "\<exists>rs s ds b'. session_run sample_pub_ops broker_subs_init = Some (Inr (rs, s)) \<and>
    do_publish (\<lambda>c. sorted_list_of_set (dom c)) (\<lambda>i. 2 + i) (\<lambda>_ _. True) (sample_session 2) V5 [0x74] [[0x68]] 0x03 [] (sample_broker s) = Inr (True, b') \<and>
    length (filter (delivered_to [0x67] [0x74]) ds) = 1 \<and> bk_delivered b' = ds"
proof -
  let ?A = "(\<lambda>_ _. None)([0x74] := [[1] \<mapsto> sample_plain_sub, [2] \<mapsto> sample_shared]) :: (bytes, subscription) subscriptions"
  from sample_pub_state obtain rs s where
    s: "session_run sample_pub_ops broker_subs_init = Some (Inr (rs, s))" "broker_ok {sample_session 1, sample_session 2} 2 (bk_subs (sample_broker s)) ?A"
    by (auto simp: sample_broker_def)
  from shared_group_served_once [OF s(2) sample_broker_ok, of "\<lambda>_ _. True" "sample_session 2" V5 "[[0x68]]" "0x03" "[]"] obtain ds b' where
    1: "do_publish (\<lambda>c. sorted_list_of_set (dom c)) (\<lambda>i. 2 + i) (\<lambda>_ _. True) (sample_session 2) V5 [0x74] [[0x68]] 0x03 [] (sample_broker s) = Inr (ds \<noteq> [], b')"
      "bk_delivered b' = bk_delivered (sample_broker s) @ ds"
      "\<forall>sn tf. sn \<noteq> [] \<longrightarrow> length (filter (delivered_to sn tf) ds) = of_bool (sharing ?A [0x74] sn tf)" by auto
  have "sharing ?A [0x74] [0x67] [0x74]"
    by (auto simp: sharing_def sample_shared_def the_subscription_def tokens.simps topic_chars intro!: exI [of _ "[2]"])
  then have "length (filter (delivered_to [0x67] [0x74]) ds) = 1" using 1(3) by simp
  moreover from this have "ds \<noteq> []" by auto
  ultimately show ?thesis using s(1) 1(1,2) by (intro exI [of _ rs] exI [of _ s] exI [of _ ds] exI [of _ b']) (simp add: sample_broker_def)
qed

fun pubres_packet :: "publish_response \<Rightarrow> control_packet_type \<times> nat" where
  "pubres_packet (Pubres_v3 type pid) = (type, pid)"
| "pubres_packet (Pubres_v5 type pid r) = (type, pid)"

text \<open>A v5 response without a reason code means success.\<close>

fun pubres_reason :: "publish_response \<Rightarrow> byte" where
  "pubres_reason (Pubres_v3 type pid) = rc_success"
| "pubres_reason (Pubres_v5 type pid r) = (case r of None \<Rightarrow> rc_success | Some (rc, _) \<Rightarrow> rc)"

lemma send_pubres_once:
  assumes "version \<in> {V3_1_1, V5}" and "opts_get_qos opts \<in> {at_least_once, exactly_once}"
  shows "\<exists>r. send_pubres version puback_props pubrec_props opts pid authorized hit = [r] \<and>
    pubres_packet r = (if opts_get_qos opts = at_least_once then Cpt_puback else Cpt_pubrec, pid) \<and>
    (version = V5 \<longrightarrow> pubres_reason r = (if \<not> authorized then rc_not_authorized else if hit then rc_success else rc_no_matching_subscribers))"
  using assms by (auto simp: send_pubres_def Let_def qos_defs)

text \<open>
  C22. A PUBLISH of QoS 1 or 2 from a client with a session, on a valid topic, is answered by exactly one packet: a PUBACK or PUBREC with
  its identifier. In MQTT 5.0 the reason is not authorized when the client must not publish on the topic, and then nobody gets the
  message and the retained messages stay; otherwise it says whether anyone got the message, and the message is retained, removes the retained one or
  leaves it, as its retain flag and payload say, without topic alias and subscription identifiers.
\<close>

theorem publish_answered:
  assumes "broker_ok S t (bk_subs b) A" and "validate_topic_name topic" and "visits_all order" and "mono clock" "t \<le> clock 0"
    and "retained_holds (bk_retains b) R" "retained_room topic (bk_retains b)"
    and "version \<in> {V3_1_1, V5}" and "opts_get_qos opts \<in> {at_least_once, exactly_once}"
    and "o' = pubopts_or (pubopts_of_qos (opts_get_qos opts)) (opts_get_retain opts)"
  shows "\<exists>ds b' r. publish_handler order clock auth_pub auth_sub puback_props pubrec_props version (Some (ss, ss_version)) pid opts topic payload props b = Inr b' \<and>
    bk_delivered b' = bk_delivered b @ ds \<and> bk_responses b' = bk_responses b @ [r] \<and>
    pubres_packet r = (if opts_get_qos opts = at_least_once then Cpt_puback else Cpt_pubrec, pid) \<and>
    (version = V5 \<longrightarrow> pubres_reason r =
       (if \<not> auth_pub topic ss then rc_not_authorized else if ds = [] then rc_no_matching_subscribers else rc_success)) \<and>
    (\<not> auth_pub topic ss \<longrightarrow> ds = []) \<and>
    retained_holds (bk_retains b') (if auth_pub topic ss then retained_after ss_version topic payload o' (forward_props props) R else R)"
proof (cases "auth_pub topic ss")
  case True
  from do_publish_ok [OF assms(1-7), of auth_sub ss ss_version payload o' "forward_props props"] obtain ds b1 t' where
    1: "do_publish order clock auth_sub ss ss_version topic payload o' (forward_props props) b = Inr (ds \<noteq> [], b1)" "bk_delivered b1 = bk_delivered b @ ds"
      "bk_responses b1 = bk_responses b" "retained_holds (bk_retains b1) (retained_after ss_version topic payload o' (forward_props props) R)"
    by (elim exE conjE) (rule that)
  obtain r where r: "send_pubres version puback_props pubrec_props opts pid True (ds \<noteq> []) = [r]"
    "pubres_packet r = (if opts_get_qos opts = at_least_once then Cpt_puback else Cpt_pubrec, pid)"
    "version = V5 \<longrightarrow> pubres_reason r = (if ds \<noteq> [] then rc_success else rc_no_matching_subscribers)"
    using send_pubres_once [OF assms(8,9), of puback_props pubrec_props pid True "ds \<noteq> []"] by auto
  let ?b = "b1\<lparr>bk_responses := bk_responses b1 @ [r]\<rparr>"
  have "publish_handler order clock auth_pub auth_sub puback_props pubrec_props version (Some (ss, ss_version)) pid opts topic payload props b = Inr ?b"
    using True 1(1) r(1) unfolding assms(10) by (simp add: publish_handler_def)
  with True 1 r(2,3) show ?thesis by (intro exI [of _ ds] exI [of _ ?b] exI [of _ r]) auto
next
  case False
  obtain r where r: "send_pubres version puback_props pubrec_props opts pid False False = [r]"
    "pubres_packet r = (if opts_get_qos opts = at_least_once then Cpt_puback else Cpt_pubrec, pid)" "version = V5 \<longrightarrow> pubres_reason r = rc_not_authorized"
    using send_pubres_once [OF assms(8,9), of puback_props pubrec_props pid False False] by auto
  let ?b = "b\<lparr>bk_responses := bk_responses b @ [r]\<rparr>"
  have "publish_handler order clock auth_pub auth_sub puback_props pubrec_props version (Some (ss, ss_version)) pid opts topic payload props b = Inr ?b"
    using False r(1) by (simp add: publish_handler_def)
  with False r(2,3) assms(6) show ?thesis by (intro exI [of _ "[]"] exI [of _ ?b] exI [of _ r]) auto
qed

theorem publish_answered_witness:
  "\<exists>rs s b' r. session_run sample_pub_ops broker_subs_init = Some (Inr (rs, s)) \<and>
    publish_handler (\<lambda>c. sorted_list_of_set (dom c)) (\<lambda>i. 2 + i) (\<lambda>_ _. False) (\<lambda>_ _. True) [] [] V5 (Some (sample_session 1, V5)) 7 0x03
      [0x74] [[0x68]] [] (sample_broker s) = Inr b' \<and>
    bk_responses b' = [r] \<and> pubres_packet r = (Cpt_puback, 7) \<and> pubres_reason r = rc_not_authorized"
proof -
  from sample_pub_state obtain rs s where
    s: "session_run sample_pub_ops broker_subs_init = Some (Inr (rs, s))"
      "broker_ok {sample_session 1, sample_session 2} 2 (bk_subs (sample_broker s)) ((\<lambda>_ _. None)([0x74] := [[1] \<mapsto> sample_plain_sub, [2] \<mapsto> sample_shared]))"
    by (auto simp: sample_broker_def)
  have q: "opts_get_qos 0x03 = at_least_once" by (simp add: opts_get_qos_def at_least_once_def)
  have "V5 \<in> {V3_1_1, V5}" "opts_get_qos 0x03 \<in> {at_least_once, exactly_once}" by (simp_all add: q)
  from publish_answered [OF s(2) sample_broker_ok this refl, of "\<lambda>_ _. False" "\<lambda>_ _. True" "[]" "[]" "sample_session 1" V5 7 "[[0x68]]" "[]"] obtain b' r where
    "publish_handler (\<lambda>c. sorted_list_of_set (dom c)) (\<lambda>i. 2 + i) (\<lambda>_ _. False) (\<lambda>_ _. True) [] [] V5 (Some (sample_session 1, V5)) 7 0x03
      [0x74] [[0x68]] [] (sample_broker s) = Inr b'" "bk_responses b' = [r]" "pubres_packet r = (Cpt_puback, 7)" "pubres_reason r = rc_not_authorized"
    by (auto simp: q sample_broker_def)
  with s(1) show ?thesis by (intro exI conjI)
qed

end
