(* ===== verification/Spec2Isabelle.thy ===== *)
theory Spec2Isabelle
  imports End_To_End Connection_Flow Packet_Types Endpoint_Recv Client_Answer Stream_Run Subscription_Spec Broker_Publish
begin

text \<open>
  A model of async\_mqtt, a C++ library for MQTT 3.1.1 and 5.0, and of the data structures of its broker. Paths are
  relative to \<^verbatim>\<open>src/include/async_mqtt\<close>, those of the broker to \<^verbatim>\<open>src/tool/include/broker\<close>.

  \<^bold>\<open>The program.\<close> The heart of the library is a protocol engine without input and output,
  \<^verbatim>\<open>basic_connection_impl\<close>: its owner calls \<^verbatim>\<open>send\<close> with packets and \<^verbatim>\<open>recv\<close> with bytes, and the engine answers by calls back:
  send this, deliver that, start a timer, release an identifier, close. It builds on packet classes that keep their encoded
  form, on a reassembly of packets from the stream, on an allocator of packet identifiers, on a store of unacknowledged
  packets and on tables of topic aliases. Above it, the endpoint drives one engine over a stream of Boost.Asio by
  composed operations that are resumed when the network or a timer reports; the stream serialises the writes; the client sends requests
  over an endpoint and completes them with their responses. The broker is a program that uses the library; its own core are the
  maps of subscriptions and retained messages and the distribution of messages over them.

  \<^bold>\<open>The theories\<close>, from the bottom:

  \<^item> \<^verbatim>\<open>Prelude\<close>: machine types, results of fallible code, lemmas on lists.
  \<^item> \<^verbatim>\<open>Value_Allocator\<close> (\<^verbatim>\<open>util/value_allocator.hpp\<close>, \<^verbatim>\<open>protocol/impl/packet_id_manager.hpp\<close>): the intervals of free
    values, at the width of the C++ type. The pool stays sorted and disjoint, and every run refines a set from
    which the least value is taken (locale \<open>id_pool\<close>).
  \<^item> \<^verbatim>\<open>Variable_Bytes\<close>, \<^verbatim>\<open>Utf8\<close>, \<^verbatim>\<open>Error_Codes\<close>, \<^verbatim>\<open>Packet_Basics\<close>, \<^verbatim>\<open>Property\<close>: integers on the wire, the check of
    strings (equivalent to the set MQTT defines), the enumerations, option bytes and headers, the 27 properties.
  \<^item> \<^verbatim>\<open>V3_Packets\<close>, \<^verbatim>\<open>V5_Packets\<close>, \<^verbatim>\<open>V5_Codec\<close>, \<^verbatim>\<open>Packet_Variant\<close>, \<^verbatim>\<open>Packet_Types\<close> (\<^verbatim>\<open>protocol/packet\<close>): constructors,
    parsing constructors and buffer sequences of all packet classes. Each class meets the contract \<open>packet_codec\<close>: what is written is
    parsed back, and the size is exact; so does the variant of all of them.
  \<^item> \<^verbatim>\<open>Packet_Builder\<close>, \<^verbatim>\<open>Store\<close>, \<^verbatim>\<open>Topic_Alias\<close>: reassembly, which does not depend on how the stream is cut; the store
    (locale \<open>message_store\<close>); the alias tables (locales \<open>alias_table\<close>, \<open>open_alias_table\<close>).
  \<^item> \<^verbatim>\<open>Connection\<close>: the engine; a record for its members, one definition for each stage of \<^verbatim>\<open>process_send_packet\<close> and for each handler of
    \<^verbatim>\<open>process_recv_packet\<close>, the calls back as a list of events. \<^verbatim>\<open>Connection_Rel\<close>: a relation that the elementary
    actions respect is respected by every operation (locales \<open>send_relation\<close>, \<open>receive_relation\<close>, \<open>handler_relation\<close>,
    \<open>engine_relation\<close>). Its interpretations give the invariants of \<^verbatim>\<open>Connection_Inv\<close> (timers, store) and \<^verbatim>\<open>Exactly_Once\<close>
    (QoS 2). \<^verbatim>\<open>Connection_Send\<close>: what send hands over and reports. \<^verbatim>\<open>Connection_Wire\<close>, \<^verbatim>\<open>End_To_End\<close>: the engine on
    bytes, and two engines connected to each other, up to the end of an exchange. \<^verbatim>\<open>Connection_Session\<close>,
    \<^verbatim>\<open>Connection_Flow\<close>: resumption of sessions, maximum packet size and receive maximum.
  \<^item> \<^verbatim>\<open>Endpoint\<close>, \<^verbatim>\<open>Endpoint_Run\<close>, \<^verbatim>\<open>Endpoint_Recv\<close> (\<^verbatim>\<open>asio_bind/impl/endpoint_*\<close>): the composed operations as values
    with their state, schedules as lists of events that resume them. The engine is reached by its operations only (locale
    \<open>engine_invariant\<close>), the stream is closed once, and a receive always gets somewhere.
  \<^item> \<^verbatim>\<open>Client\<close>, \<^verbatim>\<open>Client_Run\<close>, \<^verbatim>\<open>Client_Answer\<close> (\<^verbatim>\<open>asio_bind/impl/client_*\<close>): requests, their elements and timers. Responses belong to
    their requests; an error ends them all.
  \<^item> \<^verbatim>\<open>Stream_Impl\<close>, \<^verbatim>\<open>Stream_Run\<close> (\<^verbatim>\<open>asio_bind/impl/stream_impl.hpp\<close>, \<^verbatim>\<open>util/ioc_queue.hpp\<close>): the queue of writes. In every schedule packets
    are written whole, in order, one at a time, and each call completes.
  \<^item> \<^verbatim>\<open>Topic_Filter\<close>, \<^verbatim>\<open>Subscription_Map\<close>, \<^verbatim>\<open>Subscription_Tree\<close>, \<^verbatim>\<open>Subscription_Inv\<close>, \<^verbatim>\<open>Subscription_Ops\<close>, \<^verbatim>\<open>Subscription_Erase\<close>,
    \<^verbatim>\<open>Subscription_Match\<close>, \<^verbatim>\<open>Subscription_Spec\<close> (\<^verbatim>\<open>topic_filter.hpp\<close>, \<^verbatim>\<open>subscription_map.hpp\<close>): the map with its counts and
    flags implements a function from filters and keys to values, and a search calls back once per matching entry
    (locale \<open>subscription_store\<close>).
  \<^item> \<^verbatim>\<open>Retained_Map\<close>, \<^verbatim>\<open>Retained_Tree\<close>, \<^verbatim>\<open>Retained_Spec\<close> (\<^verbatim>\<open>retained_topic_map.hpp\<close>): the same for topics (locale \<open>topic_store\<close>), with the
    filters for which the search misses topics. \<^verbatim>\<open>Shared_Target\<close> (\<^verbatim>\<open>shared_target_impl.hpp\<close>): sessions are served in turn.
  \<^item> \<^verbatim>\<open>Broker_Session\<close> (\<^verbatim>\<open>session_state.hpp\<close>), \<^verbatim>\<open>Broker_Publish\<close> (\<^verbatim>\<open>broker.hpp\<close>): the subscriptions of sessions over the maps, and the
    distribution of a message: to each plain subscription once, to each group once, with the response to the publisher.

  \<^bold>\<open>Effects.\<close> State is a record that is passed and returned; a call back, a started operation or a packet written is an element of
  a list in it. An error code or an exception is \<open>Inl\<close>. Handlers of one executor run one at a time, so a schedule is a
  list of events; the mutexes of the broker make each operation one step. Clocks, iteration orders of hash containers, what the network
  reports and the decisions of the access rules are arguments.

  \<^bold>\<open>Bounds.\<close> Lengths and sizes in memory are natural numbers. Packet identifiers, counts with 62 bits, node identifiers
  with 64 and the 16-bit count of sent packets have the width of the code. Loops are structural recursions or have a measure. Fuel
  occurs in \<open>settle\<close>, a number of deliveries (two for QoS 1 and four for QoS 2 are proved to be enough), and in \<open>recv_run\<close>, for
  which ten turns per buffered byte and fourteen more are enough. The walk along the handles of the subscription map is a partial function, proved to
  end in well-formed maps. The maps of the broker are assumed to have room: fewer levels inserted than identifiers. The codecs of
  the acknowledgements of MQTT 5.0 and what rests on them are for packet identifiers of two bytes, the default of the library.

  \<^bold>\<open>Not modelled:\<close> the layers below the stream (\<^verbatim>\<open>asio_bind/predefined_layer\<close>: type definitions over Boost.Asio and Boost.Beast);
  \<^verbatim>\<open>util/buffer.hpp\<close> and other helpers of the language, since a buffer is the list of its bytes; logging and output to streams; the parser of
  host and port, a grammar of Boost.Spirit. Of the broker: sessions that are connected, kept and resumed, messages that wait for a client,
  will messages and the timers of both, the handlers of the other packets, access rules, sockets and threads, which rest on
  the endpoint and on shared pointers and timers of Boost. The benchmark, the command line client, examples and tests are programs around the
  library.
\<close>

end
